(* ===== verification/Prelude.thy ===== *)
theory Prelude
  imports Main "HOL-Library.Word"
begin

unbundle bit_operations_syntax

text \<open>
  The shared base of the development: the widths of the MSP430 C compiler the sensor nodes use
  (an \<open>int\<close> and a \<open>short\<close> have 16 bits, a \<open>long\<close> has 32), pointers, the wrap-around comparison of
  timer values, and a locale for "a step function keeps an invariant", which every state machine
  of the development interprets.
\<close>

section \<open>Types\<close>

type_synonym u8 = "8 word"
type_synonym u16 = "16 word"
type_synonym u32 = "32 word"

text \<open>
  \<open>rtimer_clock_t\<close> and \<open>clock_time_t\<close> are both \<open>unsigned short\<close>
  (\<open>core/sys/rtimer.h\<close>, \<open>platform/sky/contiki-conf.h\<close>).
\<close>

type_synonym rtimer_clock_t = "16 word"
type_synonym clock_time_t = "16 word"

text \<open>
  A pointer to an object is a number (its address); \<open>NULL\<close> is \<open>None\<close> where a pointer may be null.
\<close>

type_synonym ptr = nat

text \<open>The facts each component adds for its clients.\<close>

named_theorems contiki_simps \<open>simplification rules of the component models\<close>

named_theorems inv_intros \<open>introduction rules for component invariants\<close>

section \<open>Machine words\<close>

lemma unat16_less [simp]: "unat (w :: u16) < 65536"
  using unsigned_less [of w] by simp

lemma unat8_less [simp]: "unat (w :: u8) < 256"
  using unsigned_less [of w] by simp

lemma unat32_less [simp]: "unat (w :: u32) < 4294967296"
  using unsigned_less [of w] by simp

lemma unat16_of_nat [simp]: "unat (of_nat n :: u16) = n mod 65536"
  by (simp add: unat_of_nat)

lemma unat8_of_nat [simp]: "unat (of_nat n :: u8) = n mod 256"
  by (simp add: unat_of_nat)

lemma unat32_of_nat [simp]: "unat (of_nat n :: u32) = n mod 4294967296"
  by (simp add: unat_of_nat)

text \<open>The sign bit of a 16-bit difference, read as a number.\<close>

lemma sint16_neg_iff: "sint (w :: u16) < 0 \<longleftrightarrow> 32768 \<le> unat w"
proof -
  have s: "sint w = (uint w + 32768) mod 65536 - 32768"
    by (simp add: sint_uint signed_take_bit_eq_take_bit_shift take_bit_eq_mod)
  have b: "0 \<le> uint w" "uint w < 65536"
    using uint_lt2p [of w] by auto
  have hi: "(uint w + 32768) mod 65536 = uint w - 32768" if "32768 \<le> uint w"
  proof -
    have "(uint w + 32768) mod 65536 = (uint w - 32768 + 65536) mod 65536"
      by (simp add: add.commute)
    also have "\<dots> = uint w - 32768"
      using b that by (subst mod_add_self2) (simp add: mod_pos_pos_trivial)
    finally show ?thesis .
  qed
  have lo: "(uint w + 32768) mod 65536 = uint w + 32768" if "\<not> 32768 \<le> uint w"
    using b that by (simp add: mod_pos_pos_trivial)
  have "sint w < 0 \<longleftrightarrow> 32768 \<le> uint w"
    using s b hi lo by (cases "32768 \<le> uint w") auto
  moreover have "int (unat w) = uint w"
    by simp
  ultimately show ?thesis
    by linarith
qed

section \<open>Timer arithmetic that wraps around\<close>

text \<open>\<open>RTIMER_CLOCK_LT(a,b)\<close> of \<open>core/sys/rtimer.h\<close>: \<open>((signed short)((a)-(b)) < 0)\<close>.\<close>

definition rtimer_clock_lt :: "rtimer_clock_t \<Rightarrow> rtimer_clock_t \<Rightarrow> bool" where
  "rtimer_clock_lt a b \<longleftrightarrow> sint (a - b) < 0"

section \<open>Byte arrays\<close>

text \<open>
  A C array of bytes is a list; \<open>mem_get\<close> is the source and \<open>mem_put\<close> the destination of a \<open>memcpy\<close>
  that stays inside the array (the callers' bounds are lemmas of the components).
\<close>

definition mem_get :: "'a list \<Rightarrow> nat \<Rightarrow> nat \<Rightarrow> 'a list" where
  "mem_get m off n = take n (drop off m)"

definition mem_put :: "'a list \<Rightarrow> nat \<Rightarrow> 'a list \<Rightarrow> 'a list" where
  "mem_put m off bs = take off m @ bs @ drop (off + length bs) m"

lemma length_mem_get [simp]: "off + n \<le> length m \<Longrightarrow> length (mem_get m off n) = n"
  by (simp add: mem_get_def)

lemma length_mem_put [simp]: "off + length bs \<le> length m \<Longrightarrow> length (mem_put m off bs) = length m"
  by (simp add: mem_put_def)

lemma mem_get_put_same [simp]: "off + length bs \<le> length m \<Longrightarrow> mem_get (mem_put m off bs) off (length bs) = bs"
  by (simp add: mem_get_def mem_put_def)

lemma mem_get_put_before: "i + n \<le> off \<Longrightarrow> off \<le> length m \<Longrightarrow> mem_get (mem_put m off bs) i n = mem_get m i n"
  by (simp add: mem_get_def mem_put_def take_drop)

lemma mem_get_put_after:
  "off + length bs \<le> i \<Longrightarrow> off + length bs \<le> length m \<Longrightarrow> mem_get (mem_put m off bs) i n = mem_get m i n"
  by (simp add: mem_get_def mem_put_def)

lemma mem_get_split: "mem_get m off (a + b) = mem_get m off a @ mem_get m (off + a) b"
  by (simp add: mem_get_def take_add add.commute)

lemma mem_get_0 [simp]: "mem_get m off 0 = []"
  by (simp add: mem_get_def)

section \<open>Invariants of step functions\<close>

text \<open>\<open>ok s e\<close> is what the caller of an operation guarantees when it happens in state \<open>s\<close>.\<close>

fun run_ok :: "('s \<Rightarrow> 'e \<Rightarrow> 's) \<Rightarrow> ('s \<Rightarrow> 'e \<Rightarrow> bool) \<Rightarrow> 's \<Rightarrow> 'e list \<Rightarrow> bool" where
  "run_ok step ok s [] \<longleftrightarrow> True"
| "run_ok step ok s (e # es) \<longleftrightarrow> ok s e \<and> run_ok step ok (step s e) es"

lemma run_ok_True [simp]: "run_ok step (\<lambda>_ _. True) s es"
  by (induction es arbitrary: s) simp_all

locale machine =
  fixes step :: "'s \<Rightarrow> 'e \<Rightarrow> 's"
    and ok :: "'s \<Rightarrow> 'e \<Rightarrow> bool"
    and inv :: "'s \<Rightarrow> bool"
  assumes inv_step: "inv s \<Longrightarrow> ok s e \<Longrightarrow> inv (step s e)"
begin

lemma inv_run: "inv s \<Longrightarrow> run_ok step ok s es \<Longrightarrow> inv (foldl step s es)"
  by (induction es arbitrary: s) (simp_all add: inv_step)

lemma run_ok_append: "run_ok step ok s (es @ fs) \<longleftrightarrow> run_ok step ok s es \<and> run_ok step ok (foldl step s es) fs"
  by (induction es arbitrary: s) simp_all

text \<open>The invariant holds at every moment of a run, not only at its end.\<close>

lemma inv_always: "inv s \<Longrightarrow> run_ok step ok s (es @ fs) \<Longrightarrow> inv (foldl step s es)"
  by (simp add: run_ok_append inv_run)

end

end
