(* ===== verification/Contiki_List.thy ===== *)
theory Contiki_List
  imports Prelude
begin

text \<open>
  The linked lists of \<open>core/lib/list.c\<close>: a list variable holds a pointer to the first element and
  every element's first field is its \<open>next\<close> pointer. The operations are translated on that heap;
  a loop that follows \<open>next\<close> pointers is a \<open>partial_function (option)\<close>, whose value \<open>None\<close> is a walk
  that never ends (a cyclic list). The abstraction \<open>lrep\<close> relates the heap to a HOL list, and the
  locale \<open>linked_list\<close> states what the rest of the system relies on.
\<close>

section \<open>State and operations\<close>

record lheap =
  lhead :: "ptr option"
  lnext :: "ptr \<Rightarrow> ptr option"

definition list_init :: "lheap \<Rightarrow> lheap" where
  "list_init s = s\<lparr>lhead := None\<rparr>"

definition list_head :: "lheap \<Rightarrow> ptr option" where
  "list_head s = lhead s"

text \<open>\<open>list_copy(dest, src)\<close>: the destination's head becomes the source's; no element is copied.\<close>

definition list_copy :: "lheap \<Rightarrow> ptr option \<Rightarrow> lheap" where
  "list_copy dest src = dest\<lparr>lhead := src\<rparr>"

partial_function (option) tail_from :: "(ptr \<Rightarrow> ptr option) \<Rightarrow> ptr \<Rightarrow> ptr option" where
  "tail_from nx l = (case nx l of None \<Rightarrow> Some l | Some l' \<Rightarrow> tail_from nx l')"

definition list_tail :: "lheap \<Rightarrow> ptr option option" where
  "list_tail s = (case lhead s of None \<Rightarrow> Some None
                  | Some l \<Rightarrow> map_option Some (tail_from (lnext s) l))"

definition list_add :: "lheap \<Rightarrow> ptr \<Rightarrow> lheap option" where
  "list_add s item =
     (let s1 = s\<lparr>lnext := (lnext s)(item := None)\<rparr>
      in case list_tail s1 of
           None \<Rightarrow> None
         | Some None \<Rightarrow> Some (s1\<lparr>lhead := Some item\<rparr>)
         | Some (Some l) \<Rightarrow> Some (s1\<lparr>lnext := (lnext s1)(l := Some item)\<rparr>))"

definition list_push :: "lheap \<Rightarrow> ptr \<Rightarrow> lheap" where
  "list_push s item = s\<lparr>lnext := (lnext s)(item := lhead s), lhead := Some item\<rparr>"

text \<open>The loop of \<open>list_chop\<close>: \<open>r\<close> is \<open>l->next\<close>, which the guards before the loop keep non-null.\<close>

partial_function (option) chop_from :: "(ptr \<Rightarrow> ptr option) \<Rightarrow> ptr \<Rightarrow> ptr \<Rightarrow> (ptr \<times> ptr) option" where
  "chop_from nx l r = (case nx r of None \<Rightarrow> Some (l, r) | Some r' \<Rightarrow> chop_from nx r r')"

definition list_chop :: "lheap \<Rightarrow> (ptr option \<times> lheap) option" where
  "list_chop s =
     (case lhead s of
        None \<Rightarrow> Some (None, s)
      | Some h \<Rightarrow>
          (case lnext s h of
             None \<Rightarrow> Some (Some h, s\<lparr>lhead := None\<rparr>)
           | Some r0 \<Rightarrow>
               (case chop_from (lnext s) h r0 of
                  None \<Rightarrow> None
                | Some (l, r) \<Rightarrow> Some (Some r, s\<lparr>lnext := (lnext s)(l := None)\<rparr>))))"

definition list_pop :: "lheap \<Rightarrow> ptr option \<times> lheap" where
  "list_pop s = (lhead s, (case lhead s of None \<Rightarrow> s | Some h \<Rightarrow> s\<lparr>lhead := lnext s h\<rparr>))"

text \<open>The body of the loop of \<open>list_remove\<close> once the item is found: \<open>r\<close> is the element before it.\<close>

definition list_unlink :: "lheap \<Rightarrow> ptr option \<Rightarrow> ptr \<Rightarrow> lheap" where
  "list_unlink s r p =
     (let s1 = (case r of
                  None \<Rightarrow> s\<lparr>lhead := lnext s p\<rparr>
                | Some q \<Rightarrow> s\<lparr>lnext := (lnext s)(q := lnext s p)\<rparr>)
      in s1\<lparr>lnext := (lnext s1)(p := None)\<rparr>)"

partial_function (option) remove_from :: "lheap \<Rightarrow> ptr \<Rightarrow> ptr option \<Rightarrow> ptr \<Rightarrow> lheap option" where
  "remove_from s item r l =
     (if l = item then Some (list_unlink s r l)
      else (case lnext s l of None \<Rightarrow> Some s | Some l' \<Rightarrow> remove_from s item (Some l) l'))"

definition list_remove :: "lheap \<Rightarrow> ptr \<Rightarrow> lheap option" where
  "list_remove s item = (case lhead s of None \<Rightarrow> Some s | Some h \<Rightarrow> remove_from s item None h)"

partial_function (option) length_from ::
  "(ptr \<Rightarrow> ptr option) \<Rightarrow> ptr option \<Rightarrow> nat \<Rightarrow> nat option" where
  "length_from nx l n = (case l of None \<Rightarrow> Some n | Some p \<Rightarrow> length_from nx (nx p) (Suc n))"

definition list_length :: "lheap \<Rightarrow> nat option" where
  "list_length s = length_from (lnext s) (lhead s) 0"

definition list_insert :: "lheap \<Rightarrow> ptr option \<Rightarrow> ptr \<Rightarrow> lheap" where
  "list_insert s previtem newitem =
     (case previtem of
        None \<Rightarrow> list_push s newitem
      | Some p \<Rightarrow>
          (let s1 = s\<lparr>lnext := (lnext s)(newitem := lnext s p)\<rparr>
           in s1\<lparr>lnext := (lnext s1)(p := Some newitem)\<rparr>))"

section \<open>The abstraction\<close>

fun chain :: "(ptr \<Rightarrow> ptr option) \<Rightarrow> ptr option \<Rightarrow> ptr list \<Rightarrow> bool" where
  "chain nx p [] \<longleftrightarrow> p = None"
| "chain nx p (x # xs) \<longleftrightarrow> p = Some x \<and> chain nx (nx x) xs"

definition lrep :: "lheap \<Rightarrow> ptr list \<Rightarrow> bool" where
  "lrep s xs \<longleftrightarrow> chain (lnext s) (lhead s) xs"

lemma chain_None [simp]: "chain nx None xs \<longleftrightarrow> xs = []"
  by (cases xs) auto

lemma chain_Some: "chain nx (Some p) xs \<longleftrightarrow> (\<exists>ys. xs = p # ys \<and> chain nx (nx p) ys)"
  by (cases xs) auto

lemma chain_unique: "chain nx p xs \<Longrightarrow> chain nx p ys \<Longrightarrow> xs = ys"
  by (induction xs arbitrary: p ys) (auto simp: chain_Some)

lemma chain_suffix: "chain nx p (xs @ y # ys) \<Longrightarrow> chain nx (nx y) ys"
  by (induction xs arbitrary: p) auto

lemma chain_distinct: "chain nx p xs \<Longrightarrow> distinct xs"
proof (induction xs arbitrary: p)
  case (Cons x xs)
  have "x \<notin> set xs"
  proof
    assume "x \<in> set xs"
    then obtain as bs where xs: "xs = as @ x # bs"
      by (meson split_list)
    from Cons.prems have "chain nx (nx x) (as @ x # bs)"
      by (simp add: xs)
    moreover from this have "chain nx (nx x) bs"
      by (rule chain_suffix)
    ultimately have "as @ x # bs = bs"
      by (rule chain_unique)
    then show False
      by (metis add_left_cancel length_append length_Cons length_greater_0_conv less_irrefl
          list.distinct(1) not_add_less2 lessI)
  qed
  with Cons show ?case
    by auto
qed simp

lemma chain_upd_other [simp]: "x \<notin> set xs \<Longrightarrow> chain (nx(x := y)) p xs = chain nx p xs"
  by (induction xs arbitrary: p) auto

lemma chain_append_last:
  "chain nx p (xs @ [l]) \<Longrightarrow> x \<notin> set (xs @ [l]) \<Longrightarrow> nx x = None \<Longrightarrow>
   chain (nx(l := Some x)) p (xs @ [l, x])"
proof (induction xs arbitrary: p)
  case (Cons y ys)
  then have "y \<noteq> l"
    by (metis chain_distinct append_Cons distinct.simps(2) in_set_conv_decomp)
  with Cons show ?case
    by auto
qed auto

lemma tail_from_chain: "chain nx (Some l) (l # xs) \<Longrightarrow> tail_from nx l = Some (last (l # xs))"
proof (induction xs arbitrary: l)
  case Nil
  then show ?case by (simp add: tail_from.simps)
next
  case (Cons x xs)
  then have "nx l = Some x" "chain nx (Some x) (x # xs)"
    by auto
  with Cons.IH [of x] show ?case
    by (subst tail_from.simps) simp
qed

lemma lrep_distinct: "lrep s xs \<Longrightarrow> distinct xs"
  by (auto simp: lrep_def chain_distinct)

lemma lrep_unique: "lrep s xs \<Longrightarrow> lrep s ys \<Longrightarrow> xs = ys"
  by (auto simp: lrep_def dest: chain_unique)

text \<open>A segment: following \<open>next\<close> from \<open>p\<close> through the elements of a list leads to \<open>q\<close>.\<close>

fun seg :: "(ptr \<Rightarrow> ptr option) \<Rightarrow> ptr option \<Rightarrow> ptr list \<Rightarrow> ptr option \<Rightarrow> bool" where
  "seg nx p [] q \<longleftrightarrow> p = q"
| "seg nx p (x # xs) q \<longleftrightarrow> p = Some x \<and> seg nx (nx x) xs q"

lemma seg_append: "seg nx p (xs @ ys) q \<longleftrightarrow> (\<exists>m. seg nx p xs m \<and> seg nx m ys q)"
  by (induction xs arbitrary: p) auto

lemma chain_append: "chain nx p (xs @ ys) \<longleftrightarrow> (\<exists>m. seg nx p xs m \<and> chain nx m ys)"
  by (induction xs arbitrary: p) auto

lemma seg_upd_other [simp]: "x \<notin> set xs \<Longrightarrow> seg (nx(x := y)) p xs q = seg nx p xs q"
  by (induction xs arbitrary: p) auto

section \<open>Every operation refines its list counterpart\<close>

lemma list_init_rep: "lrep (list_init s) []"
  by (simp add: list_init_def lrep_def)

lemma list_head_rep: "lrep s xs \<Longrightarrow> list_head s = (case xs of [] \<Rightarrow> None | x # _ \<Rightarrow> Some x)"
  by (cases xs) (auto simp: list_head_def lrep_def)

lemma list_tail_rep: "lrep s xs \<Longrightarrow> list_tail s = Some (if xs = [] then None else Some (last xs))"
  by (cases xs) (auto simp: list_tail_def lrep_def tail_from_chain)

lemma list_push_rep: "lrep s xs \<Longrightarrow> x \<notin> set xs \<Longrightarrow> lrep (list_push s x) (x # xs)"
  by (simp add: list_push_def lrep_def)

lemma list_pop_rep:
  "lrep s xs \<Longrightarrow> list_pop s = (p, s') \<Longrightarrow>
   p = (case xs of [] \<Rightarrow> None | x # _ \<Rightarrow> Some x) \<and> lrep s' (tl xs)"
  by (cases xs) (auto simp: list_pop_def lrep_def)

lemma list_add_rep:
  assumes "lrep s xs" and "x \<notin> set xs"
  shows "\<exists>s'. list_add s x = Some s' \<and> lrep s' (xs @ [x]) \<and>
           (\<forall>y. y \<notin> insert x (set xs) \<longrightarrow> lnext s' y = lnext s y)"
proof -
  let ?s1 = "s\<lparr>lnext := (lnext s)(x := None)\<rparr>"
  have rep1: "lrep ?s1 xs"
    using assms by (simp add: lrep_def)
  note tail = list_tail_rep [OF rep1]
  show ?thesis
  proof (cases xs rule: rev_cases)
    case Nil
    with tail assms show ?thesis
      by (simp add: list_add_def lrep_def)
  next
    case (snoc ys l)
    have "chain ((lnext ?s1)(l := Some x)) (lhead ?s1) (ys @ [l, x])"
      using rep1 assms(2) snoc unfolding lrep_def by (intro chain_append_last) auto
    with tail snoc show ?thesis
      by (auto simp: list_add_def lrep_def)
  qed
qed

lemma unlink_rep:
  assumes "lrep s (pre @ p # ys)"
  shows "lrep (list_unlink s (if pre = [] then None else Some (last pre)) p) (pre @ ys)"
proof -
  have d: "p \<notin> set pre" "p \<notin> set ys" "distinct pre" "set pre \<inter> set ys = {}"
    using lrep_distinct [OF assms] by auto
  show ?thesis
  proof (cases pre rule: rev_cases)
    case Nil
    with assms d show ?thesis
      by (simp add: list_unlink_def lrep_def)
  next
    case (snoc qs q)
    then have q: "q \<notin> set qs" "q \<notin> set ys" "q \<noteq> p"
      using d by auto
    from assms snoc have sg: "seg (lnext s) (lhead s) qs (Some q)" and ch: "chain (lnext s) (lnext s p) ys"
      by (auto simp: lrep_def chain_append)
    have "seg ((lnext s)(q := lnext s p, p := None)) (lhead s) qs (Some q)"
      using sg q d snoc by simp
    moreover have "chain ((lnext s)(q := lnext s p, p := None)) (lnext s p) ys"
      using ch q d by simp
    ultimately show ?thesis
      using snoc q by (auto simp: list_unlink_def lrep_def chain_append)
  qed
qed

lemma remove_from_rep:
  "lrep s (pre @ l # ys) \<Longrightarrow> item \<notin> set pre \<Longrightarrow>
   \<exists>s'. remove_from s item (if pre = [] then None else Some (last pre)) l = Some s' \<and>
        lrep s' (remove1 item (pre @ l # ys))"
proof (induction ys arbitrary: pre l)
  case Nil
  then have "lnext s l = None"
    by (auto simp: lrep_def chain_append)
  with Nil unlink_rep [OF Nil.prems(1)] show ?case
    by (subst remove_from.simps) (auto simp: remove1_append)
next
  case (Cons y ys)
  show ?case
  proof (cases "l = item")
    case True
    with Cons.prems unlink_rep [OF Cons.prems(1)] show ?thesis
      by (subst remove_from.simps) (auto simp: remove1_append)
  next
    case False
    from Cons.prems(1) have nx: "lnext s l = Some y"
      by (auto simp: lrep_def chain_append)
    have "lrep s ((pre @ [l]) @ y # ys)" "item \<notin> set (pre @ [l])"
      using Cons.prems False by auto
    from Cons.IH [OF this] nx False show ?thesis
      by (subst remove_from.simps) (auto simp: remove1_append)
  qed
qed

lemma list_remove_rep:
  "lrep s xs \<Longrightarrow> \<exists>s'. list_remove s x = Some s' \<and> lrep s' (remove1 x xs)"
  using remove_from_rep [of s "[]" _ _ x]
  by (cases xs) (auto simp: list_remove_def lrep_def)

lemma chop_from_rep:
  "chain nx (Some l) (l # r # xs) \<Longrightarrow>
   chop_from nx l r = Some (last (l # butlast (r # xs)), last (r # xs))"
proof (induction xs arbitrary: l r)
  case Nil
  then show ?case
    by (subst chop_from.simps) auto
next
  case (Cons x xs)
  then have "nx r = Some x" "chain nx (Some r) (r # x # xs)"
    by auto
  with Cons.IH [of r x] show ?case
    by (subst chop_from.simps) simp
qed

lemma list_chop_rep:
  assumes "lrep s xs"
  shows "\<exists>s'. list_chop s = Some (if xs = [] then None else Some (last xs), s') \<and> lrep s' (butlast xs)"
proof (cases xs rule: rev_cases)
  case Nil
  with assms show ?thesis
    by (simp add: list_chop_def lrep_def)
next
  case xs: (snoc ys z)
  show ?thesis
  proof (cases ys rule: rev_cases)
    case Nil
    with assms xs show ?thesis
      by (auto simp: list_chop_def lrep_def)
  next
    case (snoc zs y)
    obtain h r rest where hr: "xs = h # r # rest"
      using xs snoc by (cases xs; cases "tl xs"; cases zs) auto
    from assms hr have ch: "chain (lnext s) (Some h) (h # r # rest)" and head: "lhead s = Some h"
      and hn: "lnext s h = Some r"
      by (auto simp: lrep_def)
    have l: "last (h # butlast (r # rest)) = y" "last (r # rest) = z"
      using xs snoc hr by (metis append_is_Nil_conv butlast.simps(2) butlast_snoc last.simps
          last_snoc list.distinct(1))+
    have dist: "y \<notin> set zs" "y \<noteq> z"
      using lrep_distinct [OF assms] xs snoc by auto
    from assms xs snoc have "seg (lnext s) (lhead s) zs (Some y)"
      by (auto simp: lrep_def chain_append)
    then have "lrep (s\<lparr>lnext := (lnext s)(y := None)\<rparr>) ys"
      using dist snoc by (auto simp: lrep_def chain_append)
    with chop_from_rep [OF ch] l head hn xs show ?thesis
      by (simp add: list_chop_def)
  qed
qed

lemma length_from_chain: "chain nx p xs \<Longrightarrow> length_from nx p n = Some (n + length xs)"
proof (induction xs arbitrary: p n)
  case Nil
  then show ?case by (simp add: length_from.simps)
next
  case (Cons x xs)
  then show ?case by (subst length_from.simps) simp
qed

lemma list_length_rep: "lrep s xs \<Longrightarrow> list_length s = Some (length xs)"
  by (simp add: list_length_def lrep_def length_from_chain)

text \<open>Conversely, the counting loop ends only on a list without a cycle.\<close>

lemma length_from_Some:
  assumes ret: "length_from nx p n = Some r"
  shows "\<exists>xs. chain nx p xs"
proof (rule length_from.raw_induct [where P = "\<lambda>nx p n r. \<exists>xs. chain nx p xs", OF _ ret])
  fix f :: "(ptr \<Rightarrow> ptr option) \<Rightarrow> ptr option \<Rightarrow> nat \<Rightarrow> nat option"
    and nx :: "ptr \<Rightarrow> ptr option" and l n r
  assume IH: "\<And>nx l n r. f nx l n = Some r \<Longrightarrow> \<exists>xs. chain nx l xs"
    and eq: "(case l of None \<Rightarrow> Some n | Some p \<Rightarrow> f nx (nx p) (Suc n)) = Some r"
  show "\<exists>xs. chain nx l xs"
  proof (cases l)
    case (Some q)
    with eq IH obtain xs where "chain nx (nx q) xs"
      by fastforce
    with Some have "chain nx l (q # xs)"
      by simp
    then show ?thesis ..
  qed (auto intro: exI [of _ "[]"])
qed

lemma list_insert_rep:
  assumes "lrep s (pre @ p # ys)" and "x \<notin> set (pre @ p # ys)"
  shows "lrep (list_insert s (Some p) x) (pre @ p # x # ys)"
proof -
  have "p \<notin> set pre" "p \<notin> set ys" "x \<noteq> p" "x \<notin> set pre" "x \<notin> set ys"
    using lrep_distinct [OF assms(1)] assms(2) by auto
  moreover from assms(1) have "seg (lnext s) (lhead s) pre (Some p)" "chain (lnext s) (lnext s p) ys"
    by (auto simp: lrep_def chain_append)
  ultimately show ?thesis
    by (auto simp: list_insert_def lrep_def chain_append)
qed

section \<open>Adding an element that is already there\<close>

lemma self_loop_no_chain:
  assumes "nx x = Some x" shows "\<not> chain nx (Some x) xs"
proof
  assume ch: "chain nx (Some x) xs"
  then obtain ys where xs: "xs = x # ys" and "chain nx (nx x) ys"
    by (auto simp: chain_Some)
  with assms have "chain nx (Some x) ys"
    by simp
  from chain_unique [OF ch this] xs show False
    by simp
qed

lemma seg_chain: "seg nx p xs q \<Longrightarrow> chain nx p ys \<Longrightarrow> \<exists>zs. chain nx q zs"
  by (induction xs arbitrary: p ys) (auto simp: chain_Some)

lemma list_add_member:
  assumes "lrep s xs" and "x \<in> set xs"
  obtains s' where "list_add s x = Some s'" and "\<And>ys. \<not> lrep s' ys"
proof -
  obtain as bs where xs: "xs = as @ x # bs"
    using assms(2) by (meson split_list)
  let ?s1 = "s\<lparr>lnext := (lnext s)(x := None)\<rparr>"
  have x: "x \<notin> set as" "x \<notin> set bs"
    using lrep_distinct [OF assms(1)] xs by auto
  from assms(1) xs have sg: "seg (lnext s) (lhead s) as (Some x)"
    by (auto simp: lrep_def chain_append)
  with x have "lrep ?s1 (as @ [x])"
    by (auto simp: lrep_def chain_append)
  from list_tail_rep [OF this] have "list_tail ?s1 = Some (Some x)"
    by simp
  then have add: "list_add s x = Some (?s1\<lparr>lnext := (lnext ?s1)(x := Some x)\<rparr>)" (is "_ = Some ?s2")
    by (simp add: list_add_def)
  have "\<not> lrep ?s2 ys" for ys
  proof
    assume "lrep ?s2 ys"
    then have "chain (lnext ?s2) (lhead s) ys"
      by (simp add: lrep_def)
    moreover have "seg (lnext ?s2) (lhead s) as (Some x)"
      using sg x by simp
    ultimately have "\<exists>zs. chain (lnext ?s2) (Some x) zs"
      by (meson seg_chain)
    then show False
      using self_loop_no_chain [of "lnext ?s2" x] by simp
  qed
  with add show ?thesis ..
qed

corollary list_add_member_diverges:
  assumes "lrep s xs" and "x \<in> set xs"
  shows "\<exists>s'. list_add s x = Some s' \<and> list_length s' = None"
proof -
  obtain s' where s': "list_add s x = Some s'" "\<And>ys. \<not> lrep s' ys"
    using list_add_member [OF assms] by blast
  have "list_length s' = None"
  proof (rule ccontr)
    assume "list_length s' \<noteq> None"
    then obtain r where "length_from (lnext s') (lhead s') 0 = Some r"
      by (auto simp: list_length_def)
    then show False
      using length_from_Some [of "lnext s'" "lhead s'" 0 r] s'(2) unfolding lrep_def by blast
  qed
  with s'(1) show ?thesis by blast
qed

section \<open>The interface the rest of the system uses\<close>

fun add_all :: "('s \<Rightarrow> 'p \<Rightarrow> 's option) \<Rightarrow> 's \<Rightarrow> 'p list \<Rightarrow> 's option" where
  "add_all add s [] = Some s"
| "add_all add s (x # xs) = (case add s x of None \<Rightarrow> None | Some s' \<Rightarrow> add_all add s' xs)"

fun pop_n :: "('s \<Rightarrow> 'p option \<times> 's) \<Rightarrow> nat \<Rightarrow> 's \<Rightarrow> 'p option list \<times> 's" where
  "pop_n pop 0 s = ([], s)"
| "pop_n pop (Suc n) s =
     (let (p, s1) = pop s; (ps, s2) = pop_n pop n s1 in (p # ps, s2))"

locale linked_list =
  fixes rep :: "'s \<Rightarrow> 'p list \<Rightarrow> bool"
    and init :: "'s \<Rightarrow> 's"
    and add :: "'s \<Rightarrow> 'p \<Rightarrow> 's option"
    and remove :: "'s \<Rightarrow> 'p \<Rightarrow> 's option"
    and pop :: "'s \<Rightarrow> 'p option \<times> 's"
  assumes rep_init: "rep (init s) []"
    and rep_distinct: "rep s xs \<Longrightarrow> distinct xs"
    and rep_add: "rep s xs \<Longrightarrow> x \<notin> set xs \<Longrightarrow> \<exists>s'. add s x = Some s' \<and> rep s' (xs @ [x])"
    and rep_remove: "rep s xs \<Longrightarrow> \<exists>s'. remove s x = Some s' \<and> rep s' (remove1 x xs)"
    and rep_pop: "rep s xs \<Longrightarrow> pop s = (p, s') \<Longrightarrow>
      p = (case xs of [] \<Rightarrow> None | x # _ \<Rightarrow> Some x) \<and> rep s' (tl xs)"
begin

lemma add_all_rep:
  "rep s xs \<Longrightarrow> distinct (xs @ ys) \<Longrightarrow> \<exists>s'. add_all add s ys = Some s' \<and> rep s' (xs @ ys)"
proof (induction ys arbitrary: s xs)
  case (Cons y ys)
  then obtain s1 where s1: "add s y = Some s1" "rep s1 (xs @ [y])"
    using rep_add [of s xs y] by auto
  from Cons.IH [OF s1(2)] Cons.prems s1(1) show ?case
    by auto
qed simp

lemma pop_all_fifo:
  "rep s xs \<Longrightarrow> fst (pop_n pop (length xs) s) = map Some xs \<and> rep (snd (pop_n pop (length xs) s)) []"
proof (induction xs arbitrary: s)
  case (Cons x xs)
  obtain p s1 where ps: "pop s = (p, s1)"
    by fastforce
  with rep_pop [OF Cons.prems ps] Cons.IH [of s1] show ?case
    by (auto split: prod.splits)
qed simp

text \<open>Removing before adding, as \<open>ctimer_set\<close> does, is safe whether or not the element is there.\<close>

lemma move_to_end:
  assumes "rep s xs"
  shows "\<exists>s1 s2. remove s x = Some s1 \<and> add s1 x = Some s2 \<and> rep s2 (remove1 x xs @ [x])"
proof -
  obtain s1 where s1: "remove s x = Some s1" "rep s1 (remove1 x xs)"
    using rep_remove [OF assms] by blast
  have "x \<notin> set (remove1 x xs)"
    using rep_distinct [OF assms] by simp
  from rep_add [OF s1(2) this] s1(1) show ?thesis
    by blast
qed

end

interpretation pl: linked_list lrep list_init list_add list_remove list_pop
proof unfold_locales
  fix s xs x
  show "lrep (list_init s) []"
    by (rule list_init_rep)
  show "lrep s xs \<Longrightarrow> distinct xs"
    by (rule lrep_distinct)
  show "lrep s xs \<Longrightarrow> x \<notin> set xs \<Longrightarrow> \<exists>s'. list_add s x = Some s' \<and> lrep s' (xs @ [x])"
    using list_add_rep by blast
  show "lrep s xs \<Longrightarrow> \<exists>s'. list_remove s x = Some s' \<and> lrep s' (remove1 x xs)"
    by (rule list_remove_rep)
  fix p s'
  show "lrep s xs \<Longrightarrow> list_pop s = (p, s') \<Longrightarrow>
      p = (case xs of [] \<Rightarrow> None | x # _ \<Rightarrow> Some x) \<and> lrep s' (tl xs)"
    by (rule list_pop_rep)
qed

end
