(* ===== verification/Rimeaddr.thy ===== *)
theory Rimeaddr
  imports Prelude
begin

text \<open>
  The node addresses of \<open>core/net/rime/rimeaddr.c\<close>: \<open>RIMEADDR_SIZE\<close> (2) bytes, compared and copied
  byte by byte. The comparison is equality and the copy is the identity, so the theories above this
  one compare addresses with \<open>rimeaddr_cmp\<close> and the lemma \<open>rimeaddr_cmp_eq\<close> reads it as \<open>=\<close>.
\<close>

datatype rimeaddr = Rimeaddr (u8_0: u8) (u8_1: u8)

definition RIMEADDR_SIZE :: nat where
  "RIMEADDR_SIZE = 2"

text \<open>\<open>addr->u8[i]\<close>, and the assignment to it.\<close>

definition u8_get :: "rimeaddr \<Rightarrow> nat \<Rightarrow> u8" where
  "u8_get a i = (if i = 0 then u8_0 a else u8_1 a)"

definition u8_set :: "rimeaddr \<Rightarrow> nat \<Rightarrow> u8 \<Rightarrow> rimeaddr" where
  "u8_set a i b = (if i = 0 then Rimeaddr b (u8_1 a) else Rimeaddr (u8_0 a) b)"

definition rimeaddr_null :: rimeaddr where
  "rimeaddr_null = Rimeaddr 0 0"

definition rimeaddr_copy :: "rimeaddr \<Rightarrow> rimeaddr \<Rightarrow> rimeaddr" where
  "rimeaddr_copy dest src = foldl (\<lambda>d i. u8_set d i (u8_get src i)) dest [0..<RIMEADDR_SIZE]"

definition rimeaddr_cmp :: "rimeaddr \<Rightarrow> rimeaddr \<Rightarrow> bool" where
  "rimeaddr_cmp a b \<longleftrightarrow> list_all (\<lambda>i. u8_get a i = u8_get b i) [0..<RIMEADDR_SIZE]"

text \<open>\<open>rimeaddr_set_node_addr\<close>: the new value of the global \<open>rimeaddr_node_addr\<close>.\<close>

definition rimeaddr_set_node_addr :: "rimeaddr \<Rightarrow> rimeaddr \<Rightarrow> rimeaddr" where
  "rimeaddr_set_node_addr node_addr t = rimeaddr_copy node_addr t"

lemma upt_size: "[0..<RIMEADDR_SIZE] = [0, 1]"
  by (simp add: RIMEADDR_SIZE_def upt_rec)

lemma rimeaddr_cmp_eq [simp, contiki_simps]: "rimeaddr_cmp a b \<longleftrightarrow> a = b"
  by (cases a; cases b) (simp add: rimeaddr_cmp_def upt_size u8_get_def)

lemma rimeaddr_copy_eq [simp, contiki_simps]: "rimeaddr_copy d a = a"
  by (cases a; cases d) (simp add: rimeaddr_copy_def upt_size u8_get_def u8_set_def)

text \<open>
  The order of the addresses as the little-endian 16-bit numbers they are on the MSP430, which the
  duplicate filters' proofs and the routing tables use.
\<close>

definition addr_num :: "rimeaddr \<Rightarrow> nat" where
  "addr_num a = unat (u8_0 a) + 256 * unat (u8_1 a)"

lemma addr_num_inj: "addr_num a = addr_num b \<longleftrightarrow> a = b"
proof
  assume eq: "addr_num a = addr_num b"
  have "unat (u8_0 a) < 256" "unat (u8_0 b) < 256"
    by simp_all
  moreover from eq have "addr_num a mod 256 = addr_num b mod 256" "addr_num a div 256 = addr_num b div 256"
    by simp_all
  ultimately have "unat (u8_0 a) = unat (u8_0 b)" "unat (u8_1 a) = unat (u8_1 b)"
    by (simp_all add: addr_num_def)
  then show "a = b"
    using unsigned_word_eqI [where 'a = nat] by (cases a; cases b) fastforce
qed simp

instantiation rimeaddr :: linorder
begin

definition less_eq_rimeaddr :: "rimeaddr \<Rightarrow> rimeaddr \<Rightarrow> bool" where
  "less_eq_rimeaddr a b \<longleftrightarrow> addr_num a \<le> addr_num b"

definition less_rimeaddr :: "rimeaddr \<Rightarrow> rimeaddr \<Rightarrow> bool" where
  "less_rimeaddr a b \<longleftrightarrow> addr_num a < addr_num b"

instance
  by standard (auto simp: less_eq_rimeaddr_def less_rimeaddr_def addr_num_inj)

end

lemma rimeaddr_null_least: "rimeaddr_null \<le> a"
  by (simp add: less_eq_rimeaddr_def rimeaddr_null_def addr_num_def)

end
