(* ===== verification/Packetbuf.thy ===== *)
theory Packetbuf
  imports Rimeaddr
begin

text \<open>
  The packet buffer of \<open>core/net/rime/packetbuf.c\<close>, the one buffer every layer of the stack reads and
  writes: 64 bytes for the header, which grows downwards from \<open>hdrptr\<close>, then 128 bytes of data starting
  at \<open>bufptr\<close>, and the packet's attributes and addresses. \<open>packetbufptr\<close> either points at the data area
  (\<open>pb_ref = None\<close>) or at a foreign buffer (\<open>packetbuf_reference\<close>), whose bytes are the argument \<open>ext\<close>.
\<close>

section \<open>State\<close>

definition PACKETBUF_SIZE :: nat where "PACKETBUF_SIZE = 128"
definition PACKETBUF_HDR_SIZE :: nat where "PACKETBUF_HDR_SIZE = 64"

datatype attr =
    PACKETBUF_ATTR_NONE | PACKETBUF_ATTR_CHANNEL | PACKETBUF_ATTR_PACKET_ID | PACKETBUF_ATTR_PACKET_TYPE
  | PACKETBUF_ATTR_EPACKET_ID | PACKETBUF_ATTR_EPACKET_TYPE | PACKETBUF_ATTR_HOPS
  | PACKETBUF_ATTR_QUEUING_DELAY | PACKETBUF_ATTR_DROPPED_PACKETS_COUNT | PACKETBUF_ATTR_QUEUE_SIZE
  | PACKETBUF_ATTR_TIME_HIGH | PACKETBUF_ATTR_TIME_LOW | PACKETBUF_ATTR_TTL | PACKETBUF_ATTR_REXMIT
  | PACKETBUF_ATTR_MAX_REXMIT | PACKETBUF_ATTR_NUM_REXMIT | PACKETBUF_ATTR_LINK_QUALITY
  | PACKETBUF_ATTR_RTMETRIC | PACKETBUF_ATTR_RSSI | PACKETBUF_ATTR_TIMESTAMP
  | PACKETBUF_ATTR_RADIO_TXPOWER | PACKETBUF_ATTR_LISTEN_TIME | PACKETBUF_ATTR_TRANSMIT_TIME
  | PACKETBUF_ATTR_NETWORK_ID | PACKETBUF_ATTR_RELIABLE | PACKETBUF_ATTR_ERELIABLE

datatype addr_attr = PACKETBUF_ADDR_SENDER | PACKETBUF_ADDR_RECEIVER | PACKETBUF_ADDR_ESENDER | PACKETBUF_ADDR_ERECEIVER

text \<open>The arrays \<open>packetbuf_attrs\<close> and \<open>packetbuf_addrs\<close> have one element per enumeration constant.\<close>

record packetbuf =
  pb_buflen :: u16
  pb_bufptr :: u16
  pb_hdrptr :: u8
  pb_mem :: "u8 list"
  pb_ref :: "ptr option"
  pb_attrs :: "attr \<Rightarrow> u16"
  pb_addrs :: "addr_attr \<Rightarrow> rimeaddr"

section \<open>Operations\<close>

definition packetbuf_attr_clear :: "packetbuf \<Rightarrow> packetbuf" where
  "packetbuf_attr_clear b = b\<lparr>pb_attrs := (\<lambda>_. 0), pb_addrs := (\<lambda>_. rimeaddr_null)\<rparr>"

definition packetbuf_clear :: "packetbuf \<Rightarrow> packetbuf" where
  "packetbuf_clear b =
     packetbuf_attr_clear (b\<lparr>pb_buflen := 0, pb_bufptr := 0, pb_hdrptr := of_nat PACKETBUF_HDR_SIZE, pb_ref := None\<rparr>)"

text \<open>\<open>from\<close> is given as the bytes at the pointer; at least \<open>len\<close> of them, or 128, are read.\<close>

definition packetbuf_copyfrom :: "packetbuf \<Rightarrow> u8 list \<Rightarrow> u16 \<Rightarrow> nat \<times> packetbuf" where
  "packetbuf_copyfrom b from len =
     (let b1 = packetbuf_clear b;
          l = (if unat len > PACKETBUF_SIZE then PACKETBUF_SIZE else unat len)
      in (l, b1\<lparr>pb_mem := mem_put (pb_mem b1) PACKETBUF_HDR_SIZE (take l from), pb_buflen := of_nat l\<rparr>))"

definition packetbuf_is_reference :: "packetbuf \<Rightarrow> bool" where
  "packetbuf_is_reference b \<longleftrightarrow> pb_ref b \<noteq> None"

definition packetbuf_reference :: "packetbuf \<Rightarrow> ptr \<Rightarrow> u16 \<Rightarrow> packetbuf" where
  "packetbuf_reference b p len = (packetbuf_clear b)\<lparr>pb_ref := Some p, pb_buflen := len\<rparr>"

text \<open>\<open>packetbufptr\<close>, when it is a foreign buffer.\<close>

definition packetbuf_reference_ptr :: "packetbuf \<Rightarrow> ptr option" where
  "packetbuf_reference_ptr b = pb_ref b"

text \<open>The \<open>n\<close> bytes at \<open>packetbufptr + off\<close>.\<close>

definition pb_bytes :: "(ptr \<Rightarrow> u8) \<Rightarrow> packetbuf \<Rightarrow> nat \<Rightarrow> nat \<Rightarrow> u8 list" where
  "pb_bytes ext b off n =
     (case pb_ref b of
        None \<Rightarrow> mem_get (pb_mem b) (PACKETBUF_HDR_SIZE + off) n
      | Some p \<Rightarrow> map (\<lambda>i. ext (p + off + i)) [0..<n])"

definition packetbuf_datalen :: "packetbuf \<Rightarrow> u16" where
  "packetbuf_datalen b = pb_buflen b"

definition packetbuf_hdrlen :: "packetbuf \<Rightarrow> u8" where
  "packetbuf_hdrlen b = of_nat PACKETBUF_HDR_SIZE - pb_hdrptr b"

definition packetbuf_totlen :: "packetbuf \<Rightarrow> u16" where
  "packetbuf_totlen b = ucast (packetbuf_hdrlen b) + packetbuf_datalen b"

text \<open>The copy inside \<open>packetbuf_compact\<close> moves the bytes one at a time, upwards.\<close>

definition packetbuf_compact :: "(ptr \<Rightarrow> u8) \<Rightarrow> packetbuf \<Rightarrow> packetbuf" where
  "packetbuf_compact ext b =
     (if packetbuf_is_reference b then
        b\<lparr>pb_mem := mem_put (pb_mem b) PACKETBUF_HDR_SIZE (pb_bytes ext b 0 (unat (packetbuf_datalen b)))\<rparr>
      else if pb_bufptr b > 0 then
        b\<lparr>pb_mem := foldl (\<lambda>m i. m[i := m ! (unat (pb_bufptr b) + i)]) (pb_mem b)
                     [PACKETBUF_HDR_SIZE ..< unat (packetbuf_datalen b) + PACKETBUF_HDR_SIZE],
          pb_bufptr := 0\<rparr>
      else b)"

definition packetbuf_copyto_hdr :: "packetbuf \<Rightarrow> u8 list \<times> nat" where
  "packetbuf_copyto_hdr b =
     (mem_get (pb_mem b) (unat (pb_hdrptr b)) (PACKETBUF_HDR_SIZE - unat (pb_hdrptr b)),
      PACKETBUF_HDR_SIZE - unat (pb_hdrptr b))"

definition packetbuf_copyto :: "(ptr \<Rightarrow> u8) \<Rightarrow> packetbuf \<Rightarrow> u8 list \<times> nat" where
  "packetbuf_copyto ext b =
     (fst (packetbuf_copyto_hdr b) @ pb_bytes ext b (unat (pb_bufptr b)) (unat (pb_buflen b)),
      PACKETBUF_HDR_SIZE - unat (pb_hdrptr b) + unat (pb_buflen b))"

text \<open>\<open>size\<close> is a (16-bit) \<open>int\<close>; \<open>hdrptr\<close> is promoted to \<open>int\<close>.\<close>

definition packetbuf_hdralloc :: "packetbuf \<Rightarrow> int \<Rightarrow> bool \<times> packetbuf" where
  "packetbuf_hdralloc b sz =
     (if uint (pb_hdrptr b) > sz then (True, b\<lparr>pb_hdrptr := pb_hdrptr b - word_of_int sz\<rparr>)
      else (False, b\<lparr>pb_hdrptr := 0\<rparr>))"

text \<open>Here the comparison with the \<open>uint16_t\<close> \<open>buflen\<close> makes \<open>size\<close> unsigned.\<close>

definition packetbuf_hdrreduce :: "packetbuf \<Rightarrow> int \<Rightarrow> bool \<times> packetbuf" where
  "packetbuf_hdrreduce b sz =
     (if pb_buflen b < word_of_int sz then (False, b)
      else (True, b\<lparr>pb_bufptr := pb_bufptr b + word_of_int sz, pb_buflen := pb_buflen b - word_of_int sz\<rparr>))"

definition packetbuf_set_datalen :: "packetbuf \<Rightarrow> u16 \<Rightarrow> packetbuf" where
  "packetbuf_set_datalen b len = b\<lparr>pb_buflen := len\<rparr>"

text \<open>The pointers into the buffer, as offsets from its start.\<close>

definition packetbuf_dataptr :: "packetbuf \<Rightarrow> nat" where
  "packetbuf_dataptr b = unat (pb_bufptr b) + PACKETBUF_HDR_SIZE"

definition packetbuf_hdrptr :: "packetbuf \<Rightarrow> nat" where
  "packetbuf_hdrptr b = unat (pb_hdrptr b)"

definition packetbuf_attr_copyto :: "packetbuf \<Rightarrow> (attr \<Rightarrow> u16) \<times> (addr_attr \<Rightarrow> rimeaddr)" where
  "packetbuf_attr_copyto b = (pb_attrs b, pb_addrs b)"

definition packetbuf_attr_copyfrom :: "packetbuf \<Rightarrow> (attr \<Rightarrow> u16) \<Rightarrow> (addr_attr \<Rightarrow> rimeaddr) \<Rightarrow> packetbuf" where
  "packetbuf_attr_copyfrom b as ds = b\<lparr>pb_attrs := as, pb_addrs := ds\<rparr>"

definition packetbuf_set_attr :: "packetbuf \<Rightarrow> attr \<Rightarrow> u16 \<Rightarrow> packetbuf" where
  "packetbuf_set_attr b t v = b\<lparr>pb_attrs := (pb_attrs b)(t := v)\<rparr>"

definition packetbuf_attr :: "packetbuf \<Rightarrow> attr \<Rightarrow> u16" where
  "packetbuf_attr b t = pb_attrs b t"

definition packetbuf_set_addr :: "packetbuf \<Rightarrow> addr_attr \<Rightarrow> rimeaddr \<Rightarrow> packetbuf" where
  "packetbuf_set_addr b t a = b\<lparr>pb_addrs := (pb_addrs b)(t := rimeaddr_copy (pb_addrs b t) a)\<rparr>"

definition packetbuf_addr :: "packetbuf \<Rightarrow> addr_attr \<Rightarrow> rimeaddr" where
  "packetbuf_addr b t = pb_addrs b t"

text \<open>The data bytes a layer sees, and the header bytes in front of them.\<close>

definition pb_data :: "packetbuf \<Rightarrow> u8 list" where
  "pb_data b = mem_get (pb_mem b) (packetbuf_dataptr b) (unat (pb_buflen b))"

definition pb_hdr :: "packetbuf \<Rightarrow> u8 list" where
  "pb_hdr b = fst (packetbuf_copyto_hdr b)"

section \<open>The invariant\<close>

text \<open>\<open>packetbuf_aligned\<close> has \<open>(128 + 64) / 2 + 1\<close> words, that is 194 bytes.\<close>

definition pb_inv :: "packetbuf \<Rightarrow> bool" where
  "pb_inv b \<longleftrightarrow> length (pb_mem b) = 194 \<and> unat (pb_hdrptr b) \<le> PACKETBUF_HDR_SIZE \<and>
     (pb_ref b = None \<longrightarrow> unat (pb_bufptr b) + unat (pb_buflen b) \<le> PACKETBUF_SIZE)"

lemmas pb_sizes = PACKETBUF_SIZE_def PACKETBUF_HDR_SIZE_def

lemma packetbuf_clear_simps [simp]:
  "pb_buflen (packetbuf_clear b) = 0" "pb_bufptr (packetbuf_clear b) = 0" "pb_hdrptr (packetbuf_clear b) = 64"
  "pb_mem (packetbuf_clear b) = pb_mem b" "pb_ref (packetbuf_clear b) = None"
  "pb_attrs (packetbuf_clear b) = (\<lambda>_. 0)" "pb_addrs (packetbuf_clear b) = (\<lambda>_. rimeaddr_null)"
  by (simp_all add: packetbuf_clear_def packetbuf_attr_clear_def pb_sizes)

lemma attr_simps [simp]:
  "packetbuf_attr (packetbuf_set_attr b t v) t' = (if t' = t then v else packetbuf_attr b t')"
  "packetbuf_attr (packetbuf_set_addr b u a) t' = packetbuf_attr b t'"
  "packetbuf_addr (packetbuf_set_attr b t v) u = packetbuf_addr b u"
  "packetbuf_addr (packetbuf_set_addr b u a) u' = (if u' = u then a else packetbuf_addr b u')"
  "pb_data (packetbuf_set_attr b t v) = pb_data b" "pb_data (packetbuf_set_addr b u a) = pb_data b"
  "pb_hdr (packetbuf_set_attr b t v) = pb_hdr b" "pb_hdr (packetbuf_set_addr b u a) = pb_hdr b"
  "pb_ref (packetbuf_set_attr b t v) = pb_ref b" "pb_ref (packetbuf_set_addr b u a) = pb_ref b"
  by (simp_all add: packetbuf_set_attr_def packetbuf_attr_def packetbuf_set_addr_def packetbuf_addr_def
      pb_data_def packetbuf_dataptr_def pb_hdr_def packetbuf_copyto_hdr_def)

lemma pb_inv_attr [simp]:
  "pb_inv (packetbuf_set_attr b t v) = pb_inv b" "pb_inv (packetbuf_set_addr b u a) = pb_inv b"
  "pb_inv (packetbuf_attr_copyfrom b as ds) = pb_inv b"
  by (simp_all add: packetbuf_set_attr_def packetbuf_set_addr_def packetbuf_attr_copyfrom_def pb_inv_def)

lemma pb_inv_clear: "pb_inv b \<Longrightarrow> pb_inv (packetbuf_clear b)"
  by (simp add: pb_inv_def pb_sizes)

lemma copyfrom_simps:
  assumes inv: "pb_inv b" and len: "unat len \<le> length from"
  shows "pb_inv (snd (packetbuf_copyfrom b from len)) \<and>
   pb_data (snd (packetbuf_copyfrom b from len)) = take (min 128 (unat len)) from \<and>
   pb_hdr (snd (packetbuf_copyfrom b from len)) = [] \<and> \<not> packetbuf_is_reference (snd (packetbuf_copyfrom b from len))"
proof -
  define l where "l = min 128 (unat len)"
  have l: "(if unat len > 128 then 128 else unat len) = l" "l \<le> 128" "length (take l from) = l"
    using len by (auto simp: l_def min_def)
  have m: "length (pb_mem b) = 194"
    using inv by (simp add: pb_inv_def)
  have lm: "l mod 65536 = l"
    using l(2) by simp
  have "mem_get (mem_put (pb_mem b) 64 (take l from)) 64 l = take l from"
    using mem_get_put_same [of 64 "take l from" "pb_mem b"] l m by simp
  then show ?thesis
    unfolding l_def [symmetric] packetbuf_copyfrom_def Let_def PACKETBUF_SIZE_def l(1) using l lm m
    by (simp add: pb_inv_def pb_sizes pb_data_def packetbuf_dataptr_def
        pb_hdr_def packetbuf_copyto_hdr_def packetbuf_is_reference_def)
qed

lemma copyfrom_attrs [simp]:
  "pb_attrs (snd (packetbuf_copyfrom b from len)) = (\<lambda>_. 0)"
  "pb_addrs (snd (packetbuf_copyfrom b from len)) = (\<lambda>_. rimeaddr_null)"
  by (simp_all add: packetbuf_copyfrom_def Let_def)

section \<open>Moving the data to the front\<close>

text \<open>The loop of \<open>packetbuf_compact\<close> copies upwards, so it never reads a byte it has overwritten.\<close>

lemma shift_loop:
  assumes "base \<le> n" and "k + n \<le> length m"
  shows "length (foldl (\<lambda>m i. m[i := m ! (k + i)]) m [base..<n]) = length m \<and>
    (\<forall>j < length m. foldl (\<lambda>m i. m[i := m ! (k + i)]) m [base..<n] ! j =
       (if base \<le> j \<and> j < n then m ! (k + j) else m ! j))"
  using assms
proof (induction n rule: dec_induct)
  case (step n)
  let ?f = "foldl (\<lambda>m i. m[i := m ! (k + i)]) m [base..<n]"
  have ih: "length ?f = length m" "\<And>j. j < length m \<Longrightarrow> ?f ! j = (if base \<le> j \<and> j < n then m ! (k + j) else m ! j)"
    using step by auto
  have "?f ! (k + n) = m ! (k + n)"
    using ih(2) [of "k + n"] step.prems by simp
  moreover have "[base..<Suc n] = [base..<n] @ [n]"
    using step by simp
  ultimately have f: "foldl (\<lambda>m i. m[i := m ! (k + i)]) m [base..<Suc n] = ?f[n := m ! (k + n)]"
    by simp
  have "?f[n := m ! (k + n)] ! j = (if base \<le> j \<and> j < Suc n then m ! (k + j) else m ! j)" if "j < length m" for j
    using ih(1) ih(2) [OF that] that step.hyps by (cases "j = n") auto
  with ih(1) show ?case
    unfolding f by simp
qed auto

lemma mem_get_nth: "off + n \<le> length m \<Longrightarrow> i < n \<Longrightarrow> mem_get m off n ! i = m ! (off + i)"
  by (simp add: mem_get_def)

text \<open>Compacting the buffer, which \<open>rime_output\<close> does before every transmission, moves the data to the
  front of the data area without changing it: the upwards byte loop never reads a byte it has already
  overwritten, and the header and the attributes are untouched.\<close>

theorem packetbuf_compact_data:
  assumes inv: "pb_inv b" and nr: "\<not> packetbuf_is_reference b"
  shows "pb_data (packetbuf_compact ext b) = pb_data b \<and> pb_bufptr (packetbuf_compact ext b) = 0 \<and>
    pb_hdr (packetbuf_compact ext b) = pb_hdr b \<and> pb_attrs (packetbuf_compact ext b) = pb_attrs b \<and>
    pb_addrs (packetbuf_compact ext b) = pb_addrs b \<and> pb_inv (packetbuf_compact ext b)"
proof (cases "pb_bufptr b > 0")
  case False
  then have "pb_bufptr b = 0"
    by (simp add: word_gt_0)
  with False nr inv show ?thesis
    by (simp add: packetbuf_compact_def)
next
  case True
  define k n where "k = unat (pb_bufptr b)" and "n = unat (pb_buflen b)"
  let ?m = "pb_mem b"
  have bd: "length ?m = 194" "k + n \<le> 128" "unat (pb_hdrptr b) \<le> 64"
    using inv nr by (auto simp: pb_inv_def pb_sizes k_def n_def packetbuf_is_reference_def)
  let ?f = "foldl (\<lambda>m i. m[i := m ! (k + i)]) ?m [64..<n + 64]"
  have cm: "packetbuf_compact ext b = b\<lparr>pb_mem := ?f, pb_bufptr := 0\<rparr>"
    using True nr by (simp add: packetbuf_compact_def k_def n_def packetbuf_datalen_def pb_sizes)
  have sl: "length ?f = 194"
      "\<And>j. j < 194 \<Longrightarrow> ?f ! j = (if 64 \<le> j \<and> j < n + 64 then ?m ! (k + j) else ?m ! j)"
    using shift_loop [of 64 "n + 64" k ?m] bd by auto
  have "mem_get ?f 64 n = mem_get ?m (k + 64) n"
    by (rule nth_equalityI) (use sl bd in \<open>auto simp: mem_get_nth ac_simps\<close>)
  moreover have "mem_get ?f h (64 - h) = mem_get ?m h (64 - h)" if "h \<le> 64" for h
    by (rule nth_equalityI) (use sl bd that in \<open>auto simp: mem_get_nth\<close>)
  ultimately show ?thesis
    using sl bd unfolding cm
    by (simp add: pb_data_def pb_hdr_def packetbuf_copyto_hdr_def packetbuf_dataptr_def pb_sizes pb_inv_def
        k_def n_def)
qed

definition pb_example :: packetbuf where
  "pb_example = \<lparr>pb_buflen = 3, pb_bufptr = 2, pb_hdrptr = 64,
     pb_mem = replicate 64 0 @ [1, 2, 3, 4, 5] @ replicate 125 0, pb_ref = None,
     pb_attrs = (\<lambda>_. 0), pb_addrs = (\<lambda>_. rimeaddr_null)\<rparr>"

theorem packetbuf_compact_data_witness:
  "pb_data (packetbuf_compact (\<lambda>_. 0) pb_example) = [3, 4, 5]"
proof -
  have "pb_inv pb_example" "\<not> packetbuf_is_reference pb_example"
    by (simp_all add: pb_inv_def pb_example_def packetbuf_is_reference_def pb_sizes)
  from packetbuf_compact_data [OF this, of "\<lambda>_. 0"]
  have "pb_data (packetbuf_compact (\<lambda>_. 0) pb_example) = pb_data pb_example"
    by (rule conjunct1)
  also have "\<dots> = [3, 4, 5]"
    by code_simp
  finally show ?thesis .
qed

section \<open>Room for headers\<close>

text \<open>
  What \<open>packetbuf_hdralloc\<close> and \<open>packetbuf_hdrreduce\<close> do within bounds; a request for exactly the
  room that is left is refused but still takes it.
\<close>

lemma hdralloc_ok:
  assumes "pb_inv b" and "0 \<le> sz" and "sz < uint (pb_hdrptr b)"
  shows "fst (packetbuf_hdralloc b sz)"
    and "uint (pb_hdrptr (snd (packetbuf_hdralloc b sz))) = uint (pb_hdrptr b) - sz"
    and "pb_inv (snd (packetbuf_hdralloc b sz))"
proof -
  have h: "unat (pb_hdrptr b) \<le> 64" and b: "uint (pb_hdrptr b) < 256"
    using assms(1) uint_lt2p [of "pb_hdrptr b"] by (auto simp: pb_inv_def pb_sizes)
  have "int (unat (pb_hdrptr b)) = uint (pb_hdrptr b)"
    by simp
  with h have u: "uint (pb_hdrptr b) \<le> 64"
    by linarith
  have "uint (pb_hdrptr b - word_of_int sz) = (uint (pb_hdrptr b) - sz) mod 256"
    by (simp add: uint_word_ariths unsigned_of_int take_bit_eq_mod mod_diff_right_eq)
  also have "\<dots> = uint (pb_hdrptr b) - sz"
    using assms(2,3) b by (intro mod_pos_pos_trivial) auto
  finally have d: "uint (pb_hdrptr b - word_of_int sz) = uint (pb_hdrptr b) - sz" .
  have "int (unat (pb_hdrptr b - word_of_int sz)) = uint (pb_hdrptr b - word_of_int sz)"
    by simp
  then have "unat (pb_hdrptr b - word_of_int sz) \<le> 64"
    using d u assms(2) by linarith
  then show "fst (packetbuf_hdralloc b sz)" "pb_inv (snd (packetbuf_hdralloc b sz))"
    "uint (pb_hdrptr (snd (packetbuf_hdralloc b sz))) = uint (pb_hdrptr b) - sz"
    using assms d by (simp_all add: packetbuf_hdralloc_def pb_inv_def pb_sizes)
qed

lemma hdralloc_exact:
  "uint (pb_hdrptr b) = sz \<Longrightarrow> packetbuf_hdralloc b sz = (False, b\<lparr>pb_hdrptr := 0\<rparr>)"
  by (simp add: packetbuf_hdralloc_def)

lemma hdralloc_inv: "pb_inv b \<Longrightarrow> 0 \<le> sz \<Longrightarrow> pb_inv (snd (packetbuf_hdralloc b sz))"
  using hdralloc_ok(3) [of b sz] by (cases "sz < uint (pb_hdrptr b)") (auto simp: packetbuf_hdralloc_def pb_inv_def)

end
