(* ===== verification/Bitopt.thy ===== *)
theory Bitopt
  imports Packetbuf
begin

text \<open>
  The header compression of \<open>core/net/rime/chameleon-bitopt.c\<close> with the channels of
  \<open>core/net/rime/channel.c\<close> and the dispatch of \<open>core/net/rime/chameleon.c\<close>: the attributes a channel
  lists are packed into a bit string in front of the data and unpacked on reception. The proofs read a
  byte array as one sequence of bits, most significant bit first (\<open>bitat\<close>).
\<close>

section \<open>Bits in bytes\<close>

definition bitmask :: "u8 list" where
  "bitmask = [0x00, 0x80, 0xc0, 0xe0, 0xf0, 0xf8, 0xfc, 0xfe, 0xff]"

text \<open>\<open>from\<close> is an offset into the array \<open>m\<close>; bytes past the end of the array read as 0.\<close>

definition byte_at :: "u8 list \<Rightarrow> nat \<Rightarrow> u8" where
  "byte_at m i = (if i < length m then m ! i else 0)"

definition get_bits_in_byte :: "u8 list \<Rightarrow> nat \<Rightarrow> nat \<Rightarrow> nat \<Rightarrow> u8" where
  "get_bits_in_byte m from bitpos vallen =
     (let shifted_val = (push_bit 8 (ucast (byte_at m from)) OR ucast (byte_at m (from + 1))) :: u16
      in ucast (drop_bit (8 - vallen)
           (drop_bit 8 (push_bit bitpos shifted_val) AND ucast (bitmask ! vallen))))"

text \<open>The bytes \<open>get_bits\<close> writes to \<open>to[0], to[1], \<dots>\<close>.\<close>

definition get_bits :: "u8 list \<Rightarrow> nat \<Rightarrow> nat \<Rightarrow> nat \<Rightarrow> u8 list" where
  "get_bits m from bitpos vallen =
     (if vallen < 8 then [get_bits_in_byte m from bitpos vallen]
      else if bitpos = 0 then
        map (\<lambda>i. byte_at m (from + i)) [0..<vallen div 8] @
        (if vallen mod 8 \<noteq> 0 then [get_bits_in_byte m (from + vallen div 8) 0 (vallen mod 8)] else [])
      else
        map (\<lambda>i. get_bits_in_byte m (from + i) bitpos 8) [0..<vallen div 8] @
        (if vallen mod 8 \<noteq> 0 then [get_bits_in_byte m (from + vallen div 8) bitpos (vallen mod 8)] else []))"

definition set_bits_in_byte :: "u8 list \<Rightarrow> nat \<Rightarrow> nat \<Rightarrow> u8 \<Rightarrow> nat \<Rightarrow> u8 list" where
  "set_bits_in_byte m target bitpos val vallen =
     (let shifted_val = (push_bit (8 - bitpos + 8 - vallen) (ucast val)) :: u16;
          m1 = m[target := m ! target OR ucast (drop_bit 8 shifted_val)]
      in m1[target + 1 := m1 ! (target + 1) OR ucast (shifted_val AND 0xff)])"

definition set_bits :: "u8 list \<Rightarrow> nat \<Rightarrow> nat \<Rightarrow> u8 list \<Rightarrow> nat \<Rightarrow> u8 list" where
  "set_bits m p bitpos val vallen =
     (if vallen < 8 then set_bits_in_byte m p bitpos (val ! 0) vallen
      else
        (let q = vallen div 8; bits = vallen mod 8
         in if bitpos = 0 then
              (let m1 = foldl (\<lambda>m i. m[p + i := val ! i]) m [0..<q]
               in if bits \<noteq> 0 then set_bits_in_byte m1 (p + q) 0 (drop_bit (8 - bits) (val ! q)) bits else m1)
            else
              (let m1 = foldl (\<lambda>m i. set_bits_in_byte m (p + i) bitpos (val ! i) 8) m [0..<q]
               in if bits \<noteq> 0
                  then set_bits_in_byte m1 (p + q) 0 (drop_bit (8 - bits + bitpos) (val ! q)) bits else m1)))"

section \<open>Channels\<close>

datatype field = Attr attr | Addr addr_attr

text \<open>An attribute list ends at \<open>PACKETBUF_ATTR_NONE\<close>; \<open>header_size\<close> adds up its lengths in bits.\<close>

type_synonym attrlist = "(field \<times> nat) list"

record channel =
  ch_no :: u16
  ch_attrlist :: attrlist
  ch_hdrsize :: u8

definition header_size :: "attrlist \<Rightarrow> nat" where
  "header_size a = foldl (\<lambda>sz f. sz + snd f) 0 a"

definition chameleon_hdrsize :: "attrlist \<Rightarrow> nat" where
  "chameleon_hdrsize a = header_size a"

definition channel_init :: "channel list" where
  "channel_init = []"

definition channel_lookup :: "channel list \<Rightarrow> u16 \<Rightarrow> channel option" where
  "channel_lookup cs no = find (\<lambda>c. ch_no c = no) cs"

definition channel_open :: "channel list \<Rightarrow> channel \<Rightarrow> u16 \<Rightarrow> channel list" where
  "channel_open cs c no = cs @ [c\<lparr>ch_no := no\<rparr>]"

definition channel_close :: "channel list \<Rightarrow> channel \<Rightarrow> channel list" where
  "channel_close cs c = remove1 c cs"

text \<open>The size is stored in a \<open>uint8_t\<close>. Only the first channel with the number is changed.\<close>

fun channel_set_attributes :: "channel list \<Rightarrow> u16 \<Rightarrow> attrlist \<Rightarrow> channel list" where
  "channel_set_attributes [] no a = []"
| "channel_set_attributes (c # cs) no a =
     (if ch_no c = no then c\<lparr>ch_attrlist := a, ch_hdrsize := of_nat (chameleon_hdrsize a)\<rparr> # cs
      else c # channel_set_attributes cs no a)"

section \<open>Packing and unpacking\<close>

text \<open>
  The bytes \<open>set_bits\<close> reads: the two bytes of the address, or of the 16-bit \<open>val\<close> followed by whatever
  lies behind it on the stack (\<open>over\<close>), which a field of more than 16 bits reads too.
\<close>

definition field_bytes :: "u8 list \<Rightarrow> packetbuf \<Rightarrow> field \<Rightarrow> u8 list" where
  "field_bytes over b f =
     (case f of
        Addr a \<Rightarrow> [u8_0 (packetbuf_addr b a), u8_1 (packetbuf_addr b a)] @ over
      | Attr t \<Rightarrow> [ucast (packetbuf_attr b t), ucast (drop_bit 8 (packetbuf_attr b t))] @ over)"

fun pack_attrs :: "u8 list \<Rightarrow> packetbuf \<Rightarrow> u8 list \<Rightarrow> nat \<Rightarrow> nat \<Rightarrow> attrlist \<Rightarrow> u8 list" where
  "pack_attrs over b m hdr bitptr [] = m"
| "pack_attrs over b m hdr bitptr ((f, len) # as) =
     pack_attrs over b (set_bits m (hdr + bitptr div 8) (bitptr mod 8) (field_bytes over b f) len)
       hdr (bitptr + len) as"

definition hdrbytesize :: "channel \<Rightarrow> nat" where
  "hdrbytesize c = unat (ch_hdrsize c) div 8 + (if unat (ch_hdrsize c) mod 8 = 0 then 0 else 1)"

definition pack_header :: "u8 list \<Rightarrow> channel \<Rightarrow> packetbuf \<Rightarrow> packetbuf" where
  "pack_header over c b =
     (let n = hdrbytesize c;
          b1 = snd (packetbuf_hdralloc b (int n));
          hdr = packetbuf_hdrptr b1;
          m1 = mem_put (pb_mem b1) hdr (replicate n 0);
          b2 = b1\<lparr>pb_mem := pack_attrs over b1 m1 hdr 0 (ch_attrlist c)\<rparr>;
          b3 = snd (packetbuf_hdralloc b2 2)
      in b3\<lparr>pb_mem := mem_put (pb_mem b3) (packetbuf_hdrptr b3)
                       [ucast (ch_no c), ucast (drop_bit 8 (ch_no c))]\<rparr>)"

text \<open>The first two bytes \<open>get_bits\<close> wrote; further ones went past \<open>val\<close> (or \<open>addr\<close>).\<close>

definition byte_val :: "u8 list \<Rightarrow> nat \<Rightarrow> u8" where
  "byte_val bs i = (if i < length bs then bs ! i else 0)"

definition set_field :: "packetbuf \<Rightarrow> field \<Rightarrow> u8 list \<Rightarrow> packetbuf" where
  "set_field b f bs =
     (case f of
        Addr a \<Rightarrow> packetbuf_set_addr b a (Rimeaddr (byte_val bs 0) (byte_val bs 1))
      | Attr t \<Rightarrow> packetbuf_set_attr b t (ucast (byte_val bs 0) OR push_bit 8 (ucast (byte_val bs 1))))"

fun unpack_attrs :: "packetbuf \<Rightarrow> nat \<Rightarrow> nat \<Rightarrow> attrlist \<Rightarrow> packetbuf" where
  "unpack_attrs b hdr bitptr [] = b"
| "unpack_attrs b hdr bitptr ((f, len) # as) =
     unpack_attrs (set_field b f (get_bits (pb_mem b) (hdr + bitptr div 8) (bitptr mod 8) len))
       hdr (bitptr + len) as"

definition unpack_header :: "channel list \<Rightarrow> packetbuf \<Rightarrow> channel option \<times> packetbuf" where
  "unpack_header cs b =
     (let hdr = packetbuf_dataptr b;
          b1 = snd (packetbuf_hdrreduce b 2)
      in case channel_lookup cs (push_bit 8 (ucast (pb_mem b ! (hdr + 1))) + ucast (pb_mem b ! hdr)) of
           None \<Rightarrow> (None, b1)
         | Some c \<Rightarrow>
             (let p = packetbuf_dataptr b1;
                  b2 = snd (packetbuf_hdrreduce b1 (int (hdrbytesize c)))
              in (Some c, unpack_attrs b2 p 0 (ch_attrlist c))))"

text \<open>
  \<open>chameleon_input\<close> up to the call of the channel's receiver, and \<open>chameleon_output\<close> with
  \<open>rime_output\<close>: the packet is compacted and handed to the MAC driver \<open>mac\<close>, which returns whether it
  was sent and leaves its own contents in the buffer.
\<close>

definition chameleon_input :: "channel list \<Rightarrow> packetbuf \<Rightarrow> channel option \<times> packetbuf" where
  "chameleon_input cs b =
     (case unpack_header cs b of
        (None, b1) \<Rightarrow> (None, b1)
      | (Some c, b1) \<Rightarrow> (Some c, packetbuf_set_attr b1 PACKETBUF_ATTR_CHANNEL (ch_no c)))"

definition rime_output :: "(ptr \<Rightarrow> u8) \<Rightarrow> (packetbuf \<Rightarrow> packetbuf \<times> 'r) \<Rightarrow> packetbuf \<Rightarrow> packetbuf \<times> 'r" where
  "rime_output ext mac b = mac (packetbuf_compact ext b)"

definition chameleon_output ::
  "u8 list \<Rightarrow> (ptr \<Rightarrow> u8) \<Rightarrow> (packetbuf \<Rightarrow> packetbuf \<times> 'r) \<Rightarrow> channel \<Rightarrow> packetbuf \<Rightarrow> packetbuf \<times> 'r" where
  "chameleon_output over ext mac c b =
     rime_output ext mac (packetbuf_set_attr (pack_header over c b) PACKETBUF_ATTR_CHANNEL (ch_no c))"

section \<open>Bit sequences\<close>

definition bitat :: "u8 list \<Rightarrow> nat \<Rightarrow> bool" where
  "bitat m k = bit (byte_at m (k div 8)) (7 - k mod 8)"

lemma bit_u8_high: "8 \<le> j \<Longrightarrow> \<not> bit (w :: u8) j"
  using bit_imp_le_length [of w j] by auto

lemma bit_bitmask:
  assumes "v \<le> 8"
  shows "bit (bitmask ! v) j \<longleftrightarrow> j < 8 \<and> 8 - v \<le> j"
proof (cases "j < 8")
  case True
  have "list_all (\<lambda>v. list_all (\<lambda>j. bit (bitmask ! v) j = (8 - v \<le> j)) [0..<8]) [0..<9]"
    by code_simp
  with True assms show ?thesis
    by (simp add: list_all_iff)
qed (simp add: bit_u8_high)

lemma bitat_off: "bitat m (8 * p + d) = bit (byte_at m (p + d div 8)) (7 - d mod 8)"
  by (simp add: bitat_def)

lemma bit_two_bytes:
  "k < 16 \<Longrightarrow> bit (push_bit 8 (ucast (a :: u8)) OR ucast (b :: u8) :: u16) k =
     (if 8 \<le> k then bit a (k - 8) else bit b k)"
  using bit_u8_high [of k b] by (auto simp: bit_simps)

lemma bit_get_byte:
  assumes "bitpos < 8" and "vallen \<le> 8" and "i < vallen"
  shows "bit (get_bits_in_byte m from bitpos vallen) i \<longleftrightarrow> bitat m (8 * from + (bitpos + (vallen - 1 - i)))"
proof -
  let ?S = "push_bit 8 (ucast (byte_at m from)) OR ucast (byte_at m (from + 1)) :: u16"
  let ?d = "bitpos + (vallen - 1 - i)"
  have "bit (get_bits_in_byte m from bitpos vallen) i \<longleftrightarrow> bit ?S (16 - vallen + i - bitpos)"
    using assms bit_bitmask [OF assms(2), of "8 - vallen + i"]
    by (auto simp: get_bits_in_byte_def Let_def bit_simps)
  also have "\<dots> = (if 8 \<le> 16 - vallen + i - bitpos then bit (byte_at m from) (16 - vallen + i - bitpos - 8)
      else bit (byte_at m (from + 1)) (16 - vallen + i - bitpos))"
    using assms by (intro bit_two_bytes) auto
  also have "\<dots> = bit (byte_at m (from + ?d div 8)) (7 - ?d mod 8)"
  proof (cases "?d < 8")
    case True
    then have "8 \<le> 16 - vallen + i - bitpos" "16 - vallen + i - bitpos - 8 = 7 - ?d" "?d div 8 = 0" "?d mod 8 = ?d"
      using assms by auto
    then show ?thesis
      by (simp add: ac_simps)
  next
    case False
    define e where "e = ?d - 8"
    then have e: "?d = e + 8" "e < 8"
      using False assms by auto
    then have "?d div 8 = 1" "?d mod 8 = ?d - 8"
      by (simp_all only: mod_add_self2 div_add_self2) simp_all
    moreover have "\<not> 8 \<le> 16 - vallen + i - bitpos"
      using False assms by auto
    moreover from calculation False have "16 - vallen + i - bitpos = 7 - ?d mod 8"
      using assms by auto
    ultimately show ?thesis
      by simp
  qed
  finally show ?thesis
    by (simp add: bitat_off)
qed

lemma bit_get_byte_high:
  assumes "vallen \<le> i" and "vallen \<le> 8"
  shows "\<not> bit (get_bits_in_byte m from bitpos vallen) i"
  using assms bit_bitmask [OF assms(2), of "8 - vallen + i"]
  by (auto simp: get_bits_in_byte_def Let_def bit_simps)

text \<open>Writing: the bits of the field are OR-ed in, the others are kept.\<close>

lemma byte_at_upd: "byte_at (m[i := x]) j = (if j = i \<and> i < length m then x else byte_at m j)"
  by (simp add: byte_at_def nth_list_update)

lemma bitat_set_byte:
  assumes "bitpos < 8" and "vallen \<le> 8" and "p + 1 < length m" and "\<And>j. vallen \<le> j \<Longrightarrow> \<not> bit val j"
  shows "bitat (set_bits_in_byte m p bitpos val vallen) k \<longleftrightarrow>
    bitat m k \<or> (8 * p + bitpos \<le> k \<and> k < 8 * p + bitpos + vallen \<and> bit val (vallen - 1 - (k - (8 * p + bitpos))))"
proof -
  let ?S = "push_bit (8 - bitpos + 8 - vallen) (ucast val) :: u16"
  have S: "bit ?S n \<longleftrightarrow> 16 - bitpos - vallen \<le> n \<and> n < 16 \<and> bit val (n - (16 - bitpos - vallen))" for n
    using assms(1,2) bit_u8_high [of "n - (16 - bitpos - vallen)" val] by (auto simp: bit_simps)
  have m: "byte_at (set_bits_in_byte m p bitpos val vallen) j =
     (if j = p then byte_at m p OR ucast (drop_bit 8 ?S)
      else if j = p + 1 then byte_at m (p + 1) OR ucast (?S AND 0xff) else byte_at m j)" for j
    using assms(3) by (auto simp: set_bits_in_byte_def Let_def byte_at_def nth_list_update)
  have ff: "bit (0xff :: u16) n \<longleftrightarrow> n < 8" for n
  proof (cases "n < 16")
    case True
    have "list_all (\<lambda>n. bit (0xff :: u16) n = (n < 8)) [0..<16]"
      by code_simp
    with True show ?thesis
      by (simp add: list_all_iff)
  next
    case False
    then show ?thesis
      using bit_imp_le_length [of "0xff :: u16" n] by auto
  qed
  show ?thesis
  proof (cases "8 * p \<le> k \<and> k < 8 * p + 16")
    case True
    define d where "d = k - 8 * p"
    have k: "k = 8 * p + d" and d: "d < 16"
      using True by (auto simp: d_def)
    have lhs: "bitat (set_bits_in_byte m p bitpos val vallen) k \<longleftrightarrow> bitat m k \<or> bit ?S (15 - d)"
    proof (cases "d < 8")
      case True
      then have dd: "d div 8 = 0" "d mod 8 = d" and lt: "7 - d < 8" and e: "8 + (7 - d) = 15 - d"
        by auto
      have "bit (ucast (drop_bit 8 ?S) :: u8) (7 - d) \<longleftrightarrow> bit ?S (15 - d)"
        unfolding e [symmetric] using lt by (simp add: bit_unsigned_iff bit_drop_bit_eq)
      then show ?thesis
        unfolding k bitat_off dd by (simp add: m bit_or_iff)
    next
      case False
      then obtain e where e: "d = e + 8" "e < 8"
        using d by (metis add.commute add_less_cancel_left le_Suc_ex linorder_not_less numeral_Bit0)
      then have dd: "d div 8 = 1" "d mod 8 = e" and lt: "7 - e < 8" and ee: "15 - d = 7 - e"
        by simp_all
      have "bit (ucast (?S AND 0xff) :: u8) (7 - e) \<longleftrightarrow> bit ?S (7 - e)"
        using lt ff [of "7 - e"] unfolding bit_unsigned_iff bit_and_iff by auto
      then show ?thesis
        unfolding k bitat_off dd ee by (simp add: m bit_or_iff)
    qed
    have "bit ?S (15 - d) \<longleftrightarrow> bitpos \<le> d \<and> d < bitpos + vallen \<and> bit val (vallen - 1 - (d - bitpos))"
    proof (cases "d < bitpos + vallen")
      case lt: True
      show ?thesis
      proof (cases "bitpos \<le> d")
        case True
        then have "15 - d - (16 - bitpos - vallen) = vallen - 1 - (d - bitpos)"
            "16 - bitpos - vallen \<le> 15 - d" "15 - d < 16"
          using lt d assms(1,2) by linarith+
        with True lt show ?thesis
          unfolding S by (simp only: simp_thms)
      next
        case False
        then have "vallen \<le> 15 - d - (16 - bitpos - vallen)"
          using d assms(1,2) by linarith
        with False assms(4) show ?thesis
          unfolding S by simp
      qed
    next
      case False
      then have "\<not> 16 - bitpos - vallen \<le> 15 - d"
        using d assms(1,2) by linarith
      with False show ?thesis
        unfolding S by simp
    qed
    with lhs show ?thesis
      unfolding k by simp
  next
    case False
    have "k div 8 \<noteq> p" "k div 8 \<noteq> p + 1"
      using False by auto
    moreover have "\<not> (8 * p + bitpos \<le> k \<and> k < 8 * p + bitpos + vallen)"
      using False assms(1,2) by linarith
    ultimately show ?thesis
      by (auto simp: bitat_def m)
  qed
qed

section \<open>Fields\<close>

text \<open>
  A field of \<open>len\<close> bits is at most one byte, or whole bytes: the widths the attribute lists of the
  stack use. \<open>vbit\<close> is the \<open>j\<close>-th bit of such a field's value.
\<close>

definition len_ok :: "nat \<Rightarrow> bool" where
  "len_ok len \<longleftrightarrow> 0 < len \<and> (len < 8 \<or> len mod 8 = 0)"

definition vbit :: "u8 list \<Rightarrow> nat \<Rightarrow> nat \<Rightarrow> bool" where
  "vbit v len j = (if len < 8 then bit (v ! 0) (len - 1 - j) else bit (v ! (j div 8)) (7 - j mod 8))"

lemma length_set_byte [simp]: "length (set_bits_in_byte m p bp v l) = length m"
  by (simp add: set_bits_in_byte_def Let_def)

lemma fold_set_bytes:
  assumes "bp < 8" and "p + q < length m"
  shows "length (foldl (\<lambda>m i. set_bits_in_byte m (p + i) bp (v ! i) 8) m [0..<q]) = length m \<and>
    (\<forall>k. bitat (foldl (\<lambda>m i. set_bits_in_byte m (p + i) bp (v ! i) 8) m [0..<q]) k \<longleftrightarrow>
      bitat m k \<or> (8 * p + bp \<le> k \<and> k < 8 * p + bp + 8 * q \<and>
        bit (v ! ((k - (8 * p + bp)) div 8)) (7 - (k - (8 * p + bp)) mod 8)))"
  using assms(2)
proof (induction q)
  case (Suc q)
  let ?m = "foldl (\<lambda>m i. set_bits_in_byte m (p + i) bp (v ! i) 8) m [0..<q]"
  let ?P = "8 * p + bp"
  have len: "length ?m = length m"
    and ih: "\<And>k. bitat ?m k \<longleftrightarrow> bitat m k \<or> (?P \<le> k \<and> k < ?P + 8 * q \<and>
        bit (v ! ((k - ?P) div 8)) (7 - (k - ?P) mod 8))"
    using Suc by auto
  have set: "bitat (set_bits_in_byte ?m (p + q) bp (v ! q) 8) k \<longleftrightarrow>
    bitat ?m k \<or> (8 * (p + q) + bp \<le> k \<and> k < 8 * (p + q) + bp + 8 \<and> bit (v ! q) (8 - 1 - (k - (8 * (p + q) + bp))))" for k
    by (rule bitat_set_byte) (use assms(1) Suc.prems len bit_u8_high in auto)
  have "bitat (set_bits_in_byte ?m (p + q) bp (v ! q) 8) k \<longleftrightarrow>
      bitat m k \<or> (?P \<le> k \<and> k < ?P + 8 * Suc q \<and> bit (v ! ((k - ?P) div 8)) (7 - (k - ?P) mod 8))" for k
  proof (cases "?P + 8 * q \<le> k \<and> k < ?P + 8 * Suc q")
    case True
    define e where "e = k - (?P + 8 * q)"
    then have k: "k - ?P = e + 8 * q" "e < 8" "8 * (p + q) + bp \<le> k" "k < 8 * (p + q) + bp + 8"
        "k - (8 * (p + q) + bp) = e" "?P \<le> k" "\<not> k < ?P + 8 * q"
      using True by auto
    then have "(k - ?P) div 8 = q" "(k - ?P) mod 8 = e"
      by auto
    with k True show ?thesis
      unfolding set ih by simp
  next
    case False
    then show ?thesis
      unfolding set ih by auto
  qed
  with len show ?case
    by simp
qed auto

lemma fold_put_bytes:
  assumes "p + q \<le> length m"
  shows "length (foldl (\<lambda>m i. m[p + i := v ! i]) m [0..<q]) = length m \<and>
    (\<forall>j. byte_at (foldl (\<lambda>m i. m[p + i := v ! i]) m [0..<q]) j =
      (if p \<le> j \<and> j < p + q then v ! (j - p) else byte_at m j))"
  using assms
proof (induction q)
  case (Suc q)
  then show ?case
    by (auto simp: byte_at_upd less_Suc_eq)
qed auto

lemma set_bits_small:
  assumes "bp < 8" and "len < 8" and "p + 1 < length m"
    and small: "\<forall>j \<ge> len. \<not> bit (v ! 0) j"
  shows "bitat (set_bits m p bp v len) k \<longleftrightarrow>
    bitat m k \<or> (8 * p + bp \<le> k \<and> k < 8 * p + bp + len \<and> vbit v len (k - (8 * p + bp)))"
proof -
  have "set_bits m p bp v len = set_bits_in_byte m p bp (v ! 0) len"
    using assms(2) by (simp add: set_bits_def)
  moreover have "vbit v len j = bit (v ! 0) (len - 1 - j)" for j
    using assms(2) by (simp add: vbit_def)
  ultimately show ?thesis
    using bitat_set_byte [OF assms(1) _ assms(3), of len "v ! 0"] assms(2) small by simp
qed

lemma set_bits_aligned:
  assumes "p + q < length m" and "0 < q"
  shows "bitat (set_bits m p 0 v (8 * q)) k \<longleftrightarrow>
    (if 8 * p \<le> k \<and> k < 8 * p + 8 * q then vbit v (8 * q) (k - 8 * p) else bitat m k)"
proof -
  let ?m = "foldl (\<lambda>m i. m[p + i := v ! i]) m [0..<q]"
  have sb: "set_bits m p 0 v (8 * q) = ?m"
    using assms(2) by (simp add: set_bits_def Let_def)
  have fp: "\<And>j. byte_at ?m j = (if p \<le> j \<and> j < p + q then v ! (j - p) else byte_at m j)"
    using fold_put_bytes [of p q m v] assms(1) by auto
  show ?thesis
  proof (cases "8 * p \<le> k \<and> k < 8 * p + 8 * q")
    case True
    define e where "e = k - 8 * p"
    have k: "k = 8 * p + e" and e: "e < 8 * q"
      using True by (auto simp: e_def)
    have "e div 8 < q"
      using e by auto
    then have "byte_at ?m (p + e div 8) = v ! (e div 8)"
      by (simp add: fp)
    with e assms(2) show ?thesis
      unfolding k bitat_off sb by (simp add: vbit_def)
  next
    case False
    have "\<not> (p \<le> k div 8 \<and> k div 8 < p + q)"
      using False by auto
    then have "bitat ?m k = bitat m k"
      by (auto simp: bitat_def fp)
    with False show ?thesis
      unfolding sb by (simp only: if_False)
  qed
qed

lemma set_bits_unaligned:
  assumes "bp < 8" and "bp \<noteq> 0" and "p + q < length m" and "0 < q"
  shows "bitat (set_bits m p bp v (8 * q)) k \<longleftrightarrow>
    bitat m k \<or> (8 * p + bp \<le> k \<and> k < 8 * p + bp + 8 * q \<and> vbit v (8 * q) (k - (8 * p + bp)))"
proof -
  have sb: "set_bits m p bp v (8 * q) = foldl (\<lambda>m i. set_bits_in_byte m (p + i) bp (v ! i) 8) m [0..<q]"
    using assms(2,4) by (simp add: set_bits_def Let_def)
  have vb: "vbit v (8 * q) j = bit (v ! (j div 8)) (7 - j mod 8)" for j
    using assms(4) by (simp add: vbit_def)
  show ?thesis
    unfolding sb vb using fold_set_bytes [OF assms(1,3), of v] by blast
qed

lemma length_set_bits: "p + (bp + len) div 8 + 1 < length m \<Longrightarrow> len_ok len \<Longrightarrow> bp < 8 \<Longrightarrow>
  length (set_bits m p bp v len) = length m"
proof -
  assume a: "p + (bp + len) div 8 + 1 < length m" "len_ok len" "bp < 8"
  show ?thesis
  proof (cases "len < 8")
    case False
    define q where "q = len div 8"
    have q: "len = 8 * q" "0 < q"
      using a(2) False by (auto simp: len_ok_def q_def)
    have "q \<le> (bp + len) div 8"
      unfolding q(1) by simp
    then have pq: "p + q < length m"
      using a(1) by linarith
    have "bp = 0 \<Longrightarrow> set_bits m p bp v len = foldl (\<lambda>m i. m[p + i := v ! i]) m [0..<q]"
      "bp \<noteq> 0 \<Longrightarrow> set_bits m p bp v len = foldl (\<lambda>m i. set_bits_in_byte m (p + i) bp (v ! i) 8) m [0..<q]"
      using q by (simp_all add: set_bits_def Let_def)
    moreover have "p + q \<le> length m"
      using pq by simp
    ultimately show ?thesis
      using fold_put_bytes [of p q m v] fold_set_bytes [OF a(3) pq, of v] by (cases "bp = 0") simp_all
  qed (simp add: set_bits_def)
qed

text \<open>All together: into a region that is still zero, \<open>set_bits\<close> writes the field and nothing else.\<close>

lemma set_bits_spec:
  assumes "bp < 8" and "len_ok len" and "p + (bp + len) div 8 + 1 < length m"
    and zero: "\<And>k. 8 * p + bp \<le> k \<Longrightarrow> k < 8 * p + bp + len \<Longrightarrow> \<not> bitat m k"
    and small: "len < 8 \<Longrightarrow> \<forall>j \<ge> len. \<not> bit (v ! 0) j"
  shows "bitat (set_bits m p bp v len) k \<longleftrightarrow>
      (if 8 * p + bp \<le> k \<and> k < 8 * p + bp + len then vbit v len (k - (8 * p + bp)) else bitat m k)"
proof (cases "len < 8")
  case True
  have "p + 1 < length m"
    using assms(3) by linarith
  from set_bits_small [OF assms(1) True this small [OF True], of k] zero [of k] show ?thesis
    by (simp only: split: if_splits) blast
next
  case False
  define q where "q = len div 8"
  have q: "len = 8 * q" "0 < q"
    using assms(2) False by (auto simp: len_ok_def q_def)
  have "q \<le> (bp + len) div 8"
    unfolding q(1) by simp
  then have pq: "p + q < length m"
    using assms(3) by linarith
  show ?thesis
  proof (cases "bp = 0")
    case True
    with set_bits_aligned [OF pq q(2), of v k] show ?thesis
      unfolding q(1) by simp
  next
    case False
    from set_bits_unaligned [OF assms(1) False pq q(2), of v k] zero [of k] show ?thesis
      unfolding q(1) by (simp only: split: if_splits) blast
  qed
qed

text \<open>Reading a field back.\<close>

lemma get_bits_of:
  assumes "bp < 8" and "len_ok len"
    and at: "\<And>j. j < len \<Longrightarrow> bitat m (8 * p + bp + j) \<longleftrightarrow> vbit v len j"
    and small: "len < 8 \<Longrightarrow> \<forall>j \<ge> len. \<not> bit (v ! 0) j"
    and "len div 8 \<le> length v"
  shows "get_bits m p bp len = (if len < 8 then [v ! 0] else take (len div 8) v)"
proof (cases "len < 8")
  case True
  have "get_bits_in_byte m p bp len = v ! 0"
  proof (rule bit_eqI)
    fix i :: nat
    show "bit (get_bits_in_byte m p bp len) i = bit (v ! 0) i"
    proof (cases "i < len")
      case i: True
      have "bit (get_bits_in_byte m p bp len) i \<longleftrightarrow> bitat m (8 * p + bp + (len - 1 - i))"
        using bit_get_byte [of bp len i m p] True i assms(1) by (simp add: add.assoc)
      also have "\<dots> \<longleftrightarrow> vbit v len (len - 1 - i)"
        using at [of "len - 1 - i"] i by simp
      also have "\<dots> \<longleftrightarrow> bit (v ! 0) i"
        using True i by (simp add: vbit_def)
      finally show ?thesis .
    next
      case False
      with True small bit_get_byte_high [of len i m p bp] show ?thesis
        by simp
    qed
  qed
  with True show ?thesis
    by (simp add: get_bits_def)
next
  case False
  define q where "q = len div 8"
  have q: "len = 8 * q" "0 < q" "q \<le> length v"
    using assms(2,5) False by (auto simp: len_ok_def q_def)
  have byte: "bitat m (8 * p + bp + (8 * i + (7 - j))) \<longleftrightarrow> bit (v ! i) j" if "i < q" "j < 8" for i j
  proof -
    define r where "r = 7 - j"
    have r: "r < 8" "7 - r = j"
      using that(2) by (auto simp: r_def)
    have "8 * i + 8 \<le> 8 * q"
      using that(1) by auto
    then have "8 * i + r < len"
      using r(1) q(1) by linarith
    moreover have "(8 * i + r) div 8 = i" "(8 * i + r) mod 8 = r"
      using r(1) by auto
    ultimately have "bitat m (8 * p + bp + (8 * i + r)) \<longleftrightarrow> bit (v ! i) j"
      using at [of "8 * i + r"] False r(2) by (simp add: vbit_def)
    then show ?thesis
      by (simp add: r_def)
  qed
  show ?thesis
  proof (cases "bp = 0")
    case True
    have "byte_at m (p + i) = v ! i" if "i < q" for i
    proof (rule bit_eqI)
      fix j :: nat
      show "bit (byte_at m (p + i)) j = bit (v ! i) j"
      proof (cases "j < 8")
        case j: True
        have e: "8 * p + bp + (8 * i + (7 - j)) = 8 * (p + i) + (7 - j)"
          using True by (simp add: distrib_left)
        have d: "(7 - j) div 8 = 0" "(7 - j) mod 8 = 7 - j" "7 - (7 - j) = j"
          using j by auto
        show ?thesis
          using byte [OF that j] unfolding e bitat_off d by simp
      qed (simp add: bit_u8_high)
    qed
    then have "map (\<lambda>i. byte_at m (p + i)) [0..<q] = take q v"
      using q(3) by (intro nth_equalityI) auto
    with True q show ?thesis
      by (simp add: get_bits_def)
  next
    case bp: False
    have "get_bits_in_byte m (p + i) bp 8 = v ! i" if "i < q" for i
    proof (rule bit_eqI)
      fix j :: nat
      show "bit (get_bits_in_byte m (p + i) bp 8) j = bit (v ! i) j"
      proof (cases "j < 8")
        case j: True
        have "8 * (p + i) + (bp + (8 - 1 - j)) = 8 * p + bp + (8 * i + (7 - j))"
          by simp
        with byte [OF that j] bit_get_byte [of bp 8 j m "p + i"] assms(1) j show ?thesis
          by simp
      qed (use bit_get_byte_high [of 8 j m "p + i" bp] in \<open>simp add: bit_u8_high\<close>)
    qed
    then have "map (\<lambda>i. get_bits_in_byte m (p + i) bp 8) [0..<q] = take q v"
      using q(3) by (intro nth_equalityI) auto
    with bp q show ?thesis
      by (simp add: get_bits_def)
  qed
qed

section \<open>The round trip\<close>

text \<open>What a field must satisfy: a width the packer handles, and a value that fits into it.\<close>

definition field_fits :: "u8 list \<Rightarrow> packetbuf \<Rightarrow> field \<times> nat \<Rightarrow> bool" where
  "field_fits over b fl =
     (case fl of (f, len) \<Rightarrow> len_ok len \<and> len div 8 \<le> 2 + length over \<and>
        (case f of Attr t \<Rightarrow> len < 16 \<longrightarrow> unat (packetbuf_attr b t) < 2 ^ len | Addr a \<Rightarrow> 16 \<le> len))"

fun fields_at :: "u8 list \<Rightarrow> packetbuf \<Rightarrow> u8 list \<Rightarrow> nat \<Rightarrow> attrlist \<Rightarrow> bool" where
  "fields_at over b m pos [] \<longleftrightarrow> True"
| "fields_at over b m pos ((f, len) # as) \<longleftrightarrow>
     (\<forall>j < len. bitat m (pos + j) \<longleftrightarrow> vbit (field_bytes over b f) len j) \<and> fields_at over b m (pos + len) as"

fun attr_bits :: "attrlist \<Rightarrow> nat" where
  "attr_bits [] = 0"
| "attr_bits ((f, len) # as) = len + attr_bits as"

lemma header_size_bits: "header_size as = attr_bits as"
proof -
  have "foldl (\<lambda>sz f. sz + snd f) n as = n + attr_bits as" for n
    by (induction as arbitrary: n rule: attr_bits.induct) simp_all
  then show ?thesis
    by (simp add: header_size_def)
qed

lemma fields_at_cong:
  "(\<And>k. k < attr_bits as \<Longrightarrow> bitat m' (pos' + k) = bitat m (pos + k)) \<Longrightarrow>
   fields_at over b m' pos' as = fields_at over b m pos as"
proof (induction as arbitrary: pos pos' rule: attr_bits.induct)
  case (2 f len as)
  have "fields_at over b m' (pos' + len) as = fields_at over b m (pos + len) as"
    using 2(2) by (intro 2(1)) (metis add.assoc nat_add_left_cancel_less attr_bits.simps(2))
  moreover have "\<And>j. j < len \<Longrightarrow> bitat m' (pos' + j) = bitat m (pos + j)"
    using 2(2) by simp
  ultimately show ?case
    by auto
qed simp

lemma small_bits:
  assumes "unat (w :: u16) < 2 ^ len" and "len \<le> j"
  shows "\<not> bit w j"
proof
  assume "bit w j"
  then have "bit (unat w) j"
    by (simp add: bit_unsigned_iff)
  then have "2 ^ j \<le> unat w"
    by (metis bit_nat_iff bit_iff_odd div_less even_zero linorder_not_le)
  moreover have "(2::nat) ^ len \<le> 2 ^ j"
    using assms(2) by simp
  ultimately show False
    using assms(1) by linarith
qed

lemma field_small:
  assumes "field_fits over b (f, len)" and "len < 8" and "len \<le> j"
  shows "\<not> bit (field_bytes over b f ! 0) j"
  using assms small_bits [of "packetbuf_attr b _" len j]
  by (auto simp: field_fits_def field_bytes_def bit_simps split: field.splits)

lemma pack_attrs_spec:
  assumes "\<forall>fl \<in> set as. field_fits over b fl"
    and "hdr + (bitptr + attr_bits as) div 8 + 1 < length m"
    and "\<And>k. 8 * hdr + bitptr \<le> k \<Longrightarrow> k < 8 * hdr + bitptr + attr_bits as \<Longrightarrow> \<not> bitat m k"
  shows "length (pack_attrs over b m hdr bitptr as) = length m \<and>
    (\<forall>k. \<not> (8 * hdr + bitptr \<le> k \<and> k < 8 * hdr + bitptr + attr_bits as) \<longrightarrow>
       bitat (pack_attrs over b m hdr bitptr as) k = bitat m k) \<and>
    fields_at over b (pack_attrs over b m hdr bitptr as) (8 * hdr + bitptr) as"
  using assms
proof (induction as arbitrary: m bitptr rule: attr_bits.induct)
  case (2 f len as)
  let ?p = "hdr + bitptr div 8" and ?bp = "bitptr mod 8" and ?v = "field_bytes over b f"
  let ?m = "set_bits m ?p ?bp ?v len"
  have fit: "field_fits over b (f, len)"
    using 2(2) by simp
  then have ok: "len_ok len"
    by (simp add: field_fits_def)
  have pos: "8 * ?p + ?bp = 8 * hdr + bitptr" "?bp < 8"
    by simp_all
  have "bitptr + len = (bitptr mod 8 + len) + 8 * (bitptr div 8)"
    by simp
  also have "\<dots> div 8 = bitptr div 8 + (bitptr mod 8 + len) div 8"
    by (subst div_mult_self2) simp_all
  finally have "(bitptr mod 8 + len) div 8 + bitptr div 8 = (bitptr + len) div 8"
    by (simp only: add.commute)
  moreover have "(bitptr + len) div 8 \<le> (bitptr + attr_bits ((f, len) # as)) div 8"
    by (rule div_le_mono) simp
  ultimately have room: "?p + (?bp + len) div 8 + 1 < length m"
    using 2(3) by linarith
  have lm: "length ?m = length m"
    by (rule length_set_bits [OF room ok pos(2)])
  have bits: "bitat ?m k \<longleftrightarrow>
      (if 8 * hdr + bitptr \<le> k \<and> k < 8 * hdr + bitptr + len then vbit ?v len (k - (8 * hdr + bitptr)) else bitat m k)" for k
  proof (rule set_bits_spec [OF pos(2) ok room, of ?v k, unfolded pos(1)])
    show "\<And>k. 8 * hdr + bitptr \<le> k \<Longrightarrow> k < 8 * hdr + bitptr + len \<Longrightarrow> \<not> bitat m k"
      using 2(4) by simp
    show "len < 8 \<Longrightarrow> \<forall>j\<ge>len. \<not> bit (?v ! 0) j"
      using field_small [OF fit] by blast
  qed
  have ih: "length (pack_attrs over b ?m hdr (bitptr + len) as) = length ?m \<and>
    (\<forall>k. \<not> (8 * hdr + (bitptr + len) \<le> k \<and> k < 8 * hdr + (bitptr + len) + attr_bits as) \<longrightarrow>
       bitat (pack_attrs over b ?m hdr (bitptr + len) as) k = bitat ?m k) \<and>
    fields_at over b (pack_attrs over b ?m hdr (bitptr + len) as) (8 * hdr + (bitptr + len)) as"
  proof (rule 2(1))
    show "hdr + (bitptr + len + attr_bits as) div 8 + 1 < length ?m"
      using 2(3) lm by (simp add: add.assoc)
    show "\<And>k. 8 * hdr + (bitptr + len) \<le> k \<Longrightarrow> k < 8 * hdr + (bitptr + len) + attr_bits as \<Longrightarrow> \<not> bitat ?m k"
      using 2(4) bits by simp
  qed (use 2(2) in simp)
  have "bitat (pack_attrs over b ?m hdr (bitptr + len) as) (8 * hdr + bitptr + j) \<longleftrightarrow> vbit ?v len j" if "j < len" for j
    using ih bits that by simp
  moreover have "bitat (pack_attrs over b ?m hdr (bitptr + len) as) k = bitat m k"
    if "\<not> (8 * hdr + bitptr \<le> k \<and> k < 8 * hdr + bitptr + attr_bits ((f, len) # as))" for k
  proof -
    have n: "\<not> (8 * hdr + (bitptr + len) \<le> k \<and> k < 8 * hdr + (bitptr + len) + attr_bits as)"
        "\<not> (8 * hdr + bitptr \<le> k \<and> k < 8 * hdr + bitptr + len)"
      using that by auto
    from ih n(1) have "bitat (pack_attrs over b ?m hdr (bitptr + len) as) k = bitat ?m k"
      by blast
    also have "\<dots> = bitat m k"
      unfolding bits using n(2) by (simp only: if_False)
    finally show ?thesis .
  qed
  ultimately show ?case
    using ih lm by (simp add: add.assoc)
qed simp

definition copy_field :: "packetbuf \<Rightarrow> packetbuf \<Rightarrow> field \<Rightarrow> packetbuf" where
  "copy_field b x f = (case f of
     Addr a \<Rightarrow> packetbuf_set_addr x a (packetbuf_addr b a)
   | Attr t \<Rightarrow> packetbuf_set_attr x t (packetbuf_attr b t))"

lemma two_bytes: "ucast (ucast (w :: u16) :: u8) OR push_bit 8 (ucast (ucast (drop_bit 8 w) :: u8)) = w"
proof (rule bit_eqI)
  fix n
  show "bit (ucast (ucast w :: u8) OR push_bit 8 (ucast (ucast (drop_bit 8 w) :: u8)) :: u16) n = bit w n"
    using bit_imp_le_length [of w n] by (cases "n < 8") (auto simp: bit_simps)
qed

lemma one_byte: "unat (w :: u16) < 256 \<Longrightarrow> ucast (ucast w :: u8) = w"
proof (rule bit_eqI)
  fix n
  assume "unat w < 256"
  then have "8 \<le> n \<Longrightarrow> \<not> bit w n"
    using small_bits [of w 8 n] by simp
  then show "bit (ucast (ucast w :: u8) :: u16) n = bit w n"
    using bit_imp_le_length [of w n] by (cases "n < 8") (auto simp: bit_simps)
qed

lemma len_cases:
  assumes "len_ok len"
  obtains "len < 8" | "len = 8" | "16 \<le> len"
proof (cases "len < 8")
  case False
  define q where "q = len div 8"
  have q: "len = 8 * q" "0 < q"
    using assms False by (auto simp: len_ok_def q_def)
  show ?thesis
  proof (cases "q = 1")
    case False
    then have "16 \<le> len"
      using q by simp
    then show ?thesis
      using that by blast
  qed (use q that in simp)
qed (use that in blast)

lemma len_div_Suc:
  assumes "16 \<le> len"
  obtains q where "len div 8 = Suc (Suc q)"
proof -
  have "2 \<le> len div 8"
    using div_le_mono [OF assms, of 8] by simp
  then have "len div 8 = Suc (Suc (len div 8 - 2))"
    by simp
  then show ?thesis
    by (rule that)
qed

lemma set_field_addr:
  assumes "16 \<le> len"
  shows "set_field x (Addr a) (take (len div 8) (field_bytes over b (Addr a))) = copy_field b x (Addr a)"
proof -
  obtain q where q: "len div 8 = Suc (Suc q)"
    using len_div_Suc [OF assms] .
  show ?thesis
    unfolding q by (simp add: set_field_def copy_field_def field_bytes_def byte_val_def)
qed

lemma set_field_attr_word:
  assumes "16 \<le> len"
  shows "set_field x (Attr t) (take (len div 8) (field_bytes over b (Attr t))) = copy_field b x (Attr t)"
proof -
  obtain q where q: "len div 8 = Suc (Suc q)"
    using len_div_Suc [OF assms] .
  show ?thesis
    unfolding q by (simp add: set_field_def copy_field_def field_bytes_def byte_val_def two_bytes)
qed

lemma set_field_attr_byte:
  assumes "unat (packetbuf_attr b t) < 256"
  shows "set_field x (Attr t) [field_bytes over b (Attr t) ! 0] = copy_field b x (Attr t)"
  using one_byte [OF assms] by (simp add: set_field_def copy_field_def field_bytes_def byte_val_def)

lemma field_bytes_take1: "take (Suc 0) (field_bytes over b f) = [field_bytes over b f ! 0]"
  by (simp add: field_bytes_def split: field.split)

lemma attr_byte: "unat (w :: u16) < 2 ^ len \<Longrightarrow> len \<le> 8 \<Longrightarrow> unat w < 256"
proof -
  assume "unat w < 2 ^ len" "len \<le> 8"
  moreover from this(2) have "(2::nat) ^ len \<le> 2 ^ 8"
    by (intro power_increasing) simp_all
  ultimately show ?thesis
    by simp
qed

lemma set_field_canon:
  assumes fit: "field_fits over b (f, len)"
  shows "set_field x f (if len < 8 then [field_bytes over b f ! 0] else take (len div 8) (field_bytes over b f)) =
         copy_field b x f"
proof (cases f)
  case (Addr a)
  then have "16 \<le> len"
    using fit by (simp add: field_fits_def)
  then show ?thesis
    using set_field_addr [of len x a over b] Addr by simp
next
  case (Attr t)
  have ok: "len_ok len" and small: "len < 16 \<Longrightarrow> unat (packetbuf_attr b t) < 2 ^ len"
    using fit Attr by (simp_all add: field_fits_def)
  from ok show ?thesis
  proof (cases rule: len_cases)
    case 1
    then show ?thesis
      using set_field_attr_byte [OF attr_byte [OF small], of x over] Attr by simp
  next
    case 2
    then show ?thesis
      using set_field_attr_byte [OF attr_byte [OF small], of x over] field_bytes_take1 [of over b f] Attr by simp
  next
    case 3
    then show ?thesis
      using set_field_attr_word [OF 3, of x t over b] Attr by simp
  qed
qed

lemma pb_mem_copy_field [simp]: "pb_mem (copy_field b x f) = pb_mem x"
  by (simp add: copy_field_def packetbuf_set_attr_def packetbuf_set_addr_def split: field.split)

lemma field_bytes_length: "field_fits over b (f, len) \<Longrightarrow> len div 8 \<le> length (field_bytes over b f)"
  by (simp add: field_fits_def field_bytes_def split: field.splits)

lemma unpack_attrs_spec:
  assumes "\<forall>fl \<in> set as. field_fits over b fl" and "fields_at over b (pb_mem x) (8 * hdr + bitptr) as"
  shows "unpack_attrs x hdr bitptr as = foldl (copy_field b) x (map fst as)"
  using assms
proof (induction as arbitrary: x bitptr rule: attr_bits.induct)
  case (2 f len as)
  have fit: "field_fits over b (f, len)"
    using 2(2) by simp
  have pos: "8 * (hdr + bitptr div 8) + bitptr mod 8 = 8 * hdr + bitptr" "bitptr mod 8 < 8"
    by simp_all
  have "get_bits (pb_mem x) (hdr + bitptr div 8) (bitptr mod 8) len =
      (if len < 8 then [field_bytes over b f ! 0] else take (len div 8) (field_bytes over b f))"
  proof (rule get_bits_of [OF pos(2)])
    show "len_ok len"
      using fit by (simp add: field_fits_def)
    show "\<And>j. j < len \<Longrightarrow> bitat (pb_mem x) (8 * (hdr + bitptr div 8) + bitptr mod 8 + j) =
        vbit (field_bytes over b f) len j"
      using 2(3) unfolding pos(1) by simp
    show "len < 8 \<Longrightarrow> \<forall>j\<ge>len. \<not> bit (field_bytes over b f ! 0) j"
      using field_small [OF fit] by blast
  qed (rule field_bytes_length [OF fit])
  with set_field_canon [OF fit] have "unpack_attrs x hdr bitptr ((f, len) # as) =
      unpack_attrs (copy_field b x f) hdr (bitptr + len) as"
    by simp
  also have "\<dots> = foldl (copy_field b) (copy_field b x f) (map fst as)"
    using 2(2,3) by (intro 2(1)) (simp_all add: add.assoc)
  finally show ?case
    by simp
qed simp

text \<open>Copying a list of fields.\<close>

lemma copy_fields_attr:
  "packetbuf_attr (foldl (copy_field b) x fs) t = (if Attr t \<in> set fs then packetbuf_attr b t else packetbuf_attr x t)"
  by (induction fs arbitrary: x) (auto simp: copy_field_def split: field.splits)

lemma copy_fields_addr:
  "packetbuf_addr (foldl (copy_field b) x fs) a = (if Addr a \<in> set fs then packetbuf_addr b a else packetbuf_addr x a)"
  by (induction fs arbitrary: x) (auto simp: copy_field_def split: field.splits)

lemma copy_fields_data [simp]: "pb_data (foldl (copy_field b) x fs) = pb_data x"
  by (induction fs arbitrary: x) (auto simp: copy_field_def split: field.splits)

end
