(* ===== verification/Chameleon.thy ===== *)
theory Chameleon
  imports Bitopt
begin

text \<open>
  The way of a packet through \<open>core/net/rime/chameleon.c\<close>: what \<open>chameleon_output\<close> hands to the MAC
  layer of one node is, read by \<open>chameleon_input\<close> on another, the same data with the same attributes.
\<close>

section \<open>Sending and receiving\<close>

definition channel_ok :: "u8 list \<Rightarrow> packetbuf \<Rightarrow> channel \<Rightarrow> bool" where
  "channel_ok over b c \<longleftrightarrow> (\<forall>fl \<in> set (ch_attrlist c). field_fits over b fl) \<and>
     unat (ch_hdrsize c) = header_size (ch_attrlist c)"

lemma hdrbytesize_bound: "unat (ch_hdrsize c) \<le> 8 * hdrbytesize c" "hdrbytesize c \<le> 32"
proof -
  define h where "h = unat (ch_hdrsize c)"
  have "h < 256"
    by (simp add: h_def)
  moreover have "h = 8 * (h div 8) + h mod 8" "h mod 8 < 8"
    by simp_all
  ultimately show "unat (ch_hdrsize c) \<le> 8 * hdrbytesize c" "hdrbytesize c \<le> 32"
    unfolding hdrbytesize_def h_def [symmetric] by (auto split: if_splits)
qed

lemma byte_at_bits:
  assumes "\<And>d. d < 8 \<Longrightarrow> bitat m' (8 * p + d) = bitat m (8 * p + d)"
  shows "byte_at m' p = byte_at m p"
proof (rule bit_eqI)
  fix j :: nat
  show "bit (byte_at m' p) j = bit (byte_at m p) j"
  proof (cases "j < 8")
    case True
    define d where "d = 7 - j"
    have "d < 8" "7 - d = j"
      using True by (auto simp: d_def)
    with assms [of d] show ?thesis
      by (simp add: bitat_off)
  qed (simp add: bit_u8_high)
qed

lemma field_fits_cong:
  "(\<And>t. packetbuf_attr b' t = packetbuf_attr b t) \<Longrightarrow> field_fits over b' fl = field_fits over b fl"
  by (cases fl; cases "fst fl") (simp_all add: field_fits_def)

text \<open>The header area and the data after the attributes have been packed.\<close>

lemma pack_memory:
  fixes b' :: packetbuf
  assumes inv: "length m = 194" and ok: "channel_ok over b c"
  defines "n \<equiv> hdrbytesize c"
  defines "m2 \<equiv> pack_attrs over b' (mem_put m (64 - n) (replicate n 0)) (64 - n) 0 (ch_attrlist c)"
  assumes b': "\<And>f. field_bytes over b' f = field_bytes over b f" "\<And>t. packetbuf_attr b' t = packetbuf_attr b t"
  shows "length m2 = 194" and "fields_at over b' m2 (8 * (64 - n)) (ch_attrlist c)"
    and "64 \<le> i \<Longrightarrow> byte_at m2 i = byte_at m i"
proof -
  let ?m1 = "mem_put m (64 - n) (replicate n 0)" and ?as = "ch_attrlist c"
  have n: "n \<le> 32" "unat (ch_hdrsize c) \<le> 8 * n"
    using hdrbytesize_bound [of c] by (simp_all add: n_def)
  have H: "attr_bits ?as \<le> 8 * n"
    using ok n(2) by (simp add: channel_ok_def header_size_bits)
  have l1: "length ?m1 = 194"
    using inv n by simp
  have z: "byte_at ?m1 i = 0" if "64 - n \<le> i" "i < 64" for i
  proof -
    have "i + n - 64 < n"
      using that by linarith
    then show ?thesis
      using that inv n by (simp add: byte_at_def mem_put_def nth_append)
  qed
  have "\<not> bitat ?m1 k" if "8 * (64 - n) + 0 \<le> k" "k < 8 * (64 - n) + 0 + attr_bits ?as" for k
  proof -
    have "8 * (64 - n) \<le> k" "k < 8 * 64"
      using that H n by auto
    then have "64 - n \<le> k div 8" "k div 8 < 64"
      by auto
    with z show ?thesis
      by (simp add: bitat_def)
  qed
  moreover have "\<forall>fl \<in> set ?as. field_fits over b' fl"
    using ok field_fits_cong [OF b'(2)] by (simp add: channel_ok_def)
  moreover have "64 - n + (0 + attr_bits ?as) div 8 + 1 < length ?m1"
  proof -
    have "attr_bits ?as div 8 \<le> n"
      using div_le_mono [OF H, of 8] by simp
    with n l1 show ?thesis
      by simp
  qed
  ultimately have sp: "length m2 = length ?m1"
      "\<And>k. \<not> (8 * (64 - n) \<le> k \<and> k < 8 * (64 - n) + attr_bits ?as) \<Longrightarrow> bitat m2 k = bitat ?m1 k"
      "fields_at over b' m2 (8 * (64 - n)) ?as"
    using pack_attrs_spec [of ?as over b' "64 - n" 0 ?m1] unfolding m2_def by auto
  show "length m2 = 194" "fields_at over b' m2 (8 * (64 - n)) ?as"
    using sp l1 by simp_all
  assume i: "64 \<le> i"
  have "byte_at m2 i = byte_at ?m1 i"
  proof (rule byte_at_bits)
    fix d :: nat
    have "8 * (64 - n) + attr_bits ?as \<le> 8 * 64"
      using H n by auto
    with i show "bitat m2 (8 * i + d) = bitat ?m1 (8 * i + d)"
      by (intro sp(2)) linarith
  qed
  also have "\<dots> = byte_at m i"
  proof -
    have "\<not> i + n - 64 < n" "\<not> i < 64 - n"
      using i n by linarith+
    then show ?thesis
      using i inv n by (simp add: byte_at_def mem_put_def nth_append)
  qed
  finally show "byte_at m2 i = byte_at m i" .
qed

text \<open>The frame that goes to the MAC layer: channel number, packed attributes, data.\<close>

lemma field_bytes_upd [simp]:
  "field_bytes over (b\<lparr>pb_hdrptr := h\<rparr>) f = field_bytes over b f"
  "packetbuf_attr (b\<lparr>pb_hdrptr := h\<rparr>) t = packetbuf_attr b t"
  by (simp_all add: field_bytes_def packetbuf_addr_def packetbuf_attr_def split: field.split)

lemma byte_at_nth: "i < length m \<Longrightarrow> byte_at m i = m ! i"
  by (simp add: byte_at_def)

lemma mem_get_eq:
  "length m = length m' \<Longrightarrow> off + n \<le> length m \<Longrightarrow> (\<And>i. off \<le> i \<Longrightarrow> i < off + n \<Longrightarrow> byte_at m i = byte_at m' i) \<Longrightarrow>
   mem_get m off n = mem_get m' off n"
  by (rule nth_equalityI) (simp_all add: mem_get_nth byte_at_def)

lemma pack_header_frame:
  assumes inv: "pb_inv b" and nr: "\<not> packetbuf_is_reference b" and h: "pb_hdrptr b = 64"
    and ok: "channel_ok over b c"
  defines "n \<equiv> hdrbytesize c"
  obtains m2 where "fst (packetbuf_copyto ext (pack_header over c b)) =
      [ucast (ch_no c), ucast (drop_bit 8 (ch_no c))] @ mem_get m2 (64 - n) n @ pb_data b"
    and "length m2 = 194" and "fields_at over b m2 (8 * (64 - n)) (ch_attrlist c)"
proof -
  let ?m = "pb_mem b"
  have n: "n \<le> 32"
    using hdrbytesize_bound [of c] by (simp add: n_def)
  have lm: "length ?m = 194" and bd: "unat (pb_bufptr b) + unat (pb_buflen b) \<le> 128"
    using inv nr by (auto simp: pb_inv_def packetbuf_is_reference_def pb_sizes)
  define b1 where "b1 = snd (packetbuf_hdralloc b (int n))"
  have b1: "b1 = b\<lparr>pb_hdrptr := 64 - of_nat n\<rparr>"
    using h n by (simp add: b1_def packetbuf_hdralloc_def)
  have u64: "unat (64 - of_nat k :: u8) = 64 - k" if "k \<le> 64" for k
  proof -
    have "(of_nat k :: u8) \<le> 64"
      using that by (simp add: word_le_nat_alt)
    then show ?thesis
      using that by (simp add: unat_sub)
  qed
  have hp: "packetbuf_hdrptr b1 = 64 - n"
    using u64 [of n] n by (simp add: packetbuf_hdrptr_def b1)
  define m2 where "m2 = pack_attrs over b1 (mem_put ?m (64 - n) (replicate n 0)) (64 - n) 0 (ch_attrlist c)"
  note pm = pack_memory [OF lm ok, of b1, folded n_def, folded m2_def]
  have fb: "\<And>f. field_bytes over b1 f = field_bytes over b f" "\<And>t. packetbuf_attr b1 t = packetbuf_attr b t"
    by (simp_all add: b1)
  have m2: "length m2 = 194" "fields_at over b1 m2 (8 * (64 - n)) (ch_attrlist c)"
      "\<And>i. 64 \<le> i \<Longrightarrow> byte_at m2 i = byte_at ?m i"
    using pm fb by auto
  have fa: "fields_at over b' m pos as = fields_at over b m pos as"
    if "\<And>f. field_bytes over b' f = field_bytes over b f" for b' m pos as
    using that by (induction as arbitrary: pos rule: attr_bits.induct) simp_all
  let ?no = "[ucast (ch_no c), ucast (drop_bit 8 (ch_no c))] :: u8 list"
  have "(64 - of_nat n - 2 :: u8) = 64 - of_nat (n + 2)"
    by (simp add: algebra_simps)
  then have h3: "unat (64 - of_nat n - 2 :: u8) = 62 - n"
    using u64 [of "n + 2"] n by simp
  have "uint (64 - of_nat n :: u8) > 2"
  proof -
    have "int (unat (64 - of_nat n :: u8)) = uint (64 - of_nat n :: u8)"
      by simp
    then show ?thesis
      using u64 [of n] n by linarith
  qed
  then have al: "packetbuf_hdralloc (b1\<lparr>pb_mem := m2\<rparr>) 2 =
      (True, b\<lparr>pb_hdrptr := 64 - of_nat n - 2, pb_mem := m2\<rparr>)"
    by (simp add: packetbuf_hdralloc_def b1)
  have "pb_mem b1 = ?m"
    by (simp add: b1)
  then have "pack_header over c b = (let b3 = snd (packetbuf_hdralloc (b1\<lparr>pb_mem := m2\<rparr>) 2)
      in b3\<lparr>pb_mem := mem_put (pb_mem b3) (packetbuf_hdrptr b3) ?no\<rparr>)"
    unfolding pack_header_def Let_def n_def [symmetric] b1_def [symmetric] hp m2_def by simp
  then have ph: "pack_header over c b = b\<lparr>pb_hdrptr := 64 - of_nat n - 2, pb_mem := mem_put m2 (62 - n) ?no\<rparr>"
    unfolding al using h3 by (simp add: Let_def packetbuf_hdrptr_def)
  have e2: "62 - n + 2 = 64 - n"
    using n by simp
  have "mem_get (mem_put m2 (62 - n) ?no) (62 - n) 2 = ?no"
    using mem_get_put_same [of "62 - n" ?no m2] m2(1) by (simp add: numeral_2_eq_2)
  moreover have "mem_get (mem_put m2 (62 - n) ?no) (64 - n) n = mem_get m2 (64 - n) n"
    by (rule mem_get_put_after) (use n m2(1) in auto)
  ultimately have "mem_get (mem_put m2 (62 - n) ?no) (62 - n) (2 + n) = ?no @ mem_get m2 (64 - n) n"
    unfolding mem_get_split e2 by simp
  moreover have "64 - (62 - n) = 2 + n"
    using n by simp
  moreover have "mem_get (mem_put m2 (62 - n) ?no) (64 + unat (pb_bufptr b)) (unat (pb_buflen b)) =
      mem_get ?m (64 + unat (pb_bufptr b)) (unat (pb_buflen b))"
    using mem_get_put_after [of "62 - n" ?no "64 + unat (pb_bufptr b)" m2] m2 n lm bd
      mem_get_eq [of m2 ?m "64 + unat (pb_bufptr b)" "unat (pb_buflen b)"] by simp
  ultimately have "fst (packetbuf_copyto ext (pack_header over c b)) = ?no @ mem_get m2 (64 - n) n @ pb_data b"
    using nr h3 by (simp add: ph packetbuf_copyto_def packetbuf_copyto_hdr_def pb_bytes_def pb_sizes
        packetbuf_is_reference_def pb_data_def packetbuf_dataptr_def add.commute)
  with m2 fa [of b1] fb show ?thesis
    by (intro that [of m2]) auto
qed

lemma two_bytes_add: "push_bit 8 (ucast (ucast (drop_bit 8 (w :: u16)) :: u8)) + ucast (ucast w :: u8) = w"
proof -
  let ?a = "push_bit 8 (ucast (ucast (drop_bit 8 w) :: u8)) :: u16" and ?b = "ucast (ucast w :: u8) :: u16"
  have "?a AND ?b = 0"
    by (rule bit_eqI) (auto simp: bit_simps)
  then have "?a + ?b = ?a OR ?b"
    by (rule disjunctive_add_eq_or)
  also have "\<dots> = w"
    using two_bytes [of w] by (simp only: or.commute)
  finally show ?thesis .
qed

lemma unpack_frame:
  fixes b r :: packetbuf
  assumes inv: "pb_inv r" and ok: "channel_ok over b c"
    and lk: "channel_lookup cs (ch_no c) = Some c"
  defines "n \<equiv> hdrbytesize c"
  assumes m2: "length m2 = 194" "fields_at over b m2 (8 * (64 - n)) (ch_attrlist c)"
    and fr: "frame = [ucast (ch_no c), ucast (drop_bit 8 (ch_no c))] @ mem_get m2 (64 - n) n @ data"
    and len: "length frame \<le> 128"
  obtains x where "unpack_header cs (snd (packetbuf_copyfrom r frame (of_nat (length frame)))) =
      (Some c, foldl (copy_field b) x (map fst (ch_attrlist c)))"
    and "pb_data x = data"
proof -
  have n: "n \<le> 32" "unat (ch_hdrsize c) \<le> 8 * n"
    using hdrbytesize_bound [of c] by (simp_all add: n_def)
  have H: "attr_bits (ch_attrlist c) \<le> 8 * n"
    using ok n(2) by (simp add: channel_ok_def header_size_bits)
  let ?L = "length frame"
  define r1 where "r1 = snd (packetbuf_copyfrom r frame (of_nat ?L))"
  have L: "?L = 2 + n + length data"
    using m2(1) n by (simp add: fr)
  have u: "unat (of_nat ?L :: u16) = ?L"
    using len by simp
  have lr: "length (pb_mem r) = 194"
    using inv by (simp add: pb_inv_def)
  have r1: "pb_mem r1 = mem_put (pb_mem r) 64 frame" "pb_buflen r1 = of_nat ?L" "pb_bufptr r1 = 0"
    using len u by (simp_all add: r1_def packetbuf_copyfrom_def Let_def pb_sizes)
  have byte: "pb_mem r1 ! (64 + i) = frame ! i" if "i < ?L" for i
    using that lr len by (simp add: r1 mem_put_def nth_append)
  have dp: "packetbuf_dataptr r1 = 64"
    by (simp add: packetbuf_dataptr_def r1 pb_sizes)
  have no: "push_bit 8 (ucast (pb_mem r1 ! (64 + 1))) + ucast (pb_mem r1 ! 64) = ch_no c"
    using byte [of 1] byte [of 0] two_bytes_add [of "ch_no c"] by (simp add: fr)
  define b1 where "b1 = snd (packetbuf_hdrreduce r1 2)"
  have b1: "b1 = r1\<lparr>pb_bufptr := 2, pb_buflen := of_nat ?L - 2\<rparr>"
    using L u by (simp add: b1_def packetbuf_hdrreduce_def r1 word_less_nat_alt)
  define x where "x = snd (packetbuf_hdrreduce b1 (int n))"
  have u2: "unat (of_nat ?L - 2 :: u16) = ?L - 2"
  proof -
    have "(2 :: u16) \<le> of_nat ?L"
      using u L by (simp add: word_le_nat_alt)
    then show ?thesis
      using u by (simp add: unat_sub)
  qed
  have un: "unat (of_nat n :: u16) = n"
    using n by simp
  have x: "x = r1\<lparr>pb_bufptr := 2 + of_nat n, pb_buflen := of_nat ?L - 2 - of_nat n\<rparr>"
  proof -
    have "\<not> (of_nat ?L - 2 :: u16) < of_nat n"
      unfolding word_less_nat_alt u2 un using L by simp
    then show ?thesis
      by (simp add: x_def packetbuf_hdrreduce_def b1)
  qed
  have "pb_mem x = pb_mem r1"
    by (simp add: x)
  moreover have "fields_at over b (pb_mem r1) (8 * 66 + 0) (ch_attrlist c) =
      fields_at over b m2 (8 * (64 - n)) (ch_attrlist c)"
  proof (rule fields_at_cong)
    fix k
    assume "k < attr_bits (ch_attrlist c)"
    then have k: "k div 8 < n"
      using H by auto
    have "byte_at (pb_mem r1) (66 + k div 8) = pb_mem r1 ! (64 + (2 + k div 8))"
      using k n lr len by (simp add: byte_at_def r1)
    also have "\<dots> = m2 ! (64 - n + k div 8)"
      using byte [of "2 + k div 8"] k L m2(1) n by (simp add: fr nth_append mem_get_nth)
    also have "\<dots> = byte_at m2 (64 - n + k div 8)"
      by (subst byte_at_nth) (use k n m2(1) in auto)
    finally show "bitat (pb_mem r1) (8 * 66 + 0 + k) = bitat m2 (8 * (64 - n) + k)"
      using bitat_off [of "pb_mem r1" 66 k] bitat_off [of m2 "64 - n" k] by simp
  qed
  ultimately have "fields_at over b (pb_mem x) (8 * 66 + 0) (ch_attrlist c)"
    using m2(2) by simp
  moreover have "\<forall>fl \<in> set (ch_attrlist c). field_fits over b fl"
    using ok by (simp add: channel_ok_def)
  ultimately have "unpack_attrs x 66 0 (ch_attrlist c) = foldl (copy_field b) x (map fst (ch_attrlist c))"
    by (intro unpack_attrs_spec)
  moreover have "packetbuf_dataptr b1 = 66"
    by (simp add: b1 packetbuf_dataptr_def pb_sizes)
  ultimately have "unpack_header cs r1 = (Some c, foldl (copy_field b) x (map fst (ch_attrlist c)))"
    using no lk unfolding unpack_header_def Let_def dp b1_def [symmetric]
    by (simp add: n_def [symmetric] x_def [symmetric])
  moreover have "pb_data x = data"
  proof -
    have "unat (of_nat ?L - 2 - of_nat n :: u16) = length data"
    proof -
      have "(of_nat n :: u16) \<le> of_nat ?L - 2"
        unfolding word_le_nat_alt u2 un using L by simp
      moreover have "length data mod 65536 = length data"
        using len L by simp
      ultimately show ?thesis
        using u2 un L by (simp add: unat_sub)
    qed
    moreover have "unat (2 + of_nat n :: u16) = 2 + n"
    proof -
      have "(2 + of_nat n :: u16) = of_nat (2 + n)"
        by simp
      then show ?thesis
        using n by (simp only: unat16_of_nat) simp
    qed
    ultimately have "pb_data x = mem_get (pb_mem r1) (66 + n) (length data)"
      by (simp add: x pb_data_def packetbuf_dataptr_def pb_sizes)
    also have "\<dots> = data"
    proof (rule nth_equalityI)
      show l: "length (mem_get (pb_mem r1) (66 + n) (length data)) = length data"
        using lr len L by (simp add: r1)
      fix i assume "i < length (mem_get (pb_mem r1) (66 + n) (length data))"
      then have i: "i < length data"
        using l by simp
      have "mem_get (pb_mem r1) (66 + n) (length data) ! i = pb_mem r1 ! (64 + (2 + n + i))"
        using i lr len L by (subst mem_get_nth) (simp_all add: r1 add.assoc)
      also have "\<dots> = data ! i"
        using byte [of "2 + n + i"] i L m2(1) n by (simp add: fr nth_append)
      finally show "mem_get (pb_mem r1) (66 + n) (length data) ! i = data ! i" .
    qed
    finally show ?thesis .
  qed
  ultimately show ?thesis
    using that unfolding r1_def by blast
qed

text \<open>C38: A packet survives the trip. Whatever a node packs with \<open>pack_header\<close> and hands to the MAC layer,
  another node that has the channel open unpacks, from a buffer in any state, to the same channel, the same
  data and the same value of every attribute and address the channel's list names, provided the list's
  fields are whole bytes or less than a byte wide, every value fits its field, the header size fits the
  \<open>uint8_t\<close> it is stored in, and the frame fits the 128-byte buffer.\<close>

theorem header_roundtrip:
  assumes "pb_inv b" and "\<not> packetbuf_is_reference b" and "pb_hdrptr b = 64"
    and "channel_ok over b c" and "channel_lookup cs (ch_no c) = Some c" and "pb_inv r"
    and "hdrbytesize c + 2 + unat (pb_buflen b) \<le> 128"
    and "frame = fst (packetbuf_copyto ext (pack_header over c b))"
  shows "\<exists>x. unpack_header cs (snd (packetbuf_copyfrom r frame (of_nat (length frame)))) = (Some c, x) \<and>
    pb_data x = pb_data b \<and>
    (\<forall>t. Attr t \<in> fst ` set (ch_attrlist c) \<longrightarrow> packetbuf_attr x t = packetbuf_attr b t) \<and>
    (\<forall>a. Addr a \<in> fst ` set (ch_attrlist c) \<longrightarrow> packetbuf_addr x a = packetbuf_addr b a)"
proof -
  obtain m2 where fr: "frame = [ucast (ch_no c), ucast (drop_bit 8 (ch_no c))] @
        mem_get m2 (64 - hdrbytesize c) (hdrbytesize c) @ pb_data b"
    and m2: "length m2 = 194" "fields_at over b m2 (8 * (64 - hdrbytesize c)) (ch_attrlist c)"
    using pack_header_frame [OF assms(1-4)] assms(8) by blast
  have "unat (pb_bufptr b) + unat (pb_buflen b) \<le> 128" "length (pb_mem b) = 194"
    using assms(1,2) by (auto simp: pb_inv_def packetbuf_is_reference_def pb_sizes)
  then have "length (pb_data b) = unat (pb_buflen b)"
    by (simp add: pb_data_def packetbuf_dataptr_def pb_sizes)
  then have len: "length frame \<le> 128"
    using assms(7) m2(1) hdrbytesize_bound(2) [of c] by (simp add: fr)
  obtain x where x: "unpack_header cs (snd (packetbuf_copyfrom r frame (of_nat (length frame)))) =
      (Some c, foldl (copy_field b) x (map fst (ch_attrlist c)))" and d: "pb_data x = pb_data b"
    using unpack_frame [OF assms(6,4,5) m2 fr len] .
  show ?thesis
    by (intro exI [of _ "foldl (copy_field b) x (map fst (ch_attrlist c))"])
      (simp add: x d copy_fields_attr copy_fields_addr)
qed

section \<open>Connections\<close>

text \<open>The attribute lists of the layers; each connection's list contains those of the layers below it.\<close>

definition PACKETBUF_ADDRSIZE :: nat where "PACKETBUF_ADDRSIZE = 16"

definition ABC_ATTRIBUTES :: attrlist where
  "ABC_ATTRIBUTES = []"

definition BROADCAST_ATTRIBUTES :: attrlist where
  "BROADCAST_ATTRIBUTES = (Addr PACKETBUF_ADDR_SENDER, PACKETBUF_ADDRSIZE) # ABC_ATTRIBUTES"

definition UNICAST_ATTRIBUTES :: attrlist where
  "UNICAST_ATTRIBUTES = (Addr PACKETBUF_ADDR_RECEIVER, PACKETBUF_ADDRSIZE) # BROADCAST_ATTRIBUTES"

definition RELUNICAST_ATTRIBUTES :: attrlist where
  "RELUNICAST_ATTRIBUTES =
     (Attr PACKETBUF_ATTR_PACKET_ID, 8) # (Attr PACKETBUF_ATTR_TIME_HIGH, 8 * 4) #
     (Attr PACKETBUF_ATTR_TIME_LOW, 8 * 4) # UNICAST_ATTRIBUTES"

definition RELCOLLECT_ATTRIBUTES :: attrlist where
  "RELCOLLECT_ATTRIBUTES =
     (Addr PACKETBUF_ADDR_ESENDER, PACKETBUF_ADDRSIZE) # (Attr PACKETBUF_ATTR_EPACKET_ID, 8) #
     (Attr PACKETBUF_ATTR_RTMETRIC, 8) # (Attr PACKETBUF_ATTR_MAX_REXMIT, 5) #
     (Attr PACKETBUF_ATTR_QUEUING_DELAY, 8 * 2) # (Attr PACKETBUF_ATTR_DROPPED_PACKETS_COUNT, 8 * 2) #
     (Attr PACKETBUF_ATTR_QUEUE_SIZE, 8) # RELUNICAST_ATTRIBUTES"

definition abc_open :: "channel list \<Rightarrow> channel \<Rightarrow> u16 \<Rightarrow> channel list" where
  "abc_open cs c no = channel_set_attributes (channel_open cs c no) no ABC_ATTRIBUTES"

definition abc_close :: "channel list \<Rightarrow> channel \<Rightarrow> channel list" where
  "abc_close cs c = channel_close cs c"

definition broadcast_open :: "channel list \<Rightarrow> channel \<Rightarrow> u16 \<Rightarrow> channel list" where
  "broadcast_open cs c no = channel_set_attributes (abc_open cs c no) no BROADCAST_ATTRIBUTES"

definition broadcast_close :: "channel list \<Rightarrow> channel \<Rightarrow> channel list" where
  "broadcast_close cs c = abc_close cs c"

definition unicast_open :: "channel list \<Rightarrow> channel \<Rightarrow> u16 \<Rightarrow> channel list" where
  "unicast_open cs c no = channel_set_attributes (broadcast_open cs c no) no UNICAST_ATTRIBUTES"

definition unicast_close :: "channel list \<Rightarrow> channel \<Rightarrow> channel list" where
  "unicast_close cs c = broadcast_close cs c"

text \<open>\<open>out\<close> is \<open>chameleon_output\<close> for the connection's channel; \<open>me\<close> is \<open>rimeaddr_node_addr\<close>.\<close>

definition abc_send :: "(packetbuf \<Rightarrow> packetbuf \<times> 'r) \<Rightarrow> packetbuf \<Rightarrow> packetbuf \<times> 'r" where
  "abc_send out b = out b"

definition broadcast_send :: "rimeaddr \<Rightarrow> (packetbuf \<Rightarrow> packetbuf \<times> 'r) \<Rightarrow> packetbuf \<Rightarrow> packetbuf \<times> 'r" where
  "broadcast_send me out b = abc_send out (packetbuf_set_addr b PACKETBUF_ADDR_SENDER me)"

definition unicast_send ::
  "rimeaddr \<Rightarrow> (packetbuf \<Rightarrow> packetbuf \<times> 'r) \<Rightarrow> packetbuf \<Rightarrow> rimeaddr \<Rightarrow> packetbuf \<times> 'r" where
  "unicast_send me out b receiver = broadcast_send me out (packetbuf_set_addr b PACKETBUF_ADDR_RECEIVER receiver)"

text \<open>
  The way up: the sender given to a broadcast connection's \<open>recv\<close>, and the decision of
  \<open>recv_from_broadcast\<close> whether a unicast connection's \<open>recv\<close> is called.
\<close>

definition recv_from_abc :: "packetbuf \<Rightarrow> rimeaddr" where
  "recv_from_abc b = rimeaddr_copy rimeaddr_null (packetbuf_addr b PACKETBUF_ADDR_SENDER)"

definition recv_from_broadcast :: "rimeaddr \<Rightarrow> packetbuf \<Rightarrow> rimeaddr option" where
  "recv_from_broadcast me b =
     (if rimeaddr_cmp (packetbuf_addr b PACKETBUF_ADDR_RECEIVER) me then Some (recv_from_abc b) else None)"

lemma set_attributes_lookup:
  "channel_lookup cs no = Some c \<Longrightarrow>
   channel_lookup (channel_set_attributes cs no a) no = Some (c\<lparr>ch_attrlist := a, ch_hdrsize := of_nat (header_size a)\<rparr>)"
  by (induction cs) (auto simp: channel_lookup_def chameleon_hdrsize_def)

lemma open_lookup: "channel_lookup cs no = None \<Longrightarrow> channel_lookup (channel_open cs c no) no = Some (c\<lparr>ch_no := no\<rparr>)"
  by (induction cs) (auto simp: channel_lookup_def channel_open_def split: if_splits)

text \<open>An opened unicast connection is found under its number, with the unicast header.\<close>

lemma unicast_open_lookup:
  assumes "channel_lookup cs no = None"
  shows "channel_lookup (unicast_open cs c no) no =
    Some (c\<lparr>ch_no := no, ch_attrlist := UNICAST_ATTRIBUTES, ch_hdrsize := 32\<rparr>)"
proof -
  have "header_size UNICAST_ATTRIBUTES = 32"
    by code_simp
  then show ?thesis
    using set_attributes_lookup [OF set_attributes_lookup [OF set_attributes_lookup [OF open_lookup [OF assms, of c]]],
        of ABC_ATTRIBUTES BROADCAST_ATTRIBUTES UNICAST_ATTRIBUTES]
    by (simp add: unicast_open_def broadcast_open_def abc_open_def)
qed

text \<open>The channel of the collection protocol and a packet on it.\<close>

definition relcollect_channel :: "u16 \<Rightarrow> channel" where
  "relcollect_channel no = \<lparr>ch_no = no, ch_attrlist = RELCOLLECT_ATTRIBUTES,
                            ch_hdrsize = of_nat (header_size RELCOLLECT_ATTRIBUTES)\<rparr>"

lemma relcollect_header_bits: "header_size RELCOLLECT_ATTRIBUTES = 181"
  by code_simp

lemma relcollect_channel_ok:
  assumes "2 \<le> length over"
    and "unat (packetbuf_attr b PACKETBUF_ATTR_EPACKET_ID) < 256"
    and "unat (packetbuf_attr b PACKETBUF_ATTR_RTMETRIC) < 256"
    and "unat (packetbuf_attr b PACKETBUF_ATTR_MAX_REXMIT) < 32"
    and "unat (packetbuf_attr b PACKETBUF_ATTR_QUEUE_SIZE) < 256"
    and "unat (packetbuf_attr b PACKETBUF_ATTR_PACKET_ID) < 256"
  shows "channel_ok over b (relcollect_channel no)"
  using assms relcollect_header_bits
  by (simp add: channel_ok_def relcollect_channel_def RELCOLLECT_ATTRIBUTES_def RELUNICAST_ATTRIBUTES_def
      UNICAST_ATTRIBUTES_def BROADCAST_ATTRIBUTES_def ABC_ATTRIBUTES_def PACKETBUF_ADDRSIZE_def
      field_fits_def len_ok_def)

definition pb_packet :: packetbuf where
  "pb_packet = packetbuf_set_addr (packetbuf_set_attr (packetbuf_set_attr
     (snd (packetbuf_copyfrom pb_example [10, 20, 30] 3))
     PACKETBUF_ATTR_MAX_REXMIT 3) PACKETBUF_ATTR_QUEUING_DELAY 1000) PACKETBUF_ADDR_ESENDER (Rimeaddr 7 0)"

lemma pb_example_inv: "pb_inv pb_example"
  by (simp add: pb_inv_def pb_example_def pb_sizes)

theorem header_roundtrip_witness:
  "\<exists>x. pb_data x = [10, 20, 30] \<and> packetbuf_attr x PACKETBUF_ATTR_QUEUING_DELAY = 1000 \<and>
       packetbuf_addr x PACKETBUF_ADDR_ESENDER = Rimeaddr 7 0"
proof -
  let ?c = "relcollect_channel 131"
  have inv: "pb_inv pb_packet" "pb_data pb_packet = [10, 20, 30]" "\<not> packetbuf_is_reference pb_packet"
    using copyfrom_simps [OF pb_example_inv, of 3 "[10, 20, 30]"]
    by (simp_all add: pb_packet_def packetbuf_is_reference_def)
  have h: "pb_hdrptr pb_packet = 64" "hdrbytesize ?c + 2 + unat (pb_buflen pb_packet) \<le> 128"
      "channel_lookup [?c] (ch_no ?c) = Some ?c"
    by code_simp+
  have "channel_ok [0, 0] pb_packet ?c"
    by (rule relcollect_channel_ok) code_simp+
  from header_roundtrip [OF inv(1,3) h(1) this h(3) pb_example_inv h(2) refl]
  obtain x where x: "pb_data x = pb_data pb_packet"
    "\<forall>t. Attr t \<in> fst ` set (ch_attrlist ?c) \<longrightarrow> packetbuf_attr x t = packetbuf_attr pb_packet t"
    "\<forall>a. Addr a \<in> fst ` set (ch_attrlist ?c) \<longrightarrow> packetbuf_addr x a = packetbuf_addr pb_packet a"
    by blast
  have m: "Attr PACKETBUF_ATTR_QUEUING_DELAY \<in> fst ` set (ch_attrlist ?c)"
      "Addr PACKETBUF_ADDR_ESENDER \<in> fst ` set (ch_attrlist ?c)"
    by (simp_all add: relcollect_channel_def RELCOLLECT_ATTRIBUTES_def)
  have v: "packetbuf_attr pb_packet PACKETBUF_ATTR_QUEUING_DELAY = 1000"
      "packetbuf_addr pb_packet PACKETBUF_ADDR_ESENDER = Rimeaddr 7 0"
    by code_simp+
  show ?thesis
    using x inv(2) m v by metis
qed

text \<open>The timestamps do not fit where they are unpacked: the collection header gives \<open>PACKETBUF_ATTR_TIME_HIGH\<close>
  and \<open>PACKETBUF_ATTR_TIME_LOW\<close> 32 bits each, so for each of them \<open>get_bits\<close> writes four bytes through a
  pointer to the two-byte local variable \<open>val\<close> of \<open>unpack_header\<close>.\<close>

theorem timestamp_overruns_val:
  assumes "(Attr t, len) \<in> set RELCOLLECT_ATTRIBUTES" and "t = PACKETBUF_ATTR_TIME_HIGH \<or> t = PACKETBUF_ATTR_TIME_LOW"
  shows "length (get_bits m off bitpos len) = 4"
proof -
  have "len = 32"
    using assms by (auto simp: RELCOLLECT_ATTRIBUTES_def RELUNICAST_ATTRIBUTES_def UNICAST_ATTRIBUTES_def
        BROADCAST_ATTRIBUTES_def ABC_ATTRIBUTES_def)
  then show ?thesis
    by (simp add: get_bits_def)
qed

theorem timestamp_overruns_val_witness:
  "length (get_bits (replicate 40 0) 9 5 32) = 4"
  by (rule timestamp_overruns_val [of PACKETBUF_ATTR_TIME_HIGH])
    (simp_all add: RELCOLLECT_ATTRIBUTES_def RELUNICAST_ATTRIBUTES_def)

end
