(* ===== verification/Memb.thy ===== *)
theory Memb
  imports Prelude
begin

text \<open>
  The block allocator of \<open>core/lib/memb.c\<close>: a pool is \<open>num\<close> blocks of \<open>size\<close> bytes, contiguous from
  the address \<open>mem\<close>, with one reference counter (a \<open>char\<close>) per block. The contents are a function
  from addresses to the structure the pool was declared for (\<open>MEMB(name, structure, num)\<close>). The locale
  \<open>block_pool\<close> is the contract its clients (neighbor table, queue buffers, packet queue) rely on.
\<close>

section \<open>State and operations\<close>

record 'a memb =
  m_size :: nat
  m_num :: nat
  m_count :: "u8 list"
  m_base :: ptr
  m_mem :: "ptr \<Rightarrow> 'a"

definition blk :: "'a memb \<Rightarrow> nat \<Rightarrow> ptr" where
  "blk m i = m_base m + i * m_size m"

definition memb_inmemb :: "'a memb \<Rightarrow> ptr \<Rightarrow> bool" where
  "memb_inmemb m p \<longleftrightarrow> m_base m \<le> p \<and> p < m_base m + m_num m * m_size m"

text \<open>\<open>memset(m->count, 0, num)\<close> and \<open>memset(m->mem, 0, size * num)\<close>; \<open>z\<close> is the all-zero structure.\<close>

definition memb_init :: "'a \<Rightarrow> 'a memb \<Rightarrow> 'a memb" where
  "memb_init z m = m\<lparr>m_count := replicate (m_num m) 0,
                     m_mem := (\<lambda>p. if memb_inmemb m p then z else m_mem m p)\<rparr>"

function alloc_from :: "'a memb \<Rightarrow> nat \<Rightarrow> ptr option \<times> 'a memb" where
  "alloc_from m i =
     (if i < m_num m then
        (if m_count m ! i = 0
         then (Some (blk m i), m\<lparr>m_count := (m_count m)[i := m_count m ! i + 1]\<rparr>)
         else alloc_from m (Suc i))
      else (None, m))"
  by pat_completeness auto
termination
  by (relation "measure (\<lambda>(m, i). m_num m - i)") auto

declare alloc_from.simps [simp del]

definition memb_alloc :: "'a memb \<Rightarrow> ptr option \<times> 'a memb" where
  "memb_alloc m = alloc_from m 0"

text \<open>The loop of \<open>memb_free\<close>; \<open>ptr2\<close> is the address of block \<open>i\<close>. The result is the new count, or \<open>-1\<close>.\<close>

function free_from :: "'a memb \<Rightarrow> ptr \<Rightarrow> nat \<Rightarrow> ptr \<Rightarrow> int \<times> 'a memb" where
  "free_from m p i ptr2 =
     (if i < m_num m then
        (if ptr2 = p then
           (let m' = (if m_count m ! i > 0 then m\<lparr>m_count := (m_count m)[i := m_count m ! i - 1]\<rparr> else m)
            in (sint (m_count m' ! i), m'))
         else free_from m p (Suc i) (ptr2 + m_size m))
      else (-1, m))"
  by pat_completeness auto
termination
  by (relation "measure (\<lambda>(m, p, i, q). m_num m - i)") auto

declare free_from.simps [simp del]

definition memb_free :: "'a memb \<Rightarrow> ptr \<Rightarrow> int \<times> 'a memb" where
  "memb_free m p = free_from m p 0 (m_base m)"

section \<open>Well-formed pools and the blocks in use\<close>

text \<open>\<open>MEMB\<close> declares a counter per block; every count is 0 or 1 as long as only these operations run.\<close>

definition memb_wf :: "'a memb \<Rightarrow> bool" where
  "memb_wf m \<longleftrightarrow> length (m_count m) = m_num m \<and> 0 < m_size m \<and> (\<forall>c \<in> set (m_count m). c = 0 \<or> c = 1)"

definition in_use :: "'a memb \<Rightarrow> ptr set" where
  "in_use m = {blk m i | i. i < m_num m \<and> m_count m ! i \<noteq> 0}"

lemma blk_inj: "0 < m_size m \<Longrightarrow> blk m i = blk m j \<longleftrightarrow> i = j"
  by (auto simp: blk_def)

lemma blk_upd [simp]: "blk (m\<lparr>m_count := c\<rparr>) i = blk m i" "blk (m\<lparr>m_mem := f\<rparr>) i = blk m i"
  by (simp_all add: blk_def)

lemma inmemb_upd [simp]:
  "memb_inmemb (m\<lparr>m_count := c\<rparr>) p = memb_inmemb m p" "memb_inmemb (m\<lparr>m_mem := f\<rparr>) p = memb_inmemb m p"
  by (simp_all add: memb_inmemb_def)

lemma blk_inmemb: "i < m_num m \<Longrightarrow> 0 < m_size m \<Longrightarrow> memb_inmemb m (blk m i)"
proof -
  assume "i < m_num m" "0 < m_size m"
  then have "i * m_size m < m_num m * m_size m"
    by simp
  then show ?thesis
    by (simp add: memb_inmemb_def blk_def)
qed

lemma in_use_inmemb: "memb_wf m \<Longrightarrow> p \<in> in_use m \<Longrightarrow> memb_inmemb m p"
  by (auto simp: in_use_def memb_wf_def blk_inmemb)

lemma in_use_image: "in_use m = blk m ` {i. i < m_num m \<and> m_count m ! i \<noteq> 0}"
  by (auto simp: in_use_def)

lemma finite_in_use [simp]: "finite (in_use m)"
  by (simp add: in_use_image)

lemma card_in_use:
  assumes "memb_wf m"
  shows "card (in_use m) = card {i. i < m_num m \<and> m_count m ! i \<noteq> 0}"
proof -
  have "inj (blk m)"
    using assms by (auto simp: inj_def blk_inj memb_wf_def)
  then show ?thesis
    unfolding in_use_image by (rule card_image [OF inj_on_subset]) simp
qed

lemma card_in_use_le: "memb_wf m \<Longrightarrow> card (in_use m) \<le> m_num m"
proof -
  assume "memb_wf m"
  then have "card (in_use m) = card {i. i < m_num m \<and> m_count m ! i \<noteq> 0}"
    by (rule card_in_use)
  also have "\<dots> \<le> card {..<m_num m}"
    by (rule card_mono) auto
  finally show ?thesis by simp
qed

lemma memb_init_wf: "0 < m_size m \<Longrightarrow> memb_wf (memb_init z m)"
  by (simp add: memb_wf_def memb_init_def)

lemma memb_init_in_use: "in_use (memb_init z m) = {}"
  by (simp add: in_use_def memb_init_def)

lemma in_use_upd:
  assumes "memb_wf m" and "i < m_num m"
  shows "in_use (m\<lparr>m_count := (m_count m)[i := c]\<rparr>) =
           (if c = 0 then in_use m - {blk m i} else insert (blk m i) (in_use m))"
proof -
  have l: "length (m_count m) = m_num m" and inj: "inj (blk m)"
    using assms by (auto simp: memb_wf_def blk_inj inj_def)
  let ?I = "{k. k < m_num m \<and> m_count m ! k \<noteq> 0}"
  have "{k. k < m_num m \<and> (m_count m)[i := c] ! k \<noteq> 0} = (if c = 0 then ?I - {i} else insert i ?I)"
    using l assms(2) by (auto simp: nth_list_update)
  moreover have "in_use (m\<lparr>m_count := (m_count m)[i := c]\<rparr>) =
      blk m ` {k. k < m_num m \<and> (m_count m)[i := c] ! k \<noteq> 0}"
    by (auto simp: in_use_image)
  ultimately show ?thesis
    using image_set_diff [OF inj, of ?I "{i}"] by (simp add: in_use_image)
qed

lemma wf_upd: "memb_wf m \<Longrightarrow> c = 0 \<or> c = 1 \<Longrightarrow> memb_wf (m\<lparr>m_count := (m_count m)[i := c]\<rparr>)"
  using set_update_subset_insert [of "m_count m" i c] by (auto simp: memb_wf_def)

text \<open>A client's assignment to a field of the structure at \<open>p\<close>.\<close>

definition memb_write :: "'a memb \<Rightarrow> ptr \<Rightarrow> ('a \<Rightarrow> 'a) \<Rightarrow> 'a memb" where
  "memb_write m p f = m\<lparr>m_mem := (m_mem m)(p := f (m_mem m p))\<rparr>"

lemma memb_write_simps [simp]:
  "m_num (memb_write m p f) = m_num m" "m_size (memb_write m p f) = m_size m"
  "m_base (memb_write m p f) = m_base m" "m_count (memb_write m p f) = m_count m"
  "m_mem (memb_write m p f) = (m_mem m)(p := f (m_mem m p))"
  "in_use (memb_write m p f) = in_use m" "memb_wf (memb_write m p f) = memb_wf m"
  by (simp_all add: memb_write_def in_use_def memb_wf_def)

section \<open>Correctness\<close>

text \<open>The loop takes the first free block at or after \<open>i\<close>.\<close>

lemma alloc_from_Some:
  "alloc_from m i = (Some p, m') \<Longrightarrow>
   \<exists>j. i \<le> j \<and> j < m_num m \<and> p = blk m j \<and> m_count m ! j = 0 \<and>
       (\<forall>k. i \<le> k \<longrightarrow> k < j \<longrightarrow> m_count m ! k \<noteq> 0) \<and> m' = m\<lparr>m_count := (m_count m)[j := 1]\<rparr>"
proof (induction m i rule: alloc_from.induct)
  case (1 m i)
  show ?case
  proof (cases "i < m_num m \<and> m_count m ! i \<noteq> 0")
    case True
    with 1 have "alloc_from m (Suc i) = (Some p, m')"
      by (simp add: alloc_from.simps [of m i])
    with 1 True obtain j where j: "Suc i \<le> j" "j < m_num m" "p = blk m j" "m_count m ! j = 0"
        "\<forall>k. Suc i \<le> k \<longrightarrow> k < j \<longrightarrow> m_count m ! k \<noteq> 0" "m' = m\<lparr>m_count := (m_count m)[j := 1]\<rparr>"
      by blast
    with True show ?thesis
      by (metis Suc_le_eq le_eq_less_or_eq Suc_leD)
  next
    case False
    with 1 show ?thesis
      by (intro exI [of _ i]) (auto simp: alloc_from.simps [of m i] split: if_splits)
  qed
qed

lemma alloc_from_None:
  "alloc_from m i = (None, m') \<Longrightarrow> m' = m \<and> (\<forall>k. i \<le> k \<longrightarrow> k < m_num m \<longrightarrow> m_count m ! k \<noteq> 0)"
proof (induction m i rule: alloc_from.induct)
  case (1 m i)
  show ?case
  proof (cases "i < m_num m")
    case True
    with 1 have "m_count m ! i \<noteq> 0" "alloc_from m (Suc i) = (None, m')"
      by (auto simp: alloc_from.simps [of m i] split: if_splits)
    with 1 True show ?thesis
      by (metis Suc_le_eq le_eq_less_or_eq)
  next
    case False
    with 1 show ?thesis
      by (simp add: alloc_from.simps [of m i])
  qed
qed

lemma memb_alloc_Some:
  assumes "memb_wf m" and "memb_alloc m = (Some p, m')"
  shows "p \<notin> in_use m" "in_use m' = insert p (in_use m)" "memb_wf m'" "memb_inmemb m p"
    "m_mem m' = m_mem m" "m_num m' = m_num m" "m_size m' = m_size m" "m_base m' = m_base m"
proof -
  from alloc_from_Some [of m 0 p m'] assms(2) obtain j where j: "j < m_num m" "p = blk m j"
      "m_count m ! j = 0" "m' = m\<lparr>m_count := (m_count m)[j := 1]\<rparr>"
    unfolding memb_alloc_def by blast
  have inj: "\<And>k. blk m k = blk m j \<longleftrightarrow> k = j"
    using assms(1) by (simp add: blk_inj memb_wf_def)
  show "p \<notin> in_use m"
    using j(2,3) inj unfolding in_use_def by (smt (verit) mem_Collect_eq)
  show "in_use m' = insert p (in_use m)"
    using in_use_upd [OF assms(1) j(1), of 1] j by simp
  show "memb_wf m'"
    using wf_upd [OF assms(1), of 1 j] j by simp
  show "memb_inmemb m p"
    using blk_inmemb [OF j(1)] assms(1) j(2) by (simp add: memb_wf_def)
  show "m_mem m' = m_mem m" "m_num m' = m_num m" "m_size m' = m_size m" "m_base m' = m_base m"
    using j(4) by simp_all
qed

lemma memb_alloc_None:
  assumes "memb_wf m" and "memb_alloc m = (None, m')"
  shows "m' = m" "card (in_use m) = m_num m"
proof -
  from alloc_from_None [of m 0 m'] assms(2)
  have none: "m' = m" "\<And>k. k < m_num m \<Longrightarrow> m_count m ! k \<noteq> 0"
    unfolding memb_alloc_def by auto
  show "m' = m" by (rule none)
  have "{i. i < m_num m \<and> m_count m ! i \<noteq> 0} = {..<m_num m}"
    using none(2) by auto
  then show "card (in_use m) = m_num m"
    by (simp add: card_in_use [OF assms(1)])
qed

text \<open>An allocation fails only when every block is in use.\<close>

lemma memb_alloc_total:
  "memb_wf m \<Longrightarrow> card (in_use m) < m_num m \<Longrightarrow> \<exists>p m'. memb_alloc m = (Some p, m')"
  using memb_alloc_None(2) [of m] by (cases "memb_alloc m"; cases "fst (memb_alloc m)") fastforce+

lemma free_from_blk:
  "free_from m (blk m j) i (blk m i) =
     (if i \<le> j \<and> j < m_num m
      then (let m' = (if m_count m ! j > 0 then m\<lparr>m_count := (m_count m)[j := m_count m ! j - 1]\<rparr> else m)
            in (sint (m_count m' ! j), m'))
      else (-1, m))" if "0 < m_size m"
proof (induction "m_num m - i" arbitrary: i)
  case 0
  then show ?case
    by (auto simp: free_from.simps)
next
  case (Suc n)
  have step: "blk m i + m_size m = blk m (Suc i)"
    by (simp add: blk_def)
  have ind: "free_from m (blk m j) (Suc i) (blk m (Suc i)) =
     (if Suc i \<le> j \<and> j < m_num m
      then (let m' = (if m_count m ! j > 0 then m\<lparr>m_count := (m_count m)[j := m_count m ! j - 1]\<rparr> else m)
            in (sint (m_count m' ! j), m'))
      else (-1, m))"
    using Suc by (intro Suc.hyps(1)) simp
  show ?case
  proof (cases "i = j")
    case True
    then show ?thesis
      using Suc(2) by (subst free_from.simps) simp
  next
    case False
    then have "Suc i \<le> j \<longleftrightarrow> i \<le> j"
      by auto
    moreover have "free_from m (blk m j) i (blk m i) = free_from m (blk m j) (Suc i) (blk m (Suc i))"
      using Suc False blk_inj [OF that, of i j] by (simp add: free_from.simps [of m _ i] step)
    ultimately show ?thesis
      using ind by simp
  qed
qed

lemma memb_free_blk:
  assumes "memb_wf m" and "p \<in> in_use m"
  shows "fst (memb_free m p) = 0" "in_use (snd (memb_free m p)) = in_use m - {p}"
    "memb_wf (snd (memb_free m p))" "m_mem (snd (memb_free m p)) = m_mem m"
    "m_num (snd (memb_free m p)) = m_num m" "m_base (snd (memb_free m p)) = m_base m"
proof -
  from assms(2) obtain j where j: "p = blk m j" "j < m_num m" "m_count m ! j \<noteq> 0"
    by (auto simp: in_use_def)
  have one: "m_count m ! j = 1" and len: "length (m_count m) = m_num m" and sz: "0 < m_size m"
    using assms(1) j by (auto simp: memb_wf_def)
  have "blk m 0 = m_base m"
    by (simp add: blk_def)
  with free_from_blk [OF sz, of j 0] j one len
  have fr: "memb_free m p = (0, m\<lparr>m_count := (m_count m)[j := 0]\<rparr>)"
    by (simp add: memb_free_def)
  show "fst (memb_free m p) = 0" "m_mem (snd (memb_free m p)) = m_mem m"
    "m_num (snd (memb_free m p)) = m_num m" "m_base (snd (memb_free m p)) = m_base m"
    by (simp_all add: fr)
  show "in_use (snd (memb_free m p)) = in_use m - {p}"
    using in_use_upd [OF assms(1) j(2), of 0] by (simp add: fr [unfolded j(1)] j(1))
  show "memb_wf (snd (memb_free m p))"
    using wf_upd [OF assms(1), of 0 j] by (simp add: fr)
qed

text \<open>A pointer that is no block start is refused with \<open>-1\<close> and changes nothing.\<close>

lemma free_from_other:
  "(\<And>j. i \<le> j \<Longrightarrow> j < m_num m \<Longrightarrow> p \<noteq> blk m j) \<Longrightarrow> free_from m p i (blk m i) = (-1, m)"
proof (induction "m_num m - i" arbitrary: i)
  case 0
  then show ?case
    by (simp add: free_from.simps)
next
  case (Suc n)
  have step: "blk m i + m_size m = blk m (Suc i)"
    by (simp add: blk_def)
  from Suc have "free_from m p (Suc i) (blk m (Suc i)) = (-1, m)" "p \<noteq> blk m i"
    by auto
  then show ?case
    by (subst free_from.simps) (auto simp: step)
qed

lemma memb_free_other:
  "(\<And>j. j < m_num m \<Longrightarrow> p \<noteq> blk m j) \<Longrightarrow> memb_free m p = (-1, m)"
  using free_from_other [of 0 m p] by (simp add: memb_free_def blk_def)

text \<open>Freeing a block that is not in use (a double free) leaves the pool as it is.\<close>

lemma memb_free_unused:
  assumes "memb_wf m" and "p \<notin> in_use m"
  shows "snd (memb_free m p) = m"
proof (cases "\<exists>j<m_num m. p = blk m j")
  case True
  then obtain j where j: "j < m_num m" "p = blk m j"
    by blast
  then have "m_count m ! j = 0"
    using assms(2) by (auto simp: in_use_def)
  moreover have "0 < m_size m" "blk m 0 = m_base m"
    using assms(1) by (auto simp: memb_wf_def blk_def)
  ultimately show ?thesis
    using free_from_blk [of m j 0] j by (simp add: memb_free_def)
next
  case False
  then show ?thesis
    using memb_free_other [of m p] by auto
qed

section \<open>The interface of the pool's clients\<close>

fun alloc_n :: "('s \<Rightarrow> ptr option \<times> 's) \<Rightarrow> nat \<Rightarrow> 's \<Rightarrow> ptr option list \<times> 's" where
  "alloc_n alloc 0 s = ([], s)"
| "alloc_n alloc (Suc n) s = (let (p, s1) = alloc s; (ps, s2) = alloc_n alloc n s1 in (p # ps, s2))"

locale block_pool =
  fixes used :: "'s \<Rightarrow> ptr set"
    and cap :: "'s \<Rightarrow> nat"
    and wf :: "'s \<Rightarrow> bool"
    and alloc :: "'s \<Rightarrow> ptr option \<times> 's"
    and free :: "'s \<Rightarrow> ptr \<Rightarrow> int \<times> 's"
  assumes used_finite: "wf s \<Longrightarrow> finite (used s)"
    and used_cap: "wf s \<Longrightarrow> card (used s) \<le> cap s"
    and alloc_Some: "wf s \<Longrightarrow> alloc s = (Some p, s') \<Longrightarrow>
      p \<notin> used s \<and> used s' = insert p (used s) \<and> wf s' \<and> cap s' = cap s"
    and alloc_None: "wf s \<Longrightarrow> alloc s = (None, s') \<Longrightarrow> s' = s \<and> card (used s) = cap s"
    and free_used: "wf s \<Longrightarrow> p \<in> used s \<Longrightarrow>
      used (snd (free s p)) = used s - {p} \<and> wf (snd (free s p)) \<and> cap (snd (free s p)) = cap s"
begin

lemma alloc_free:
  assumes "wf s" and "alloc s = (Some p, s')"
  shows "used (snd (free s' p)) = used s \<and> wf (snd (free s' p))"
  using alloc_Some [OF assms] free_used [of s' p] by auto

text \<open>\<open>n\<close> allocations succeed as long as \<open>n\<close> blocks are left, with pairwise different blocks.\<close>

lemma alloc_n_ok:
  assumes "wf s" and "card (used s) + n \<le> cap s"
  shows "\<exists>ps s'. alloc_n alloc n s = (map Some ps, s') \<and> distinct ps \<and> length ps = n \<and>
           set ps \<inter> used s = {} \<and> used s' = set ps \<union> used s \<and> wf s' \<and> cap s' = cap s"
  using assms
proof (induction n arbitrary: s)
  case (Suc n)
  obtain q s1 where al: "alloc s = (q, s1)"
    by fastforce
  show ?case
  proof (cases q)
    case None
    with alloc_None [OF Suc.prems(1)] al Suc.prems(2) show ?thesis
      by simp
  next
    case (Some p)
    with alloc_Some [OF Suc.prems(1)] al
    have s1: "p \<notin> used s" "used s1 = insert p (used s)" "wf s1" "cap s1 = cap s"
      by auto
    have "card (used s1) = Suc (card (used s))"
      using s1 used_finite [OF Suc.prems(1)] by simp
    with Suc.prems(2) s1(4) have "card (used s1) + n \<le> cap s1"
      by simp
    from Suc.IH [OF s1(3) this] obtain ps s' where
      "alloc_n alloc n s1 = (map Some ps, s')" "distinct ps" "length ps = n"
      "set ps \<inter> used s1 = {}" "used s' = set ps \<union> used s1" "wf s'" "cap s' = cap s1"
      by blast
    with s1 al Some show ?thesis
      by (intro exI [of _ "p # ps"] exI [of _ s']) auto
  qed
qed (auto intro: exI [of _ "[]"])

text \<open>A client that drops its last reference without freeing loses the block for good.\<close>

lemma exhausted: "wf s \<Longrightarrow> card (used s) = cap s \<Longrightarrow> fst (alloc s) = None"
proof (rule ccontr)
  assume wf: "wf s" and full: "card (used s) = cap s" and "fst (alloc s) \<noteq> None"
  then obtain p s' where al: "alloc s = (Some p, s')"
    by (cases "alloc s") auto
  have "card (used s') = Suc (card (used s))"
    using alloc_Some [OF wf al] used_finite [OF wf] by simp
  with used_cap [of s'] alloc_Some [OF wf al] full show False
    by simp
qed

end

interpretation mp: block_pool in_use m_num memb_wf memb_alloc memb_free
proof unfold_locales
  fix s :: "'a memb" and p s'
  show "memb_wf s \<Longrightarrow> finite (in_use s)"
    by simp
  show "memb_wf s \<Longrightarrow> card (in_use s) \<le> m_num s"
    by (rule card_in_use_le)
  show "memb_wf s \<Longrightarrow> memb_alloc s = (Some p, s') \<Longrightarrow>
      p \<notin> in_use s \<and> in_use s' = insert p (in_use s) \<and> memb_wf s' \<and> m_num s' = m_num s"
    using memb_alloc_Some [of s p s'] by blast
  show "memb_wf s \<Longrightarrow> memb_alloc s = (None, s') \<Longrightarrow> s' = s \<and> card (in_use s) = m_num s"
    using memb_alloc_None [of s s'] by blast
  show "memb_wf s \<Longrightarrow> p \<in> in_use s \<Longrightarrow>
      in_use (snd (memb_free s p)) = in_use s - {p} \<and> memb_wf (snd (memb_free s p)) \<and>
      m_num (snd (memb_free s p)) = m_num s"
    using memb_free_blk [of s p] by blast
qed

end
