(* ===== verification/Queuebuf.thy ===== *)
theory Queuebuf
  imports Chameleon Memb
begin

text \<open>
  The queue buffers of \<open>core/net/rime/queuebuf.c\<close>: copies of the packet buffer in a pool of
  \<open>QUEUEBUF_NUM\<close> (22) blocks, or references in a second pool of \<open>QUEUEBUF_REF_NUM\<close> (2), with the
  counters \<open>queuebuf_len\<close> and \<open>queuebuf_ref_len\<close>. The record \<open>net\<close> is the part of the node's state
  all the Rime primitives share: the packet buffer, the two pools, and the foreign memory a reference
  points to.
\<close>

section \<open>State\<close>

definition QUEUEBUF_NUM :: nat where "QUEUEBUF_NUM = 22"
definition QUEUEBUF_REF_NUM :: nat where "QUEUEBUF_REF_NUM = 2"

record queuebuf =
  qb_len :: u16
  qb_data :: "u8 list"
  qb_attrs :: "attr \<Rightarrow> u16"
  qb_addrs :: "addr_attr \<Rightarrow> rimeaddr"

record queuebuf_ref =
  qr_len :: u16
  qr_ref :: "ptr option"
  qr_hdr :: "u8 list"
  qr_hdrlen :: u8

definition zero_queuebuf :: queuebuf where
  "zero_queuebuf = \<lparr>qb_len = 0, qb_data = replicate 192 0, qb_attrs = (\<lambda>_. 0), qb_addrs = (\<lambda>_. rimeaddr_null)\<rparr>"

definition zero_queuebuf_ref :: queuebuf_ref where
  "zero_queuebuf_ref = \<lparr>qr_len = 0, qr_ref = None, qr_hdr = replicate 64 0, qr_hdrlen = 0\<rparr>"

record net =
  nt_pb :: packetbuf
  nt_bufmem :: "queuebuf memb"
  nt_refbufmem :: "queuebuf_ref memb"
  nt_len :: u8
  nt_ref_len :: u8
  nt_max_len :: u8
  nt_ext :: "ptr \<Rightarrow> u8"

section \<open>Operations\<close>

definition queuebuf_init :: "net \<Rightarrow> net" where
  "queuebuf_init s = s\<lparr>nt_bufmem := memb_init zero_queuebuf (nt_bufmem s),
     nt_refbufmem := memb_init zero_queuebuf_ref (nt_refbufmem s), nt_max_len := of_nat QUEUEBUF_NUM\<rparr>"

text \<open>The two branches of \<open>queuebuf_new_from_packetbuf\<close>.\<close>

definition new_ref :: "net \<Rightarrow> ptr option \<times> net" where
  "new_ref s =
     (case memb_alloc (nt_refbufmem s) of
        (None, m) \<Rightarrow> (None, s\<lparr>nt_refbufmem := m\<rparr>)
      | (Some p, m) \<Rightarrow>
          (Some p, s\<lparr>nt_ref_len := nt_ref_len s + 1,
             nt_refbufmem := memb_write m p (\<lambda>r. r\<lparr>qr_len := packetbuf_datalen (nt_pb s),
               qr_ref := packetbuf_reference_ptr (nt_pb s),
               qr_hdr := mem_put (qr_hdr r) 0 (fst (packetbuf_copyto_hdr (nt_pb s))),
               qr_hdrlen := of_nat (snd (packetbuf_copyto_hdr (nt_pb s)))\<rparr>)\<rparr>))"

definition new_buf :: "net \<Rightarrow> ptr option \<times> net" where
  "new_buf s =
     (case memb_alloc (nt_bufmem s) of
        (None, m) \<Rightarrow> (None, s\<lparr>nt_bufmem := m\<rparr>)
      | (Some p, m) \<Rightarrow>
          (let len = nt_len s + 1
           in if uint len = uint (nt_max_len s) + 1
              then (None, s\<lparr>nt_len := len - 1, nt_bufmem := snd (memb_free m p)\<rparr>)
              else (Some p, s\<lparr>nt_len := len,
                nt_bufmem := memb_write m p (\<lambda>b. b\<lparr>
                  qb_len := of_nat (snd (packetbuf_copyto (nt_ext s) (nt_pb s))),
                  qb_data := mem_put (qb_data b) 0 (fst (packetbuf_copyto (nt_ext s) (nt_pb s))),
                  qb_attrs := fst (packetbuf_attr_copyto (nt_pb s)),
                  qb_addrs := snd (packetbuf_attr_copyto (nt_pb s))\<rparr>)\<rparr>)))"

definition queuebuf_new_from_packetbuf :: "net \<Rightarrow> ptr option \<times> net" where
  "queuebuf_new_from_packetbuf s = (if packetbuf_is_reference (nt_pb s) then new_ref s else new_buf s)"

definition queuebuf_free :: "net \<Rightarrow> ptr \<Rightarrow> net" where
  "queuebuf_free s p =
     (if memb_inmemb (nt_bufmem s) p
      then s\<lparr>nt_bufmem := snd (memb_free (nt_bufmem s) p), nt_len := nt_len s - 1\<rparr>
      else if memb_inmemb (nt_refbufmem s) p
      then s\<lparr>nt_refbufmem := snd (memb_free (nt_refbufmem s) p), nt_ref_len := nt_ref_len s - 1\<rparr>
      else s)"

text \<open>The bytes at a reference are those of the foreign memory.\<close>

definition queuebuf_to_packetbuf :: "net \<Rightarrow> ptr \<Rightarrow> net" where
  "queuebuf_to_packetbuf s p =
     (if memb_inmemb (nt_bufmem s) p then
        (let b = m_mem (nt_bufmem s) p
         in s\<lparr>nt_pb := packetbuf_attr_copyfrom (snd (packetbuf_copyfrom (nt_pb s) (qb_data b) (qb_len b)))
                        (qb_attrs b) (qb_addrs b)\<rparr>)
      else if memb_inmemb (nt_refbufmem s) p then
        (let r = m_mem (nt_refbufmem s) p;
             from = (case qr_ref r of None \<Rightarrow> [] | Some q \<Rightarrow> map (\<lambda>i. nt_ext s (q + i)) [0..<unat (qr_len r)]);
             b1 = snd (packetbuf_copyfrom (packetbuf_clear (nt_pb s)) from (qr_len r));
             b2 = snd (packetbuf_hdralloc b1 (uint (qr_hdrlen r)))
         in s\<lparr>nt_pb := b2\<lparr>pb_mem := mem_put (pb_mem b2) (packetbuf_hdrptr b2) (take (unat (qr_hdrlen r)) (qr_hdr r))\<rparr>\<rparr>)
      else s)"

text \<open>The byte at an offset from the pointer \<open>queuebuf_dataptr\<close> returns.\<close>

definition queuebuf_dataptr :: "net \<Rightarrow> ptr \<Rightarrow> (nat \<Rightarrow> u8) option" where
  "queuebuf_dataptr s p =
     (if memb_inmemb (nt_bufmem s) p then Some (byte_at (qb_data (m_mem (nt_bufmem s) p)))
      else if memb_inmemb (nt_refbufmem s) p
      then (case qr_ref (m_mem (nt_refbufmem s) p) of None \<Rightarrow> None | Some q \<Rightarrow> Some (\<lambda>i. nt_ext s (q + i)))
      else None)"

text \<open>\<open>b->len\<close>; both structures begin with it.\<close>

definition queuebuf_datalen :: "net \<Rightarrow> ptr \<Rightarrow> u16" where
  "queuebuf_datalen s p =
     (if memb_inmemb (nt_bufmem s) p then qb_len (m_mem (nt_bufmem s) p) else qr_len (m_mem (nt_refbufmem s) p))"

section \<open>The invariant\<close>

text \<open>
  The counter is the number of blocks in use. This is what makes the limit check of
  \<open>queuebuf_new_from_packetbuf\<close> sound, and with it a leak shows as a pool that stays smaller.
\<close>

definition net_inv :: "net \<Rightarrow> bool" where
  "net_inv s \<longleftrightarrow> memb_wf (nt_bufmem s) \<and> memb_wf (nt_refbufmem s) \<and>
     m_num (nt_bufmem s) = QUEUEBUF_NUM \<and> m_num (nt_refbufmem s) = QUEUEBUF_REF_NUM \<and>
     (\<forall>p. \<not> (memb_inmemb (nt_bufmem s) p \<and> memb_inmemb (nt_refbufmem s) p)) \<and>
     unat (nt_len s) = card (in_use (nt_bufmem s)) \<and> unat (nt_ref_len s) = card (in_use (nt_refbufmem s)) \<and>
     unat (nt_max_len s) = QUEUEBUF_NUM \<and> pb_inv (nt_pb s) \<and>
     (\<forall>p. length (qb_data (m_mem (nt_bufmem s) p)) = 192)"

definition bufs :: "net \<Rightarrow> ptr set" where
  "bufs s = in_use (nt_bufmem s)"

lemma net_inv_pb: "net_inv s \<Longrightarrow> pb_inv b \<Longrightarrow> net_inv (s\<lparr>nt_pb := b\<rparr>)"
  by (simp add: net_inv_def)

lemma bufs_pb [simp]: "bufs (s\<lparr>nt_pb := b\<rparr>) = bufs s"
  by (simp add: bufs_def)

lemma inmemb_write [simp]: "memb_inmemb (memb_write m p f) q = memb_inmemb m q"
  by (simp add: memb_write_def)

lemma inmemb_alloc: "memb_wf m \<Longrightarrow> memb_alloc m = (Some p, m') \<Longrightarrow> memb_inmemb m' q = memb_inmemb m q"
  using memb_alloc_Some(6-8) [of m p m'] by (simp add: memb_inmemb_def)

lemma memb_free_size [simp]: "m_size (snd (memb_free m p)) = m_size m" "m_num (snd (memb_free m p)) = m_num m"
    "m_base (snd (memb_free m p)) = m_base m"
proof -
  have "m_size (snd (free_from m p i q)) = m_size m \<and> m_num (snd (free_from m p i q)) = m_num m \<and>
      m_base (snd (free_from m p i q)) = m_base m" for i q
  proof (induction m p i q rule: free_from.induct)
    case (1 m p i q)
    then show ?case
      by (auto simp: free_from.simps [of m p i q] Let_def)
  qed
  then show "m_size (snd (memb_free m p)) = m_size m" "m_num (snd (memb_free m p)) = m_num m"
    "m_base (snd (memb_free m p)) = m_base m"
    by (simp_all add: memb_free_def)
qed

lemma inmemb_free [simp]: "memb_inmemb (snd (memb_free m p)) q = memb_inmemb m q"
  by (simp add: memb_inmemb_def)

lemma unat8_Suc: "unat (w :: u8) < 255 \<Longrightarrow> unat (w + 1) = unat w + 1"
proof -
  assume "unat w < 255"
  then have "unat w + unat (1 :: u8) < 2 ^ LENGTH(8)"
    by simp
  then have "unat (w + 1) = unat w + unat (1 :: u8)"
    using unat_add_lem by blast
  then show ?thesis
    by simp
qed

lemma unat8_pred: "0 < unat (w :: u8) \<Longrightarrow> unat (w - 1) = unat w - 1"
  by (subst unat_sub) (simp_all add: word_le_nat_alt)

lemma copyto_length:
  assumes "pb_inv b" and "\<not> packetbuf_is_reference b"
  shows "length (fst (packetbuf_copyto ext b)) = snd (packetbuf_copyto ext b)"
    and "snd (packetbuf_copyto ext b) \<le> 192"
    and "fst (packetbuf_copyto ext b) = pb_hdr b @ pb_data b"
proof -
  have bd: "length (pb_mem b) = 194" "unat (pb_hdrptr b) \<le> 64" "unat (pb_bufptr b) + unat (pb_buflen b) \<le> 128"
      "pb_ref b = None"
    using assms by (auto simp: pb_inv_def packetbuf_is_reference_def pb_sizes)
  show "length (fst (packetbuf_copyto ext b)) = snd (packetbuf_copyto ext b)"
    "snd (packetbuf_copyto ext b) \<le> 192"
    using bd by (simp_all add: packetbuf_copyto_def packetbuf_copyto_hdr_def pb_bytes_def pb_sizes)
  show "fst (packetbuf_copyto ext b) = pb_hdr b @ pb_data b"
    using bd by (simp add: packetbuf_copyto_def pb_hdr_def pb_data_def pb_bytes_def packetbuf_dataptr_def
        pb_sizes add.commute)
qed

text \<open>A new buffer is taken exactly when one is free; it holds the packet with its header.\<close>

lemma new_buf_spec:
  assumes inv: "net_inv s" and nr: "\<not> packetbuf_is_reference (nt_pb s)"
    and nb: "queuebuf_new_from_packetbuf s = (r, s')"
  shows "case r of
      None \<Rightarrow> s' = s \<and> card (bufs s) = QUEUEBUF_NUM
    | Some p \<Rightarrow> net_inv s' \<and> p \<notin> bufs s \<and> bufs s' = insert p (bufs s) \<and> memb_inmemb (nt_bufmem s') p \<and>
        nt_pb s' = nt_pb s \<and> nt_ext s' = nt_ext s \<and> card (bufs s) < QUEUEBUF_NUM \<and>
        (\<forall>q. memb_inmemb (nt_bufmem s') q = memb_inmemb (nt_bufmem s) q) \<and>
        (\<forall>q. q \<noteq> p \<longrightarrow> m_mem (nt_bufmem s') q = m_mem (nt_bufmem s) q) \<and>
        unat (qb_len (m_mem (nt_bufmem s') p)) = length (pb_hdr (nt_pb s) @ pb_data (nt_pb s)) \<and>
        take (unat (qb_len (m_mem (nt_bufmem s') p))) (qb_data (m_mem (nt_bufmem s') p)) = pb_hdr (nt_pb s) @ pb_data (nt_pb s) \<and>
        qb_attrs (m_mem (nt_bufmem s') p) = pb_attrs (nt_pb s) \<and> qb_addrs (m_mem (nt_bufmem s') p) = pb_addrs (nt_pb s)"
proof -
  have wf: "memb_wf (nt_bufmem s)" and num: "m_num (nt_bufmem s) = 22" and pb: "pb_inv (nt_pb s)"
    and len: "unat (nt_len s) = card (in_use (nt_bufmem s))" and mx: "unat (nt_max_len s) = 22"
    and dl: "\<And>p. length (qb_data (m_mem (nt_bufmem s) p)) = 192"
    using inv by (auto simp: net_inv_def QUEUEBUF_NUM_def)
  have new: "new_buf s = (r, s')"
    using nb nr by (simp add: queuebuf_new_from_packetbuf_def)
  obtain q m where al: "memb_alloc (nt_bufmem s) = (q, m)"
    by fastforce
  show ?thesis
  proof (cases q)
    case None
    then have "m = nt_bufmem s" "card (bufs s) = 22"
      using memb_alloc_None [OF wf al [unfolded None]] num by (auto simp: bufs_def)
    with new al None show ?thesis
      by (auto simp: new_buf_def QUEUEBUF_NUM_def)
  next
    case (Some p)
    note as = memb_alloc_Some [OF wf al [unfolded Some]]
    have fin: "finite (in_use (nt_bufmem s))"
      by simp
    have "card (in_use m) \<le> 22"
      using card_in_use_le [OF as(3)] as(6) num by simp
    then have c: "Suc (card (in_use (nt_bufmem s))) \<le> 22" "card (in_use m) = Suc (card (in_use (nt_bufmem s)))"
      using as(1,2) fin by auto
    have u: "unat (nt_len s + 1) = unat (nt_len s) + 1"
      using c len by (intro unat8_Suc) linarith
    have ne: "uint (nt_len s + 1) \<noteq> uint (nt_max_len s) + 1"
    proof
      assume "uint (nt_len s + 1) = uint (nt_max_len s) + 1"
      moreover have "int (unat (nt_len s + 1)) = uint (nt_len s + 1)" "int (unat (nt_max_len s)) = uint (nt_max_len s)"
        by simp_all
      ultimately show False
        using u c len mx by linarith
    qed
    note cl = copyto_length [OF pb nr, of "nt_ext s"]
    let ?bs = "fst (packetbuf_copyto (nt_ext s) (nt_pb s))" and ?n = "snd (packetbuf_copyto (nt_ext s) (nt_pb s))"
    have r: "r = Some p" and s': "s' = s\<lparr>nt_len := nt_len s + 1,
        nt_bufmem := memb_write m p (\<lambda>b. b\<lparr>qb_len := of_nat ?n, qb_data := mem_put (qb_data b) 0 ?bs,
          qb_attrs := pb_attrs (nt_pb s), qb_addrs := pb_addrs (nt_pb s)\<rparr>)\<rparr>"
      using new al Some ne by (auto simp: new_buf_def Let_def packetbuf_attr_copyto_def)
    have ul: "unat (of_nat ?n :: u16) = length ?bs"
      using cl by simp
    have tk: "take (length ?bs) (mem_put (qb_data (m_mem (nt_bufmem s) p)) 0 ?bs) = ?bs"
      by (simp add: mem_put_def)
    have lp: "length (mem_put (qb_data (m_mem (nt_bufmem s) p)) 0 ?bs) = 192"
      using dl [of p] cl by simp
    have inm: "\<And>q. memb_inmemb m q = memb_inmemb (nt_bufmem s) q"
      by (rule inmemb_alloc [OF wf al [unfolded Some]])
    have "net_inv s'"
      using inv as c u len lp num inm by (auto simp: s' net_inv_def)
    with r s' as c ul tk inm cl(3) show ?thesis
      by (simp add: bufs_def QUEUEBUF_NUM_def)
  qed
qed

lemma queuebuf_free_spec:
  assumes inv: "net_inv s" and p: "p \<in> bufs s"
  shows "net_inv (queuebuf_free s p)" "bufs (queuebuf_free s p) = bufs s - {p}"
    "nt_pb (queuebuf_free s p) = nt_pb s" "nt_ext (queuebuf_free s p) = nt_ext s"
    "m_mem (nt_bufmem (queuebuf_free s p)) = m_mem (nt_bufmem s)"
    "memb_inmemb (nt_bufmem (queuebuf_free s p)) q = memb_inmemb (nt_bufmem s) q"
proof -
  have wf: "memb_wf (nt_bufmem s)" and len: "unat (nt_len s) = card (in_use (nt_bufmem s))"
    using inv by (auto simp: net_inv_def)
  have inm: "memb_inmemb (nt_bufmem s) p"
    using in_use_inmemb [OF wf] p by (simp add: bufs_def)
  have fr: "queuebuf_free s p = s\<lparr>nt_bufmem := snd (memb_free (nt_bufmem s) p), nt_len := nt_len s - 1\<rparr>"
    using inm by (simp add: queuebuf_free_def)
  note mf = memb_free_blk [OF wf, of p]
  have pin: "p \<in> in_use (nt_bufmem s)"
    using p by (simp add: bufs_def)
  have "0 < card (in_use (nt_bufmem s))"
    using pin by (auto simp: card_gt_0_iff)
  then have "unat (nt_len s - 1) = card (in_use (nt_bufmem s)) - 1"
    using len by (simp add: unat8_pred)
  moreover have "card (in_use (nt_bufmem s) - {p}) = card (in_use (nt_bufmem s)) - 1"
    using pin by simp
  ultimately show "net_inv (queuebuf_free s p)"
    using inv mf pin by (simp add: fr net_inv_def)
  show "bufs (queuebuf_free s p) = bufs s - {p}" "nt_pb (queuebuf_free s p) = nt_pb s"
    "nt_ext (queuebuf_free s p) = nt_ext s" "m_mem (nt_bufmem (queuebuf_free s p)) = m_mem (nt_bufmem s)"
    "memb_inmemb (nt_bufmem (queuebuf_free s p)) q = memb_inmemb (nt_bufmem s) q"
    using mf pin wf by (simp_all add: fr bufs_def)
qed

text \<open>Reading a buffer back into the packet buffer.\<close>

definition restored :: "queuebuf \<Rightarrow> packetbuf \<Rightarrow> bool" where
  "restored q b \<longleftrightarrow> pb_inv b \<and> pb_data b = take (min 128 (unat (qb_len q))) (qb_data q) \<and> pb_hdr b = [] \<and>
     \<not> packetbuf_is_reference b \<and> pb_attrs b = qb_attrs q \<and> pb_addrs b = qb_addrs q"

lemma to_packetbuf_spec:
  assumes inv: "net_inv s" and p: "memb_inmemb (nt_bufmem s) p"
    and len: "unat (qb_len (m_mem (nt_bufmem s) p)) \<le> 192"
  shows "\<exists>b. queuebuf_to_packetbuf s p = s\<lparr>nt_pb := b\<rparr> \<and> restored (m_mem (nt_bufmem s) p) b"
proof -
  let ?q = "m_mem (nt_bufmem s) p"
  let ?b = "snd (packetbuf_copyfrom (nt_pb s) (qb_data ?q) (qb_len ?q))"
  have "pb_inv (nt_pb s)" "unat (qb_len ?q) \<le> length (qb_data ?q)"
    using inv len by (simp_all add: net_inv_def)
  from copyfrom_simps [OF this] have cf: "pb_inv ?b" "pb_data ?b = take (min 128 (unat (qb_len ?q))) (qb_data ?q)"
      "pb_hdr ?b = []" "\<not> packetbuf_is_reference ?b"
    by auto
  have "restored ?q (packetbuf_attr_copyfrom ?b (qb_attrs ?q) (qb_addrs ?q))"
    using cf by (simp add: restored_def) (simp add: packetbuf_attr_copyfrom_def pb_data_def pb_hdr_def
        packetbuf_dataptr_def packetbuf_copyto_hdr_def packetbuf_is_reference_def)
  then show ?thesis
    using p by (auto simp: queuebuf_to_packetbuf_def Let_def)
qed

section \<open>A concrete state\<close>

definition net_boot :: net where
  "net_boot = \<lparr>nt_pb = pb_example,
     nt_bufmem = \<lparr>m_size = 254, m_num = 22, m_count = replicate 22 0, m_base = 2000, m_mem = (\<lambda>_. zero_queuebuf)\<rparr>,
     nt_refbufmem = \<lparr>m_size = 70, m_num = 2, m_count = replicate 2 0, m_base = 1800, m_mem = (\<lambda>_. zero_queuebuf_ref)\<rparr>,
     nt_len = 0, nt_ref_len = 0, nt_max_len = 0, nt_ext = (\<lambda>_. 0)\<rparr>"

definition net_start :: net where
  "net_start = queuebuf_init net_boot"

lemma net_start_inv: "net_inv net_start"
  using memb_init_wf [of "nt_bufmem net_boot" zero_queuebuf] memb_init_wf [of "nt_refbufmem net_boot" zero_queuebuf_ref]
    memb_init_in_use [of zero_queuebuf "nt_bufmem net_boot"] memb_init_in_use [of zero_queuebuf_ref "nt_refbufmem net_boot"]
    pb_example_inv
  by (auto simp: net_start_def queuebuf_init_def net_inv_def QUEUEBUF_NUM_def QUEUEBUF_REF_NUM_def net_boot_def
      memb_init_def memb_inmemb_def zero_queuebuf_def)

section \<open>Properties\<close>

text \<open>A packet put into a queue buffer comes back. The buffer \<open>queuebuf_new_from_packetbuf\<close> returns, read
  back by \<open>queuebuf_to_packetbuf\<close> at any later time at which the packet buffer holds something else, gives
  the header and the data of the packet (as data), every attribute and every address, as long as header
  and data together fit the 128 bytes of the data area; the new buffer was not in use before and the
  counter still equals the number of buffers in use.\<close>

theorem queuebuf_roundtrip:
  assumes "net_inv s" and "\<not> packetbuf_is_reference (nt_pb s)"
    and "queuebuf_new_from_packetbuf s = (Some p, s')"
    and "length (pb_hdr (nt_pb s) @ pb_data (nt_pb s)) \<le> 128" and "pb_inv b"
  shows "p \<notin> bufs s \<and> net_inv s' \<and>
    pb_data (nt_pb (queuebuf_to_packetbuf (s'\<lparr>nt_pb := b\<rparr>) p)) = pb_hdr (nt_pb s) @ pb_data (nt_pb s) \<and>
    pb_attrs (nt_pb (queuebuf_to_packetbuf (s'\<lparr>nt_pb := b\<rparr>) p)) = pb_attrs (nt_pb s) \<and>
    pb_addrs (nt_pb (queuebuf_to_packetbuf (s'\<lparr>nt_pb := b\<rparr>) p)) = pb_addrs (nt_pb s)"
proof -
  let ?P = "pb_hdr (nt_pb s) @ pb_data (nt_pb s)"
  have sp: "net_inv s'" "p \<notin> bufs s" "memb_inmemb (nt_bufmem s') p"
      "unat (qb_len (m_mem (nt_bufmem s') p)) = length ?P"
      "take (unat (qb_len (m_mem (nt_bufmem s') p))) (qb_data (m_mem (nt_bufmem s') p)) = ?P"
      "qb_attrs (m_mem (nt_bufmem s') p) = pb_attrs (nt_pb s)" "qb_addrs (m_mem (nt_bufmem s') p) = pb_addrs (nt_pb s)"
    using new_buf_spec [OF assms(1-3)] by auto
  obtain b' where b': "queuebuf_to_packetbuf (s'\<lparr>nt_pb := b\<rparr>) p = s'\<lparr>nt_pb := b'\<rparr>"
      "restored (m_mem (nt_bufmem s') p) b'"
    using to_packetbuf_spec [OF net_inv_pb [OF sp(1) assms(5)], of p] sp(3,4) assms(4) by auto
  then show ?thesis
    using sp assms(4) by (simp add: restored_def min_def)
qed

lemma net_start_pb: "nt_pb net_start = pb_example" "\<not> packetbuf_is_reference pb_example"
  by (simp_all add: net_start_def queuebuf_init_def net_boot_def pb_example_def packetbuf_is_reference_def)

theorem queuebuf_roundtrip_witness:
  "pb_data (nt_pb (queuebuf_to_packetbuf ((snd (queuebuf_new_from_packetbuf net_start))\<lparr>nt_pb := pb_packet\<rparr>) 2000)) = [3, 4, 5]"
proof -
  have n: "fst (queuebuf_new_from_packetbuf net_start) = Some 2000"
      "pb_hdr pb_example @ pb_data pb_example = [3, 4, 5]"
    by code_simp+
  then obtain s' where s': "queuebuf_new_from_packetbuf net_start = (Some 2000, s')"
    by (cases "queuebuf_new_from_packetbuf net_start") simp
  have "pb_inv pb_packet"
    using copyfrom_simps [OF pb_example_inv, of 3 "[10, 20, 30]"] by (simp add: pb_packet_def)
  from queuebuf_roundtrip [OF net_start_inv _ s' _ this] net_start_pb n s' show ?thesis
    by simp
qed

end
