(* ===== verification/Packetqueue.thy ===== *)
theory Packetqueue
  imports Queuebuf
begin

text \<open>
  The packet queue of \<open>core/net/rime/packetqueue.c\<close>: a list of items from a pool, each holding a queue
  buffer. The locale \<open>packet_fifo\<close> is what the forwarding layer relies on: packets come out in the order
  they went in, unchanged, and a refused packet leaves no trace.
\<close>

section \<open>State and operations\<close>

record pqitem =
  pq_buf :: "ptr option"
  pq_ptr :: "ptr option"
  pq_lifetimer :: "clock_time_t option"
  pq_enqueue_time :: clock_time_t

definition zero_pqitem :: pqitem where
  "zero_pqitem = \<lparr>pq_buf = None, pq_ptr = None, pq_lifetimer = None, pq_enqueue_time = 0\<rparr>"

record packetqueue =
  q_list :: "ptr list"
  q_memb :: "pqitem memb"

abbreviation item :: "packetqueue \<Rightarrow> ptr \<Rightarrow> pqitem" where
  "item q i \<equiv> m_mem (q_memb q) i"

definition packetqueue_init :: "packetqueue \<Rightarrow> packetqueue" where
  "packetqueue_init q = q\<lparr>q_list := [], q_memb := memb_init zero_pqitem (q_memb q)\<rparr>"

text \<open>\<open>queuebuf_free(i->buf)\<close>; a null pointer lies in neither pool.\<close>

definition free_buf :: "net \<Rightarrow> ptr option \<Rightarrow> net" where
  "free_buf s p = (case p of None \<Rightarrow> s | Some p \<Rightarrow> queuebuf_free s p)"

text \<open>\<open>remove_queued_packet\<close>, the callback of an item's lifetime timer.\<close>

definition remove_queued_packet :: "net \<Rightarrow> packetqueue \<Rightarrow> ptr \<Rightarrow> net \<times> packetqueue" where
  "remove_queued_packet s q i =
     (free_buf s (pq_buf (item q i)),
      q\<lparr>q_list := remove1 i (q_list q),
        q_memb := snd (memb_free (memb_write (q_memb q) i (\<lambda>x. x\<lparr>pq_lifetimer := None\<rparr>)) i)\<rparr>)"

text \<open>\<open>now\<close> is \<open>clock_time()\<close>.\<close>

definition packetqueue_enqueue_packetbuf ::
  "clock_time_t \<Rightarrow> net \<Rightarrow> packetqueue \<Rightarrow> clock_time_t \<Rightarrow> ptr option \<Rightarrow> bool \<times> net \<times> packetqueue" where
  "packetqueue_enqueue_packetbuf now s q lifetime p =
     (case memb_alloc (q_memb q) of
        (None, m) \<Rightarrow> (False, s, q\<lparr>q_memb := m\<rparr>)
      | (Some i, m) \<Rightarrow>
          (case queuebuf_new_from_packetbuf s of
             (None, s1) \<Rightarrow> (False, s1, q\<lparr>q_memb := snd (memb_free (memb_write m i (\<lambda>x. x\<lparr>pq_buf := None\<rparr>)) i)\<rparr>)
           | (Some b, s1) \<Rightarrow>
               (True, s1, q\<lparr>q_memb := memb_write m i (\<lambda>x. x\<lparr>pq_buf := Some b, pq_ptr := p,
                   pq_lifetimer := (if lifetime > 0 then Some lifetime else pq_lifetimer x),
                   pq_enqueue_time := now\<rparr>), q_list := q_list q @ [i]\<rparr>)))"

definition packetqueue_first :: "packetqueue \<Rightarrow> ptr option" where
  "packetqueue_first q = (case q_list q of [] \<Rightarrow> None | i # _ \<Rightarrow> Some i)"

definition packetqueue_dequeue :: "net \<Rightarrow> packetqueue \<Rightarrow> net \<times> packetqueue" where
  "packetqueue_dequeue s q =
     (case packetqueue_first q of
        None \<Rightarrow> (s, q)
      | Some i \<Rightarrow>
          (free_buf s (pq_buf (item q i)),
           q\<lparr>q_list := remove1 i (q_list q),
             q_memb := snd (memb_free (memb_write (q_memb q) i (\<lambda>x. x\<lparr>pq_lifetimer := None\<rparr>)) i)\<rparr>))"

definition packetqueue_queuebuf :: "packetqueue \<Rightarrow> ptr option \<Rightarrow> ptr option" where
  "packetqueue_queuebuf q i = (case i of None \<Rightarrow> None | Some i \<Rightarrow> pq_buf (item q i))"

definition packetqueue_ptr :: "packetqueue \<Rightarrow> ptr option \<Rightarrow> ptr option" where
  "packetqueue_ptr q i = (case i of None \<Rightarrow> None | Some i \<Rightarrow> pq_ptr (item q i))"

definition get_enqueue_time :: "packetqueue \<Rightarrow> ptr option \<Rightarrow> clock_time_t" where
  "get_enqueue_time q i = (case i of None \<Rightarrow> 0 | Some i \<Rightarrow> pq_enqueue_time (item q i))"

definition get_queue_size :: "packetqueue \<Rightarrow> nat" where
  "get_queue_size q = length (q_list q)"

section \<open>The invariant and the abstract queue\<close>

text \<open>Every item of the list owns a queue buffer of its own; items and blocks in use correspond.\<close>

definition pq_inv :: "net \<Rightarrow> packetqueue \<Rightarrow> bool" where
  "pq_inv s q \<longleftrightarrow> memb_wf (q_memb q) \<and> distinct (q_list q) \<and> set (q_list q) = in_use (q_memb q) \<and>
     (\<forall>i \<in> set (q_list q). \<exists>b \<in> bufs s. pq_buf (item q i) = Some b \<and>
        unat (qb_len (m_mem (nt_bufmem s) b)) \<le> 192) \<and>
     inj_on (\<lambda>i. pq_buf (item q i)) (set (q_list q))"

definition pq_bufs :: "packetqueue \<Rightarrow> ptr set" where
  "pq_bufs q = {b. \<exists>i \<in> set (q_list q). pq_buf (item q i) = Some b}"

type_synonym packet = "u8 list \<times> (attr \<Rightarrow> u16) \<times> (addr_attr \<Rightarrow> rimeaddr) \<times> ptr option"

definition packet_at :: "net \<Rightarrow> packetqueue \<Rightarrow> ptr \<Rightarrow> packet" where
  "packet_at s q i =
     (let b = m_mem (nt_bufmem s) (the (pq_buf (item q i)))
      in (take (unat (qb_len b)) (qb_data b), qb_attrs b, qb_addrs b, pq_ptr (item q i)))"

definition packets :: "net \<Rightarrow> packetqueue \<Rightarrow> packet list" where
  "packets s q = map (packet_at s q) (q_list q)"

definition snapshot :: "packetbuf \<Rightarrow> ptr option \<Rightarrow> packet" where
  "snapshot b p = (pb_hdr b @ pb_data b, pb_attrs b, pb_addrs b, p)"

text \<open>The queue does not change when buffers it does not own are taken, written or freed.\<close>

lemma pq_bufs_sub: "pq_inv s q \<Longrightarrow> pq_bufs q \<subseteq> bufs s"
  by (fastforce simp: pq_inv_def pq_bufs_def)

lemma pq_frame:
  assumes inv: "pq_inv s q" and sub: "pq_bufs q \<subseteq> bufs s'"
    and same: "\<And>b. b \<in> pq_bufs q \<Longrightarrow> m_mem (nt_bufmem s') b = m_mem (nt_bufmem s) b"
  shows "pq_inv s' q" "packets s' q = packets s q"
proof -
  have own: "\<exists>b \<in> pq_bufs q. pq_buf (item q i) = Some b \<and> unat (qb_len (m_mem (nt_bufmem s) b)) \<le> 192"
    if "i \<in> set (q_list q)" for i
    using inv that by (fastforce simp: pq_inv_def pq_bufs_def)
  show "pq_inv s' q"
    using inv own sub same by (fastforce simp: pq_inv_def)
  show "packets s' q = packets s q"
    using own same by (fastforce simp: packets_def packet_at_def Let_def)
qed

lemma pq_empty [simp]: "pq_bufs (q\<lparr>q_list := []\<rparr>) = {}"
  by (simp add: pq_bufs_def)

lemma packets_length: "length (packets s q) = get_queue_size q"
  by (simp add: packets_def get_queue_size_def)

section \<open>Enqueuing\<close>

lemma enqueue_False:
  assumes net: "net_inv s" and inv: "pq_inv s q" and nr: "\<not> packetbuf_is_reference (nt_pb s)"
    and en: "packetqueue_enqueue_packetbuf now s q lt p = (False, s', q')"
  shows "s' = s" "net_inv s'" "pq_inv s' q'" "q_list q' = q_list q" "packets s' q' = packets s q"
    "pq_bufs q' = pq_bufs q" "card (bufs s) = QUEUEBUF_NUM \<or> card (in_use (q_memb q)) = m_num (q_memb q)"
    "m_num (q_memb q') = m_num (q_memb q)"
proof -
  have wf: "memb_wf (q_memb q)" and us: "set (q_list q) = in_use (q_memb q)"
    using inv by (auto simp: pq_inv_def)
  obtain r m where al: "memb_alloc (q_memb q) = (r, m)"
    by fastforce
  have "s' = s \<and> pq_inv s q' \<and> q_list q' = q_list q \<and> (\<forall>i \<in> set (q_list q). item q' i = item q i) \<and>
      (card (bufs s) = QUEUEBUF_NUM \<or> card (in_use (q_memb q)) = m_num (q_memb q)) \<and>
      m_num (q_memb q') = m_num (q_memb q)"
  proof (cases r)
    case None
    note an = memb_alloc_None [OF wf al [unfolded None]]
    with en al None have "s' = s" "q' = q"
      by (simp_all add: packetqueue_enqueue_packetbuf_def)
    with an inv show ?thesis
      by simp
  next
    case (Some i)
    note as = memb_alloc_Some [OF wf al [unfolded Some]]
    obtain b s1 where nb: "queuebuf_new_from_packetbuf s = (b, s1)"
      by fastforce
    with en al Some have b: "b = None" and s': "s' = s1"
      and q': "q' = q\<lparr>q_memb := snd (memb_free (memb_write m i (\<lambda>x. x\<lparr>pq_buf := None\<rparr>)) i)\<rparr>"
      by (auto simp: packetqueue_enqueue_packetbuf_def split: option.splits)
    from new_buf_spec [OF net nr nb] b have n: "s1 = s" "card (bufs s) = QUEUEBUF_NUM"
      by auto
    let ?m = "memb_write m i (\<lambda>x. x\<lparr>pq_buf := None\<rparr>)"
    have wfm: "memb_wf ?m" "i \<in> in_use ?m"
      using as by simp_all
    note fr = memb_free_blk [OF wfm]
    have inu: "i \<notin> set (q_list q)" "in_use (q_memb q') = in_use (q_memb q)"
      using as us fr(2) by (auto simp: q')
    have it: "item q' j = item q j" if "j \<in> set (q_list q)" for j
      using that inu(1) fr(4) as(5) by (auto simp: q')
    have "pq_inv s q'"
      using inv inu it fr(3) us by (auto simp: pq_inv_def q' inj_on_def)
    with n it s' as(6) show ?thesis
      by (simp add: q')
  qed
  note r = this
  then show "s' = s" "net_inv s'" "pq_inv s' q'" "q_list q' = q_list q"
    "card (bufs s) = QUEUEBUF_NUM \<or> card (in_use (q_memb q)) = m_num (q_memb q)"
    "m_num (q_memb q') = m_num (q_memb q)"
    using net by auto
  show "packets s' q' = packets s q" "pq_bufs q' = pq_bufs q"
    using r by (auto simp: packets_def packet_at_def pq_bufs_def)
qed

lemma enqueue_True:
  assumes net: "net_inv s" and inv: "pq_inv s q" and nr: "\<not> packetbuf_is_reference (nt_pb s)"
    and en: "packetqueue_enqueue_packetbuf now s q lt p = (True, s', q')"
  shows "net_inv s'" "pq_inv s' q'" "packets s' q' = packets s q @ [snapshot (nt_pb s) p]"
    "\<exists>i b. i \<notin> set (q_list q) \<and> q_list q' = q_list q @ [i] \<and> pq_buf (item q' i) = Some b \<and> b \<notin> bufs s \<and>
       bufs s' = insert b (bufs s) \<and> pq_bufs q' = insert b (pq_bufs q) \<and> pq_ptr (item q' i) = p \<and>
       pq_enqueue_time (item q' i) = now \<and> (\<forall>j \<in> set (q_list q). item q' j = item q j)"
    "nt_pb s' = nt_pb s" "nt_ext s' = nt_ext s"
    "\<And>c. c \<in> bufs s \<Longrightarrow> m_mem (nt_bufmem s') c = m_mem (nt_bufmem s) c"
    "m_num (q_memb q') = m_num (q_memb q)"
proof -
  have wf: "memb_wf (q_memb q)" and us: "set (q_list q) = in_use (q_memb q)"
    using inv by (auto simp: pq_inv_def)
  obtain r m where al: "memb_alloc (q_memb q) = (r, m)"
    by fastforce
  obtain i where r: "r = Some i"
    using en al by (cases r) (auto simp: packetqueue_enqueue_packetbuf_def)
  note as = memb_alloc_Some [OF wf al [unfolded r]]
  obtain b0 s1 where nb: "queuebuf_new_from_packetbuf s = (b0, s1)"
    by fastforce
  obtain b where b: "b0 = Some b"
    using en al r nb by (cases b0) (auto simp: packetqueue_enqueue_packetbuf_def)
  define f :: "pqitem \<Rightarrow> pqitem" where "f = (\<lambda>x. x\<lparr>pq_buf := Some b, pq_ptr := p, pq_lifetimer := (if lt > 0 then Some lt else pq_lifetimer x),
      pq_enqueue_time := now\<rparr>)"
  have s': "s' = s1" and q': "q' = q\<lparr>q_memb := memb_write m i f, q_list := q_list q @ [i]\<rparr>"
    using en al r nb b by (auto simp: packetqueue_enqueue_packetbuf_def f_def)
  from new_buf_spec [OF net nr nb] b
  have nw: "net_inv s1" "b \<notin> bufs s" "bufs s1 = insert b (bufs s)" "nt_pb s1 = nt_pb s" "nt_ext s1 = nt_ext s"
      "\<And>c. c \<noteq> b \<Longrightarrow> m_mem (nt_bufmem s1) c = m_mem (nt_bufmem s) c"
      "unat (qb_len (m_mem (nt_bufmem s1) b)) = length (pb_hdr (nt_pb s) @ pb_data (nt_pb s))"
      "take (unat (qb_len (m_mem (nt_bufmem s1) b))) (qb_data (m_mem (nt_bufmem s1) b)) = pb_hdr (nt_pb s) @ pb_data (nt_pb s)"
      "qb_attrs (m_mem (nt_bufmem s1) b) = pb_attrs (nt_pb s)" "qb_addrs (m_mem (nt_bufmem s1) b) = pb_addrs (nt_pb s)"
    by auto
  have pb: "pb_inv (nt_pb s)"
    using net by (simp add: net_inv_def)
  have len: "unat (qb_len (m_mem (nt_bufmem s1) b)) \<le> 192"
    using nw(7) copyto_length [OF pb nr, of "nt_ext s"] by simp
  have ni: "i \<notin> set (q_list q)"
    using as us by simp
  have it: "item q' j = (if j = i then f (m_mem m i) else item q j)" for j
    using as(5) by (simp add: q')
  have sub: "pq_bufs q \<subseteq> bufs s1"
    using pq_bufs_sub [OF inv] nw(3) by auto
  have nbq: "b \<notin> pq_bufs q"
    using pq_bufs_sub [OF inv] nw(2) by auto
  then have fr: "pq_inv s1 q" "packets s1 q = packets s q"
    using pq_frame [OF inv sub] nw(6) by metis+
  have bi: "pq_buf (item q' i) = Some b"
    by (simp add: it f_def)
  have other: "\<And>j. j \<in> set (q_list q) \<Longrightarrow> item q' j = item q j \<and> pq_buf (item q j) \<noteq> Some b"
    using it ni nbq by (auto simp: pq_bufs_def)
  have bs: "\<forall>j \<in> set (q_list q). \<exists>c \<in> bufs s1. pq_buf (item q j) = Some c \<and> unat (qb_len (m_mem (nt_bufmem s1) c)) \<le> 192"
    and inj: "inj_on (\<lambda>j. pq_buf (item q j)) (set (q_list q))"
    using fr(1) by (auto simp: pq_inv_def)
  show "net_inv s'" "nt_pb s' = nt_pb s" "nt_ext s' = nt_ext s"
    using nw s' by simp_all
  show "pq_inv s' q'"
    unfolding pq_inv_def
  proof (intro conjI)
    show "memb_wf (q_memb q')" "distinct (q_list q')" "set (q_list q') = in_use (q_memb q')"
      using as inv ni by (auto simp: q' pq_inv_def)
    show "\<forall>j \<in> set (q_list q'). \<exists>c \<in> bufs s'. pq_buf (item q' j) = Some c \<and> unat (qb_len (m_mem (nt_bufmem s') c)) \<le> 192"
      using bs other bi len nw(3) by (auto simp: q' s')
    show "inj_on (\<lambda>j. pq_buf (item q' j)) (set (q_list q'))"
      using inj other bi ni by (auto simp: inj_on_def q') (metis other bi)+
  qed
  show "packets s' q' = packets s q @ [snapshot (nt_pb s) p]"
    using fr(2) nw(8-10) other by (auto simp: packets_def packet_at_def Let_def snapshot_def q' s' it f_def)
  show "\<exists>i b. i \<notin> set (q_list q) \<and> q_list q' = q_list q @ [i] \<and> pq_buf (item q' i) = Some b \<and> b \<notin> bufs s \<and>
       bufs s' = insert b (bufs s) \<and> pq_bufs q' = insert b (pq_bufs q) \<and> pq_ptr (item q' i) = p \<and>
       pq_enqueue_time (item q' i) = now \<and> (\<forall>j \<in> set (q_list q). item q' j = item q j)"
    using ni bi nw other by (intro exI [of _ i] exI [of _ b]) (auto simp: pq_bufs_def s' q' f_def)
  show "\<And>c. c \<in> bufs s \<Longrightarrow> m_mem (nt_bufmem s') c = m_mem (nt_bufmem s) c"
    using nw(2,6) s' by metis
  show "m_num (q_memb q') = m_num (q_memb q)"
    using as(6) by (simp add: q')
qed

section \<open>Dequeuing\<close>

text \<open>Both ways of taking an item off the queue: its buffer and its block are free afterwards.\<close>

lemma remove_item:
  assumes net: "net_inv s" and inv: "pq_inv s q" and i: "i \<in> set (q_list q)"
    and rm: "remove_queued_packet s q i = (s', q')"
  shows "net_inv s'" "pq_inv s' q'" "q_list q' = remove1 i (q_list q)"
    "\<exists>b. pq_buf (item q i) = Some b \<and> b \<in> bufs s \<and> bufs s' = bufs s - {b} \<and> pq_bufs q' = pq_bufs q - {b}"
    "packets s' q' = map (packet_at s q) (remove1 i (q_list q))" "nt_pb s' = nt_pb s" "nt_ext s' = nt_ext s"
    "m_mem (nt_bufmem s') = m_mem (nt_bufmem s)" "m_num (q_memb q') = m_num (q_memb q)"
    "\<And>j. j \<noteq> i \<Longrightarrow> item q' j = item q j"
proof -
  have wf: "memb_wf (q_memb q)" and us: "set (q_list q) = in_use (q_memb q)" and d: "distinct (q_list q)"
    and inj: "inj_on (\<lambda>i. pq_buf (item q i)) (set (q_list q))"
    using inv by (auto simp: pq_inv_def)
  obtain b where b: "pq_buf (item q i) = Some b" "b \<in> bufs s"
    using inv i by (auto simp: pq_inv_def)
  let ?m = "memb_write (q_memb q) i (\<lambda>x. x\<lparr>pq_lifetimer := None\<rparr>)"
  have s': "s' = queuebuf_free s b" and q': "q' = q\<lparr>q_list := remove1 i (q_list q), q_memb := snd (memb_free ?m i)\<rparr>"
    using rm b by (auto simp: remove_queued_packet_def free_buf_def)
  note qf = queuebuf_free_spec [OF net b(2)]
  have "memb_wf ?m" "i \<in> in_use ?m"
    using wf us i by simp_all
  note fr = memb_free_blk [OF this]
  have l: "set (remove1 i (q_list q)) = set (q_list q) - {i}"
    using d by simp
  show it: "item q' j = item q j" if "j \<noteq> i" for j
    using that fr(4) by (simp add: q')
  have other: "pq_buf (item q j) \<noteq> Some b" if "j \<in> set (q_list q)" "j \<noteq> i" for j
    using inj that i b(1) by (metis inj_onD)
  show "net_inv s'" "q_list q' = remove1 i (q_list q)" "nt_pb s' = nt_pb s" "nt_ext s' = nt_ext s"
    "m_mem (nt_bufmem s') = m_mem (nt_bufmem s)" "m_num (q_memb q') = m_num (q_memb q)"
    using qf fr(5) by (simp_all add: s' q')
  have bs: "\<forall>j \<in> set (q_list q). \<exists>c \<in> bufs s. pq_buf (item q j) = Some c \<and> unat (qb_len (m_mem (nt_bufmem s) c)) \<le> 192"
    using inv by (simp add: pq_inv_def)
  show "pq_inv s' q'"
    unfolding pq_inv_def
  proof (intro conjI)
    show "memb_wf (q_memb q')" "distinct (q_list q')" "set (q_list q') = in_use (q_memb q')"
      using fr d us by (simp_all add: q')
    show "\<forall>j \<in> set (q_list q'). \<exists>c \<in> bufs s'. pq_buf (item q' j) = Some c \<and> unat (qb_len (m_mem (nt_bufmem s') c)) \<le> 192"
    proof
      fix j assume "j \<in> set (q_list q')"
      then have j: "j \<in> set (q_list q)" "j \<noteq> i"
        using l by (auto simp: q')
      with bs obtain c where "c \<in> bufs s" "pq_buf (item q j) = Some c" "unat (qb_len (m_mem (nt_bufmem s) c)) \<le> 192"
        by blast
      with other [OF j] it [OF j(2)] qf(2,5) show "\<exists>c \<in> bufs s'. pq_buf (item q' j) = Some c \<and>
          unat (qb_len (m_mem (nt_bufmem s') c)) \<le> 192"
        by (auto simp: s')
    qed
    show "inj_on (\<lambda>j. pq_buf (item q' j)) (set (q_list q'))"
      using inj it l by (auto simp: inj_on_def q')
  qed
  have "pq_bufs q' = pq_bufs q - {b}"
    using it l b(1) other by (fastforce simp: pq_bufs_def q')
  with b qf(2) show "\<exists>b. pq_buf (item q i) = Some b \<and> b \<in> bufs s \<and> bufs s' = bufs s - {b} \<and> pq_bufs q' = pq_bufs q - {b}"
    by (auto simp: s')
  show "packets s' q' = map (packet_at s q) (remove1 i (q_list q))"
    using it l qf(5) by (auto simp: packets_def packet_at_def s' q')
qed

lemma dequeue_alt:
  "packetqueue_dequeue s q = (case q_list q of [] \<Rightarrow> (s, q) | i # _ \<Rightarrow> remove_queued_packet s q i)"
  by (simp add: packetqueue_dequeue_def packetqueue_first_def remove_queued_packet_def split: list.split)

lemma dequeue_spec:
  assumes net: "net_inv s" and inv: "pq_inv s q" and dq: "packetqueue_dequeue s q = (s', q')"
  shows "net_inv s'" "pq_inv s' q'" "packets s' q' = tl (packets s q)" "q_list q' = tl (q_list q)"
    "pq_bufs q' \<subseteq> pq_bufs q" "bufs s' = bufs s - (pq_bufs q - pq_bufs q')" "nt_pb s' = nt_pb s"
    "m_mem (nt_bufmem s') = m_mem (nt_bufmem s)" "nt_ext s' = nt_ext s" "m_num (q_memb q') = m_num (q_memb q)"
proof -
  have "net_inv s' \<and> pq_inv s' q' \<and> packets s' q' = tl (packets s q) \<and> q_list q' = tl (q_list q) \<and>
    pq_bufs q' \<subseteq> pq_bufs q \<and> bufs s' = bufs s - (pq_bufs q - pq_bufs q') \<and> nt_pb s' = nt_pb s \<and>
    m_mem (nt_bufmem s') = m_mem (nt_bufmem s) \<and> nt_ext s' = nt_ext s \<and> m_num (q_memb q') = m_num (q_memb q)"
  proof (cases "q_list q")
    case Nil
    with net inv dq show ?thesis
      by (simp add: dequeue_alt packets_def)
  next
    case (Cons i js)
    with dq have rm: "remove_queued_packet s q i = (s', q')" and i: "i \<in> set (q_list q)"
      by (simp_all add: dequeue_alt)
    note ri = remove_item [OF net inv i rm]
    obtain b where b: "pq_buf (item q i) = Some b" "b \<in> bufs s" "bufs s' = bufs s - {b}" "pq_bufs q' = pq_bufs q - {b}"
      using ri(4) by blast
    have "b \<in> pq_bufs q"
      using b(1) i by (auto simp: pq_bufs_def)
    with b have "bufs s' = bufs s - (pq_bufs q - pq_bufs q')" "pq_bufs q' \<subseteq> pq_bufs q"
      by auto
    with ri Cons show ?thesis
      by (simp add: packets_def)
  qed
  then show "net_inv s'" "pq_inv s' q'" "packets s' q' = tl (packets s q)" "q_list q' = tl (q_list q)"
    "pq_bufs q' \<subseteq> pq_bufs q" "bufs s' = bufs s - (pq_bufs q - pq_bufs q')" "nt_pb s' = nt_pb s"
    "m_mem (nt_bufmem s') = m_mem (nt_bufmem s)" "nt_ext s' = nt_ext s" "m_num (q_memb q') = m_num (q_memb q)"
    by blast+
qed

section \<open>The interface\<close>

text \<open>
  \<open>offer\<close> enqueues packets one by one and lists the accepted ones. In the interface
  \<open>enq s x\<close> offers the packet \<open>x\<close>; \<open>snap x\<close> is what has to come out later. Accepting is all or nothing.
\<close>

fun offer :: "('x \<Rightarrow> 'p) \<Rightarrow> ('s \<Rightarrow> 'x \<Rightarrow> bool \<times> 's) \<Rightarrow> 's \<Rightarrow> 'x list \<Rightarrow> 'p list \<times> 's" where
  "offer snap enq s [] = ([], s)"
| "offer snap enq s (x # xs) = (case enq s x of (ok, s1) \<Rightarrow>
     (case offer snap enq s1 xs of (ps, s2) \<Rightarrow> (if ok then snap x # ps else ps, s2)))"

locale packet_fifo =
  fixes inv :: "'s \<Rightarrow> bool"
    and items :: "'s \<Rightarrow> 'p list"
    and fits :: "'x \<Rightarrow> bool"
    and snap :: "'x \<Rightarrow> 'p"
    and enq :: "'s \<Rightarrow> 'x \<Rightarrow> bool \<times> 's"
    and deq :: "'s \<Rightarrow> 's"
  assumes enq_inv: "inv s \<Longrightarrow> fits x \<Longrightarrow> inv (snd (enq s x))"
    and enq_items: "inv s \<Longrightarrow> fits x \<Longrightarrow>
      items (snd (enq s x)) = (if fst (enq s x) then items s @ [snap x] else items s)"
    and deq_inv: "inv s \<Longrightarrow> inv (deq s)"
    and deq_items: "inv s \<Longrightarrow> items (deq s) = tl (items s)"
begin

lemma offer_items:
  "inv s \<Longrightarrow> list_all fits xs \<Longrightarrow> offer snap enq s xs = (ps, s') \<Longrightarrow> inv s' \<and> items s' = items s @ ps"
proof (induction xs arbitrary: s ps s')
  case (Cons x xs)
  obtain ok s1 where e: "enq s x = (ok, s1)"
    by fastforce
  obtain qs s2 where o: "offer snap enq s1 xs = (qs, s2)"
    by fastforce
  have "inv s1" "items s1 = (if ok then items s @ [snap x] else items s)"
    using enq_inv [of s x] enq_items [of s x] Cons.prems(1,2) e by auto
  with Cons.IH [OF _ _ o] Cons.prems e o show ?case
    by (auto split: if_splits)
qed simp

lemma deq_pow: "inv s \<Longrightarrow> inv ((deq ^^ n) s) \<and> items ((deq ^^ n) s) = drop n (items s)"
  by (induction n) (simp_all add: deq_inv deq_items drop_Suc tl_drop)

text \<open>First in, first out, whatever was in the queue before.\<close>

lemma fifo:
  assumes "inv s" and "list_all fits xs" and "offer snap enq s xs = (ps, s')"
  shows "items ((deq ^^ length (items s)) s') = ps"
  using offer_items [OF assms] deq_pow [of s' "length (items s)"] by simp

end

definition pq_enq :: "clock_time_t \<Rightarrow> net \<times> packetqueue \<Rightarrow> packetbuf \<times> ptr option \<Rightarrow> bool \<times> net \<times> packetqueue" where
  "pq_enq now sq x = packetqueue_enqueue_packetbuf now ((fst sq)\<lparr>nt_pb := fst x\<rparr>) (snd sq) 0 (snd x)"

definition pq_deq :: "net \<times> packetqueue \<Rightarrow> net \<times> packetqueue" where
  "pq_deq sq = packetqueue_dequeue (fst sq) (snd sq)"

definition pq_ok :: "net \<times> packetqueue \<Rightarrow> bool" where
  "pq_ok sq \<longleftrightarrow> net_inv (fst sq) \<and> pq_inv (fst sq) (snd sq)"

definition pq_fits :: "packetbuf \<times> ptr option \<Rightarrow> bool" where
  "pq_fits x \<longleftrightarrow> pb_inv (fst x) \<and> \<not> packetbuf_is_reference (fst x)"

lemma pq_inv_pb [simp]: "pq_inv (s\<lparr>nt_pb := b\<rparr>) q = pq_inv s q" "packets (s\<lparr>nt_pb := b\<rparr>) q = packets s q"
  by (simp_all add: pq_inv_def packets_def packet_at_def)

lemma pq_enq_spec:
  assumes "pq_ok sq" and "pq_fits x"
  shows "pq_ok (snd (pq_enq now sq x)) \<and> packets (fst (snd (pq_enq now sq x))) (snd (snd (pq_enq now sq x))) =
    (if fst (pq_enq now sq x) then packets (fst sq) (snd sq) @ [snapshot (fst x) (snd x)] else packets (fst sq) (snd sq))"
proof -
  let ?s = "(fst sq)\<lparr>nt_pb := fst x\<rparr>"
  have h: "net_inv ?s" "pq_inv ?s (snd sq)" "\<not> packetbuf_is_reference (nt_pb ?s)"
    using assms net_inv_pb by (auto simp: pq_ok_def pq_fits_def)
  obtain ok s' q' where en: "pq_enq now sq x = (ok, s', q')"
    by (metis prod_cases3)
  then have en': "packetqueue_enqueue_packetbuf now ?s (snd sq) 0 (snd x) = (ok, s', q')"
    by (simp add: pq_enq_def)
  show ?thesis
  proof (cases ok)
    case True
    with enqueue_True(1-3) [OF h, of now 0 "snd x" s' q'] en en' show ?thesis
      by (simp add: pq_ok_def)
  next
    case False
    with enqueue_False(2,3,5) [OF h, of now 0 "snd x" s' q'] en en' show ?thesis
      by (simp add: pq_ok_def)
  qed
qed

interpretation pqf: packet_fifo pq_ok "\<lambda>sq. packets (fst sq) (snd sq)" pq_fits "\<lambda>x. snapshot (fst x) (snd x)"
  "pq_enq now" pq_deq for now
proof unfold_locales
  fix sq x
  show "pq_ok sq \<Longrightarrow> pq_fits x \<Longrightarrow> pq_ok (snd (pq_enq now sq x))"
    and "pq_ok sq \<Longrightarrow> pq_fits x \<Longrightarrow> packets (fst (snd (pq_enq now sq x))) (snd (snd (pq_enq now sq x))) =
      (if fst (pq_enq now sq x) then packets (fst sq) (snd sq) @ [snapshot (fst x) (snd x)] else packets (fst sq) (snd sq))"
    using pq_enq_spec by blast+
  show "pq_ok sq \<Longrightarrow> pq_ok (pq_deq sq)"
    and "pq_ok sq \<Longrightarrow> packets (fst (pq_deq sq)) (snd (pq_deq sq)) = tl (packets (fst sq) (snd sq))"
    using dequeue_spec(1-3) [of "fst sq" "snd sq"]
    by (auto simp: pq_ok_def pq_deq_def) (metis prod.collapse)+
qed

section \<open>No buffer is lost\<close>

datatype pq_event =
    Pq_Enqueue packetbuf "ptr option" clock_time_t clock_time_t
  | Pq_Dequeue
  | Pq_Expire ptr

fun pq_step :: "net \<times> packetqueue \<Rightarrow> pq_event \<Rightarrow> net \<times> packetqueue" where
  "pq_step (s, q) (Pq_Enqueue b p lifetime now) = snd (packetqueue_enqueue_packetbuf now (s\<lparr>nt_pb := b\<rparr>) q lifetime p)"
| "pq_step (s, q) Pq_Dequeue = packetqueue_dequeue s q"
| "pq_step (s, q) (Pq_Expire i) = remove_queued_packet s q i"

text \<open>A lifetime timer only fires for an item that is still on the queue: taking it off stops the timer.\<close>

fun pq_event_ok :: "net \<times> packetqueue \<Rightarrow> pq_event \<Rightarrow> bool" where
  "pq_event_ok sq (Pq_Enqueue b p lifetime now) \<longleftrightarrow> pb_inv b \<and> \<not> packetbuf_is_reference b"
| "pq_event_ok sq Pq_Dequeue \<longleftrightarrow> True"
| "pq_event_ok sq (Pq_Expire i) \<longleftrightarrow> i \<in> set (q_list (snd sq))"

definition pq_owns :: "ptr set \<Rightarrow> net \<times> packetqueue \<Rightarrow> bool" where
  "pq_owns others sq \<longleftrightarrow> pq_ok sq \<and> bufs (fst sq) = others \<union> pq_bufs (snd sq) \<and> others \<inter> pq_bufs (snd sq) = {}"

lemma pq_step_owns:
  assumes own: "pq_owns others sq" and ok: "pq_event_ok sq e"
  shows "pq_owns others (pq_step sq e)"
proof -
  obtain s q where sq: "sq = (s, q)"
    by fastforce
  have h: "net_inv s" "pq_inv s q" and bs: "bufs s = others \<union> pq_bufs q" "others \<inter> pq_bufs q = {}"
    using own by (auto simp: sq pq_owns_def pq_ok_def)
  show ?thesis
  proof (cases e)
    case (Pq_Enqueue b p lt now)
    let ?s = "s\<lparr>nt_pb := b\<rparr>"
    have h': "net_inv ?s" "pq_inv ?s q" "\<not> packetbuf_is_reference (nt_pb ?s)"
      using h ok Pq_Enqueue net_inv_pb by auto
    obtain r s' q' where en: "packetqueue_enqueue_packetbuf now ?s q lt p = (r, s', q')"
      by (metis prod_cases3)
    show ?thesis
    proof (cases r)
      case True
      with enqueue_True(1,2,4) [OF h', of now lt p s' q'] en bs show ?thesis
        by (auto simp: sq Pq_Enqueue pq_owns_def pq_ok_def)
    next
      case False
      with enqueue_False(1-3,6) [OF h', of now lt p s' q'] en bs show ?thesis
        by (auto simp: sq Pq_Enqueue pq_owns_def pq_ok_def)
    qed
  next
    case Pq_Dequeue
    obtain s' q' where dq: "packetqueue_dequeue s q = (s', q')"
      by fastforce
    with dequeue_spec(1,2,5,6) [OF h dq] bs show ?thesis
      by (auto simp: sq Pq_Dequeue pq_owns_def pq_ok_def)
  next
    case (Pq_Expire i)
    obtain s' q' where rm: "remove_queued_packet s q i = (s', q')"
      by fastforce
    have i: "i \<in> set (q_list q)"
      using ok by (simp add: sq Pq_Expire)
    note ri = remove_item(1,2,4) [OF h i rm]
    obtain b where b: "pq_buf (item q i) = Some b" "bufs s' = bufs s - {b}" "pq_bufs q' = pq_bufs q - {b}"
      using ri(3) by blast
    have "b \<in> pq_bufs q"
      using b(1) i by (auto simp: pq_bufs_def)
    with ri(1,2) b(2,3) bs show ?thesis
      by (auto simp: sq Pq_Expire pq_owns_def pq_ok_def rm)
  qed
qed

interpretation pqm: machine pq_step pq_event_ok "pq_owns others" for others
  by unfold_locales (rule pq_step_owns)

section \<open>Properties\<close>

definition pq_start :: packetqueue where
  "pq_start = packetqueue_init \<lparr>q_list = [], q_memb = \<lparr>m_size = 16, m_num = 50, m_count = replicate 50 0,
     m_base = 9000, m_mem = (\<lambda>_. zero_pqitem)\<rparr>\<rparr>"

lemma pq_start_ok: "pq_ok (net_start, pq_start)" "pq_bufs pq_start = {}" "bufs net_start = {}"
proof -
  let ?m = "\<lparr>m_size = 16, m_num = 50, m_count = replicate 50 0, m_base = 9000, m_mem = (\<lambda>_. zero_pqitem)\<rparr>"
  have "memb_wf (memb_init zero_pqitem ?m)" "in_use (memb_init zero_pqitem ?m) = {}"
    using memb_init_wf [of ?m] memb_init_in_use [of zero_pqitem ?m] by simp_all
  then show "pq_ok (net_start, pq_start)"
    using net_start_inv by (simp add: pq_ok_def pq_inv_def pq_start_def packetqueue_init_def)
  show "pq_bufs pq_start = {}"
    by (simp add: pq_start_def packetqueue_init_def pq_bufs_def)
  show "bufs net_start = {}"
    using memb_init_in_use [of zero_queuebuf "nt_bufmem net_boot"]
    by (simp add: bufs_def net_start_def queuebuf_init_def)
qed

lemma pb_ok_example: "pq_fits (pb_example, p)" "pq_fits (pb_packet, p)"
proof -
  show "pq_fits (pb_example, p)"
    using pb_example_inv net_start_pb by (simp add: pq_fits_def)
  show "pq_fits (pb_packet, p)"
    using copyfrom_simps [OF pb_example_inv, of 3 "[10, 20, 30]"]
    by (simp add: pq_fits_def pb_packet_def packetbuf_is_reference_def)
qed

text \<open>C37: The packet queue is a FIFO without loss, duplication or alteration: after offering any sequence of
  packets to it, dequeuing as many packets as it held before leaves exactly the accepted packets, in order,
  each with the header and data, attributes, addresses and connection pointer it was offered with.\<close>

theorem packetqueue_fifo:
  assumes "pq_ok sq" and "list_all pq_fits xs"
    and "offer (\<lambda>x. snapshot (fst x) (snd x)) (pq_enq now) sq xs = (ps, sq')"
  shows "packets (fst ((pq_deq ^^ get_queue_size (snd sq)) sq')) (snd ((pq_deq ^^ get_queue_size (snd sq)) sq')) = ps"
  using pqf.fifo [OF assms] by (simp add: packets_length)

theorem packetqueue_fifo_witness:
  "\<exists>ps sq'. offer (\<lambda>x. snapshot (fst x) (snd x)) (pq_enq 5) (net_start, pq_start) [(pb_example, None), (pb_packet, Some 7)] = (ps, sq') \<and>
     packets (fst sq') (snd sq') = ps"
proof -
  obtain ps sq' where o: "offer (\<lambda>x. snapshot (fst x) (snd x)) (pq_enq 5) (net_start, pq_start)
      [(pb_example, None), (pb_packet, Some 7)] = (ps, sq')"
    by (rule prod.exhaust)
  have "get_queue_size pq_start = 0"
    by (simp add: get_queue_size_def pq_start_def packetqueue_init_def)
  with packetqueue_fifo [OF pq_start_ok(1) _ o] pb_ok_example o show ?thesis
    by auto
qed

text \<open>The packet queue neither leaks nor steals queue buffers: under every sequence of enqueuing,
  dequeuing and lifetime expiry, the buffers in use are those that others held at the start and one per
  queued packet, the counter \<open>queuebuf_len\<close> equals their number, and a buffer of another owner is
  never freed.\<close>

theorem packetqueue_accounting:
  assumes "pq_owns others sq" and "run_ok pq_step pq_event_ok sq es"
  shows "pq_owns others (foldl pq_step sq es) \<and>
    unat (nt_len (fst (foldl pq_step sq es))) = card (others \<union> pq_bufs (snd (foldl pq_step sq es)))"
  using pqm.inv_run [OF assms] by (auto simp: pq_owns_def pq_ok_def net_inv_def bufs_def)

theorem packetqueue_accounting_witness:
  "pq_owns {} (foldl pq_step (net_start, pq_start) [Pq_Enqueue pb_example None 0 9, Pq_Dequeue, Pq_Dequeue])"
proof -
  have "pq_owns {} (net_start, pq_start)"
    using pq_start_ok by (simp add: pq_owns_def)
  moreover have "run_ok pq_step pq_event_ok (net_start, pq_start) [Pq_Enqueue pb_example None 0 9, Pq_Dequeue, Pq_Dequeue]"
    using pb_ok_example(1) [of None] by (simp add: pq_fits_def)
  ultimately show ?thesis
    using packetqueue_accounting by blast
qed

end
