(* ===== verification/Announce.thy ===== *)
theory Announce
  imports Packetqueue
begin

text \<open>
  The announcement layer: \<open>core/net/rime/announcement.c\<close> (the values a node announces),
  \<open>core/net/rime/polite-announcement.c\<close> (when it announces them, with an interval that doubles up to a
  maximum) and \<open>core/net/rime/ipolite.c\<close> (a broadcast that is held back for a random time and dropped
  when a neighbor sends the same). A change of an announced value reaches \<open>new_announcement\<close> through the
  observer callback, and from there the packet buffer.
\<close>

section \<open>The surroundings of a handler\<close>

text \<open>
  What a handler reads from outside the modelled components: the node's address, \<open>clock_time()\<close>, the
  values \<open>random_rand()\<close> returns (by call site), the rtimer ticks until the next Glossy phase
  (\<open>TIME_TO_GLOSSY\<close>), \<open>SLACK_BEFORE_GLOSSY\<close>, the duty cycle \<open>T_DUTY\<close> of the MAC protocol, the time stamp
  \<open>TIME_FROM_GLOSSY\<close>, and the way down from a connection to the MAC driver, which leaves its own
  contents in the packet buffer and tells whether a data acknowledgment was received.
\<close>

record env =
  ev_me :: rimeaddr
  ev_now :: clock_time_t
  ev_rnd :: "nat \<Rightarrow> u16"
  ev_ttg :: u32
  ev_slack :: int
  ev_duty :: u16
  ev_stamp :: u32
  ev_out :: "packetbuf \<Rightarrow> packetbuf \<times> bool"

text \<open>\<open>RTIMER_ARCH_SECOND/CLOCK_SECOND\<close>, and \<open>int time_to_glossy\<close>.\<close>

definition RTIMER_PER_CLOCK :: u32 where "RTIMER_PER_CLOCK = 256"

definition time_to_glossy :: "env \<Rightarrow> int" where
  "time_to_glossy e = sint (ucast (ev_ttg e div RTIMER_PER_CLOCK) :: u16)"

section \<open>ipolite\<close>

record ipolite_conn =
  ip_q :: "ptr option"
  ip_hdrsize :: u8
  ip_timer :: "clock_time_t option"

text \<open>
  The receive callback: a copy of the held-back packet cancels it. (The connection's own \<open>recv\<close>
  callback, \<open>adv_packet_received\<close>, follows in both cases.)
\<close>

definition ip_same :: "net \<Rightarrow> ipolite_conn \<Rightarrow> ptr \<Rightarrow> bool" where
  "ip_same s c q \<longleftrightarrow> packetbuf_datalen (nt_pb s) = queuebuf_datalen s q \<and>
     (case queuebuf_dataptr s q of
        None \<Rightarrow> False
      | Some d \<Rightarrow> list_all (\<lambda>i. pb_mem (nt_pb s) ! (packetbuf_dataptr (nt_pb s) + i) = d i)
          [0..<min (unat (ip_hdrsize c)) (unat (packetbuf_datalen (nt_pb s)))])"

definition ipolite_recv :: "net \<Rightarrow> ipolite_conn \<Rightarrow> net \<times> ipolite_conn" where
  "ipolite_recv s c =
     (case ip_q c of
        None \<Rightarrow> (s, c)
      | Some q \<Rightarrow> if ip_same s c q then (queuebuf_free s q, c\<lparr>ip_q := None, ip_timer := None\<rparr>) else (s, c))"

definition ipolite_send_cb :: "env \<Rightarrow> net \<Rightarrow> ipolite_conn \<Rightarrow> net \<times> ipolite_conn" where
  "ipolite_send_cb e s c =
     (case ip_q c of
        None \<Rightarrow> (s, c)
      | Some q \<Rightarrow>
          (let s1 = queuebuf_free (queuebuf_to_packetbuf s q) q;
               c1 = c\<lparr>ip_q := None\<rparr>
           in if time_to_glossy e - ev_slack e \<ge> 0
              then (s1\<lparr>nt_pb := fst (broadcast_send (ev_me e) (ev_out e) (nt_pb s1))\<rparr>, c1)
              else (s1, c1)))"

definition ipolite_cancel :: "net \<Rightarrow> ipolite_conn \<Rightarrow> net \<times> ipolite_conn" where
  "ipolite_cancel s c = (free_buf s (ip_q c), c\<lparr>ip_timer := None, ip_q := None\<rparr>)"

text \<open>\<open>ipolite_close\<close> also closes the channel.\<close>

definition ipolite_close :: "net \<Rightarrow> ipolite_conn \<Rightarrow> net \<times> ipolite_conn" where
  "ipolite_close s c = (free_buf s (ip_q c), c\<lparr>ip_timer := None, ip_q := None\<rparr>)"

text \<open>\<open>ipolite_send\<close>; with a zero interval \<open>c->q\<close> keeps the pointer that was just freed.\<close>

definition ipolite_send ::
  "env \<Rightarrow> net \<Rightarrow> ipolite_conn \<Rightarrow> clock_time_t \<Rightarrow> u8 \<Rightarrow> bool \<times> net \<times> ipolite_conn" where
  "ipolite_send e s c interval hdrsize =
     (let s1 = free_buf s (ip_q c);
          c1 = c\<lparr>ip_hdrsize := hdrsize\<rparr>
      in if interval = 0 then
           (if time_to_glossy e - ev_slack e \<ge> 0
            then (True, s1\<lparr>nt_pb := fst (broadcast_send (ev_me e) (ev_out e) (nt_pb s1))\<rparr>, c1)
            else (False, s1, c1))
         else
           (case queuebuf_new_from_packetbuf s1 of
              (None, s2) \<Rightarrow> (False, s2, c1\<lparr>ip_q := None\<rparr>)
            | (Some q, s2) \<Rightarrow>
                (True, s2, c1\<lparr>ip_q := Some q,
                   ip_timer := Some (interval div 2 + ev_rnd e 0 mod (interval div 2))\<rparr>)))"

section \<open>Announcements\<close>

record announcement =
  an_id :: u16
  an_value :: u16
  an_callback :: bool

text \<open>The announcement list, the two callbacks, and the state of the polite announcements.\<close>

record ann =
  al_list :: "ptr list"
  al_mem :: "ptr \<Rightarrow> announcement"
  al_observer :: bool
  al_listen :: "int list"
  pa_conn :: ipolite_conn
  pa_timer :: "clock_time_t option"
  pa_interval :: clock_time_t
  pa_min :: clock_time_t
  pa_max :: clock_time_t

definition u16_bytes :: "u16 \<Rightarrow> u8 list" where
  "u16_bytes w = [ucast w, ucast (drop_bit 8 w)]"

text \<open>\<open>struct announcement_msg\<close>: the number of announcements, then an id and a value for each.\<close>

definition adata :: "ann \<Rightarrow> u8 list" where
  "adata a = u16_bytes (of_nat (length (al_list a))) @
     concat (map (\<lambda>p. u16_bytes (an_id (al_mem a p)) @ u16_bytes (an_value (al_mem a p))) (al_list a))"

definition send_adv :: "env \<Rightarrow> net \<Rightarrow> ann \<Rightarrow> clock_time_t \<Rightarrow> net \<times> ann" where
  "send_adv e s a interval =
     (let b1 = packetbuf_clear (nt_pb s);
          b2 = b1\<lparr>pb_mem := mem_put (pb_mem b1) (packetbuf_dataptr b1) (adata a)\<rparr>;
          b3 = packetbuf_set_datalen b2 (2 + 4 * of_nat (length (al_list a)));
          s1 = s\<lparr>nt_pb := b3\<rparr>
      in if 0 < length (al_list a)
         then (case ipolite_send e s1 (pa_conn a) interval (ucast (packetbuf_datalen b3)) of
                 (_, s2, c) \<Rightarrow> (s2, a\<lparr>pa_conn := c\<rparr>))
         else (s1, a))"

definition send_timer :: "env \<Rightarrow> net \<Rightarrow> ann \<Rightarrow> net \<times> ann" where
  "send_timer e s a =
     (case send_adv e s a (pa_interval a) of
        (s1, a1) \<Rightarrow> (s1, a1\<lparr>pa_timer := Some (pa_interval a1),
          pa_interval := (if pa_interval a1 * 2 < pa_max a1 then pa_interval a1 * 2 else pa_max a1)\<rparr>))"

definition new_announcement :: "env \<Rightarrow> net \<Rightarrow> ann \<Rightarrow> net \<times> ann" where
  "new_announcement e s a = send_timer e s (a\<lparr>pa_interval := pa_min a\<rparr>)"

definition observe :: "env \<Rightarrow> net \<Rightarrow> ann \<Rightarrow> net \<times> ann" where
  "observe e s a = (if al_observer a then new_announcement e s a else (s, a))"

definition announcement_init :: "ann \<Rightarrow> ann" where
  "announcement_init a = a\<lparr>al_list := []\<rparr>"

definition announcement_register :: "env \<Rightarrow> net \<Rightarrow> ann \<Rightarrow> ptr \<Rightarrow> u16 \<Rightarrow> u16 \<Rightarrow> bool \<Rightarrow> net \<times> ann" where
  "announcement_register e s a p idn value cb =
     observe e s (a\<lparr>al_mem := (al_mem a)(p := \<lparr>an_id = idn, an_value = value, an_callback = cb\<rparr>),
                    al_list := remove1 p (al_list a) @ [p]\<rparr>)"

definition announcement_remove :: "ann \<Rightarrow> ptr \<Rightarrow> ann" where
  "announcement_remove a p = a\<lparr>al_list := remove1 p (al_list a)\<rparr>"

definition announcement_set_value :: "env \<Rightarrow> net \<Rightarrow> ann \<Rightarrow> ptr \<Rightarrow> u16 \<Rightarrow> net \<times> ann" where
  "announcement_set_value e s a p value =
     observe e s (a\<lparr>al_mem := (al_mem a)(p := (al_mem a p)\<lparr>an_value := value\<rparr>)\<rparr>)"

definition announcement_set_id :: "env \<Rightarrow> net \<Rightarrow> ann \<Rightarrow> ptr \<Rightarrow> u16 \<Rightarrow> net \<times> ann" where
  "announcement_set_id e s a p idn =
     observe e s (a\<lparr>al_mem := (al_mem a)(p := (al_mem a p)\<lparr>an_id := idn\<rparr>)\<rparr>)"

text \<open>No listen callback is registered with polite announcements; the calls are recorded.\<close>

definition announcement_listen :: "ann \<Rightarrow> int \<Rightarrow> ann" where
  "announcement_listen a t = a\<lparr>al_listen := t # al_listen a\<rparr>"

definition announcement_register_observer_callback :: "ann \<Rightarrow> bool \<Rightarrow> ann" where
  "announcement_register_observer_callback a cb = a\<lparr>al_observer := cb\<rparr>"

text \<open>\<open>announcement_heard\<close>: the announcement whose callback is called, if any.\<close>

definition announcement_heard :: "ann \<Rightarrow> u16 \<Rightarrow> ptr option" where
  "announcement_heard a idn =
     (case find (\<lambda>p. an_id (al_mem a p) = idn) (al_list a) of
        None \<Rightarrow> None
      | Some p \<Rightarrow> if an_callback (al_mem a p) then Some p else None)"

text \<open>
  \<open>adv_packet_received\<close>: the calls of \<open>announcement_heard\<close> a received message causes, as pairs of id and
  value. Only messages with exactly one announcement are used.
\<close>

definition u16_at :: "u8 list \<Rightarrow> nat \<Rightarrow> u16" where
  "u16_at m i = ucast (byte_at m i) OR push_bit 8 (ucast (byte_at m (i + 1)))"

definition adv_packet_received :: "packetbuf \<Rightarrow> (u16 \<times> u16) list" where
  "adv_packet_received b =
     (let d = packetbuf_dataptr b; num = u16_at (pb_mem b) d
      in if num = 1
         then map (\<lambda>i. (u16_at (pb_mem b) (d + 2 + 4 * i), u16_at (pb_mem b) (d + 4 + 4 * i))) [0..<unat num]
         else [])"

definition polite_announcement_init :: "ann \<Rightarrow> clock_time_t \<Rightarrow> clock_time_t \<Rightarrow> ann" where
  "polite_announcement_init a mn mx = announcement_register_observer_callback (a\<lparr>pa_min := mn, pa_max := mx\<rparr>) True"

definition polite_announcement_stop :: "net \<Rightarrow> ann \<Rightarrow> net \<times> ann" where
  "polite_announcement_stop s a =
     (case ipolite_close s (pa_conn a) of (s1, c) \<Rightarrow> (s1, a\<lparr>pa_timer := None, pa_conn := c\<rparr>))"

section \<open>Ownership\<close>

text \<open>The connection owns the buffer it holds back, if any.\<close>

definition ip_bufs :: "ipolite_conn \<Rightarrow> ptr set" where
  "ip_bufs c = (case ip_q c of None \<Rightarrow> {} | Some q \<Rightarrow> {q})"

definition held_ok :: "net \<Rightarrow> ptr option \<Rightarrow> bool" where
  "held_ok s p \<longleftrightarrow> (case p of None \<Rightarrow> True | Some q \<Rightarrow> q \<in> bufs s \<and> unat (qb_len (m_mem (nt_bufmem s) q)) \<le> 192)"

definition ann_inv :: "ann \<Rightarrow> bool" where
  "ann_inv a \<longleftrightarrow> 2 \<le> unat (pa_min a) \<and> pa_min a \<le> pa_max a \<and> unat (pa_max a) < 32768 \<and> length (al_list a) \<le> 31"

definition pa_ok :: "ann \<Rightarrow> bool" where
  "pa_ok a \<longleftrightarrow> ann_inv a \<and> (pa_timer a \<noteq> None \<longrightarrow> pa_min a \<le> pa_interval a \<and> pa_interval a \<le> pa_max a)"

lemma free_buf_spec:
  assumes "net_inv s" and "held_ok s p"
  shows "net_inv (free_buf s p)" "bufs (free_buf s p) = bufs s - set_option p"
    "nt_pb (free_buf s p) = nt_pb s" "m_mem (nt_bufmem (free_buf s p)) = m_mem (nt_bufmem s)"
  using assms queuebuf_free_spec [of s] by (auto simp: free_buf_def held_ok_def split: option.splits)

lemma held_ok_pb [simp]: "held_ok (s\<lparr>nt_pb := b\<rparr>) p = held_ok s p"
  by (cases p) (simp_all add: held_ok_def)

lemma ip_bufs_set: "ip_bufs c = set_option (ip_q c)"
  by (simp add: ip_bufs_def split: option.split)

lemma new_buf_held:
  assumes "net_inv s" and "\<not> packetbuf_is_reference (nt_pb s)" and "queuebuf_new_from_packetbuf s = (r, s')"
  shows "net_inv s'" "held_ok s' r" "bufs s' = bufs s \<union> set_option r" "bufs s \<inter> set_option r = {}" "nt_pb s' = nt_pb s"
    "\<And>b. b \<in> bufs s \<Longrightarrow> m_mem (nt_bufmem s') b = m_mem (nt_bufmem s) b"
    "r = None \<longleftrightarrow> card (bufs s) = QUEUEBUF_NUM"
proof -
  have pb: "pb_inv (nt_pb s)"
    using assms(1) by (simp add: net_inv_def)
  have le: "length (pb_hdr (nt_pb s) @ pb_data (nt_pb s)) \<le> 192"
    using copyto_length [OF pb assms(2), of "nt_ext s"] by simp
  note nb = new_buf_spec [OF assms]
  show "net_inv s'" "held_ok s' r" "bufs s' = bufs s \<union> set_option r" "bufs s \<inter> set_option r = {}" "nt_pb s' = nt_pb s"
    using nb le assms(1) by (auto simp: held_ok_def split: option.splits)
  show "m_mem (nt_bufmem s') b = m_mem (nt_bufmem s) b" if "b \<in> bufs s" for b
  proof (cases r)
    case (Some p)
    with nb have "p \<notin> bufs s" "\<forall>q. q \<noteq> p \<longrightarrow> m_mem (nt_bufmem s') q = m_mem (nt_bufmem s) q"
      by simp_all
    with that show ?thesis
      by metis
  qed (use nb in simp)
  show "r = None \<longleftrightarrow> card (bufs s) = QUEUEBUF_NUM"
    using nb by (cases r) auto
qed

text \<open>
  \<open>ipolite_send\<close> with a nonzero interval exchanges the buffer it holds for a new one; other owners'
  buffers are left alone.
\<close>

lemma ipolite_send_spec:
  assumes inv: "net_inv s" and nr: "\<not> packetbuf_is_reference (nt_pb s)" and held: "held_ok s (ip_q c)"
    and iv: "interval \<noteq> 0" and sd: "ipolite_send e s c interval h = (r, s', c')"
  shows "net_inv s'" "held_ok s' (ip_q c')" "bufs s' - ip_bufs c' = bufs s - ip_bufs c" "nt_pb s' = nt_pb s"
    "\<And>b. b \<in> bufs s - ip_bufs c \<Longrightarrow> m_mem (nt_bufmem s') b = m_mem (nt_bufmem s) b"
proof -
  note fb = free_buf_spec [OF inv held]
  obtain q s2 where nb: "queuebuf_new_from_packetbuf (free_buf s (ip_q c)) = (q, s2)"
    by fastforce
  have s': "s' = s2" "ip_q c' = q"
    using sd nb iv by (auto simp: ipolite_send_def Let_def split: option.splits)
  note nh = new_buf_held [OF fb(1) _ nb]
  show "net_inv s'" "held_ok s' (ip_q c')" "nt_pb s' = nt_pb s" "bufs s' - ip_bufs c' = bufs s - ip_bufs c"
    using nh nr fb by (auto simp: s' ip_bufs_set)
  show "\<And>b. b \<in> bufs s - ip_bufs c \<Longrightarrow> m_mem (nt_bufmem s') b = m_mem (nt_bufmem s) b"
    using nh(6) nr fb by (simp add: s' ip_bufs_set)
qed

lemma length_u16_bytes [simp]: "length (u16_bytes w) = 2"
  by (simp add: u16_bytes_def)

lemma length_adata: "length (adata a) = 2 + 4 * length (al_list a)"
  by (simp add: adata_def length_concat comp_def sum_list_triv)

lemma adv_msg:
  assumes "pb_inv b" and "length (al_list a) \<le> 31"
  defines "b' \<equiv> packetbuf_set_datalen ((packetbuf_clear b)\<lparr>pb_mem := mem_put (pb_mem (packetbuf_clear b))
      (packetbuf_dataptr (packetbuf_clear b)) (adata a)\<rparr>) (2 + 4 * of_nat (length (al_list a)))"
  shows "pb_inv b'" "pb_data b' = adata a" "pb_hdr b' = []" "\<not> packetbuf_is_reference b'"
    "pb_attrs b' = (\<lambda>_. 0)" "pb_addrs b' = (\<lambda>_. rimeaddr_null)"
proof -
  have len: "length (adata a) \<le> 126"
    using assms(2) by (simp add: length_adata)
  have m: "length (pb_mem b) = 194"
    using assms(1) by (simp add: pb_inv_def)
  have "(2 + 4 * of_nat (length (al_list a)) :: u16) = of_nat (length (adata a))"
    by (simp add: length_adata)
  then have u: "unat (2 + 4 * of_nat (length (al_list a)) :: u16) = length (adata a)"
    using len by (simp only: unat16_of_nat) simp
  have "mem_get (mem_put (pb_mem b) 64 (adata a)) 64 (length (adata a)) = adata a"
    by (rule mem_get_put_same) (use len m in simp)
  then show "pb_inv b'" "pb_data b' = adata a" "pb_hdr b' = []" "\<not> packetbuf_is_reference b'"
    "pb_attrs b' = (\<lambda>_. 0)" "pb_addrs b' = (\<lambda>_. rimeaddr_null)"
    using len m u by (simp_all add: b'_def packetbuf_set_datalen_def pb_inv_def pb_sizes pb_data_def
        packetbuf_dataptr_def pb_hdr_def packetbuf_copyto_hdr_def packetbuf_is_reference_def)
qed

text \<open>What the observer callback does to the node: the packet buffer holds the announcement afterwards.\<close>

lemma send_adv_spec:
  assumes inv: "net_inv s" and held: "held_ok s (ip_q (pa_conn a))" and ai: "ann_inv a" and iv: "interval \<noteq> 0"
    and sd: "send_adv e s a interval = (s', a')"
  shows "net_inv s'" "held_ok s' (ip_q (pa_conn a'))"
    "bufs s' - ip_bufs (pa_conn a') = bufs s - ip_bufs (pa_conn a)"
    "\<And>b. b \<in> bufs s - ip_bufs (pa_conn a) \<Longrightarrow> m_mem (nt_bufmem s') b = m_mem (nt_bufmem s) b"
    "pb_data (nt_pb s') = adata a" "pb_attrs (nt_pb s') = (\<lambda>_. 0)" "pb_addrs (nt_pb s') = (\<lambda>_. rimeaddr_null)"
    "\<not> packetbuf_is_reference (nt_pb s')"
    "al_list a' = al_list a" "al_mem a' = al_mem a" "pa_interval a' = pa_interval a" "pa_min a' = pa_min a"
    "pa_max a' = pa_max a" "al_observer a' = al_observer a" "pb_hdr (nt_pb s') = []"
proof -
  have pb: "pb_inv (nt_pb s)" and n: "length (al_list a) \<le> 31"
    using inv ai by (simp_all add: net_inv_def ann_inv_def)
  define b' where "b' = packetbuf_set_datalen ((packetbuf_clear (nt_pb s))\<lparr>pb_mem := mem_put (pb_mem (packetbuf_clear (nt_pb s)))
      (packetbuf_dataptr (packetbuf_clear (nt_pb s))) (adata a)\<rparr>) (2 + 4 * of_nat (length (al_list a)))"
  note am = adv_msg [OF pb n, folded b'_def]
  let ?s = "s\<lparr>nt_pb := b'\<rparr>"
  have inv1: "net_inv ?s" "held_ok ?s (ip_q (pa_conn a))"
    using net_inv_pb [OF inv am(1)] held by simp_all
  obtain r s2 c where ip: "ipolite_send e ?s (pa_conn a) interval (ucast (packetbuf_datalen b')) = (r, s2, c)"
    by (metis prod_cases3)
  note ps = ipolite_send_spec [OF inv1(1) _ inv1(2) iv ip]
  have res: "(s', a') = (if 0 < length (al_list a) then (s2, a\<lparr>pa_conn := c\<rparr>) else (?s, a))"
    using sd unfolding send_adv_def Let_def b'_def [symmetric] by (auto simp: ip split: if_splits)
  show "net_inv s'" "held_ok s' (ip_q (pa_conn a'))"
    "bufs s' - ip_bufs (pa_conn a') = bufs s - ip_bufs (pa_conn a)"
    "pb_data (nt_pb s') = adata a" "pb_attrs (nt_pb s') = (\<lambda>_. 0)" "pb_addrs (nt_pb s') = (\<lambda>_. rimeaddr_null)"
    "\<not> packetbuf_is_reference (nt_pb s')"
    "al_list a' = al_list a" "al_mem a' = al_mem a" "pa_interval a' = pa_interval a" "pa_min a' = pa_min a"
    "pa_max a' = pa_max a" "al_observer a' = al_observer a" "pb_hdr (nt_pb s') = []"
    using res ps am inv1 by (simp_all split: if_splits)
  show "m_mem (nt_bufmem s') b = m_mem (nt_bufmem s) b" if "b \<in> bufs s - ip_bufs (pa_conn a)" for b
    using res ps(5) [of b] am(4) that by (simp split: if_splits)
qed

text \<open>The interval between announcements.\<close>

definition next_interval :: "clock_time_t \<Rightarrow> clock_time_t \<Rightarrow> clock_time_t" where
  "next_interval iv mx = (if iv * 2 < mx then iv * 2 else mx)"

lemma unat_double: "unat (iv :: u16) < 32768 \<Longrightarrow> unat (iv * 2) = 2 * unat iv"
proof -
  assume "unat iv < 32768"
  then have "unat iv * unat (2 :: u16) < 2 ^ LENGTH(16)"
    by simp
  then have "unat (iv * 2) = unat iv * unat (2 :: u16)"
    using unat_mult_lem by blast
  then show ?thesis
    by simp
qed

lemma next_interval_bounds:
  "mn \<le> iv \<Longrightarrow> iv \<le> mx \<Longrightarrow> unat mx < 32768 \<Longrightarrow> mn \<le> next_interval iv mx \<and> next_interval iv mx \<le> mx"
proof -
  assume a: "mn \<le> iv" "iv \<le> mx" "unat mx < 32768"
  then have "unat iv < 32768"
    by (simp add: word_le_nat_alt)
  with a unat_double [of iv] show ?thesis
    by (auto simp: next_interval_def word_le_nat_alt word_less_nat_alt)
qed

lemma observe_spec:
  assumes inv: "net_inv s" and held: "held_ok s (ip_q (pa_conn a))" and ai: "pa_ok a"
    and ob: "observe e s a = (s', a')"
  shows "net_inv s'" "held_ok s' (ip_q (pa_conn a'))"
    "bufs s' - ip_bufs (pa_conn a') = bufs s - ip_bufs (pa_conn a)"
    "\<And>b. b \<in> bufs s - ip_bufs (pa_conn a) \<Longrightarrow> m_mem (nt_bufmem s') b = m_mem (nt_bufmem s) b"
    "al_list a' = al_list a" "al_mem a' = al_mem a" "al_observer a' = al_observer a" "pa_ok a'"
    "if al_observer a
     then pb_data (nt_pb s') = adata a \<and> pb_attrs (nt_pb s') = (\<lambda>_. 0) \<and> pb_addrs (nt_pb s') = (\<lambda>_. rimeaddr_null) \<and>
       \<not> packetbuf_is_reference (nt_pb s') \<and> pb_hdr (nt_pb s') = []
     else s' = s \<and> a' = a"
    "pa_min a' = pa_min a" "pa_max a' = pa_max a"
    "al_observer a \<Longrightarrow> pa_timer a' = Some (pa_min a) \<and> pa_interval a' = next_interval (pa_min a) (pa_max a)"
proof -
  let ?a = "a\<lparr>pa_interval := pa_min a\<rparr>"
  have bd: "2 \<le> unat (pa_min a)" "pa_min a \<le> pa_max a" "unat (pa_max a) < 32768"
    using ai by (auto simp: pa_ok_def ann_inv_def)
  obtain s1 a1 where sd: "send_adv e s ?a (pa_min a) = (s1, a1)"
    by fastforce
  have iv: "pa_min a \<noteq> 0"
    using bd(1) by auto
  have h: "held_ok s (ip_q (pa_conn ?a))" "ann_inv ?a"
    using held ai by (simp_all add: pa_ok_def ann_inv_def)
  note sp = send_adv_spec [OF inv h iv sd]
  have res: "(s', a') = (if al_observer a
      then (s1, a1\<lparr>pa_timer := Some (pa_min a), pa_interval := next_interval (pa_min a) (pa_max a)\<rparr>) else (s, a))"
    using ob sd sp(11,13)
    by (cases "al_observer a") (auto simp: observe_def new_announcement_def send_timer_def next_interval_def)
  have nx: "pa_min a \<le> next_interval (pa_min a) (pa_max a)" "next_interval (pa_min a) (pa_max a) \<le> pa_max a"
    using next_interval_bounds [of "pa_min a" "pa_min a" "pa_max a"] bd by auto
  show "net_inv s'" "held_ok s' (ip_q (pa_conn a'))"
    "bufs s' - ip_bufs (pa_conn a') = bufs s - ip_bufs (pa_conn a)"
    "al_list a' = al_list a" "al_mem a' = al_mem a" "al_observer a' = al_observer a"
    "if al_observer a
     then pb_data (nt_pb s') = adata a \<and> pb_attrs (nt_pb s') = (\<lambda>_. 0) \<and> pb_addrs (nt_pb s') = (\<lambda>_. rimeaddr_null) \<and>
       \<not> packetbuf_is_reference (nt_pb s') \<and> pb_hdr (nt_pb s') = []
     else s' = s \<and> a' = a"
    "pa_min a' = pa_min a" "pa_max a' = pa_max a"
    "al_observer a \<Longrightarrow> pa_timer a' = Some (pa_min a) \<and> pa_interval a' = next_interval (pa_min a) (pa_max a)"
    using res sp inv held by (simp_all add: adata_def split: if_splits)
  show "pa_ok a'"
    using res sp nx ai by (auto simp: pa_ok_def ann_inv_def split: if_splits)
  show "m_mem (nt_bufmem s') b = m_mem (nt_bufmem s) b" if "b \<in> bufs s - ip_bufs (pa_conn a)" for b
    using res sp(4) [of b] that by (simp split: if_splits)
qed

text \<open>A message with one announcement is heard as it was sent.\<close>

lemma u16_at_bytes:
  "i + 1 < length m \<Longrightarrow> [m ! i, m ! (i + 1)] = u16_bytes w \<Longrightarrow> u16_at m i = w"
  using two_bytes [of w] by (simp add: u16_at_def byte_at_def u16_bytes_def)

lemma mem_get_two: "j = i + 1 \<Longrightarrow> i + 2 \<le> length m \<Longrightarrow> mem_get m i 2 = [m ! i, m ! j]"
  by (rule nth_equalityI) (auto simp: mem_get_nth nth_Cons' less_2_cases_iff)

lemma adv_received:
  assumes "pb_inv b" and "\<not> packetbuf_is_reference b" and "pb_data b = adata a" and "al_list a = [p]"
  shows "adv_packet_received b = [(an_id (al_mem a p), an_value (al_mem a p))]"
proof -
  let ?m = "pb_mem b" and ?d = "packetbuf_dataptr b"
  have lm: "length ?m = 194" and bd: "unat (pb_bufptr b) + unat (pb_buflen b) \<le> 128"
    using assms(1,2) by (auto simp: pb_inv_def packetbuf_is_reference_def pb_sizes)
  have ad: "adata a = u16_bytes 1 @ u16_bytes (an_id (al_mem a p)) @ u16_bytes (an_value (al_mem a p))"
    using assms(4) by (simp add: adata_def)
  have dl: "?d + unat (pb_buflen b) \<le> 192"
    using bd by (simp add: packetbuf_dataptr_def pb_sizes)
  have "length (pb_data b) = unat (pb_buflen b)"
    using dl lm by (simp add: pb_data_def)
  then have n: "unat (pb_buflen b) = 6"
    using assms(3) ad by simp
  then have "mem_get ?m ?d 6 = adata a"
    using assms(3) by (simp add: pb_data_def)
  moreover have "mem_get ?m ?d (2 + (2 + 2)) = mem_get ?m ?d 2 @ mem_get ?m (?d + 2) 2 @ mem_get ?m (?d + (2 + 2)) 2"
    by (simp only: mem_get_split add.assoc)
  moreover have "mem_get ?m ?d 2 = [?m ! ?d, ?m ! (?d + 1)]"
      "mem_get ?m (?d + 2) 2 = [?m ! (?d + 2), ?m ! (?d + 3)]"
      "mem_get ?m (?d + (2 + 2)) 2 = [?m ! (?d + (2 + 2)), ?m ! (?d + 5)]"
    using dl n lm by (auto intro!: mem_get_two)
  moreover have "2 + (2 + 2) = (6 :: nat)"
    by simp
  ultimately have bytes: "[?m ! ?d, ?m ! (?d + 1)] @ [?m ! (?d + 2), ?m ! (?d + 3)] @ [?m ! (?d + (2 + 2)), ?m ! (?d + 5)] =
      u16_bytes 1 @ u16_bytes (an_id (al_mem a p)) @ u16_bytes (an_value (al_mem a p))"
    using ad by (simp only:)
  have "u16_at ?m ?d = 1"
    by (rule u16_at_bytes) (use bytes dl n lm in \<open>auto simp: u16_bytes_def\<close>)
  moreover have "u16_at ?m (?d + 2) = an_id (al_mem a p)"
    by (rule u16_at_bytes) (use bytes dl n lm in \<open>auto simp: u16_bytes_def numeral_3_eq_3\<close>)
  moreover have "u16_at ?m (?d + (2 + 2)) = an_value (al_mem a p)"
    by (rule u16_at_bytes) (use bytes dl n lm in \<open>auto simp: u16_bytes_def add.commute\<close>)
  ultimately show ?thesis
    by (simp add: adv_packet_received_def Let_def)
qed

text \<open>The callback of the announcement timer.\<close>

lemma send_timer_spec:
  assumes inv: "net_inv s" and held: "held_ok s (ip_q (pa_conn a))" and ai: "ann_inv a"
    and iv: "pa_min a \<le> pa_interval a" "pa_interval a \<le> pa_max a" and st: "send_timer e s a = (s', a')"
  shows "net_inv s'" "held_ok s' (ip_q (pa_conn a'))" "ann_inv a'"
    "bufs s' - ip_bufs (pa_conn a') = bufs s - ip_bufs (pa_conn a)"
    "pa_interval a' = next_interval (pa_interval a) (pa_max a)" "pa_min a' = pa_min a" "pa_max a' = pa_max a"
    "pa_timer a' = Some (pa_interval a)"
proof -
  have "2 \<le> unat (pa_interval a)"
    using ai iv(1) by (auto simp: ann_inv_def word_le_nat_alt)
  then have "pa_interval a \<noteq> 0"
    by auto
  obtain s1 a1 where sd: "send_adv e s a (pa_interval a) = (s1, a1)"
    by fastforce
  note sp = send_adv_spec [OF inv held ai \<open>pa_interval a \<noteq> 0\<close> sd]
  have res: "s' = s1" "a' = a1\<lparr>pa_timer := Some (pa_interval a), pa_interval := next_interval (pa_interval a) (pa_max a)\<rparr>"
    using st sd sp(11,13) by (auto simp: send_timer_def next_interval_def)
  show "net_inv s'" "held_ok s' (ip_q (pa_conn a'))" "ann_inv a'"
    "bufs s' - ip_bufs (pa_conn a') = bufs s - ip_bufs (pa_conn a)"
    "pa_interval a' = next_interval (pa_interval a) (pa_max a)" "pa_min a' = pa_min a" "pa_max a' = pa_max a"
    "pa_timer a' = Some (pa_interval a)"
    using res sp ai by (simp_all add: ann_inv_def)
qed

fun fire_timer :: "env list \<Rightarrow> net \<times> ann \<Rightarrow> net \<times> ann" where
  "fire_timer [] sa = sa"
| "fire_timer (e # es) sa = fire_timer es (send_timer e (fst sa) (snd sa))"

definition ann_owns :: "ptr set \<Rightarrow> net \<times> ann \<Rightarrow> bool" where
  "ann_owns others sa \<longleftrightarrow> net_inv (fst sa) \<and> held_ok (fst sa) (ip_q (pa_conn (snd sa))) \<and> ann_inv (snd sa) \<and>
     bufs (fst sa) - ip_bufs (pa_conn (snd sa)) = others"

lemma fire_timer_spec:
  assumes "ann_owns others sa" and "pa_min (snd sa) \<le> pa_interval (snd sa)" "pa_interval (snd sa) \<le> pa_max (snd sa)"
  shows "ann_owns others (fire_timer es sa) \<and>
    unat (pa_interval (snd (fire_timer es sa))) = min (2 ^ length es * unat (pa_interval (snd sa))) (unat (pa_max (snd sa)))"
  using assms
proof (induction es arbitrary: sa)
  case Nil
  then show ?case
    by (simp add: word_le_nat_alt)
next
  case (Cons e es)
  obtain s a where sa: "sa = (s, a)"
    by fastforce
  obtain s' a' where st: "send_timer e s a = (s', a')"
    by fastforce
  have h: "net_inv s" "held_ok s (ip_q (pa_conn a))" "ann_inv a" "pa_min a \<le> pa_interval a" "pa_interval a \<le> pa_max a"
    using Cons.prems by (simp_all add: sa ann_owns_def)
  note sp = send_timer_spec [OF h st]
  have mx: "unat (pa_max a) < 32768"
    using h(3) by (simp add: ann_inv_def)
  have nb: "pa_min a' \<le> pa_interval a'" "pa_interval a' \<le> pa_max a'"
    using next_interval_bounds [OF h(4,5) mx] sp(5-7) by simp_all
  have own: "ann_owns others (s', a')"
    using sp(1-4) Cons.prems(1) by (simp add: ann_owns_def sa)
  have "unat (pa_interval a) < 32768"
    using h(5) mx by (simp add: word_le_nat_alt)
  then have "unat (pa_interval a') = min (2 * unat (pa_interval a)) (unat (pa_max a))"
    using unat_double [of "pa_interval a"] sp(5) by (auto simp: next_interval_def word_less_nat_alt)
  moreover have "min (2 ^ n * min (2 * x) m) m = min (2 ^ Suc n * x) m" for n x m :: nat
  proof (cases "2 * x \<le> m")
    case False
    have "m \<le> 2 ^ n * m" "m \<le> 2 ^ Suc n * x"
      using False by (auto intro: order_trans [of m "2 * x"])
    moreover have "min (2 * x) m = m"
      using False by simp
    ultimately show ?thesis
      by (simp only: min_absorb2)
  qed (simp add: ac_simps)
  ultimately show ?case
    using Cons.IH [of "(s', a')"] own nb sp(7) by (simp add: sa st)
qed

section \<open>Properties\<close>

definition ann_start :: ann where
  "ann_start = polite_announcement_init \<lparr>al_list = [700], al_mem = (\<lambda>_. \<lparr>an_id = 130, an_value = 255, an_callback = True\<rparr>),
     al_observer = False, al_listen = [], pa_conn = \<lparr>ip_q = None, ip_hdrsize = 0, ip_timer = None\<rparr>,
     pa_timer = None, pa_interval = 0, pa_min = 0, pa_max = 0\<rparr> 128 4096"

definition env_example :: env where
  "env_example = \<lparr>ev_me = Rimeaddr 5 0, ev_now = 100, ev_rnd = (\<lambda>_. 17), ev_ttg = 100000, ev_slack = 16, ev_duty = 13,
     ev_stamp = 123456, ev_out = (\<lambda>b. (b, True))\<rparr>"

lemma ann_start_ok: "pa_ok ann_start" "held_ok s (ip_q (pa_conn ann_start))" "al_observer ann_start"
    "al_list ann_start = [700]" "ann_inv ann_start" "ip_bufs (pa_conn ann_start) = {}"
  by (simp_all add: ann_start_def polite_announcement_init_def announcement_register_observer_callback_def
      pa_ok_def ann_inv_def held_ok_def word_le_nat_alt ip_bufs_def)

text \<open>A node that hears an announcement learns the announced value: after \<open>announcement_set_value\<close> on the only
  registered announcement, the packet buffer holds a message from which \<open>adv_packet_received\<close>, on any node
  whose packet buffer holds the same data, extracts exactly the announcement's id and the new value.\<close>

theorem announcement_roundtrip:
  assumes "net_inv s" and "held_ok s (ip_q (pa_conn a))" and "pa_ok a" and "al_observer a" and "al_list a = [p]"
    and "announcement_set_value e s a p v = (s', a')"
    and "pb_inv b" and "\<not> packetbuf_is_reference b" and "pb_data b = pb_data (nt_pb s')"
  shows "adv_packet_received b = [(an_id (al_mem a p), v)]"
proof -
  let ?a = "a\<lparr>al_mem := (al_mem a)(p := (al_mem a p)\<lparr>an_value := v\<rparr>)\<rparr>"
  have ob: "observe e s ?a = (s', a')"
    using assms(6) by (simp add: announcement_set_value_def)
  have h: "held_ok s (ip_q (pa_conn ?a))" "pa_ok ?a"
    using assms(2,3) by (simp_all add: pa_ok_def ann_inv_def)
  from observe_spec(9) [OF assms(1) h ob] assms(4) have "pb_data (nt_pb s') = adata ?a"
    by simp
  with adv_received [of b ?a p] assms(5,7-9) show ?thesis
    by simp
qed

theorem announcement_roundtrip_witness:
  "adv_packet_received (nt_pb (fst (announcement_set_value env_example net_start ann_start 700 42))) = [(130, 42)]"
proof -
  obtain s' a' where sv: "announcement_set_value env_example net_start ann_start 700 42 = (s', a')"
    by fastforce
  let ?a = "ann_start\<lparr>al_mem := (al_mem ann_start)(700 := (al_mem ann_start 700)\<lparr>an_value := 42\<rparr>)\<rparr>"
  have ob: "observe env_example net_start ?a = (s', a')"
    using sv by (simp add: announcement_set_value_def)
  have h: "held_ok net_start (ip_q (pa_conn ?a))" "pa_ok ?a" "al_observer ?a"
    using ann_start_ok by (simp_all add: pa_ok_def ann_inv_def)
  note os = observe_spec(1,9) [OF net_start_inv h(1,2) ob]
  have pb: "pb_inv (nt_pb s')" "\<not> packetbuf_is_reference (nt_pb s')"
    using os h(3) by (simp_all add: net_inv_def)
  have "an_id (al_mem ann_start 700) = 130"
    by (simp add: ann_start_def polite_announcement_init_def announcement_register_observer_callback_def)
  with announcement_roundtrip [OF net_start_inv ann_start_ok(2,1,3,4) sv pb refl] sv show ?thesis
    by simp
qed

text \<open>Announcements back off and cost one buffer: after \<open>k\<close> firings of the announcement timer the interval is
  \<open>2^k\<close> times what it was, capped at the maximum, without overflow of the 16-bit clock type, and the queue
  buffers in use are the ones of the other owners plus at most the one held-back message.\<close>

theorem polite_backoff:
  assumes "ann_owns others sa" and "pa_min (snd sa) \<le> pa_interval (snd sa)" and "pa_interval (snd sa) \<le> pa_max (snd sa)"
  shows "unat (pa_interval (snd (fire_timer es sa))) =
      min (2 ^ length es * unat (pa_interval (snd sa))) (unat (pa_max (snd sa))) \<and>
    ann_owns others (fire_timer es sa)"
  using fire_timer_spec [OF assms] by blast

theorem polite_backoff_witness:
  "unat (pa_interval (snd (fire_timer (replicate 9 env_example) (net_start, ann_start\<lparr>pa_interval := 128\<rparr>)))) = 4096"
proof -
  let ?sa = "(net_start, ann_start\<lparr>pa_interval := 128\<rparr>)"
  have mm: "pa_min ann_start = 128" "pa_max ann_start = 4096"
    by (simp_all add: ann_start_def polite_announcement_init_def announcement_register_observer_callback_def)
  have "ann_owns {} ?sa"
    using net_start_inv ann_start_ok pq_start_ok(3) by (simp add: ann_owns_def ann_inv_def)
  from polite_backoff [OF this, of "replicate 9 env_example"] mm show ?thesis
    by (simp add: word_le_nat_alt)
qed

end
