(* ===== verification/Words.thy ===== *)
theory Words
  imports Prelude
begin

text \<open>
  Facts about 16- and 32-bit clock values: truncation, the two halves of a 32-bit value, and differences
  that wrap around.
\<close>

lemma unat16_minus_one [simp]: "unat (- 1 :: u16) = 65535"
proof -
  have "(- 1 :: u16) = 65535"
    by code_simp
  then have "unat (- 1 :: u16) = unat (65535 :: u16)"
    by (rule arg_cong)
  then show ?thesis
    by (simp only: unat_numeral) simp
qed

lemma ucast16_minus: "(ucast (a - b :: u32) :: u16) = ucast a - ucast b"
proof -
  have "uint (ucast (a - b) :: u16) = take_bit 16 (take_bit 32 (uint a - uint b))"
    by (simp only: unsigned_ucast_eq uint_word_arith_bintrs) (simp only: take_bit_take_bit, simp)
  also have "\<dots> = take_bit 16 (take_bit 16 (uint a) - take_bit 16 (uint b))"
    by (simp only: take_bit_take_bit take_bit_diff min_def if_True numeral_le_iff semiring_norm)
  also have "\<dots> = uint (ucast a - ucast b :: u16)"
    by (simp only: unsigned_ucast_eq uint_word_arith_bintrs len_of_numeral_defs) simp
  finally show ?thesis
    by (simp only: word_uint_eq_iff)
qed

lemma ucast16_plus: "(ucast (a + b :: u32) :: u16) = ucast a + ucast b"
proof -
  have "uint (ucast (a + b) :: u16) = take_bit 16 (take_bit 32 (uint a + uint b))"
    by (simp only: unsigned_ucast_eq uint_word_arith_bintrs) (simp only: take_bit_take_bit, simp)
  also have "\<dots> = take_bit 16 (take_bit 16 (uint a) + take_bit 16 (uint b))"
    by (simp only: take_bit_take_bit take_bit_add min_def if_True numeral_le_iff semiring_norm)
  also have "\<dots> = uint (ucast a + ucast b :: u16)"
    by (simp only: unsigned_ucast_eq uint_word_arith_bintrs len_of_numeral_defs) simp
  finally show ?thesis
    by (simp only: word_uint_eq_iff)
qed

lemma ucast_16_32_16 [simp]: "(ucast (ucast (x :: u16) :: u32) :: u16) = x"
  by transfer simp

lemma unat_ucast_16_32 [simp]: "unat (ucast (x :: u16) :: u32) = unat x"
  by (simp add: unsigned_ucast_eq take_bit_nat_eq_self less_trans [OF unat16_less])

lemma unat_ucast_32_16: "unat (ucast (x :: u32) :: u16) = unat x mod 65536"
  by (simp add: unsigned_ucast_eq take_bit_eq_mod)

lemma unat32_high: "unat (drop_bit 16 (w :: u32)) = unat w div 65536"
proof -
  have "unat (drop_bit 16 w) = drop_bit 16 (unat w)"
    by (rule unat_drop_bit_eq)
  then show ?thesis
    by (simp only: drop_bit_eq_div) simp
qed

lemma split32:
  fixes w :: u32
  shows "unat w = unat (ucast (drop_bit 16 w) :: u16) * 65536 + unat (ucast w :: u16)"
proof -
  have "unat (ucast (drop_bit 16 w) :: u16) = unat w div 65536 mod 65536"
    by (simp only: unat_ucast_32_16 unat32_high)
  moreover have "unat w div 65536 < 65536"
    using unat32_less [of w] by (simp add: less_mult_imp_div_less)
  ultimately show ?thesis
    by (simp only: unat_ucast_32_16 mod_less div_mult_mod_eq)
qed

lemma unat16_pred: "w \<noteq> 0 \<Longrightarrow> unat (w - 1 :: u16) = unat w - 1"
  by (rule unat_minus_one)

lemma unat16_add: "unat (a + b :: u16) = (unat a + unat b) mod 65536"
  by (simp add: unat_word_ariths)

lemma unat32_add: "unat (a + b :: u32) = (unat a + unat b) mod 4294967296"
  by (simp add: unat_word_ariths)

lemma unat16_add_less: "unat a + unat b < 65536 \<Longrightarrow> unat (a + b :: u16) = unat a + unat b"
  by (simp add: unat16_add)

lemma unat32_add_less: "unat a + unat b < 4294967296 \<Longrightarrow> unat (a + b :: u32) = unat a + unat b"
  by (simp add: unat32_add)

lemma unat16_mult_less: "unat a * unat b < 65536 \<Longrightarrow> unat (a * b :: u16) = unat a * unat b"
  by (simp add: unat_word_ariths)

lemma unat32_mult_less: "unat a * unat b < 4294967296 \<Longrightarrow> unat (a * b :: u32) = unat a * unat b"
  by (simp add: unat_word_ariths)

lemma unat16_sub: "b \<le> a \<Longrightarrow> unat (a - b :: u16) = unat a - unat b"
  by (rule unat_sub)

text \<open>A difference of counter values is the time between them when it is shorter than a wrap-around.\<close>

lemma counter_diff: "k < 65536 \<Longrightarrow> unat ((t + of_nat k) - t :: u16) = k"
  by simp

text \<open>A 16-bit number in memory, little endian.\<close>

definition le16 :: "u16 \<Rightarrow> u8 list" where
  "le16 w = [ucast w, ucast (drop_bit 8 w)]"

definition of_le16 :: "u8 \<Rightarrow> u8 \<Rightarrow> u16" where
  "of_le16 l h = ucast l + push_bit 8 (ucast h)"

lemma of_le16_bytes: "of_le16 (ucast w) (ucast (drop_bit 8 w)) = w"
proof -
  have u: "unat (ucast (ucast w :: u8) :: u16) = unat w mod 256" "unat (ucast (ucast (drop_bit 8 w) :: u8) :: u16) = unat w div 256"
  proof -
    have "unat (ucast x :: u16) = unat x" for x :: u8
      by (simp add: unsigned_ucast_eq take_bit_nat_eq_self less_trans [OF unat8_less])
    moreover have "unat (ucast x :: u8) = unat x mod 256" for x :: u16
      by (simp add: unsigned_ucast_eq take_bit_eq_mod)
    moreover have "unat (drop_bit 8 w) = unat w div 256"
    proof -
      have "unat (drop_bit 8 w) = drop_bit 8 (unat w)"
        by (rule unat_drop_bit_eq)
      then show ?thesis
        by (simp only: drop_bit_eq_div) simp
    qed
    moreover have "unat w div 256 < 256"
      using unat16_less [of w] by (simp add: less_mult_imp_div_less)
    ultimately show "unat (ucast (ucast w :: u8) :: u16) = unat w mod 256" "unat (ucast (ucast (drop_bit 8 w) :: u8) :: u16) = unat w div 256"
      by simp_all
  qed
  have "unat w div 256 < 256"
    using unat16_less [of w] by (simp add: less_mult_imp_div_less)
  then have "unat (push_bit 8 (ucast (ucast (drop_bit 8 w) :: u8) :: u16)) = 256 * (unat w div 256)"
    using u(2) by (simp add: push_bit_eq_mult unat_word_ariths)
  moreover have "unat w mod 256 + 256 * (unat w div 256) = unat w"
    by simp
  ultimately have "unat (of_le16 (ucast w) (ucast (drop_bit 8 w))) = unat w"
    unfolding of_le16_def using u(1) by (subst unat16_add) (simp del: mod_mult_div_eq)
  then show ?thesis
    by (simp only: word_unat_eq_iff)
qed

end
