(* ===== verification/Glossy_Conf.thy ===== *)
theory Glossy_Conf
  imports Words
begin

text \<open>
  The timing of the Glossy phases: what \<open>schedule_send\<close> of the reliable unicast and the Glossy scheduler know of it.
\<close>

text \<open>The constants of \<open>platform/sky/contiki-conf.h\<close>, in ticks of the 32768 Hz clock.\<close>

definition GLOSSY_DURATION :: u16 where "GLOSSY_DURATION = 32768 div 150"
definition GLOSSY_GUARD_TIME :: u16 where "GLOSSY_GUARD_TIME = 32768 div 1900"
definition GLOSSY_GAP :: u16 where "GLOSSY_GAP = 32768 div 200"
definition GLOSSY_INIT_GUARD_TIME :: u16 where "GLOSSY_INIT_GUARD_TIME = 32768 div 20"
definition GLOSSY_INIT_DURATION :: u16 where "GLOSSY_INIT_DURATION = GLOSSY_DURATION - GLOSSY_GUARD_TIME + GLOSSY_INIT_GUARD_TIME"
definition GLOSSY_INIT_PERIOD :: u16 where "GLOSSY_INIT_PERIOD = GLOSSY_INIT_DURATION + 32768 div 100"
definition GLOSSY_PERIOD :: u32 where "GLOSSY_PERIOD = 32768 * 60"
definition GLOSSY_N :: u8 where "GLOSSY_N = 3"
definition GLOSSY_BOOTSTRAP_PERIODS :: u8 where "GLOSSY_BOOTSTRAP_PERIODS = 3"
definition SINK_ID :: u8 where "SINK_ID = 200"

end
