(* ===== verification/Relunicast.thy ===== *)
theory Relunicast
  imports Announce Glossy_Conf
begin

text \<open>
  Reliable unicast, \<open>core/net/rime/relunicast.c\<close>: one packet at a time, kept in a queue buffer and sent
  until the MAC layer reports a data acknowledgment or the retransmissions are used up, at times that
  avoid the Glossy phases. The callbacks \<open>sent\<close> and \<open>timedout\<close> are calls in tail position; \<open>send\<close> returns
  which one is made, and the client (\<open>Relcollect\<close>) continues with it.
\<close>

section \<open>State and operations\<close>

definition PACKET_IDS :: nat where "PACKET_IDS = 16"

record relunicast_conn =
  ru_timer :: "clock_time_t option"
  ru_buf :: "ptr option"
  ru_receiver :: rimeaddr
  ru_sndnxt :: u8
  ru_is_tx :: u8
  ru_rxmit :: u8
  ru_max_rxmit :: u8
  ru_esender :: rimeaddr
  ru_time_high :: u16
  ru_time_low :: u16

text \<open>What the callbacks are called with: the retransmissions of the packet.\<close>

datatype outcome = Rescheduled | Sent u8 | Timedout u8

definition relunicast_recv :: "rimeaddr \<Rightarrow> packetbuf \<Rightarrow> (rimeaddr \<times> u8) option" where
  "relunicast_recv me b =
     (case recv_from_broadcast me b of
        None \<Rightarrow> None
      | Some from \<Rightarrow> Some (from, ucast (packetbuf_attr b PACKETBUF_ATTR_PACKET_ID)))"

definition relunicast_open ::
  "channel list \<Rightarrow> channel \<Rightarrow> u16 \<Rightarrow> relunicast_conn \<Rightarrow> channel list \<times> relunicast_conn" where
  "relunicast_open cs ch no c =
     (channel_set_attributes (unicast_open cs ch no) no RELUNICAST_ATTRIBUTES,
      c\<lparr>ru_is_tx := 0, ru_rxmit := 0, ru_sndnxt := 0\<rparr>)"

definition relunicast_close ::
  "channel list \<Rightarrow> channel \<Rightarrow> net \<Rightarrow> relunicast_conn \<Rightarrow> channel list \<times> net \<times> relunicast_conn" where
  "relunicast_close cs ch s c = (unicast_close cs ch, free_buf s (ru_buf c), c\<lparr>ru_timer := None\<rparr>)"

definition relunicast_is_transmitting :: "relunicast_conn \<Rightarrow> u8" where
  "relunicast_is_transmitting c = ru_is_tx c"

definition relunicast_receiver :: "relunicast_conn \<Rightarrow> rimeaddr" where
  "relunicast_receiver c = ru_receiver c"

text \<open>
  \<open>schedule_send\<close>: \<open>GLOSSY_DURATION\<close> is \<open>RTIMER_SECOND / 150\<close>, \<open>SLACK_AFTER_GLOSSY\<close> is 2. The
  difference with the unsigned \<open>clock_time_t\<close> is taken modulo \<open>2^16\<close> and then read as an \<open>int\<close>.
\<close>

definition SLACK_AFTER_GLOSSY :: u16 where "SLACK_AFTER_GLOSSY = 2"

definition schedule_send :: "env \<Rightarrow> relunicast_conn \<Rightarrow> clock_time_t \<Rightarrow> relunicast_conn" where
  "schedule_send e c scheduled_time =
     (let time_to_glossy = word_of_int (time_to_glossy e) :: u16;
          glossy_duration = ucast (ucast GLOSSY_DURATION div RTIMER_PER_CLOCK) :: u16;
          send_buffer = sint (time_to_glossy - scheduled_time - word_of_int (ev_slack e))
      in if send_buffer \<ge> 0 then c\<lparr>ru_timer := Some scheduled_time\<rparr>
         else (let time_after_glossy = sint (scheduled_time - time_to_glossy - glossy_duration - SLACK_AFTER_GLOSSY)
               in if time_after_glossy \<ge> 0 then c\<lparr>ru_timer := Some scheduled_time\<rparr>
                  else c\<lparr>ru_timer := Some (time_to_glossy + glossy_duration + SLACK_AFTER_GLOSSY)\<rparr>))"

definition random_delay :: "env \<Rightarrow> clock_time_t" where
  "random_delay e = ev_rnd e 1 mod ev_duty e"

definition rexmit_time :: "env \<Rightarrow> clock_time_t" where
  "rexmit_time e = ev_duty e + random_delay e"

text \<open>\<open>post_send\<close>, which the X-MAC branch of \<open>send\<close> repeats after its call of \<open>unicast_send\<close>.\<close>

definition sndnxt_next :: "u8 \<Rightarrow> u8" where
  "sndnxt_next n = of_nat ((unat n + 1) mod PACKET_IDS)"

definition post_send :: "env \<Rightarrow> relunicast_conn \<Rightarrow> bool \<Rightarrow> outcome \<times> relunicast_conn" where
  "post_send e c acknowledged =
     (if acknowledged then
        (let c1 = c\<lparr>ru_sndnxt := sndnxt_next (ru_sndnxt c), ru_is_tx := 0, ru_rxmit := ru_rxmit c - 1, ru_timer := None\<rparr>
         in (Sent (ru_rxmit c1), c1))
      else (Rescheduled, schedule_send e c (rexmit_time e)))"

text \<open>The packet buffer \<open>unicast_send\<close> is called with.\<close>

definition tx_packet :: "env \<Rightarrow> net \<Rightarrow> relunicast_conn \<Rightarrow> packetbuf" where
  "tx_packet e s c =
     (let s1 = (case ru_buf c of None \<Rightarrow> s | Some q \<Rightarrow> queuebuf_to_packetbuf s q)
      in if rimeaddr_cmp (ru_esender c) (ev_me e)
         then packetbuf_set_attr (packetbuf_set_attr (nt_pb s1) PACKETBUF_ATTR_TIME_HIGH (ru_time_high c))
                PACKETBUF_ATTR_TIME_LOW (ru_time_low c)
         else nt_pb s1)"

definition send :: "env \<Rightarrow> net \<Rightarrow> relunicast_conn \<Rightarrow> outcome \<times> net \<times> relunicast_conn" where
  "send e s c =
     (if ru_rxmit c > ru_max_rxmit c then
        (let c1 = c\<lparr>ru_sndnxt := sndnxt_next (ru_sndnxt c), ru_is_tx := 0, ru_rxmit := ru_rxmit c - 1, ru_timer := None\<rparr>
         in (Timedout (ru_rxmit c1), s, c1))
      else
        (let c1 = c\<lparr>ru_rxmit := ru_rxmit c + 1\<rparr>
         in case unicast_send (ev_me e) (ev_out e) (tx_packet e s c1) (ru_receiver c1) of
              (b, acknowledged) \<Rightarrow>
                (case post_send e c1 acknowledged of (r, c2) \<Rightarrow> (r, s\<lparr>nt_pb := b\<rparr>, c2))))"

definition relunicast_send ::
  "env \<Rightarrow> net \<Rightarrow> relunicast_conn \<Rightarrow> rimeaddr \<Rightarrow> u8 \<Rightarrow> rimeaddr \<Rightarrow> bool \<times> net \<times> relunicast_conn" where
  "relunicast_send e s c receiver max_retransmissions esender =
     (if relunicast_is_transmitting c \<noteq> 0 then (False, s, c)
      else
        (let s1 = free_buf s (ru_buf c);
             s2 = s1\<lparr>nt_pb := packetbuf_set_attr (nt_pb s1) PACKETBUF_ATTR_PACKET_ID (ucast (ru_sndnxt c))\<rparr>
         in case queuebuf_new_from_packetbuf s2 of
              (None, s3) \<Rightarrow> (False, s3, c\<lparr>ru_buf := None\<rparr>)
            | (Some q, s3) \<Rightarrow>
                (let c1 = c\<lparr>ru_buf := Some q, ru_max_rxmit := max_retransmissions, ru_rxmit := 0, ru_is_tx := 1,
                            ru_esender := rimeaddr_copy (ru_esender c) esender,
                            ru_receiver := rimeaddr_copy (ru_receiver c) receiver\<rparr>;
                     c2 = (if rimeaddr_cmp (ru_esender c1) (ev_me e)
                           then c1\<lparr>ru_time_high := ucast (drop_bit 16 (ev_stamp e)), ru_time_low := ucast (ev_stamp e AND 0xffff)\<rparr>
                           else c1)
                 in (True, s3, schedule_send e c2 (random_delay e)))))"

section \<open>Frame properties\<close>

text \<open>\<open>env_ok\<close>: the MAC driver leaves a well-formed packet buffer, and the duty cycle is not zero.\<close>

definition env_ok :: "env \<Rightarrow> bool" where
  "env_ok e \<longleftrightarrow> (\<forall>b. pb_inv b \<longrightarrow> pb_inv (fst (ev_out e b)) \<and> \<not> packetbuf_is_reference (fst (ev_out e b))) \<and>
     ev_duty e \<noteq> 0"

text \<open>A transmitting connection owns the buffer it sends; an idle one may own its last one.\<close>

definition ru_bufs :: "relunicast_conn \<Rightarrow> ptr set" where
  "ru_bufs c = set_option (ru_buf c)"

definition ru_ok :: "net \<Rightarrow> relunicast_conn \<Rightarrow> bool" where
  "ru_ok s c \<longleftrightarrow> held_ok s (ru_buf c) \<and> (ru_is_tx c \<noteq> 0 \<longrightarrow> ru_buf c \<noteq> None) \<and>
     (ru_is_tx c \<noteq> 0 \<longleftrightarrow> ru_timer c \<noteq> None) \<and>
     unat (ru_sndnxt c) < PACKET_IDS"

lemma sndnxt_next_less [simp]: "unat (sndnxt_next n) < PACKET_IDS"
proof -
  have "(unat n + 1) mod 16 < 16"
    by simp
  then have "(unat n + 1) mod 16 mod 256 < 16"
    by (simp only: mod_less)
  then show ?thesis
    by (simp add: sndnxt_next_def PACKET_IDS_def)
qed

lemma schedule_send_simps [simp]:
  "ru_buf (schedule_send e c t) = ru_buf c" "ru_receiver (schedule_send e c t) = ru_receiver c"
  "ru_sndnxt (schedule_send e c t) = ru_sndnxt c" "ru_is_tx (schedule_send e c t) = ru_is_tx c"
  "ru_rxmit (schedule_send e c t) = ru_rxmit c" "ru_max_rxmit (schedule_send e c t) = ru_max_rxmit c"
  "ru_esender (schedule_send e c t) = ru_esender c" "ru_timer (schedule_send e c t) \<noteq> None"
  "\<exists>d. ru_timer (schedule_send e c t) = Some d"
  "ru_time_high (schedule_send e c t) = ru_time_high c" "ru_time_low (schedule_send e c t) = ru_time_low c"
  by (simp_all add: schedule_send_def Let_def)

lemma pb_set_attr_simps [simp]:
  "pb_inv (packetbuf_set_attr b t v) = pb_inv b" "pb_inv (packetbuf_set_addr b a w) = pb_inv b"
  "pb_data (packetbuf_set_attr b t v) = pb_data b" "pb_data (packetbuf_set_addr b a w) = pb_data b"
  "pb_hdr (packetbuf_set_attr b t v) = pb_hdr b" "pb_hdr (packetbuf_set_addr b a w) = pb_hdr b"
  "packetbuf_is_reference (packetbuf_set_attr b t v) = packetbuf_is_reference b"
  "packetbuf_is_reference (packetbuf_set_addr b a w) = packetbuf_is_reference b"
  "pb_attrs (packetbuf_set_attr b t v) = (pb_attrs b)(t := v)"
  "pb_addrs (packetbuf_set_attr b t v) = pb_addrs b" "pb_attrs (packetbuf_set_addr b a w) = pb_attrs b"
  by (simp_all add: packetbuf_set_attr_def packetbuf_set_addr_def pb_inv_def pb_data_def pb_hdr_def
      packetbuf_dataptr_def packetbuf_copyto_hdr_def packetbuf_is_reference_def)

text \<open>What is transmitted: the queue buffer's packet, time-stamped by its originator.\<close>

lemma tx_packet_spec:
  fixes e :: env
  assumes inv: "net_inv s" and held: "held_ok s (ru_buf c)" and q: "ru_buf c = Some q"
  defines "b \<equiv> tx_packet e s c" and "qb \<equiv> m_mem (nt_bufmem s) q"
  shows "pb_inv b" "\<not> packetbuf_is_reference b" "pb_hdr b = []"
    "pb_data b = take (min 128 (unat (qb_len qb))) (qb_data qb)" "pb_addrs b = qb_addrs qb"
    "pb_attrs b = (if rimeaddr_cmp (ru_esender c) (ev_me e)
       then (qb_attrs qb)(PACKETBUF_ATTR_TIME_HIGH := ru_time_high c, PACKETBUF_ATTR_TIME_LOW := ru_time_low c)
       else qb_attrs qb)"
proof -
  have qs: "q \<in> bufs s" "unat (qb_len qb) \<le> 192"
    using held q by (simp_all add: held_ok_def qb_def)
  have "memb_inmemb (nt_bufmem s) q"
    using inv qs(1) in_use_inmemb [of "nt_bufmem s" q] by (simp add: net_inv_def bufs_def)
  then obtain b' where b': "queuebuf_to_packetbuf s q = s\<lparr>nt_pb := b'\<rparr>" "restored qb b'"
    using to_packetbuf_spec [OF inv, of q] qs(2) by (auto simp: qb_def)
  then show "pb_inv b" "\<not> packetbuf_is_reference b" "pb_hdr b = []"
    "pb_data b = take (min 128 (unat (qb_len qb))) (qb_data qb)" "pb_addrs b = qb_addrs qb"
    "pb_attrs b = (if rimeaddr_cmp (ru_esender c) (ev_me e)
       then (qb_attrs qb)(PACKETBUF_ATTR_TIME_HIGH := ru_time_high c, PACKETBUF_ATTR_TIME_LOW := ru_time_low c)
       else qb_attrs qb)"
    using q by (simp_all add: b_def tx_packet_def Let_def restored_def)
qed

lemma unicast_send_ok:
  assumes "env_ok e" and "pb_inv b" and "unicast_send me (ev_out e) b r = (b', ack)"
  shows "pb_inv b'" "\<not> packetbuf_is_reference b'"
proof -
  let ?b = "packetbuf_set_addr (packetbuf_set_addr b PACKETBUF_ADDR_RECEIVER r) PACKETBUF_ADDR_SENDER me"
  have "ev_out e ?b = (b', ack)"
    using assms(3) by (simp add: unicast_send_def broadcast_send_def abc_send_def)
  moreover have "pb_inv ?b"
    using assms(2) by simp
  ultimately show "pb_inv b'" "\<not> packetbuf_is_reference b'"
    using assms(1) unfolding env_ok_def by (metis fst_conv)+
qed

lemma post_send_spec:
  assumes "post_send e c ack = (r, c')"
  shows "ru_buf c' = ru_buf c" "ru_max_rxmit c' = ru_max_rxmit c" "ru_receiver c' = ru_receiver c"
    "ru_esender c' = ru_esender c" "ru_time_high c' = ru_time_high c" "ru_time_low c' = ru_time_low c"
    "ack \<Longrightarrow> r = Sent (ru_rxmit c - 1) \<and> ru_is_tx c' = 0 \<and> ru_timer c' = None \<and> ru_sndnxt c' = sndnxt_next (ru_sndnxt c)"
    "\<not> ack \<Longrightarrow> r = Rescheduled \<and> ru_is_tx c' = ru_is_tx c \<and> ru_sndnxt c' = ru_sndnxt c \<and> ru_rxmit c' = ru_rxmit c \<and>
       ru_timer c' \<noteq> None"
  using assms by (auto simp: post_send_def Let_def split: if_splits)

lemma send_spec:
  assumes inv: "net_inv s" and ru: "ru_ok s c" and tx: "ru_is_tx c \<noteq> 0" and env: "env_ok e"
    and sd: "send e s c = (r, s', c')"
  shows "net_inv s'" "ru_ok s' c'" "bufs s' = bufs s" "ru_buf c' = ru_buf c" "nt_bufmem s' = nt_bufmem s"
    "r = Rescheduled \<longleftrightarrow> ru_is_tx c' \<noteq> 0"
proof -
  obtain q where q: "ru_buf c = Some q"
    using ru tx by (auto simp: ru_ok_def)
  have "net_inv s' \<and> ru_ok s' c' \<and> bufs s' = bufs s \<and> ru_buf c' = ru_buf c \<and> nt_bufmem s' = nt_bufmem s \<and>
      (r = Rescheduled \<longleftrightarrow> ru_is_tx c' \<noteq> 0)"
  proof (cases "ru_rxmit c > ru_max_rxmit c")
    case True
    with sd show ?thesis
      using inv ru by (auto simp: send_def Let_def ru_ok_def)
  next
    case False
    let ?c = "c\<lparr>ru_rxmit := ru_rxmit c + 1\<rparr>"
    obtain b ack where us: "unicast_send (ev_me e) (ev_out e) (tx_packet e s ?c) (ru_receiver ?c) = (b, ack)"
      by (rule prod.exhaust)
    obtain r2 c2 where ps: "post_send e ?c ack = (r2, c2)"
      by (rule prod.exhaust)
    have res: "r = r2" "s' = s\<lparr>nt_pb := b\<rparr>" "c' = c2"
      using sd False us ps by (auto simp: send_def Let_def)
    have "held_ok s (ru_buf ?c)" "ru_buf ?c = Some q"
      using ru q by (simp_all add: ru_ok_def)
    from tx_packet_spec(1) [OF inv this] have "pb_inv b"
      using unicast_send_ok(1) [OF env _ us] by blast
    then have "net_inv s'"
      using net_inv_pb [OF inv] by (simp add: res)
    with post_send_spec [OF ps] res ru tx show ?thesis
      by (cases ack) (auto simp: ru_ok_def)
  qed
  then show "net_inv s'" "ru_ok s' c'" "bufs s' = bufs s" "ru_buf c' = ru_buf c" "nt_bufmem s' = nt_bufmem s"
    "r = Rescheduled \<longleftrightarrow> ru_is_tx c' \<noteq> 0"
    by blast+
qed

text \<open>Accepting a packet exchanges the connection's buffer for one with the packet; others' buffers stay.\<close>

lemma relunicast_send_idle:
  assumes inv: "net_inv s" and ru: "ru_ok s c" and nr: "\<not> packetbuf_is_reference (nt_pb s)" and idle: "ru_is_tx c = 0"
  obtains x s3 where "queuebuf_new_from_packetbuf ((free_buf s (ru_buf c))\<lparr>nt_pb :=
        packetbuf_set_attr (nt_pb s) PACKETBUF_ATTR_PACKET_ID (ucast (ru_sndnxt c))\<rparr>) = (x, s3)"
    "net_inv ((free_buf s (ru_buf c))\<lparr>nt_pb := packetbuf_set_attr (nt_pb s) PACKETBUF_ATTR_PACKET_ID (ucast (ru_sndnxt c))\<rparr>)"
    "net_inv s3" "held_ok s3 x" "bufs s3 = bufs s - ru_bufs c \<union> set_option x" "(bufs s - ru_bufs c) \<inter> set_option x = {}"
    "\<forall>b \<in> bufs s - ru_bufs c. m_mem (nt_bufmem s3) b = m_mem (nt_bufmem s) b" "\<not> packetbuf_is_reference (nt_pb s3)"
    "if x = None then card (bufs s - ru_bufs c) = QUEUEBUF_NUM else card (bufs s - ru_bufs c) < QUEUEBUF_NUM"
proof -
  have held: "held_ok s (ru_buf c)" and pb: "pb_inv (nt_pb s)"
    using ru inv by (simp_all add: ru_ok_def net_inv_def)
  note fb = free_buf_spec [OF inv held]
  let ?b = "packetbuf_set_attr (nt_pb s) PACKETBUF_ATTR_PACKET_ID (ucast (ru_sndnxt c))"
  let ?s2 = "(free_buf s (ru_buf c))\<lparr>nt_pb := ?b\<rparr>"
  have inv2: "net_inv ?s2" and b2: "bufs ?s2 = bufs s - ru_bufs c" and nr2: "\<not> packetbuf_is_reference (nt_pb ?s2)"
    using net_inv_pb [OF fb(1), of ?b] pb fb(2) nr by (simp_all add: ru_bufs_def)
  obtain x s3 where nb: "queuebuf_new_from_packetbuf ?s2 = (x, s3)"
    by (rule prod.exhaust)
  note nh = new_buf_held [OF inv2 nr2 nb]
  have mem: "\<forall>b \<in> bufs s - ru_bufs c. m_mem (nt_bufmem s3) b = m_mem (nt_bufmem s) b"
    using nh(6) b2 fb(4) by simp
  have le: "if x = None then card (bufs s - ru_bufs c) = QUEUEBUF_NUM else card (bufs s - ru_bufs c) < QUEUEBUF_NUM"
    using new_buf_spec [OF inv2 nr2 nb] b2 by (cases x) simp_all
  show thesis
    by (rule that [OF nb inv2 nh(1,2) _ _ mem _ le]) (use nh nr b2 in simp_all)
qed

lemma relunicast_send_spec:
  assumes inv: "net_inv s" and ru: "ru_ok s c" and nr: "\<not> packetbuf_is_reference (nt_pb s)"
    and sd: "relunicast_send e s c rc m es = (r, s', c')"
  shows "net_inv s' \<and> ru_ok s' c' \<and> bufs s' - ru_bufs c' = bufs s - ru_bufs c \<and> \<not> packetbuf_is_reference (nt_pb s') \<and>
    (\<forall>b \<in> bufs s - ru_bufs c. m_mem (nt_bufmem s') b = m_mem (nt_bufmem s) b) \<and>
    (if r then ru_is_tx c = 0 \<and> ru_is_tx c' = 1 \<and> ru_rxmit c' = 0 \<and> ru_max_rxmit c' = m \<and> ru_receiver c' = rc
     else ru_is_tx c' = ru_is_tx c) \<and>
    (r \<longleftrightarrow> ru_is_tx c = 0 \<and> card (bufs s - ru_bufs c) < QUEUEBUF_NUM)"
proof (cases "ru_is_tx c = 0")
  case False
  then have "s' = s" "c' = c" "\<not> r"
    using sd by (simp_all add: relunicast_send_def relunicast_is_transmitting_def)
  then show ?thesis
    using False inv ru nr by simp
next
  case True
  obtain x s3 where nb: "queuebuf_new_from_packetbuf ((free_buf s (ru_buf c))\<lparr>nt_pb :=
        packetbuf_set_attr (nt_pb s) PACKETBUF_ATTR_PACKET_ID (ucast (ru_sndnxt c))\<rparr>) = (x, s3)"
    and p: "net_inv s3" "held_ok s3 x" "bufs s3 = bufs s - ru_bufs c \<union> set_option x" "(bufs s - ru_bufs c) \<inter> set_option x = {}"
    "\<forall>b \<in> bufs s - ru_bufs c. m_mem (nt_bufmem s3) b = m_mem (nt_bufmem s) b" "\<not> packetbuf_is_reference (nt_pb s3)"
    "if x = None then card (bufs s - ru_bufs c) = QUEUEBUF_NUM else card (bufs s - ru_bufs c) < QUEUEBUF_NUM"
    using relunicast_send_idle [OF inv ru nr True] by metis
  have pbs: "nt_pb (free_buf s (ru_buf c)) = nt_pb s"
    using free_buf_spec(3) [OF inv] ru by (simp add: ru_ok_def)
  have "unat (ru_sndnxt c) < PACKET_IDS"
    using ru by (simp add: ru_ok_def)
  then have res: "s' = s3 \<and> r = (x \<noteq> None) \<and> ru_buf c' = x \<and> ru_is_tx c' = (if x = None then 0 else 1) \<and>
      ru_sndnxt c' = ru_sndnxt c \<and> (x = None \<longrightarrow> ru_timer c' = ru_timer c) \<and> (x \<noteq> None \<longrightarrow> ru_timer c' \<noteq> None \<and> ru_rxmit c' = 0 \<and> ru_max_rxmit c' = m \<and> ru_receiver c' = rc)"
    using sd True nb pbs
    by (cases x) (auto simp: relunicast_send_def relunicast_is_transmitting_def Let_def)
  have "bufs s' - ru_bufs c' = bufs s - ru_bufs c"
    using p(3,4) res by (auto simp: ru_bufs_def)
  with res p True ru show ?thesis
    by (cases x) (simp_all add: ru_ok_def)
qed

text \<open>The accepted packet, in the buffer.\<close>

definition holds_packet :: "net \<Rightarrow> ptr option \<Rightarrow> packetbuf \<Rightarrow> bool" where
  "holds_packet s p b \<longleftrightarrow> (\<exists>q. p = Some q \<and> qb_addrs (m_mem (nt_bufmem s) q) = pb_addrs b \<and>
     qb_attrs (m_mem (nt_bufmem s) q) = pb_attrs b \<and>
     unat (qb_len (m_mem (nt_bufmem s) q)) = length (pb_hdr b @ pb_data b) \<and>
     take (unat (qb_len (m_mem (nt_bufmem s) q))) (qb_data (m_mem (nt_bufmem s) q)) = pb_hdr b @ pb_data b)"

lemma relunicast_send_holds:
  assumes inv: "net_inv s" and ru: "ru_ok s c" and nr: "\<not> packetbuf_is_reference (nt_pb s)"
    and sd: "relunicast_send e s c rc m es = (True, s', c')"
  shows "holds_packet s' (ru_buf c') (packetbuf_set_attr (nt_pb s) PACKETBUF_ATTR_PACKET_ID (ucast (ru_sndnxt c)))"
proof -
  let ?b = "packetbuf_set_attr (nt_pb s) PACKETBUF_ATTR_PACKET_ID (ucast (ru_sndnxt c))"
  let ?s2 = "(free_buf s (ru_buf c))\<lparr>nt_pb := ?b\<rparr>"
  have tx: "ru_is_tx c = 0"
    using sd by (auto simp: relunicast_send_def relunicast_is_transmitting_def split: if_splits)
  obtain x s3 where nb: "queuebuf_new_from_packetbuf ?s2 = (x, s3)" and inv2: "net_inv ?s2"
    using relunicast_send_idle [OF inv ru nr tx] by metis
  have pbs: "nt_pb (free_buf s (ru_buf c)) = nt_pb s"
    using free_buf_spec(3) [OF inv] ru by (simp add: ru_ok_def)
  have res: "x \<noteq> None \<and> s' = s3 \<and> ru_buf c' = x"
    using sd tx nb pbs
    by (cases x) (auto simp: relunicast_send_def relunicast_is_transmitting_def Let_def)
  then obtain q where q: "x = Some q"
    by blast
  have "\<not> packetbuf_is_reference (nt_pb ?s2)"
    using nr by simp
  from new_buf_spec [OF inv2 this nb] q
  have "qb_addrs (m_mem (nt_bufmem s3) q) = pb_addrs ?b" "qb_attrs (m_mem (nt_bufmem s3) q) = pb_attrs ?b"
     "unat (qb_len (m_mem (nt_bufmem s3) q)) = length (pb_hdr ?b @ pb_data ?b)"
     "take (unat (qb_len (m_mem (nt_bufmem s3) q))) (qb_data (m_mem (nt_bufmem s3) q)) = pb_hdr ?b @ pb_data ?b"
    by auto
  with res q show ?thesis
    unfolding holds_packet_def by blast
qed

section \<open>Scheduling around Glossy\<close>


lemma word_of_unat: "unat (w :: u8) = k \<Longrightarrow> w = of_nat k"
  by (metis of_nat_unat ucast_id)



section \<open>The attempts to send one packet\<close>

text \<open>
  The firings of the timer after a packet was accepted. Between two firings the rest of the node runs
  (\<open>f\<close>), which may use the packet buffer and other queue buffers. The result, the packets handed to
  \<open>unicast_send\<close>, and the final state.
\<close>

definition transmitted :: "env \<Rightarrow> net \<Rightarrow> relunicast_conn \<Rightarrow> packetbuf list" where
  "transmitted e s c = (if ru_rxmit c > ru_max_rxmit c then [] else [tx_packet e s c])"

fun attempts ::
  "(env \<times> (net \<Rightarrow> net)) list \<Rightarrow> net \<times> relunicast_conn \<Rightarrow> outcome option \<times> packetbuf list \<times> net \<times> relunicast_conn" where
  "attempts [] sc = (None, [], sc)"
| "attempts ((e, f) # es) sc =
     (case send e (f (fst sc)) (snd sc) of
        (Rescheduled, sc') \<Rightarrow>
          (case attempts es sc' of (r, bs, sc'') \<Rightarrow> (r, transmitted e (f (fst sc)) (snd sc) @ bs, sc''))
      | (r, sc') \<Rightarrow> (Some r, transmitted e (f (fst sc)) (snd sc), sc'))"

text \<open>The rest of the node does not free or rewrite the connection's buffer.\<close>

definition leaves :: "ptr \<Rightarrow> (net \<Rightarrow> net) \<Rightarrow> bool" where
  "leaves q f \<longleftrightarrow> (\<forall>s. net_inv s \<and> held_ok s (Some q) \<longrightarrow>
     net_inv (f s) \<and> held_ok (f s) (Some q) \<and> m_mem (nt_bufmem (f s)) q = m_mem (nt_bufmem s) q)"

lemma tx_packet_rxmit [simp]: "tx_packet e s (c\<lparr>ru_rxmit := n\<rparr>) = tx_packet e s c"
  by (simp add: tx_packet_def Let_def)

lemma send_step:
  assumes inv: "net_inv s" and held: "held_ok s (Some q)" and q: "ru_buf c = Some q" and env: "env_ok e"
    and acks: "\<And>b. snd (ev_out e b) = ack" and n: "unat (ru_rxmit c) = n" and m: "unat (ru_max_rxmit c) = m" "m < 255" "n \<le> Suc m"
    and sd: "send e s c = (r, s', c')"
  shows "if m < n then r = Timedout (of_nat m) \<and> transmitted e s c = []
    else net_inv s' \<and> held_ok s' (Some q) \<and> m_mem (nt_bufmem s') q = m_mem (nt_bufmem s) q \<and>
      ru_buf c' = Some q \<and> ru_max_rxmit c' = ru_max_rxmit c \<and> transmitted e s c = [tx_packet e s c] \<and>
      (if ack then r = Sent (of_nat n) else r = Rescheduled \<and> unat (ru_rxmit c') = Suc n)"
proof (cases "m < n")
  case True
  then have nm: "n = Suc m" and gt: "ru_rxmit c > ru_max_rxmit c"
    using m n by (auto simp: word_less_nat_alt)
  have "ru_rxmit c = of_nat (Suc m)"
    using word_of_unat [OF n] nm by simp
  then have "ru_rxmit c - 1 = of_nat m"
    by simp
  with True gt sd show ?thesis
    by (auto simp: send_def Let_def transmitted_def)
next
  case False
  then have le: "\<not> ru_rxmit c > ru_max_rxmit c"
    using m n by (simp add: word_less_nat_alt)
  let ?c = "c\<lparr>ru_rxmit := ru_rxmit c + 1\<rparr>"
  obtain b a where us: "unicast_send (ev_me e) (ev_out e) (tx_packet e s ?c) (ru_receiver ?c) = (b, a)"
    by (rule prod.exhaust)
  obtain r2 c2 where ps: "post_send e ?c a = (r2, c2)"
    by (rule prod.exhaust)
  have res: "r = r2" "s' = s\<lparr>nt_pb := b\<rparr>" "c' = c2"
    using sd le us ps by (auto simp: send_def Let_def)
  have a: "a = ack"
    using us acks by (simp add: unicast_send_def broadcast_send_def abc_send_def) (metis snd_conv)
  have "held_ok s (ru_buf ?c)" "ru_buf ?c = Some q"
    using held q by simp_all
  from tx_packet_spec(1) [OF inv this] have "pb_inv b"
    using unicast_send_ok(1) [OF env _ us] by blast
  then have "net_inv s'"
    using net_inv_pb [OF inv] by (simp add: res)
  moreover have "unat (ru_rxmit c + 1) = Suc n" "ru_rxmit c + 1 - 1 = of_nat n"
    using unat8_Suc [of "ru_rxmit c"] n m False word_of_unat [OF n] by simp_all
  ultimately show ?thesis
    using False res held q le a post_send_spec(1,2,7,8) [OF ps] by (auto simp: transmitted_def)
qed

text \<open>What the client is told, by the acknowledgments of the attempts, from the \<open>n\<close>-th attempt on.\<close>

definition reported :: "nat \<Rightarrow> nat \<Rightarrow> bool list \<Rightarrow> outcome option" where
  "reported n m acks =
     (let k = length (takeWhile Not acks)
      in if k < length acks \<and> n + k \<le> m then Some (Sent (of_nat (n + k)))
         else if Suc m - n < length acks then Some (Timedout (of_nat m)) else None)"

definition round_ok :: "ptr \<Rightarrow> env \<times> (net \<Rightarrow> net) \<Rightarrow> bool \<Rightarrow> bool" where
  "round_ok q ef a \<longleftrightarrow> env_ok (fst ef) \<and> leaves q (snd ef) \<and> (\<forall>b. snd (ev_out (fst ef) b) = a)"

definition same_packet :: "queuebuf \<Rightarrow> packetbuf \<Rightarrow> bool" where
  "same_packet qb b \<longleftrightarrow> pb_data b = take (min 128 (unat (qb_len qb))) (qb_data qb) \<and> pb_addrs b = qb_addrs qb \<and>
     (\<forall>t. t \<noteq> PACKETBUF_ATTR_TIME_HIGH \<longrightarrow> t \<noteq> PACKETBUF_ATTR_TIME_LOW \<longrightarrow> pb_attrs b t = qb_attrs qb t)"

lemma attempts_spec:
  assumes "net_inv s" and "held_ok s (Some q)" and "ru_buf c = Some q"
    and "unat (ru_rxmit c) = n" and "unat (ru_max_rxmit c) = m" and "m < 255" and "n \<le> Suc m"
    and "list_all2 (round_ok q) es acks" and "attempts es (s, c) = (r, bs, s', c')"
  shows "length bs \<le> Suc m - n \<and> (\<forall>b \<in> set bs. same_packet (m_mem (nt_bufmem s) q) b) \<and> r = reported n m acks"
  using assms
proof (induction es arbitrary: s c n acks r bs s' c')
  case Nil
  then show ?case
    by (simp add: reported_def)
next
  case (Cons ef es)
  obtain e f where ef: "ef = (e, f)"
    by (rule prod.exhaust)
  obtain a as where ac: "acks = a # as"
    using Cons.prems(8) by (auto simp: list_all2_Cons1)
  have ok: "env_ok e" "leaves q f" "\<And>b. snd (ev_out e b) = a" "list_all2 (round_ok q) es as"
    using Cons.prems(8) ac ef by (auto simp: round_ok_def [of q "(e, f)" a])
  have fs: "net_inv (f s)" "held_ok (f s) (Some q)" "m_mem (nt_bufmem (f s)) q = m_mem (nt_bufmem s) q"
    using ok(2) Cons.prems(1,2) by (auto simp: leaves_def)
  obtain r1 s1 c1 where sd: "send e (f s) c = (r1, s1, c1)"
    by (metis prod_cases3)
  note st = send_step [OF fs(1,2) Cons.prems(3) ok(1,3) Cons.prems(4-7) sd]
  have tx: "same_packet (m_mem (nt_bufmem s) q) (tx_packet e (f s) c)"
    using tx_packet_spec(4-6) [OF fs(1) _ Cons.prems(3), of e] fs(2,3) Cons.prems(3) by (simp add: same_packet_def)
  show ?case
  proof (cases "m < n")
    case True
    then have "r1 = Timedout (of_nat m)" "transmitted e (f s) c = []"
      using st by simp_all
    with Cons.prems(9) ef sd True show ?thesis
      by (auto simp: reported_def ac)
  next
    case nm: False
    show ?thesis
    proof (cases a)
      case True
      then have r1: "r1 = Sent (of_nat n)" "transmitted e (f s) c = [tx_packet e (f s) c]"
        using st nm by simp_all
      then have "r = Some (Sent (of_nat n))" "bs = [tx_packet e (f s) c]"
        using Cons.prems(9) ef sd by simp_all
      with True nm tx show ?thesis
        by (simp add: reported_def ac)
    next
      case False
      then have s1: "net_inv s1" "held_ok s1 (Some q)" "ru_buf c1 = Some q" "unat (ru_rxmit c1) = Suc n"
          "unat (ru_max_rxmit c1) = m" "m_mem (nt_bufmem s1) q = m_mem (nt_bufmem s) q" "r1 = Rescheduled"
          "transmitted e (f s) c = [tx_packet e (f s) c]"
        using st nm fs(3) Cons.prems(5) by simp_all
      obtain r2 bs2 s2 c2 where at: "attempts es (s1, c1) = (r2, bs2, s2, c2)"
        by (metis prod_cases4)
      have res: "r = r2" "bs = tx_packet e (f s) c # bs2"
        using Cons.prems(9) ef sd s1(7,8) at by simp_all
      have "Suc n \<le> Suc m"
        using nm by simp
      from Cons.IH [OF s1(1-5) Cons.prems(6) this ok(4) at]
      have ih: "length bs2 \<le> Suc m - Suc n" "\<forall>b \<in> set bs2. same_packet (m_mem (nt_bufmem s) q) b"
          "r2 = reported (Suc n) m as"
        using s1(6) by simp_all
      have "reported (Suc n) m as = reported n m acks"
        using False nm by (auto simp: reported_def ac Let_def Suc_diff_le)
      with ih res tx nm show ?thesis
        by simp
    qed
  qed
qed

section \<open>Properties\<close>

text \<open>C32: A packet accepted by \<open>relunicast_send\<close> is handed to the MAC layer at most \<open>max_retransmissions + 1\<close>
  times, each time with the same data, addresses and attributes (only the time stamp is renewed), whatever the rest
  of the node does in between; the client is told exactly once: \<open>sent\<close> with the number of
  unacknowledged attempts before the first acknowledged one, or \<open>timedout\<close> with
  \<open>max_retransmissions\<close> when none of the attempts was acknowledged.\<close>

theorem relunicast_attempts:
  assumes "net_inv s" and "ru_ok s c" and "\<not> packetbuf_is_reference (nt_pb s)"
    and "relunicast_send e s c receiver m esender = (True, s1, c1)" and "unat m < 255"
    and "ru_buf c1 = Some q" and "list_all2 (round_ok q) es acks" and "attempts es (s1, c1) = (r, bs, s2, c2)"
  shows "length bs \<le> unat m + 1 \<and> (\<forall>b \<in> set bs. same_packet (m_mem (nt_bufmem s1) q) b) \<and>
    r = (if length (takeWhile Not acks) < length acks \<and> length (takeWhile Not acks) \<le> unat m
         then Some (Sent (of_nat (length (takeWhile Not acks))))
         else if unat m + 1 < length acks then Some (Timedout m) else None)"
proof -
  have sp: "net_inv s1" "ru_ok s1 c1" "ru_rxmit c1 = 0" "ru_max_rxmit c1 = m"
    using relunicast_send_spec [OF assms(1-4)] by simp_all
  have "held_ok s1 (Some q)"
    using sp(2) assms(6) by (simp add: ru_ok_def)
  from attempts_spec [OF sp(1) this assms(6) _ _ assms(5) _ assms(7,8), of 0] sp show ?thesis
    by (simp add: reported_def Let_def)
qed


definition ru_start :: relunicast_conn where
  "ru_start = \<lparr>ru_timer = None, ru_buf = None, ru_receiver = rimeaddr_null, ru_sndnxt = 0, ru_is_tx = 0, ru_rxmit = 0,
     ru_max_rxmit = 0, ru_esender = rimeaddr_null, ru_time_high = 0, ru_time_low = 0\<rparr>"


lemma ru_start_ok: "ru_ok s ru_start" "ru_bufs ru_start = {}"
  by (simp_all add: ru_ok_def ru_start_def held_ok_def PACKET_IDS_def ru_bufs_def)

definition env_lossy :: env where
  "env_lossy = env_example\<lparr>ev_out := (\<lambda>b. (pb_example, False))\<rparr>"

lemma env_lossy_ok: "env_ok env_lossy"
  using pb_example_inv net_start_pb(2) by (simp add: env_ok_def env_lossy_def env_example_def)

theorem relunicast_attempts_witness:
  "\<exists>s1 c1. relunicast_send env_example net_start ru_start (Rimeaddr 9 0) 2 (Rimeaddr 7 0) = (True, s1, c1) \<and>
     fst (attempts (replicate 4 (env_lossy, \<lambda>s. s)) (s1, c1)) = Some (Timedout 2)"
proof -
  obtain b s1 c1 where rs: "relunicast_send env_example net_start ru_start (Rimeaddr 9 0) 2 (Rimeaddr 7 0) = (b, s1, c1)"
    by (metis prod_cases3)
  have nr: "\<not> packetbuf_is_reference (nt_pb net_start)"
    using net_start_pb by simp
  note sp = relunicast_send_spec [OF net_start_inv ru_start_ok(1) nr rs]
  have "ru_is_tx ru_start = 0" "card (bufs net_start - ru_bufs ru_start) < QUEUEBUF_NUM"
    using pq_start_ok(3) by (simp_all add: ru_start_def QUEUEBUF_NUM_def)
  with sp have b: "b"
    by simp
  with sp obtain q where q: "ru_buf c1 = Some q"
    by (auto simp: ru_ok_def)
  obtain r bs s2 c2 where at: "attempts (replicate 4 (env_lossy, \<lambda>s. s)) (s1, c1) = (r, bs, s2, c2)"
    by (metis prod_cases4)
  have l: "list_all2 (round_ok q) (replicate 4 (env_lossy, \<lambda>s. s)) (replicate 4 False)"
    using env_lossy_ok by (simp add: numeral_eq_Suc round_ok_def leaves_def env_lossy_def)
  have tw: "takeWhile Not (replicate 4 False) = replicate 4 False"
    by (simp add: numeral_eq_Suc)
  from relunicast_attempts [OF net_start_inv ru_start_ok(1) nr _ _ q l at, of env_example "Rimeaddr 9 0" 2 "Rimeaddr 7 0"] rs b
  show ?thesis
    by (simp add: at tw)
qed

end
