(* ===== verification/Neighbor.thy ===== *)
theory Neighbor
  imports Memb Rimeaddr
begin

text \<open>
  The neighbor table of \<open>core/net/rime/neighbor.c\<close>: a pool of \<open>MAX_NEIGHBORS\<close> structures, the list of
  those in use, the remembered parent \<open>last_best\<close> and the lifetime of an entry. Lists of pointers
  are HOL lists here (\<open>Contiki_List\<close> shows that the linked list refines them); a write through a
  pointer is \<open>memb_write\<close>. \<open>neighbor_best\<close> is the routing decision of the collection protocol.
\<close>

section \<open>State\<close>

definition MAX_NEIGHBORS :: nat where "MAX_NEIGHBORS = 16"
definition NEIGHBOR_NUM_ETXS :: nat where "NEIGHBOR_NUM_ETXS = 16"
definition NEIGHBOR_ETX_SCALE :: int where "NEIGHBOR_ETX_SCALE = 1"

text \<open>\<open>RTMETRIC_MAX\<close> is \<open>RELCOLLECT_MAX_DEPTH\<close> (255); \<open>CLOCK_SECOND\<close> is 128 on the sky.\<close>

definition RTMETRIC_MAX :: u16 where "RTMETRIC_MAX = 255"
definition NB_CLOCK_SECOND :: clock_time_t where "NB_CLOCK_SECOND = 128"

record neighbor =
  n_time :: u16
  n_addr :: rimeaddr
  n_rtmetric :: u16
  n_etxptr :: u8
  n_etxs :: "u8 list"

definition zero_neighbor :: neighbor where
  "zero_neighbor = \<lparr>n_time = 0, n_addr = rimeaddr_null, n_rtmetric = 0, n_etxptr = 0,
                    n_etxs = replicate NEIGHBOR_NUM_ETXS 0\<rparr>"

text \<open>
  \<open>nb_max_time\<close> is the bit pattern of the \<open>int\<close> \<open>max_time\<close>: the comparisons with the \<open>uint16_t\<close>
  \<open>time\<close> convert it to unsigned. \<open>nb_ctimer\<close> is the interval the callback timer was last armed with.
\<close>

record nb_state =
  nb_mem :: "neighbor memb"
  nb_list :: "ptr list"
  nb_last_best :: "ptr option"
  nb_max_time :: u16
  nb_ctimer :: "clock_time_t option"

abbreviation nbr :: "nb_state \<Rightarrow> ptr \<Rightarrow> neighbor" where
  "nbr s p \<equiv> m_mem (nb_mem s) p"

definition nb_write :: "nb_state \<Rightarrow> ptr \<Rightarrow> (neighbor \<Rightarrow> neighbor) \<Rightarrow> nb_state" where
  "nb_write s p f = s\<lparr>nb_mem := memb_write (nb_mem s) p f\<rparr>"

text \<open>\<open>list_remove(neighbors_list, n); memb_free(&neighbors_mem, n)\<close>.\<close>

definition nb_release :: "nb_state \<Rightarrow> ptr \<Rightarrow> nb_state" where
  "nb_release s p = s\<lparr>nb_list := remove1 p (nb_list s), nb_mem := snd (memb_free (nb_mem s) p)\<rparr>"

section \<open>Operations\<close>

text \<open>The body of the loop of \<open>periodic\<close> for the neighbor \<open>n\<close>.\<close>

definition periodic_entry :: "nb_state \<Rightarrow> ptr \<Rightarrow> nb_state" where
  "periodic_entry s n =
     (if \<not> rimeaddr_cmp (n_addr (nbr s n)) rimeaddr_null \<and> n_time (nbr s n) < nb_max_time s then
        (let s1 = nb_write s n (\<lambda>x. x\<lparr>n_time := n_time x + 1\<rparr>)
         in if n_time (nbr s1 n) = nb_max_time s1 then
              (let s2 = nb_write s1 n (\<lambda>x. x\<lparr>n_rtmetric := RTMETRIC_MAX,
                                              n_addr := rimeaddr_copy (n_addr x) rimeaddr_null\<rparr>)
               in nb_release s2 n)
            else s1)
      else s)"

text \<open>
  The successor is read before an entry is unlinked, so the loop visits the elements the list has
  when it starts.
\<close>

definition periodic :: "nb_state \<Rightarrow> nb_state" where
  "periodic s = (foldl periodic_entry s (nb_list s))\<lparr>nb_ctimer := Some NB_CLOCK_SECOND\<rparr>"

definition neighbor_init :: "nb_state \<Rightarrow> nb_state" where
  "neighbor_init s = s\<lparr>nb_mem := memb_init zero_neighbor (nb_mem s), nb_list := [],
                       nb_ctimer := Some NB_CLOCK_SECOND\<rparr>"

definition neighbor_find :: "nb_state \<Rightarrow> rimeaddr \<Rightarrow> ptr option" where
  "neighbor_find s a = find (\<lambda>n. rimeaddr_cmp (n_addr (nbr s n)) a) (nb_list s)"

definition neighbor_update :: "nb_state \<Rightarrow> ptr option \<Rightarrow> u8 \<Rightarrow> nb_state" where
  "neighbor_update s n rtmetric =
     (case n of None \<Rightarrow> s | Some p \<Rightarrow> nb_write s p (\<lambda>x. x\<lparr>n_rtmetric := ucast rtmetric, n_time := 0\<rparr>))"

definition etxptr_next :: "u8 \<Rightarrow> u8" where
  "etxptr_next i = of_nat ((unat i + 1) mod NEIGHBOR_NUM_ETXS)"

definition neighbor_timedout_etx :: "nb_state \<Rightarrow> ptr option \<Rightarrow> u8 \<Rightarrow> nb_state" where
  "neighbor_timedout_etx s n etx =
     (case n of None \<Rightarrow> s
      | Some p \<Rightarrow> nb_write s p (\<lambda>x.
          x\<lparr>n_etxs := (n_etxs x)[unat (n_etxptr x) := n_etxs x ! unat (n_etxptr x) + etx],
            n_etxptr := etxptr_next (n_etxptr x)\<rparr>))"

definition neighbor_update_etx :: "nb_state \<Rightarrow> ptr option \<Rightarrow> u8 \<Rightarrow> nb_state" where
  "neighbor_update_etx s n etx =
     (case n of None \<Rightarrow> s
      | Some p \<Rightarrow> nb_write s p (\<lambda>x.
          x\<lparr>n_etxs := (n_etxs x)[unat (n_etxptr x) := etx],
            n_etxptr := etxptr_next (n_etxptr x), n_time := 0\<rparr>))"

text \<open>The sum is at most \<open>16 * 255\<close>, which a 16-bit \<open>int\<close> holds (\<open>etx_sum_le\<close>).\<close>

definition etx_sum :: "neighbor \<Rightarrow> int" where
  "etx_sum n = foldl (\<lambda>etx i. etx + uint (n_etxs n ! i)) 0 [0..<NEIGHBOR_NUM_ETXS]"

definition neighbor_etx :: "neighbor \<Rightarrow> u8" where
  "neighbor_etx n = word_of_int (NEIGHBOR_ETX_SCALE * etx_sum n div int NEIGHBOR_NUM_ETXS)"

text \<open>
  \<open>neighbor_add\<close>: the search for the entry to use, in three stages. The recycling loop reads
  \<open>last_best->addr\<close> without a null check; \<open>na\<close> is what reading the address field through the null
  pointer gives on the target.
\<close>

definition recycle_step :: "nb_state \<Rightarrow> rimeaddr \<Rightarrow> u16 \<times> u16 \<times> ptr option \<Rightarrow> ptr \<Rightarrow> u16 \<times> u16 \<times> ptr option" where
  "recycle_step s lb acc n =
     (case acc of (rtmetric, etx, mx) \<Rightarrow>
        if \<not> rimeaddr_cmp (n_addr (nbr s n)) rimeaddr_null \<and> \<not> rimeaddr_cmp (n_addr (nbr s n)) lb then
          (if n_rtmetric (nbr s n) > rtmetric
           then (n_rtmetric (nbr s n), ucast (neighbor_etx (nbr s n)), Some n)
           else if n_rtmetric (nbr s n) = rtmetric then
             (if ucast (neighbor_etx (nbr s n)) > etx
              then (n_rtmetric (nbr s n), ucast (neighbor_etx (nbr s n)), Some n) else acc)
           else acc)
        else acc)"

definition recycle :: "rimeaddr \<Rightarrow> nb_state \<Rightarrow> ptr option" where
  "recycle na s =
     (let lb = (case nb_last_best s of None \<Rightarrow> na | Some p \<Rightarrow> n_addr (nbr s p))
      in snd (snd (foldl (recycle_step s lb) (0, 0, None) (nb_list s))))"

definition add_slot :: "rimeaddr \<Rightarrow> nb_state \<Rightarrow> rimeaddr \<Rightarrow> ptr option \<times> nb_state" where
  "add_slot na s addr =
     (case find (\<lambda>n. rimeaddr_cmp (n_addr (nbr s n)) rimeaddr_null \<or> rimeaddr_cmp (n_addr (nbr s n)) addr)
             (nb_list s) of
        Some n \<Rightarrow> (Some n, s)
      | None \<Rightarrow>
          (case memb_alloc (nb_mem s) of
             (Some n, m) \<Rightarrow> (Some n, s\<lparr>nb_mem := m, nb_list := nb_list s @ [n]\<rparr>)
           | (None, m) \<Rightarrow> (recycle na (s\<lparr>nb_mem := m\<rparr>), s\<lparr>nb_mem := m\<rparr>)))"

definition neighbor_add :: "rimeaddr \<Rightarrow> nb_state \<Rightarrow> rimeaddr \<Rightarrow> u8 \<Rightarrow> u8 \<Rightarrow> nb_state" where
  "neighbor_add na s addr nrtmetric netx =
     (case add_slot na s addr of
        (None, s1) \<Rightarrow> s1
      | (Some n, s1) \<Rightarrow> nb_write s1 n (\<lambda>x.
          \<lparr>n_time = 0, n_addr = rimeaddr_copy (n_addr x) addr, n_rtmetric = ucast nrtmetric,
           n_etxptr = 0, n_etxs = foldl (\<lambda>es i. es[i := netx]) (n_etxs x) [0..<NEIGHBOR_NUM_ETXS]\<rparr>))"

text \<open>
  \<open>neighbor_remove\<close> compares \<open>&n->addr\<close> with \<open>&last_best\<close>, the address of the pointer variable: the
  comparison reads the first two bytes of the pointer, which is the whole little-endian pointer on
  the MSP430.
\<close>

definition ptr_bytes :: "ptr \<Rightarrow> rimeaddr" where
  "ptr_bytes p = Rimeaddr (of_nat p) (of_nat (p div 256))"

definition neighbor_remove :: "nb_state \<Rightarrow> rimeaddr \<Rightarrow> nb_state" where
  "neighbor_remove s addr =
     (case neighbor_find s addr of
        None \<Rightarrow> s
      | Some n \<Rightarrow>
          (let s1 = (case nb_last_best s of
                       None \<Rightarrow> s
                     | Some lb \<Rightarrow> if rimeaddr_cmp (n_addr (nbr s n)) (ptr_bytes lb)
                                  then s\<lparr>nb_last_best := None\<rparr> else s);
               s2 = nb_write s1 n (\<lambda>x. x\<lparr>n_addr := rimeaddr_copy (n_addr x) rimeaddr_null,
                                          n_rtmetric := RTMETRIC_MAX\<rparr>)
           in nb_release s2 n))"

text \<open>\<open>n->rtmetric + neighbor_etx(n)\<close>, in 16 bits unsigned.\<close>

definition nb_cost :: "neighbor \<Rightarrow> u16" where
  "nb_cost n = n_rtmetric n + ucast (neighbor_etx n)"

definition best_step :: "nb_state \<Rightarrow> u16 \<times> ptr option \<Rightarrow> ptr \<Rightarrow> u16 \<times> ptr option" where
  "best_step s acc n =
     (if \<not> rimeaddr_cmp (n_addr (nbr s n)) rimeaddr_null \<and> fst acc > nb_cost (nbr s n)
      then (nb_cost (nbr s n), Some n) else acc)"

definition neighbor_best :: "nb_state \<Rightarrow> ptr option \<times> nb_state" where
  "neighbor_best s =
     (case foldl (best_step s) (RTMETRIC_MAX, None) (nb_list s) of
        (rtmetric, best) \<Rightarrow>
          (case nb_last_best s of
             None \<Rightarrow> (best, s\<lparr>nb_last_best := best\<rparr>)
           | Some lb \<Rightarrow>
               if \<not> (rtmetric + 2 < nb_cost (nbr s lb)) then (Some lb, s)
               else (best, s\<lparr>nb_last_best := best\<rparr>)))"

definition neighbor_set_lifetime :: "nb_state \<Rightarrow> int \<Rightarrow> nb_state" where
  "neighbor_set_lifetime s seconds = s\<lparr>nb_max_time := word_of_int seconds\<rparr>"

definition neighbor_num :: "nb_state \<Rightarrow> nat" where
  "neighbor_num s = length (nb_list s)"

definition neighbor_get :: "nb_state \<Rightarrow> int \<Rightarrow> ptr option" where
  "neighbor_get s num =
     (if 0 \<le> num \<and> nat num < length (nb_list s) then Some (nb_list s ! nat num) else None)"

section \<open>Bounds\<close>

lemma upt16: "[0..<16] = [0, 1, 2, 3, 4, 5, 6, 7, 8, 9, 10, 11, 12, 13, 14, 15 :: nat]"
  by (simp add: upt_rec)

lemma foldl_sum_list: "foldl (\<lambda>a i. a + f i) (c :: int) xs = c + sum_list (map f xs)"
  by (induction xs arbitrary: c) simp_all

lemma etx_sum_alt: "length (n_etxs n) = 16 \<Longrightarrow> etx_sum n = sum_list (map uint (n_etxs n))"
proof -
  assume "length (n_etxs n) = 16"
  then have "map (\<lambda>i. uint (n_etxs n ! i)) [0..<16] = map uint (n_etxs n)"
    by (intro nth_equalityI) simp_all
  then show ?thesis
    by (simp add: etx_sum_def NEIGHBOR_NUM_ETXS_def foldl_sum_list)
qed

lemma sum_list_bounds:
  "(\<And>x. x \<in> set xs \<Longrightarrow> 0 \<le> f x \<and> f x \<le> (b :: int)) \<Longrightarrow>
   0 \<le> sum_list (map f xs) \<and> sum_list (map f xs) \<le> b * int (length xs)"
  by (induction xs) (fastforce simp: algebra_simps)+

lemma etx_sum_le: "0 \<le> etx_sum n \<and> etx_sum n \<le> 4080"
proof -
  have "0 \<le> uint (w :: u8) \<and> uint w \<le> 255" for w
    using uint_lt2p [of w] by simp
  then have "0 \<le> sum_list (map (\<lambda>i. uint (n_etxs n ! i)) [0..<16]) \<and>
      sum_list (map (\<lambda>i. uint (n_etxs n ! i)) [0..<16]) \<le> 255 * int (length [0..<16])"
    by (intro sum_list_bounds) blast
  then show ?thesis
    by (simp add: etx_sum_def NEIGHBOR_NUM_ETXS_def foldl_sum_list)
qed

text \<open>The conversion of the average to \<open>uint8_t\<close> loses nothing.\<close>

lemma uint_neighbor_etx: "uint (neighbor_etx n) = etx_sum n div 16"
proof -
  have "0 \<le> etx_sum n div 16" "etx_sum n div 16 < 256"
    using etx_sum_le [of n] by auto
  then show ?thesis
    by (simp add: neighbor_etx_def NEIGHBOR_ETX_SCALE_def NEIGHBOR_NUM_ETXS_def unsigned_of_int
        take_bit_eq_mod mod_pos_pos_trivial)
qed

lemma unat_ucast8 [simp]: "unat (ucast (w :: u8) :: u16) = unat w"
proof -
  have "unat w < 65536"
    using unat8_less [of w] by linarith
  then show ?thesis
    by (simp add: unsigned_ucast_eq take_bit_eq_mod)
qed

text \<open>The number \<open>n->rtmetric + neighbor_etx(n)\<close> stands for, when it does not wrap around.\<close>

definition cost :: "neighbor \<Rightarrow> nat" where
  "cost n = unat (n_rtmetric n) + unat (neighbor_etx n)"

lemma unat_nb_cost: "unat (n_rtmetric n) \<le> 255 \<Longrightarrow> unat (nb_cost n) = cost n"
proof -
  assume le: "unat (n_rtmetric n) \<le> 255"
  have "unat (neighbor_etx n) < 256"
    by simp
  with le have "unat (n_rtmetric n) + unat (neighbor_etx n) < 65536"
    by linarith
  then have "unat (n_rtmetric n) + unat (ucast (neighbor_etx n) :: u16) < 2 ^ LENGTH(16)"
    by simp
  then have "unat (n_rtmetric n + ucast (neighbor_etx n)) = unat (n_rtmetric n) + unat (ucast (neighbor_etx n) :: u16)"
    using unat_add_lem by blast
  then show ?thesis
    by (simp add: nb_cost_def cost_def)
qed

section \<open>The invariant\<close>

definition entry_ok :: "neighbor \<Rightarrow> bool" where
  "entry_ok x \<longleftrightarrow> length (n_etxs x) = NEIGHBOR_NUM_ETXS \<and> unat (n_etxptr x) < NEIGHBOR_NUM_ETXS \<and>
                 unat (n_rtmetric x) \<le> 255"

definition nb_inv :: "nb_state \<Rightarrow> bool" where
  "nb_inv s \<longleftrightarrow> memb_wf (nb_mem s) \<and> m_num (nb_mem s) = MAX_NEIGHBORS \<and>
     distinct (nb_list s) \<and> set (nb_list s) = in_use (nb_mem s) \<and>
     (\<forall>p. entry_ok (nbr s p)) \<and>
     (\<forall>p \<in> set (nb_list s). n_addr (nbr s p) \<noteq> rimeaddr_null) \<and>
     inj_on (\<lambda>p. n_addr (nbr s p)) (set (nb_list s))"

text \<open>The fields of an entry other than its address may be rewritten freely.\<close>

lemma nbr_write [simp]: "nbr (nb_write s p f) q = (if q = p then f (nbr s p) else nbr s q)"
  by (simp add: nb_write_def)

lemma nb_write_simps [simp]:
  "nb_list (nb_write s p f) = nb_list s" "nb_last_best (nb_write s p f) = nb_last_best s"
  "nb_max_time (nb_write s p f) = nb_max_time s" "in_use (nb_mem (nb_write s p f)) = in_use (nb_mem s)"
  "memb_wf (nb_mem (nb_write s p f)) = memb_wf (nb_mem s)" "m_num (nb_mem (nb_write s p f)) = m_num (nb_mem s)"
  by (simp_all add: nb_write_def)

lemma nb_inv_write:
  assumes "nb_inv s" and "n_addr (f (nbr s p)) = n_addr (nbr s p)" and "entry_ok (nbr s p) \<Longrightarrow> entry_ok (f (nbr s p))"
  shows "nb_inv (nb_write s p f)"
proof -
  have eq: "(\<lambda>q. n_addr (nbr (nb_write s p f) q)) = (\<lambda>q. n_addr (nbr s q))"
    using assms(2) by (intro ext) simp
  have "\<forall>q. entry_ok (nbr (nb_write s p f) q)"
    using assms(1,3) by (simp add: nb_inv_def)
  moreover have "\<forall>q \<in> set (nb_list s). n_addr (nbr (nb_write s p f) q) \<noteq> rimeaddr_null"
    using assms(1) fun_cong [OF eq] by (simp add: nb_inv_def)
  ultimately show ?thesis
    using assms(1) unfolding nb_inv_def eq nb_write_simps by blast
qed

lemma nb_inv_release:
  assumes inv: "memb_wf (nb_mem s)" "m_num (nb_mem s) = MAX_NEIGHBORS" "distinct (nb_list s)"
      "set (nb_list s) = in_use (nb_mem s)" "\<forall>q. entry_ok (nbr s q)"
      "\<forall>q \<in> set (nb_list s) - {p}. n_addr (nbr s q) \<noteq> rimeaddr_null"
      "inj_on (\<lambda>q. n_addr (nbr s q)) (set (nb_list s) - {p})"
    and p: "p \<in> set (nb_list s)"
  shows "nb_inv (nb_release s p)"
proof -
  note fr = memb_free_blk [OF inv(1), of p]
  show ?thesis
    using inv p fr by (simp add: nb_inv_def nb_release_def)
qed

text \<open>Clearing an entry's address and releasing it, as \<open>periodic\<close> and \<open>neighbor_remove\<close> do.\<close>

lemma nb_inv_drop:
  assumes inv: "nb_inv s" and p: "p \<in> set (nb_list s)" and f: "entry_ok (f (nbr s p))"
  shows "nb_inv (nb_release (nb_write s p f) p)"
proof (rule nb_inv_release)
  have "inj_on (\<lambda>q. n_addr (nbr s q)) (set (nb_list s) - {p})"
    using inv inj_on_diff unfolding nb_inv_def by blast
  moreover have "inj_on (\<lambda>q. n_addr (nbr (nb_write s p f) q)) (set (nb_list s) - {p}) =
      inj_on (\<lambda>q. n_addr (nbr s q)) (set (nb_list s) - {p})"
    by (rule inj_on_cong) simp
  ultimately show "inj_on (\<lambda>q. n_addr (nbr (nb_write s p f) q)) (set (nb_list (nb_write s p f)) - {p})"
    by simp
qed (use inv p f in \<open>auto simp: nb_inv_def\<close>)

section \<open>Ageing\<close>

lemma remove1_filter: "distinct xs \<Longrightarrow> remove1 x xs = filter (\<lambda>y. y \<noteq> x) xs"
  by (simp add: distinct_remove1_removeAll removeAll_filter_not_eq eq_commute)

definition expires :: "nb_state \<Rightarrow> ptr \<Rightarrow> bool" where
  "expires s p \<longleftrightarrow> n_time (nbr s p) < nb_max_time s \<and> n_time (nbr s p) + 1 = nb_max_time s"

definition aged :: "nb_state \<Rightarrow> neighbor \<Rightarrow> neighbor" where
  "aged s x = (if n_time x < nb_max_time s then x\<lparr>n_time := n_time x + 1\<rparr> else x)"

lemma periodic_entry_alt:
  "n_addr (nbr s p) \<noteq> rimeaddr_null \<Longrightarrow>
   periodic_entry s p =
     (if expires s p
      then nb_release (nb_write s p (\<lambda>x. x\<lparr>n_time := n_time x + 1, n_rtmetric := RTMETRIC_MAX,
                                          n_addr := rimeaddr_null\<rparr>)) p
      else nb_write s p (aged s))"
  by (cases "n_time (nbr s p) < nb_max_time s")
    (auto simp: periodic_entry_def expires_def aged_def Let_def nb_write_def memb_write_def nb_release_def)

lemma entry_ok_time [simp]: "entry_ok (x\<lparr>n_time := t\<rparr>) = entry_ok x"
  by (simp add: entry_ok_def)

lemma entry_ok_aged [simp]: "entry_ok (aged s x) = entry_ok x" "n_addr (aged s x) = n_addr x"
  by (simp_all add: aged_def)

lemma entry_ok_dropped: "entry_ok x \<Longrightarrow> entry_ok (x\<lparr>n_time := t, n_rtmetric := RTMETRIC_MAX, n_addr := a\<rparr>)"
  by (simp add: entry_ok_def RTMETRIC_MAX_def)

lemma nb_release_simps [simp]:
  "nb_list (nb_release s p) = remove1 p (nb_list s)" "nb_last_best (nb_release s p) = nb_last_best s"
  "nb_max_time (nb_release s p) = nb_max_time s"
  by (simp_all add: nb_release_def)

lemma memb_free_mem [simp]: "memb_wf m \<Longrightarrow> m_mem (snd (memb_free m p)) = m_mem m"
  by (cases "p \<in> in_use m") (simp_all add: memb_free_blk(4) memb_free_unused)

lemma nbr_release [simp]: "memb_wf (nb_mem s) \<Longrightarrow> nbr (nb_release s p) q = nbr s q"
  by (simp add: nb_release_def)

text \<open>One step of the loop.\<close>

lemma periodic_entry_step:
  assumes inv: "nb_inv s" and p: "p \<in> set (nb_list s)"
  shows "nb_inv (periodic_entry s p)"
    and "nb_list (periodic_entry s p) = filter (\<lambda>q. q = p \<longrightarrow> \<not> expires s p) (nb_list s)"
    and "q \<noteq> p \<Longrightarrow> nbr (periodic_entry s p) q = nbr s q"
    and "\<not> expires s p \<Longrightarrow> nbr (periodic_entry s p) p = aged s (nbr s p)"
    and "nb_max_time (periodic_entry s p) = nb_max_time s"
    and "nb_last_best (periodic_entry s p) = nb_last_best s"
proof -
  have nn: "n_addr (nbr s p) \<noteq> rimeaddr_null" and ok: "entry_ok (nbr s p)"
    and d: "distinct (nb_list s)" and wf: "memb_wf (nb_mem s)"
    using inv p by (auto simp: nb_inv_def)
  note alt = periodic_entry_alt [OF nn]
  show "nb_inv (periodic_entry s p)"
    using nb_inv_drop [OF inv p] nb_inv_write [OF inv] entry_ok_dropped [OF ok]
    by (simp add: alt)
  show "nb_list (periodic_entry s p) = filter (\<lambda>q. q = p \<longrightarrow> \<not> expires s p) (nb_list s)"
    using remove1_filter [OF d, of p] by (auto simp: alt intro!: filter_cong)
  show "q \<noteq> p \<Longrightarrow> nbr (periodic_entry s p) q = nbr s q"
    using wf by (simp add: alt)
  show "\<not> expires s p \<Longrightarrow> nbr (periodic_entry s p) p = aged s (nbr s p)"
    by (simp add: alt)
  show "nb_max_time (periodic_entry s p) = nb_max_time s" "nb_last_best (periodic_entry s p) = nb_last_best s"
    by (simp_all add: alt)
qed

lemma periodic_fold:
  assumes "nb_inv s" and "distinct ps" and "set ps \<subseteq> set (nb_list s)"
  shows "nb_inv (foldl periodic_entry s ps) \<and>
    nb_list (foldl periodic_entry s ps) = filter (\<lambda>q. q \<in> set ps \<longrightarrow> \<not> expires s q) (nb_list s) \<and>
    (\<forall>q \<in> set ps. \<not> expires s q \<longrightarrow> nbr (foldl periodic_entry s ps) q = aged s (nbr s q)) \<and>
    (\<forall>q. q \<notin> set ps \<longrightarrow> nbr (foldl periodic_entry s ps) q = nbr s q) \<and>
    nb_max_time (foldl periodic_entry s ps) = nb_max_time s \<and>
    nb_last_best (foldl periodic_entry s ps) = nb_last_best s"
  using assms
proof (induction ps arbitrary: s)
  case (Cons p ps)
  then have p: "p \<in> set (nb_list s)" and d: "p \<notin> set ps" "distinct ps"
    by auto
  note st = periodic_entry_step [OF Cons.prems(1) p]
  have sub: "set ps \<subseteq> set (nb_list (periodic_entry s p))"
    using Cons.prems(3) d by (auto simp: st(2))
  have same: "expires (periodic_entry s p) q = expires s q" if "q \<noteq> p" for q
    using that by (simp add: expires_def st)
  have aged: "aged (periodic_entry s p) = aged s"
    by (intro ext) (simp add: aged_def st)
  note ih = Cons.IH [OF st(1) d(2) sub]
  let ?e = "periodic_entry s p"
  have same': "q \<in> set ps \<Longrightarrow> expires ?e q = expires s q" for q
    using same d(1) by metis
  have "nb_list (foldl periodic_entry ?e ps) =
      filter (\<lambda>q. (q = p \<longrightarrow> \<not> expires s p) \<and> (q \<in> set ps \<longrightarrow> \<not> expires ?e q)) (nb_list s)"
    using ih by (simp add: st(2))
  also have "\<dots> = filter (\<lambda>q. q \<in> set (p # ps) \<longrightarrow> \<not> expires s q) (nb_list s)"
    by (rule filter_cong) (use same' d in auto)
  finally have l: "nb_list (foldl periodic_entry s (p # ps)) = filter (\<lambda>q. q \<in> set (p # ps) \<longrightarrow> \<not> expires s q) (nb_list s)"
    by simp
  have n: "\<forall>q \<in> set (p # ps). \<not> expires s q \<longrightarrow> nbr (foldl periodic_entry s (p # ps)) q = aged s (nbr s q)"
  proof (intro ballI impI)
    fix q assume q: "q \<in> set (p # ps)" "\<not> expires s q"
    show "nbr (foldl periodic_entry s (p # ps)) q = aged s (nbr s q)"
    proof (cases "q = p")
      case True
      with ih d have "nbr (foldl periodic_entry s (p # ps)) p = nbr ?e p"
        by simp
      with True st(4) q show ?thesis
        by simp
    next
      case False
      then have "nbr (foldl periodic_entry ?e ps) q = aged ?e (nbr ?e q)"
        using ih q same [OF False] by simp
      with False st(3) aged show ?thesis
        by simp
    qed
  qed
  have "\<forall>q. q \<notin> set (p # ps) \<longrightarrow> nbr (foldl periodic_entry s (p # ps)) q = nbr s q"
    using ih st(3) by simp
  with ih st l n show ?case
    by simp
qed auto

lemma nb_inv_ctimer [simp]: "nb_inv (s\<lparr>nb_ctimer := c\<rparr>) = nb_inv s"
  by (simp add: nb_inv_def)

lemma nb_inv_distinct: "nb_inv s \<Longrightarrow> distinct (nb_list s)"
  by (simp add: nb_inv_def)

lemma periodic_inv: "nb_inv s \<Longrightarrow> nb_inv (periodic s)"
  using periodic_fold [of s "nb_list s"] nb_inv_distinct by (simp add: periodic_def)

lemma periodic_spec:
  assumes "nb_inv s"
  shows "nb_list (periodic s) = filter (\<lambda>q. \<not> expires s q) (nb_list s)"
    and "q \<in> set (nb_list (periodic s)) \<Longrightarrow> nbr (periodic s) q = aged s (nbr s q)"
    and "nb_max_time (periodic s) = nb_max_time s"
    and "nb_last_best (periodic s) = nb_last_best s"
proof -
  note pf = periodic_fold [OF assms nb_inv_distinct [OF assms] subset_refl]
  show l: "nb_list (periodic s) = filter (\<lambda>q. \<not> expires s q) (nb_list s)"
    using pf by (auto simp: periodic_def intro!: filter_cong)
  show "nb_max_time (periodic s) = nb_max_time s" "nb_last_best (periodic s) = nb_last_best s"
    using pf by (simp_all add: periodic_def)
  assume "q \<in> set (nb_list (periodic s))"
  then have "q \<in> set (nb_list s)" "\<not> expires s q"
    using l by auto
  then show "nbr (periodic s) q = aged s (nbr s q)"
    using pf by (simp add: periodic_def)
qed

lemma unat_Suc_lt: "a < b \<Longrightarrow> unat ((a :: u16) + 1) = unat a + 1"
proof -
  assume "a < b"
  then have "unat a < unat b" "unat b < 65536"
    by (simp_all add: word_less_nat_alt)
  then have "unat a + 1 < 65536"
    by linarith
  then have "unat a + unat (1 :: u16) < 2 ^ LENGTH(16)"
    by simp
  then have "unat (a + 1) = unat a + unat (1 :: u16)"
    using unat_add_lem by blast
  then show ?thesis
    by simp
qed

text \<open>An entry survives exactly as long as its age stays below the lifetime.\<close>

lemma periodic_pow:
  assumes inv: "nb_inv s" and p: "p \<in> set (nb_list s)" and t: "n_time (nbr s p) < nb_max_time s"
  shows "nb_inv ((periodic ^^ k) s) \<and> nb_max_time ((periodic ^^ k) s) = nb_max_time s \<and>
    (p \<in> set (nb_list ((periodic ^^ k) s)) \<longleftrightarrow> unat (n_time (nbr s p)) + k < unat (nb_max_time s)) \<and>
    (p \<in> set (nb_list ((periodic ^^ k) s)) \<longrightarrow>
       unat (n_time (nbr ((periodic ^^ k) s) p)) = unat (n_time (nbr s p)) + k)"
proof (induction k)
  case 0
  with inv p t show ?case
    by (simp add: word_less_nat_alt)
next
  case (Suc k)
  let ?s = "(periodic ^^ k) s"
  have inv': "nb_inv ?s" and mx: "nb_max_time ?s = nb_max_time s"
    using Suc by auto
  note sp = periodic_spec [OF inv']
  show ?case
  proof (cases "p \<in> set (nb_list ?s)")
    case True
    with Suc have lt: "unat (n_time (nbr s p)) + k < unat (nb_max_time s)"
      and tm: "unat (n_time (nbr ?s p)) = unat (n_time (nbr s p)) + k"
      by auto
    then have lt': "n_time (nbr ?s p) < nb_max_time ?s"
      by (simp add: word_less_nat_alt mx)
    note us = unat_Suc_lt [OF lt']
    have ex: "expires ?s p \<longleftrightarrow> unat (n_time (nbr s p)) + Suc k = unat (nb_max_time s)"
      using lt' us tm unfolding expires_def mx by (auto simp: word_unat_eq_iff)
    have ag: "n_time (aged ?s (nbr ?s p)) = n_time (nbr ?s p) + 1"
      using lt' by (simp add: aged_def)
    from True ex lt have mem: "p \<in> set (nb_list (periodic ?s)) \<longleftrightarrow> unat (n_time (nbr s p)) + Suc k < unat (nb_max_time s)"
      by (auto simp: sp(1))
    have "p \<in> set (nb_list (periodic ?s)) \<longrightarrow> unat (n_time (nbr (periodic ?s) p)) = unat (n_time (nbr s p)) + Suc k"
      using sp(2) [of p] ag us tm by simp
    with mem sp(3) mx periodic_inv [OF inv'] show ?thesis
      by simp
  next
    case False
    with Suc have "\<not> unat (n_time (nbr s p)) + k < unat (nb_max_time s)"
      by auto
    with False sp mx periodic_inv [OF inv'] show ?thesis
      by simp
  qed
qed

section \<open>Adding and removing\<close>

lemma recycle_fold:
  "snd (snd (foldl (recycle_step s lb) acc ps)) = Some n \<Longrightarrow>
   (\<forall>q. snd (snd acc) = Some q \<longrightarrow> n_addr (nbr s q) \<noteq> lb \<and> q \<in> A) \<Longrightarrow> set ps \<subseteq> A \<Longrightarrow>
   n_addr (nbr s n) \<noteq> lb \<and> n \<in> A"
proof (induction ps arbitrary: acc)
  case (Cons p ps)
  have "\<forall>q. snd (snd (recycle_step s lb acc p)) = Some q \<longrightarrow> n_addr (nbr s q) \<noteq> lb \<and> q \<in> A"
    using Cons.prems by (auto simp: recycle_step_def split: prod.splits if_splits)
  with Cons show ?case
    by simp
qed auto

text \<open>Recycling takes an entry of the table, and never the remembered parent's.\<close>

lemma recycle_Some:
  assumes "recycle na s = Some n"
  shows "n \<in> set (nb_list s)" and "nb_last_best s = Some p \<Longrightarrow> n_addr (nbr s n) \<noteq> n_addr (nbr s p)"
  using assms recycle_fold [of s _ "(0, 0, None)" "nb_list s" n "set (nb_list s)"]
  by (auto simp: recycle_def Let_def)

lemma find_None_all: "find P xs = None \<Longrightarrow> x \<in> set xs \<Longrightarrow> \<not> P x"
  by (auto simp: find_None_iff)

lemma add_slot_Some:
  assumes inv: "nb_inv s" and sl: "add_slot na s addr = (Some n, s1)"
  shows "memb_wf (nb_mem s1)" "m_num (nb_mem s1) = MAX_NEIGHBORS" "distinct (nb_list s1)"
    "set (nb_list s1) = in_use (nb_mem s1)" "n \<in> set (nb_list s1)" "nbr s1 = nbr s"
    "set (nb_list s1) = insert n (set (nb_list s))" "nb_last_best s1 = nb_last_best s"
    "\<And>q. q \<in> set (nb_list s) \<Longrightarrow> q \<noteq> n \<Longrightarrow> n_addr (nbr s q) \<noteq> addr"
proof -
  let ?P = "\<lambda>n. rimeaddr_cmp (n_addr (nbr s n)) rimeaddr_null \<or> rimeaddr_cmp (n_addr (nbr s n)) addr"
  have nn: "\<And>q. q \<in> set (nb_list s) \<Longrightarrow> n_addr (nbr s q) \<noteq> rimeaddr_null"
    and inj: "inj_on (\<lambda>p. n_addr (nbr s p)) (set (nb_list s))" and wf: "memb_wf (nb_mem s)"
    and num: "m_num (nb_mem s) = MAX_NEIGHBORS" and d: "distinct (nb_list s)"
    and us: "set (nb_list s) = in_use (nb_mem s)"
    using inv by (auto simp: nb_inv_def)
  consider (found) "find ?P (nb_list s) = Some n" "s1 = s"
    | (new) m where "find ?P (nb_list s) = None" "memb_alloc (nb_mem s) = (Some n, m)"
        "s1 = s\<lparr>nb_mem := m, nb_list := nb_list s @ [n]\<rparr>"
    | (old) "find ?P (nb_list s) = None" "memb_alloc (nb_mem s) = (None, nb_mem s)"
        "recycle na s = Some n" "s1 = s"
    using sl memb_alloc_None(1) [OF wf] unfolding add_slot_def
    by (fastforce split: option.splits prod.splits)
  then have "memb_wf (nb_mem s1) \<and> m_num (nb_mem s1) = MAX_NEIGHBORS \<and> distinct (nb_list s1) \<and>
    set (nb_list s1) = in_use (nb_mem s1) \<and> n \<in> set (nb_list s1) \<and> nbr s1 = nbr s \<and>
    set (nb_list s1) = insert n (set (nb_list s)) \<and> nb_last_best s1 = nb_last_best s \<and>
    (\<forall>q \<in> set (nb_list s). q \<noteq> n \<longrightarrow> n_addr (nbr s q) \<noteq> addr)"
  proof cases
    case found
    then have n: "n \<in> set (nb_list s)" "?P n"
      by (auto simp: find_Some_iff)
    with nn have "n_addr (nbr s n) = addr"
      by auto
    with inj n(1) have "\<forall>q \<in> set (nb_list s). q \<noteq> n \<longrightarrow> n_addr (nbr s q) \<noteq> addr"
      by (auto dest: inj_onD)
    with found n wf num d us show ?thesis
      by auto
  next
    case new
    with memb_alloc_Some [OF wf new(2)] find_None_all [OF new(1)] wf num d us show ?thesis
      by auto
  next
    case old
    with recycle_Some(1) [OF old(3)] find_None_all [OF old(1)] wf num d us show ?thesis
      by auto
  qed
  then show "memb_wf (nb_mem s1)" "m_num (nb_mem s1) = MAX_NEIGHBORS" "distinct (nb_list s1)"
    "set (nb_list s1) = in_use (nb_mem s1)" "n \<in> set (nb_list s1)" "nbr s1 = nbr s"
    "set (nb_list s1) = insert n (set (nb_list s))" "nb_last_best s1 = nb_last_best s"
    "\<And>q. q \<in> set (nb_list s) \<Longrightarrow> q \<noteq> n \<Longrightarrow> n_addr (nbr s q) \<noteq> addr"
    by blast+
qed

lemma add_slot_keeps_parent:
  assumes inv: "nb_inv s" and sl: "add_slot na s addr = (Some n, s1)"
    and lb: "nb_last_best s = Some n" "n \<in> set (nb_list s)"
  shows "n_addr (nbr s n) = addr"
proof -
  have wf: "memb_wf (nb_mem s)" and us: "set (nb_list s) = in_use (nb_mem s)"
    and nn: "n_addr (nbr s n) \<noteq> rimeaddr_null"
    using inv lb(2) by (auto simp: nb_inv_def)
  consider "rimeaddr_cmp (n_addr (nbr s n)) rimeaddr_null \<or> rimeaddr_cmp (n_addr (nbr s n)) addr"
    | m where "memb_alloc (nb_mem s) = (Some n, m)"
    | "recycle na s = Some n"
    using sl memb_alloc_None(1) [OF wf] unfolding add_slot_def
    by (fastforce simp: find_Some_iff split: option.splits prod.splits)
  then show ?thesis
  proof cases
    case (2 m)
    with memb_alloc_Some(1) [OF wf 2] us lb(2) show ?thesis
      by simp
  qed (use nn recycle_Some(2) [OF _ lb(1)] in auto)
qed

lemma foldl_fill_length [simp]: "length (foldl (\<lambda>es i. es[i := e]) xs is) = length xs"
  by (induction "is" arbitrary: xs) simp_all

lemma foldl_fill: "length xs = 16 \<Longrightarrow> foldl (\<lambda>es i. es[i := e]) xs [0..<NEIGHBOR_NUM_ETXS] = replicate 16 e"
  by (intro nth_equalityI) (auto simp: NEIGHBOR_NUM_ETXS_def upt16 nth_list_update less_Suc_eq numeral_eq_Suc)

lemma ucast8_le [simp]: "unat (ucast (w :: u8) :: u16) \<le> 255"
proof -
  have "unat w < 256"
    by simp
  then show ?thesis
    unfolding unat_ucast8 by linarith
qed

definition new_entry :: "rimeaddr \<Rightarrow> u8 \<Rightarrow> u8 \<Rightarrow> neighbor" where
  "new_entry addr rt etx = \<lparr>n_time = 0, n_addr = addr, n_rtmetric = ucast rt, n_etxptr = 0,
                           n_etxs = replicate 16 etx\<rparr>"

lemma entry_ok_new [simp]: "entry_ok (new_entry a r e)"
  by (simp add: entry_ok_def new_entry_def NEIGHBOR_NUM_ETXS_def del: unat_ucast8)

lemma neighbor_add_alt:
  assumes "nb_inv s" and sl: "add_slot na s addr = (Some n, s1)"
  shows "neighbor_add na s addr rt etx = nb_write s1 n (\<lambda>_. new_entry addr rt etx)"
proof -
  have "\<forall>q. entry_ok (nbr s q)"
    using assms(1) by (simp add: nb_inv_def)
  then have "length (n_etxs (nbr s1 n)) = 16"
    using add_slot_Some(6) [OF assms] by (simp add: entry_ok_def NEIGHBOR_NUM_ETXS_def)
  then show ?thesis
    by (simp add: neighbor_add_def sl nb_write_def memb_write_def new_entry_def foldl_fill)
qed

lemma neighbor_add_inv:
  assumes inv: "nb_inv s" and a: "addr \<noteq> rimeaddr_null"
  shows "nb_inv (neighbor_add na s addr rt etx)"
proof (cases "add_slot na s addr")
  case (Pair n s1)
  show ?thesis
  proof (cases n)
    case None
    have "s1 = s"
      using Pair None memb_alloc_None(1) inv
      by (fastforce simp: add_slot_def nb_inv_def split: option.splits prod.splits)
    with Pair None inv show ?thesis
      by (simp add: neighbor_add_def)
  next
    case (Some p)
    note sl = add_slot_Some [OF inv Pair [unfolded Some]]
    have inj: "inj_on (\<lambda>q. n_addr (nbr s q)) (set (nb_list s))"
      and nn: "\<forall>q \<in> set (nb_list s). n_addr (nbr s q) \<noteq> rimeaddr_null" and ok: "\<forall>q. entry_ok (nbr s q)"
      using inv by (auto simp: nb_inv_def)
    let ?s = "nb_write s1 p (\<lambda>_. new_entry addr rt etx)"
    have adr: "n_addr (nbr ?s q) = (if q = p then addr else n_addr (nbr s q))" for q
      by (simp add: sl(6) new_entry_def)
    have "inj_on (\<lambda>q. n_addr (nbr ?s q)) (set (nb_list s1))"
      unfolding inj_on_def adr sl(7) using sl(9) inj by (auto dest: inj_onD)
    moreover have "\<forall>q \<in> set (nb_list s1). n_addr (nbr ?s q) \<noteq> rimeaddr_null"
      unfolding adr sl(7) using nn a by auto
    moreover have "\<forall>q. entry_ok (nbr ?s q)"
      using ok by (simp add: sl(6))
    ultimately have "nb_inv ?s"
      using sl(1-4) unfolding nb_inv_def nb_write_simps by blast
    then show ?thesis
      using neighbor_add_alt [OF inv Pair [unfolded Some]] by simp
  qed
qed

text \<open>What a lookup returns.\<close>

lemma neighbor_find_Some:
  "neighbor_find s a = Some p \<Longrightarrow> p \<in> set (nb_list s) \<and> n_addr (nbr s p) = a"
  by (auto simp: neighbor_find_def find_Some_iff)

lemma neighbor_find_iff:
  assumes "nb_inv s"
  shows "neighbor_find s a = Some p \<longleftrightarrow> p \<in> set (nb_list s) \<and> n_addr (nbr s p) = a"
proof
  assume p: "p \<in> set (nb_list s) \<and> n_addr (nbr s p) = a"
  then obtain q where q: "neighbor_find s a = Some q"
    by (cases "neighbor_find s a") (auto simp: neighbor_find_def find_None_iff)
  from neighbor_find_Some [OF q] p assms have "q = p"
    by (auto simp: nb_inv_def dest: inj_onD)
  with q show "neighbor_find s a = Some p"
    by simp
qed (rule neighbor_find_Some)

lemma neighbor_find_None: "neighbor_find s a = None \<longleftrightarrow> (\<forall>p \<in> set (nb_list s). n_addr (nbr s p) \<noteq> a)"
  by (auto simp: neighbor_find_def find_None_iff)

lemma neighbor_remove_alt:
  assumes "neighbor_find s a = Some p"
  shows "neighbor_remove s a =
    nb_release (nb_write (if (\<exists>lb. nb_last_best s = Some lb \<and> ptr_bytes lb = a)
                          then s\<lparr>nb_last_best := None\<rparr> else s) p
      (\<lambda>x. x\<lparr>n_addr := rimeaddr_null, n_rtmetric := RTMETRIC_MAX\<rparr>)) p"
  using assms neighbor_find_Some [OF assms]
  by (auto simp: neighbor_remove_def Let_def split: option.splits)

lemma nb_inv_last_best [simp]: "nb_inv (s\<lparr>nb_last_best := b\<rparr>) = nb_inv s"
  by (simp add: nb_inv_def)

lemma neighbor_remove_inv:
  assumes inv: "nb_inv s"
  shows "nb_inv (neighbor_remove s a)"
proof (cases "neighbor_find s a")
  case None
  with inv show ?thesis
    by (simp add: neighbor_remove_def)
next
  case (Some p)
  note fp = neighbor_find_Some [OF Some]
  have e: "entry_ok (nbr s p\<lparr>n_addr := rimeaddr_null, n_rtmetric := RTMETRIC_MAX\<rparr>)"
    using inv by (simp add: nb_inv_def entry_ok_def RTMETRIC_MAX_def)
  show ?thesis
    unfolding neighbor_remove_alt [OF Some]
    by (rule nb_inv_drop) (use inv fp e in auto)
qed

section \<open>The routing decision\<close>

lemma nbr_rtmetric: "nb_inv s \<Longrightarrow> unat (n_rtmetric (nbr s p)) \<le> 255"
  by (simp add: nb_inv_def entry_ok_def)

lemma best_fold:
  assumes inv: "nb_inv s"
  shows "set ps \<subseteq> set (nb_list s) \<Longrightarrow> foldl (best_step s) (rt, b) ps = (rt', b') \<Longrightarrow>
    rt' \<le> rt \<and> (\<forall>q \<in> set ps. unat rt' \<le> cost (nbr s q)) \<and>
    (b' = b \<and> rt' = rt \<or> (\<exists>p. b' = Some p \<and> p \<in> set ps \<and> unat rt' = cost (nbr s p) \<and> rt' < rt))"
proof (induction ps arbitrary: rt b)
  case (Cons p ps)
  then have nn: "n_addr (nbr s p) \<noteq> rimeaddr_null" and c: "unat (nb_cost (nbr s p)) = cost (nbr s p)"
    using inv unat_nb_cost [OF nbr_rtmetric [OF inv]] by (auto simp: nb_inv_def)
  define acc where "acc = best_step s (rt, b) p"
  have ih: "rt' \<le> fst acc \<and> (\<forall>q \<in> set ps. unat rt' \<le> cost (nbr s q)) \<and>
    (b' = snd acc \<and> rt' = fst acc \<or> (\<exists>p. b' = Some p \<and> p \<in> set ps \<and> unat rt' = cost (nbr s p) \<and> rt' < fst acc))"
    using Cons.IH [of "fst acc" "snd acc"] Cons.prems by (simp add: acc_def)
  show ?case
  proof (cases "nb_cost (nbr s p) < rt")
    case True
    then have "acc = (nb_cost (nbr s p), Some p)"
      using nn by (simp add: acc_def best_step_def)
    with ih True c show ?thesis
      by (auto simp: word_le_nat_alt word_less_nat_alt)
  next
    case False
    then have "acc = (rt, b)"
      by (simp add: acc_def best_step_def)
    with ih False c show ?thesis
      by (auto simp: word_le_nat_alt word_less_nat_alt)
  qed
qed auto

text \<open>The loop finds the least cost below \<open>RTMETRIC_MAX\<close>, if there is one.\<close>

lemma best_loop:
  assumes inv: "nb_inv s" and fl: "foldl (best_step s) (RTMETRIC_MAX, None) (nb_list s) = (r, b)"
  shows "unat r \<le> 255" "\<forall>q \<in> set (nb_list s). unat r \<le> cost (nbr s q)"
    "case b of None \<Rightarrow> r = 255 | Some p \<Rightarrow> p \<in> set (nb_list s) \<and> cost (nbr s p) = unat r \<and> cost (nbr s p) < 255"
  using best_fold [OF inv subset_refl fl]
  by (auto simp: RTMETRIC_MAX_def word_le_nat_alt word_less_nat_alt split: option.splits)

lemma unat_add2: "unat (r :: u16) \<le> 255 \<Longrightarrow> unat (r + 2) = unat r + 2"
proof -
  assume le: "unat r \<le> 255"
  then have "unat r + 2 < 65536"
    by linarith
  then have "unat r + unat (2 :: u16) < 2 ^ LENGTH(16)"
    by simp
  then have "unat (r + 2) = unat r + unat (2 :: u16)"
    using unat_add_lem by blast
  then show ?thesis
    by simp
qed

lemma neighbor_best_cases:
  assumes inv: "nb_inv s" and nb: "neighbor_best s = (b, s')"
  obtains r c where "foldl (best_step s) (RTMETRIC_MAX, None) (nb_list s) = (r, c)"
    and "case nb_last_best s of
           None \<Rightarrow> b = c \<and> s' = s\<lparr>nb_last_best := c\<rparr>
         | Some lb \<Rightarrow> (if unat r + 2 < cost (nbr s lb) then b = c \<and> s' = s\<lparr>nb_last_best := c\<rparr>
                       else b = Some lb \<and> s' = s)"
proof -
  obtain r c where fl: "foldl (best_step s) (RTMETRIC_MAX, None) (nb_list s) = (r, c)"
    by fastforce
  have "r + 2 < nb_cost (nbr s lb) \<longleftrightarrow> unat r + 2 < cost (nbr s lb)" for lb
    using unat_nb_cost [OF nbr_rtmetric [OF inv]] unat_add2 [OF best_loop(1) [OF inv fl]]
    by (simp add: word_less_nat_alt)
  with nb fl have "case nb_last_best s of
           None \<Rightarrow> b = c \<and> s' = s\<lparr>nb_last_best := c\<rparr>
         | Some lb \<Rightarrow> (if unat r + 2 < cost (nbr s lb) then b = c \<and> s' = s\<lparr>nb_last_best := c\<rparr>
                       else b = Some lb \<and> s' = s)"
    by (auto simp: neighbor_best_def split: option.splits if_splits)
  with fl show ?thesis ..
qed

lemma neighbor_best_inv: "nb_inv s \<Longrightarrow> nb_inv (snd (neighbor_best s))"
  by (auto simp: neighbor_best_def split: prod.splits option.splits)

section \<open>The link-quality window\<close>

lemma rotate_update:
  assumes "i < length xs"
  shows "rotate (Suc i mod length xs) (xs[i := e]) = tl (rotate i xs) @ [e]"
proof -
  have xs: "xs[i := e] = take i xs @ e # drop (Suc i) xs" "drop i xs = xs ! i # drop (Suc i) xs"
    using assms by (simp_all add: upd_conv_take_nth_drop Cons_nth_drop_Suc)
  show ?thesis
  proof (cases "Suc i = length xs")
    case True
    with xs assms show ?thesis
      by (simp add: rotate_drop_take)
  next
    case False
    with assms have "Suc i < length xs"
      by simp
    with xs assms show ?thesis
      by (simp add: rotate_drop_take take_Suc_conv_app_nth)
  qed
qed

definition etx_window :: "neighbor \<Rightarrow> u8 list" where
  "etx_window x = rotate (unat (n_etxptr x)) (n_etxs x)"

definition push_etx :: "neighbor \<Rightarrow> u8 \<Rightarrow> neighbor" where
  "push_etx x e = x\<lparr>n_etxs := (n_etxs x)[unat (n_etxptr x) := e], n_etxptr := etxptr_next (n_etxptr x),
                     n_time := 0\<rparr>"

lemma etxptr_next: "unat (etxptr_next i) = (unat i + 1) mod 16"
  by (simp add: etxptr_next_def NEIGHBOR_NUM_ETXS_def)

lemma push_etx_ok: "entry_ok x \<Longrightarrow> entry_ok (push_etx x e)"
  by (simp add: entry_ok_def push_etx_def etxptr_next NEIGHBOR_NUM_ETXS_def)

lemma push_etx_window: "entry_ok x \<Longrightarrow> etx_window (push_etx x e) = tl (etx_window x) @ [e]"
  using rotate_update [of "unat (n_etxptr x)" "n_etxs x" e]
  by (simp add: etx_window_def push_etx_def entry_ok_def NEIGHBOR_NUM_ETXS_def etxptr_next)

lemma push_etxs_window:
  "entry_ok x \<Longrightarrow> entry_ok (foldl push_etx x es) \<and>
   etx_window (foldl push_etx x es) = drop (length es) (etx_window x @ es)"
proof (induction es arbitrary: x)
  case (Cons e es)
  have "etx_window x \<noteq> []"
    using Cons.prems by (auto simp: etx_window_def entry_ok_def NEIGHBOR_NUM_ETXS_def)
  then have "drop (length es) (etx_window (push_etx x e) @ es) = drop (length (e # es)) (etx_window x @ e # es)"
    by (cases "etx_window x") (simp_all add: push_etx_window [OF Cons.prems])
  with Cons.IH [OF push_etx_ok [OF Cons.prems]] show ?case
    by simp
qed simp

lemma etx_sum_window: "entry_ok x \<Longrightarrow> etx_sum x = sum_list (map uint (etx_window x))"
proof -
  assume "entry_ok x"
  then have "etx_sum x = sum_list (map uint (n_etxs x))"
    by (intro etx_sum_alt) (simp add: entry_ok_def NEIGHBOR_NUM_ETXS_def)
  also have "\<dots> = sum_list (map uint (rotate (unat (n_etxptr x)) (n_etxs x)))"
    by (simp add: rotate_drop_take sum_list_append flip: map_append) (metis append_take_drop_id
        add.commute map_append sum_list_append)
  finally show ?thesis
    by (simp add: etx_window_def)
qed

lemma nbr_update_etx: "nbr (neighbor_update_etx s (Some p) e) p = push_etx (nbr s p) e"
  by (simp add: neighbor_update_etx_def push_etx_def)

lemma nbr_update_etxs:
  "nbr (foldl (\<lambda>s e. neighbor_update_etx s (Some p) e) s es) p = foldl push_etx (nbr s p) es"
  by (induction es arbitrary: s) (simp_all add: nbr_update_etx)

section \<open>Every operation keeps the invariant\<close>

datatype nb_event =
    Nb_Add rimeaddr u8 u8
  | Nb_Remove rimeaddr
  | Nb_Update ptr u8
  | Nb_Update_etx ptr u8
  | Nb_Timedout_etx ptr u8
  | Nb_Best
  | Nb_Lifetime int
  | Nb_Periodic

fun nb_step :: "rimeaddr \<Rightarrow> nb_state \<Rightarrow> nb_event \<Rightarrow> nb_state" where
  "nb_step na s (Nb_Add a r e) = neighbor_add na s a r e"
| "nb_step na s (Nb_Remove a) = neighbor_remove s a"
| "nb_step na s (Nb_Update p r) = neighbor_update s (Some p) r"
| "nb_step na s (Nb_Update_etx p e) = neighbor_update_etx s (Some p) e"
| "nb_step na s (Nb_Timedout_etx p e) = neighbor_timedout_etx s (Some p) e"
| "nb_step na s Nb_Best = snd (neighbor_best s)"
| "nb_step na s (Nb_Lifetime t) = neighbor_set_lifetime s t"
| "nb_step na s Nb_Periodic = periodic s"

text \<open>The caller never adds the null address (no node has it).\<close>

fun nb_ok :: "nb_state \<Rightarrow> nb_event \<Rightarrow> bool" where
  "nb_ok s (Nb_Add a r e) \<longleftrightarrow> a \<noteq> rimeaddr_null"
| "nb_ok s _ \<longleftrightarrow> True"

lemma neighbor_update_inv: "nb_inv s \<Longrightarrow> nb_inv (neighbor_update s n r)"
  by (auto simp: neighbor_update_def entry_ok_def simp del: unat_ucast8 intro!: nb_inv_write split: option.splits)

lemma neighbor_update_etx_inv: "nb_inv s \<Longrightarrow> nb_inv (neighbor_update_etx s n e)"
  using push_etx_ok
  by (auto simp: neighbor_update_etx_def push_etx_def intro!: nb_inv_write split: option.splits)

lemma neighbor_timedout_etx_inv: "nb_inv s \<Longrightarrow> nb_inv (neighbor_timedout_etx s n e)"
  by (auto simp: neighbor_timedout_etx_def entry_ok_def etxptr_next NEIGHBOR_NUM_ETXS_def
      intro!: nb_inv_write split: option.splits)

lemma nb_inv_max_time [simp]: "nb_inv (s\<lparr>nb_max_time := t\<rparr>) = nb_inv s"
  by (simp add: nb_inv_def)

lemma neighbor_set_lifetime_inv: "nb_inv s \<Longrightarrow> nb_inv (neighbor_set_lifetime s t)"
  by (simp add: neighbor_set_lifetime_def)

lemma nb_step_inv: "nb_inv s \<Longrightarrow> nb_ok s e \<Longrightarrow> nb_inv (nb_step na s e)"
  by (cases e) (simp_all add: neighbor_add_inv neighbor_remove_inv neighbor_update_inv
      neighbor_update_etx_inv neighbor_timedout_etx_inv neighbor_best_inv periodic_inv
      neighbor_set_lifetime_inv)

interpretation nbm: machine "nb_step na" nb_ok nb_inv for na
  by unfold_locales (rule nb_step_inv)

section \<open>A concrete table\<close>

text \<open>The table as it is linked into the program: 16 blocks of 26 bytes, here at address 512.\<close>

definition nb_boot :: nb_state where
  "nb_boot = \<lparr>nb_mem = \<lparr>m_size = 26, m_num = 16, m_count = replicate 16 0, m_base = 512,
                         m_mem = (\<lambda>_. zero_neighbor)\<rparr>,
              nb_list = [], nb_last_best = None, nb_max_time = 500, nb_ctimer = None\<rparr>"

definition nb_start :: nb_state where
  "nb_start = neighbor_init nb_boot"

lemma entry_ok_zero: "entry_ok zero_neighbor"
  by (simp add: entry_ok_def zero_neighbor_def NEIGHBOR_NUM_ETXS_def)

lemma nb_start_inv: "nb_inv nb_start"
  using memb_init_wf [of "nb_mem nb_boot" zero_neighbor] memb_init_in_use [of zero_neighbor "nb_mem nb_boot"]
    entry_ok_zero
  by (auto simp: nb_start_def neighbor_init_def nb_inv_def MAX_NEIGHBORS_def memb_init_def nb_boot_def)

abbreviation nodeid :: "nat \<Rightarrow> rimeaddr" where
  "nodeid n \<equiv> Rimeaddr (of_nat n) 0"

definition nb_two :: nb_state where
  "nb_two = neighbor_add rimeaddr_null (neighbor_add rimeaddr_null nb_start (nodeid 1) 0 2) (nodeid 2) 3 1"

lemma nb_two_inv: "nb_inv nb_two"
  unfolding nb_two_def by (intro neighbor_add_inv nb_start_inv) (simp_all add: rimeaddr_null_def)

lemma nb_two_list: "nb_list nb_two = [512, 538]"
  by code_simp

section \<open>Properties\<close>

text \<open>C40: The neighbor table stays well formed under every sequence of its operations: the list holds each
  block of the pool in use exactly once, every entry has a non-null address that no other entry has, its
  ETX ring has 16 slots with the write index inside it, and its metric is at most 255. The caller only has to
  avoid adding the null address.\<close>

theorem neighbor_table_invariant:
  assumes "nb_inv s" and "run_ok (nb_step na) nb_ok s es"
  shows "nb_inv (foldl (nb_step na) s es)"
  using assms by (rule nbm.inv_run)

theorem neighbor_table_invariant_witness:
  "nb_inv (foldl (nb_step rimeaddr_null) nb_start [Nb_Add (nodeid 1) 0 2, Nb_Best, Nb_Periodic, Nb_Remove (nodeid 1)])"
  by (rule neighbor_table_invariant [OF nb_start_inv]) (simp add: rimeaddr_null_def)

text \<open>A neighbor lives for exactly the configured lifetime: after \<open>k\<close> runs of the periodic callback without
  news from it, an entry is still in the table if and only if its age plus \<open>k\<close> is below \<open>max_time\<close>, and
  while it is there its age is the age it had plus \<open>k\<close>.\<close>

theorem neighbor_lifetime:
  assumes "nb_inv s" and "p \<in> set (nb_list s)" and "n_time (nbr s p) < nb_max_time s"
  shows "(p \<in> set (nb_list ((periodic ^^ k) s)) \<longleftrightarrow> unat (n_time (nbr s p)) + k < unat (nb_max_time s)) \<and>
    (p \<in> set (nb_list ((periodic ^^ k) s)) \<longrightarrow>
       unat (n_time (nbr ((periodic ^^ k) s) p)) = unat (n_time (nbr s p)) + k)"
  using periodic_pow [OF assms] by auto

theorem neighbor_lifetime_witness:
  "512 \<in> set (nb_list ((periodic ^^ 499) nb_two)) \<and> 512 \<notin> set (nb_list ((periodic ^^ 500) nb_two))"
proof -
  have h: "512 \<in> set (nb_list nb_two)" "n_time (nbr nb_two 512) < nb_max_time nb_two"
      "unat (n_time (nbr nb_two 512)) = 0" "unat (nb_max_time nb_two) = 500"
    by (code_simp | simp add: nb_two_list)+
  show ?thesis
    using neighbor_lifetime [OF nb_two_inv h(1,2), of 499] neighbor_lifetime [OF nb_two_inv h(1,2), of 500] h
    by simp
qed

text \<open>C39: Choosing the parent has hysteresis and is near-optimal. Whatever \<open>neighbor_best\<close> returns while the
  remembered parent is in the table is in the table and costs at most 2 more than any neighbor; with no
  remembered parent it costs at most as much as any; it returns nothing only when every neighbor costs 255 or
  more; and it leaves a remembered parent only for one more than 2 better, or when no neighbor is usable.\<close>

theorem neighbor_best_hysteresis:
  assumes "nb_inv s" and "\<forall>lb. nb_last_best s = Some lb \<longrightarrow> lb \<in> set (nb_list s)"
    and "neighbor_best s = (b, s')"
  shows "nb_last_best s' = b \<and>
    (case b of
       None \<Rightarrow> \<forall>q \<in> set (nb_list s). 255 \<le> cost (nbr s q)
     | Some p \<Rightarrow> p \<in> set (nb_list s) \<and>
         (\<forall>q \<in> set (nb_list s). cost (nbr s p) \<le> cost (nbr s q) + (if nb_last_best s = None then 0 else 2))) \<and>
    (\<forall>lb. nb_last_best s = Some lb \<and> b \<noteq> Some lb \<longrightarrow>
       (case b of None \<Rightarrow> 257 < cost (nbr s lb) | Some p \<Rightarrow> cost (nbr s p) + 2 < cost (nbr s lb)))"
proof -
  obtain r c where fl: "foldl (best_step s) (RTMETRIC_MAX, None) (nb_list s) = (r, c)"
    and cs: "case nb_last_best s of
           None \<Rightarrow> b = c \<and> s' = s\<lparr>nb_last_best := c\<rparr>
         | Some lb \<Rightarrow> (if unat r + 2 < cost (nbr s lb) then b = c \<and> s' = s\<lparr>nb_last_best := c\<rparr>
                       else b = Some lb \<and> s' = s)"
    using neighbor_best_cases [OF assms(1,3)] by blast
  note bl = best_loop [OF assms(1) fl]
  show ?thesis
    using cs bl assms(2) by (cases "nb_last_best s"; cases c) (auto split: if_splits)
qed

theorem neighbor_best_hysteresis_witness:
  "fst (neighbor_best nb_two) = Some 512 \<and> cost (nbr nb_two 512) \<le> cost (nbr nb_two 538)"
proof -
  have e: "fst (neighbor_best nb_two) = Some 512" "nb_last_best nb_two = None"
    by code_simp+
  then obtain s' where nb: "neighbor_best nb_two = (Some 512, s')"
    by (cases "neighbor_best nb_two") simp
  show ?thesis
    using neighbor_best_hysteresis [OF nb_two_inv _ nb] e by (simp add: nb_two_list)
qed

text \<open>The link metric is a sliding-window mean: after at least 16 ETX samples, \<open>neighbor_etx\<close> is the mean of
  the last 16 of them, rounded down, whatever the ring held and wherever its index stood.\<close>

theorem neighbor_etx_window:
  assumes "nb_inv s" and "16 \<le> length es"
  shows "uint (neighbor_etx (nbr (foldl (\<lambda>s e. neighbor_update_etx s (Some p) e) s es) p)) =
         sum_list (map uint (drop (length es - 16) es)) div 16"
proof -
  have ok: "entry_ok (nbr s p)"
    using assms(1) by (simp add: nb_inv_def)
  note pw = push_etxs_window [OF ok, of es]
  have "length (etx_window (nbr s p)) = 16"
    using ok by (simp add: etx_window_def entry_ok_def NEIGHBOR_NUM_ETXS_def)
  then have "etx_window (foldl push_etx (nbr s p) es) = drop (length es - 16) es"
    using pw assms(2) by simp
  then show ?thesis
    using etx_sum_window pw by (simp add: uint_neighbor_etx nbr_update_etxs)
qed

theorem neighbor_etx_window_witness:
  "uint (neighbor_etx (nbr (foldl (\<lambda>s e. neighbor_update_etx s (Some 512) e) nb_two (replicate 20 4)) 512)) = 4"
  using neighbor_etx_window [OF nb_two_inv, of "replicate 20 4" 512] by (simp add: sum_list_replicate)

text \<open>Adding a neighbor makes it findable with the values given, or, when the table is full and nothing
  may be recycled, changes nothing; and it never evicts the remembered parent.\<close>

theorem neighbor_add_find:
  assumes "nb_inv s" and "addr \<noteq> rimeaddr_null"
  shows "(case add_slot na s addr of
            (Some n, _) \<Rightarrow> neighbor_find (neighbor_add na s addr rt etx) addr = Some n \<and>
                           nbr (neighbor_add na s addr rt etx) n = new_entry addr rt etx
          | (None, _) \<Rightarrow> neighbor_add na s addr rt etx = s) \<and>
         (\<forall>lb. nb_last_best s = Some lb \<and> lb \<in> set (nb_list s) \<longrightarrow>
            lb \<in> set (nb_list (neighbor_add na s addr rt etx)) \<and>
            n_addr (nbr (neighbor_add na s addr rt etx) lb) = n_addr (nbr s lb))"
proof (cases "add_slot na s addr")
  case (Pair n s1)
  show ?thesis
  proof (cases n)
    case None
    have "s1 = s"
      using Pair None memb_alloc_None(1) assms(1)
      by (fastforce simp: add_slot_def nb_inv_def split: option.splits prod.splits)
    with Pair None show ?thesis
      by (simp add: neighbor_add_def)
  next
    case (Some p)
    note sl = add_slot_Some [OF assms(1) Pair [unfolded Some]]
    note alt = neighbor_add_alt [OF assms(1) Pair [unfolded Some], of rt etx]
    have f: "neighbor_find (neighbor_add na s addr rt etx) addr = Some p"
      using neighbor_find_iff [OF neighbor_add_inv [OF assms], of na rt etx addr p] sl(5)
      unfolding alt by (simp add: new_entry_def)
    have keep: "n_addr (nbr s p) = addr" if "nb_last_best s = Some p" "p \<in> set (nb_list s)"
      using add_slot_keeps_parent [OF assms(1) Pair [unfolded Some] that] .
    show ?thesis
      using f sl keep Pair Some by (auto simp: alt new_entry_def)
  qed
qed

theorem neighbor_add_find_witness:
  "neighbor_find (neighbor_add rimeaddr_null nb_two (nodeid 3) 7 1) (nodeid 3) = Some 564"
proof -
  have sl: "fst (add_slot rimeaddr_null nb_two (nodeid 3)) = Some 564"
    by code_simp
  have "nodeid 3 \<noteq> rimeaddr_null"
    by (simp add: rimeaddr_null_def)
  from neighbor_add_find [OF nb_two_inv this, of rimeaddr_null 7 1] sl show ?thesis
    by (cases "add_slot rimeaddr_null nb_two (nodeid 3)") auto
qed

text \<open>Removing the parent leaves it remembered. The comparison in \<open>neighbor_remove\<close> reads the bytes of the
  pointer \<open>last_best\<close> instead of the address it points to, so unless the two happen to agree, a parent with
  a link ETX of at most 2 that is removed while no other neighbor is usable is still returned by
  \<open>neighbor_best\<close>, although its block has been freed and its address is the null address.\<close>

theorem neighbor_remove_stale_parent:
  assumes "nb_inv s" and "nb_last_best s = Some p" and "neighbor_find s a = Some p"
    and "ptr_bytes p \<noteq> a" and "unat (neighbor_etx (nbr s p)) \<le> 2"
    and "\<forall>q \<in> set (nb_list s) - {p}. 255 \<le> cost (nbr s q)"
  shows "fst (neighbor_best (neighbor_remove s a)) = Some p \<and>
    p \<notin> in_use (nb_mem (neighbor_remove s a)) \<and>
    n_addr (nbr (neighbor_remove s a) p) = rimeaddr_null"
proof -
  let ?x = "\<lambda>x. x\<lparr>n_addr := rimeaddr_null, n_rtmetric := RTMETRIC_MAX\<rparr>"
  let ?s = "neighbor_remove s a"
  have alt: "?s = nb_release (nb_write s p ?x) p"
    using neighbor_remove_alt [OF assms(3)] assms(2,4) by simp
  have inv: "nb_inv ?s"
    by (rule neighbor_remove_inv [OF assms(1)])
  have wf: "memb_wf (nb_mem s)" and d: "distinct (nb_list s)" and us: "set (nb_list s) = in_use (nb_mem s)"
    using assms(1) by (auto simp: nb_inv_def)
  have nb: "nbr ?s q = (if q = p then ?x (nbr s p) else nbr s q)" for q
    using wf by (simp add: alt)
  have l: "set (nb_list ?s) = set (nb_list s) - {p}"
    using d by (simp add: alt)
  have free: "p \<notin> in_use (nb_mem ?s)"
    using inv l by (auto simp: nb_inv_def)
  have null: "n_addr (nbr ?s p) = rimeaddr_null"
    by (simp add: nb)
  obtain r c where fl: "foldl (best_step ?s) (RTMETRIC_MAX, None) (nb_list ?s) = (r, c)"
    and cs: "case nb_last_best ?s of
           None \<Rightarrow> fst (neighbor_best ?s) = c \<and> snd (neighbor_best ?s) = ?s\<lparr>nb_last_best := c\<rparr>
         | Some lb \<Rightarrow> (if unat r + 2 < cost (nbr ?s lb)
                       then fst (neighbor_best ?s) = c \<and> snd (neighbor_best ?s) = ?s\<lparr>nb_last_best := c\<rparr>
                       else fst (neighbor_best ?s) = Some lb \<and> snd (neighbor_best ?s) = ?s)"
    using neighbor_best_cases [OF inv surjective_pairing] by blast
  note bl = best_loop [OF inv fl]
  have r: "unat r = 255"
  proof (cases c)
    case (Some q)
    with bl(3) l have "q \<in> set (nb_list s) - {p}" "cost (nbr ?s q) < 255"
      by auto
    moreover from this(1) have "nbr ?s q = nbr s q" "255 \<le> cost (nbr s q)"
      using nb assms(6) by auto
    ultimately show ?thesis
      by simp
  qed (use bl(3) in simp)
  have "neighbor_etx (?x (nbr s p)) = neighbor_etx (nbr s p)"
    by (simp add: neighbor_etx_def etx_sum_def)
  then have "cost (nbr ?s p) \<le> 257"
    using assms(5) by (simp add: nb cost_def RTMETRIC_MAX_def)
  moreover have "nb_last_best ?s = Some p"
    using assms(2) by (simp add: alt)
  ultimately have "fst (neighbor_best ?s) = Some p"
    using cs r by simp
  with free null show ?thesis
    by blast
qed

definition nb_one :: nb_state where
  "nb_one = snd (neighbor_best (neighbor_add rimeaddr_null nb_start (nodeid 1) 0 2))"

theorem neighbor_remove_stale_parent_witness:
  "fst (neighbor_best (neighbor_remove nb_one (nodeid 1))) = Some 512 \<and>
   512 \<notin> in_use (nb_mem (neighbor_remove nb_one (nodeid 1)))"
proof -
  have inv: "nb_inv nb_one"
    unfolding nb_one_def
    by (intro neighbor_best_inv neighbor_add_inv nb_start_inv) (simp add: rimeaddr_null_def)
  have e: "nb_last_best nb_one = Some 512" "neighbor_find nb_one (nodeid 1) = Some 512"
      "ptr_bytes 512 \<noteq> nodeid 1" "unat (neighbor_etx (nbr nb_one 512)) \<le> 2" "nb_list nb_one = [512]"
    by code_simp+
  from e(5) have "\<forall>q \<in> set (nb_list nb_one) - {512}. 255 \<le> cost (nbr nb_one q)"
    by simp
  with neighbor_remove_stale_parent [OF inv e(1-4)] show ?thesis
    by simp
qed

end
