(* ===== verification/Relcollect.thy ===== *)
theory Relcollect
  imports Relunicast Neighbor
begin

text \<open>
  The collection protocol, \<open>core/net/rime/relcollect.c\<close>: it gives every node a parent by the routing
  metric (the expected number of transmissions to the sink), announces the metric, forwards received
  packets through a queue and drops duplicates. One connection uses the queue, the neighbor table, the
  announcement and the reliable unicast connection of the components below; \<open>node\<close> is all of its
  state. The queuing statistics (\<open>QUEUING_STATS\<close>) are switched on in this program.
\<close>

section \<open>State\<close>

definition NUM_RECENT_PACKETS :: nat where "NUM_RECENT_PACKETS = 20"
definition MAX_FORWARDING_QUEUE :: nat where "MAX_FORWARDING_QUEUE = 50"
definition QUEUING_DELAY_RESET_PERIOD :: u32 where "QUEUING_DELAY_RESET_PERIOD = 10"
definition SINK_METRIC :: u16 where "SINK_METRIC = 0"

text \<open>The arguments of the sink's \<open>recv\<close> callback.\<close>

record delivery =
  dl_originator :: rimeaddr
  dl_delay :: u16
  dl_dropped :: u16
  dl_queue_size :: u8
  dl_time_high :: u16
  dl_time_low :: u16

record node =
  rl_net :: net
  rl_nb :: nb_state
  rl_ann :: ann
  rl_queue :: packetqueue
  rl_ru :: relunicast_conn
  rl_parent_id :: u8
  rl_rtmetric :: u16
  rl_forwarding :: u8
  rl_seqno :: u8
  rl_recent :: "(rimeaddr \<times> u8) list"
  rl_recent_ptr :: u8
  rl_queuing_count :: u32
  rl_queuing_size_sum :: u32
  rl_dropped :: u16
  rl_glossy_parent :: u8
  rl_delivered :: "delivery list"
  rl_conn :: ptr
  rl_announcement :: ptr
  rl_null_addr :: rimeaddr

definition set_attr :: "node \<Rightarrow> attr \<Rightarrow> u16 \<Rightarrow> node" where
  "set_attr s t v = s\<lparr>rl_net := (rl_net s)\<lparr>nt_pb := packetbuf_set_attr (nt_pb (rl_net s)) t v\<rparr>\<rparr>"

definition attr :: "node \<Rightarrow> attr \<Rightarrow> u16" where
  "attr s t = packetbuf_attr (nt_pb (rl_net s)) t"

definition pb_addr :: "node \<Rightarrow> addr_attr \<Rightarrow> rimeaddr" where
  "pb_addr s a = packetbuf_addr (nt_pb (rl_net s)) a"

definition best_neighbor :: "node \<Rightarrow> ptr option \<times> node" where
  "best_neighbor s = (case neighbor_best (rl_nb s) of (n, nb) \<Rightarrow> (n, s\<lparr>rl_nb := nb\<rparr>))"

definition announce :: "env \<Rightarrow> node \<Rightarrow> node" where
  "announce e s =
     (case announcement_set_value e (rl_net s) (rl_ann s) (rl_announcement s) (rl_rtmetric s) of
        (n, a) \<Rightarrow> s\<lparr>rl_net := n, rl_ann := a\<rparr>)"

section \<open>Sending the first packet of the queue\<close>

text \<open>\<open>clock_time()\<close> may have wrapped around since the packet was queued.\<close>

definition queuing_delay :: "clock_time_t \<Rightarrow> clock_time_t \<Rightarrow> u16" where
  "queuing_delay dequeue_time enqueue_time =
     (if dequeue_time \<ge> enqueue_time then dequeue_time - enqueue_time
      else 65535 - enqueue_time + dequeue_time + 1)"

definition queue_size_to_print :: "u32 \<Rightarrow> u32 \<Rightarrow> u32" where
  "queue_size_to_print sz_sum count =
     (let q = (sz_sum * 10) div count
      in if q mod 10 > 4 then q div 10 + 1 else q div 10)"

definition update_stats :: "env \<Rightarrow> node \<Rightarrow> ptr \<Rightarrow> node" where
  "update_stats e s i =
     (let s1 = s\<lparr>rl_queuing_count := rl_queuing_count s + 1,
                 rl_queuing_size_sum := rl_queuing_size_sum s + of_nat (get_queue_size (rl_queue s))\<rparr>;
          s2 = set_attr s1 PACKETBUF_ATTR_QUEUING_DELAY
                 (attr s1 PACKETBUF_ATTR_QUEUING_DELAY + queuing_delay (ev_now e) (get_enqueue_time (rl_queue s1) (Some i)));
          s3 = (if rimeaddr_cmp (ev_me e) (pb_addr s2 PACKETBUF_ADDR_ESENDER)
                then set_attr s2 PACKETBUF_ATTR_QUEUE_SIZE
                       (ucast (ucast (queue_size_to_print (rl_queuing_size_sum s2) (rl_queuing_count s2)) :: u8))
                else s2)
      in if rl_queuing_count s3 \<ge> QUEUING_DELAY_RESET_PERIOD
         then s3\<lparr>rl_queuing_count := drop_bit 1 (rl_queuing_count s3),
                 rl_queuing_size_sum := drop_bit 1 (rl_queuing_size_sum s3)\<rparr>
         else s3)"

text \<open>
  The parent, unless the packet came from it: then it is removed and the next best neighbor is taken.
\<close>

definition pick_parent :: "node \<Rightarrow> ptr option \<times> node" where
  "pick_parent s =
     (case best_neighbor s of
        (None, s1) \<Rightarrow> (None, s1)
      | (Some n, s1) \<Rightarrow>
          if rimeaddr_cmp (n_addr (nbr (rl_nb s1) n)) (pb_addr s1 PACKETBUF_ADDR_SENDER)
          then best_neighbor (s1\<lparr>rl_nb := neighbor_remove (rl_nb s1) (n_addr (nbr (rl_nb s1) n))\<rparr>)
          else (Some n, s1))"

definition prepare :: "env \<Rightarrow> node \<Rightarrow> ptr \<Rightarrow> rimeaddr \<Rightarrow> node" where
  "prepare e s i addr =
     (let s1 = (if rimeaddr_cmp (ev_me e) (pb_addr s PACKETBUF_ADDR_ESENDER)
                then set_attr (s\<lparr>rl_parent_id := u8_0 addr, rl_glossy_parent := u8_0 addr\<rparr>)
                       PACKETBUF_ATTR_RTMETRIC (ucast (ucast (rl_rtmetric s) :: u8))
                else s)
      in (update_stats e s1 i)\<lparr>rl_forwarding := 1\<rparr>)"

definition send_to :: "env \<Rightarrow> node \<Rightarrow> ptr \<Rightarrow> ptr \<Rightarrow> node" where
  "send_to e s i n =
     (let addr = n_addr (nbr (rl_nb s) n);
          s1 = prepare e s i addr
      in case relunicast_send e (rl_net s1) (rl_ru s1) addr (ucast (attr s1 PACKETBUF_ATTR_MAX_REXMIT))
                (pb_addr s1 PACKETBUF_ADDR_ESENDER) of
           (_, net, ru) \<Rightarrow> s1\<lparr>rl_net := net, rl_ru := ru\<rparr>)"

definition rel_send_queued_packet :: "env \<Rightarrow> node \<Rightarrow> node" where
  "rel_send_queued_packet e s =
     (case packetqueue_first (rl_queue s) of
        None \<Rightarrow> s
      | Some i \<Rightarrow>
          (case packetqueue_ptr (rl_queue s) (Some i) of
             None \<Rightarrow> s
           | Some _ \<Rightarrow>
               if rl_forwarding s \<noteq> 0 then s
               else (case packetqueue_queuebuf (rl_queue s) (Some i) of
                       None \<Rightarrow> s
                     | Some q \<Rightarrow>
                         (case pick_parent (s\<lparr>rl_net := queuebuf_to_packetbuf (rl_net s) q\<rparr>) of
                            (None, s1) \<Rightarrow> s1
                          | (Some n, s1) \<Rightarrow> send_to e s1 i n))))"

section \<open>The routing metric\<close>

definition rel_update_rtmetric :: "env \<Rightarrow> node \<Rightarrow> node" where
  "rel_update_rtmetric e s =
     (if rl_rtmetric s = SINK_METRIC then s
      else (case best_neighbor s of
              (None, s1) \<Rightarrow> announce e (s1\<lparr>rl_rtmetric := RTMETRIC_MAX\<rparr>)
            | (Some n, s1) \<Rightarrow>
                (let new_rtmetric = n_rtmetric (nbr (rl_nb s1) n) + ucast (neighbor_etx (nbr (rl_nb s1) n));
                     old_rtmetric = rl_rtmetric s1
                 in if new_rtmetric \<noteq> old_rtmetric
                    then (let s2 = announce e (s1\<lparr>rl_rtmetric := new_rtmetric\<rparr>)
                          in if old_rtmetric = RTMETRIC_MAX then rel_send_queued_packet e s2 else s2)
                    else s1)))"

section \<open>Receiving\<close>

text \<open>The duplicate filter: the last packets forwarded, by originator and sequence number.\<close>

definition is_recent :: "(rimeaddr \<times> u8) list \<Rightarrow> rimeaddr \<Rightarrow> u16 \<Rightarrow> bool" where
  "is_recent recent originator seqno \<longleftrightarrow>
     list_ex (\<lambda>i. ucast (snd (recent ! i)) = seqno \<and> rimeaddr_cmp (fst (recent ! i)) originator) [0..<NUM_RECENT_PACKETS]"

definition remember :: "node \<Rightarrow> node" where
  "remember s = s\<lparr>
     rl_recent := (rl_recent s)[unat (rl_recent_ptr s) :=
       (pb_addr s PACKETBUF_ADDR_ESENDER, ucast (attr s PACKETBUF_ATTR_EPACKET_ID))],
     rl_recent_ptr := of_nat ((unat (rl_recent_ptr s) + 1) mod NUM_RECENT_PACKETS)\<rparr>"

definition deliver :: "node \<Rightarrow> node" where
  "deliver s = s\<lparr>rl_delivered := rl_delivered s @
     [\<lparr>dl_originator = pb_addr s PACKETBUF_ADDR_ESENDER, dl_delay = attr s PACKETBUF_ATTR_QUEUING_DELAY,
       dl_dropped = attr s PACKETBUF_ATTR_DROPPED_PACKETS_COUNT, dl_queue_size = ucast (attr s PACKETBUF_ATTR_QUEUE_SIZE),
       dl_time_high = attr s PACKETBUF_ATTR_TIME_HIGH, dl_time_low = attr s PACKETBUF_ATTR_TIME_LOW\<rparr>]\<rparr>"

text \<open>\<open>FORWARD_PACKET_LIFETIME\<close> is 0.\<close>

definition enqueue :: "env \<Rightarrow> node \<Rightarrow> bool \<times> node" where
  "enqueue e s =
     (case packetqueue_enqueue_packetbuf (ev_now e) (rl_net s) (rl_queue s) 0 (Some (rl_conn s)) of
        (r, n, q) \<Rightarrow> (r, s\<lparr>rl_net := n, rl_queue := q\<rparr>))"

definition rel_node_packet_received :: "env \<Rightarrow> node \<Rightarrow> node" where
  "rel_node_packet_received e s =
     (if is_recent (rl_recent s) (pb_addr s PACKETBUF_ADDR_ESENDER) (attr s PACKETBUF_ATTR_EPACKET_ID) then s
      else
        (let s1 = remember s;
             s2 = (if \<not> attr s1 PACKETBUF_ATTR_RTMETRIC > rl_rtmetric s1 then rel_update_rtmetric e s1 else s1)
         in if rl_rtmetric s2 = SINK_METRIC then deliver s2
            else if rl_rtmetric s2 \<noteq> RTMETRIC_MAX then
              (case enqueue e s2 of
                 (True, s3) \<Rightarrow> rel_send_queued_packet e s3
               | (False, s3) \<Rightarrow> s3\<lparr>rl_dropped := rl_dropped s3 + 1\<rparr>)
            else s2))"

definition dequeue :: "node \<Rightarrow> node" where
  "dequeue s = (case packetqueue_dequeue (rl_net s) (rl_queue s) of (n, q) \<Rightarrow> s\<lparr>rl_net := n, rl_queue := q\<rparr>)"

definition rel_node_packet_sent :: "env \<Rightarrow> node \<Rightarrow> rimeaddr \<Rightarrow> u8 \<Rightarrow> node" where
  "rel_node_packet_sent e s to retransmissions =
     (let s1 = s\<lparr>rl_forwarding := 0,
                 rl_nb := neighbor_update_etx (rl_nb s) (neighbor_find (rl_nb s) to) (retransmissions + 1)\<rparr>
      in rel_send_queued_packet e (dequeue (rel_update_rtmetric e s1)))"

definition rel_node_packet_timedout :: "env \<Rightarrow> node \<Rightarrow> rimeaddr \<Rightarrow> u8 \<Rightarrow> node" where
  "rel_node_packet_timedout e s to retransmissions =
     (let s1 = s\<lparr>rl_forwarding := 0,
                 rl_nb := neighbor_timedout_etx (rl_nb s) (neighbor_find (rl_nb s) to) (retransmissions + 1)\<rparr>
      in rel_send_queued_packet e (dequeue (rel_update_rtmetric e s1)))"

definition received_announcement :: "env \<Rightarrow> node \<Rightarrow> rimeaddr \<Rightarrow> u16 \<Rightarrow> node" where
  "received_announcement e s from value =
     rel_update_rtmetric e
       (case neighbor_find (rl_nb s) from of
          None \<Rightarrow> s\<lparr>rl_nb := neighbor_add (rl_null_addr s) (rl_nb s) from (ucast value) 1\<rparr>
        | Some n \<Rightarrow> s\<lparr>rl_nb := neighbor_update (rl_nb s) (Some n) (ucast value)\<rparr>)"

section \<open>The interface of the protocol\<close>

definition relcollect_set_sink :: "env \<Rightarrow> node \<Rightarrow> bool \<Rightarrow> node" where
  "relcollect_set_sink e s should_be_sink =
     rel_update_rtmetric e (announce e (s\<lparr>rl_rtmetric := (if should_be_sink then SINK_METRIC else RTMETRIC_MAX)\<rparr>))"

text \<open>The static topologies (\<open>STATIC\<close>), by \<open>LOCATION\<close>: a node's parent.\<close>

datatype location = ETH | SICS

definition eth_parents :: "(nat \<times> nat) list" where
  "eth_parents =
     [(1, 17), (2, 12), (3, 109), (4, 23), (5, 2), (6, 2), (7, 14), (8, 23), (9, 10), (10, 29), (11, 26),
      (12, 29), (13, 33), (14, 4), (15, 33), (16, 26), (17, 3), (18, 6), (19, 23), (20, 13), (21, 5),
      (22, 11), (23, 12), (24, 6), (25, 18), (26, 30), (27, 28), (28, 200), (29, 200), (30, 5), (31, 23),
      (32, 102), (33, 105), (34, 105), (101, 7), (102, 13), (103, 33), (104, 33), (105, 200), (106, 29),
      (107, 12), (108, 102), (109, 29)]"

definition sics_parents :: "(nat \<times> nat) list" where
  "sics_parents =
     [(1, 200), (2, 200), (3, 200), (4, 22), (5, 200), (6, 200), (7, 200), (8, 6), (9, 13), (10, 11),
      (11, 7), (12, 13), (13, 7), (14, 17), (15, 7), (16, 15), (17, 13), (18, 6), (19, 20), (20, 200),
      (21, 200), (22, 2), (23, 200)]"

definition static_parent :: "location \<Rightarrow> nat \<Rightarrow> nat option" where
  "static_parent l i = map_of (case l of ETH \<Rightarrow> eth_parents | SICS \<Rightarrow> sics_parents) i"

definition static_open :: "location \<Rightarrow> env \<Rightarrow> node \<Rightarrow> node" where
  "static_open l e s =
     (if u8_0 (ev_me e) = 200 then relcollect_set_sink e s True
      else (case static_parent l (unat (u8_0 (ev_me e))) of
              None \<Rightarrow> s
            | Some p \<Rightarrow> s\<lparr>rl_nb := neighbor_add (rl_null_addr s) (rl_nb s) (Rimeaddr (of_nat p) 0) 1 1\<rparr>))"

text \<open>\<open>static\<close> is \<open>None\<close> where \<open>STATIC\<close> is 0.\<close>

definition relcollect_open ::
  "location option \<Rightarrow> env \<Rightarrow> channel list \<Rightarrow> channel \<Rightarrow> node \<Rightarrow> u16 \<Rightarrow> channel list \<times> node" where
  "relcollect_open static e cs ch s channels =
     (case relunicast_open cs ch (channels + 1) (rl_ru s) of
        (cs1, ru) \<Rightarrow>
          (let s1 = s\<lparr>rl_ru := ru, rl_seqno := 1, rl_rtmetric := RTMETRIC_MAX\<rparr>
           in case announcement_register e (rl_net s1) (rl_ann s1) (rl_announcement s1) channels (rl_rtmetric s1) True of
                (n, a) \<Rightarrow>
                  (let s2 = s1\<lparr>rl_net := n, rl_ann := announcement_listen a 2\<rparr>
                   in (channel_set_attributes cs1 (channels + 1) RELCOLLECT_ATTRIBUTES,
                       case static of None \<Rightarrow> s2 | Some l \<Rightarrow> static_open l e s2))))"

definition relcollect_close :: "channel list \<Rightarrow> channel \<Rightarrow> node \<Rightarrow> channel list \<times> node" where
  "relcollect_close cs ch s =
     (case relunicast_close cs ch (rl_net s) (rl_ru s) of
        (cs1, n, ru) \<Rightarrow>
          (cs1, s\<lparr>rl_ann := announcement_remove (rl_ann s) (rl_announcement s), rl_net := n, rl_ru := ru\<rparr>))"

definition stamp :: "env \<Rightarrow> node \<Rightarrow> int \<Rightarrow> node" where
  "stamp e s rexmits =
     (let s1 = set_attr s PACKETBUF_ATTR_EPACKET_ID (ucast (rl_seqno s));
          s2 = s1\<lparr>rl_seqno := rl_seqno s1 + 1,
                  rl_net := (rl_net s1)\<lparr>nt_pb := packetbuf_set_addr (nt_pb (rl_net s1)) PACKETBUF_ADDR_ESENDER (ev_me e)\<rparr>\<rparr>;
          s3 = set_attr s2 PACKETBUF_ATTR_MAX_REXMIT (word_of_int rexmits);
          s4 = set_attr s3 PACKETBUF_ATTR_QUEUING_DELAY 0;
          s5 = set_attr s4 PACKETBUF_ATTR_DROPPED_PACKETS_COUNT (rl_dropped s4);
          s6 = set_attr s5 PACKETBUF_ATTR_QUEUE_SIZE 0
      in set_attr s6 PACKETBUF_ATTR_RTMETRIC 0)"

definition relcollect_send :: "env \<Rightarrow> node \<Rightarrow> int \<Rightarrow> bool \<times> node" where
  "relcollect_send e s rexmits =
     (let s1 = stamp e s rexmits
      in if rl_rtmetric s1 = SINK_METRIC then (True, deliver s1)
         else
           (case best_neighbor s1 of
              (Some n, s2) \<Rightarrow>
                (case enqueue e s2 of
                   (True, s3) \<Rightarrow> (True, rel_send_queued_packet e s3)
                 | (False, s3) \<Rightarrow> (False, s3\<lparr>rl_dropped := rl_dropped s3 + 1\<rparr>))
            | (None, s2) \<Rightarrow>
                (case enqueue e (s2\<lparr>rl_ann := announcement_listen (rl_ann s2) 1\<rparr>) of
                   (True, s3) \<Rightarrow> (True, s3)
                 | (False, s3) \<Rightarrow> (False, s3\<lparr>rl_dropped := rl_dropped s3 + 1\<rparr>))))"

definition relcollect_depth :: "node \<Rightarrow> u16" where
  "relcollect_depth s = rl_rtmetric s"

text \<open>
  The events that reach the connection: the relunicast timer (with the callback it makes), and a packet
  the radio received, which \<open>chameleon_input\<close> has unpacked into the packet buffer.
\<close>

definition relunicast_timer :: "env \<Rightarrow> node \<Rightarrow> node" where
  "relunicast_timer e s =
     (case send e (rl_net s) (rl_ru s) of
        (r, n, ru) \<Rightarrow>
          (let s1 = s\<lparr>rl_net := n, rl_ru := ru\<rparr>
           in case r of
                Rescheduled \<Rightarrow> s1
              | Sent k \<Rightarrow> rel_node_packet_sent e s1 (relunicast_receiver ru) k
              | Timedout k \<Rightarrow> rel_node_packet_timedout e s1 (relunicast_receiver ru) k))"

definition packet_input :: "env \<Rightarrow> node \<Rightarrow> packetbuf \<Rightarrow> node" where
  "packet_input e s b =
     (let s1 = s\<lparr>rl_net := (rl_net s)\<lparr>nt_pb := b\<rparr>\<rparr>
      in case relunicast_recv (ev_me e) b of
           None \<Rightarrow> s1
         | Some _ \<Rightarrow> rel_node_packet_received e s1)"

text \<open>
  A packet on the announcement channel: \<open>ipolite\<close> drops its held-back copy, then \<open>adv_packet_received\<close>
  and \<open>announcement_heard\<close> call the connection's callback.
\<close>

definition announcement_input :: "env \<Rightarrow> node \<Rightarrow> packetbuf \<Rightarrow> node" where
  "announcement_input e s b =
     (case ipolite_recv ((rl_net s)\<lparr>nt_pb := b\<rparr>) (pa_conn (rl_ann s)) of
        (n, c) \<Rightarrow>
          foldl (\<lambda>s iv. if announcement_heard (rl_ann s) (fst iv) = Some (rl_announcement s)
                        then received_announcement e s (recv_from_abc b) (snd iv) else s)
            (s\<lparr>rl_net := n, rl_ann := (rl_ann s)\<lparr>pa_conn := c\<rparr>\<rparr>) (adv_packet_received b))"

end
