(* ===== verification/Ownership.thy ===== *)
theory Ownership
  imports Relunicast
begin

text \<open>
  Who owns the queue buffers: the forwarding queue, the reliable unicast connection and the polite
  broadcast of the announcements share the pool of 22. Each of their operations exchanges buffers of its
  own part only; the lemmas here say so once, and the collection protocol's proofs use them.
\<close>

section \<open>The parts of the pool\<close>

definition own_inv :: "net \<Rightarrow> packetqueue \<Rightarrow> relunicast_conn \<Rightarrow> ann \<Rightarrow> bool" where
  "own_inv n q r a \<longleftrightarrow> net_inv n \<and> \<not> packetbuf_is_reference (nt_pb n) \<and> pq_inv n q \<and> ru_ok n r \<and>
     held_ok n (ip_q (pa_conn a)) \<and> pa_ok a \<and>
     bufs n = pq_bufs q \<union> ru_bufs r \<union> ip_bufs (pa_conn a) \<and>
     pq_bufs q \<inter> ru_bufs r = {} \<and> pq_bufs q \<inter> ip_bufs (pa_conn a) = {} \<and> ru_bufs r \<inter> ip_bufs (pa_conn a) = {}"

named_theorems own_intros

lemma ru_ok_pb [simp]: "ru_ok (n\<lparr>nt_pb := b\<rparr>) r = ru_ok n r"
  by (simp add: ru_ok_def)

lemma own_pb [own_intros]:
  "own_inv n q r a \<Longrightarrow> pb_inv b \<Longrightarrow> \<not> packetbuf_is_reference b \<Longrightarrow> own_inv (n\<lparr>nt_pb := b\<rparr>) q r a"
  using net_inv_pb [of n b] by (simp add: own_inv_def)

lemma own_set_attr [simp]:
  "own_inv n q r a \<Longrightarrow> own_inv (n\<lparr>nt_pb := packetbuf_set_attr (nt_pb n) t v\<rparr>) q r a"
  "own_inv n q r a \<Longrightarrow> own_inv (n\<lparr>nt_pb := packetbuf_set_addr (nt_pb n) ad w\<rparr>) q r a"
  by (rule own_pb; simp add: own_inv_def net_inv_def)+

text \<open>Keeping a buffer's contents keeps what its owner relies on.\<close>

lemma held_ok_frame:
  "held_ok n p \<Longrightarrow> set_option p \<subseteq> bufs n' \<Longrightarrow> (\<forall>b \<in> set_option p. m_mem (nt_bufmem n') b = m_mem (nt_bufmem n) b) \<Longrightarrow>
   held_ok n' p"
  by (cases p) (simp_all add: held_ok_def)

lemma ru_ok_frame:
  "ru_ok n r \<Longrightarrow> ru_bufs r \<subseteq> bufs n' \<Longrightarrow> (\<forall>b \<in> ru_bufs r. m_mem (nt_bufmem n') b = m_mem (nt_bufmem n) b) \<Longrightarrow> ru_ok n' r"
  using held_ok_frame [of n "ru_buf r" n'] by (simp add: ru_ok_def ru_bufs_def)

lemma ip_bufs_held: "held_ok n (ip_q c) \<Longrightarrow> ip_bufs c \<subseteq> bufs n"
  by (auto simp: held_ok_def ip_bufs_def split: option.splits)

lemma ru_bufs_held: "ru_ok n r \<Longrightarrow> ru_bufs r \<subseteq> bufs n"
  by (auto simp: ru_ok_def held_ok_def ru_bufs_def split: option.splits)

section \<open>One part changes\<close>

lemma own_ru_change:
  assumes own: "own_inv n q r a" and new: "net_inv n'" "\<not> packetbuf_is_reference (nt_pb n')" "ru_ok n' r'"
    and bs: "bufs n' - ru_bufs r' = bufs n - ru_bufs r"
    and mem: "\<forall>b \<in> bufs n - ru_bufs r. m_mem (nt_bufmem n') b = m_mem (nt_bufmem n) b"
  shows "own_inv n' q r' a"
proof -
  let ?P = "ip_bufs (pa_conn a)" and ?Q = "pq_bufs q"
  have o: "bufs n = ?Q \<union> ru_bufs r \<union> ?P" "?Q \<inter> ru_bufs r = {}" "?Q \<inter> ?P = {}" "ru_bufs r \<inter> ?P = {}"
    "pq_inv n q" "held_ok n (ip_q (pa_conn a))" "pa_ok a"
    using own by (simp_all add: own_inv_def)
  have rest: "bufs n' - ru_bufs r' = ?Q \<union> ?P"
    using bs o by blast
  have r': "ru_bufs r' \<subseteq> bufs n'"
    by (rule ru_bufs_held [OF new(3)])
  have "pq_inv n' q"
    by (rule pq_frame [OF o(5)]) (use rest mem o in auto)
  moreover have "held_ok n' (ip_q (pa_conn a))"
    by (rule held_ok_frame [OF o(6)]) (use rest mem o in \<open>auto simp: ip_bufs_set\<close>)
  ultimately show ?thesis
    using new rest r' o(3,7) by (auto simp: own_inv_def)
qed

lemma own_ann_change:
  assumes own: "own_inv n q r a" and new: "net_inv n'" "\<not> packetbuf_is_reference (nt_pb n')"
      "held_ok n' (ip_q (pa_conn a'))" "pa_ok a'"
    and bs: "bufs n' - ip_bufs (pa_conn a') = bufs n - ip_bufs (pa_conn a)"
    and mem: "\<forall>b \<in> bufs n - ip_bufs (pa_conn a). m_mem (nt_bufmem n') b = m_mem (nt_bufmem n) b"
  shows "own_inv n' q r a'"
proof -
  let ?P = "ip_bufs (pa_conn a)" and ?Q = "pq_bufs q"
  have o: "bufs n = ?Q \<union> ru_bufs r \<union> ?P" "?Q \<inter> ru_bufs r = {}" "?Q \<inter> ?P = {}" "ru_bufs r \<inter> ?P = {}"
    "pq_inv n q" "ru_ok n r"
    using own by (simp_all add: own_inv_def)
  have rest: "bufs n' - ip_bufs (pa_conn a') = ?Q \<union> ru_bufs r"
    using bs o by blast
  have p': "ip_bufs (pa_conn a') \<subseteq> bufs n'"
    by (rule ip_bufs_held [OF new(3)])
  have "pq_inv n' q"
    by (rule pq_frame [OF o(5)]) (use rest mem o in auto)
  moreover have "ru_ok n' r"
    by (rule ru_ok_frame [OF o(6)]) (use rest mem o in auto)
  ultimately show ?thesis
    using new rest p' o(2) by (auto simp: own_inv_def)
qed

lemma own_queue_change:
  assumes own: "own_inv n q r a" and new: "net_inv n'" "\<not> packetbuf_is_reference (nt_pb n')" "pq_inv n' q'"
    and bs: "bufs n' - pq_bufs q' = bufs n - pq_bufs q"
    and mem: "\<forall>b \<in> bufs n - pq_bufs q. m_mem (nt_bufmem n') b = m_mem (nt_bufmem n) b"
  shows "own_inv n' q' r a"
proof -
  let ?P = "ip_bufs (pa_conn a)" and ?Q = "pq_bufs q"
  have o: "bufs n = ?Q \<union> ru_bufs r \<union> ?P" "?Q \<inter> ru_bufs r = {}" "?Q \<inter> ?P = {}" "ru_bufs r \<inter> ?P = {}"
    "ru_ok n r" "held_ok n (ip_q (pa_conn a))" "pa_ok a"
    using own by (simp_all add: own_inv_def)
  have rest: "bufs n' - pq_bufs q' = ru_bufs r \<union> ?P"
    using bs o by blast
  have q': "pq_bufs q' \<subseteq> bufs n'"
    by (rule pq_bufs_sub [OF new(3)])
  have "ru_ok n' r"
    by (rule ru_ok_frame [OF o(5)]) (use rest mem o in auto)
  moreover have "held_ok n' (ip_q (pa_conn a))"
    by (rule held_ok_frame [OF o(6)]) (use rest mem o in \<open>auto simp: ip_bufs_set\<close>)
  ultimately show ?thesis
    using new rest q' o(4,7) by (auto simp: own_inv_def)
qed

section \<open>The operations\<close>

lemma own_enqueue [own_intros]:
  assumes own: "own_inv n q r a" and en: "packetqueue_enqueue_packetbuf now n q lt p = (b, n', q')"
  shows "own_inv n' q' r a"
proof -
  have h: "net_inv n" "pq_inv n q" "\<not> packetbuf_is_reference (nt_pb n)"
    using own by (simp_all add: own_inv_def)
  show ?thesis
  proof (cases b)
    case True
    then have "packetqueue_enqueue_packetbuf now n q lt p = (True, n', q')"
      using en by simp
    note et = enqueue_True [OF h this]
    obtain x where x: "x \<notin> bufs n" "bufs n' = insert x (bufs n)" "pq_bufs q' = insert x (pq_bufs q)"
      using et(4) by blast
    then have bs: "bufs n' - pq_bufs q' = bufs n - pq_bufs q"
      by auto
    show ?thesis
      by (rule own_queue_change [OF own et(1) _ et(2) bs]) (use et(5,7) h(3) in auto)
  next
    case False
    then have "packetqueue_enqueue_packetbuf now n q lt p = (False, n', q')"
      using en by simp
    note ef = enqueue_False [OF h this]
    show ?thesis
      by (rule own_queue_change [OF own ef(2) _ ef(3)]) (use ef(1,6) h(3) in simp_all)
  qed
qed

lemma own_dequeue [own_intros]:
  assumes own: "own_inv n q r a" and dq: "packetqueue_dequeue n q = (n', q')"
  shows "own_inv n' q' r a"
proof -
  have h: "net_inv n" "pq_inv n q" and nr: "\<not> packetbuf_is_reference (nt_pb n)"
    using own by (simp_all add: own_inv_def)
  note ds = dequeue_spec [OF h dq]
  have bs: "bufs n' - pq_bufs q' = bufs n - pq_bufs q"
    using ds(5,6) pq_bufs_sub [OF h(2)] by blast
  show ?thesis
    by (rule own_queue_change [OF own ds(1) _ ds(2) bs]) (use ds(7,8) nr in simp_all)
qed

lemma own_relunicast_send [own_intros]:
  assumes own: "own_inv n q r a" and rs: "relunicast_send e n r rc m es = (b, n', r')"
  shows "own_inv n' q r' a"
proof -
  have h: "net_inv n" "ru_ok n r" "\<not> packetbuf_is_reference (nt_pb n)"
    using own by (simp_all add: own_inv_def)
  from relunicast_send_spec [OF h rs] show ?thesis
    by (intro own_ru_change [OF own]) blast+
qed

lemma send_nonref:
  assumes inv: "net_inv n" and ru: "ru_ok n r" and tx: "ru_is_tx r \<noteq> 0" and env: "env_ok e"
    and nr: "\<not> packetbuf_is_reference (nt_pb n)" and sd: "send e n r = (out, n', r')"
  shows "\<not> packetbuf_is_reference (nt_pb n')"
proof (cases "ru_rxmit r > ru_max_rxmit r")
  case True
  with sd nr show ?thesis
    by (auto simp: send_def Let_def)
next
  case False
  let ?c = "r\<lparr>ru_rxmit := ru_rxmit r + 1\<rparr>"
  obtain b ack where us: "unicast_send (ev_me e) (ev_out e) (tx_packet e n ?c) (ru_receiver ?c) = (b, ack)"
    by (rule prod.exhaust)
  obtain x where x: "ru_buf ?c = Some x" "held_ok n (ru_buf ?c)"
    using ru tx by (auto simp: ru_ok_def)
  have "\<not> packetbuf_is_reference b"
    using unicast_send_ok(2) [OF env tx_packet_spec(1) [OF inv x(2,1)] us] .
  with sd False us show ?thesis
    by (auto simp: send_def Let_def split: prod.splits)
qed

lemma own_send [own_intros]:
  assumes own: "own_inv n q r a" and env: "env_ok e" and tx: "ru_is_tx r \<noteq> 0" and sd: "send e n r = (out, n', r')"
  shows "own_inv n' q r' a"
proof -
  have h: "net_inv n" "ru_ok n r" "\<not> packetbuf_is_reference (nt_pb n)"
    using own by (simp_all add: own_inv_def)
  note ss = send_spec [OF h(1,2) tx env sd]
  show ?thesis
    by (rule own_ru_change [OF own ss(1) send_nonref [OF h(1,2) tx env h(3) sd] ss(2)])
      (use ss(3-5) in \<open>simp_all add: ru_bufs_def\<close>)
qed

lemma own_observe [own_intros]:
  assumes own: "own_inv n q r a" and ob: "observe e n a = (n', a')"
  shows "own_inv n' q r a'"
proof -
  have h: "net_inv n" "held_ok n (ip_q (pa_conn a))" "pa_ok a" and nr: "\<not> packetbuf_is_reference (nt_pb n)"
    using own by (simp_all add: own_inv_def)
  note os = observe_spec [OF h ob]
  have "\<not> packetbuf_is_reference (nt_pb n')"
    using os(9) nr by (simp split: if_splits)
  then show ?thesis
    using os(1-4,8) by (intro own_ann_change [OF own]) auto
qed

lemma own_set_value [own_intros]:
  assumes own: "own_inv n q r a" and sv: "announcement_set_value e n a p v = (n', a')"
  shows "own_inv n' q r a'"
proof (rule own_observe)
  let ?a = "a\<lparr>al_mem := (al_mem a)(p := (al_mem a p)\<lparr>an_value := v\<rparr>)\<rparr>"
  show "own_inv n q r ?a"
    using own by (simp add: own_inv_def pa_ok_def ann_inv_def)
  show "observe e n ?a = (n', a')"
    using sv by (simp add: announcement_set_value_def)
qed

lemma own_listen [simp]: "own_inv n q r (announcement_listen a t) = own_inv n q r a"
  by (simp add: own_inv_def announcement_listen_def pa_ok_def ann_inv_def)

lemma own_send_timer [own_intros]:
  assumes own: "own_inv n q r a" and iv: "pa_timer a \<noteq> None" and st: "send_timer e n a = (n', a')"
  shows "own_inv n' q r a'"
proof -
  have h: "net_inv n" "held_ok n (ip_q (pa_conn a))" "ann_inv a" and nr: "\<not> packetbuf_is_reference (nt_pb n)"
    and b: "pa_min a \<le> pa_interval a" "pa_interval a \<le> pa_max a" and mx: "unat (pa_max a) < 32768"
    using own iv by (auto simp: own_inv_def pa_ok_def ann_inv_def)
  have "2 \<le> unat (pa_interval a)"
    using h(3) b(1) by (auto simp: ann_inv_def word_le_nat_alt)
  then have ne: "pa_interval a \<noteq> 0"
    by auto
  obtain s1 a1 where sd: "send_adv e n a (pa_interval a) = (s1, a1)"
    by fastforce
  note sp = send_adv_spec [OF h ne sd]
  note ts = send_timer_spec [OF h b st]
  have n': "n' = s1" "pa_conn a' = pa_conn a1"
    using st sd by (simp_all add: send_timer_def split: if_splits) auto
  have "pa_ok a'"
    using ts(3,5-8) next_interval_bounds [OF b mx] by (simp add: pa_ok_def)
  then show ?thesis
    using sp ts n' by (intro own_ann_change [OF own]) auto
qed

text \<open>The packet read from a queued buffer.\<close>

lemma own_to_packetbuf [own_intros]:
  assumes own: "own_inv n q r a" and i: "i \<in> set (q_list q)" and b: "pq_buf (item q i) = Some b"
  shows "own_inv (queuebuf_to_packetbuf n b) q r a"
    "restored (m_mem (nt_bufmem n) b) (nt_pb (queuebuf_to_packetbuf n b))"
    "\<exists>x. queuebuf_to_packetbuf n b = n\<lparr>nt_pb := x\<rparr>"
proof -
  have inv: "net_inv n" and pq: "pq_inv n q"
    using own by (simp_all add: own_inv_def)
  have "\<exists>c \<in> bufs n. pq_buf (item q i) = Some c \<and> unat (qb_len (m_mem (nt_bufmem n) c)) \<le> 192"
    using pq i by (simp add: pq_inv_def)
  then have bb: "b \<in> bufs n" "unat (qb_len (m_mem (nt_bufmem n) b)) \<le> 192"
    using b by auto
  have "memb_inmemb (nt_bufmem n) b"
    using inv bb(1) in_use_inmemb [of "nt_bufmem n" b] by (simp add: net_inv_def bufs_def)
  then obtain x where x: "queuebuf_to_packetbuf n b = n\<lparr>nt_pb := x\<rparr>" "restored (m_mem (nt_bufmem n) b) x"
    using to_packetbuf_spec [OF inv _ bb(2)] by blast
  then show "own_inv (queuebuf_to_packetbuf n b) q r a"
    "restored (m_mem (nt_bufmem n) b) (nt_pb (queuebuf_to_packetbuf n b))"
    "\<exists>x. queuebuf_to_packetbuf n b = n\<lparr>nt_pb := x\<rparr>"
    using own_pb [OF own, of x] by (auto simp: restored_def)
qed

text \<open>The held-back announcement is given up when it is sent, cancelled or heard from a neighbor.\<close>

lemma own_ann_free:
  assumes own: "own_inv n q r a" and c: "ip_q c = None"
  shows "own_inv (free_buf n (ip_q (pa_conn a))) q r (a\<lparr>pa_conn := c\<rparr>)"
proof -
  have h: "net_inv n" "held_ok n (ip_q (pa_conn a))" "pa_ok a" and nr: "\<not> packetbuf_is_reference (nt_pb n)"
    using own by (simp_all add: own_inv_def)
  note fb = free_buf_spec [OF h(1,2)]
  show ?thesis
    using fb h nr c
    by (intro own_ann_change [OF own]) (auto simp: held_ok_def pa_ok_def ann_inv_def ip_bufs_set)
qed

lemma own_ipolite_send_cb [own_intros]:
  assumes own: "own_inv n q r a" and env: "env_ok e" and cb: "ipolite_send_cb e n (pa_conn a) = (n', c')"
  shows "own_inv n' q r (a\<lparr>pa_conn := c'\<rparr>)"
proof (cases "ip_q (pa_conn a)")
  case None
  with cb own show ?thesis
    by (auto simp: ipolite_send_cb_def)
next
  case (Some b)
  have h: "net_inv n" "held_ok n (Some b)"
    using own Some by (simp_all add: own_inv_def)
  then have bb: "b \<in> bufs n" "unat (qb_len (m_mem (nt_bufmem n) b)) \<le> 192"
    by (simp_all add: held_ok_def)
  have "memb_inmemb (nt_bufmem n) b"
    using h(1) bb(1) in_use_inmemb [of "nt_bufmem n" b] by (simp add: net_inv_def bufs_def)
  then obtain x where x: "queuebuf_to_packetbuf n b = n\<lparr>nt_pb := x\<rparr>" "restored (m_mem (nt_bufmem n) b) x"
    using to_packetbuf_spec [OF h(1) _ bb(2)] by blast
  have ox: "own_inv (n\<lparr>nt_pb := x\<rparr>) q r a"
    using own_pb [OF own, of x] x(2) by (simp add: restored_def)
  let ?s1 = "queuebuf_free (n\<lparr>nt_pb := x\<rparr>) b" and ?c1 = "(pa_conn a)\<lparr>ip_q := None\<rparr>"
  have o1: "own_inv ?s1 q r (a\<lparr>pa_conn := ?c1\<rparr>)"
    using own_ann_free [OF ox, of ?c1] Some by (simp add: free_buf_def)
  have pb1: "pb_inv (nt_pb ?s1)"
    using o1 by (simp add: own_inv_def net_inv_def)
  let ?b = "packetbuf_set_addr (nt_pb ?s1) PACKETBUF_ADDR_SENDER (ev_me e)"
  have b: "pb_inv (fst (ev_out e ?b))" "\<not> packetbuf_is_reference (fst (ev_out e ?b))"
    using env pb1 by (simp_all add: env_ok_def)
  have "(n', c') = (if time_to_glossy e - ev_slack e \<ge> 0 then (?s1\<lparr>nt_pb := fst (ev_out e ?b)\<rparr>, ?c1) else (?s1, ?c1))"
    using cb Some x(1) by (auto simp: ipolite_send_cb_def Let_def broadcast_send_def abc_send_def)
  then show ?thesis
    using o1 own_pb [OF o1 b] by (simp split: if_splits)
qed

lemma own_ipolite_recv [own_intros]:
  assumes own: "own_inv n q r a" and rc: "ipolite_recv n (pa_conn a) = (n', c')"
  shows "own_inv n' q r (a\<lparr>pa_conn := c'\<rparr>)"
proof (cases "ip_q (pa_conn a)")
  case None
  with rc own show ?thesis
    by (auto simp: ipolite_recv_def)
next
  case (Some b)
  have "own_inv (queuebuf_free n b) q r (a\<lparr>pa_conn := (pa_conn a)\<lparr>ip_q := None, ip_timer := None\<rparr>\<rparr>)"
    using own_ann_free [OF own, of "(pa_conn a)\<lparr>ip_q := None, ip_timer := None\<rparr>"] Some by (simp add: free_buf_def)
  with rc own Some show ?thesis
    by (auto simp: ipolite_recv_def split: if_splits)
qed

end
