(* ===== verification/Relcollect_Inv.thy ===== *)
theory Relcollect_Inv
  imports Relcollect Ownership
begin

text \<open>
  The invariant of a node running the collection protocol, kept by every event that reaches it, and
  what follows: no queue buffer is lost or shared, the neighbor table stays well formed, and a
  transmission is only under way while the connection is marked as forwarding.
\<close>

section \<open>The invariant\<close>

definition node_inv :: "node \<Rightarrow> bool" where
  "node_inv s \<longleftrightarrow> own_inv (rl_net s) (rl_queue s) (rl_ru s) (rl_ann s) \<and> nb_inv (rl_nb s) \<and>
     length (rl_recent s) = NUM_RECENT_PACKETS \<and> unat (rl_recent_ptr s) < NUM_RECENT_PACKETS \<and>
     (ru_is_tx (rl_ru s) \<noteq> 0 \<longrightarrow> rl_forwarding s \<noteq> 0)"

named_theorems node_intros

lemma set_attr_simps [simp]:
  "rl_nb (set_attr s t v) = rl_nb s" "rl_ann (set_attr s t v) = rl_ann s" "rl_queue (set_attr s t v) = rl_queue s"
  "rl_ru (set_attr s t v) = rl_ru s" "rl_rtmetric (set_attr s t v) = rl_rtmetric s"
  "rl_forwarding (set_attr s t v) = rl_forwarding s" "rl_recent (set_attr s t v) = rl_recent s"
  "rl_recent_ptr (set_attr s t v) = rl_recent_ptr s" "rl_conn (set_attr s t v) = rl_conn s"
  "rl_queuing_count (set_attr s t v) = rl_queuing_count s" "rl_queuing_size_sum (set_attr s t v) = rl_queuing_size_sum s"
  "rl_net (set_attr s t v) = (rl_net s)\<lparr>nt_pb := packetbuf_set_attr (nt_pb (rl_net s)) t v\<rparr>"
  "rl_delivered (set_attr s t v) = rl_delivered s" "rl_dropped (set_attr s t v) = rl_dropped s"
  "rl_seqno (set_attr s t v) = rl_seqno s" "rl_announcement (set_attr s t v) = rl_announcement s"
  "rl_null_addr (set_attr s t v) = rl_null_addr s"
  by (simp_all add: set_attr_def)

lemma node_set_attr [simp]: "node_inv s \<Longrightarrow> node_inv (set_attr s t v)"
  by (simp add: node_inv_def)

lemma node_inv_fields [simp]:
  "node_inv (s\<lparr>rl_rtmetric := m\<rparr>) = node_inv s" "node_inv (s\<lparr>rl_dropped := d\<rparr>) = node_inv s"
  "node_inv (s\<lparr>rl_delivered := l\<rparr>) = node_inv s" "node_inv (s\<lparr>rl_parent_id := p, rl_glossy_parent := p\<rparr>) = node_inv s"
  "node_inv (s\<lparr>rl_queuing_count := c, rl_queuing_size_sum := z\<rparr>) = node_inv s"
  "node_inv (s\<lparr>rl_seqno := w\<rparr>) = node_inv s"
  by (simp_all add: node_inv_def)

lemma node_nb [simp]: "node_inv s \<Longrightarrow> nb_inv nb \<Longrightarrow> node_inv (s\<lparr>rl_nb := nb\<rparr>)"
  by (simp add: node_inv_def)

lemma node_pb [node_intros]:
  "node_inv s \<Longrightarrow> pb_inv b \<Longrightarrow> \<not> packetbuf_is_reference b \<Longrightarrow> node_inv (s\<lparr>rl_net := (rl_net s)\<lparr>nt_pb := b\<rparr>\<rparr>)"
  by (simp add: node_inv_def own_pb)

lemma best_neighbor_inv [node_intros]: "node_inv s \<Longrightarrow> best_neighbor s = (n, s') \<Longrightarrow> node_inv s'"
  using neighbor_best_inv [of "rl_nb s"] by (auto simp: best_neighbor_def node_inv_def split: prod.splits)

lemma best_neighbor_simps:
  "best_neighbor s = (n, s') \<Longrightarrow> s' = s\<lparr>rl_nb := snd (neighbor_best (rl_nb s))\<rparr> \<and> n = fst (neighbor_best (rl_nb s))"
  by (auto simp: best_neighbor_def split: prod.splits)

lemma announce_inv [node_intros]: "node_inv s \<Longrightarrow> node_inv (announce e s)"
  using own_set_value [of "rl_net s" "rl_queue s" "rl_ru s" "rl_ann s" e "rl_announcement s" "rl_rtmetric s"]
  by (auto simp: announce_def node_inv_def split: prod.splits)

lemma announce_simps [simp]:
  "rl_nb (announce e s) = rl_nb s" "rl_queue (announce e s) = rl_queue s" "rl_ru (announce e s) = rl_ru s"
  "rl_rtmetric (announce e s) = rl_rtmetric s" "rl_forwarding (announce e s) = rl_forwarding s"
  "rl_recent (announce e s) = rl_recent s" "rl_recent_ptr (announce e s) = rl_recent_ptr s"
  "rl_conn (announce e s) = rl_conn s" "rl_delivered (announce e s) = rl_delivered s"
  by (simp_all add: announce_def split: prod.split)

lemma update_stats_simps [simp]:
  "rl_nb (update_stats e s i) = rl_nb s" "rl_queue (update_stats e s i) = rl_queue s"
  "rl_ru (update_stats e s i) = rl_ru s" "rl_ann (update_stats e s i) = rl_ann s"
  "rl_forwarding (update_stats e s i) = rl_forwarding s" "rl_rtmetric (update_stats e s i) = rl_rtmetric s"
  "rl_recent (update_stats e s i) = rl_recent s" "rl_recent_ptr (update_stats e s i) = rl_recent_ptr s"
  "rl_delivered (update_stats e s i) = rl_delivered s"
  by (simp_all add: update_stats_def Let_def)

lemma update_stats_inv [node_intros]: "node_inv s \<Longrightarrow> node_inv (update_stats e s i)"
proof -
  assume "node_inv s"
  then have "node_inv (s\<lparr>rl_queuing_count := c, rl_queuing_size_sum := z\<rparr>)" for c z
    by simp
  then show ?thesis
    by (simp add: update_stats_def Let_def)
qed

lemma pick_parent_inv [node_intros]: "node_inv s \<Longrightarrow> pick_parent s = (n, s') \<Longrightarrow> node_inv s'"
proof -
  assume a: "node_inv s" "pick_parent s = (n, s')"
  obtain m s1 where b: "best_neighbor s = (m, s1)"
    by (rule prod.exhaust)
  have i1: "node_inv s1"
    using best_neighbor_inv [OF a(1) b] .
  have i2: "node_inv (s1\<lparr>rl_nb := neighbor_remove (rl_nb s1) x\<rparr>)" for x
    using i1 neighbor_remove_inv by (simp add: node_inv_def)
  show ?thesis
    using a(2) b i1 best_neighbor_inv [OF i2] by (auto simp: pick_parent_def split: option.splits if_splits)
qed

lemma pick_parent_simps: "pick_parent s = (n, s') \<Longrightarrow> \<exists>nb. s' = s\<lparr>rl_nb := nb\<rparr>"
  by (auto simp: pick_parent_def best_neighbor_def split: prod.splits option.splits if_splits)

lemma prepare_inv [node_intros]: "node_inv s \<Longrightarrow> node_inv (prepare e s i addr)"
proof -
  assume inv: "node_inv s"
  have i: "node_inv (update_stats e (if rimeaddr_cmp (ev_me e) (pb_addr s PACKETBUF_ADDR_ESENDER)
      then set_attr (s\<lparr>rl_parent_id := u8_0 addr, rl_glossy_parent := u8_0 addr\<rparr>) PACKETBUF_ATTR_RTMETRIC
             (ucast (ucast (rl_rtmetric s) :: u8))
      else s) i)" (is "node_inv ?s")
    by (intro update_stats_inv) (use inv in simp)
  have "prepare e s i addr = ?s\<lparr>rl_forwarding := 1\<rparr>"
    by (simp add: prepare_def Let_def)
  with i show ?thesis
    by (simp add: node_inv_def)
qed

lemma prepare_simps [simp]:
  "rl_nb (prepare e s i addr) = rl_nb s" "rl_queue (prepare e s i addr) = rl_queue s"
  "rl_ru (prepare e s i addr) = rl_ru s" "rl_ann (prepare e s i addr) = rl_ann s"
  "rl_forwarding (prepare e s i addr) = 1" "rl_rtmetric (prepare e s i addr) = rl_rtmetric s"
  "rl_recent (prepare e s i addr) = rl_recent s" "rl_recent_ptr (prepare e s i addr) = rl_recent_ptr s"
  "rl_delivered (prepare e s i addr) = rl_delivered s"
  by (simp_all add: prepare_def Let_def)

text \<open>The state after \<open>send_to\<close>, with the result of \<open>relunicast_send\<close>.\<close>

lemma send_to_cases:
  obtains b m r where "relunicast_send e (rl_net (prepare e s i (n_addr (nbr (rl_nb s) n)))) (rl_ru s) (n_addr (nbr (rl_nb s) n))
      (ucast (attr (prepare e s i (n_addr (nbr (rl_nb s) n))) PACKETBUF_ATTR_MAX_REXMIT))
      (pb_addr (prepare e s i (n_addr (nbr (rl_nb s) n))) PACKETBUF_ADDR_ESENDER) = (b, m, r)"
    and "send_to e s i n = (prepare e s i (n_addr (nbr (rl_nb s) n)))\<lparr>rl_net := m, rl_ru := r\<rparr>"
proof -
  let ?p = "prepare e s i (n_addr (nbr (rl_nb s) n))"
  obtain b m r where rs: "relunicast_send e (rl_net ?p) (rl_ru ?p) (n_addr (nbr (rl_nb s) n))
      (ucast (attr ?p PACKETBUF_ATTR_MAX_REXMIT)) (pb_addr ?p PACKETBUF_ADDR_ESENDER) = (b, m, r)"
    by (metis prod_cases3)
  have "send_to e s i n = ?p\<lparr>rl_net := m, rl_ru := r\<rparr>"
    unfolding send_to_def Let_def rs by simp
  with rs that show ?thesis
    by simp
qed

lemma send_to_inv [node_intros]:
  assumes inv: "node_inv s"
  shows "node_inv (send_to e s i n)"
proof -
  let ?p = "prepare e s i (n_addr (nbr (rl_nb s) n))"
  obtain b m r where rs: "relunicast_send e (rl_net ?p) (rl_ru s) (n_addr (nbr (rl_nb s) n))
      (ucast (attr ?p PACKETBUF_ATTR_MAX_REXMIT)) (pb_addr ?p PACKETBUF_ADDR_ESENDER) = (b, m, r)"
    and st: "send_to e s i n = ?p\<lparr>rl_net := m, rl_ru := r\<rparr>"
    by (rule send_to_cases)
  have i: "node_inv ?p"
    by (rule prepare_inv [OF inv])
  then have "own_inv m (rl_queue ?p) r (rl_ann ?p)"
    using own_relunicast_send [OF _ rs] by (simp add: node_inv_def)
  with i show ?thesis
    by (simp add: st node_inv_def)
qed

lemma first_item: "packetqueue_first q = Some i \<Longrightarrow> i \<in> set (q_list q)"
  by (auto simp: packetqueue_first_def split: list.splits)

lemma to_packetbuf_node [node_intros]:
  assumes inv: "node_inv s" and i: "packetqueue_first (rl_queue s) = Some i" and b: "packetqueue_queuebuf (rl_queue s) (Some i) = Some b"
  shows "node_inv (s\<lparr>rl_net := queuebuf_to_packetbuf (rl_net s) b\<rparr>)"
  using own_to_packetbuf(1) [of "rl_net s" "rl_queue s" "rl_ru s" "rl_ann s" i b] inv first_item [OF i] b
  by (simp add: node_inv_def packetqueue_queuebuf_def)

lemma rel_send_queued_packet_inv [node_intros]:
  assumes inv: "node_inv s"
  shows "node_inv (rel_send_queued_packet e s)"
proof (cases "packetqueue_first (rl_queue s)")
  case None
  with inv show ?thesis
    by (simp add: rel_send_queued_packet_def)
next
  case (Some i)
  show ?thesis
  proof (cases "packetqueue_queuebuf (rl_queue s) (Some i)")
    case None
    with inv Some show ?thesis
      by (simp add: rel_send_queued_packet_def split: option.split)
  next
    case q: (Some b)
    obtain m s1 where pp: "pick_parent (s\<lparr>rl_net := queuebuf_to_packetbuf (rl_net s) b\<rparr>) = (m, s1)"
      by (rule prod.exhaust)
    have "node_inv s1"
      using pick_parent_inv [OF to_packetbuf_node [OF inv Some q] pp] .
    then show ?thesis
      using inv Some q pp send_to_inv by (simp add: rel_send_queued_packet_def split: option.split)
  qed
qed

section \<open>Every operation keeps the invariant\<close>

lemma rel_update_rtmetric_inv [node_intros]:
  assumes inv: "node_inv s"
  shows "node_inv (rel_update_rtmetric e s)"
proof -
  obtain n s1 where b: "best_neighbor s = (n, s1)"
    by (rule prod.exhaust)
  have i1: "node_inv s1"
    by (rule best_neighbor_inv [OF inv b])
  have "node_inv (announce e (s1\<lparr>rl_rtmetric := m\<rparr>))" for m
    by (rule announce_inv) (use i1 in simp)
  then show ?thesis
    using inv i1 rel_send_queued_packet_inv
    by (auto simp: rel_update_rtmetric_def b Let_def split: option.split)
qed

lemma enqueue_inv [node_intros]: "node_inv s \<Longrightarrow> enqueue e s = (r, s') \<Longrightarrow> node_inv s'"
  by (auto simp: enqueue_def node_inv_def split: prod.splits intro: own_enqueue)

lemma dequeue_inv [node_intros]: "node_inv s \<Longrightarrow> node_inv (dequeue s)"
  by (auto simp: dequeue_def node_inv_def split: prod.split intro: own_dequeue)

lemma remember_inv [node_intros]: "node_inv s \<Longrightarrow> node_inv (remember s)"
proof -
  assume "node_inv s"
  moreover have "unat (of_nat ((unat (rl_recent_ptr s) + 1) mod 20) :: u8) < 20"
  proof -
    have "(unat (rl_recent_ptr s) + 1) mod 20 < 20"
      by simp
    then show ?thesis
      by (simp only: unat8_of_nat)
  qed
  ultimately show ?thesis
    by (simp add: node_inv_def remember_def NUM_RECENT_PACKETS_def)
qed

lemma deliver_inv [node_intros]: "node_inv s \<Longrightarrow> node_inv (deliver s)"
  by (simp add: deliver_def)

lemma rel_node_packet_received_inv [node_intros]:
  assumes inv: "node_inv s"
  shows "node_inv (rel_node_packet_received e s)"
proof (cases "is_recent (rl_recent s) (pb_addr s PACKETBUF_ADDR_ESENDER) (attr s PACKETBUF_ATTR_EPACKET_ID)")
  case True
  with inv show ?thesis
    by (simp add: rel_node_packet_received_def)
next
  case False
  define s2 where "s2 = (if \<not> attr (remember s) PACKETBUF_ATTR_RTMETRIC > rl_rtmetric (remember s)
    then rel_update_rtmetric e (remember s) else remember s)"
  have i2: "node_inv s2"
    using remember_inv [OF inv] rel_update_rtmetric_inv by (simp add: s2_def)
  obtain r s3 where en: "enqueue e s2 = (r, s3)"
    by (rule prod.exhaust)
  have "rel_node_packet_received e s =
      (if rl_rtmetric s2 = SINK_METRIC then deliver s2
       else if rl_rtmetric s2 \<noteq> RTMETRIC_MAX
       then (if r then rel_send_queued_packet e s3 else s3\<lparr>rl_dropped := rl_dropped s3 + 1\<rparr>) else s2)"
    using False unfolding rel_node_packet_received_def Let_def s2_def [symmetric] en by (cases r) simp_all
  then show ?thesis
    using deliver_inv [OF i2] enqueue_inv [OF i2 en] rel_send_queued_packet_inv i2 by simp
qed

lemma node_sent_inv:
  assumes inv: "node_inv s" and tx: "ru_is_tx (rl_ru s) = 0"
  shows "node_inv (rel_node_packet_sent e s to k)" "node_inv (rel_node_packet_timedout e s to k)"
proof -
  have "node_inv (s\<lparr>rl_forwarding := 0, rl_nb := nb\<rparr>)" if "nb_inv nb" for nb
    using inv tx that by (simp add: node_inv_def)
  moreover have "nb_inv (rl_nb s)"
    using inv by (simp add: node_inv_def)
  ultimately have i: "node_inv (s\<lparr>rl_forwarding := 0, rl_nb := neighbor_update_etx (rl_nb s) n x\<rparr>)"
      "node_inv (s\<lparr>rl_forwarding := 0, rl_nb := neighbor_timedout_etx (rl_nb s) n x\<rparr>)" for n x
    using neighbor_update_etx_inv neighbor_timedout_etx_inv by blast+
  show "node_inv (rel_node_packet_sent e s to k)" "node_inv (rel_node_packet_timedout e s to k)"
    unfolding rel_node_packet_sent_def rel_node_packet_timedout_def Let_def
    by (intro rel_send_queued_packet_inv dequeue_inv rel_update_rtmetric_inv i)+
qed

lemma relunicast_timer_inv [node_intros]:
  assumes inv: "node_inv s" and tx: "ru_is_tx (rl_ru s) \<noteq> 0" and env: "env_ok e"
  shows "node_inv (relunicast_timer e s)"
proof -
  obtain r n ru where sd: "send e (rl_net s) (rl_ru s) = (r, n, ru)"
    by (metis prod_cases3)
  have own: "own_inv (rl_net s) (rl_queue s) (rl_ru s) (rl_ann s)"
    using inv by (simp add: node_inv_def)
  have own': "own_inv n (rl_queue s) ru (rl_ann s)"
    by (rule own_send [OF own env tx sd])
  have r: "r = Rescheduled \<longleftrightarrow> ru_is_tx ru \<noteq> 0"
    using send_spec(6) [OF _ _ tx env sd] own by (simp add: own_inv_def)
  have i: "node_inv (s\<lparr>rl_net := n, rl_ru := ru\<rparr>)"
    using inv own' tx by (simp add: node_inv_def)
  show ?thesis
    using i r node_sent_inv [OF i] by (cases r) (simp_all add: relunicast_timer_def sd Let_def)
qed

lemma received_announcement_inv [node_intros]:
  assumes inv: "node_inv s" and a: "from \<noteq> rimeaddr_null"
  shows "node_inv (received_announcement e s from v)"
proof -
  have nb: "nb_inv (rl_nb s)"
    using inv by (simp add: node_inv_def)
  show ?thesis
    unfolding received_announcement_def
    by (rule rel_update_rtmetric_inv)
      (use inv neighbor_add_inv [OF nb a] neighbor_update_inv [OF nb] in \<open>auto split: option.split\<close>)
qed

lemma relcollect_set_sink_inv [node_intros]: "node_inv s \<Longrightarrow> node_inv (relcollect_set_sink e s b)"
  unfolding relcollect_set_sink_def by (intro rel_update_rtmetric_inv announce_inv) simp

lemma stamp_inv [node_intros]: "node_inv s \<Longrightarrow> node_inv (stamp e s rexmits)"
proof -
  assume inv: "node_inv s"
  let ?s1 = "set_attr s PACKETBUF_ATTR_EPACKET_ID (ucast (rl_seqno s))"
  have i1: "node_inv ?s1"
    using inv by (rule node_set_attr)
  have "node_inv (s1\<lparr>rl_seqno := w, rl_net := (rl_net s1)\<lparr>nt_pb := packetbuf_set_addr (nt_pb (rl_net s1)) a x\<rparr>\<rparr>)"
    if "node_inv s1" for s1 w a x
    using that by (simp add: node_inv_def)
  from this [OF i1] show ?thesis
    unfolding stamp_def Let_def by (intro node_set_attr)
qed

lemma stamp_simps [simp]:
  "rl_nb (stamp e s k) = rl_nb s" "rl_queue (stamp e s k) = rl_queue s" "rl_ru (stamp e s k) = rl_ru s"
  "rl_ann (stamp e s k) = rl_ann s" "rl_rtmetric (stamp e s k) = rl_rtmetric s"
  "rl_forwarding (stamp e s k) = rl_forwarding s" "rl_conn (stamp e s k) = rl_conn s"
  "bufs (rl_net (stamp e s k)) = bufs (rl_net s)" "rl_recent (stamp e s k) = rl_recent s"
  "rl_delivered (stamp e s k) = rl_delivered s" "pb_data (nt_pb (rl_net (stamp e s k))) = pb_data (nt_pb (rl_net s))"
  by (simp_all add: stamp_def Let_def)

lemma relcollect_send_inv [node_intros]:
  assumes inv: "node_inv s" and rs: "relcollect_send e s rexmits = (r, s')"
  shows "node_inv s'"
proof -
  define s1 where "s1 = stamp e s rexmits"
  have i1: "node_inv s1"
    using stamp_inv [OF inv] by (simp add: s1_def)
  obtain n s2 where b: "best_neighbor s1 = (n, s2)"
    by (rule prod.exhaust)
  have i2: "node_inv s2"
    by (rule best_neighbor_inv [OF i1 b])
  then have i2': "node_inv (s2\<lparr>rl_ann := announcement_listen (rl_ann s2) 1\<rparr>)"
    by (simp add: node_inv_def)
  obtain x s3 where e3: "enqueue e s2 = (x, s3)"
    by (rule prod.exhaust)
  obtain y s4 where e4: "enqueue e (s2\<lparr>rl_ann := announcement_listen (rl_ann s2) 1\<rparr>) = (y, s4)"
    by (rule prod.exhaust)
  have i: "node_inv (deliver s1)" "node_inv s3" "node_inv s4" "node_inv (rel_send_queued_packet e s3)"
    using deliver_inv [OF i1] enqueue_inv [OF i2 e3] enqueue_inv [OF i2' e4] rel_send_queued_packet_inv by blast+
  note rc = rs [unfolded relcollect_send_def Let_def, folded s1_def]
  have sink: "node_inv s'" if "rl_rtmetric s1 = SINK_METRIC"
    using rc that i(1) by auto
  have par: "node_inv s'" if "rl_rtmetric s1 \<noteq> SINK_METRIC" "n \<noteq> None"
    using rc that i(2,4) e3 b by (cases x) auto
  have nopar: "node_inv s'" if "rl_rtmetric s1 \<noteq> SINK_METRIC" "n = None"
    using rc that i(3) e4 b by (cases y) auto
  show ?thesis
    using sink par nopar by blast
qed

lemma packet_input_inv [node_intros]:
  assumes "node_inv s" and "pb_inv b" and "\<not> packetbuf_is_reference b"
  shows "node_inv (packet_input e s b)"
  using node_pb [OF assms] rel_node_packet_received_inv by (simp add: packet_input_def Let_def split: option.split)

lemma announcement_input_inv [node_intros]:
  assumes inv: "node_inv s" and b: "pb_inv b" "\<not> packetbuf_is_reference b" and a: "recv_from_abc b \<noteq> rimeaddr_null"
  shows "node_inv (announcement_input e s b)"
proof -
  obtain n c where ip: "ipolite_recv ((rl_net s)\<lparr>nt_pb := b\<rparr>) (pa_conn (rl_ann s)) = (n, c)"
    by (rule prod.exhaust)
  have "own_inv ((rl_net s)\<lparr>nt_pb := b\<rparr>) (rl_queue s) (rl_ru s) (rl_ann s)"
    using inv own_pb b by (simp add: node_inv_def)
  from own_ipolite_recv [OF this ip] inv have i: "node_inv (s\<lparr>rl_net := n, rl_ann := (rl_ann s)\<lparr>pa_conn := c\<rparr>\<rparr>)"
    by (simp add: node_inv_def)
  have "node_inv (foldl (\<lambda>s iv. if announcement_heard (rl_ann s) (fst iv) = Some (rl_announcement s)
      then received_announcement e s (recv_from_abc b) (snd iv) else s) t l)" if "node_inv t" for t l
    using that received_announcement_inv [OF _ a] by (induction l arbitrary: t) auto
  with i ip show ?thesis
    by (simp add: announcement_input_def)
qed

section \<open>The events of a node\<close>

datatype node_event =
    Ev_Packet env packetbuf
  | Ev_Announcement env packetbuf
  | Ev_Tx_Timer env
  | Ev_Send env packetbuf int
  | Ev_Set_Sink env bool
  | Ev_Neighbor_Periodic
  | Ev_Announcement_Timer env
  | Ev_Ipolite_Timer env

fun node_step :: "node \<Rightarrow> node_event \<Rightarrow> node" where
  "node_step s (Ev_Packet e b) = packet_input e s b"
| "node_step s (Ev_Announcement e b) = announcement_input e s b"
| "node_step s (Ev_Tx_Timer e) = relunicast_timer e s"
| "node_step s (Ev_Send e b rexmits) = snd (relcollect_send e (s\<lparr>rl_net := (rl_net s)\<lparr>nt_pb := b\<rparr>\<rparr>) rexmits)"
| "node_step s (Ev_Set_Sink e b) = relcollect_set_sink e s b"
| "node_step s Ev_Neighbor_Periodic = s\<lparr>rl_nb := periodic (rl_nb s)\<rparr>"
| "node_step s (Ev_Announcement_Timer e) =
     (case send_timer e (rl_net s) (rl_ann s) of (n, a) \<Rightarrow> s\<lparr>rl_net := n, rl_ann := a\<rparr>)"
| "node_step s (Ev_Ipolite_Timer e) =
     (case ipolite_send_cb e (rl_net s) (pa_conn (rl_ann s)) of (n, c) \<Rightarrow> s\<lparr>rl_net := n, rl_ann := (rl_ann s)\<lparr>pa_conn := c\<rparr>\<rparr>)"

text \<open>
  What holds when an event happens: a received packet is in a well-formed packet buffer, a timer only
  fires when it was set, and no node has the null address.
\<close>

definition pb_ok :: "packetbuf \<Rightarrow> bool" where
  "pb_ok b \<longleftrightarrow> pb_inv b \<and> \<not> packetbuf_is_reference b"

fun node_event_ok :: "node \<Rightarrow> node_event \<Rightarrow> bool" where
  "node_event_ok s (Ev_Packet e b) \<longleftrightarrow> pb_ok b"
| "node_event_ok s (Ev_Announcement e b) \<longleftrightarrow> pb_ok b \<and> recv_from_abc b \<noteq> rimeaddr_null"
| "node_event_ok s (Ev_Tx_Timer e) \<longleftrightarrow> env_ok e \<and> ru_timer (rl_ru s) \<noteq> None"
| "node_event_ok s (Ev_Send e b rexmits) \<longleftrightarrow> pb_ok b"
| "node_event_ok s (Ev_Set_Sink e b) \<longleftrightarrow> True"
| "node_event_ok s Ev_Neighbor_Periodic \<longleftrightarrow> True"
| "node_event_ok s (Ev_Announcement_Timer e) \<longleftrightarrow> pa_timer (rl_ann s) \<noteq> None"
| "node_event_ok s (Ev_Ipolite_Timer e) \<longleftrightarrow> env_ok e"

lemma node_step_inv: "node_inv s \<Longrightarrow> node_event_ok s ev \<Longrightarrow> node_inv (node_step s ev)"
proof (cases ev)
  case (Ev_Packet e b)
  assume "node_inv s" "node_event_ok s ev"
  with Ev_Packet packet_input_inv show ?thesis
    by (simp add: pb_ok_def)
next
  case (Ev_Announcement e b)
  assume "node_inv s" "node_event_ok s ev"
  with Ev_Announcement announcement_input_inv show ?thesis
    by (simp add: pb_ok_def)
next
  case (Ev_Tx_Timer e)
  assume a: "node_inv s" "node_event_ok s ev"
  then have "ru_is_tx (rl_ru s) \<noteq> 0"
    using Ev_Tx_Timer by (auto simp: node_inv_def own_inv_def ru_ok_def)
  with a Ev_Tx_Timer relunicast_timer_inv show ?thesis
    by simp
next
  case (Ev_Send e b rexmits)
  assume a: "node_inv s" "node_event_ok s ev"
  let ?s = "s\<lparr>rl_net := (rl_net s)\<lparr>nt_pb := b\<rparr>\<rparr>"
  have "node_inv ?s"
    using a Ev_Send node_pb by (simp add: pb_ok_def)
  with relcollect_send_inv [of ?s e rexmits] Ev_Send show ?thesis
    by (cases "relcollect_send e ?s rexmits") simp
next
  case (Ev_Set_Sink e b)
  assume "node_inv s" "node_event_ok s ev"
  with Ev_Set_Sink relcollect_set_sink_inv show ?thesis
    by simp
next
  case Ev_Neighbor_Periodic
  assume "node_inv s" "node_event_ok s ev"
  with Ev_Neighbor_Periodic periodic_inv show ?thesis
    by (simp add: node_inv_def)
next
  case (Ev_Announcement_Timer e)
  assume a: "node_inv s" "node_event_ok s ev"
  with Ev_Announcement_Timer own_send_timer [of "rl_net s" "rl_queue s" "rl_ru s" "rl_ann s" e] show ?thesis
    by (auto simp: node_inv_def split: prod.split)
next
  case (Ev_Ipolite_Timer e)
  assume a: "node_inv s" "node_event_ok s ev"
  with Ev_Ipolite_Timer own_ipolite_send_cb [of "rl_net s" "rl_queue s" "rl_ru s" "rl_ann s" e] show ?thesis
    by (auto simp: node_inv_def split: prod.split)
qed

interpretation ndm: machine node_step node_event_ok node_inv
  by unfold_locales (rule node_step_inv)

end
