(* ===== verification/Relcollect_Props.thy ===== *)
theory Relcollect_Props
  imports Relcollect_Inv
begin

text \<open>
  The properties of the collection protocol: the queue buffers of a whole node, the duplicate filter, the
  statistics, the static topologies, what a sent and a received packet become, and the flaws that the
  model shows.
\<close>

section \<open>What the operations leave alone\<close>

lemma best_neighbor_keep:
  "best_neighbor s = (n, s') \<Longrightarrow> rl_recent s' = rl_recent s \<and> rl_recent_ptr s' = rl_recent_ptr s \<and> rl_queue s' = rl_queue s \<and>
     rl_net s' = rl_net s \<and> rl_ru s' = rl_ru s \<and> rl_rtmetric s' = rl_rtmetric s \<and> rl_forwarding s' = rl_forwarding s \<and>
     rl_delivered s' = rl_delivered s \<and> rl_ann s' = rl_ann s \<and> rl_conn s' = rl_conn s"
  by (auto dest!: best_neighbor_simps)

lemma pick_parent_keep:
  assumes "pick_parent s = (n, s')"
  shows "rl_recent s' = rl_recent s" "rl_recent_ptr s' = rl_recent_ptr s" "rl_queue s' = rl_queue s"
    "rl_net s' = rl_net s" "rl_ru s' = rl_ru s" "rl_rtmetric s' = rl_rtmetric s" "rl_forwarding s' = rl_forwarding s"
    "rl_delivered s' = rl_delivered s" "rl_ann s' = rl_ann s" "rl_conn s' = rl_conn s"
  using pick_parent_simps [OF assms] by auto

lemma send_to_keep [simp]:
  "rl_recent (send_to e s i n) = rl_recent s" "rl_recent_ptr (send_to e s i n) = rl_recent_ptr s"
  "rl_queue (send_to e s i n) = rl_queue s" "rl_rtmetric (send_to e s i n) = rl_rtmetric s"
  "rl_delivered (send_to e s i n) = rl_delivered s" "rl_forwarding (send_to e s i n) = 1"
  "rl_nb (send_to e s i n) = rl_nb s" "rl_ann (send_to e s i n) = rl_ann s"
proof -
  obtain m r where st: "send_to e s i n = (prepare e s i (n_addr (nbr (rl_nb s) n)))\<lparr>rl_net := m, rl_ru := r\<rparr>"
    by (rule send_to_cases)
  show "rl_recent (send_to e s i n) = rl_recent s" "rl_recent_ptr (send_to e s i n) = rl_recent_ptr s"
    "rl_queue (send_to e s i n) = rl_queue s" "rl_rtmetric (send_to e s i n) = rl_rtmetric s"
    "rl_delivered (send_to e s i n) = rl_delivered s" "rl_forwarding (send_to e s i n) = 1"
    "rl_nb (send_to e s i n) = rl_nb s" "rl_ann (send_to e s i n) = rl_ann s"
    unfolding st by simp_all
qed

lemma rel_send_keep [simp]:
  "rl_recent (rel_send_queued_packet e s) = rl_recent s"
  "rl_recent_ptr (rel_send_queued_packet e s) = rl_recent_ptr s"
  "rl_queue (rel_send_queued_packet e s) = rl_queue s"
  "rl_rtmetric (rel_send_queued_packet e s) = rl_rtmetric s"
  "rl_delivered (rel_send_queued_packet e s) = rl_delivered s"
  "rl_ann (rel_send_queued_packet e s) = rl_ann s"
proof -
  have "rl_recent t = rl_recent s \<and> rl_recent_ptr t = rl_recent_ptr s \<and> rl_queue t = rl_queue s \<and>
      rl_rtmetric t = rl_rtmetric s \<and> rl_delivered t = rl_delivered s \<and> rl_ann t = rl_ann s"
    if "t = rel_send_queued_packet e s" for t
  proof (cases "\<exists>i p b. packetqueue_first (rl_queue s) = Some i \<and> packetqueue_ptr (rl_queue s) (Some i) = Some p \<and>
      rl_forwarding s = 0 \<and> packetqueue_queuebuf (rl_queue s) (Some i) = Some b")
    case True
    then obtain i p b where c: "packetqueue_first (rl_queue s) = Some i" "packetqueue_ptr (rl_queue s) (Some i) = Some p"
      "rl_forwarding s = 0" "packetqueue_queuebuf (rl_queue s) (Some i) = Some b"
      by blast
    obtain n s1 where pp: "pick_parent (s\<lparr>rl_net := queuebuf_to_packetbuf (rl_net s) b\<rparr>) = (n, s1)"
      by (rule prod.exhaust)
    note k = pick_parent_keep [OF pp]
    show ?thesis
      using k c by (cases n) (simp_all add: that rel_send_queued_packet_def pp)
  next
    case False
    then have "t = s"
      by (auto simp: that rel_send_queued_packet_def split: option.splits)
    then show ?thesis
      by simp
  qed
  then show "rl_recent (rel_send_queued_packet e s) = rl_recent s"
    "rl_recent_ptr (rel_send_queued_packet e s) = rl_recent_ptr s"
    "rl_queue (rel_send_queued_packet e s) = rl_queue s"
    "rl_rtmetric (rel_send_queued_packet e s) = rl_rtmetric s"
    "rl_delivered (rel_send_queued_packet e s) = rl_delivered s"
    "rl_ann (rel_send_queued_packet e s) = rl_ann s"
    by blast+
qed

lemma rel_update_keep [simp]:
  "rl_recent (rel_update_rtmetric e s) = rl_recent s" "rl_recent_ptr (rel_update_rtmetric e s) = rl_recent_ptr s"
  "rl_queue (rel_update_rtmetric e s) = rl_queue s" "rl_delivered (rel_update_rtmetric e s) = rl_delivered s"
proof -
  obtain n s1 where b: "best_neighbor s = (n, s1)"
    by (rule prod.exhaust)
  show "rl_recent (rel_update_rtmetric e s) = rl_recent s" "rl_recent_ptr (rel_update_rtmetric e s) = rl_recent_ptr s"
    "rl_queue (rel_update_rtmetric e s) = rl_queue s" "rl_delivered (rel_update_rtmetric e s) = rl_delivered s"
    using best_neighbor_keep [OF b]
    by (auto simp: rel_update_rtmetric_def b Let_def split: option.split)
qed

lemma dequeue_keep [simp]:
  "rl_recent (dequeue s) = rl_recent s" "rl_recent_ptr (dequeue s) = rl_recent_ptr s"
  "rl_delivered (dequeue s) = rl_delivered s" "rl_rtmetric (dequeue s) = rl_rtmetric s"
  by (simp_all add: dequeue_def split: prod.split)

lemma enqueue_keep:
  "enqueue e s = (r, s') \<Longrightarrow> rl_recent s' = rl_recent s \<and> rl_recent_ptr s' = rl_recent_ptr s \<and>
     rl_delivered s' = rl_delivered s \<and> rl_rtmetric s' = rl_rtmetric s \<and> rl_nb s' = rl_nb s \<and> rl_ru s' = rl_ru s \<and>
     rl_forwarding s' = rl_forwarding s \<and> rl_ann s' = rl_ann s \<and> rl_conn s' = rl_conn s"
  by (auto simp: enqueue_def split: prod.splits)

lemma stamp_ptr [simp]: "rl_recent_ptr (stamp e s k) = rl_recent_ptr s"
  by (simp add: stamp_def Let_def)

lemma relcollect_send_keep:
  "rl_recent (snd (relcollect_send e s k)) = rl_recent s \<and> rl_recent_ptr (snd (relcollect_send e s k)) = rl_recent_ptr s"
proof -
  obtain n s2 where b: "best_neighbor (stamp e s k) = (n, s2)"
    by (rule prod.exhaust)
  obtain x s3 where e3: "enqueue e s2 = (x, s3)"
    by (rule prod.exhaust)
  obtain y s4 where e4: "enqueue e (s2\<lparr>rl_ann := announcement_listen (rl_ann s) 1\<rparr>) = (y, s4)"
    by (rule prod.exhaust)
  note k = best_neighbor_keep [OF b] enqueue_keep [OF e3] enqueue_keep [OF e4]
  show ?thesis
    by (cases n; cases x; cases y) (use k in \<open>simp_all add: relcollect_send_def Let_def b e3 e4 deliver_def\<close>)
qed

section \<open>The duplicate filter\<close>

text \<open>\<open>key\<close> was written \<open>k\<close> packets ago, at position \<open>p\<close> of the ring.\<close>

definition ring :: "nat \<Rightarrow> nat \<Rightarrow> rimeaddr \<times> u8 \<Rightarrow> node \<Rightarrow> bool" where
  "ring p k key s \<longleftrightarrow> length (rl_recent s) = 20 \<and> p < 20 \<and> rl_recent s ! p = key \<and> unat (rl_recent_ptr s) = (p + 1 + k) mod 20"

lemma ring_keep:
  "rl_recent s' = rl_recent s \<Longrightarrow> rl_recent_ptr s' = rl_recent_ptr s \<Longrightarrow> ring p k key s' = ring p k key s"
  by (simp add: ring_def)

lemma ring_next: "(unat (w :: u8)) = m mod 20 \<Longrightarrow> unat (of_nat ((unat w + 1) mod 20) :: u8) = (m + 1) mod 20"
proof -
  assume "unat w = m mod 20"
  then have "(unat w + 1) mod 20 = (m + 1) mod 20"
    by (simp only: mod_add_left_eq)
  moreover have "(m + 1) mod 20 < 256"
    by (rule less_trans [of _ 20]) simp_all
  ultimately show ?thesis
    by (simp only: unat8_of_nat mod_less)
qed

lemma ring_distance: "p < 20 \<Longrightarrow> k < 19 \<Longrightarrow> (p + 1 + k) mod 20 \<noteq> (p :: nat)"
  by (cases "p + 1 + k < 20") (simp_all add: le_mod_geq)

lemma remember_ring: "ring p k key s \<Longrightarrow> k < 19 \<Longrightarrow> ring p (Suc k) key (remember s)"
proof -
  assume r: "ring p k key s" and k: "k < 19"
  then have p: "p < 20" "length (rl_recent s) = 20" "rl_recent s ! p = key" and u: "unat (rl_recent_ptr s) = (p + 1 + k) mod 20"
    by (simp_all add: ring_def)
  have ne: "unat (rl_recent_ptr s) \<noteq> p"
    unfolding u by (rule ring_distance [OF p(1) k])
  have "unat (rl_recent_ptr (remember s)) = (p + 1 + k + 1) mod 20"
    unfolding remember_def NUM_RECENT_PACKETS_def using ring_next [OF u] by simp
  moreover have "p + 1 + k + 1 = p + 1 + Suc k"
    by simp
  moreover have "rl_recent (remember s) ! p = key" "length (rl_recent (remember s)) = 20"
    using ne p(2,3) by (simp_all add: remember_def)
  ultimately show ?thesis
    using p(1) by (simp only: ring_def)
qed

lemma remember_new:
  assumes "length (rl_recent s) = 20" and "unat (rl_recent_ptr s) < 20"
  shows "ring (unat (rl_recent_ptr s)) 0 (pb_addr s PACKETBUF_ADDR_ESENDER, ucast (attr s PACKETBUF_ATTR_EPACKET_ID)) (remember s)"
proof -
  have "unat (rl_recent_ptr s) = unat (rl_recent_ptr s) mod 20"
    using assms(2) by simp
  from ring_next [OF this] have "unat (rl_recent_ptr (remember s)) = (unat (rl_recent_ptr s) + 1 + 0) mod 20"
    unfolding remember_def NUM_RECENT_PACKETS_def by simp
  with assms show ?thesis
    unfolding ring_def by (simp add: remember_def)
qed

text \<open>A packet that passes the filter is remembered first; nothing after that touches the filter.\<close>

lemma received_recent:
  "rl_recent (rel_node_packet_received e s) = (if is_recent (rl_recent s) (pb_addr s PACKETBUF_ADDR_ESENDER)
     (attr s PACKETBUF_ATTR_EPACKET_ID) then rl_recent s else rl_recent (remember s)) \<and>
   rl_recent_ptr (rel_node_packet_received e s) = (if is_recent (rl_recent s) (pb_addr s PACKETBUF_ADDR_ESENDER)
     (attr s PACKETBUF_ATTR_EPACKET_ID) then rl_recent_ptr s else rl_recent_ptr (remember s))"
proof (cases "is_recent (rl_recent s) (pb_addr s PACKETBUF_ADDR_ESENDER) (attr s PACKETBUF_ATTR_EPACKET_ID)")
  case True
  then show ?thesis
    by (simp add: rel_node_packet_received_def)
next
  case False
  define s2 where "s2 = (if \<not> attr (remember s) PACKETBUF_ATTR_RTMETRIC > rl_rtmetric (remember s)
    then rel_update_rtmetric e (remember s) else remember s)"
  obtain r s3 where en: "enqueue e s2 = (r, s3)"
    by (rule prod.exhaust)
  have k: "rl_recent s2 = rl_recent (remember s)" "rl_recent_ptr s2 = rl_recent_ptr (remember s)"
    by (simp_all add: s2_def)
  have "rel_node_packet_received e s =
      (if rl_rtmetric s2 = SINK_METRIC then deliver s2
       else if rl_rtmetric s2 \<noteq> RTMETRIC_MAX
       then (if r then rel_send_queued_packet e s3 else s3\<lparr>rl_dropped := rl_dropped s3 + 1\<rparr>) else s2)"
    using False unfolding rel_node_packet_received_def Let_def s2_def [symmetric] en by (cases r) simp_all
  with False k enqueue_keep [OF en] show ?thesis
    by (simp add: deliver_def)
qed

lemma packet_ring:
  assumes "ring p k key s" and "k < 19"
  shows "ring p k key (packet_input e s b) \<or> ring p (Suc k) key (packet_input e s b)"
proof -
  let ?s = "s\<lparr>rl_net := (rl_net s)\<lparr>nt_pb := b\<rparr>\<rparr>"
  have r: "ring p k key ?s"
    using assms(1) by (simp add: ring_def)
  have "packet_input e s b = ?s \<or> packet_input e s b = rel_node_packet_received e ?s"
    by (simp add: packet_input_def Let_def split: option.split)
  moreover have "ring p k key (rel_node_packet_received e ?s) \<or> ring p (Suc k) key (rel_node_packet_received e ?s)"
    using r remember_ring [OF r assms(2)] received_recent [of e ?s] by (auto simp: ring_def split: if_splits)
  ultimately show ?thesis
    using r by metis
qed

lemma announcement_recent:
  "rl_recent (announcement_input e s b) = rl_recent s \<and> rl_recent_ptr (announcement_input e s b) = rl_recent_ptr s"
proof -
  have ra: "rl_recent (received_announcement e t a v) = rl_recent t \<and> rl_recent_ptr (received_announcement e t a v) = rl_recent_ptr t"
    for t a v
    by (simp add: received_announcement_def split: option.split)
  have "rl_recent (foldl (\<lambda>s iv. if announcement_heard (rl_ann s) (fst iv) = Some (rl_announcement s)
      then received_announcement e s (recv_from_abc b) (snd iv) else s) t l) = rl_recent t \<and>
    rl_recent_ptr (foldl (\<lambda>s iv. if announcement_heard (rl_ann s) (fst iv) = Some (rl_announcement s)
      then received_announcement e s (recv_from_abc b) (snd iv) else s) t l) = rl_recent_ptr t" for t l
    using ra by (induction l arbitrary: t) auto
  then show ?thesis
    by (simp add: announcement_input_def split: prod.split)
qed

lemma timer_recent:
  "rl_recent (relunicast_timer e s) = rl_recent s \<and> rl_recent_ptr (relunicast_timer e s) = rl_recent_ptr s"
  by (simp add: relunicast_timer_def rel_node_packet_sent_def rel_node_packet_timedout_def Let_def split: prod.split outcome.split)

definition is_packet :: "node_event \<Rightarrow> bool" where
  "is_packet ev \<longleftrightarrow> (case ev of Ev_Packet _ _ \<Rightarrow> True | _ \<Rightarrow> False)"

lemma other_recent:
  "\<not> is_packet ev \<Longrightarrow> rl_recent (node_step s ev) = rl_recent s \<and> rl_recent_ptr (node_step s ev) = rl_recent_ptr s"
proof (cases ev)
  case (Ev_Announcement_Timer e)
  then show ?thesis
    by (simp split: prod.split)
next
  case (Ev_Ipolite_Timer e)
  then show ?thesis
    by (simp split: prod.split)
qed (simp_all add: is_packet_def relcollect_set_sink_def announcement_recent timer_recent relcollect_send_keep)

lemma run_ring:
  "ring p k key s \<Longrightarrow> k + length (filter is_packet es) \<le> 19 \<Longrightarrow> \<exists>j \<le> 19. ring p j key (foldl node_step s es)"
proof (induction es arbitrary: s k)
  case Nil
  then have "k \<le> 19"
    by simp
  with Nil(1) show ?case
    by (intro exI [of _ k]) (simp only: foldl_Nil simp_thms)
next
  case (Cons ev es)
  show ?case
  proof (cases "is_packet ev")
    case True
    then obtain e b where ev: "ev = Ev_Packet e b"
      by (cases ev) (simp_all add: is_packet_def)
    have "k < 19"
      using Cons.prems(2) True by simp
    have le: "k + length (filter is_packet es) \<le> 19" "Suc k + length (filter is_packet es) \<le> 19"
      using Cons.prems(2) True by simp_all
    have "node_step s ev = packet_input e s b"
      by (simp only: ev node_step.simps)
    then consider "ring p k key (node_step s ev)" | "ring p (Suc k) key (node_step s ev)"
      using packet_ring [OF Cons.prems(1) \<open>k < 19\<close>, of e b] by (elim disjE) (simp_all only:)
    then have "\<exists>j \<le> 19. ring p j key (foldl node_step (node_step s ev) es)"
      by cases (rule Cons.IH [OF _ le(1)], assumption, rule Cons.IH [OF _ le(2)], assumption)
    then show ?thesis
      by (simp only: foldl_Cons)
  next
    case False
    have "ring p k key (node_step s ev) = ring p k key s"
      using other_recent [OF False, of s] by (intro ring_keep) simp_all
    then have "ring p k key (node_step s ev)"
      using Cons.prems(1) by (simp only:)
    moreover have "k + length (filter is_packet es) \<le> 19"
      using Cons.prems(2) False by simp
    ultimately have "\<exists>j \<le> 19. ring p j key (foldl node_step (node_step s ev) es)"
      by (rule Cons.IH)
    then show ?thesis
      by (simp only: foldl_Cons)
  qed
qed

lemma ring_is_recent:
  assumes "ring p k key s" and "fst key = a" and "ucast (snd key) = w"
  shows "is_recent (rl_recent s) a w"
  using assms by (auto simp: is_recent_def ring_def list_ex_iff NUM_RECENT_PACKETS_def intro!: bexI [of _ p])

section \<open>A concrete node\<close>

definition node_start :: "u16 \<Rightarrow> node" where
  "node_start m = \<lparr>rl_net = net_start, rl_nb = nb_start, rl_ann = ann_start, rl_queue = pq_start, rl_ru = ru_start,
     rl_parent_id = 0, rl_rtmetric = m, rl_forwarding = 0, rl_seqno = 1,
     rl_recent = replicate 20 (rimeaddr_null, 0), rl_recent_ptr = 0, rl_queuing_count = 0, rl_queuing_size_sum = 0,
     rl_dropped = 0, rl_glossy_parent = 0, rl_delivered = [], rl_conn = 600, rl_announcement = 700,
     rl_null_addr = rimeaddr_null\<rparr>"

lemma own_start: "own_inv net_start pq_start ru_start ann_start"
  using net_start_inv net_start_pb pq_start_ok ann_start_ok ru_start_ok
  by (simp add: own_inv_def pq_ok_def)

lemma node_start_inv: "node_inv (node_start m)"
  using own_start nb_start_inv by (simp add: node_inv_def node_start_def NUM_RECENT_PACKETS_def ru_start_def)

text \<open>A packet of node 7 that a neighbor forwarded to this node.\<close>

definition pb_for_me :: packetbuf where
  "pb_for_me = packetbuf_set_addr pb_packet PACKETBUF_ADDR_RECEIVER (Rimeaddr 5 0)"

lemma pb_for_me_ok: "pb_ok pb_for_me" "relunicast_recv (Rimeaddr 5 0) pb_for_me \<noteq> None"
  "packetbuf_addr pb_for_me PACKETBUF_ADDR_ESENDER = Rimeaddr 7 0" "packetbuf_attr pb_for_me PACKETBUF_ATTR_EPACKET_ID = 0"
proof -
  have "pb_inv pb_packet" "\<not> packetbuf_is_reference pb_packet"
    using pb_ok_example(2) [of None] by (simp_all add: pq_fits_def)
  then show "pb_ok pb_for_me"
    by (simp add: pb_ok_def pb_for_me_def)
  show "relunicast_recv (Rimeaddr 5 0) pb_for_me \<noteq> None"
    by code_simp
  show "packetbuf_addr pb_for_me PACKETBUF_ADDR_ESENDER = Rimeaddr 7 0" "packetbuf_attr pb_for_me PACKETBUF_ATTR_EPACKET_ID = 0"
    by code_simp+
qed

section \<open>Properties\<close>

lemma pq_bufs_card: "pq_inv n q \<Longrightarrow> card (pq_bufs q) = length (q_list q)"
proof -
  assume inv: "pq_inv n q"
  then have d: "distinct (q_list q)" and inj: "inj_on (\<lambda>i. pq_buf (item q i)) (set (q_list q))"
    and some: "\<forall>i \<in> set (q_list q). \<exists>b. pq_buf (item q i) = Some b"
    by (auto simp: pq_inv_def)
  have eq: "pq_bufs q = (\<lambda>i. the (pq_buf (item q i))) ` set (q_list q)"
    using some by (force simp: pq_bufs_def)
  have "inj_on (\<lambda>i. the (pq_buf (item q i))) (set (q_list q))"
  proof (rule inj_onI)
    fix i j assume ij: "i \<in> set (q_list q)" "j \<in> set (q_list q)" "the (pq_buf (item q i)) = the (pq_buf (item q j))"
    moreover obtain b c where "pq_buf (item q i) = Some b" "pq_buf (item q j) = Some c"
      using some ij(1,2) by blast
    ultimately have "pq_buf (item q i) = pq_buf (item q j)"
      by simp
    then show "i = j"
      using inj_onD [OF inj] ij(1,2) by blast
  qed
  then show ?thesis
    unfolding eq using d by (simp add: card_image distinct_card)
qed

lemma node_buffer_count:
  assumes "node_inv s"
  shows "unat (nt_len (rl_net s)) = get_queue_size (rl_queue s) + card (ru_bufs (rl_ru s)) + card (ip_bufs (pa_conn (rl_ann s)))"
    and "card (bufs (rl_net s)) = unat (nt_len (rl_net s))" and "unat (nt_len (rl_net s)) \<le> QUEUEBUF_NUM"
proof -
  let ?n = "rl_net s" and ?Q = "pq_bufs (rl_queue s)" and ?R = "ru_bufs (rl_ru s)" and ?P = "ip_bufs (pa_conn (rl_ann s))"
  have o: "net_inv ?n" "pq_inv ?n (rl_queue s)" "bufs ?n = ?Q \<union> ?R \<union> ?P" "?Q \<inter> ?R = {}" "?Q \<inter> ?P = {}" "?R \<inter> ?P = {}"
    using assms by (simp_all add: node_inv_def own_inv_def)
  have fin: "finite ?Q" "finite ?R" "finite ?P"
    using o(3) by (metis bufs_def finite_Un finite_in_use)+
  have "card (bufs ?n) = card (?Q \<union> ?R) + card ?P"
    unfolding o(3) using fin o(5,6) by (intro card_Un_disjoint) auto
  also have "card (?Q \<union> ?R) = card ?Q + card ?R"
    using fin o(4) by (intro card_Un_disjoint)
  finally have c: "card (bufs ?n) = length (q_list (rl_queue s)) + card ?R + card ?P"
    by (simp add: pq_bufs_card [OF o(2)])
  show l: "card (bufs ?n) = unat (nt_len ?n)"
    using o(1) by (simp add: net_inv_def bufs_def)
  then show "unat (nt_len ?n) = get_queue_size (rl_queue s) + card ?R + card ?P"
    using c by (simp add: get_queue_size_def)
  have "card (in_use (nt_bufmem ?n)) \<le> m_num (nt_bufmem ?n)"
    using o(1) by (intro card_in_use_le) (simp add: net_inv_def)
  then show "unat (nt_len ?n) \<le> QUEUEBUF_NUM"
    using o(1) l by (simp add: net_inv_def bufs_def)
qed

text \<open>C23: No sequence of events (packets, announcements, timers, application sends) makes a node lose or share a
  queue buffer: \<open>queuebuf_len\<close> always equals the queued packets plus the buffer of the reliable unicast connection plus
  that of the held-back announcement, and never exceeds 22; the invariant of every component holds throughout,
  and the connection is marked as forwarding whenever a packet is being transmitted.\<close>

theorem node_buffers:
  assumes "node_inv s" and "run_ok node_step node_event_ok s es"
  shows "node_inv (foldl node_step s es) \<and>
    unat (nt_len (rl_net (foldl node_step s es))) =
      get_queue_size (rl_queue (foldl node_step s es)) + card (ru_bufs (rl_ru (foldl node_step s es))) +
      card (ip_bufs (pa_conn (rl_ann (foldl node_step s es)))) \<and>
    unat (nt_len (rl_net (foldl node_step s es))) \<le> QUEUEBUF_NUM \<and>
    (ru_is_tx (rl_ru (foldl node_step s es)) \<noteq> 0 \<longrightarrow> rl_forwarding (foldl node_step s es) \<noteq> 0)"
proof -
  have i: "node_inv (foldl node_step s es)"
    by (rule ndm.inv_run [OF assms])
  with node_buffer_count [OF i] show ?thesis
    by (simp add: node_inv_def)
qed

theorem node_buffers_witness:
  "unat (nt_len (rl_net (foldl node_step (node_start 9) [Ev_Send env_example pb_packet 3, Ev_Packet env_example pb_for_me]))) \<le> 22"
proof -
  have "pb_ok pb_packet"
    using pb_ok_example(2) [of None] by (simp add: pq_fits_def pb_ok_def)
  then have "run_ok node_step node_event_ok (node_start 9) [Ev_Send env_example pb_packet 3, Ev_Packet env_example pb_for_me]"
    using pb_for_me_ok(1) by simp
  from node_buffers [OF node_start_inv this] show ?thesis
    by (elim conjE) (simp only: QUEUEBUF_NUM_def)
qed

lemma ucast_small: "unat (w :: u16) < 256 \<Longrightarrow> ucast (ucast w :: u8) = w"
proof (rule unsigned_word_eqI)
  assume a: "unat w < 256"
  show "unat (ucast (ucast w :: u8) :: u16) = unat w"
    using a by (simp add: unsigned_ucast_eq take_bit_eq_mod unat_mod)
qed

lemma dup_input:
  "is_recent (rl_recent s) (packetbuf_addr b PACKETBUF_ADDR_ESENDER) (packetbuf_attr b PACKETBUF_ATTR_EPACKET_ID) \<Longrightarrow>
   packet_input e s b = s\<lparr>rl_net := (rl_net s)\<lparr>nt_pb := b\<rparr>\<rparr>"
  by (simp add: packet_input_def rel_node_packet_received_def pb_addr_def attr_def Let_def split: option.split)

text \<open>C33: A duplicate is dropped: after a packet was accepted, any packet with the same originator and sequence number that
  arrives while at most 19 packets arrived in between changes nothing but the packet buffer, whatever else
  happened to the node meanwhile.\<close>

theorem duplicate_dropped:
  assumes "node_inv s" and "relunicast_recv (ev_me e) b \<noteq> None"
    and "\<not> is_recent (rl_recent s) (packetbuf_addr b PACKETBUF_ADDR_ESENDER) (packetbuf_attr b PACKETBUF_ATTR_EPACKET_ID)"
    and "length (filter is_packet es) \<le> 19"
    and "packetbuf_addr b' PACKETBUF_ADDR_ESENDER = packetbuf_addr b PACKETBUF_ADDR_ESENDER"
    and "packetbuf_attr b' PACKETBUF_ATTR_EPACKET_ID = packetbuf_attr b PACKETBUF_ATTR_EPACKET_ID"
    and "unat (packetbuf_attr b PACKETBUF_ATTR_EPACKET_ID) < 256"
  shows "packet_input e' (foldl node_step (packet_input e s b) es) b' =
    (foldl node_step (packet_input e s b) es)\<lparr>rl_net := (rl_net (foldl node_step (packet_input e s b) es))\<lparr>nt_pb := b'\<rparr>\<rparr>"
proof -
  let ?s1 = "s\<lparr>rl_net := (rl_net s)\<lparr>nt_pb := b\<rparr>\<rparr>" and ?t = "foldl node_step (packet_input e s b) es"
  let ?key = "(packetbuf_addr b PACKETBUF_ADDR_ESENDER, ucast (packetbuf_attr b PACKETBUF_ATTR_EPACKET_ID) :: u8)"
  have w: "ucast (snd ?key) = packetbuf_attr b PACKETBUF_ATTR_EPACKET_ID"
    using ucast_small [OF assms(7)] by simp
  have inp: "packet_input e s b = rel_node_packet_received e ?s1"
    using assms(2) by (auto simp: packet_input_def)
  have l: "length (rl_recent ?s1) = 20" "unat (rl_recent_ptr ?s1) < 20"
    using assms(1) by (simp_all add: node_inv_def NUM_RECENT_PACKETS_def)
  have k: "pb_addr ?s1 PACKETBUF_ADDR_ESENDER = fst ?key" "attr ?s1 PACKETBUF_ATTR_EPACKET_ID = packetbuf_attr b PACKETBUF_ATTR_EPACKET_ID"
    by (simp_all add: pb_addr_def attr_def)
  have "ring (unat (rl_recent_ptr ?s1)) 0 ?key (remember ?s1)"
    using remember_new [OF l] by (simp only: k fst_conv)
  then have "ring (unat (rl_recent_ptr ?s1)) 0 ?key (packet_input e s b)"
    using received_recent [of e ?s1] assms(3) k by (simp add: inp ring_def)
  from run_ring [OF this] assms(4) obtain j where "ring (unat (rl_recent_ptr ?s1)) j ?key ?t"
    by auto
  then have "is_recent (rl_recent ?t) (fst ?key) (packetbuf_attr b PACKETBUF_ATTR_EPACKET_ID)"
    by (rule ring_is_recent [OF _ refl w])
  then have "is_recent (rl_recent ?t) (packetbuf_addr b' PACKETBUF_ADDR_ESENDER) (packetbuf_attr b' PACKETBUF_ATTR_EPACKET_ID)"
    using assms(5,6) by simp
  then show ?thesis
    by (rule dup_input)
qed

theorem duplicate_dropped_witness:
  "packet_input env_example (packet_input env_example (node_start 9) pb_for_me) pb_for_me =
     (packet_input env_example (node_start 9) pb_for_me)\<lparr>rl_net := (rl_net (packet_input env_example (node_start 9) pb_for_me))\<lparr>nt_pb := pb_for_me\<rparr>\<rparr>"
proof -
  have "relunicast_recv (ev_me env_example) pb_for_me \<noteq> None"
    using pb_for_me_ok(2) by (simp add: env_example_def)
  moreover have "\<not> is_recent (rl_recent (node_start 9)) (packetbuf_addr pb_for_me PACKETBUF_ADDR_ESENDER)
      (packetbuf_attr pb_for_me PACKETBUF_ATTR_EPACKET_ID)"
    using pb_for_me_ok(3,4) by (simp add: is_recent_def list_ex_iff node_start_def NUM_RECENT_PACKETS_def rimeaddr_null_def)
  ultimately show ?thesis
    using duplicate_dropped [OF node_start_inv, of env_example pb_for_me 9 "[]" pb_for_me env_example] pb_for_me_ok(4)
    by simp
qed

text \<open>The sink delivers every packet addressed to it once, with what its sender put into it: a packet that is not a duplicate
  makes exactly one call of the application's \<open>recv\<close>, with the originator, queuing delay, dropped packets,
  queue size and time stamp of the packet; a duplicate makes none; nothing is queued or transmitted.\<close>

theorem sink_delivers:
  assumes "rl_rtmetric s = SINK_METRIC" and "relunicast_recv (ev_me e) b \<noteq> None"
  shows "rl_delivered (packet_input e s b) = rl_delivered s @
      (if is_recent (rl_recent s) (packetbuf_addr b PACKETBUF_ADDR_ESENDER) (packetbuf_attr b PACKETBUF_ATTR_EPACKET_ID) then []
       else [\<lparr>dl_originator = packetbuf_addr b PACKETBUF_ADDR_ESENDER, dl_delay = packetbuf_attr b PACKETBUF_ATTR_QUEUING_DELAY,
              dl_dropped = packetbuf_attr b PACKETBUF_ATTR_DROPPED_PACKETS_COUNT,
              dl_queue_size = ucast (packetbuf_attr b PACKETBUF_ATTR_QUEUE_SIZE),
              dl_time_high = packetbuf_attr b PACKETBUF_ATTR_TIME_HIGH, dl_time_low = packetbuf_attr b PACKETBUF_ATTR_TIME_LOW\<rparr>]) \<and>
    rl_rtmetric (packet_input e s b) = SINK_METRIC \<and> rl_queue (packet_input e s b) = rl_queue s \<and>
    rl_ru (packet_input e s b) = rl_ru s \<and> rl_net (packet_input e s b) = (rl_net s)\<lparr>nt_pb := b\<rparr>"
proof -
  let ?s = "s\<lparr>rl_net := (rl_net s)\<lparr>nt_pb := b\<rparr>\<rparr>"
  have inp: "packet_input e s b = rel_node_packet_received e ?s"
    using assms(2) by (auto simp: packet_input_def Let_def)
  show ?thesis
  proof (cases "is_recent (rl_recent s) (packetbuf_addr b PACKETBUF_ADDR_ESENDER) (packetbuf_attr b PACKETBUF_ATTR_EPACKET_ID)")
    case True
    then show ?thesis
      using dup_input [OF True, of e] assms(1) by simp
  next
    case False
    then have "packet_input e s b = deliver (remember ?s)"
      using assms(1) unfolding inp
      by (simp add: rel_node_packet_received_def rel_update_rtmetric_def remember_def pb_addr_def attr_def Let_def)
    with False assms(1) show ?thesis
      by (simp add: deliver_def remember_def pb_addr_def attr_def)
  qed
qed

theorem sink_delivers_witness:
  "map dl_originator (rl_delivered (packet_input env_example (node_start 0) pb_for_me)) = [Rimeaddr 7 0]"
proof -
  have "relunicast_recv (ev_me env_example) pb_for_me \<noteq> None"
    using pb_for_me_ok(2) by (simp add: env_example_def)
  moreover have "\<not> is_recent (rl_recent (node_start 0)) (packetbuf_addr pb_for_me PACKETBUF_ADDR_ESENDER)
      (packetbuf_attr pb_for_me PACKETBUF_ATTR_EPACKET_ID)"
    using pb_for_me_ok(3,4) by (simp add: is_recent_def list_ex_iff node_start_def NUM_RECENT_PACKETS_def rimeaddr_null_def)
  moreover have "rl_rtmetric (node_start 0) = SINK_METRIC" "rl_delivered (node_start 0) = []"
    by (simp_all add: node_start_def SINK_METRIC_def)
  ultimately show ?thesis
    using sink_delivers [of "node_start 0" env_example pb_for_me] pb_for_me_ok(3) by simp
qed

text \<open>The queuing delay survives the wrap-around of the 16-bit clock: a packet taken \<open>d\<close> ticks after it was queued,
  for every \<open>d\<close> a \<open>clock_time_t\<close> can hold and every time of queuing, is charged exactly \<open>d\<close>.\<close>

theorem queuing_delay_wraps: "queuing_delay (t + d) t = d"
proof -
  have "65535 - t + (t + d) + 1 = d + 65536"
    by simp
  also have "(65536 :: u16) = 0"
    by simp
  finally have "65535 - t + (t + d) + 1 = d"
    by simp
  then show ?thesis
    by (simp add: queuing_delay_def)
qed

lemma half_up: "(if q mod 10 > 4 then q div 10 + 1 else q div 10) = (q + 5) div (10 :: nat)"
proof -
  obtain a r where q: "q = 10 * a + r" "r < 10"
    by (metis mod_less_divisor mult_div_mod_eq zero_less_numeral)
  have "(10 * a + r + 5) div 10 = a + (r + 5) div 10" "(10 * a + r) div 10 = a" "(10 * a + r) mod 10 = r"
    using q(2) by simp_all
  moreover have "(r + 5) div 10 = (if 4 < r then 1 else 0)"
    using q(2) by (cases "4 < r") (simp_all add: div_if)
  ultimately show ?thesis
    by (simp add: q(1))
qed

text \<open>The average queue size put into a packet is the mean rounded half up, as long as ten times the sum fits 32
  bits.\<close>

theorem queue_size_rounded:
  assumes "0 < unat c" and "unat sz * 10 < 2 ^ 32"
  shows "unat (queue_size_to_print sz c) = (2 * unat sz + unat c) div (2 * unat c)"
proof -
  have "unat sz * unat (10 :: u32) < 2 ^ LENGTH(32)"
    using assms(2) by simp
  then have "unat (sz * 10) = unat sz * unat (10 :: u32)"
    using unat_mult_lem by blast
  then have m: "unat (sz * 10) = unat sz * 10"
    by simp
  define q where "q = (unat sz * 10) div unat c"
  have q: "unat ((sz * 10) div c) = q"
    by (simp add: unat_div m q_def)
  have q32: "q < 4294967296"
    using unat32_less [of "(sz * 10) div c"] q by simp
  have q10: "unat ((sz * 10) div c div 10) = q div 10" "unat ((sz * 10) div c mod 10) = q mod 10"
    by (simp_all add: unat_div unat_mod m q_def)
  have "q div 10 + 1 < 4294967296"
    using q32 by linarith
  then have "unat ((sz * 10) div c div 10) + unat (1 :: u32) < 2 ^ LENGTH(32)"
    using q10(1) by simp
  then have "unat ((sz * 10) div c div 10 + 1) = unat ((sz * 10) div c div 10) + unat (1 :: u32)"
    using unat_add_lem by blast
  then have suc: "unat ((sz * 10) div c div 10 + 1) = q div 10 + 1"
    using q10(1) by simp
  have "unat (queue_size_to_print sz c) = (if q mod 10 > 4 then q div 10 + 1 else q div 10)"
    using q10 suc by (simp add: queue_size_to_print_def Let_def word_less_nat_alt)
  also have "\<dots> = (q + 5) div 10"
    by (rule half_up)
  also have "\<dots> = (unat sz * 10 + 5 * unat c) div unat c div 10"
    using assms(1) by (simp add: q_def)
  also have "\<dots> = (5 * (2 * unat sz + unat c)) div (5 * (2 * unat c))"
    by (simp add: div_mult2_eq [symmetric] algebra_simps)
  also have "\<dots> = (2 * unat sz + unat c) div (2 * unat c)"
    by (rule div_mult_mult1) simp
  finally show ?thesis .
qed

theorem queue_size_rounded_witness: "unat (queue_size_to_print 25 10) = 3"
  using queue_size_rounded [of 10 25] by simp

text \<open>The static topologies are trees towards the sink: from every node that one of the two tables knows, following the
  parents reaches node 200 in at most eight steps, and the sink has no parent.\<close>

fun follow :: "location \<Rightarrow> nat \<Rightarrow> nat \<Rightarrow> nat" where
  "follow l 0 i = i"
| "follow l (Suc n) i = (case static_parent l i of None \<Rightarrow> i | Some p \<Rightarrow> follow l n p)"

theorem static_topology: "static_parent l i \<noteq> None \<longrightarrow> follow l 8 i = 200 \<and> i \<noteq> 200"
proof -
  have "list_all (\<lambda>i. follow ETH 8 i = 200 \<and> i \<noteq> 200) (map fst eth_parents)"
    "list_all (\<lambda>i. follow SICS 8 i = 200 \<and> i \<noteq> 200) (map fst sics_parents)"
    by code_simp+
  then show ?thesis
    by (cases l) (auto simp: list_all_iff static_parent_def map_of_eq_None_iff split: location.splits)
qed

theorem static_topology_witness: "follow ETH 8 101 = 200"
proof -
  have "static_parent ETH 101 \<noteq> None"
    by code_simp
  then show ?thesis
    using static_topology [of ETH 101] by simp
qed

end
