(* ===== verification/Relcollect_Flow.thy ===== *)
theory Relcollect_Flow
  imports Relcollect_Props
begin

text \<open>
  The packets of the forwarding queue through the collection protocol: what an accepted packet becomes,
  that sending and announcing leave the queued packets alone, and two flaws of the code that follow
  from the model: the forwarding flag that is set although nothing is sent, and the received packet that is
  replaced by an announcement.
\<close>

section \<open>Queued packets stay as they are\<close>

lemma observe_packets:
  assumes own: "own_inv n q r a" and ob: "observe e n a = (n', a')"
  shows "packets n' q = packets n q"
proof -
  have h: "net_inv n" "held_ok n (ip_q (pa_conn a))" "pa_ok a" and pq: "pq_inv n q"
    and o: "bufs n = pq_bufs q \<union> ru_bufs r \<union> ip_bufs (pa_conn a)" "pq_bufs q \<inter> ip_bufs (pa_conn a) = {}"
    using own by (simp_all add: own_inv_def)
  note os = observe_spec [OF h ob]
  show ?thesis
    by (rule pq_frame(2) [OF pq]) (use os(3,4) o in blast)+
qed

lemma announce_packets:
  assumes "node_inv s"
  shows "packets (rl_net (announce e s)) (rl_queue s) = packets (rl_net s) (rl_queue s)"
proof -
  let ?a = "(rl_ann s)\<lparr>al_mem := (al_mem (rl_ann s))(rl_announcement s :=
     (al_mem (rl_ann s) (rl_announcement s))\<lparr>an_value := rl_rtmetric s\<rparr>)\<rparr>"
  have own: "own_inv (rl_net s) (rl_queue s) (rl_ru s) ?a"
    using assms by (simp add: node_inv_def own_inv_def pa_ok_def ann_inv_def)
  obtain n a where ob: "observe e (rl_net s) ?a = (n, a)"
    by (rule prod.exhaust)
  have "announce e s = s\<lparr>rl_net := n, rl_ann := a\<rparr>"
    by (simp add: announce_def announcement_set_value_def ob)
  with observe_packets [OF own ob] show ?thesis
    by simp
qed

lemma relunicast_send_packets:
  assumes own: "own_inv n q r a" and rs: "relunicast_send e n r rc m es = (b, n', r')"
  shows "packets n' q = packets n q"
proof -
  have h: "net_inv n" "ru_ok n r" "\<not> packetbuf_is_reference (nt_pb n)" and pq: "pq_inv n q"
    and o: "bufs n = pq_bufs q \<union> ru_bufs r \<union> ip_bufs (pa_conn a)" "pq_bufs q \<inter> ru_bufs r = {}"
    using own by (simp_all add: own_inv_def)
  from relunicast_send_spec [OF h rs]
  have sp: "bufs n' - ru_bufs r' = bufs n - ru_bufs r"
    "\<forall>b \<in> bufs n - ru_bufs r. m_mem (nt_bufmem n') b = m_mem (nt_bufmem n) b"
    by simp_all
  show ?thesis
    by (rule pq_frame(2) [OF pq]) (use sp o in blast)+
qed

lemma set_attr_packets [simp]: "packets (rl_net (set_attr s t v)) q = packets (rl_net s) q"
  by simp

lemma prepare_packets [simp]: "packets (rl_net (prepare e s i a)) q = packets (rl_net s) q"
  by (simp add: prepare_def update_stats_def Let_def)

lemma send_to_packets:
  assumes "node_inv s"
  shows "packets (rl_net (send_to e s i n)) (rl_queue s) = packets (rl_net s) (rl_queue s)"
proof -
  let ?p = "prepare e s i (n_addr (nbr (rl_nb s) n))"
  obtain b m r where rs: "relunicast_send e (rl_net ?p) (rl_ru s) (n_addr (nbr (rl_nb s) n))
      (ucast (attr ?p PACKETBUF_ATTR_MAX_REXMIT)) (pb_addr ?p PACKETBUF_ADDR_ESENDER) = (b, m, r)"
    and st: "send_to e s i n = ?p\<lparr>rl_net := m, rl_ru := r\<rparr>"
    by (rule send_to_cases)
  have "own_inv (rl_net ?p) (rl_queue s) (rl_ru s) (rl_ann s)"
    using prepare_inv [OF assms, of e i] by (simp add: node_inv_def)
  from relunicast_send_packets [OF this rs] show ?thesis
    by (simp add: st)
qed

text \<open>The steps of \<open>rel_send_queued_packet\<close> when the queue has a packet and nothing is under way.\<close>

definition head_ready :: "node \<Rightarrow> ptr \<Rightarrow> ptr \<Rightarrow> bool" where
  "head_ready s i b \<longleftrightarrow> packetqueue_first (rl_queue s) = Some i \<and> packetqueue_ptr (rl_queue s) (Some i) \<noteq> None \<and>
     rl_forwarding s = 0 \<and> packetqueue_queuebuf (rl_queue s) (Some i) = Some b"

lemma rel_send_cases:
  obtains "rel_send_queued_packet e s = s" "\<nexists>i b. head_ready s i b"
  | i b s1 where "head_ready s i b" "pick_parent (s\<lparr>rl_net := queuebuf_to_packetbuf (rl_net s) b\<rparr>) = (None, s1)"
      "rel_send_queued_packet e s = s1"
  | i b n s1 where "head_ready s i b" "pick_parent (s\<lparr>rl_net := queuebuf_to_packetbuf (rl_net s) b\<rparr>) = (Some n, s1)"
      "rel_send_queued_packet e s = send_to e s1 i n"
proof (cases "\<exists>i b. head_ready s i b")
  case True
  then obtain i b where h: "head_ready s i b"
    by blast
  obtain n s1 where pp: "pick_parent (s\<lparr>rl_net := queuebuf_to_packetbuf (rl_net s) b\<rparr>) = (n, s1)"
    by (rule prod.exhaust)
  have "rel_send_queued_packet e s = (case n of None \<Rightarrow> s1 | Some n \<Rightarrow> send_to e s1 i n)"
    using h pp by (auto simp: head_ready_def rel_send_queued_packet_def split: option.split)
  with h pp that(2,3) show ?thesis
    by (cases n) auto
next
  case False
  then have "rel_send_queued_packet e s = s"
    by (auto simp: head_ready_def rel_send_queued_packet_def split: option.split)
  with False that(1) show ?thesis
    by blast
qed

lemma head_buffer:
  assumes inv: "node_inv s" and h: "head_ready s i b"
  shows "node_inv (s\<lparr>rl_net := queuebuf_to_packetbuf (rl_net s) b\<rparr>)"
    "\<exists>x. queuebuf_to_packetbuf (rl_net s) b = (rl_net s)\<lparr>nt_pb := x\<rparr> \<and> restored (m_mem (nt_bufmem (rl_net s)) b) x"
proof -
  have f: "packetqueue_first (rl_queue s) = Some i" "packetqueue_queuebuf (rl_queue s) (Some i) = Some b"
    using h by (simp_all add: head_ready_def)
  show "node_inv (s\<lparr>rl_net := queuebuf_to_packetbuf (rl_net s) b\<rparr>)"
    by (rule to_packetbuf_node [OF inv f])
  have "own_inv (rl_net s) (rl_queue s) (rl_ru s) (rl_ann s)" "pq_buf (item (rl_queue s) i) = Some b"
    using inv f by (simp_all add: node_inv_def packetqueue_queuebuf_def)
  from own_to_packetbuf(2,3) [OF this(1) first_item [OF f(1)] this(2)]
  show "\<exists>x. queuebuf_to_packetbuf (rl_net s) b = (rl_net s)\<lparr>nt_pb := x\<rparr> \<and> restored (m_mem (nt_bufmem (rl_net s)) b) x"
    by auto
qed

lemma rel_send_packets:
  assumes inv: "node_inv s"
  shows "packets (rl_net (rel_send_queued_packet e s)) (rl_queue s) = packets (rl_net s) (rl_queue s)"
proof (rule rel_send_cases [of e s])
  fix i b s1 assume h: "head_ready s i b" "pick_parent (s\<lparr>rl_net := queuebuf_to_packetbuf (rl_net s) b\<rparr>) = (None, s1)"
    "rel_send_queued_packet e s = s1"
  with head_buffer(2) [OF inv h(1)] pick_parent_keep(4) [OF h(2)] show ?thesis
    by auto
next
  fix i b n s1 assume h: "head_ready s i b" "pick_parent (s\<lparr>rl_net := queuebuf_to_packetbuf (rl_net s) b\<rparr>) = (Some n, s1)"
    "rel_send_queued_packet e s = send_to e s1 i n"
  have "node_inv s1"
    by (rule pick_parent_inv [OF head_buffer(1) [OF inv h(1)] h(2)])
  from send_to_packets [OF this] head_buffer(2) [OF inv h(1)] pick_parent_keep(3,4) [OF h(2)] h(3) show ?thesis
    by auto
qed simp

section \<open>Accepting a packet\<close>

lemma pq_items_card: "pq_inv n q \<Longrightarrow> card (in_use (q_memb q)) = get_queue_size q"
proof -
  assume "pq_inv n q"
  then have "distinct (q_list q)" "in_use (q_memb q) = set (q_list q)"
    by (simp_all add: pq_inv_def)
  then show ?thesis
    by (simp only: get_queue_size_def distinct_card)
qed

lemma enqueue_result:
  assumes inv: "node_inv s" and en: "enqueue e s = (r, s')"
  shows "packets (rl_net s') (rl_queue s') = packets (rl_net s) (rl_queue s) @ (if r then [snapshot (nt_pb (rl_net s)) (Some (rl_conn s))] else [])"
    "\<exists>is. q_list (rl_queue s') = q_list (rl_queue s) @ is"
    "r \<longleftrightarrow> card (bufs (rl_net s)) < QUEUEBUF_NUM \<and> get_queue_size (rl_queue s) < m_num (q_memb (rl_queue s))"
    "m_num (q_memb (rl_queue s')) = m_num (q_memb (rl_queue s))"
    "r \<Longrightarrow> card (bufs (rl_net s')) = Suc (card (bufs (rl_net s)))"
    "r \<Longrightarrow> \<forall>i \<in> set (q_list (rl_queue s')). i \<in> set (q_list (rl_queue s)) \<and> item (rl_queue s') i = item (rl_queue s) i \<or>
       pq_ptr (item (rl_queue s') i) = Some (rl_conn s)"
    "s' = s\<lparr>rl_net := rl_net s', rl_queue := rl_queue s'\<rparr>"
proof -
  obtain n q where pe: "packetqueue_enqueue_packetbuf (ev_now e) (rl_net s) (rl_queue s) 0 (Some (rl_conn s)) = (r, n, q)"
    and s': "s' = s\<lparr>rl_net := n, rl_queue := q\<rparr>"
    using en by (auto simp: enqueue_def split: prod.splits)
  have h: "net_inv (rl_net s)" "pq_inv (rl_net s) (rl_queue s)" "\<not> packetbuf_is_reference (nt_pb (rl_net s))"
    using inv by (simp_all add: node_inv_def own_inv_def)
  have us: "card (in_use (q_memb (rl_queue s))) = get_queue_size (rl_queue s)" and wf: "memb_wf (q_memb (rl_queue s))"
    using pq_items_card [OF h(2)] h(2) by (simp_all add: pq_inv_def)
  have us': "card (in_use (q_memb q)) = get_queue_size q" "memb_wf (q_memb q)" if "pq_inv n q"
    using pq_items_card [OF that] that by (simp_all add: pq_inv_def)
  have fin: "finite (bufs (rl_net s))"
    by (simp add: bufs_def)
  show "s' = s\<lparr>rl_net := rl_net s', rl_queue := rl_queue s'\<rparr>"
    by (simp add: s')
  have "packets n q = packets (rl_net s) (rl_queue s) @ (if r then [snapshot (nt_pb (rl_net s)) (Some (rl_conn s))] else []) \<and>
    (\<exists>is. q_list q = q_list (rl_queue s) @ is) \<and>
    (r \<longleftrightarrow> card (bufs (rl_net s)) < QUEUEBUF_NUM \<and> get_queue_size (rl_queue s) < m_num (q_memb (rl_queue s))) \<and>
    m_num (q_memb q) = m_num (q_memb (rl_queue s)) \<and>
    (r \<longrightarrow> card (bufs n) = Suc (card (bufs (rl_net s))) \<and>
       (\<forall>i \<in> set (q_list q). i \<in> set (q_list (rl_queue s)) \<and> item q i = item (rl_queue s) i \<or> pq_ptr (item q i) = Some (rl_conn s)))"
  proof (cases r)
    case True
    then have "packetqueue_enqueue_packetbuf (ev_now e) (rl_net s) (rl_queue s) 0 (Some (rl_conn s)) = (True, n, q)"
      using pe by simp
    note et = enqueue_True [OF h this]
    obtain i b where ib: "i \<notin> set (q_list (rl_queue s))" "q_list q = q_list (rl_queue s) @ [i]" "b \<notin> bufs (rl_net s)"
      "bufs n = insert b (bufs (rl_net s))" "pq_ptr (item q i) = Some (rl_conn s)"
      "\<forall>j \<in> set (q_list (rl_queue s)). item q j = item (rl_queue s) j"
      using et(4) by blast
    have "card (bufs n) \<le> QUEUEBUF_NUM"
      using et(1) card_in_use_le [of "nt_bufmem n"] by (simp add: net_inv_def bufs_def)
    moreover have c: "card (bufs n) = Suc (card (bufs (rl_net s)))"
      using ib(3,4) fin by simp
    moreover have "get_queue_size q \<le> m_num (q_memb q)"
      using us' [OF et(2)] card_in_use_le [of "q_memb q"] by simp
    moreover have "get_queue_size q = Suc (get_queue_size (rl_queue s))"
      using ib(2) by (simp add: get_queue_size_def)
    ultimately have lt: "card (bufs (rl_net s)) < QUEUEBUF_NUM" "get_queue_size (rl_queue s) < m_num (q_memb (rl_queue s))"
      using et(8) by simp_all
    show ?thesis
      using True et(3,8) ib lt c by auto
  next
    case False
    then have "packetqueue_enqueue_packetbuf (ev_now e) (rl_net s) (rl_queue s) 0 (Some (rl_conn s)) = (False, n, q)"
      using pe by simp
    note ef = enqueue_False [OF h this]
    show ?thesis
      using False ef(4,5,7,8) us by auto
  qed
  then show "packets (rl_net s') (rl_queue s') = packets (rl_net s) (rl_queue s) @ (if r then [snapshot (nt_pb (rl_net s)) (Some (rl_conn s))] else [])"
    "\<exists>is. q_list (rl_queue s') = q_list (rl_queue s) @ is"
    "r \<longleftrightarrow> card (bufs (rl_net s)) < QUEUEBUF_NUM \<and> get_queue_size (rl_queue s) < m_num (q_memb (rl_queue s))"
    "m_num (q_memb (rl_queue s')) = m_num (q_memb (rl_queue s))"
    "r \<Longrightarrow> card (bufs (rl_net s')) = Suc (card (bufs (rl_net s)))"
    "r \<Longrightarrow> \<forall>i \<in> set (q_list (rl_queue s')). i \<in> set (q_list (rl_queue s)) \<and> item (rl_queue s') i = item (rl_queue s) i \<or>
       pq_ptr (item (rl_queue s') i) = Some (rl_conn s)"
    by (simp_all add: s')
qed

text \<open>\<open>relcollect_send\<close> queues the application's packet or says that it did not: away from the sink it returns 1
  exactly when a queue buffer and a queue item were free, and then the packet is the last one of the queue,
  with its data, its originator, sequence number and retransmission limit; otherwise the queue is as it was and
  the packet is counted as dropped. The packets queued before are never changed.\<close>

theorem relcollect_send_queues:
  assumes "node_inv s" and "rl_rtmetric s \<noteq> SINK_METRIC" and "relcollect_send e s rexmits = (r, s')"
  shows "packets (rl_net s') (rl_queue s') = packets (rl_net s) (rl_queue s) @
      (if r then [snapshot (nt_pb (rl_net (stamp e s rexmits))) (Some (rl_conn s))] else []) \<and>
    (r \<longleftrightarrow> card (bufs (rl_net s)) < QUEUEBUF_NUM \<and> get_queue_size (rl_queue s) < m_num (q_memb (rl_queue s))) \<and>
    (\<not> r \<longrightarrow> rl_dropped s' = rl_dropped s + 1) \<and>
    packetbuf_attr (nt_pb (rl_net (stamp e s rexmits))) PACKETBUF_ATTR_EPACKET_ID = ucast (rl_seqno s) \<and>
    packetbuf_attr (nt_pb (rl_net (stamp e s rexmits))) PACKETBUF_ATTR_MAX_REXMIT = word_of_int rexmits \<and>
    packetbuf_addr (nt_pb (rl_net (stamp e s rexmits))) PACKETBUF_ADDR_ESENDER = ev_me e \<and>
    pb_data (nt_pb (rl_net (stamp e s rexmits))) = pb_data (nt_pb (rl_net s))"
proof -
  define s1 where "s1 = stamp e s rexmits"
  have i1: "node_inv s1"
    using stamp_inv [OF assms(1)] by (simp add: s1_def)
  have p1: "packets (rl_net s1) (rl_queue s1) = packets (rl_net s) (rl_queue s)" "rl_dropped s1 = rl_dropped s"
    by (simp_all add: s1_def stamp_def Let_def)
  have attrs: "packetbuf_attr (nt_pb (rl_net s1)) PACKETBUF_ATTR_EPACKET_ID = ucast (rl_seqno s)"
    "packetbuf_attr (nt_pb (rl_net s1)) PACKETBUF_ATTR_MAX_REXMIT = word_of_int rexmits"
    "packetbuf_addr (nt_pb (rl_net s1)) PACKETBUF_ADDR_ESENDER = ev_me e"
    by (simp_all add: s1_def stamp_def Let_def packetbuf_attr_def packetbuf_set_attr_def packetbuf_addr_def packetbuf_set_addr_def)
  obtain n s2 where b: "best_neighbor s1 = (n, s2)"
    by (rule prod.exhaust)
  define s2' where "s2' = (if n = None then s2\<lparr>rl_ann := announcement_listen (rl_ann s2) 1\<rparr> else s2)"
  have k2: "rl_net s2' = rl_net s1" "rl_queue s2' = rl_queue s1" "rl_conn s2' = rl_conn s1"
    using best_neighbor_keep [OF b] by (simp_all add: s2'_def)
  have d2: "rl_dropped s2' = rl_dropped s1"
    using best_neighbor_simps [OF b] by (simp add: s2'_def)
  have i2: "node_inv s2'"
    using best_neighbor_inv [OF i1 b] by (simp add: s2'_def node_inv_def)
  obtain x s3 where en: "enqueue e s2' = (x, s3)"
    by (rule prod.exhaust)
  note er = enqueue_result [OF i2 en]
  have i3: "node_inv s3"
    by (rule enqueue_inv [OF i2 en])
  have d3: "rl_dropped s3 = rl_dropped s2'"
    using en by (auto simp: enqueue_def split: prod.splits)
  have m: "rl_rtmetric s1 \<noteq> SINK_METRIC"
    using assms(2) by (simp add: s1_def)
  have "(r, s') = (x, if x then (if n = None then s3 else rel_send_queued_packet e s3) else s3\<lparr>rl_dropped := rl_dropped s3 + 1\<rparr>)"
    using assms(3) m b en unfolding relcollect_send_def Let_def s1_def [symmetric] s2'_def
    by (cases n; cases x) auto
  then have res: "r = x" "packets (rl_net s') (rl_queue s') = packets (rl_net s3) (rl_queue s3)"
    "\<not> r \<Longrightarrow> rl_dropped s' = rl_dropped s3 + 1"
    using rel_send_packets [OF i3, of e] by (auto split: if_splits)
  have same: "bufs (rl_net s1) = bufs (rl_net s)" "rl_queue s1 = rl_queue s" "rl_conn s1 = rl_conn s"
    "pb_data (nt_pb (rl_net s1)) = pb_data (nt_pb (rl_net s))"
    by (simp_all add: s1_def)
  show ?thesis
    unfolding s1_def [symmetric] using res er(1,3) k2 same p1 d2 d3 attrs by simp
qed

theorem relcollect_send_queues_witness:
  "fst (relcollect_send env_example (node_start 255) 3) \<and>
   length (packets (rl_net (snd (relcollect_send env_example (node_start 255) 3))) (rl_queue (snd (relcollect_send env_example (node_start 255) 3)))) = 1"
proof -
  obtain r s' where rs: "relcollect_send env_example (node_start 255) 3 = (r, s')"
    by (rule prod.exhaust)
  have q: "bufs (rl_net (node_start 255)) = {}" "q_list (rl_queue (node_start 255)) = []" "m_num (q_memb (rl_queue (node_start 255))) = 50"
    using pq_start_ok(3) by (simp_all add: node_start_def pq_start_def packetqueue_init_def memb_init_def)
  have "rl_rtmetric (node_start 255) \<noteq> SINK_METRIC"
    by (simp add: node_start_def SINK_METRIC_def)
  from relcollect_send_queues [OF node_start_inv this rs] q show ?thesis
    by (simp add: rs get_queue_size_def QUEUEBUF_NUM_def packets_def)
qed

section \<open>A node that stops forwarding\<close>

text \<open>
  \<open>rel_send_queued_packet\<close> sets \<open>c->forwarding\<close> before it calls \<open>relunicast_send\<close> and ignores the result: when
  every queue buffer is held by the queue (or by the held-back announcement) the call returns 0, no timer is
  armed, and nothing resets the flag.
\<close>

definition stuck :: "node \<Rightarrow> bool" where
  "stuck s \<longleftrightarrow> rl_forwarding s \<noteq> 0 \<and> ru_is_tx (rl_ru s) = 0"

definition grows :: "node \<Rightarrow> node \<Rightarrow> bool" where
  "grows s s' \<longleftrightarrow> (\<exists>is. q_list (rl_queue s') = q_list (rl_queue s) @ is) \<and> rl_forwarding s' = rl_forwarding s \<and> rl_ru s' = rl_ru s"

lemma grows_refl: "q_list (rl_queue s') = q_list (rl_queue s) \<Longrightarrow> rl_forwarding s' = rl_forwarding s \<Longrightarrow> rl_ru s' = rl_ru s \<Longrightarrow> grows s s'"
  by (simp add: grows_def)

lemma grows_trans: "grows s t \<Longrightarrow> grows t u \<Longrightarrow> grows s u"
  by (auto simp: grows_def)

lemma rel_send_forwarding: "rl_forwarding s \<noteq> 0 \<Longrightarrow> rel_send_queued_packet e s = s"
  by (simp add: rel_send_queued_packet_def split: option.split)

lemma rel_update_grows: "rl_forwarding s \<noteq> 0 \<Longrightarrow> grows s (rel_update_rtmetric e s)"
proof -
  assume f: "rl_forwarding s \<noteq> 0"
  obtain n s1 where b: "best_neighbor s = (n, s1)"
    by (rule prod.exhaust)
  note k = best_neighbor_keep [OF b]
  have "rel_send_queued_packet e (announce e (s1\<lparr>rl_rtmetric := m\<rparr>)) = announce e (s1\<lparr>rl_rtmetric := m\<rparr>)" for m
    by (rule rel_send_forwarding) (use f k in simp)
  then show ?thesis
    using k by (intro grows_refl) (auto simp: rel_update_rtmetric_def b Let_def split: option.split)
qed

lemma enqueue_grows: "node_inv s \<Longrightarrow> enqueue e s = (r, s') \<Longrightarrow> grows s s'"
  using enqueue_result(2) [of s e r s'] enqueue_keep [of e s r s'] by (auto simp: grows_def)

lemma received_grows:
  assumes inv: "node_inv s" and f: "rl_forwarding s \<noteq> 0"
  shows "grows s (rel_node_packet_received e s)"
proof (cases "is_recent (rl_recent s) (pb_addr s PACKETBUF_ADDR_ESENDER) (attr s PACKETBUF_ATTR_EPACKET_ID)")
  case True
  then show ?thesis
    by (simp add: rel_node_packet_received_def grows_def)
next
  case False
  define s2 where "s2 = (if \<not> attr (remember s) PACKETBUF_ATTR_RTMETRIC > rl_rtmetric (remember s)
    then rel_update_rtmetric e (remember s) else remember s)"
  have gr: "grows s (remember s)"
    by (simp add: grows_def remember_def)
  moreover have "rl_forwarding (remember s) \<noteq> 0"
    using f by (simp add: remember_def)
  ultimately have g2: "grows s s2"
    using rel_update_grows [of "remember s" e] grows_trans by (simp add: s2_def)
  have i2: "node_inv s2"
    using remember_inv [OF inv] rel_update_rtmetric_inv by (simp add: s2_def)
  obtain r s3 where en: "enqueue e s2 = (r, s3)"
    by (rule prod.exhaust)
  have g3: "grows s s3"
    using grows_trans [OF g2 enqueue_grows [OF i2 en]] .
  have "rl_forwarding s3 \<noteq> 0"
    using g3 f by (simp add: grows_def)
  then have "rel_node_packet_received e s \<in> {deliver s2, s3, s3\<lparr>rl_dropped := rl_dropped s3 + 1\<rparr>, s2}"
    using False unfolding rel_node_packet_received_def Let_def s2_def [symmetric] en
    by (cases r) (auto simp: rel_send_forwarding)
  moreover have "grows s (deliver s2)" "grows s (s3\<lparr>rl_dropped := rl_dropped s3 + 1\<rparr>)"
    using g2 g3 by (simp_all add: grows_def deliver_def)
  ultimately show ?thesis
    using g2 g3 by auto
qed

lemma send_grows:
  assumes inv: "node_inv s" and f: "rl_forwarding s \<noteq> 0"
  shows "grows s (snd (relcollect_send e s k))"
proof -
  define s1 where "s1 = stamp e s k"
  have i1: "node_inv s1" and g1: "grows s s1"
    using stamp_inv [OF inv] by (simp_all add: s1_def grows_def)
  obtain n s2 where b: "best_neighbor s1 = (n, s2)"
    by (rule prod.exhaust)
  have i2: "node_inv s2" and i2': "node_inv (s2\<lparr>rl_ann := announcement_listen (rl_ann s2) 1\<rparr>)"
    using best_neighbor_inv [OF i1 b] by (simp_all add: node_inv_def)
  have g2: "grows s s2" "grows s (s2\<lparr>rl_ann := announcement_listen (rl_ann s2) 1\<rparr>)"
    using best_neighbor_keep [OF b] g1 by (simp_all add: grows_def)
  obtain x s3 where e3: "enqueue e s2 = (x, s3)"
    by (rule prod.exhaust)
  obtain y s4 where e4: "enqueue e (s2\<lparr>rl_ann := announcement_listen (rl_ann s2) 1\<rparr>) = (y, s4)"
    by (rule prod.exhaust)
  have g: "grows s s3" "grows s s4" "grows s (s3\<lparr>rl_dropped := d\<rparr>)" "grows s (s4\<lparr>rl_dropped := d\<rparr>)" "grows s (deliver s1)" for d
    using grows_trans [OF g2(1) enqueue_grows [OF i2 e3]] grows_trans [OF g2(2) enqueue_grows [OF i2' e4]] g1
    by (simp_all add: grows_def deliver_def)
  have "rel_send_queued_packet e s3 = s3"
    by (rule rel_send_forwarding) (use g(1) f in \<open>simp add: grows_def\<close>)
  then show ?thesis
    unfolding relcollect_send_def Let_def s1_def [symmetric] b
    using g e3 e4 by (cases n; cases x; cases y) auto
qed

lemma announcement_grows:
  assumes f: "rl_forwarding s \<noteq> 0"
  shows "grows s (announcement_input e s b)"
proof -
  have ra: "grows t (received_announcement e t a v)" if "rl_forwarding t \<noteq> 0" for t a v
  proof -
    let ?t = "(case neighbor_find (rl_nb t) a of
          None \<Rightarrow> t\<lparr>rl_nb := neighbor_add (rl_null_addr t) (rl_nb t) a (ucast v) 1\<rparr>
        | Some n \<Rightarrow> t\<lparr>rl_nb := neighbor_update (rl_nb t) (Some n) (ucast v)\<rparr>)"
    have "grows t ?t" "rl_forwarding ?t \<noteq> 0"
      using that by (auto simp: grows_def split: option.split)
    then show ?thesis
      unfolding received_announcement_def using grows_trans rel_update_grows by blast
  qed
  have fl: "grows t (foldl (\<lambda>s iv. if announcement_heard (rl_ann s) (fst iv) = Some (rl_announcement s)
      then received_announcement e s (recv_from_abc b) (snd iv) else s) t l)" if "rl_forwarding t \<noteq> 0" for t l
    using that
  proof (induction l arbitrary: t)
    case (Cons iv l)
    let ?t = "if announcement_heard (rl_ann t) (fst iv) = Some (rl_announcement t)
      then received_announcement e t (recv_from_abc b) (snd iv) else t"
    have g: "grows t ?t"
      using ra [OF Cons.prems] by (simp add: grows_def)
    moreover have "rl_forwarding ?t \<noteq> 0"
      using g Cons.prems by (simp add: grows_def)
    ultimately show ?case
      using grows_trans [OF g Cons.IH] by simp
  qed (simp add: grows_def)
  obtain n c where ip: "ipolite_recv ((rl_net s)\<lparr>nt_pb := b\<rparr>) (pa_conn (rl_ann s)) = (n, c)"
    by (rule prod.exhaust)
  have "grows s (s\<lparr>rl_net := n, rl_ann := (rl_ann s)\<lparr>pa_conn := c\<rparr>\<rparr>)"
    by (simp add: grows_def)
  then show ?thesis
    unfolding announcement_input_def ip prod.case by (rule grows_trans) (rule fl, use f in simp)
qed

lemma stuck_step:
  assumes inv: "node_inv s" and st: "stuck s" and ok: "node_event_ok s ev"
  shows "grows s (node_step s ev)"
proof -
  have f: "rl_forwarding s \<noteq> 0" and tx: "ru_is_tx (rl_ru s) = 0"
    using st by (simp_all add: stuck_def)
  have tm: "ru_timer (rl_ru s) = None"
    using inv tx by (auto simp: node_inv_def own_inv_def ru_ok_def)
  show ?thesis
  proof (cases ev)
    case (Ev_Packet e b)
    have "node_inv (s\<lparr>rl_net := (rl_net s)\<lparr>nt_pb := b\<rparr>\<rparr>)"
      using node_pb [OF inv] ok Ev_Packet by (simp add: pb_ok_def)
    from received_grows [OF this, of e] f Ev_Packet show ?thesis
      by (auto simp: packet_input_def grows_def Let_def split: option.split)
  next
    case (Ev_Announcement e b)
    then show ?thesis
      using announcement_grows [OF f] by simp
  next
    case (Ev_Tx_Timer e)
    then show ?thesis
      using ok tm by simp
  next
    case (Ev_Send e b k)
    let ?s = "s\<lparr>rl_net := (rl_net s)\<lparr>nt_pb := b\<rparr>\<rparr>"
    have "node_inv ?s"
      using node_pb [OF inv] ok Ev_Send by (simp add: pb_ok_def)
    from send_grows [OF this, of e k] f Ev_Send show ?thesis
      by (simp add: grows_def)
  next
    case (Ev_Set_Sink e b)
    let ?s = "announce e (s\<lparr>rl_rtmetric := (if b then SINK_METRIC else RTMETRIC_MAX)\<rparr>)"
    have "grows ?s (rel_update_rtmetric e ?s)"
      by (rule rel_update_grows) (use f in simp)
    then show ?thesis
      by (simp add: Ev_Set_Sink relcollect_set_sink_def grows_def)
  next
    case Ev_Neighbor_Periodic
    then show ?thesis
      by (simp add: grows_def)
  next
    case (Ev_Announcement_Timer e)
    then show ?thesis
      by (simp add: grows_def split: prod.split)
  next
    case (Ev_Ipolite_Timer e)
    then show ?thesis
      by (simp add: grows_def split: prod.split)
  qed
qed

lemma stuck_run:
  "node_inv s \<Longrightarrow> stuck s \<Longrightarrow> run_ok node_step node_event_ok s es \<Longrightarrow> grows s (foldl node_step s es)"
proof (induction es arbitrary: s)
  case Nil
  show ?case
    by (simp add: grows_def)
next
  case (Cons ev es)
  have ok: "node_event_ok s ev" "run_ok node_step node_event_ok (node_step s ev) es"
    using Cons.prems(3) by simp_all
  have g: "grows s (node_step s ev)"
    by (rule stuck_step [OF Cons.prems(1,2) ok(1)])
  have "stuck (node_step s ev)"
    using g Cons.prems(2) by (simp add: stuck_def grows_def)
  from grows_trans [OF g Cons.IH [OF node_step_inv [OF Cons.prems(1) ok(1)] this ok(2)]] show ?case
    by simp
qed

lemma pick_parent_first:
  assumes "neighbor_best (rl_nb s) = (Some n, nb)" and "n_addr (nbr nb n) \<noteq> pb_addr s PACKETBUF_ADDR_SENDER"
  shows "pick_parent s = (Some n, s\<lparr>rl_nb := nb\<rparr>)"
  using assms by (simp add: pick_parent_def best_neighbor_def pb_addr_def)

text \<open>C35: A node can stop forwarding for good. When a packet is taken from the queue while every queue buffer is held by
  the queue and the announcements, nothing is transmitted, and after that no sequence of events (packets,
  announcements, timers, application sends) ever makes the node transmit again or takes a packet from its queue.\<close>

theorem forwarding_deadlock:
  assumes "node_inv s" and "head_ready s i b" and "ru_is_tx (rl_ru s) = 0"
    and "card (bufs (rl_net s) - ru_bufs (rl_ru s)) = QUEUEBUF_NUM"
    and "neighbor_best (rl_nb s) = (Some n, nb)"
    and "n_addr (nbr nb n) \<noteq> qb_addrs (m_mem (nt_bufmem (rl_net s)) b) PACKETBUF_ADDR_SENDER"
    and "run_ok node_step node_event_ok (rel_send_queued_packet e s) es"
  shows "ru_is_tx (rl_ru (foldl node_step (rel_send_queued_packet e s) es)) = 0 \<and>
    rl_forwarding (foldl node_step (rel_send_queued_packet e s) es) = 1 \<and>
    take (get_queue_size (rl_queue s)) (q_list (rl_queue (foldl node_step (rel_send_queued_packet e s) es))) = q_list (rl_queue s)"
proof -
  obtain x where x: "queuebuf_to_packetbuf (rl_net s) b = (rl_net s)\<lparr>nt_pb := x\<rparr>" "restored (m_mem (nt_bufmem (rl_net s)) b) x"
    using head_buffer(2) [OF assms(1,2)] by blast
  let ?s1 = "s\<lparr>rl_net := (rl_net s)\<lparr>nt_pb := x\<rparr>\<rparr>"
  have i1: "node_inv ?s1"
    using head_buffer(1) [OF assms(1,2)] x(1) by simp
  have "pick_parent ?s1 = (Some n, ?s1\<lparr>rl_nb := nb\<rparr>)"
    by (rule pick_parent_first) (use assms(5,6) x(2) in \<open>simp_all add: pb_addr_def restored_def packetbuf_addr_def\<close>)
  then have rs: "rel_send_queued_packet e s = send_to e (?s1\<lparr>rl_nb := nb\<rparr>) i n"
    using assms(2) x(1) by (auto simp: head_ready_def rel_send_queued_packet_def)
  let ?s2 = "?s1\<lparr>rl_nb := nb\<rparr>"
  have "nb_inv nb"
    using neighbor_best_inv [of "rl_nb s"] assms(1,5) by (simp add: node_inv_def)
  then have i2: "node_inv ?s2"
    using i1 by (simp add: node_inv_def)
  let ?p = "prepare e ?s2 i (n_addr (nbr (rl_nb ?s2) n))"
  obtain r m ru where sd: "relunicast_send e (rl_net ?p) (rl_ru ?s2) (n_addr (nbr (rl_nb ?s2) n))
      (ucast (attr ?p PACKETBUF_ATTR_MAX_REXMIT)) (pb_addr ?p PACKETBUF_ADDR_ESENDER) = (r, m, ru)"
    and st: "send_to e ?s2 i n = ?p\<lparr>rl_net := m, rl_ru := ru\<rparr>"
    by (rule send_to_cases)
  have ip: "node_inv ?p"
    by (rule prepare_inv [OF i2])
  have bp: "bufs (rl_net ?p) = bufs (rl_net s)"
    by (simp add: prepare_def update_stats_def Let_def)
  have h: "net_inv (rl_net ?p)" "ru_ok (rl_net ?p) (rl_ru ?s2)" "\<not> packetbuf_is_reference (nt_pb (rl_net ?p))"
    using ip by (simp_all add: node_inv_def own_inv_def)
  from relunicast_send_spec [OF h sd] have "\<not> r" "ru_is_tx ru = 0"
    using assms(3,4) bp by (auto split: if_splits)
  then have sk: "stuck (rel_send_queued_packet e s)" and f1: "rl_forwarding (rel_send_queued_packet e s) = 1"
    unfolding rs st by (simp_all add: stuck_def)
  have "node_inv (rel_send_queued_packet e s)"
    by (rule rel_send_queued_packet_inv [OF assms(1)])
  from stuck_run [OF this sk assms(7)] sk f1 show ?thesis
    by (auto simp: grows_def stuck_def get_queue_size_def)
qed

text \<open>A node without a parent queues packets until the buffers are used up; then it hears of two neighbors.\<close>

definition fill_step :: "node \<Rightarrow> node" where
  "fill_step s = snd (relcollect_send env_example (s\<lparr>rl_net := (rl_net s)\<lparr>nt_pb := pb_packet\<rparr>\<rparr>) 3)"

definition filled :: "nat \<Rightarrow> node \<Rightarrow> bool" where
  "filled k s \<longleftrightarrow> node_inv s \<and> card (bufs (rl_net s)) = k \<and> get_queue_size (rl_queue s) = k \<and> m_num (q_memb (rl_queue s)) = 50 \<and>
     rl_ru s = ru_start \<and> rl_forwarding s = 0 \<and> rl_nb s = nb_start \<and> rl_rtmetric s = 255 \<and> rl_conn s = 600 \<and>
     (\<forall>p \<in> set (packets (rl_net s) (rl_queue s)). snd (snd (snd p)) \<noteq> None \<and> fst (snd (snd p)) PACKETBUF_ADDR_SENDER = rimeaddr_null)"

lemma filled_start: "filled 0 (node_start 255)"
proof -
  have "bufs (rl_net (node_start 255)) = {}" "q_list (rl_queue (node_start 255)) = []" "m_num (q_memb (rl_queue (node_start 255))) = 50"
    using pq_start_ok(3) by (simp_all add: node_start_def pq_start_def packetqueue_init_def memb_init_def)
  moreover have "rl_ru (node_start 255) = ru_start" "rl_forwarding (node_start 255) = 0" "rl_nb (node_start 255) = nb_start"
    "rl_rtmetric (node_start 255) = 255" "rl_conn (node_start 255) = 600"
    by (simp_all add: node_start_def)
  ultimately show ?thesis
    using node_start_inv [of 255] by (simp add: filled_def get_queue_size_def packets_def)
qed

lemma nb_start_best: "neighbor_best nb_start = (None, nb_start)"
  by (simp add: nb_start_def nb_boot_def neighbor_init_def neighbor_best_def)

lemma filled_step:
  assumes f: "filled k s" and k: "k < 22"
  shows "filled (Suc k) (fill_step s)"
proof -
  define s0 where "s0 = stamp env_example (s\<lparr>rl_net := (rl_net s)\<lparr>nt_pb := pb_packet\<rparr>\<rparr>) 3"
  have inv: "node_inv s" and fs: "rl_ru s = ru_start" "rl_forwarding s = 0" "rl_nb s = nb_start" "rl_rtmetric s = 255" "rl_conn s = 600"
    using f by (simp_all add: filled_def)
  have "pb_inv pb_packet" "\<not> packetbuf_is_reference pb_packet"
    using pb_ok_example(2) [of None] by (simp_all add: pq_fits_def)
  then have i0: "node_inv s0"
    unfolding s0_def by (intro stamp_inv node_pb [OF inv])
  have k0: "rl_ru s0 = ru_start" "rl_forwarding s0 = 0" "rl_nb s0 = nb_start" "rl_rtmetric s0 = 255" "rl_conn s0 = 600"
      "rl_queue s0 = rl_queue s" "bufs (rl_net s0) = bufs (rl_net s)" "packets (rl_net s0) (rl_queue s) = packets (rl_net s) (rl_queue s)"
    using fs by (simp_all add: s0_def stamp_def Let_def)
  have snd0: "pb_addrs (nt_pb (rl_net s0)) PACKETBUF_ADDR_SENDER = rimeaddr_null"
    by (simp add: s0_def stamp_def Let_def packetbuf_set_addr_def packetbuf_set_attr_def pb_packet_def pb_example_def)
  define s1 where "s1 = s0\<lparr>rl_ann := announcement_listen (rl_ann s0) 1\<rparr>"
  have i1: "node_inv s1" and k1: "rl_net s1 = rl_net s0" "rl_queue s1 = rl_queue s" "rl_ru s1 = ru_start" "rl_forwarding s1 = 0"
      "rl_nb s1 = nb_start" "rl_rtmetric s1 = 255" "rl_conn s1 = 600"
    using i0 k0 by (simp_all add: s1_def node_inv_def)
  obtain r s2 where en: "enqueue env_example s1 = (r, s2)"
    by (rule prod.exhaust)
  note er = enqueue_result [OF i1 en] and ek = enqueue_keep [OF en]
  have r: r
    using er(3) f k k0 k1 by (simp add: filled_def QUEUEBUF_NUM_def)
  have "best_neighbor s0 = (None, s0)"
    by (simp add: best_neighbor_def k0 nb_start_best)
  then have fs2: "fill_step s = s2"
    using en r k0 unfolding fill_step_def relcollect_send_def Let_def s0_def [symmetric] s1_def [symmetric]
    by (simp add: SINK_METRIC_def s1_def)
  have "length (packets (rl_net s2) (rl_queue s2)) = Suc (length (packets (rl_net s) (rl_queue s)))"
    using er(1) r k0 k1 by simp
  then have "get_queue_size (rl_queue s2) = Suc k"
    using f by (simp add: packets_def get_queue_size_def filled_def)
  then show ?thesis
    unfolding fs2 filled_def
    using enqueue_inv [OF i1 en] er(1,4,5) r k0 k1 ek f snd0 by (auto simp: filled_def snapshot_def)
qed

lemma filled_all: "k \<le> 22 \<Longrightarrow> filled k ((fill_step ^^ k) (node_start 255))"
  by (induction k) (simp_all add: filled_start filled_step)

theorem forwarding_deadlock_witness:
  "ru_is_tx (rl_ru (foldl node_step (rel_send_queued_packet env_example (((fill_step ^^ 22) (node_start 255))\<lparr>rl_nb := nb_two\<rparr>))
     [Ev_Neighbor_Periodic, Ev_Send env_example pb_packet 3, Ev_Packet env_example pb_for_me])) = 0"
proof -
  define t where "t = (fill_step ^^ 22) (node_start 255)"
  define s where "s = t\<lparr>rl_nb := nb_two\<rparr>"
  have ft: "filled 22 t"
    unfolding t_def by (rule filled_all) simp
  have inv: "node_inv s"
    unfolding s_def by (rule node_nb) (use ft nb_two_inv in \<open>simp_all add: filled_def\<close>)
  have ne: "q_list (rl_queue s) \<noteq> []"
    using ft by (auto simp: filled_def get_queue_size_def s_def)
  define i where "i = hd (q_list (rl_queue s))"
  have i: "packetqueue_first (rl_queue s) = Some i" "i \<in> set (q_list (rl_queue s))"
    using ne by (cases "q_list (rl_queue s)", simp_all add: packetqueue_first_def i_def)+
  have "pq_inv (rl_net s) (rl_queue s)"
    using inv by (simp add: node_inv_def own_inv_def)
  then obtain b where b: "pq_buf (item (rl_queue s) i) = Some b"
    using i(2) by (auto simp: pq_inv_def)
  have "packet_at (rl_net s) (rl_queue s) i \<in> set (packets (rl_net t) (rl_queue t))"
    using i(2) by (simp add: packets_def s_def)
  with ft have p: "pq_ptr (item (rl_queue s) i) \<noteq> None" "qb_addrs (m_mem (nt_bufmem (rl_net s)) b) PACKETBUF_ADDR_SENDER = rimeaddr_null"
    using b by (auto simp: filled_def packet_at_def Let_def)
  have hr: "head_ready s i b"
    using i(1) b p(1) ft by (simp add: head_ready_def packetqueue_ptr_def packetqueue_queuebuf_def filled_def s_def)
  have ru: "ru_is_tx (rl_ru s) = 0" "card (bufs (rl_net s) - ru_bufs (rl_ru s)) = QUEUEBUF_NUM"
    using ft by (simp_all add: s_def filled_def ru_start_def ru_bufs_def QUEUEBUF_NUM_def)
  have "fst (neighbor_best nb_two) = Some 512" and na: "n_addr (nbr (snd (neighbor_best nb_two)) 512) \<noteq> rimeaddr_null"
    by code_simp+
  then have nb: "neighbor_best (rl_nb s) = (Some 512, snd (neighbor_best nb_two))"
    by (cases "neighbor_best nb_two") (simp add: s_def)
  have "pb_ok pb_packet" "pb_ok pb_for_me"
    using pb_ok_example(2) [of None] pb_for_me_ok by (simp_all add: pq_fits_def pb_ok_def)
  then have "run_ok node_step node_event_ok (rel_send_queued_packet env_example s)
      [Ev_Neighbor_Periodic, Ev_Send env_example pb_packet 3, Ev_Packet env_example pb_for_me]"
    by (simp only: run_ok.simps node_event_ok.simps simp_thms)
  from forwarding_deadlock [OF inv hr ru nb na [folded p(2)] this] show ?thesis
    by (simp only: s_def t_def simp_thms)
qed

section \<open>A received packet that is replaced\<close>

text \<open>
  \<open>rel_node_packet_received\<close> updates the routing metric before it queues the packet. A changed metric is announced,
  and the announcement is built in the packet buffer, where the received packet still is.
\<close>

lemma announce_pb:
  assumes inv: "node_inv s" and ob: "al_observer (rl_ann s)"
  shows "snapshot (nt_pb (rl_net (announce e s))) p = (adata (rl_ann (announce e s)), \<lambda>_. 0, \<lambda>_. rimeaddr_null, p)"
proof -
  let ?a = "(rl_ann s)\<lparr>al_mem := (al_mem (rl_ann s))(rl_announcement s :=
     (al_mem (rl_ann s) (rl_announcement s))\<lparr>an_value := rl_rtmetric s\<rparr>)\<rparr>"
  obtain n a where o: "observe e (rl_net s) ?a = (n, a)"
    by (rule prod.exhaust)
  have h: "net_inv (rl_net s)" "held_ok (rl_net s) (ip_q (pa_conn ?a))" "pa_ok ?a"
    using inv by (simp_all add: node_inv_def own_inv_def pa_ok_def ann_inv_def)
  note os = observe_spec [OF h o]
  have "announce e s = s\<lparr>rl_net := n, rl_ann := a\<rparr>"
    by (simp add: announce_def announcement_set_value_def o)
  with os(5,6,9) ob show ?thesis
    by (simp add: snapshot_def adata_def)
qed

text \<open>A packet that reaches a node while its routing metric changes is not forwarded: unless it is dropped, the
  packet that enters the forwarding queue in its place holds the node's own announcement, with all
  attributes 0 and all addresses null.\<close>

theorem received_packet_replaced:
  assumes "node_inv s" and "al_observer (rl_ann s)"
    and "\<not> is_recent (rl_recent s) (pb_addr s PACKETBUF_ADDR_ESENDER) (attr s PACKETBUF_ATTR_EPACKET_ID)"
    and "\<not> attr s PACKETBUF_ATTR_RTMETRIC > rl_rtmetric s" and "rl_rtmetric s \<noteq> SINK_METRIC" and "rl_rtmetric s \<noteq> RTMETRIC_MAX"
    and "neighbor_best (rl_nb s) = (Some n, nb)"
    and "n_rtmetric (nbr nb n) + ucast (neighbor_etx (nbr nb n)) \<notin> {rl_rtmetric s, SINK_METRIC}"
  shows "packets (rl_net (rel_node_packet_received e s)) (rl_queue (rel_node_packet_received e s)) = packets (rl_net s) (rl_queue s) \<or>
    packets (rl_net (rel_node_packet_received e s)) (rl_queue (rel_node_packet_received e s)) =
      packets (rl_net s) (rl_queue s) @ [(adata (rl_ann (rel_node_packet_received e s)), \<lambda>_. 0, \<lambda>_. rimeaddr_null, Some (rl_conn s))]"
proof -
  define m where "m = n_rtmetric (nbr nb n) + ucast (neighbor_etx (nbr nb n))"
  define s1 where "s1 = (remember s)\<lparr>rl_nb := nb, rl_rtmetric := m\<rparr>"
  define s2 where "s2 = announce e s1"
  have "nb_inv nb"
    using neighbor_best_inv [of "rl_nb s"] assms(1,7) by (simp add: node_inv_def)
  then have i1: "node_inv s1"
    using remember_inv [OF assms(1)] by (simp add: s1_def node_inv_def)
  then have i2: "node_inv s2"
    by (simp add: s2_def announce_inv)
  have rk: "rl_net (remember s) = rl_net s" "rl_queue (remember s) = rl_queue s" "rl_ann (remember s) = rl_ann s"
    "rl_nb (remember s) = rl_nb s" "rl_rtmetric (remember s) = rl_rtmetric s" "rl_conn (remember s) = rl_conn s"
    by (simp_all add: remember_def)
  have up: "rel_update_rtmetric e (remember s) = s2"
    using assms(5-8) unfolding rel_update_rtmetric_def best_neighbor_def s2_def s1_def m_def
    by (simp add: rk Let_def)
  have p2: "packets (rl_net s2) (rl_queue s2) = packets (rl_net s) (rl_queue s)"
    using announce_packets [OF i1, of e] by (simp add: s2_def s1_def rk)
  have sn: "snapshot (nt_pb (rl_net s2)) p = (adata (rl_ann s2), \<lambda>_. 0, \<lambda>_. rimeaddr_null, p)" for p
    unfolding s2_def by (rule announce_pb [OF i1]) (simp add: s1_def rk assms(2))
  have c2: "rl_conn s2 = rl_conn s" "rl_rtmetric s2 \<noteq> SINK_METRIC"
    using assms(8) by (simp_all add: s2_def s1_def rk m_def)
  obtain r s3 where en: "enqueue e s2 = (r, s3)"
    by (rule prod.exhaust)
  note er = enqueue_result [OF i2 en] and ek = enqueue_keep [OF en]
  have rn: "rel_node_packet_received e s =
      (if rl_rtmetric s2 \<noteq> RTMETRIC_MAX then if r then rel_send_queued_packet e s3 else s3\<lparr>rl_dropped := rl_dropped s3 + 1\<rparr> else s2)"
    using assms(3,4) c2 up en by (auto simp: rel_node_packet_received_def Let_def attr_def rk split: if_splits)
  have "packets (rl_net (rel_send_queued_packet e s3)) (rl_queue s3) = packets (rl_net s3) (rl_queue s3)"
    by (rule rel_send_packets [OF enqueue_inv [OF i2 en]])
  with er(1) ek p2 sn c2 show ?thesis
    unfolding rn by simp
qed

definition node_replaced :: node where
  "node_replaced = (node_start 10)\<lparr>rl_nb := nb_two, rl_net := net_start\<lparr>nt_pb := pb_for_me\<rparr>\<rparr>"

theorem received_packet_replaced_witness:
  "packets (rl_net (rel_node_packet_received env_example node_replaced)) (rl_queue (rel_node_packet_received env_example node_replaced)) \<in>
     {[], [(adata (rl_ann (rel_node_packet_received env_example node_replaced)), \<lambda>_. 0, \<lambda>_. rimeaddr_null, Some 600)]}"
proof -
  have "node_inv ((node_start 10)\<lparr>rl_net := (rl_net (node_start 10))\<lparr>nt_pb := pb_for_me\<rparr>\<rparr>)"
    by (rule node_pb [OF node_start_inv]) (use pb_for_me_ok(1) in \<open>simp_all add: pb_ok_def\<close>)
  then have inv: "node_inv node_replaced"
    using nb_two_inv by (simp add: node_replaced_def node_start_def node_inv_def)
  have f: "al_observer (rl_ann node_replaced)" "rl_rtmetric node_replaced = 10" "rl_conn node_replaced = 600"
      "rl_nb node_replaced = nb_two" "packets (rl_net node_replaced) (rl_queue node_replaced) = []"
    using ann_start_ok by (simp_all add: node_replaced_def node_start_def packets_def pq_start_def packetqueue_init_def)
  have r: "\<not> is_recent (rl_recent node_replaced) (pb_addr node_replaced PACKETBUF_ADDR_ESENDER) (attr node_replaced PACKETBUF_ATTR_EPACKET_ID)"
    "\<not> attr node_replaced PACKETBUF_ATTR_RTMETRIC > rl_rtmetric node_replaced"
    by code_simp+
  have b: "fst (neighbor_best nb_two) = Some 512"
    and m: "n_rtmetric (nbr (snd (neighbor_best nb_two)) 512) + ucast (neighbor_etx (nbr (snd (neighbor_best nb_two)) 512)) = 2"
    by code_simp+
  have b': "neighbor_best (rl_nb node_replaced) = (Some 512, snd (neighbor_best nb_two))"
    using b by (cases "neighbor_best nb_two") (simp add: f)
  have c: "rl_rtmetric node_replaced \<noteq> SINK_METRIC" "rl_rtmetric node_replaced \<noteq> RTMETRIC_MAX"
    "n_rtmetric (nbr (snd (neighbor_best nb_two)) 512) + ucast (neighbor_etx (nbr (snd (neighbor_best nb_two)) 512))
      \<notin> {rl_rtmetric node_replaced, SINK_METRIC}"
    unfolding m by (simp_all add: f SINK_METRIC_def RTMETRIC_MAX_def)
  from received_packet_replaced [OF inv f(1) r c(1,2) b' c(3), of env_example] show ?thesis
    by (simp only: f insert_iff empty_iff append_Nil simp_thms)
qed

end
