(* ===== verification/Rtimer.thy ===== *)
theory Rtimer
  imports Words
begin

text \<open>
  The real-time timer: \<open>core/sys/rtimer.c\<close> and the \<open>GLOSSY\<close> branch of \<open>cpu/msp430/rtimer-arch.c\<close>.
  There is one pending task at a time. Timer A counts the 32768 Hz clock in 16 bits (\<open>TAR\<close>); its compare
  register \<open>TACCR0\<close> raises the interrupt \<open>timera0\<close>. \<open>rtimer_set_long\<close> waits for several
  overflows of the counter.
\<close>

section \<open>State and operations\<close>

text \<open>\<open>rt_func\<close> names the callback; what it does is the argument \<open>run\<close> of the operations that call it.\<close>

record rtimer =
  rt_time :: rtimer_clock_t
  rt_overflows :: rtimer_clock_t
  rt_func :: nat
  rt_ptr :: "ptr option"

record rtimer_state =
  rs_next :: "ptr option"
  rs_mem :: "ptr \<Rightarrow> rtimer"
  rs_tar :: rtimer_clock_t
  rs_taccr0 :: rtimer_clock_t
  rs_ccie :: bool

type_synonym rtimer_callback = "nat \<Rightarrow> ptr \<Rightarrow> ptr option \<Rightarrow> rtimer_state \<Rightarrow> rtimer_state"

datatype rtimer_result = RTIMER_OK | RTIMER_ERR_FULL | RTIMER_ERR_TIME | RTIMER_ERR_ALREADY_SCHEDULED

definition rtimer_arch_init :: "rtimer_state \<Rightarrow> rtimer_state" where
  "rtimer_arch_init s = s\<lparr>rs_ccie := True\<rparr>"

definition rtimer_arch_schedule :: "rtimer_state \<Rightarrow> rtimer_clock_t \<Rightarrow> rtimer_state" where
  "rtimer_arch_schedule s t = s\<lparr>rs_taccr0 := t\<rparr>"

definition rtimer_init :: "rtimer_state \<Rightarrow> rtimer_state" where
  "rtimer_init s = rtimer_arch_init s"

definition rtimer_stop :: "rtimer_state \<Rightarrow> rtimer_state" where
  "rtimer_stop s = s\<lparr>rs_next := None\<rparr>"

definition rtimer_set ::
  "rtimer_state \<Rightarrow> ptr \<Rightarrow> rtimer_clock_t \<Rightarrow> nat \<Rightarrow> ptr option \<Rightarrow> rtimer_result \<times> rtimer_state" where
  "rtimer_set s rtimer time func p =
     (let first = (rs_next s = None);
          s1 = s\<lparr>rs_mem := (rs_mem s)(rtimer := \<lparr>rt_time = time, rt_overflows = 0, rt_func = func, rt_ptr = p\<rparr>),
                 rs_next := Some rtimer\<rparr>
      in (RTIMER_OK, if first then rtimer_arch_schedule s1 time else s1))"

definition rearm :: "rtimer_state \<Rightarrow> rtimer_state" where
  "rearm s = (case rs_next s of None \<Rightarrow> s | Some t \<Rightarrow> rtimer_arch_schedule s (rt_time (rs_mem s t)))"

definition rtimer_run_next :: "rtimer_callback \<Rightarrow> rtimer_state \<Rightarrow> rtimer_state" where
  "rtimer_run_next run s =
     (case rs_next s of
        None \<Rightarrow> s
      | Some t \<Rightarrow>
          (let s1 = s\<lparr>rs_next := None\<rparr>
           in rearm
                (if rt_overflows (rs_mem s1 t) = 0 then run (rt_func (rs_mem s1 t)) t (rt_ptr (rs_mem s1 t)) s1
                 else s1\<lparr>rs_mem := (rs_mem s1)(t := (rs_mem s1 t)\<lparr>rt_overflows := rt_overflows (rs_mem s1 t) - 1\<rparr>),
                         rs_next := Some t\<rparr>)))"

definition rtimer_reset ::
  "rtimer_state \<Rightarrow> ptr \<Rightarrow> rtimer_clock_t \<Rightarrow> nat \<Rightarrow> ptr option \<Rightarrow> rtimer_result \<times> rtimer_state" where
  "rtimer_reset s rtimer time func p =
     (let s1 = rtimer_arch_schedule (s\<lparr>rs_next := None\<rparr>) time
      in (RTIMER_OK, s1\<lparr>rs_mem := (rs_mem s1)(rtimer := (rs_mem s1 rtimer)\<lparr>rt_func := func, rt_ptr := p, rt_time := time\<rparr>),
                        rs_next := Some rtimer\<rparr>))"

text \<open>\<open>offset - (now - ref_time)\<close> is computed in 32 bits, its second operand in 16.\<close>

definition rtimer_set_long ::
  "rtimer_state \<Rightarrow> ptr \<Rightarrow> rtimer_clock_t \<Rightarrow> u32 \<Rightarrow> nat \<Rightarrow> ptr option \<Rightarrow> rtimer_result \<times> rtimer_state" where
  "rtimer_set_long s rtimer ref_time off func p =
     (RTIMER_OK,
      (case rs_next s of
         Some _ \<Rightarrow> s
       | None \<Rightarrow>
           (let now = rs_tar s
            in rtimer_arch_schedule
                 (s\<lparr>rs_mem := (rs_mem s)(rtimer :=
                      \<lparr>rt_time = ref_time + ucast off, rt_overflows = ucast (drop_bit 16 (off - ucast (now - ref_time))),
                       rt_func = func, rt_ptr = p\<rparr>),
                    rs_next := Some rtimer\<rparr>)
                 (ref_time + ucast off))))"

text \<open>\<open>None\<close>: no task is pending, and the code reads through the null pointer \<open>next_rtimer\<close>.\<close>

definition rtimer_time_to_expire :: "rtimer_state \<Rightarrow> u32 option" where
  "rtimer_time_to_expire s =
     map_option (\<lambda>t. ucast (rs_taccr0 s - rs_tar s) + push_bit 16 (ucast (rt_overflows (rs_mem s t)))) (rs_next s)"

definition timera0 :: "rtimer_callback \<Rightarrow> rtimer_state \<Rightarrow> rtimer_state" where
  "timera0 run s = rtimer_run_next run s"

text \<open>One cycle of the 32768 Hz clock: Timer A counts, and interrupts when it reaches the compare value.\<close>

definition tick :: "rtimer_callback \<Rightarrow> rtimer_state \<Rightarrow> rtimer_state" where
  "tick run s =
     (let s1 = s\<lparr>rs_tar := rs_tar s + 1\<rparr>
      in if rs_ccie s1 \<and> rs_tar s1 = rs_taccr0 s1 then timera0 run s1 else s1)"

section \<open>When a task runs\<close>

text \<open>The ticks until Timer A reaches a value again.\<close>

definition dist :: "rtimer_clock_t \<Rightarrow> rtimer_clock_t \<Rightarrow> nat" where
  "dist now target = (if now = target then 65536 else unat (target - now))"

lemma dist_pos: "0 < dist now target"
  by (simp add: dist_def unat_gt_0)

lemma dist_next: "now + 1 \<noteq> target \<Longrightarrow> dist (now + 1) target = dist now target - 1 \<and> 1 < dist now target"
proof -
  assume ne: "now + 1 \<noteq> target"
  have d: "target - (now + 1) = (target - now) - 1" and nz: "target - now \<noteq> 1"
    using ne by (simp_all add: algebra_simps)
  show ?thesis
  proof (cases "now = target")
    case True
    then show ?thesis
      using ne by (simp add: dist_def)
  next
    case False
    then have "target - now \<noteq> 0"
      by simp
    then have "unat (target - now - 1) = unat (target - now) - 1" "0 < unat (target - now)"
      by (simp_all add: unat16_pred unat_gt_0)
    moreover have "unat (target - now) \<noteq> 1"
      using nz by (simp add: word_unat_eq_iff)
    ultimately show ?thesis
      using False ne by (simp add: dist_def d)
  qed
qed

lemma dist_one: "dist now target = 1 \<longleftrightarrow> now + 1 = target"
proof -
  have "dist now (now + 1) = 1"
    by (simp add: dist_def)
  moreover have "dist now target = 1 \<Longrightarrow> now + 1 = target"
    using dist_next [of now target] by fastforce
  ultimately show ?thesis
    by auto
qed

text \<open>The task \<open>t\<close> is pending and is \<open>d\<close> ticks away.\<close>

definition due_in :: "ptr \<Rightarrow> nat \<Rightarrow> rtimer_state \<Rightarrow> bool" where
  "due_in t d s \<longleftrightarrow> rs_next s = Some t \<and> rs_ccie s \<and> (rt_overflows (rs_mem s t) = 0 \<or> rs_taccr0 s = rt_time (rs_mem s t)) \<and>
     d = unat (rt_overflows (rs_mem s t)) * 65536 + dist (rs_tar s) (rs_taccr0 s)"

text \<open>The state at the moment the callback of \<open>t\<close> is called.\<close>

definition called :: "ptr \<Rightarrow> rtimer_state \<Rightarrow> rtimer_state" where
  "called t s = s\<lparr>rs_tar := rs_taccr0 s, rs_next := None,
     rs_mem := (rs_mem s)(t := (rs_mem s t)\<lparr>rt_overflows := 0\<rparr>)\<rparr>"

lemma due_pos: "due_in t d s \<Longrightarrow> 0 < d"
  using dist_pos by (simp add: due_in_def)

lemma tick_due:
  assumes "due_in t (Suc (Suc d)) s"
  shows "due_in t (Suc d) (tick run s) \<and> called t (tick run s) = called t s \<and> rs_tar (tick run s) = rs_tar s + 1"
proof (cases "rs_tar s + 1 = rs_taccr0 s")
  case True
  have s: "rs_next s = Some t" "rs_ccie s" "rt_overflows (rs_mem s t) = 0 \<or> rs_taccr0 s = rt_time (rs_mem s t)"
    "Suc (Suc d) = unat (rt_overflows (rs_mem s t)) * 65536 + 1"
    using assms True dist_one [of "rs_tar s" "rs_taccr0 s"] by (simp_all add: due_in_def)
  then have nz: "rt_overflows (rs_mem s t) \<noteq> 0"
    by auto
  then have c: "rs_taccr0 s = rt_time (rs_mem s t)"
    using s(3) by simp
  from nz have "unat (rt_overflows (rs_mem s t) - 1) = unat (rt_overflows (rs_mem s t)) - 1" "0 < unat (rt_overflows (rs_mem s t))"
    by (simp_all add: unat16_pred unat_gt_0)
  moreover have "tick run s = s\<lparr>rs_tar := rs_tar s + 1, rs_next := Some t,
      rs_mem := (rs_mem s)(t := (rs_mem s t)\<lparr>rt_overflows := rt_overflows (rs_mem s t) - 1\<rparr>)\<rparr>"
    using True s c nz by (simp add: tick_def timera0_def rtimer_run_next_def rearm_def rtimer_arch_schedule_def)
  ultimately show ?thesis
    using s c True by (auto simp: due_in_def called_def dist_def)
next
  case False
  then have t: "tick run s = s\<lparr>rs_tar := rs_tar s + 1\<rparr>"
    by (simp add: tick_def)
  show ?thesis
    unfolding t using assms dist_next [OF False] by (auto simp: due_in_def called_def)
qed

lemma tick_fires:
  assumes "due_in t 1 s"
  shows "tick run s = rearm (run (rt_func (rs_mem s t)) t (rt_ptr (rs_mem s t)) (called t s))"
proof -
  have z: "unat (rt_overflows (rs_mem s t)) = 0" "dist (rs_tar s) (rs_taccr0 s) = 1"
    using assms dist_pos [of "rs_tar s" "rs_taccr0 s"] by (simp_all add: due_in_def)
  then have o: "rt_overflows (rs_mem s t) = 0" and e: "rs_tar s + 1 = rs_taccr0 s"
    by (simp_all only: unat_eq_0 dist_one)
  have c: "(rs_mem s)(t := (rs_mem s t)\<lparr>rt_overflows := 0\<rparr>) = rs_mem s"
    using o by (simp add: fun_upd_idem)
  show ?thesis
    using assms o e by (simp add: tick_def timera0_def rtimer_run_next_def called_def due_in_def c)
qed

lemma ticks_due:
  "due_in t d s \<Longrightarrow> j < d \<Longrightarrow>
   due_in t (d - j) ((tick run ^^ j) s) \<and> called t ((tick run ^^ j) s) = called t s \<and> rs_tar ((tick run ^^ j) s) = rs_tar s + of_nat j"
proof (induction j)
  case (Suc j)
  have ih: "due_in t (d - j) ((tick run ^^ j) s)" "called t ((tick run ^^ j) s) = called t s"
    "rs_tar ((tick run ^^ j) s) = rs_tar s + of_nat j"
    using Suc by simp_all
  have "d - j = Suc (Suc (d - Suc (Suc j)))"
    using Suc.prems(2) by simp
  with ih(1) have "due_in t (Suc (Suc (d - Suc (Suc j)))) ((tick run ^^ j) s)"
    by (simp only:)
  from tick_due [OF this, of run] ih(2,3) Suc.prems(2) show ?case
    by (simp add: Suc_diff_Suc algebra_simps)
qed simp

lemma ticks_fire:
  assumes due: "due_in t d s"
  shows "(tick run ^^ d) s = rearm (run (rt_func (rs_mem s t)) t (rt_ptr (rs_mem s t)) (called t s))"
proof -
  define s' where "s' = (tick run ^^ (d - 1)) s"
  have d: "0 < d"
    by (rule due_pos [OF due])
  then have "d - 1 < d"
    by simp
  from ticks_due [OF due this, of run] d have b: "due_in t 1 s'" "called t s' = called t s"
    by (simp_all add: s'_def)
  have "rt_func (rs_mem s' t) = rt_func (rs_mem (called t s') t)" "rt_ptr (rs_mem s' t) = rt_ptr (rs_mem (called t s') t)"
    "rt_func (rs_mem s t) = rt_func (rs_mem (called t s) t)" "rt_ptr (rs_mem s t) = rt_ptr (rs_mem (called t s) t)"
    by (simp_all add: called_def)
  with b(2) have f: "rt_func (rs_mem s' t) = rt_func (rs_mem s t)" "rt_ptr (rs_mem s' t) = rt_ptr (rs_mem s t)"
    by simp_all
  obtain k where k: "d = Suc k"
    using d by (cases d) simp_all
  have "(tick run ^^ d) s = tick run s'"
    by (simp add: s'_def k)
  with tick_fires [OF b(1), of run] f b(2) show ?thesis
    by simp
qed

lemma set_long_due:
  assumes "rs_next s = None" and "rs_ccie s"
    and "D = unat (off - ucast (rs_tar s - ref_time))"
    and "d = (if D mod 65536 = 0 then D + 65536 else D)"
    and "s1 = snd (rtimer_set_long s t ref_time off func p)"
  shows "due_in t d s1"
proof -
  define w where "w = off - ucast (rs_tar s - ref_time)"
  have lo: "(ucast w :: u16) = ref_time + ucast off - rs_tar s"
  proof -
    have "ucast w = ucast off - (rs_tar s - ref_time)"
      by (simp only: w_def ucast16_minus ucast_16_32_16)
    then show ?thesis
      by (simp add: algebra_simps)
  qed
  have s1: "s1 = s\<lparr>rs_mem := (rs_mem s)(t := \<lparr>rt_time = ref_time + ucast off, rt_overflows = ucast (drop_bit 16 w),
      rt_func = func, rt_ptr = p\<rparr>), rs_next := Some t, rs_taccr0 := ref_time + ucast off\<rparr>"
    using assms(1,5) by (simp add: rtimer_set_long_def rtimer_arch_schedule_def Let_def w_def)
  have D: "D = unat (ucast (drop_bit 16 w) :: u16) * 65536 + unat (ucast w :: u16)"
    using split32 [of w] assms(3) by (simp add: w_def)
  have z: "D mod 65536 = 0 \<longleftrightarrow> rs_tar s = ref_time + ucast off"
  proof -
    have "D mod 65536 = unat (ref_time + ucast off - rs_tar s)"
      unfolding D lo by simp
    then show ?thesis
      by (auto simp: unat_eq_0)
  qed
  show ?thesis
    using assms(2,4) z D lo by (simp add: due_in_def s1 dist_def)
qed

text \<open>C9: \<open>rtimer_set_long\<close> runs the callback exactly when it should: if the task is set \<open>D\<close> ticks
  before \<open>ref_time + offset\<close>, the callback runs \<open>D\<close> ticks later, at the counter value \<open>ref_time + offset\<close>,
  however often the 16-bit counter wraps around in between, and not before. If \<open>D\<close> is a multiple of \<open>2^16\<close> (the
  compare value is the present counter value) it runs one wrap-around later.\<close>

theorem rtimer_set_long_fires:
  assumes "rs_next s = None" and "rs_ccie s"
    and "D = unat (off - ucast (rs_tar s - ref_time))"
    and "d = (if D mod 65536 = 0 then D + 65536 else D)"
    and "s1 = snd (rtimer_set_long s t ref_time off func p)"
  shows "(\<forall>j < d. rs_next ((tick run ^^ j) s1) = Some t) \<and>
    (\<exists>s2. (tick run ^^ d) s1 = rearm (run func t p s2) \<and> rs_next s2 = None \<and> rs_tar s2 = ref_time + ucast off \<and>
       (\<forall>u. u \<noteq> t \<longrightarrow> rs_mem s2 u = rs_mem s u))"
proof -
  note due = set_long_due [OF assms]
  have f: "rt_func (rs_mem s1 t) = func" "rt_ptr (rs_mem s1 t) = p" "rs_taccr0 s1 = ref_time + ucast off"
    "\<forall>u. u \<noteq> t \<longrightarrow> rs_mem s1 u = rs_mem s u"
    using assms(1,5) by (simp_all add: rtimer_set_long_def rtimer_arch_schedule_def Let_def)
  have "rs_next ((tick run ^^ j) s1) = Some t" if "j < d" for j
    using ticks_due [OF due that, of run] by (simp add: due_in_def)
  moreover have "(tick run ^^ d) s1 = rearm (run func t p (called t s1))"
    using ticks_fire [OF due, of run] f by simp
  ultimately show ?thesis
    using f by (auto simp: called_def)
qed

definition rs_start :: rtimer_state where
  "rs_start = \<lparr>rs_next = None, rs_mem = (\<lambda>_. \<lparr>rt_time = 0, rt_overflows = 0, rt_func = 0, rt_ptr = None\<rparr>),
     rs_tar = 100, rs_taccr0 = 0, rs_ccie = True\<rparr>"

theorem rtimer_set_long_fires_witness:
  "rs_next ((tick (\<lambda>_ _ _ s. s) ^^ 1000000) (snd (rtimer_set_long rs_start 1 50 1966080 7 None))) = Some 1 \<and>
   rs_next ((tick (\<lambda>_ _ _ s. s) ^^ 1966030) (snd (rtimer_set_long rs_start 1 50 1966080 7 None))) = None"
proof -
  have h: "rs_next rs_start = None" "rs_ccie rs_start"
    by (simp_all add: rs_start_def)
  have D: "(1966030 :: nat) = unat ((1966080 :: u32) - ucast (rs_tar rs_start - 50))"
    by (simp add: rs_start_def)
  have d: "(1966030 :: nat) = (if (1966030 :: nat) mod 65536 = 0 then 1966030 + 65536 else 1966030)"
    by simp
  from rtimer_set_long_fires [OF h D d refl, where run = "\<lambda>_ _ _ s. s" and t = 1 and func = 7 and p = None] show ?thesis
    by (auto simp: rearm_def)
qed

text \<open>\<open>rtimer_time_to_expire\<close> tells exactly how long the pending long task has to wait, at every moment but one
  in a wrap-around: while the counter equals the compare value it tells \<open>2^16\<close> ticks too little.\<close>

theorem time_to_expire_exact:
  assumes "rs_next s = None" and "rs_ccie s"
    and "D = unat (off - ucast (rs_tar s - ref_time))" and "D mod 65536 \<noteq> 0" and "j < D"
    and "s2 = (tick run ^^ j) (snd (rtimer_set_long s t ref_time off func p))"
  shows "rtimer_time_to_expire s2 = Some (of_nat (if rs_tar s2 = ref_time + ucast off then D - j - 65536 else D - j))"
proof -
  have d: "D = (if D mod 65536 = 0 then D + 65536 else D)"
    using assms(4) by simp
  note due = ticks_due [OF set_long_due [OF assms(1,2,3) d refl, of t func p] assms(5), of run, folded assms(6)]
  have c: "rs_taccr0 s2 = ref_time + ucast off"
  proof -
    have "rs_tar (called t s2) = rs_tar (called t (snd (rtimer_set_long s t ref_time off func p)))"
      using due by simp
    then show ?thesis
      using assms(1) by (simp add: called_def rtimer_set_long_def rtimer_arch_schedule_def Let_def)
  qed
  have s2: "rs_next s2 = Some t" "rs_taccr0 s2 = ref_time + ucast off"
    and dj: "D - j = unat (rt_overflows (rs_mem s2 t)) * 65536 + dist (rs_tar s2) (ref_time + ucast off)"
    using due c by (simp_all add: due_in_def)
  have pb: "push_bit 16 (ucast w :: u32) = of_nat (unat w * 65536)" for w :: u16
    by (simp add: push_bit_eq_mult)
  show ?thesis
  proof (cases "rs_tar s2 = ref_time + ucast off")
    case True
    then have "D - j - 65536 = unat (rt_overflows (rs_mem s2 t)) * 65536"
      using dj by (simp add: dist_def)
    then show ?thesis
      using True s2 pb [of "rt_overflows (rs_mem s2 t)"] by (simp add: rtimer_time_to_expire_def)
  next
    case False
    then have "D - j = unat (rt_overflows (rs_mem s2 t)) * 65536 + unat (ref_time + ucast off - rs_tar s2)"
      using dj by (simp add: dist_def)
    then show ?thesis
      using False s2 pb [of "rt_overflows (rs_mem s2 t)"] by (simp add: rtimer_time_to_expire_def)
  qed
qed

theorem time_to_expire_exact_witness:
  "rtimer_time_to_expire ((tick (\<lambda>_ _ _ s. s) ^^ 3) (snd (rtimer_set_long rs_start 1 50 1966080 7 None))) = Some 1966027"
proof -
  have h: "rs_next rs_start = None" "rs_ccie rs_start"
    by (simp_all add: rs_start_def)
  have D: "(1966030 :: nat) = unat ((1966080 :: u32) - ucast (rs_tar rs_start - 50))"
    by (simp add: rs_start_def)
  have "rs_tar ((tick (\<lambda>_ _ _ s. s) ^^ 3) (snd (rtimer_set_long rs_start 1 50 1966080 7 None))) = 103"
    by code_simp
  with time_to_expire_exact [OF h D _ _ refl, where j = 3 and run = "\<lambda>_ _ _ s. s" and t = 1 and func = 7 and p = None] show ?thesis
    by simp
qed

text \<open>\<open>rtimer_set\<close> with a task pending replaces the task but not the compare value: the old task never runs, and
  the new one runs when the old one was due, not at its own time.\<close>

theorem rtimer_set_pending:
  assumes "due_in t0 d s" and "d < 65536" and "s1 = snd (rtimer_set s t time func p)"
  shows "rs_taccr0 s1 = rs_taccr0 s \<and> rs_next s1 = Some t \<and>
    (\<exists>s2. (tick run ^^ d) s1 = rearm (run func t p s2) \<and> rs_next s2 = None \<and> rs_tar s2 = rs_taccr0 s)"

proof -
  have z: "unat (rt_overflows (rs_mem s t0)) = 0" "d = dist (rs_tar s) (rs_taccr0 s)" "rs_next s = Some t0" "rs_ccie s"
    using assms(1,2) by (auto simp: due_in_def)
  have s1: "s1 = s\<lparr>rs_mem := (rs_mem s)(t := \<lparr>rt_time = time, rt_overflows = 0, rt_func = func, rt_ptr = p\<rparr>), rs_next := Some t\<rparr>"
    using z assms(3) by (simp add: rtimer_set_def Let_def)
  have "due_in t d s1"
    using z by (simp add: due_in_def s1)
  from ticks_fire [OF this, of run] show ?thesis
    by (auto simp: s1 called_def)
qed

theorem rtimer_set_pending_witness:
  "(tick (\<lambda>_ _ _ s. s) ^^ 40) (snd (rtimer_set (snd (rtimer_set rs_start 1 140 3 None)) 2 900 5 None)) \<noteq> rs_start \<and>
   rs_taccr0 (snd (rtimer_set (snd (rtimer_set rs_start 1 140 3 None)) 2 900 5 None)) = 140"
proof -
  let ?s = "snd (rtimer_set rs_start 1 140 3 None)"
  have "due_in 1 40 ?s"
    by (simp add: rtimer_set_def rtimer_arch_schedule_def due_in_def rs_start_def dist_def)
  from rtimer_set_pending [OF this _ refl, where run = "\<lambda>_ _ _ s. s" and t = 2 and time = 900 and func = 5 and p = None]
  have "rs_tar ((tick (\<lambda>_ _ _ s. s) ^^ 40) (snd (rtimer_set ?s 2 900 5 None))) = rs_taccr0 ?s" "rs_taccr0 (snd (rtimer_set ?s 2 900 5 None)) = rs_taccr0 ?s"
    by (auto simp: rearm_def)
  moreover have "rs_taccr0 ?s = 140" "rs_tar rs_start = 100"
    by (simp_all add: rtimer_set_def rtimer_arch_schedule_def rs_start_def)
  ultimately show ?thesis
    by auto
qed

end
