(* ===== verification/Energest.thy ===== *)
theory Energest
  imports Words
begin

text \<open>
  The energy accounting of \<open>core/sys/energest.c\<close> and \<open>energest.h\<close>: for every component of the node (CPU, radio
  in transmit and listen mode, ...) the time it was on, in units of \<open>ENERGEST_DIVIDER\<close> ticks of the 32768 Hz
  clock. With \<open>GLOSSY\<close> there are two sets of the counters, one for the MAC protocol and one for the Glossy
  phases, with the same code. \<open>now\<close> is what \<open>RTIMER_NOW()\<close> returns.
\<close>

section \<open>State and operations\<close>

datatype energest_type =
    ENERGEST_TYPE_CPU | ENERGEST_TYPE_LPM | ENERGEST_TYPE_IRQ | ENERGEST_TYPE_LED_GREEN | ENERGEST_TYPE_LED_YELLOW
  | ENERGEST_TYPE_LED_RED | ENERGEST_TYPE_TRANSMIT | ENERGEST_TYPE_LISTEN | ENERGEST_TYPE_FLASH_READ
  | ENERGEST_TYPE_FLASH_WRITE | ENERGEST_TYPE_SENSORS | ENERGEST_TYPE_SERIAL

record energest =
  en_total :: "energest_type \<Rightarrow> u32"
  en_time :: "energest_type \<Rightarrow> rtimer_clock_t"
  en_mode :: "energest_type \<Rightarrow> bool"

definition ENERGEST_DIVIDER :: u16 where "ENERGEST_DIVIDER = 4"

text \<open>The common step: the time since \<open>en_time\<close> is added.\<close>

definition account :: "rtimer_clock_t \<Rightarrow> energest \<Rightarrow> energest_type \<Rightarrow> energest" where
  "account now e ty = e\<lparr>en_total := (en_total e)(ty := en_total e ty + ucast ((now - en_time e ty) div ENERGEST_DIVIDER))\<rparr>"

definition ENERGEST_ON :: "rtimer_clock_t \<Rightarrow> energest \<Rightarrow> energest_type \<Rightarrow> energest" where
  "ENERGEST_ON now e ty = e\<lparr>en_time := (en_time e)(ty := now), en_mode := (en_mode e)(ty := True)\<rparr>"

definition ENERGEST_OFF :: "rtimer_clock_t \<Rightarrow> energest \<Rightarrow> energest_type \<Rightarrow> energest" where
  "ENERGEST_OFF now e ty = (account now e ty)\<lparr>en_mode := (en_mode e)(ty := False)\<rparr>"

definition energest_init :: "energest \<Rightarrow> energest" where
  "energest_init e = e\<lparr>en_total := (\<lambda>_. 0), en_time := (\<lambda>_. 0), en_mode := (\<lambda>_. False)\<rparr>"

definition energest_type_time :: "rtimer_clock_t \<Rightarrow> energest \<Rightarrow> energest_type \<Rightarrow> u32 \<times> energest" where
  "energest_type_time now e ty =
     (let e1 = (if en_mode e ty then (account now e ty)\<lparr>en_time := (en_time e)(ty := now)\<rparr> else e)
      in (en_total e1 ty, e1))"

definition energest_type_set :: "energest \<Rightarrow> energest_type \<Rightarrow> u32 \<Rightarrow> energest" where
  "energest_type_set e ty val = e\<lparr>en_total := (en_total e)(ty := val)\<rparr>"

text \<open>The loop of \<open>energest_flush\<close> reads the clock once for every component that is on.\<close>

definition flush_one :: "(energest_type \<Rightarrow> rtimer_clock_t) \<Rightarrow> energest \<Rightarrow> energest_type \<Rightarrow> energest" where
  "flush_one now e ty =
     (if en_mode e ty then (account (now ty) e ty)\<lparr>en_time := (en_time e)(ty := now ty)\<rparr> else e)"

definition energest_types :: "energest_type list" where
  "energest_types =
     [ENERGEST_TYPE_CPU, ENERGEST_TYPE_LPM, ENERGEST_TYPE_IRQ, ENERGEST_TYPE_LED_GREEN, ENERGEST_TYPE_LED_YELLOW,
      ENERGEST_TYPE_LED_RED, ENERGEST_TYPE_TRANSMIT, ENERGEST_TYPE_LISTEN, ENERGEST_TYPE_FLASH_READ,
      ENERGEST_TYPE_FLASH_WRITE, ENERGEST_TYPE_SENSORS, ENERGEST_TYPE_SERIAL]"

definition energest_flush :: "(energest_type \<Rightarrow> rtimer_clock_t) \<Rightarrow> energest \<Rightarrow> energest" where
  "energest_flush now e = foldl (flush_one now) e energest_types"

text \<open>The counters of the Glossy phases.\<close>

definition energest_glossy_init :: "energest \<Rightarrow> energest" where
  "energest_glossy_init g = g\<lparr>en_total := (\<lambda>_. 0), en_time := (\<lambda>_. 0), en_mode := (\<lambda>_. False)\<rparr>"

definition energest_glossy_type_time :: "rtimer_clock_t \<Rightarrow> energest \<Rightarrow> energest_type \<Rightarrow> u32 \<times> energest" where
  "energest_glossy_type_time now g ty =
     (let g1 = (if en_mode g ty then (account now g ty)\<lparr>en_time := (en_time g)(ty := now)\<rparr> else g)
      in (en_total g1 ty, g1))"

definition energest_glossy_type_set :: "energest \<Rightarrow> energest_type \<Rightarrow> u32 \<Rightarrow> energest" where
  "energest_glossy_type_set g ty val = g\<lparr>en_total := (en_total g)(ty := val)\<rparr>"

definition energest_glossy_flush :: "(energest_type \<Rightarrow> rtimer_clock_t) \<Rightarrow> energest \<Rightarrow> energest" where
  "energest_glossy_flush now g = foldl (flush_one now) g energest_types"

section \<open>Accuracy\<close>

text \<open>A component is on while the clock is read \<open>d1\<close>, \<open>d2\<close>, ... ticks apart.\<close>

primrec flushes :: "rtimer_clock_t \<Rightarrow> energest \<Rightarrow> nat list \<Rightarrow> rtimer_clock_t \<times> energest" where
  "flushes t e [] = (t, e)"
| "flushes t e (d # ds) = flushes (t + of_nat d) (energest_flush (\<lambda>_. t + of_nat d) e) ds"

lemma types_once: "distinct energest_types" "ty \<in> set energest_types"
  by (simp add: energest_types_def) (cases ty; simp add: energest_types_def)

lemma flush_one_other: "ty \<noteq> u \<Longrightarrow> en_total (flush_one now e u) ty = en_total e ty \<and> en_time (flush_one now e u) ty = en_time e ty \<and>
    en_mode (flush_one now e u) = en_mode e"
  by (simp add: flush_one_def account_def)

lemma flush_others:
  "ty \<notin> set l \<Longrightarrow> en_total (foldl (flush_one now) e l) ty = en_total e ty \<and> en_time (foldl (flush_one now) e l) ty = en_time e ty"
  by (induction l arbitrary: e) (auto simp: flush_one_other)

lemma flush_mode: "en_mode (foldl (flush_one now) e l) = en_mode e"
  by (induction l arbitrary: e) (simp_all add: flush_one_def account_def)

lemma energest_flush_spec:
  "en_mode (energest_flush now e) = en_mode e \<and>
   en_total (energest_flush now e) ty = (if en_mode e ty then en_total e ty + ucast ((now ty - en_time e ty) div ENERGEST_DIVIDER) else en_total e ty) \<and>
   en_time (energest_flush now e) ty = (if en_mode e ty then now ty else en_time e ty)"
proof -
  obtain xs ys where l: "energest_types = xs @ ty # ys"
    using types_once(2) by (meson split_list)
  have "distinct (xs @ ty # ys)"
    using types_once(1) by (simp only: l)
  then have n: "ty \<notin> set xs" "ty \<notin> set ys"
    by auto
  let ?e = "foldl (flush_one now) e xs"
  have "energest_flush now e = foldl (flush_one now) (flush_one now ?e ty) ys"
    by (simp add: energest_flush_def l)
  then show ?thesis
    using flush_others [OF n(2), of now "flush_one now ?e ty"] flush_others [OF n(1), of now e]
    by (simp add: flush_mode) (simp add: flush_one_def account_def flush_mode)
qed

lemma unat_div4: "unat (w div ENERGEST_DIVIDER :: u16) = unat w div 4"
  by (simp add: ENERGEST_DIVIDER_def unat_div)

lemma flush_interval:
  assumes on: "en_mode e ty" and t: "en_time e ty = t" and d: "d < 65536"
    and fit: "unat (en_total e ty) + d div 4 < 4294967296"
  shows "unat (en_total (energest_flush (\<lambda>_. t + of_nat d) e) ty) = unat (en_total e ty) + d div 4"
proof -
  have "unat (t + of_nat d - en_time e ty) = d"
    using counter_diff [OF d, of t] t by simp
  then have "unat (ucast ((t + of_nat d - en_time e ty) div ENERGEST_DIVIDER) :: u32) = d div 4"
    by (simp only: unat_ucast_16_32 unat_div4)
  then show ?thesis
    using energest_flush_spec [of "\<lambda>_. t + of_nat d" e ty] on fit by (simp add: unat32_add_less)
qed

text \<open>C36: The time of a component that is on is accounted with a bounded error: when the counters are flushed at least once
  in a wrap-around of the 16-bit clock, \<open>n\<close> flushes lose at most \<open>3 n\<close> ticks, and never count a tick that did
  not pass.\<close>

theorem energest_accuracy:
  assumes "en_mode e ty" and "en_time e ty = t" and "\<forall>d \<in> set ds. d < 65536"
    and "4 * unat (en_total e ty) + sum_list ds < 17179869184"
  shows "4 * unat (en_total e ty) + sum_list ds \<le> 4 * unat (en_total (snd (flushes t e ds)) ty) + 3 * length ds \<and>
    4 * unat (en_total (snd (flushes t e ds)) ty) \<le> 4 * unat (en_total e ty) + sum_list ds"
  using assms
proof (induction ds arbitrary: t e)
  case (Cons d ds)
  let ?e = "energest_flush (\<lambda>_. t + of_nat d) e"
  have sp: "en_mode ?e ty" "en_time ?e ty = t + of_nat d"
    using energest_flush_spec [of "\<lambda>_. t + of_nat d" e ty] Cons.prems(1) by simp_all
  have d: "d < 65536" "4 * (d div 4) \<le> d" "d \<le> 4 * (d div 4) + 3"
    using Cons.prems(3) by simp_all
  have fit: "unat (en_total e ty) + d div 4 < 4294967296"
    using Cons.prems(4) d by simp
  have tot: "unat (en_total ?e ty) = unat (en_total e ty) + d div 4"
    by (rule flush_interval [OF Cons.prems(1,2) d(1) fit])
  have small: "\<forall>x \<in> set ds. x < 65536" "4 * unat (en_total ?e ty) + sum_list ds < 17179869184"
    using Cons.prems(3,4) tot d by simp_all
  have fl: "flushes t e (d # ds) = flushes (t + of_nat d) ?e ds"
    by simp
  from Cons.IH [OF sp small] tot d(2,3) show ?case
    unfolding fl sum_list.Cons list.size distrib_left by linarith
qed simp

definition en_start :: energest where
  "en_start = \<lparr>en_total = (\<lambda>_. 0), en_time = (\<lambda>_. 100), en_mode = (\<lambda>ty. ty = ENERGEST_TYPE_LISTEN)\<rparr>"

theorem energest_accuracy_witness:
  "unat (en_total (snd (flushes 100 en_start [40000, 30002])) ENERGEST_TYPE_LISTEN) \<in> {17499..17500}"
proof -
  have "en_mode en_start ENERGEST_TYPE_LISTEN" "en_time en_start ENERGEST_TYPE_LISTEN = 100"
    "en_total en_start ENERGEST_TYPE_LISTEN = 0"
    by (simp_all add: en_start_def)
  with energest_accuracy [OF this(1,2), of "[40000, 30002]"] show ?thesis
    by auto
qed

end
