(* ===== verification/Glossy.thy ===== *)
theory Glossy
  imports Rtimer Energest
begin

text \<open>
  Glossy, \<open>core/dev/glossy.c\<close>: network flooding and time synchronisation by constructive interference. All of it
  runs in the interrupt handler \<open>timerb1_interrupt\<close>, which sees the edges of the radio's SFD pin: a node that
  receives a packet sends it again at once, and a node that knows the slot number of a packet knows when the
  initiator sent it. \<open>COOJA\<close> is 0 and \<open>MAC_PROTOCOL\<close> is \<open>XMAC\<close>.
\<close>

section \<open>State\<close>

datatype glossy_status =
    GLOSSY_STATUS_OFF | GLOSSY_STATUS_WAITING | GLOSSY_STATUS_RECEIVING | GLOSSY_STATUS_RECEIVED
  | GLOSSY_STATUS_TRANSMITTING | GLOSSY_STATUS_TRANSMITTED | GLOSSY_STATUS_ABORTED

definition GLOSSY_HEADER :: u8 where "GLOSSY_HEADER = 0xFE"
definition GLOSSY_SYNC_WINDOW :: u32 where "GLOSSY_SYNC_WINDOW = 64"

text \<open>\<open>F_CPU / RTIMER_SECOND\<close>, and \<open>F_CPU / 400\<close> cut to 16 bits, with \<open>F_CPU\<close> = 4194304 Hz.\<close>

definition CLOCK_PHI :: u32 where "CLOCK_PHI = 4194304 div 32768"
definition GLOSSY_INITIATOR_TIMEOUT :: rtimer_clock_t where "GLOSSY_INITIATOR_TIMEOUT = ucast (4194304 div 400 :: u32)"

text \<open>
  The radio, as the code sees it: the commands sent to it (the latest first) and the contents of its
  transmit FIFO. The received bytes are inputs of the interrupt handler.
\<close>

datatype strobe = SRXON | STXON | SRFOFF | SFLUSHTX | SFLUSHRX

record radio =
  rd_strobes :: "strobe list"
  rd_txfifo :: "u8 list"

text \<open>
  The registers of the MSP430 that Glossy saves and switches: the interrupt enables of the modules
  (\<open>IE1\<close>, \<open>IE2\<close>, \<open>P1IE\<close>, \<open>P2IE\<close>, comparator, DMA), the timers' capture/compare interrupts, the two radio
  interrupts, whether Timer B runs on the DCO, and the watchdog.
\<close>

record periph =
  pe_ie1 :: u8
  pe_ie2 :: u8
  pe_p1ie :: u8
  pe_p2ie :: u8
  pe_caie :: bool
  pe_dma :: "bool \<times> bool \<times> bool"
  pe_taccie1 :: bool
  pe_tbcctl0 :: bool
  pe_tbcctl2 :: bool
  pe_tbcctl3 :: bool
  pe_fifop :: bool
  pe_sfd :: bool
  pe_tb_dco :: bool
  pe_watchdog :: bool

record glossy =
  gl_initiator :: u8
  gl_sync :: u8
  gl_rx_cnt :: u8
  gl_tx_cnt :: u8
  gl_tx_max :: u8
  gl_data :: "u8 list"
  gl_packet :: "u8 list"
  gl_data_len :: u8
  gl_packet_len :: u8
  gl_bytes_read :: u8
  gl_tx_slot_last :: u8
  gl_status :: glossy_status
  gl_t_rx_start :: rtimer_clock_t
  gl_t_rx_stop :: rtimer_clock_t
  gl_t_tx_start :: rtimer_clock_t
  gl_t_tx_stop :: rtimer_clock_t
  gl_t_rx_timeout :: rtimer_clock_t
  gl_T_irq :: rtimer_clock_t
  gl_ie1 :: u8
  gl_ie2 :: u8
  gl_p1ie :: u8
  gl_p2ie :: u8
  gl_T_slot_h :: rtimer_clock_t
  gl_T_rx_h :: rtimer_clock_t
  gl_T_w_rt_h :: rtimer_clock_t
  gl_T_tx_h :: rtimer_clock_t
  gl_T_w_tr_h :: rtimer_clock_t
  gl_T_slot_h_sum :: u32
  gl_win_cnt :: u8
  gl_t_ref_l :: rtimer_clock_t
  gl_T_offset_h :: rtimer_clock_t
  gl_slot :: u8
  gl_t_ref_l_updated :: u8
  gl_t_first_rx :: rtimer_clock_t
  gl_time_to_first_rx :: rtimer_clock_t
  gl_tbccr4 :: rtimer_clock_t
  gl_tbcctl4 :: bool
  gl_taccr2 :: rtimer_clock_t
  gl_tacctl2 :: bool
  gl_radio :: radio
  gl_energest :: energest
  gl_periph :: periph

text \<open>
  What one interrupt reads from the hardware: Timer B on entry and its captured value \<open>TBCCR1\<close>, the SFD pin
  (read once on every path), \<open>TBIV\<close>, Timer A by call site, Timer B when the initiator timeout is set, the two
  captures of the next clock tick, the bytes that the radio delivers before the reception times out, and
  the bytes that are read without waiting.
\<close>

datatype tb_source = TBIV_TBCCR1 | TBIV_TBCCR2 | TBIV_TBCCR3 | TBIV_TBCCR4

record irq =
  iq_tbr :: rtimer_clock_t
  iq_tbccr1 :: rtimer_clock_t
  iq_sfd :: bool
  iq_tbiv :: tb_source
  iq_now :: "nat \<Rightarrow> rtimer_clock_t"
  iq_tbr4 :: rtimer_clock_t
  iq_cap_h :: rtimer_clock_t
  iq_cap_l :: rtimer_clock_t
  iq_bytes :: "u8 list"
  iq_rest :: "nat \<Rightarrow> u8"

section \<open>The packet\<close>

definition slot_field :: "glossy \<Rightarrow> u8" where
  "slot_field s = gl_packet s ! (unat (gl_packet_len s) - 2)"

definition set_slot_field :: "glossy \<Rightarrow> u8 \<Rightarrow> glossy" where
  "set_slot_field s v = s\<lparr>gl_packet := (gl_packet s)[unat (gl_packet_len s) - 2 := v]\<rparr>"

definition set_byte :: "glossy \<Rightarrow> nat \<Rightarrow> u8 \<Rightarrow> glossy" where
  "set_byte s i v = s\<lparr>gl_packet := (gl_packet s)[i := v]\<rparr>"

definition crc_ok :: "glossy \<Rightarrow> bool" where
  "crc_ok s \<longleftrightarrow> (gl_packet s ! unat (gl_packet_len s)) AND 0x80 \<noteq> 0"

text \<open>\<open>memcpy(&GLOSSY_DATA_FIELD, data, data_len)\<close> and back.\<close>

definition data_to_packet :: "glossy \<Rightarrow> glossy" where
  "data_to_packet s = s\<lparr>gl_packet := mem_put (gl_packet s) 2 (take (unat (gl_data_len s)) (gl_data s))\<rparr>"

definition packet_to_data :: "glossy \<Rightarrow> glossy" where
  "packet_to_data s = s\<lparr>gl_data := mem_put (gl_data s) 0 (mem_get (gl_packet s) 2 (unat (gl_data_len s)))\<rparr>"

section \<open>Radio functions\<close>

definition strobes :: "strobe list \<Rightarrow> glossy \<Rightarrow> glossy" where
  "strobes l s = s\<lparr>gl_radio := (gl_radio s)\<lparr>rd_strobes := rev l @ rd_strobes (gl_radio s)\<rparr>\<rparr>"

definition en_on :: "rtimer_clock_t \<Rightarrow> energest_type \<Rightarrow> glossy \<Rightarrow> glossy" where
  "en_on now ty s = s\<lparr>gl_energest := ENERGEST_ON now (gl_energest s) ty\<rparr>"

definition en_off :: "rtimer_clock_t \<Rightarrow> energest_type \<Rightarrow> glossy \<Rightarrow> glossy" where
  "en_off now ty s = s\<lparr>gl_energest := ENERGEST_OFF now (gl_energest s) ty\<rparr>"

definition radio_flush_tx :: "glossy \<Rightarrow> glossy" where
  "radio_flush_tx s = (let s1 = strobes [SFLUSHTX] s in s1\<lparr>gl_radio := (gl_radio s1)\<lparr>rd_txfifo := []\<rparr>\<rparr>)"

definition radio_on :: "rtimer_clock_t \<Rightarrow> glossy \<Rightarrow> glossy" where
  "radio_on now s = en_on now ENERGEST_TYPE_LISTEN (strobes [SRXON] s)"

definition radio_off :: "rtimer_clock_t \<Rightarrow> glossy \<Rightarrow> glossy" where
  "radio_off now s =
     (let s1 = (if en_mode (gl_energest s) ENERGEST_TYPE_TRANSMIT then en_off now ENERGEST_TYPE_TRANSMIT s else s);
          s2 = (if en_mode (gl_energest s1) ENERGEST_TYPE_LISTEN then en_off now ENERGEST_TYPE_LISTEN s1 else s1)
      in strobes [SRFOFF] s2)"

definition radio_flush_rx :: "glossy \<Rightarrow> glossy" where
  "radio_flush_rx s = strobes [SFLUSHRX, SFLUSHRX] s"

definition glossy_schedule_rx_timeout :: "glossy \<Rightarrow> glossy" where
  "glossy_schedule_rx_timeout s = s\<lparr>gl_taccr2 := gl_t_rx_timeout s, gl_tacctl2 := True\<rparr>"

definition glossy_stop_rx_timeout :: "glossy \<Rightarrow> glossy" where
  "glossy_stop_rx_timeout s = s\<lparr>gl_tacctl2 := False\<rparr>"

definition radio_abort_rx :: "glossy \<Rightarrow> glossy" where
  "radio_abort_rx s =
     glossy_stop_rx_timeout
       (if gl_status s = GLOSSY_STATUS_RECEIVING then radio_flush_rx (s\<lparr>gl_status := GLOSSY_STATUS_ABORTED\<rparr>) else s)"

definition radio_abort_tx :: "rtimer_clock_t \<Rightarrow> glossy \<Rightarrow> glossy" where
  "radio_abort_tx now s =
     (let s1 = strobes [SRXON] s
      in radio_flush_rx
           (if en_mode (gl_energest s1) ENERGEST_TYPE_TRANSMIT
            then en_on now ENERGEST_TYPE_LISTEN (en_off now ENERGEST_TYPE_TRANSMIT s1) else s1))"

definition radio_start_tx :: "rtimer_clock_t \<Rightarrow> glossy \<Rightarrow> glossy" where
  "radio_start_tx now s = en_on now ENERGEST_TYPE_TRANSMIT (en_off now ENERGEST_TYPE_LISTEN (strobes [STXON] s))"

text \<open>The first \<open>packet_len - 1\<close> bytes go to the transmit FIFO; the radio appends the two bytes of the footer.\<close>

definition radio_write_tx :: "glossy \<Rightarrow> glossy" where
  "radio_write_tx s = s\<lparr>gl_radio := (gl_radio s)\<lparr>rd_txfifo := rd_txfifo (gl_radio s) @ take (unat (gl_packet_len s) - 1) (gl_packet s)\<rparr>\<rparr>"

section \<open>Starting and stopping\<close>

definition glossy_disable_other_interrupts :: "glossy \<Rightarrow> glossy" where
  "glossy_disable_other_interrupts s =
     (let p = gl_periph s
      in s\<lparr>gl_ie1 := pe_ie1 p, gl_ie2 := pe_ie2 p, gl_p1ie := pe_p1ie p, gl_p2ie := pe_p2ie p, gl_tbcctl4 := False,
           gl_periph := p\<lparr>pe_ie1 := 0, pe_ie2 := 0, pe_p1ie := 0, pe_p2ie := 0, pe_caie := False,
             pe_dma := (False, False, False), pe_taccie1 := False, pe_tbcctl0 := False, pe_tbcctl2 := False,
             pe_tbcctl3 := False, pe_fifop := False, pe_sfd := True, pe_tb_dco := True, pe_watchdog := False\<rparr>\<rparr>)"

definition glossy_enable_other_interrupts :: "glossy \<Rightarrow> glossy" where
  "glossy_enable_other_interrupts s =
     s\<lparr>gl_periph := (gl_periph s)\<lparr>pe_ie1 := gl_ie1 s, pe_ie2 := gl_ie2 s, pe_p1ie := gl_p1ie s, pe_p2ie := gl_p2ie s,
         pe_taccie1 := True, pe_tbcctl0 := False, pe_tbcctl2 := False, pe_tbcctl3 := False, pe_sfd := False,
         pe_fifop := True, pe_tb_dco := False, pe_watchdog := True\<rparr>\<rparr>"

text \<open>
  \<open>mem\<close> is what \<open>malloc\<close> finds in the block, \<open>now\<close> is \<open>RTIMER_NOW()\<close> (by call site) and \<open>tbr\<close> is \<open>RTIMER_NOW_DCO()\<close>.
\<close>

definition glossy_packet_len :: "u8 \<Rightarrow> u8 \<Rightarrow> u8" where
  "glossy_packet_len sync data_len = (if sync \<noteq> 0 then data_len + 2 + 1 + 1 else data_len + 2 + 1)"

definition glossy_setup :: "(nat \<Rightarrow> u8) \<Rightarrow> u8 list \<Rightarrow> u8 \<Rightarrow> u8 \<Rightarrow> u8 \<Rightarrow> u8 \<Rightarrow> bool \<Rightarrow> glossy \<Rightarrow> glossy" where
  "glossy_setup mem data data_len initiator sync tx_max turn_radio_on s =
     (let len = glossy_packet_len sync data_len;
          s1 = s\<lparr>gl_data := data, gl_data_len := data_len, gl_initiator := initiator, gl_sync := sync, gl_tx_max := tx_max,
                 gl_tx_cnt := 0, gl_rx_cnt := 0, gl_packet_len := len, gl_packet := map mem [0..<unat len + 1]\<rparr>;
          s2 = set_byte (set_byte s1 0 len) 1 GLOSSY_HEADER;
          s3 = (if initiator \<noteq> 0 then (data_to_packet s2)\<lparr>gl_status := GLOSSY_STATUS_RECEIVED\<rparr>
                else s2\<lparr>gl_status := GLOSSY_STATUS_WAITING\<rparr>)
      in if sync \<noteq> 0 then (let s4 = set_slot_field s3 0 in if turn_radio_on then s4\<lparr>gl_t_ref_l_updated := 0\<rparr> else s4)
         else s3)"

definition glossy_start ::
  "(nat \<Rightarrow> u8) \<Rightarrow> (nat \<Rightarrow> rtimer_clock_t) \<Rightarrow> rtimer_clock_t \<Rightarrow> u8 list \<Rightarrow> u8 \<Rightarrow> u8 \<Rightarrow> u8 \<Rightarrow> u8 \<Rightarrow> bool \<Rightarrow> glossy \<Rightarrow> glossy" where
  "glossy_start mem now tbr data data_len initiator sync tx_max turn_radio_on s =
     (let s1 = radio_flush_tx (radio_flush_rx (glossy_setup mem data data_len initiator sync tx_max turn_radio_on s))
      in if initiator \<noteq> 0
         then (let s2 = radio_write_tx s1
               in if turn_radio_on
                  then (radio_start_tx (now 0) s2)\<lparr>gl_tbccr4 := tbr + GLOSSY_INITIATOR_TIMEOUT, gl_tbcctl4 := True\<rparr>
                  else s2)
         else (if turn_radio_on
               then radio_on (now 1) (if sync \<noteq> 0 then s1\<lparr>gl_time_to_first_rx := now 0\<rparr> else s1)
               else s1))"

definition glossy_stop :: "rtimer_clock_t \<Rightarrow> glossy \<Rightarrow> u8 \<times> glossy" where
  "glossy_stop now s =
     (let s1 = radio_flush_tx (radio_flush_rx (radio_off now (s\<lparr>gl_tbcctl4 := False\<rparr>)))
      in (gl_rx_cnt s1, s1\<lparr>gl_status := GLOSSY_STATUS_OFF, gl_packet := []\<rparr>))"

section \<open>Slot length and reference time\<close>

text \<open>All durations are in ticks of the DCO, 16 bits of it.\<close>

definition glossy_estimate_slot_lengths :: "rtimer_clock_t \<Rightarrow> glossy \<Rightarrow> glossy" where
  "glossy_estimate_slot_lengths t_rx_stop_tmp s =
     (if gl_rx_cnt s > 1 \<and> unat (slot_field s) = unat (gl_tx_slot_last s) + 2 then
        (let s1 = s\<lparr>gl_T_w_rt_h := gl_t_tx_start s - gl_t_rx_stop s, gl_T_tx_h := gl_t_tx_stop s - gl_t_tx_start s,
                    gl_T_w_tr_h := gl_t_rx_start s - gl_t_tx_stop s, gl_T_rx_h := t_rx_stop_tmp - gl_t_rx_start s\<rparr>;
             T_slot_h_tmp = (gl_T_tx_h s1 + gl_T_w_tr_h s1 + gl_T_rx_h s1 + gl_T_w_rt_h s1) div 2;
             s2 = s1\<lparr>gl_T_slot_h_sum := gl_T_slot_h_sum s1 + ucast T_slot_h_tmp, gl_win_cnt := gl_win_cnt s1 + 1\<rparr>
         in if ucast (gl_win_cnt s2) = GLOSSY_SYNC_WINDOW
            then s2\<lparr>gl_T_slot_h := ucast (gl_T_slot_h_sum s2 div GLOSSY_SYNC_WINDOW),
                    gl_T_slot_h_sum := gl_T_slot_h_sum s2 div 2, gl_win_cnt := gl_win_cnt s2 div 2\<rparr>
            else if gl_win_cnt s2 = 1 then s2\<lparr>gl_T_slot_h := T_slot_h_tmp\<rparr>
            else s2)
      else s)"

definition T_ref_to_cap_h :: "rtimer_clock_t \<Rightarrow> glossy \<Rightarrow> u32" where
  "T_ref_to_cap_h t_cap_h s =
     (ucast (slot_field s) - 1) * ucast (gl_T_slot_h s) + ucast (t_cap_h - gl_t_rx_start s)"

definition glossy_compute_sync_reference_point :: "rtimer_clock_t \<Rightarrow> rtimer_clock_t \<Rightarrow> glossy \<Rightarrow> glossy" where
  "glossy_compute_sync_reference_point t_cap_h t_cap_l s =
     s\<lparr>gl_T_offset_h := ucast ((CLOCK_PHI - 1) - T_ref_to_cap_h t_cap_h s mod CLOCK_PHI),
       gl_t_ref_l := t_cap_l - ucast (1 + T_ref_to_cap_h t_cap_h s div CLOCK_PHI),
       gl_slot := slot_field s - 1, gl_t_ref_l_updated := 1\<rparr>"

section \<open>The interrupt handlers\<close>

text \<open>The bytes but the last 8 are read one by one; \<open>False\<close> if the reception was aborted.\<close>

fun rx_loop :: "nat \<Rightarrow> u8 list \<Rightarrow> glossy \<Rightarrow> bool \<times> glossy" where
  "rx_loop 0 bs s = (True, s)"
| "rx_loop (Suc n) [] s = (False, radio_abort_rx s)"
| "rx_loop (Suc n) (b # bs) s =
     (let s1 = (set_byte s (unat (gl_bytes_read s)) b)\<lparr>gl_bytes_read := gl_bytes_read s + 1\<rparr>
      in if gl_bytes_read s1 = 2 \<and> gl_packet s1 ! 1 \<noteq> GLOSSY_HEADER then (False, radio_abort_rx s1)
         else rx_loop n bs s1)"

definition glossy_begin_rx :: "irq \<Rightarrow> glossy \<Rightarrow> glossy" where
  "glossy_begin_rx q s =
     (let s1 = s\<lparr>gl_t_rx_start := iq_tbccr1 q,
                 gl_t_first_rx := (if gl_sync s \<noteq> 0 \<and> gl_rx_cnt s = 0 then iq_now q 0 else gl_t_first_rx s),
                 gl_status := GLOSSY_STATUS_RECEIVING,
                 gl_t_rx_timeout := iq_now q 1 + 5 + (ucast (gl_packet_len s) * 135) div 128\<rparr>
      in case iq_bytes q of
           [] \<Rightarrow> radio_abort_rx s1
         | b # bs \<Rightarrow>
             (let s2 = set_byte s1 0 b
              in if b \<noteq> gl_packet_len s2 then radio_abort_rx s2
                 else
                   (let s3 = s2\<lparr>gl_bytes_read := 1\<rparr>
                    in if gl_packet_len s3 > 8
                       then (case rx_loop (unat (gl_packet_len s3) - 8) bs s3 of
                               (True, s4) \<Rightarrow> glossy_schedule_rx_timeout s4
                             | (False, s4) \<Rightarrow> s4)
                       else glossy_schedule_rx_timeout s3)))"

definition read_rest :: "irq \<Rightarrow> glossy \<Rightarrow> glossy" where
  "read_rest q s =
     s\<lparr>gl_packet := mem_put (gl_packet s) (unat (gl_bytes_read s))
         (map (iq_rest q) [0..<unat (gl_packet_len s) + 1 - unat (gl_bytes_read s)]),
       gl_bytes_read := gl_packet_len s + 1\<rparr>"

definition glossy_end_rx :: "irq \<Rightarrow> glossy \<Rightarrow> glossy" where
  "glossy_end_rx q s =
     (let s1 = read_rest q s
      in if crc_ok s1 then
           (let s2 = (if gl_sync s1 \<noteq> 0 then set_slot_field s1 (slot_field s1 + 1) else s1);
                s3 = (if gl_tx_cnt s2 = gl_tx_max s2 then (radio_off (iq_now q 2) s2)\<lparr>gl_status := GLOSSY_STATUS_OFF\<rparr>
                      else (radio_write_tx s2)\<lparr>gl_status := GLOSSY_STATUS_RECEIVED\<rparr>);
                s4 = (if gl_sync s3 \<noteq> 0 \<and> gl_rx_cnt s3 = 0
                      then s3\<lparr>gl_time_to_first_rx := gl_t_first_rx s3 - gl_time_to_first_rx s3\<rparr> else s3);
                s5 = s4\<lparr>gl_rx_cnt := gl_rx_cnt s4 + 1\<rparr>;
                s6 = (if gl_sync s5 \<noteq> 0 \<and> slot_field s5 < 200 then glossy_estimate_slot_lengths (iq_tbccr1 q) s5 else s5);
                s7 = s6\<lparr>gl_t_rx_stop := iq_tbccr1 q\<rparr>
            in if gl_initiator s7 \<noteq> 0 then s7\<lparr>gl_tbcctl4 := False\<rparr> else s7)
         else (radio_abort_tx (iq_now q 3) s1)\<lparr>gl_status := GLOSSY_STATUS_WAITING\<rparr>)"

definition glossy_begin_tx :: "irq \<Rightarrow> glossy \<Rightarrow> glossy" where
  "glossy_begin_tx q s =
     (let s1 = s\<lparr>gl_t_tx_start := iq_tbccr1 q, gl_status := GLOSSY_STATUS_TRANSMITTING, gl_tx_slot_last := slot_field s\<rparr>;
          s2 = (if gl_initiator s1 = 0 \<and> gl_rx_cnt s1 = 1 then packet_to_data s1 else s1)
      in if gl_sync s2 \<noteq> 0 \<and> gl_T_slot_h s2 \<noteq> 0 \<and> gl_t_ref_l_updated s2 = 0 \<and> gl_rx_cnt s2 \<noteq> 0 \<and> slot_field s2 < 200
         then glossy_compute_sync_reference_point (iq_cap_h q) (iq_cap_l q) s2 else s2)"

text \<open>\<open>tx_max - initiator\<close> is a difference of two \<open>int\<close>s.\<close>

definition glossy_end_tx :: "irq \<Rightarrow> glossy \<Rightarrow> glossy" where
  "glossy_end_tx q s =
     (let s1 = en_on (iq_now q 2) ENERGEST_TYPE_LISTEN (en_off (iq_now q 2) ENERGEST_TYPE_TRANSMIT s);
          s2 = s1\<lparr>gl_t_tx_stop := iq_tbccr1 q, gl_tx_cnt := gl_tx_cnt s1 + 1\<rparr>
      in radio_flush_tx
           (if gl_tx_cnt s2 = gl_tx_max s2 \<and> (gl_sync s2 = 0 \<or> uint (gl_tx_max s2) - uint (gl_initiator s2) > 0)
            then (radio_off (iq_now q 3) s2)\<lparr>gl_status := GLOSSY_STATUS_OFF\<rparr>
            else s2\<lparr>gl_status := GLOSSY_STATUS_WAITING\<rparr>))"

text \<open>The initiator sends its packet again when it has heard nothing.\<close>

definition initiator_timeout :: "irq \<Rightarrow> glossy \<Rightarrow> glossy" where
  "initiator_timeout q s =
     (if gl_rx_cnt s = 0 then
        (let s1 = set_byte (set_byte (s\<lparr>gl_tx_cnt := 0\<rparr>) 0 (gl_packet_len s)) 1 GLOSSY_HEADER;
             s2 = (if gl_sync s1 \<noteq> 0 then set_slot_field s1 200 else s1)
         in (radio_start_tx (iq_now q 2) (radio_write_tx ((data_to_packet s2)\<lparr>gl_status := GLOSSY_STATUS_RECEIVED\<rparr>)))
              \<lparr>gl_tbccr4 := iq_tbr4 q + GLOSSY_INITIATOR_TIMEOUT\<rparr>)
      else s\<lparr>gl_tbcctl4 := False\<rparr>)"

text \<open>When Glossy is off the interrupt belongs to the MAC protocol: the function of \<open>xmac.c\<close> it calls.\<close>

datatype mac_call = Xmac_Timeout | Xmac_Powercycle

definition timerb1_interrupt :: "irq \<Rightarrow> glossy \<Rightarrow> mac_call option \<times> glossy" where
  "timerb1_interrupt q s0 =
     (let s = s0\<lparr>gl_T_irq := push_bit 1 ((iq_tbr q - iq_tbccr1 q) - 21)\<rparr>
      in if gl_status s = GLOSSY_STATUS_RECEIVING \<and> \<not> iq_sfd q then
           (None, if gl_T_irq s \<le> 8 then glossy_end_rx q (radio_start_tx (iq_now q 4) s)
                  else (radio_flush_rx s)\<lparr>gl_status := GLOSSY_STATUS_WAITING\<rparr>)
         else if gl_status s = GLOSSY_STATUS_WAITING \<and> iq_sfd q then (None, glossy_begin_rx q s)
         else if gl_status s = GLOSSY_STATUS_RECEIVED \<and> iq_sfd q then (None, glossy_begin_tx q s)
         else if gl_status s = GLOSSY_STATUS_TRANSMITTING \<and> \<not> iq_sfd q then (None, glossy_end_tx q s)
         else if gl_status s = GLOSSY_STATUS_ABORTED then (None, s\<lparr>gl_status := GLOSSY_STATUS_WAITING\<rparr>)
         else if gl_status s = GLOSSY_STATUS_WAITING \<and> iq_tbiv q = TBIV_TBCCR4 then (None, initiator_timeout q s)
         else if gl_status s \<noteq> GLOSSY_STATUS_OFF then (None, (radio_flush_rx s)\<lparr>gl_status := GLOSSY_STATUS_WAITING\<rparr>)
         else (case iq_tbiv q of
                 TBIV_TBCCR2 \<Rightarrow> (Some Xmac_Timeout, s\<lparr>gl_periph := (gl_periph s)\<lparr>pe_tbcctl2 := False\<rparr>\<rparr>)
               | TBIV_TBCCR3 \<Rightarrow> (Some Xmac_Powercycle, s)
               | _ \<Rightarrow> (None, s)))"

text \<open>The reception timeout (\<open>TACCR2\<close>) reaches \<open>radio_abort_rx\<close> through \<open>timera1\<close> of \<open>clock.c\<close>.\<close>

section \<open>The functions other modules call\<close>

definition get_relay_cnt :: "glossy \<Rightarrow> u8" where "get_relay_cnt s = gl_slot s"

definition get_T_slot_h :: "glossy \<Rightarrow> rtimer_clock_t" where "get_T_slot_h s = gl_T_slot_h s"

definition is_t_ref_l_updated :: "glossy \<Rightarrow> u8" where "is_t_ref_l_updated s = gl_t_ref_l_updated s"

definition get_t_ref_l :: "glossy \<Rightarrow> rtimer_clock_t" where "get_t_ref_l s = gl_t_ref_l s"

definition set_t_ref_l :: "rtimer_clock_t \<Rightarrow> glossy \<Rightarrow> glossy" where "set_t_ref_l t s = s\<lparr>gl_t_ref_l := t\<rparr>"

definition set_t_ref_l_updated :: "u8 \<Rightarrow> glossy \<Rightarrow> glossy" where
  "set_t_ref_l_updated updated s = s\<lparr>gl_t_ref_l_updated := updated\<rparr>"

definition get_glossy_status :: "glossy \<Rightarrow> glossy_status" where "get_glossy_status s = gl_status s"

definition get_time_to_first_rx :: "glossy \<Rightarrow> rtimer_clock_t" where "get_time_to_first_rx s = gl_time_to_first_rx s"

end
