(* ===== verification/Glossy_Inv.thy ===== *)
theory Glossy_Inv
  imports Glossy
begin

text \<open>
  The invariant of Glossy: the packet buffer is always as long as the packet, the number of transmissions stays
  below its limit, and the energy accounting of the radio follows the radio. It is kept by every sequence of
  starts, interrupts, reception timeouts and stops.
\<close>

section \<open>The radio functions as one update\<close>

definition en_all_off :: "rtimer_clock_t \<Rightarrow> energest \<Rightarrow> energest" where
  "en_all_off now e =
     (let e1 = (if en_mode e ENERGEST_TYPE_TRANSMIT then ENERGEST_OFF now e ENERGEST_TYPE_TRANSMIT else e)
      in if en_mode e1 ENERGEST_TYPE_LISTEN then ENERGEST_OFF now e1 ENERGEST_TYPE_LISTEN else e1)"

definition en_to_tx :: "rtimer_clock_t \<Rightarrow> energest \<Rightarrow> energest" where
  "en_to_tx now e = ENERGEST_ON now (ENERGEST_OFF now e ENERGEST_TYPE_LISTEN) ENERGEST_TYPE_TRANSMIT"

definition en_to_rx :: "rtimer_clock_t \<Rightarrow> energest \<Rightarrow> energest" where
  "en_to_rx now e = ENERGEST_ON now (ENERGEST_OFF now e ENERGEST_TYPE_TRANSMIT) ENERGEST_TYPE_LISTEN"

lemma radio_flush_tx_eq [simp]:
  "radio_flush_tx s = s\<lparr>gl_radio := \<lparr>rd_strobes = SFLUSHTX # rd_strobes (gl_radio s), rd_txfifo = []\<rparr>\<rparr>"
  by (simp add: radio_flush_tx_def strobes_def)

lemma radio_flush_rx_eq [simp]:
  "radio_flush_rx s = s\<lparr>gl_radio := (gl_radio s)\<lparr>rd_strobes := SFLUSHRX # SFLUSHRX # rd_strobes (gl_radio s)\<rparr>\<rparr>"
  by (simp add: radio_flush_rx_def strobes_def)

lemma radio_on_eq [simp]:
  "radio_on now s = s\<lparr>gl_radio := (gl_radio s)\<lparr>rd_strobes := SRXON # rd_strobes (gl_radio s)\<rparr>,
     gl_energest := ENERGEST_ON now (gl_energest s) ENERGEST_TYPE_LISTEN\<rparr>"
  by (simp add: radio_on_def strobes_def en_on_def)

lemma radio_off_eq [simp]:
  "radio_off now s = s\<lparr>gl_radio := (gl_radio s)\<lparr>rd_strobes := SRFOFF # rd_strobes (gl_radio s)\<rparr>,
     gl_energest := en_all_off now (gl_energest s)\<rparr>"
  by (simp add: radio_off_def strobes_def en_off_def en_all_off_def Let_def)

lemma radio_start_tx_eq [simp]:
  "radio_start_tx now s = s\<lparr>gl_radio := (gl_radio s)\<lparr>rd_strobes := STXON # rd_strobes (gl_radio s)\<rparr>,
     gl_energest := en_to_tx now (gl_energest s)\<rparr>"
  by (simp add: radio_start_tx_def strobes_def en_on_def en_off_def en_to_tx_def)

lemma radio_abort_tx_eq [simp]:
  "radio_abort_tx now s = s\<lparr>gl_radio := (gl_radio s)\<lparr>rd_strobes := SFLUSHRX # SFLUSHRX # SRXON # rd_strobes (gl_radio s)\<rparr>,
     gl_energest := (if en_mode (gl_energest s) ENERGEST_TYPE_TRANSMIT then en_to_rx now (gl_energest s) else gl_energest s)\<rparr>"
  by (simp add: radio_abort_tx_def strobes_def en_on_def en_off_def en_to_rx_def Let_def)

lemma radio_abort_rx_eq [simp]:
  "radio_abort_rx s = (if gl_status s = GLOSSY_STATUS_RECEIVING
     then s\<lparr>gl_status := GLOSSY_STATUS_ABORTED, gl_tacctl2 := False,
            gl_radio := (gl_radio s)\<lparr>rd_strobes := SFLUSHRX # SFLUSHRX # rd_strobes (gl_radio s)\<rparr>\<rparr>
     else s\<lparr>gl_tacctl2 := False\<rparr>)"
  by (simp add: radio_abort_rx_def glossy_stop_rx_timeout_def)

lemma radio_write_tx_eq [simp]:
  "radio_write_tx s = s\<lparr>gl_radio := (gl_radio s)\<lparr>rd_txfifo := rd_txfifo (gl_radio s) @ take (unat (gl_packet_len s) - 1) (gl_packet s)\<rparr>\<rparr>"
  by (simp add: radio_write_tx_def)

text \<open>Which of transmit and listen is being accounted.\<close>

abbreviation "txs \<equiv> \<lambda>e. en_mode e ENERGEST_TYPE_TRANSMIT"
abbreviation "rxs \<equiv> \<lambda>e. en_mode e ENERGEST_TYPE_LISTEN"

lemma en_modes [simp]:
  "txs (en_all_off now e) = False" "rxs (en_all_off now e) = False"
  "txs (en_to_tx now e) = True" "rxs (en_to_tx now e) = False"
  "txs (en_to_rx now e) = False" "rxs (en_to_rx now e) = True"
  "txs (ENERGEST_ON now e ENERGEST_TYPE_LISTEN) = txs e" "rxs (ENERGEST_ON now e ENERGEST_TYPE_LISTEN) = True"
  by (simp_all add: en_all_off_def en_to_tx_def en_to_rx_def ENERGEST_ON_def ENERGEST_OFF_def account_def Let_def)

section \<open>The invariant\<close>

definition rx_prefix :: "glossy \<Rightarrow> nat" where
  "rx_prefix s = max 1 (unat (gl_packet_len s) - 7)"

definition packet_ok :: "glossy \<Rightarrow> bool" where
  "packet_ok s \<longleftrightarrow> length (gl_packet s) = unat (gl_packet_len s) + 1 \<and>
     unat (gl_packet_len s) = unat (gl_data_len s) + (if gl_sync s \<noteq> 0 then 4 else 3) \<and>
     unat (gl_data_len s) \<le> length (gl_data s)"

definition count_ok :: "glossy \<Rightarrow> bool" where
  "count_ok s \<longleftrightarrow> gl_tx_cnt s \<le> gl_tx_max s \<and> gl_tx_max s \<noteq> 0 \<and>
     (gl_status s = GLOSSY_STATUS_RECEIVED \<or> gl_status s = GLOSSY_STATUS_TRANSMITTING \<longrightarrow> gl_tx_cnt s < gl_tx_max s)"

definition gl_inv :: "glossy \<Rightarrow> bool" where
  "gl_inv s \<longleftrightarrow>
     (if gl_status s = GLOSSY_STATUS_OFF then \<not> txs (gl_energest s) \<and> \<not> rxs (gl_energest s)
      else packet_ok s \<and> count_ok s \<and> txs (gl_energest s) = (\<not> rxs (gl_energest s)) \<and>
        gl_status s \<noteq> GLOSSY_STATUS_TRANSMITTED \<and>
        (gl_status s = GLOSSY_STATUS_RECEIVING \<longrightarrow> unat (gl_bytes_read s) = rx_prefix s))"

lemma field_keep [simp]:
  "gl_status (set_slot_field s v) = gl_status s" "gl_status (set_byte s i b) = gl_status s" "gl_status (data_to_packet s) = gl_status s"
  "gl_energest (set_slot_field s v) = gl_energest s" "gl_energest (set_byte s i b) = gl_energest s" "gl_energest (data_to_packet s) = gl_energest s"
  "packet_ok (set_slot_field s v) = packet_ok s" "packet_ok (set_byte s i b) = packet_ok s"
  "count_ok (set_slot_field s v) = count_ok s" "count_ok (set_byte s i b) = count_ok s" "count_ok (data_to_packet s) = count_ok s"
  by (simp_all add: set_slot_field_def set_byte_def data_to_packet_def packet_ok_def count_ok_def)

lemma data_to_packet_ok [simp]: "packet_ok s \<Longrightarrow> packet_ok (data_to_packet s)"
  by (simp add: packet_ok_def data_to_packet_def)

lemma packet_to_data_ok [simp]: "packet_ok s \<Longrightarrow> packet_ok (packet_to_data s)"
  by (simp add: packet_ok_def packet_to_data_def split: if_splits)

section \<open>Every handler keeps it\<close>

text \<open>What the functions of a reception leave alone.\<close>

definition rx_keeps :: "glossy \<Rightarrow> glossy \<Rightarrow> bool" where
  "rx_keeps s s' \<longleftrightarrow> length (gl_packet s') = length (gl_packet s) \<and> rd_txfifo (gl_radio s') = rd_txfifo (gl_radio s) \<and>
     gl_initiator s' = gl_initiator s \<and> gl_sync s' = gl_sync s \<and> gl_rx_cnt s' = gl_rx_cnt s \<and> gl_tx_cnt s' = gl_tx_cnt s \<and>
     gl_tx_max s' = gl_tx_max s \<and> gl_data s' = gl_data s \<and> gl_data_len s' = gl_data_len s \<and> gl_packet_len s' = gl_packet_len s \<and>
     gl_tx_slot_last s' = gl_tx_slot_last s \<and> gl_t_rx_stop s' = gl_t_rx_stop s \<and> gl_t_tx_start s' = gl_t_tx_start s \<and> gl_t_tx_stop s' = gl_t_tx_stop s \<and>
     gl_T_irq s' = gl_T_irq s \<and> gl_ie1 s' = gl_ie1 s \<and> gl_ie2 s' = gl_ie2 s \<and> gl_p1ie s' = gl_p1ie s \<and>
     gl_p2ie s' = gl_p2ie s \<and> gl_T_slot_h s' = gl_T_slot_h s \<and> gl_T_rx_h s' = gl_T_rx_h s \<and> gl_T_w_rt_h s' = gl_T_w_rt_h s \<and>
     gl_T_tx_h s' = gl_T_tx_h s \<and> gl_T_w_tr_h s' = gl_T_w_tr_h s \<and> gl_T_slot_h_sum s' = gl_T_slot_h_sum s \<and> gl_win_cnt s' = gl_win_cnt s \<and>
     gl_t_ref_l s' = gl_t_ref_l s \<and> gl_T_offset_h s' = gl_T_offset_h s \<and> gl_slot s' = gl_slot s \<and> gl_t_ref_l_updated s' = gl_t_ref_l_updated s \<and>
     gl_time_to_first_rx s' = gl_time_to_first_rx s \<and> gl_tbccr4 s' = gl_tbccr4 s \<and> gl_tbcctl4 s' = gl_tbcctl4 s \<and> gl_energest s' = gl_energest s \<and>
     gl_periph s' = gl_periph s"

lemma rx_keeps_refl [simp]: "rx_keeps s s"
  by (simp add: rx_keeps_def)

lemma rx_keeps_trans: "rx_keeps s t \<Longrightarrow> rx_keeps t u \<Longrightarrow> rx_keeps s u"
  by (simp add: rx_keeps_def)

lemma rx_keeps_steps:
  "rx_keeps s (radio_abort_rx s)" "rx_keeps s (set_byte s i b)" "rx_keeps s (s\<lparr>gl_bytes_read := b\<rparr>)"
  "rx_keeps s (glossy_schedule_rx_timeout s)"
  "rx_keeps s (s\<lparr>gl_t_rx_start := t, gl_t_first_rx := tf, gl_status := st, gl_t_rx_timeout := to\<rparr>)"
  "rx_keeps s ((set_byte s i b)\<lparr>gl_bytes_read := r\<rparr>)"
  by (simp_all add: rx_keeps_def set_byte_def glossy_schedule_rx_timeout_def)

lemma set_byte_simps [simp]:
  "gl_bytes_read (set_byte s i b) = gl_bytes_read s" "gl_packet_len (set_byte s i b) = gl_packet_len s"
  "gl_packet (set_byte s i b) = (gl_packet s)[i := b]" "gl_radio (set_byte s i b) = gl_radio s" "gl_tacctl2 (set_byte s i b) = gl_tacctl2 s"
  by (simp_all add: set_byte_def)

lemma rx_loop_keeps:
  "rx_loop n bs s = (ok, s') \<Longrightarrow> gl_status s = GLOSSY_STATUS_RECEIVING \<Longrightarrow> unat (gl_bytes_read s) + n < 256 \<Longrightarrow>
   rx_keeps s s' \<and> (if ok then gl_status s' = GLOSSY_STATUS_RECEIVING \<and> unat (gl_bytes_read s') = unat (gl_bytes_read s) + n
      else gl_status s' = GLOSSY_STATUS_ABORTED)"
proof (induction n bs s rule: rx_loop.induct)
  case (3 n b bs s)
  let ?s = "(set_byte s (unat (gl_bytes_read s)) b)\<lparr>gl_bytes_read := gl_bytes_read s + 1\<rparr>"
  have f: "gl_status ?s = GLOSSY_STATUS_RECEIVING" "unat (gl_bytes_read ?s) = Suc (unat (gl_bytes_read s))"
    using 3(3,4) by (simp_all add: unat_word_ariths)
  note k = rx_keeps_steps(6) [where s = s and i = "unat (gl_bytes_read s)" and b = b and r = "gl_bytes_read s + 1"]
  show ?case
  proof (cases "gl_bytes_read ?s = 2 \<and> gl_packet ?s ! 1 \<noteq> GLOSSY_HEADER")
    case True
    have "rx_loop (Suc n) (b # bs) s = (False, radio_abort_rx ?s)"
      by (simp only: rx_loop.simps Let_def if_P [OF True])
    then have r: "ok = False" "s' = radio_abort_rx ?s"
      using 3(2) by simp_all
    have "gl_status (radio_abort_rx ?s) = GLOSSY_STATUS_ABORTED"
      using f(1) by simp
    with rx_keeps_trans [OF k rx_keeps_steps(1)] show ?thesis
      unfolding r by (simp only: if_False simp_thms)
  next
    case False
    have "rx_loop (Suc n) (b # bs) s = rx_loop n bs ?s"
      by (simp only: rx_loop.simps Let_def if_not_P [OF False])
    then have r: "rx_loop n bs ?s = (ok, s')"
      using 3(2) by (simp only:)
    have "unat (gl_bytes_read ?s) + n < 256"
      using 3(4) f by simp
    from 3(1) [OF refl False r f(1) this] rx_keeps_trans [OF k] f(2) show ?thesis
      by (cases ok) auto
  qed
next
  case (2 n s)
  have r: "ok = False" "s' = radio_abort_rx s"
    using 2(1) by simp_all
  have "gl_status (radio_abort_rx s) = GLOSSY_STATUS_ABORTED"
    using 2(2) by simp
  then show ?case
    unfolding r using rx_keeps_steps(1) by (simp only: if_False simp_thms)
qed simp

text \<open>The state in which a reception begins, and the cases of \<open>glossy_begin_rx\<close>.\<close>

definition rx_begun :: "irq \<Rightarrow> glossy \<Rightarrow> glossy" where
  "rx_begun q s = s\<lparr>gl_t_rx_start := iq_tbccr1 q,
     gl_t_first_rx := (if gl_sync s \<noteq> 0 \<and> gl_rx_cnt s = 0 then iq_now q 0 else gl_t_first_rx s),
     gl_status := GLOSSY_STATUS_RECEIVING,
     gl_t_rx_timeout := iq_now q 1 + 5 + (ucast (gl_packet_len s) * 135) div 128\<rparr>"

lemma rx_begun_simps [simp]:
  "gl_status (rx_begun q s) = GLOSSY_STATUS_RECEIVING" "gl_packet_len (rx_begun q s) = gl_packet_len s"
  "gl_packet (rx_begun q s) = gl_packet s" "gl_t_rx_start (rx_begun q s) = iq_tbccr1 q"
  by (simp_all add: rx_begun_def)

lemma bytes_read_len: "gl_packet_len (s\<lparr>gl_bytes_read := r\<rparr>) = gl_packet_len s"
  by simp

lemma begin_rx_cases:
  obtains "glossy_begin_rx q s = radio_abort_rx (rx_begun q s)" "iq_bytes q = []"
  | b bs where "iq_bytes q = b # bs" "b \<noteq> gl_packet_len s" "glossy_begin_rx q s = radio_abort_rx (set_byte (rx_begun q s) 0 b)"
  | b bs where "iq_bytes q = b # bs" "b = gl_packet_len s" "\<not> gl_packet_len s > 8"
      "glossy_begin_rx q s = glossy_schedule_rx_timeout ((set_byte (rx_begun q s) 0 b)\<lparr>gl_bytes_read := 1\<rparr>)"
  | b bs ok s4 where "iq_bytes q = b # bs" "b = gl_packet_len s" "gl_packet_len s > 8"
      "rx_loop (unat (gl_packet_len s) - 8) bs ((set_byte (rx_begun q s) 0 b)\<lparr>gl_bytes_read := 1\<rparr>) = (ok, s4)"
      "glossy_begin_rx q s = (if ok then glossy_schedule_rx_timeout s4 else s4)"
proof -
  have eq: "glossy_begin_rx q s = (case iq_bytes q of [] \<Rightarrow> radio_abort_rx (rx_begun q s)
    | b # bs \<Rightarrow> if b \<noteq> gl_packet_len s then radio_abort_rx (set_byte (rx_begun q s) 0 b)
        else if gl_packet_len s > 8
        then (case rx_loop (unat (gl_packet_len s) - 8) bs ((set_byte (rx_begun q s) 0 b)\<lparr>gl_bytes_read := 1\<rparr>) of
                (True, s4) \<Rightarrow> glossy_schedule_rx_timeout s4 | (False, s4) \<Rightarrow> s4)
        else glossy_schedule_rx_timeout ((set_byte (rx_begun q s) 0 b)\<lparr>gl_bytes_read := 1\<rparr>))"
    unfolding glossy_begin_rx_def Let_def rx_begun_def [symmetric]
    by (simp only: rx_begun_simps set_byte_simps bytes_read_len)
  show ?thesis
  proof (cases "iq_bytes q")
    case Nil
    then show ?thesis
      by (intro that(1)) (simp_all only: eq list.case)
  next
    case (Cons b bs)
    obtain ok s4 where r: "rx_loop (unat (gl_packet_len s) - 8) bs ((set_byte (rx_begun q s) 0 b)\<lparr>gl_bytes_read := 1\<rparr>) = (ok, s4)"
      by (rule prod.exhaust)
    show ?thesis
    proof (cases "b = gl_packet_len s")
      case False
      then show ?thesis
        by (intro that(2) [OF Cons]) (simp_all only: eq Cons list.case not_False_eq_True if_True)
    next
      case b: True
      show ?thesis
      proof (cases "gl_packet_len s > 8")
        case True
        have "glossy_begin_rx q s = (case (ok, s4) of (True, s4) \<Rightarrow> glossy_schedule_rx_timeout s4 | (False, s4) \<Rightarrow> s4)"
          using True by (simp only: eq Cons list.case b r [unfolded b] simp_thms if_True if_False)
        then have "glossy_begin_rx q s = (if ok then glossy_schedule_rx_timeout s4 else s4)"
          by (cases ok) (simp_all only: prod.case if_True if_False simp_thms bool.case)
        then show ?thesis
          by (rule that(4) [OF Cons b True r])
      next
        case False
        have "glossy_begin_rx q s = glossy_schedule_rx_timeout ((set_byte (rx_begun q s) 0 b)\<lparr>gl_bytes_read := 1\<rparr>)"
          using False by (simp only: eq Cons list.case b [symmetric] simp_thms if_False)
        then show ?thesis
          by (rule that(3) [OF Cons b False])
      qed
    qed
  qed
qed

lemma abort_status: "gl_status s = GLOSSY_STATUS_RECEIVING \<Longrightarrow> gl_status (radio_abort_rx s) = GLOSSY_STATUS_ABORTED"
  by simp

lemma begin_rx_keeps:
  "rx_keeps s (glossy_begin_rx q s) \<and>
   (gl_status (glossy_begin_rx q s) = GLOSSY_STATUS_RECEIVING \<and> unat (gl_bytes_read (glossy_begin_rx q s)) = rx_prefix s \<or>
    gl_status (glossy_begin_rx q s) = GLOSSY_STATUS_ABORTED)"
proof -
  have k1: "rx_keeps s (rx_begun q s)"
    unfolding rx_begun_def by (rule rx_keeps_steps)
  have small: "unat (gl_packet_len s) - 8 < 255"
    using unat8_less [of "gl_packet_len s"] by linarith
  show ?thesis
  proof (rule begin_rx_cases [of q s], goal_cases)
    case 1
    then show ?case
      using rx_keeps_trans [OF k1 rx_keeps_steps(1)] abort_status [OF rx_begun_simps(1)] by (simp only: simp_thms)
  next
    case (2 b bs)
    have "gl_status (radio_abort_rx (set_byte (rx_begun q s) 0 b)) = GLOSSY_STATUS_ABORTED"
      by (rule abort_status) simp
    then show ?case
      using 2 rx_keeps_trans [OF rx_keeps_trans [OF k1 rx_keeps_steps(2)] rx_keeps_steps(1)] by (simp only: simp_thms)
  next
    case (3 b bs)
    have "rx_prefix s = 1"
      using 3(3) by (simp add: rx_prefix_def word_less_nat_alt)
    then show ?case
      using 3 rx_keeps_trans [OF rx_keeps_trans [OF k1 rx_keeps_steps(6)] rx_keeps_steps(4)]
      by (simp add: glossy_schedule_rx_timeout_def)
  next
    case (4 b bs ok s4)
    have pre: "1 + (unat (gl_packet_len s) - 8) = rx_prefix s"
      using 4(3) by (simp add: rx_prefix_def word_less_nat_alt)
    let ?s3 = "(set_byte (rx_begun q s) 0 b)\<lparr>gl_bytes_read := 1\<rparr>"
    have "gl_status ?s3 = GLOSSY_STATUS_RECEIVING" "unat (gl_bytes_read ?s3) + (unat (gl_packet_len s) - 8) < 256"
      using small by simp_all
    from rx_loop_keeps [OF 4(4) this] rx_keeps_trans [OF k1 rx_keeps_steps(6)] pre
    have "rx_keeps s s4" "if ok then gl_status s4 = GLOSSY_STATUS_RECEIVING \<and> unat (gl_bytes_read s4) = rx_prefix s
      else gl_status s4 = GLOSSY_STATUS_ABORTED"
      by (auto intro: rx_keeps_trans)
    then show ?case
      using 4(5) rx_keeps_trans [OF _ rx_keeps_steps(4)] by (cases ok) (auto simp: glossy_schedule_rx_timeout_def)
  qed
qed

lemma rx_keeps_ok:
  assumes "rx_keeps s t"
  shows "packet_ok t = packet_ok s" "gl_tx_cnt t = gl_tx_cnt s" "gl_tx_max t = gl_tx_max s" "gl_energest t = gl_energest s"
    "rx_prefix t = rx_prefix s"
proof -
  have k: "length (gl_packet t) = length (gl_packet s)" "gl_packet_len t = gl_packet_len s" "gl_data_len t = gl_data_len s"
    "gl_sync t = gl_sync s" "gl_data t = gl_data s" "gl_tx_cnt t = gl_tx_cnt s" "gl_tx_max t = gl_tx_max s"
    "gl_energest t = gl_energest s"
    using assms by (simp_all only: rx_keeps_def simp_thms)
  show "packet_ok t = packet_ok s" "rx_prefix t = rx_prefix s"
    by (simp_all only: packet_ok_def rx_prefix_def k)
  show "gl_tx_cnt t = gl_tx_cnt s" "gl_tx_max t = gl_tx_max s" "gl_energest t = gl_energest s"
    by (rule k)+
qed

lemma begin_rx_inv:
  assumes "gl_inv s" and "gl_status s = GLOSSY_STATUS_WAITING"
  shows "gl_inv (glossy_begin_rx q s)"
proof -
  have k: "rx_keeps s (glossy_begin_rx q s)"
    and st: "gl_status (glossy_begin_rx q s) = GLOSSY_STATUS_RECEIVING \<and> unat (gl_bytes_read (glossy_begin_rx q s)) = rx_prefix s \<or>
      gl_status (glossy_begin_rx q s) = GLOSSY_STATUS_ABORTED"
    using begin_rx_keeps by blast+
  have "packet_ok s" "gl_tx_cnt s \<le> gl_tx_max s" "gl_tx_max s \<noteq> 0" "txs (gl_energest s) = (\<not> rxs (gl_energest s))"
    using assms by (simp_all add: gl_inv_def count_ok_def)
  with st show ?thesis
    by (elim disjE) (simp_all add: gl_inv_def count_ok_def rx_keeps_ok [OF k])
qed

lemma gl_inv_fields [simp]:
  "gl_inv (s\<lparr>gl_T_irq := a\<rparr>) = gl_inv s" "gl_inv (s\<lparr>gl_radio := r\<rparr>) = gl_inv s" "gl_inv (s\<lparr>gl_t_rx_stop := a\<rparr>) = gl_inv s"
  "gl_inv (s\<lparr>gl_tbcctl4 := c\<rparr>) = gl_inv s" "gl_inv (s\<lparr>gl_tbccr4 := a\<rparr>) = gl_inv s" "gl_inv (s\<lparr>gl_time_to_first_rx := a\<rparr>) = gl_inv s"
  "gl_inv (s\<lparr>gl_rx_cnt := x\<rparr>) = gl_inv s" "gl_inv (s\<lparr>gl_periph := p\<rparr>) = gl_inv s" "gl_inv (s\<lparr>gl_tacctl2 := c\<rparr>) = gl_inv s"
  by (simp_all add: gl_inv_def packet_ok_def count_ok_def rx_prefix_def)

lemma gl_inv_wait: "gl_inv s \<Longrightarrow> gl_status s \<noteq> GLOSSY_STATUS_OFF \<Longrightarrow> gl_inv (s\<lparr>gl_status := GLOSSY_STATUS_WAITING\<rparr>)"
  by (simp add: gl_inv_def packet_ok_def count_ok_def)

lemma estimate_form:
  "\<exists>a b c d e f g. glossy_estimate_slot_lengths t s = s\<lparr>gl_T_w_rt_h := a, gl_T_tx_h := b, gl_T_w_tr_h := c, gl_T_rx_h := d,
     gl_T_slot_h := e, gl_T_slot_h_sum := f, gl_win_cnt := g\<rparr>"
proof -
  have "glossy_estimate_slot_lengths t s = s\<lparr>gl_T_w_rt_h := gl_T_w_rt_h (glossy_estimate_slot_lengths t s),
     gl_T_tx_h := gl_T_tx_h (glossy_estimate_slot_lengths t s), gl_T_w_tr_h := gl_T_w_tr_h (glossy_estimate_slot_lengths t s),
     gl_T_rx_h := gl_T_rx_h (glossy_estimate_slot_lengths t s), gl_T_slot_h := gl_T_slot_h (glossy_estimate_slot_lengths t s),
     gl_T_slot_h_sum := gl_T_slot_h_sum (glossy_estimate_slot_lengths t s), gl_win_cnt := gl_win_cnt (glossy_estimate_slot_lengths t s)\<rparr>"
    by (simp add: glossy_estimate_slot_lengths_def Let_def)
  then show ?thesis
    by blast
qed

lemma estimate_inv [simp]: "gl_inv (glossy_estimate_slot_lengths t s) = gl_inv s"
  using estimate_form [of t s] by (elim exE) (simp add: gl_inv_def packet_ok_def count_ok_def rx_prefix_def)

lemma read_rest_ok:
  assumes "packet_ok s" and "unat (gl_bytes_read s) = rx_prefix s"
  shows "packet_ok (read_rest q s)"
proof -
  have "rx_prefix s \<le> unat (gl_packet_len s)"
    using assms(1) by (auto simp: rx_prefix_def packet_ok_def split: if_splits)
  with assms show ?thesis
    by (simp add: packet_ok_def read_rest_def)
qed

lemma end_rx_inv:
  assumes inv: "gl_inv s" and st: "gl_status s = GLOSSY_STATUS_RECEIVING"
  shows "gl_inv (glossy_end_rx q s)"
proof -
  define s1 where "s1 = read_rest q s"
  have p1: "packet_ok s1" "count_ok s1" "txs (gl_energest s1) = (\<not> rxs (gl_energest s1))" "gl_status s1 = GLOSSY_STATUS_RECEIVING"
    using inv st read_rest_ok [of s q] by (simp_all add: gl_inv_def s1_def) (simp_all add: read_rest_def count_ok_def st)
  show ?thesis
  proof (cases "crc_ok s1")
    case True
    define s2 where "s2 = (if gl_sync s1 \<noteq> 0 then set_slot_field s1 (slot_field s1 + 1) else s1)"
    define s3 where "s3 = (if gl_tx_cnt s2 = gl_tx_max s2 then (radio_off (iq_now q 2) s2)\<lparr>gl_status := GLOSSY_STATUS_OFF\<rparr>
                      else (radio_write_tx s2)\<lparr>gl_status := GLOSSY_STATUS_RECEIVED\<rparr>)"
    have "packet_ok s2" "count_ok s2" "txs (gl_energest s2) = (\<not> rxs (gl_energest s2))"
      using p1 by (simp_all add: s2_def)
    then have i3: "gl_inv s3"
      by (auto simp: s3_def gl_inv_def packet_ok_def count_ok_def order_less_le)
    then have "gl_inv (if gl_sync s3 \<noteq> 0 \<and> gl_rx_cnt s3 = 0
        then s3\<lparr>gl_time_to_first_rx := gl_t_first_rx s3 - gl_time_to_first_rx s3\<rparr> else s3)"
      by simp
    with True show ?thesis
      unfolding glossy_end_rx_def Let_def s1_def [symmetric] s2_def [symmetric] s3_def [symmetric]
      by (simp only: if_True) (simp split: if_split)
  next
    case False
    then have "glossy_end_rx q s = (radio_abort_tx (iq_now q 3) s1)\<lparr>gl_status := GLOSSY_STATUS_WAITING\<rparr>"
      by (simp add: glossy_end_rx_def Let_def s1_def)
    with p1 show ?thesis
      by (simp add: gl_inv_def packet_ok_def count_ok_def)
  qed
qed

lemma begin_tx_inv:
  assumes "gl_inv s" and "gl_status s = GLOSSY_STATUS_RECEIVED"
  shows "gl_inv (glossy_begin_tx q s)"
  using assms by (simp add: glossy_begin_tx_def Let_def gl_inv_def packet_ok_def count_ok_def packet_to_data_def
      glossy_compute_sync_reference_point_def)

lemma u8_Suc_le: "(a :: u8) < b \<Longrightarrow> a + 1 \<le> b"
  by (rule inc_le)

lemma end_tx_inv:
  assumes "gl_inv s" and "gl_status s = GLOSSY_STATUS_TRANSMITTING"
  shows "gl_inv (glossy_end_tx q s)"
proof -
  have "gl_tx_cnt s + 1 \<le> gl_tx_max s"
    using assms by (intro u8_Suc_le) (simp add: gl_inv_def count_ok_def)
  moreover have "en_on now ENERGEST_TYPE_LISTEN (en_off now ENERGEST_TYPE_TRANSMIT s) = s\<lparr>gl_energest := en_to_rx now (gl_energest s)\<rparr>" for now
    by (simp add: en_on_def en_off_def en_to_rx_def)
  ultimately show ?thesis
    using assms by (simp add: glossy_end_tx_def Let_def gl_inv_def packet_ok_def count_ok_def)
qed

lemma initiator_timeout_inv:
  assumes "gl_inv s" and "gl_status s = GLOSSY_STATUS_WAITING"
  shows "gl_inv (initiator_timeout q s)"
proof (cases "gl_rx_cnt s = 0")
  case True
  define s2 where "s2 = (let s1 = set_byte (set_byte (s\<lparr>gl_tx_cnt := 0\<rparr>) 0 (gl_packet_len s)) 1 GLOSSY_HEADER
    in if gl_sync s1 \<noteq> 0 then set_slot_field s1 200 else s1)"
  have "packet_ok s2" "gl_tx_cnt s2 = 0" "gl_tx_max s2 = gl_tx_max s" "gl_tx_max s \<noteq> 0"
    using assms by (simp_all add: s2_def Let_def gl_inv_def count_ok_def packet_ok_def set_byte_def set_slot_field_def split: if_split)
  moreover from this have "gl_tx_cnt s2 < gl_tx_max s2"
    by (simp add: word_gt_0)
  moreover have "initiator_timeout q s = (radio_start_tx (iq_now q 2) (radio_write_tx ((data_to_packet s2)\<lparr>gl_status := GLOSSY_STATUS_RECEIVED\<rparr>)))
              \<lparr>gl_tbccr4 := iq_tbr4 q + GLOSSY_INITIATOR_TIMEOUT\<rparr>"
    unfolding initiator_timeout_def s2_def Let_def by (simp only: True simp_thms if_True)
  ultimately show ?thesis
    by (simp add: gl_inv_def packet_ok_def count_ok_def data_to_packet_def)
qed (use assms in \<open>simp add: initiator_timeout_def\<close>)

lemma interrupt_inv: "gl_inv s \<Longrightarrow> gl_inv (snd (timerb1_interrupt q s))"
proof -
  assume inv: "gl_inv s"
  define s1 where "s1 = s\<lparr>gl_T_irq := push_bit 1 ((iq_tbr q - iq_tbccr1 q) - 21)\<rparr>"
  have i1: "gl_inv s1"
    using inv by (simp add: s1_def)
  have st: "gl_status s1 = GLOSSY_STATUS_RECEIVING \<Longrightarrow> gl_inv (radio_start_tx now s1) \<and> gl_status (radio_start_tx now s1) = GLOSSY_STATUS_RECEIVING" for now
    using i1 by (simp add: gl_inv_def packet_ok_def count_ok_def rx_prefix_def)
  have w: "gl_status s1 \<noteq> GLOSSY_STATUS_OFF \<Longrightarrow> gl_inv ((radio_flush_rx s1)\<lparr>gl_status := GLOSSY_STATUS_WAITING\<rparr>)"
    using i1 by (intro gl_inv_wait) simp_all
  show ?thesis
    unfolding timerb1_interrupt_def Let_def s1_def [symmetric]
    using end_rx_inv begin_rx_inv [OF i1] begin_tx_inv [OF i1] end_tx_inv [OF i1] initiator_timeout_inv [OF i1] st w gl_inv_wait [OF i1] i1
    by (auto simp del: radio_start_tx_eq radio_flush_rx_eq split: tb_source.split)
qed

end
