(* ===== verification/Glossy_Props.thy ===== *)
theory Glossy_Props
  imports Glossy_Inv
begin

text \<open>
  The properties of Glossy: its invariant over all sequences of events, how a packet is relayed and how a flood
  carries it over several hops, the slot length and the reference time that a node computes, and the
  interrupts that are switched.
\<close>

section \<open>Events\<close>

datatype gl_event =
    Gl_Start "nat \<Rightarrow> u8" "nat \<Rightarrow> rtimer_clock_t" rtimer_clock_t "u8 list" u8 u8 u8 u8
  | Gl_Irq irq
  | Gl_Rx_Timeout
  | Gl_Stop rtimer_clock_t
  | Gl_Disable
  | Gl_Enable

fun gl_step :: "glossy \<Rightarrow> gl_event \<Rightarrow> glossy" where
  "gl_step s (Gl_Start mem now tbr data data_len initiator sync tx_max) =
     glossy_start mem now tbr data data_len initiator sync tx_max True s"
| "gl_step s (Gl_Irq q) = snd (timerb1_interrupt q s)"
| "gl_step s Gl_Rx_Timeout = radio_abort_rx s"
| "gl_step s (Gl_Stop now) = snd (glossy_stop now s)"
| "gl_step s Gl_Disable = glossy_disable_other_interrupts s"
| "gl_step s Gl_Enable = glossy_enable_other_interrupts s"

text \<open>The scheduler starts Glossy only when it is off, with a data buffer of the right size and \<open>tx_max > 0\<close>.\<close>

fun gl_event_ok :: "glossy \<Rightarrow> gl_event \<Rightarrow> bool" where
  "gl_event_ok s (Gl_Start mem now tbr data data_len initiator sync tx_max) \<longleftrightarrow>
     gl_status s = GLOSSY_STATUS_OFF \<and> unat data_len \<le> length data \<and> unat data_len < 252 \<and> tx_max \<noteq> 0"
| "gl_event_ok s _ \<longleftrightarrow> True"

lemma packet_len_eq:
  "unat data_len < 252 \<Longrightarrow> unat (glossy_packet_len sync data_len) = unat data_len + (if sync \<noteq> 0 then 4 else 3)"
proof -
  assume l: "unat data_len < 252"
  have "unat (data_len + 2) = unat data_len + 2"
    using l by (simp add: unat_word_ariths)
  then have "unat (data_len + 2 + 1) = unat data_len + 3"
    using l by (simp add: unat_word_ariths)
  then have "unat (data_len + 2 + 1) = unat data_len + 3" "unat (data_len + 2 + 1 + 1) = unat data_len + 4"
    using l by (simp_all add: unat_word_ariths)
  then show ?thesis
    by (simp add: glossy_packet_len_def)
qed

lemma setup_fields:
  "gl_status (glossy_setup mem data data_len initiator sync tx_max on s) =
     (if initiator \<noteq> 0 then GLOSSY_STATUS_RECEIVED else GLOSSY_STATUS_WAITING)"
  "gl_energest (glossy_setup mem data data_len initiator sync tx_max on s) = gl_energest s"
  "gl_tx_cnt (glossy_setup mem data data_len initiator sync tx_max on s) = 0"
  "gl_rx_cnt (glossy_setup mem data data_len initiator sync tx_max on s) = 0"
  "gl_tx_max (glossy_setup mem data data_len initiator sync tx_max on s) = tx_max"
  "gl_packet_len (glossy_setup mem data data_len initiator sync tx_max on s) = glossy_packet_len sync data_len"
  "gl_data_len (glossy_setup mem data data_len initiator sync tx_max on s) = data_len"
  "gl_sync (glossy_setup mem data data_len initiator sync tx_max on s) = sync"
  "gl_data (glossy_setup mem data data_len initiator sync tx_max on s) = data"
  by (simp_all add: glossy_setup_def Let_def set_slot_field_def set_byte_def data_to_packet_def)

lemma setup_packet:
  assumes "unat data_len \<le> length data" and "unat data_len < 252"
  shows "length (gl_packet (glossy_setup mem data data_len initiator sync tx_max on s)) = unat (glossy_packet_len sync data_len) + 1"
  using assms packet_len_eq [OF assms(2), of sync]
  by (cases "sync = 0") (simp_all add: glossy_setup_def Let_def set_slot_field_def set_byte_def data_to_packet_def)

lemma start_inv:
  assumes "gl_inv s" and "gl_event_ok s (Gl_Start mem now tbr data data_len initiator sync tx_max)"
  shows "gl_inv (glossy_start mem now tbr data data_len initiator sync tx_max True s)"
proof -
  define s1 where "s1 = glossy_setup mem data data_len initiator sync tx_max True s"
  have h: "unat data_len \<le> length data" "unat data_len < 252" "tx_max \<noteq> 0" "\<not> txs (gl_energest s)" "\<not> rxs (gl_energest s)"
    using assms by (simp_all add: gl_inv_def)
  have p: "packet_ok s1"
    using setup_packet [OF h(1,2), of mem initiator sync tx_max True s] packet_len_eq [OF h(2), of sync] h(1)
    by (simp add: packet_ok_def s1_def setup_fields)
  have c: "gl_tx_cnt s1 = 0" "gl_tx_max s1 = tx_max" "\<not> txs (gl_energest s1)" "0 < tx_max"
    using h by (simp_all add: s1_def setup_fields word_gt_0)
  have st: "gl_status s1 = (if initiator \<noteq> 0 then GLOSSY_STATUS_RECEIVED else GLOSSY_STATUS_WAITING)"
    by (simp add: s1_def setup_fields)
  show ?thesis
    unfolding glossy_start_def Let_def s1_def [symmetric]
    using p c h(3) st by (cases "initiator = 0"; cases "sync = 0") (simp_all add: gl_inv_def packet_ok_def count_ok_def)
qed

lemma gl_inv_saved [simp]:
  "gl_inv (s\<lparr>gl_ie1 := a\<rparr>) = gl_inv s" "gl_inv (s\<lparr>gl_ie2 := a\<rparr>) = gl_inv s"
  "gl_inv (s\<lparr>gl_p1ie := a\<rparr>) = gl_inv s" "gl_inv (s\<lparr>gl_p2ie := a\<rparr>) = gl_inv s"
  "gl_inv (s\<lparr>gl_tx_slot_last := a\<rparr>) = gl_inv s" "gl_inv (s\<lparr>gl_t_tx_start := t\<rparr>) = gl_inv s" "gl_inv (s\<lparr>gl_t_tx_stop := t\<rparr>) = gl_inv s"
  by (simp_all add: gl_inv_def packet_ok_def count_ok_def rx_prefix_def)

lemma gl_step_inv: "gl_inv s \<Longrightarrow> gl_event_ok s ev \<Longrightarrow> gl_inv (gl_step s ev)"
proof (cases ev)
  case (Gl_Start mem now tbr data data_len initiator sync tx_max)
  moreover assume "gl_inv s" "gl_event_ok s ev"
  ultimately show ?thesis
    using start_inv by simp
next
  case (Gl_Irq q)
  moreover assume "gl_inv s"
  ultimately show ?thesis
    using interrupt_inv by simp
next
  case Gl_Rx_Timeout
  moreover assume "gl_inv s"
  ultimately show ?thesis
  proof (cases "gl_status s = GLOSSY_STATUS_RECEIVING")
    case True
    then show ?thesis
      using \<open>gl_inv s\<close> Gl_Rx_Timeout by (simp add: gl_inv_def packet_ok_def count_ok_def)
  next
    case False
    then show ?thesis
      using \<open>gl_inv s\<close> Gl_Rx_Timeout by simp
  qed
next
  case (Gl_Stop now)
  moreover assume "gl_inv s"
  ultimately show ?thesis
    by (simp add: glossy_stop_def Let_def gl_inv_def)
next
  case Gl_Disable
  moreover assume "gl_inv s"
  ultimately show ?thesis
    by (simp add: glossy_disable_other_interrupts_def Let_def)
next
  case Gl_Enable
  moreover assume "gl_inv s"
  ultimately show ?thesis
    by (simp add: glossy_enable_other_interrupts_def)
qed

interpretation glm: machine gl_step gl_event_ok gl_inv
  by unfold_locales (rule gl_step_inv)

text \<open>C8: Whatever interrupts and timeouts happen, in whatever order: while Glossy is on, its packet buffer has the length the
  code indexes it with, at most \<open>tx_max\<close> transmissions have been counted (fewer while one is pending or under way),
  and exactly one of transmitting and listening is accounted; while it is off, neither is.\<close>

theorem glossy_invariant:
  assumes "gl_inv s" and "run_ok gl_step gl_event_ok s es"
  shows "gl_inv (foldl gl_step s es)"
  by (rule glm.inv_run [OF assms])

definition en_boot :: energest where
  "en_boot = energest_glossy_init \<lparr>en_total = (\<lambda>_. 0), en_time = (\<lambda>_. 0), en_mode = (\<lambda>_. False)\<rparr>"

definition gl_boot :: glossy where
  "gl_boot = \<lparr>gl_initiator = 0, gl_sync = 0, gl_rx_cnt = 0, gl_tx_cnt = 0, gl_tx_max = 0, gl_data = [], gl_packet = [],
     gl_data_len = 0, gl_packet_len = 0, gl_bytes_read = 0, gl_tx_slot_last = 0, gl_status = GLOSSY_STATUS_OFF,
     gl_t_rx_start = 0, gl_t_rx_stop = 0, gl_t_tx_start = 0, gl_t_tx_stop = 0, gl_t_rx_timeout = 0, gl_T_irq = 0,
     gl_ie1 = 0, gl_ie2 = 0, gl_p1ie = 0, gl_p2ie = 0, gl_T_slot_h = 0, gl_T_rx_h = 0, gl_T_w_rt_h = 0, gl_T_tx_h = 0,
     gl_T_w_tr_h = 0, gl_T_slot_h_sum = 0, gl_win_cnt = 0, gl_t_ref_l = 0, gl_T_offset_h = 0, gl_slot = 0,
     gl_t_ref_l_updated = 0, gl_t_first_rx = 0, gl_time_to_first_rx = 0, gl_tbccr4 = 0, gl_tbcctl4 = False, gl_taccr2 = 0,
     gl_tacctl2 = False, gl_radio = \<lparr>rd_strobes = [], rd_txfifo = []\<rparr>, gl_energest = en_boot,
     gl_periph = \<lparr>pe_ie1 = 3, pe_ie2 = 1, pe_p1ie = 0, pe_p2ie = 4, pe_caie = False, pe_dma = (False, False, False),
       pe_taccie1 = True, pe_tbcctl0 = False, pe_tbcctl2 = True, pe_tbcctl3 = True, pe_fifop = True, pe_sfd = False,
       pe_tb_dco = False, pe_watchdog = True\<rparr>\<rparr>"

lemma gl_boot_inv: "gl_inv gl_boot" "gl_status gl_boot = GLOSSY_STATUS_OFF"
  by (simp_all add: gl_inv_def gl_boot_def en_boot_def energest_glossy_init_def)

text \<open>A configuration packet in slot 0, and the interrupts that its reception causes.\<close>

definition cfg_packet :: "u8 list" where
  "cfg_packet = [10, 0xFE, 1, 2, 3, 4, 5, 6, 0, 0x31, 0x80]"

definition irq_begin :: irq where
  "irq_begin = \<lparr>iq_tbr = 1030, iq_tbccr1 = 1000, iq_sfd = True, iq_tbiv = TBIV_TBCCR1, iq_now = (\<lambda>_. 40), iq_tbr4 = 1100,
     iq_cap_h = 5300, iq_cap_l = 77, iq_bytes = cfg_packet, iq_rest = (\<lambda>_. 0)\<rparr>"

definition irq_end :: irq where
  "irq_end = irq_begin\<lparr>iq_tbr := 2423, iq_tbccr1 := 2400, iq_sfd := False, iq_rest := (\<lambda>i. cfg_packet ! (3 + i))\<rparr>"

theorem glossy_invariant_witness:
  "gl_inv (foldl gl_step gl_boot [Gl_Disable, Gl_Start (\<lambda>_. 0) (\<lambda>_. 30) 900 [0, 0, 0, 0, 0, 0] 6 0 1 3,
     Gl_Irq irq_begin, Gl_Irq irq_end, Gl_Rx_Timeout, Gl_Irq irq_begin, Gl_Stop 300, Gl_Enable])"
proof -
  have "gl_status (glossy_disable_other_interrupts gl_boot) = GLOSSY_STATUS_OFF"
    using gl_boot_inv(2) by (simp add: glossy_disable_other_interrupts_def Let_def)
  then have "run_ok gl_step gl_event_ok gl_boot [Gl_Disable, Gl_Start (\<lambda>_. 0) (\<lambda>_. 30) 900 [0, 0, 0, 0, 0, 0] 6 0 1 3,
     Gl_Irq irq_begin, Gl_Irq irq_end, Gl_Rx_Timeout, Gl_Irq irq_begin, Gl_Stop 300, Gl_Enable]"
    by (simp only: run_ok.simps gl_step.simps gl_event_ok.simps) simp
  from glossy_invariant [OF gl_boot_inv(1) this] show ?thesis .
qed

section \<open>Receiving and relaying a packet\<close>

text \<open>
  The radio receives the packet \<open>p\<close> (length byte, header, data, slot number, the two bytes of the footer) without an
  error: the SFD pin rises (\<open>q1\<close>), at least the bytes that are read one by one arrive before the timeout, the pin falls
  (\<open>q2\<close>), the interrupt is served in time and the rest of the bytes is in the receive FIFO.
\<close>

definition hears :: "u8 list \<Rightarrow> irq \<Rightarrow> irq \<Rightarrow> glossy \<Rightarrow> bool" where
  "hears p q1 q2 s \<longleftrightarrow>
     length p = unat (gl_packet_len s) + 1 \<and> p ! 0 = gl_packet_len s \<and> p ! 1 = GLOSSY_HEADER \<and>
     (p ! unat (gl_packet_len s)) AND 0x80 \<noteq> 0 \<and>
     iq_sfd q1 \<and> iq_bytes q1 = take (length (iq_bytes q1)) p \<and> rx_prefix s \<le> length (iq_bytes q1) \<and>
     \<not> iq_sfd q2 \<and> push_bit 1 ((iq_tbr q2 - iq_tbccr1 q2) - 21) \<le> 8 \<and>
     map (iq_rest q2) [0..<length p - rx_prefix s] = drop (rx_prefix s) p"

lemma take_Suc_update: "k < length a \<Longrightarrow> take k a = take k p \<Longrightarrow> k < length p \<Longrightarrow> take (Suc k) (a[k := p ! k]) = take (Suc k) p"
  by (simp add: take_Suc_conv_app_nth)

text \<open>The loop stores the bytes that arrive.\<close>

lemma rx_loop_reads:
  "length p = length (gl_packet s) \<Longrightarrow> gl_status s = GLOSSY_STATUS_RECEIVING \<Longrightarrow> 1 \<le> unat (gl_bytes_read s) \<Longrightarrow>
   unat (gl_bytes_read s) + n < 256 \<Longrightarrow> unat (gl_bytes_read s) + n \<le> length p \<Longrightarrow>
   take (unat (gl_bytes_read s)) (gl_packet s) = take (unat (gl_bytes_read s)) p \<Longrightarrow> p ! 1 = GLOSSY_HEADER \<Longrightarrow>
   take n bs = take n (drop (unat (gl_bytes_read s)) p) \<Longrightarrow> n \<le> length bs \<Longrightarrow>
   \<exists>s'. rx_loop n bs s = (True, s') \<and> take (unat (gl_bytes_read s) + n) (gl_packet s') = take (unat (gl_bytes_read s) + n) p"
proof (induction n arbitrary: bs s)
  case (Suc n)
  obtain b bs' where bs: "bs = b # bs'"
    using Suc.prems(9) by (cases bs) simp_all
  let ?k = "unat (gl_bytes_read s)"
  let ?s = "(set_byte s ?k b)\<lparr>gl_bytes_read := gl_bytes_read s + 1\<rparr>"
  have k: "?k < length p" "unat (gl_bytes_read ?s) = Suc ?k"
    using Suc.prems(4,5) by (simp_all add: unat_word_ariths)
  have d: "drop ?k p = p ! ?k # drop (Suc ?k) p"
    using k(1) by (rule Cons_nth_drop_Suc [symmetric])
  have b: "b = p ! ?k" "take n bs' = take n (drop (Suc ?k) p)"
    using Suc.prems(8) by (simp_all add: bs d)
  have pk: "take (Suc ?k) (gl_packet ?s) = take (Suc ?k) p"
    using take_Suc_update [of ?k "gl_packet s" p] Suc.prems(1,6) k(1) by (simp add: b(1))
  have "\<not> (gl_bytes_read ?s = 2 \<and> gl_packet ?s ! 1 \<noteq> GLOSSY_HEADER)"
  proof
    assume c: "gl_bytes_read ?s = 2 \<and> gl_packet ?s ! 1 \<noteq> GLOSSY_HEADER"
    then have "Suc ?k = 2"
      using k(2) by simp
    then have k1: "?k = 1"
      by simp
    have "gl_packet ?s ! 1 = p ! 1"
      using Suc.prems(1) k(1) k1 b(1) by simp
    with c Suc.prems(7) k1 show False
      by simp
  qed
  then have e: "rx_loop (Suc n) bs s = rx_loop n bs' ?s"
    unfolding bs rx_loop.simps Let_def by (rule if_not_P)
  have "\<exists>s'. rx_loop n bs' ?s = (True, s') \<and> take (unat (gl_bytes_read ?s) + n) (gl_packet s') = take (unat (gl_bytes_read ?s) + n) p"
  proof (rule Suc.IH)
    show "length p = length (gl_packet ?s)" "gl_status ?s = GLOSSY_STATUS_RECEIVING" "1 \<le> unat (gl_bytes_read ?s)"
      using Suc.prems(1,2) k(2) by simp_all
    show "unat (gl_bytes_read ?s) + n < 256" "unat (gl_bytes_read ?s) + n \<le> length p"
      using Suc.prems(4,5) k(2) by simp_all
    show "take (unat (gl_bytes_read ?s)) (gl_packet ?s) = take (unat (gl_bytes_read ?s)) p"
      unfolding k(2) by (rule pk)
    show "p ! 1 = GLOSSY_HEADER"
      by (rule Suc.prems(7))
    show "take n bs' = take n (drop (unat (gl_bytes_read ?s)) p)" "n \<le> length bs'"
      using b(2) Suc.prems(9) by (simp_all only: k(2)) (simp add: bs)
  qed
  then show ?case
    unfolding e k(2) by simp
qed simp

text \<open>After the rising edge the received bytes are in the packet buffer.\<close>

lemma begin_rx_reads:
  assumes ok: "packet_ok s" and h: "hears p q1 q2 s"
  shows "gl_status (glossy_begin_rx q1 s) = GLOSSY_STATUS_RECEIVING \<and>
    take (rx_prefix s) (gl_packet (glossy_begin_rx q1 s)) = take (rx_prefix s) p"
proof -
  have hp: "length p = length (gl_packet s)" "length p = unat (gl_packet_len s) + 1" "p ! 0 = gl_packet_len s" "p ! 1 = GLOSSY_HEADER"
    "rx_prefix s \<le> length (iq_bytes q1)" "iq_bytes q1 = take (length (iq_bytes q1)) p"
    using ok h by (simp_all add: hears_def packet_ok_def)
  have "1 \<le> rx_prefix s"
    by (simp add: rx_prefix_def)
  with hp(5) obtain b bs where q: "iq_bytes q1 = b # bs"
    by (cases "iq_bytes q1") auto
  have pl: "p = hd p # tl p"
    using hp(2) by (cases p) simp_all
  have "b # bs = take (length (b # bs)) (hd p # tl p)"
    using hp(6) pl by (simp only: q)
  then have bb: "b = hd p" "bs = take (length bs) (tl p)"
    by simp_all
  then have b: "b = gl_packet_len s" "bs = take (length bs) (drop 1 p)"
    using hp(3) pl by (simp_all add: hd_conv_nth [symmetric] drop_Suc) (metis hd_conv_nth list.distinct(1))
  let ?s3 = "(set_byte (rx_begun q1 s) 0 b)\<lparr>gl_bytes_read := 1\<rparr>"
  have p3: "take 1 (gl_packet ?s3) = take 1 p" "length p = length (gl_packet ?s3)" "gl_status ?s3 = GLOSSY_STATUS_RECEIVING"
    using hp(1) bb(1) pl by (simp_all) (metis (no_types, lifting) length_greater_0_conv list.distinct(1) nth_list_update_eq hd_conv_nth take_0 take_Suc_conv_app_nth append_Nil length_list_update)
  show ?thesis
  proof (rule begin_rx_cases [of q1 s], goal_cases)
    case 1
    then show ?case
      by (simp add: q)
  next
    case (2 b' bs')
    then show ?case
      using b(1) by (simp add: q)
  next
    case (3 b' bs')
    have "rx_prefix s = 1"
      using 3(3) by (simp add: rx_prefix_def word_less_nat_alt)
    moreover have "b' = b"
      using 3(1) q by simp
    ultimately show ?case
      using 3(4) p3 by (simp add: glossy_schedule_rx_timeout_def)
  next
    case (4 b' bs' ok' s4)
    have e: "b' = b" "bs' = bs"
      using 4(1) q by simp_all
    have pre: "1 + (unat (gl_packet_len s) - 8) = rx_prefix s" "8 < unat (gl_packet_len s)"
      using 4(3) by (simp_all add: rx_prefix_def word_less_nat_alt)
    let ?n = "unat (gl_packet_len s) - 8"
    have u1: "unat (gl_bytes_read ?s3) = 1"
      by simp
    have n: "?n \<le> length bs" "1 + ?n < 256" "1 + ?n \<le> length p"
      using hp(2,5) pre unat8_less [of "gl_packet_len s"] by (simp_all add: q del: unat8_less)
    have "take ?n bs = take ?n (drop 1 p)"
      using b(2) n(1) by (metis min.absorb1 take_take)
    with rx_loop_reads [of p ?s3 ?n bs] p3 hp(4) n
    obtain s' where "rx_loop ?n bs ?s3 = (True, s')" "take (1 + ?n) (gl_packet s') = take (1 + ?n) p"
      unfolding u1 by auto
    moreover from this have "ok' = True" "s4 = s'"
      using 4(4) by (simp_all add: e)
    moreover have "gl_status s4 = GLOSSY_STATUS_RECEIVING"
      using rx_loop_keeps [OF 4(4)] p3(3) n(2) calculation(3) by (simp add: e)
    ultimately show ?case
      using 4(5) pre(1) by (simp add: glossy_schedule_rx_timeout_def)
  qed
qed

text \<open>What the end of a reception without error does.\<close>

lemma estimate_keep [simp]:
  "gl_packet (glossy_estimate_slot_lengths t s) = gl_packet s" "gl_status (glossy_estimate_slot_lengths t s) = gl_status s"
  "gl_rx_cnt (glossy_estimate_slot_lengths t s) = gl_rx_cnt s" "gl_radio (glossy_estimate_slot_lengths t s) = gl_radio s"
  "gl_data (glossy_estimate_slot_lengths t s) = gl_data s" "gl_data_len (glossy_estimate_slot_lengths t s) = gl_data_len s"
  "gl_packet_len (glossy_estimate_slot_lengths t s) = gl_packet_len s" "gl_sync (glossy_estimate_slot_lengths t s) = gl_sync s"
  "gl_initiator (glossy_estimate_slot_lengths t s) = gl_initiator s" "gl_tx_cnt (glossy_estimate_slot_lengths t s) = gl_tx_cnt s"
  "gl_tx_max (glossy_estimate_slot_lengths t s) = gl_tx_max s" "gl_t_rx_start (glossy_estimate_slot_lengths t s) = gl_t_rx_start s"
  "gl_t_ref_l_updated (glossy_estimate_slot_lengths t s) = gl_t_ref_l_updated s"
  by (simp_all add: glossy_estimate_slot_lengths_def Let_def)

lemma end_rx_fields:
  assumes crc: "crc_ok (read_rest q s)"
  shows "gl_packet (glossy_end_rx q s) = (if gl_sync s \<noteq> 0
      then (gl_packet (read_rest q s))[unat (gl_packet_len s) - 2 := gl_packet (read_rest q s) ! (unat (gl_packet_len s) - 2) + 1]
      else gl_packet (read_rest q s))"
    "gl_status (glossy_end_rx q s) = (if gl_tx_cnt s = gl_tx_max s then GLOSSY_STATUS_OFF else GLOSSY_STATUS_RECEIVED)"
    "gl_rx_cnt (glossy_end_rx q s) = gl_rx_cnt s + 1"
    "gl_tx_cnt s \<noteq> gl_tx_max s \<Longrightarrow>
      rd_txfifo (gl_radio (glossy_end_rx q s)) = rd_txfifo (gl_radio s) @ take (unat (gl_packet_len s) - 1) (gl_packet (glossy_end_rx q s))"
    "gl_data (glossy_end_rx q s) = gl_data s" "gl_data_len (glossy_end_rx q s) = gl_data_len s"
    "gl_packet_len (glossy_end_rx q s) = gl_packet_len s" "gl_sync (glossy_end_rx q s) = gl_sync s"
    "gl_initiator (glossy_end_rx q s) = gl_initiator s" "gl_t_rx_start (glossy_end_rx q s) = gl_t_rx_start s"
    "gl_tx_cnt (glossy_end_rx q s) = gl_tx_cnt s" "gl_tx_max (glossy_end_rx q s) = gl_tx_max s"
proof -
  define s1 where "s1 = read_rest q s"
  define s2 where "s2 = (if gl_sync s1 \<noteq> 0 then set_slot_field s1 (slot_field s1 + 1) else s1)"
  define s3 where "s3 = (if gl_tx_cnt s2 = gl_tx_max s2 then (radio_off (iq_now q 2) s2)\<lparr>gl_status := GLOSSY_STATUS_OFF\<rparr>
                    else (radio_write_tx s2)\<lparr>gl_status := GLOSSY_STATUS_RECEIVED\<rparr>)"
  define s4 where "s4 = (if gl_sync s3 \<noteq> 0 \<and> gl_rx_cnt s3 = 0
                      then s3\<lparr>gl_time_to_first_rx := gl_t_first_rx s3 - gl_time_to_first_rx s3\<rparr> else s3)"
  define s5 where "s5 = s4\<lparr>gl_rx_cnt := gl_rx_cnt s4 + 1\<rparr>"
  define s6 where "s6 = (if gl_sync s5 \<noteq> 0 \<and> slot_field s5 < 200 then glossy_estimate_slot_lengths (iq_tbccr1 q) s5 else s5)"
  have e: "glossy_end_rx q s = (if gl_initiator (s6\<lparr>gl_t_rx_stop := iq_tbccr1 q\<rparr>) \<noteq> 0
      then (s6\<lparr>gl_t_rx_stop := iq_tbccr1 q\<rparr>)\<lparr>gl_tbcctl4 := False\<rparr> else s6\<lparr>gl_t_rx_stop := iq_tbccr1 q\<rparr>)"
    unfolding glossy_end_rx_def Let_def s1_def [symmetric] s2_def [symmetric] s3_def [symmetric] s4_def [symmetric] s5_def [symmetric]
      s6_def [symmetric] by (rule if_P) (use crc in \<open>simp add: s1_def\<close>)
  have f1: "gl_rx_cnt s1 = gl_rx_cnt s" "gl_tx_cnt s1 = gl_tx_cnt s" "gl_tx_max s1 = gl_tx_max s" "gl_radio s1 = gl_radio s"
    "gl_data s1 = gl_data s" "gl_data_len s1 = gl_data_len s" "gl_packet_len s1 = gl_packet_len s" "gl_sync s1 = gl_sync s"
    "gl_initiator s1 = gl_initiator s" "gl_t_rx_start s1 = gl_t_rx_start s"
    by (simp_all add: s1_def read_rest_def)
  have f2: "gl_rx_cnt s2 = gl_rx_cnt s" "gl_tx_cnt s2 = gl_tx_cnt s" "gl_tx_max s2 = gl_tx_max s" "gl_radio s2 = gl_radio s"
    "gl_data s2 = gl_data s" "gl_data_len s2 = gl_data_len s" "gl_packet_len s2 = gl_packet_len s" "gl_sync s2 = gl_sync s"
    "gl_initiator s2 = gl_initiator s" "gl_t_rx_start s2 = gl_t_rx_start s"
    "gl_packet s2 = (if gl_sync s \<noteq> 0 then (gl_packet s1)[unat (gl_packet_len s) - 2 := gl_packet s1 ! (unat (gl_packet_len s) - 2) + 1]
      else gl_packet s1)"
    by (simp_all add: s2_def set_slot_field_def slot_field_def f1)
  have f3: "gl_rx_cnt s3 = gl_rx_cnt s" "gl_tx_cnt s3 = gl_tx_cnt s" "gl_tx_max s3 = gl_tx_max s"
    "gl_data s3 = gl_data s" "gl_data_len s3 = gl_data_len s" "gl_packet_len s3 = gl_packet_len s" "gl_sync s3 = gl_sync s"
    "gl_initiator s3 = gl_initiator s" "gl_t_rx_start s3 = gl_t_rx_start s" "gl_packet s3 = gl_packet s2"
    "gl_status s3 = (if gl_tx_cnt s = gl_tx_max s then GLOSSY_STATUS_OFF else GLOSSY_STATUS_RECEIVED)"
    "gl_tx_cnt s \<noteq> gl_tx_max s \<Longrightarrow> rd_txfifo (gl_radio s3) = rd_txfifo (gl_radio s) @ take (unat (gl_packet_len s) - 1) (gl_packet s2)"
    by (simp_all add: s3_def f2 del: f2(11))
  have f6: "gl_packet s6 = gl_packet s3" "gl_status s6 = gl_status s3" "gl_rx_cnt s6 = gl_rx_cnt s3 + 1" "gl_radio s6 = gl_radio s3"
    "gl_data s6 = gl_data s3" "gl_data_len s6 = gl_data_len s3" "gl_packet_len s6 = gl_packet_len s3" "gl_sync s6 = gl_sync s3"
    "gl_initiator s6 = gl_initiator s3" "gl_t_rx_start s6 = gl_t_rx_start s3" "gl_tx_cnt s6 = gl_tx_cnt s3" "gl_tx_max s6 = gl_tx_max s3"
    by (simp_all add: s6_def s5_def s4_def)
  have p: "gl_packet (glossy_end_rx q s) = gl_packet s2"
    by (simp add: e f6 f3 del: f2(11))
  show "gl_packet (glossy_end_rx q s) = (if gl_sync s \<noteq> 0
      then (gl_packet (read_rest q s))[unat (gl_packet_len s) - 2 := gl_packet (read_rest q s) ! (unat (gl_packet_len s) - 2) + 1]
      else gl_packet (read_rest q s))"
    unfolding p f2(11) s1_def ..
  show "gl_tx_cnt s \<noteq> gl_tx_max s \<Longrightarrow>
      rd_txfifo (gl_radio (glossy_end_rx q s)) = rd_txfifo (gl_radio s) @ take (unat (gl_packet_len s) - 1) (gl_packet (glossy_end_rx q s))"
    unfolding p by (simp add: e f6 f3)
  show "gl_status (glossy_end_rx q s) = (if gl_tx_cnt s = gl_tx_max s then GLOSSY_STATUS_OFF else GLOSSY_STATUS_RECEIVED)"
    "gl_rx_cnt (glossy_end_rx q s) = gl_rx_cnt s + 1"
    "gl_data (glossy_end_rx q s) = gl_data s" "gl_data_len (glossy_end_rx q s) = gl_data_len s"
    "gl_packet_len (glossy_end_rx q s) = gl_packet_len s" "gl_sync (glossy_end_rx q s) = gl_sync s"
    "gl_initiator (glossy_end_rx q s) = gl_initiator s" "gl_t_rx_start (glossy_end_rx q s) = gl_t_rx_start s"
    "gl_tx_cnt (glossy_end_rx q s) = gl_tx_cnt s" "gl_tx_max (glossy_end_rx q s) = gl_tx_max s"
    by (simp_all add: e f6 f3)
qed

text \<open>The two interrupts of a reception, and the packet that the node has afterwards.\<close>

definition receive :: "irq \<Rightarrow> irq \<Rightarrow> glossy \<Rightarrow> glossy" where
  "receive q1 q2 s = snd (timerb1_interrupt q2 (snd (timerb1_interrupt q1 s)))"

definition relayed :: "glossy \<Rightarrow> u8 list \<Rightarrow> u8 list" where
  "relayed s p = (if gl_sync s \<noteq> 0 then p[unat (gl_packet_len s) - 2 := p ! (unat (gl_packet_len s) - 2) + 1] else p)"

lemma irq_T_keep [simp]:
  "packet_ok (s\<lparr>gl_T_irq := t\<rparr>) = packet_ok s" "hears p q1 q2 (s\<lparr>gl_T_irq := t\<rparr>) = hears p q1 q2 s" "rx_prefix (s\<lparr>gl_T_irq := t\<rparr>) = rx_prefix s"
  by (simp_all add: packet_ok_def hears_def rx_prefix_def)

lemma rx_keeps_fields:
  assumes "rx_keeps s t"
  shows "rd_txfifo (gl_radio t) = rd_txfifo (gl_radio s)" "gl_sync t = gl_sync s" "gl_rx_cnt t = gl_rx_cnt s" "gl_tx_cnt t = gl_tx_cnt s"
    "gl_tx_max t = gl_tx_max s" "gl_data t = gl_data s" "gl_data_len t = gl_data_len s" "gl_packet_len t = gl_packet_len s"
    "gl_initiator t = gl_initiator s" "length (gl_packet t) = length (gl_packet s)"
  using assms by (simp_all only: rx_keeps_def simp_thms)

lemma receive_spec:
  assumes inv: "gl_inv s" and w: "gl_status s = GLOSSY_STATUS_WAITING" and h: "hears p q1 q2 s"
  shows "gl_packet (receive q1 q2 s) = relayed s p"
    "gl_status (receive q1 q2 s) = (if gl_tx_cnt s = gl_tx_max s then GLOSSY_STATUS_OFF else GLOSSY_STATUS_RECEIVED)"
    "gl_rx_cnt (receive q1 q2 s) = gl_rx_cnt s + 1"
    "gl_tx_cnt s \<noteq> gl_tx_max s \<Longrightarrow>
      rd_txfifo (gl_radio (receive q1 q2 s)) = rd_txfifo (gl_radio s) @ take (unat (gl_packet_len s) - 1) (relayed s p)"
    "gl_data (receive q1 q2 s) = gl_data s" "gl_data_len (receive q1 q2 s) = gl_data_len s"
    "gl_packet_len (receive q1 q2 s) = gl_packet_len s" "gl_sync (receive q1 q2 s) = gl_sync s"
    "gl_initiator (receive q1 q2 s) = gl_initiator s"
proof -
  define a where "a = s\<lparr>gl_T_irq := push_bit 1 ((iq_tbr q1 - iq_tbccr1 q1) - 21)\<rparr>"
  define b where "b = glossy_begin_rx q1 a"
  have ok: "packet_ok a" and ha: "hears p q1 q2 a" and wa: "gl_status a = GLOSSY_STATUS_WAITING" and pa: "rx_prefix a = rx_prefix s"
    using inv w h by (simp_all add: a_def gl_inv_def)
  have sfd: "iq_sfd q1" "\<not> iq_sfd q2" "push_bit 1 ((iq_tbr q2 - iq_tbccr1 q2) - 21) \<le> (8 :: u16)"
    using h by (simp_all add: hears_def)
  have s1: "snd (timerb1_interrupt q1 s) = b"
    unfolding timerb1_interrupt_def Let_def a_def [symmetric] using wa sfd by (simp add: b_def)
  have kb: "rx_keeps a b" and bs: "gl_status b = GLOSSY_STATUS_RECEIVING" "take (rx_prefix s) (gl_packet b) = take (rx_prefix s) p"
    using conjunct1 [OF begin_rx_keeps, of a q1] begin_rx_reads [OF ok ha] by (simp_all only: b_def pa simp_thms)
  have br: "unat (gl_bytes_read b) = rx_prefix s"
    using conjunct2 [OF begin_rx_keeps, of q1 a] bs(1) by (simp only: b_def [symmetric] pa glossy_status.simps simp_thms)
  define b' where "b' = b\<lparr>gl_T_irq := push_bit 1 ((iq_tbr q2 - iq_tbccr1 q2) - 21)\<rparr>"
  define c where "c = radio_start_tx (iq_now q2 4) b'"
  have b': "gl_status b' = GLOSSY_STATUS_RECEIVING" "gl_T_irq b' \<le> 8"
    using bs(1) sfd(3) by (simp_all add: b'_def)
  have r: "receive q1 q2 s = glossy_end_rx q2 c"
    unfolding receive_def s1 unfolding timerb1_interrupt_def Let_def b'_def [symmetric] c_def
    by (simp only: b' sfd(2) not_False_eq_True simp_thms if_True snd_conv)
  have cb: "gl_packet c = gl_packet b" "gl_bytes_read c = gl_bytes_read b" "gl_packet_len c = gl_packet_len b" "gl_data c = gl_data b"
    "gl_data_len c = gl_data_len b" "gl_sync c = gl_sync b" "gl_initiator c = gl_initiator b" "gl_rx_cnt c = gl_rx_cnt b"
    "gl_tx_cnt c = gl_tx_cnt b" "gl_tx_max c = gl_tx_max b" "rd_txfifo (gl_radio c) = rd_txfifo (gl_radio b)"
    by (simp_all add: c_def b'_def)
  have as: "gl_packet_len a = gl_packet_len s" "gl_data a = gl_data s"
    "gl_data_len a = gl_data_len s" "gl_sync a = gl_sync s" "gl_initiator a = gl_initiator s" "gl_rx_cnt a = gl_rx_cnt s"
    "gl_tx_cnt a = gl_tx_cnt s" "gl_tx_max a = gl_tx_max s" "rd_txfifo (gl_radio a) = rd_txfifo (gl_radio s)"
    by (simp_all add: a_def)
  note cs = cb [unfolded rx_keeps_fields [OF kb] as]
  have lp: "length p = unat (gl_packet_len s) + 1" "length (gl_packet c) = length p"
    using h ok rx_keeps_fields(10) [OF kb] by (simp_all add: hears_def packet_ok_def cb a_def)
  have rest: "map (iq_rest q2) [0..<unat (gl_packet_len s) + 1 - rx_prefix s] = drop (rx_prefix s) p"
    using h by (simp add: hears_def lp(1) [symmetric] del: One_nat_def)
  have le: "rx_prefix s \<le> length p"
    using ok lp(1) as(1) by (auto simp: rx_prefix_def packet_ok_def split: if_splits)
  have pk: "gl_packet (read_rest q2 c) = p"
    using rest bs(2) le lp(2) by (simp add: read_rest_def cs br mem_put_def cb(1) del: One_nat_def)
  have crc: "crc_ok (read_rest q2 c)"
  proof -
    have "gl_packet_len (read_rest q2 c) = gl_packet_len s"
      by (simp add: read_rest_def cs)
    with h show ?thesis
      unfolding crc_ok_def pk by (simp add: hears_def)
  qed
  note er = end_rx_fields [OF crc, unfolded pk cs]
  have rl: "gl_packet (glossy_end_rx q2 c) = relayed s p"
    unfolding er(1) relayed_def ..
  show "gl_packet (receive q1 q2 s) = relayed s p"
    unfolding r by (rule rl)
  show "gl_tx_cnt s \<noteq> gl_tx_max s \<Longrightarrow>
      rd_txfifo (gl_radio (receive q1 q2 s)) = rd_txfifo (gl_radio s) @ take (unat (gl_packet_len s) - 1) (relayed s p)"
    unfolding r using er(4) rl by simp
  show "gl_status (receive q1 q2 s) = (if gl_tx_cnt s = gl_tx_max s then GLOSSY_STATUS_OFF else GLOSSY_STATUS_RECEIVED)"
    "gl_rx_cnt (receive q1 q2 s) = gl_rx_cnt s + 1"
    "gl_data (receive q1 q2 s) = gl_data s" "gl_data_len (receive q1 q2 s) = gl_data_len s"
    "gl_packet_len (receive q1 q2 s) = gl_packet_len s" "gl_sync (receive q1 q2 s) = gl_sync s"
    "gl_initiator (receive q1 q2 s) = gl_initiator s"
    unfolding r by (rule er)+
qed

lemma begin_tx_keep:
  "gl_status (glossy_begin_tx q s) = GLOSSY_STATUS_TRANSMITTING" "gl_radio (glossy_begin_tx q s) = gl_radio s"
  "gl_data (glossy_begin_tx q s) = (if gl_initiator s = 0 \<and> gl_rx_cnt s = 1
     then mem_put (gl_data s) 0 (mem_get (gl_packet s) 2 (unat (gl_data_len s))) else gl_data s)"
  by (simp_all add: glossy_begin_tx_def Let_def packet_to_data_def glossy_compute_sync_reference_point_def)

lemma relay_received:
  assumes "gl_inv s" and "gl_status s = GLOSSY_STATUS_WAITING" and "gl_tx_cnt s \<noteq> gl_tx_max s" and "rd_txfifo (gl_radio s) = []"
    and "hears p q1 q2 s" and "iq_sfd q3" and "s3 = snd (timerb1_interrupt q3 (receive q1 q2 s))"
  shows "gl_status s3 = GLOSSY_STATUS_TRANSMITTING \<and>
    rd_txfifo (gl_radio s3) = take (unat (gl_packet_len s) - 1) (relayed s p) \<and>
    (gl_initiator s = 0 \<and> gl_rx_cnt s = 0 \<longrightarrow> take (unat (gl_data_len s)) (gl_data s3) = take (unat (gl_data_len s)) (drop 2 p))"
proof -
  note r = receive_spec [OF assms(1,2,5)]
  have st: "gl_status (receive q1 q2 s) = GLOSSY_STATUS_RECEIVED"
    using r(2) assms(3) by simp
  let ?t = "(receive q1 q2 s)\<lparr>gl_T_irq := push_bit 1 ((iq_tbr q3 - iq_tbccr1 q3) - 21)\<rparr>"
  have s3: "s3 = glossy_begin_tx q3 ?t"
    unfolding assms(7) timerb1_interrupt_def Let_def using st assms(6) by simp
  have d: "take (unat (gl_data_len s)) (gl_data s3) = take (unat (gl_data_len s)) (drop 2 p)" if "gl_initiator s = 0" "gl_rx_cnt s = 0"
  proof -
    have "gl_data s3 = mem_put (gl_data s) 0 (mem_get (relayed s p) 2 (unat (gl_data_len s)))"
      unfolding s3 begin_tx_keep using that r by simp
    moreover have "length p = unat (gl_packet_len s) + 1" "unat (gl_packet_len s) = unat (gl_data_len s) + (if gl_sync s \<noteq> 0 then 4 else 3)"
      using assms(1,2,5) by (simp_all add: hears_def gl_inv_def packet_ok_def)
    moreover from this have "mem_get (relayed s p) 2 (unat (gl_data_len s)) = take (unat (gl_data_len s)) (drop 2 p)"
      by (auto simp: relayed_def mem_get_def drop_update_swap)
    ultimately show ?thesis
      by (auto simp: mem_put_def)
  qed
  show ?thesis
    using d r(4) assms(3,4) by (simp add: s3 begin_tx_keep)
qed

text \<open>C2: A node that receives a Glossy packet without an error relays it: when the SFD pin rises again it is transmitting
  the bytes that it received, with the slot number increased by one in synchronising floods and nothing else changed, and a node that is
  not the initiator has copied the data of its first packet to the application's buffer.\<close>

theorem glossy_relay:
  assumes "gl_inv s" and "gl_status s = GLOSSY_STATUS_WAITING" and "gl_tx_cnt s \<noteq> gl_tx_max s" and "rd_txfifo (gl_radio s) = []"
    and "hears p q1 q2 s" and "iq_sfd q3" and "s3 = snd (timerb1_interrupt q3 (receive q1 q2 s))"
  shows "gl_status s3 = GLOSSY_STATUS_TRANSMITTING \<and>
    rd_txfifo (gl_radio s3) = take (unat (gl_packet_len s) - 1) (relayed s p) \<and>
    (gl_initiator s = 0 \<and> gl_rx_cnt s = 0 \<longrightarrow> take (unat (gl_data_len s)) (gl_data s3) = take (unat (gl_data_len s)) (drop 2 p))"
  by (rule relay_received [OF assms])

definition gl_receiver :: glossy where
  "gl_receiver = glossy_start (\<lambda>_. 0) (\<lambda>_. 30) 900 [0, 0, 0, 0, 0, 0] 6 0 1 3 True gl_boot"

lemma gl_receiver:
  "gl_inv gl_receiver" "gl_status gl_receiver = GLOSSY_STATUS_WAITING" "gl_tx_cnt gl_receiver = 0" "gl_tx_max gl_receiver = 3"
  "rd_txfifo (gl_radio gl_receiver) = []" "gl_sync gl_receiver = 1"
  "gl_packet_len gl_receiver = 10" "gl_data_len gl_receiver = 6" "gl_initiator gl_receiver = 0" "gl_rx_cnt gl_receiver = 0"
proof -
  show "gl_inv gl_receiver"
    unfolding gl_receiver_def by (rule start_inv [OF gl_boot_inv(1)]) (simp add: gl_boot_inv(2))
  show "gl_status gl_receiver = GLOSSY_STATUS_WAITING" "gl_tx_cnt gl_receiver = 0" "gl_tx_max gl_receiver = 3"
    "rd_txfifo (gl_radio gl_receiver) = []" "gl_sync gl_receiver = 1"
    "gl_packet_len gl_receiver = 10" "gl_data_len gl_receiver = 6" "gl_initiator gl_receiver = 0" "gl_rx_cnt gl_receiver = 0"
    by code_simp+
qed

lemma gl_receiver_hears: "hears cfg_packet irq_begin irq_end gl_receiver"
  using gl_receiver by (simp add: hears_def rx_prefix_def irq_end_def irq_begin_def cfg_packet_def GLOSSY_HEADER_def upt_rec)

theorem glossy_relay_witness:
  "rd_txfifo (gl_radio (snd (timerb1_interrupt irq_begin (receive irq_begin irq_end gl_receiver)))) = [10, 0xFE, 1, 2, 3, 4, 5, 6, 1] \<and>
   take 6 (gl_data (snd (timerb1_interrupt irq_begin (receive irq_begin irq_end gl_receiver)))) = [1, 2, 3, 4, 5, 6]"
proof -
  have "iq_sfd irq_begin"
    by (simp add: irq_begin_def)
  from glossy_relay [OF _ _ _ _ gl_receiver_hears this refl] gl_receiver show ?thesis
    by (simp add: relayed_def cfg_packet_def)
qed

text \<open>The packet on its way over several hops; each radio appends the two bytes of the footer anew.\<close>

type_synonym hop = "glossy \<times> irq \<times> irq \<times> u8 list"

primrec flood :: "u8 list \<Rightarrow> hop list \<Rightarrow> u8 list" where
  "flood p [] = p"
| "flood p (h # hs) = (case h of (s, q1, q2, f) \<Rightarrow> flood (rd_txfifo (gl_radio (receive q1 q2 s)) @ f) hs)"

primrec flood_ok :: "u8 list \<Rightarrow> hop list \<Rightarrow> bool" where
  "flood_ok p [] \<longleftrightarrow> True"
| "flood_ok p (h # hs) \<longleftrightarrow> (case h of (s, q1, q2, f) \<Rightarrow>
     gl_inv s \<and> gl_status s = GLOSSY_STATUS_WAITING \<and> gl_tx_cnt s \<noteq> gl_tx_max s \<and> rd_txfifo (gl_radio s) = [] \<and> gl_sync s \<noteq> 0 \<and>
     hears p q1 q2 s \<and> length f = 2 \<and> flood_ok (rd_txfifo (gl_radio (receive q1 q2 s)) @ f) hs)"

text \<open>C3: A flood carries the data of the initiator unchanged over any number of hops, and the slot number counts the
  hops: after \<open>n\<close> relays it has grown by \<open>n\<close> (modulo 256), and everything before it is the initiator's packet.\<close>

theorem glossy_flood:
  assumes "flood_ok p hs" and "4 \<le> length p"
  shows "length (flood p hs) = length p \<and> take (length p - 3) (flood p hs) = take (length p - 3) p \<and>
    flood p hs ! (length p - 3) = p ! (length p - 3) + of_nat (length hs)"
  using assms
proof (induction hs arbitrary: p)
  case (Cons h hs)
  obtain s q1 q2 f where h: "h = (s, q1, q2, f)"
    by (metis prod_cases4)
  define r where "r = rd_txfifo (gl_radio (receive q1 q2 s)) @ f"
  have ok: "gl_inv s" "gl_status s = GLOSSY_STATUS_WAITING" "gl_tx_cnt s \<noteq> gl_tx_max s" "rd_txfifo (gl_radio s) = []" "gl_sync s \<noteq> 0"
    "hears p q1 q2 s" "length f = 2" "flood_ok r hs"
    using Cons.prems(1) by (simp_all add: h r_def)
  have len: "length p = unat (gl_packet_len s) + 1"
    using ok(6) by (simp add: hears_def)
  define k where "k = length p - 3"
  have k: "unat (gl_packet_len s) - 2 = k" "unat (gl_packet_len s) - 1 = Suc k" "k < length p" "length p = k + 3"
    using len Cons.prems(2) by (simp_all add: k_def)
  have "relayed s p = p[k := p ! k + 1]"
    using ok(5) by (simp add: relayed_def k)
  then have r: "r = take (Suc k) (p[k := p ! k + 1]) @ f"
    using receive_spec(4) [OF ok(1,2,6,3)] ok(4) by (simp only: r_def k append_Nil)
  have rk: "length r = length p" "take k r = take k p" "r ! k = p ! k + 1"
    using k(3,4) ok(7) by (simp_all add: r nth_append min_def)
  have "flood p (h # hs) = flood r hs"
    by (simp add: h r_def)
  with Cons.IH [OF ok(8)] rk Cons.prems(2) show ?case
    by (simp add: k_def [symmetric])
qed simp

definition cfg_packet1 :: "u8 list" where
  "cfg_packet1 = [10, 0xFE, 1, 2, 3, 4, 5, 6, 1, 0x29, 0x80]"

theorem glossy_flood_witness:
  "flood cfg_packet [(gl_receiver, irq_begin, irq_end, [0x29, 0x80]),
     (gl_receiver, irq_begin\<lparr>iq_bytes := cfg_packet1\<rparr>, irq_end\<lparr>iq_rest := (\<lambda>i. cfg_packet1 ! (3 + i))\<rparr>, [0, 0])] ! 8 = 2"
proof -
  have r: "rd_txfifo (gl_radio (receive irq_begin irq_end gl_receiver)) @ [0x29, 0x80] = cfg_packet1"
    using receive_spec(4) [OF _ _ gl_receiver_hears] gl_receiver by (simp add: relayed_def cfg_packet_def cfg_packet1_def)
  have "hears cfg_packet1 (irq_begin\<lparr>iq_bytes := cfg_packet1\<rparr>) (irq_end\<lparr>iq_rest := (\<lambda>i. cfg_packet1 ! (3 + i))\<rparr>) gl_receiver"
    using gl_receiver by (simp add: hears_def rx_prefix_def irq_end_def irq_begin_def cfg_packet1_def GLOSSY_HEADER_def upt_rec)
  then have "flood_ok cfg_packet [(gl_receiver, irq_begin, irq_end, [0x29, 0x80]),
     (gl_receiver, irq_begin\<lparr>iq_bytes := cfg_packet1\<rparr>, irq_end\<lparr>iq_rest := (\<lambda>i. cfg_packet1 ! (3 + i))\<rparr>, [0, 0])]"
    using gl_receiver_hears gl_receiver by (simp add: r)
  moreover have "length cfg_packet = 11" "cfg_packet ! 8 = 0"
    by (simp_all add: cfg_packet_def)
  ultimately show ?thesis
    using glossy_flood [of cfg_packet "[(gl_receiver, irq_begin, irq_end, [0x29, 0x80]),
     (gl_receiver, irq_begin\<lparr>iq_bytes := cfg_packet1\<rparr>, irq_end\<lparr>iq_rest := (\<lambda>i. cfg_packet1 ! (3 + i))\<rparr>, [0, 0])]"]
    by (simp del: flood.simps)
qed

section \<open>The reference time\<close>

lemma T_ref_to_cap_exact:
  assumes "1 \<le> slot_field s"
  shows "unat (T_ref_to_cap_h t s) = (unat (slot_field s) - 1) * unat (gl_T_slot_h s) + unat (t - gl_t_rx_start s)"
proof -
  let ?a = "unat (slot_field s) - 1" and ?T = "unat (gl_T_slot_h s)" and ?x = "unat (t - gl_t_rx_start s)"
  have one: "1 \<le> unat (slot_field s)"
    using assms by (simp add: word_le_nat_alt)
  have "unat (ucast (slot_field s) :: u32) = unat (slot_field s)"
    by (simp add: unsigned_ucast_eq take_bit_nat_eq_self less_trans [OF unat8_less])
  then have a: "unat (ucast (slot_field s) - 1 :: u32) = ?a"
    using one by (subst unat_sub) (simp_all add: word_le_nat_alt)
  have "?a \<le> 255" "?T \<le> 65535"
    using unat8_less [of "slot_field s"] unat16_less [of "gl_T_slot_h s"] by linarith+
  then have m: "?a * ?T \<le> 255 * 65535"
    by (rule mult_le_mono)
  then have "unat ((ucast (slot_field s) - 1 :: u32) * ucast (gl_T_slot_h s)) = ?a * ?T"
  proof -
    have f: "unat (ucast (slot_field s) - 1 :: u32) * unat (ucast (gl_T_slot_h s) :: u32) = ?a * ?T"
      by (simp only: a unat_ucast_16_32)
    then have "unat (ucast (slot_field s) - 1 :: u32) * unat (ucast (gl_T_slot_h s) :: u32) < 4294967296"
      using m by linarith
    from unat32_mult_less [OF this] f show ?thesis
      by (simp only:)
  qed
  moreover have "?a * ?T + ?x < 4294967296"
    using m unat16_less [of "t - gl_t_rx_start s"] by linarith
  ultimately show ?thesis
    unfolding T_ref_to_cap_h_def by (subst unat32_add_less) (simp_all only: unat_ucast_16_32)
qed

lemma CLOCK_PHI_128: "CLOCK_PHI = 128" "unat CLOCK_PHI = 128"
  by (simp_all add: CLOCK_PHI_def)

text \<open>C4: The reference time is exact to a tick of the DCO and does not depend on the hop at which a node joins the flood: it
  depends on the slot number and the time of the reception only through \<open>D\<close>, the DCO ticks from the start of the
  flood to the captured tick of the 32768 Hz clock. The start is \<open>T_offset_h + 1\<close> ticks of the DCO after the
  clock tick \<open>t_ref_l\<close>, and \<open>T_offset_h\<close> is less than the 128 DCO ticks of one tick of the clock.\<close>

theorem glossy_reference_time:
  assumes "1 \<le> slot_field s"
    and "D = (unat (slot_field s) - 1) * unat (gl_T_slot_h s) + unat (t_cap_h - gl_t_rx_start s)"
    and "s' = glossy_compute_sync_reference_point t_cap_h t_cap_l s"
  shows "gl_t_ref_l s' = t_cap_l - of_nat (1 + D div 128) \<and>
    128 * (1 + D div 128) = D + (unat (gl_T_offset_h s') + 1) \<and> unat (gl_T_offset_h s') < 128 \<and>
    gl_slot s' = slot_field s - 1 \<and> is_t_ref_l_updated s' = 1"
proof -
  let ?T = "T_ref_to_cap_h t_cap_h s"
  have T: "unat ?T = D"
    using T_ref_to_cap_exact [OF assms(1)] assms(2) by simp
  have dv: "unat (?T div CLOCK_PHI) = D div 128" "unat (?T mod CLOCK_PHI) = D mod 128"
    by (simp_all only: unat_div unat_mod T CLOCK_PHI_128(2))
  have "D < 4294967296"
    using T unat32_less [of ?T] by simp
  then have "D div 128 < 33554432"
    by (intro less_mult_imp_div_less) simp
  then have "unat (1 :: u32) + unat (?T div CLOCK_PHI) < 4294967296"
    by (simp only: dv unat_1)
  from unat32_add_less [OF this] have "unat (1 + ?T div CLOCK_PHI) = 1 + D div 128"
    by (simp only: dv unat_1)
  then have ref: "(ucast (1 + ?T div CLOCK_PHI) :: u16) = of_nat (1 + D div 128)"
    by (simp only: word_unat_eq_iff unat_ucast_32_16 unat16_of_nat)
  have "?T mod CLOCK_PHI \<le> CLOCK_PHI - 1"
    by (simp only: word_le_nat_alt dv) (simp add: CLOCK_PHI_128)
  then have "unat ((CLOCK_PHI - 1) - ?T mod CLOCK_PHI) = 127 - D mod 128"
    by (subst unat_sub) (simp_all only: dv, simp add: CLOCK_PHI_128)
  then have off: "unat (ucast ((CLOCK_PHI - 1) - ?T mod CLOCK_PHI) :: u16) = 127 - D mod 128"
    by (simp only: unat_ucast_32_16) simp
  have "128 * (1 + D div 128) = D + (127 - D mod 128 + 1)"
    by presburger
  with off ref show ?thesis
    by (simp add: assms(3) glossy_compute_sync_reference_point_def is_t_ref_l_updated_def)
qed

definition gl_synced :: glossy where
  "gl_synced = gl_receiver\<lparr>gl_T_slot_h := 4000, gl_t_rx_start := 65000, gl_packet := [10, 0xFE, 1, 2, 3, 4, 5, 6, 3, 0, 0x80]\<rparr>"

theorem glossy_reference_time_witness:
  "gl_t_ref_l (glossy_compute_sync_reference_point 464 100 gl_synced) = 29 \<and>
   unat (gl_T_offset_h (glossy_compute_sync_reference_point 464 100 gl_synced)) = 87"
proof -
  have f: "slot_field gl_synced = 3" "gl_T_slot_h gl_synced = 4000" "gl_t_rx_start gl_synced = 65000"
    by (simp_all add: gl_synced_def slot_field_def gl_receiver(7))
  have D: "9000 = (unat (slot_field gl_synced) - 1) * unat (gl_T_slot_h gl_synced) + unat (464 - gl_t_rx_start gl_synced)"
    by (simp add: f)
  from glossy_reference_time [OF _ D refl, of 100] show ?thesis
    by (simp add: f)
qed

section \<open>The slot length\<close>

text \<open>
  One measurement is half the time between two receptions with one transmission in between. \<open>measures\<close> tells when an
  interrupt takes one: the packet is without error, follows the node's own transmission directly, and is not a
  repetition of the initiator.
\<close>

definition measurement :: "irq \<Rightarrow> glossy \<Rightarrow> rtimer_clock_t" where
  "measurement q s = (iq_tbccr1 q - gl_t_rx_stop s) div 2"

definition measures :: "irq \<Rightarrow> glossy \<Rightarrow> bool" where
  "measures q s \<longleftrightarrow> gl_status s = GLOSSY_STATUS_RECEIVING \<and> \<not> iq_sfd q \<and> crc_ok (read_rest q s) \<and> gl_sync s \<noteq> 0 \<and>
     slot_field (read_rest q s) + 1 < 200 \<and> gl_rx_cnt s + 1 > 1 \<and>
     unat (slot_field (read_rest q s) + 1) = unat (gl_tx_slot_last s) + 2"

definition est_inv :: "nat \<Rightarrow> nat \<Rightarrow> glossy \<Rightarrow> bool" where
  "est_inv lo hi s \<longleftrightarrow> unat (gl_win_cnt s) < 64 \<and>
     unat (gl_win_cnt s) * lo \<le> unat (gl_T_slot_h_sum s) \<and> unat (gl_T_slot_h_sum s) \<le> unat (gl_win_cnt s) * hi \<and>
     (if gl_win_cnt s = 0 then gl_T_slot_h s = 0 else lo \<le> unat (gl_T_slot_h s) \<and> unat (gl_T_slot_h s) \<le> hi)"

text \<open>The four durations add up to the time between the two receptions.\<close>

lemma durations_sum:
  "gl_t_tx_stop s - gl_t_tx_start s + (gl_t_rx_start s - gl_t_tx_stop s) + (t - gl_t_rx_start s) +
      (gl_t_tx_start s - gl_t_rx_stop s) = t - gl_t_rx_stop s"
  by (simp add: algebra_simps)

lemma estimate_fields:
  assumes "gl_rx_cnt s > 1 \<and> unat (slot_field s) = unat (gl_tx_slot_last s) + 2" and "v = (t - gl_t_rx_stop s) div 2"
  shows "gl_win_cnt (glossy_estimate_slot_lengths t s) =
      (if ucast (gl_win_cnt s + 1) = GLOSSY_SYNC_WINDOW then (gl_win_cnt s + 1) div 2 else gl_win_cnt s + 1)"
    "gl_T_slot_h_sum (glossy_estimate_slot_lengths t s) =
      (if ucast (gl_win_cnt s + 1) = GLOSSY_SYNC_WINDOW then (gl_T_slot_h_sum s + ucast v) div 2 else gl_T_slot_h_sum s + ucast v)"
    "gl_T_slot_h (glossy_estimate_slot_lengths t s) =
      (if ucast (gl_win_cnt s + 1) = GLOSSY_SYNC_WINDOW then ucast ((gl_T_slot_h_sum s + ucast v) div GLOSSY_SYNC_WINDOW)
       else if gl_win_cnt s + 1 = 1 then v else gl_T_slot_h s)"
  unfolding glossy_estimate_slot_lengths_def Let_def if_P [OF assms(1)] assms(2)
  by (simp_all add: durations_sum)

lemma window_step:
  fixes w :: u8 and sum :: u32 and m :: u16
  assumes w: "unat w < 64" and s: "unat w * lo \<le> unat sum" "unat sum \<le> unat w * hi"
    and m: "lo \<le> unat m" "unat m \<le> hi" and hi: "hi < 65536"
  shows "unat (w + 1) = unat w + 1" "unat (sum + ucast m) = unat sum + unat m"
    "(unat w + 1) * lo \<le> unat sum + unat m" "unat sum + unat m \<le> (unat w + 1) * hi"
    "(ucast (w + 1) :: u32) = GLOSSY_SYNC_WINDOW \<longleftrightarrow> unat w = 63"
proof -
  show w1: "unat (w + 1) = unat w + 1"
    using w by (simp add: unat_word_ariths)
  have "unat w * hi \<le> 63 * 65535"
    using w hi by (intro mult_le_mono) simp_all
  then have "unat sum + unat (ucast m :: u32) < 4294967296"
    using s(2) m(2) hi by (simp only: unat_ucast_16_32)
  from unat32_add_less [OF this] show "unat (sum + ucast m) = unat sum + unat m"
    by (simp only: unat_ucast_16_32)
  show "(unat w + 1) * lo \<le> unat sum + unat m" "unat sum + unat m \<le> (unat w + 1) * hi"
    using s m by simp_all
  have "unat (ucast (w + 1) :: u32) = unat w + 1"
    using w1 by (simp add: unsigned_ucast_eq take_bit_nat_eq_self less_trans [OF unat8_less])
  then show "(ucast (w + 1) :: u32) = GLOSSY_SYNC_WINDOW \<longleftrightarrow> unat w = 63"
    by (simp add: word_unat_eq_iff GLOSSY_SYNC_WINDOW_def)
qed

lemma estimate_est_inv:
  assumes inv: "est_inv lo hi s" and hi: "hi < 65536"
    and m: "gl_rx_cnt s > 1 \<Longrightarrow> unat (slot_field s) = unat (gl_tx_slot_last s) + 2 \<Longrightarrow>
      lo \<le> unat ((t - gl_t_rx_stop s) div 2) \<and> unat ((t - gl_t_rx_stop s) div 2) \<le> hi"
  shows "est_inv lo hi (glossy_estimate_slot_lengths t s)"
proof (cases "gl_rx_cnt s > 1 \<and> unat (slot_field s) = unat (gl_tx_slot_last s) + 2")
  case False
  then show ?thesis
    using inv unfolding glossy_estimate_slot_lengths_def by (simp only: if_False)
next
  case True
  define v where "v = (t - gl_t_rx_stop s) div 2"
  define w where "w = gl_win_cnt s"
  define su where "su = gl_T_slot_h_sum s"
  define e where "e = glossy_estimate_slot_lengths t s"
  have vb: "lo \<le> unat v" "unat v \<le> hi"
    using m True by (simp_all add: v_def)
  have i: "unat w < 64" "unat w * lo \<le> unat su" "unat su \<le> unat w * hi"
    "if w = 0 then gl_T_slot_h s = 0 else lo \<le> unat (gl_T_slot_h s) \<and> unat (gl_T_slot_h s) \<le> hi"
    using inv by (simp_all add: est_inv_def w_def su_def)
  note ws = window_step [OF i(1-3) vb hi]
  have e3: "gl_win_cnt e = (if unat w = 63 then (w + 1) div 2 else w + 1)"
    "gl_T_slot_h_sum e = (if unat w = 63 then (su + ucast v) div 2 else su + ucast v)"
    "gl_T_slot_h e = (if unat w = 63 then ucast ((su + ucast v) div GLOSSY_SYNC_WINDOW) else if w + 1 = 1 then v else gl_T_slot_h s)"
    using estimate_fields [OF True v_def] unfolding e_def w_def [symmetric] su_def [symmetric] ws(5)
    by (simp_all only:)
  show ?thesis
    unfolding e_def [symmetric]
  proof (cases "unat w = 63")
    case True
    have w2: "unat ((w + 1) div 2) = 32"
      using ws(1) True by (simp add: unat_div)
    have s2: "unat ((su + ucast v) div 2) = (unat su + unat v) div 2"
      using ws(2) by (simp add: unat_div)
    have b: "64 * lo \<le> unat su + unat v" "unat su + unat v \<le> 64 * hi"
      using ws(3,4) True by simp_all
    have "(unat su + unat v) div 64 \<le> hi" "lo \<le> (unat su + unat v) div 64"
      using b by linarith+
    moreover have "unat (ucast ((su + ucast v) div GLOSSY_SYNC_WINDOW) :: u16) = (unat su + unat v) div 64"
      using ws(2) calculation(1) hi by (simp add: unat_ucast_32_16 unat_div GLOSSY_SYNC_WINDOW_def)
    moreover have "32 * lo \<le> (unat su + unat v) div 2" "(unat su + unat v) div 2 \<le> 32 * hi"
      using b by linarith+
    moreover have "(w + 1) div 2 \<noteq> 0"
      using w2 by auto
    ultimately show "est_inv lo hi e"
      unfolding est_inv_def e3 using True w2 s2 by simp
  next
    case False
    have ne: "w + 1 \<noteq> 0"
      using ws(1) by (metis Suc_eq_plus1 nat.distinct(1) unat_0)
    have lt: "unat (w + 1) < 64"
      using ws(1) i(1) False by simp
    have T: "lo \<le> unat (if w + 1 = 1 then v else gl_T_slot_h s) \<and> unat (if w + 1 = 1 then v else gl_T_slot_h s) \<le> hi"
      using vb i(4) by (cases "w = 0") simp_all
    show "est_inv lo hi e"
      unfolding est_inv_def e3 if_not_P [OF False] using ne lt T ws(1-4) by (simp only: if_False simp_thms)
  qed
qed

lemma est_inv_cong:
  "gl_win_cnt s = gl_win_cnt t \<Longrightarrow> gl_T_slot_h_sum s = gl_T_slot_h_sum t \<Longrightarrow> gl_T_slot_h s = gl_T_slot_h t \<Longrightarrow>
   est_inv lo hi s = est_inv lo hi t"
  by (simp only: est_inv_def)

lemma est_inv_fields [simp]:
  "est_inv lo hi (s\<lparr>gl_status := a\<rparr>) = est_inv lo hi s" "est_inv lo hi (s\<lparr>gl_radio := b\<rparr>) = est_inv lo hi s"
  "est_inv lo hi (s\<lparr>gl_energest := c\<rparr>) = est_inv lo hi s" "est_inv lo hi (s\<lparr>gl_tacctl2 := d\<rparr>) = est_inv lo hi s"
  "est_inv lo hi (s\<lparr>gl_packet := f\<rparr>) = est_inv lo hi s" "est_inv lo hi (s\<lparr>gl_T_irq := h\<rparr>) = est_inv lo hi s"
  "est_inv lo hi (s\<lparr>gl_tbccr4 := h\<rparr>) = est_inv lo hi s" "est_inv lo hi (s\<lparr>gl_tbcctl4 := d\<rparr>) = est_inv lo hi s"
  "est_inv lo hi (s\<lparr>gl_time_to_first_rx := h\<rparr>) = est_inv lo hi s" "est_inv lo hi (s\<lparr>gl_t_rx_stop := h\<rparr>) = est_inv lo hi s"
  "est_inv lo hi (s\<lparr>gl_rx_cnt := i\<rparr>) = est_inv lo hi s" "est_inv lo hi (s\<lparr>gl_bytes_read := i\<rparr>) = est_inv lo hi s"
  "est_inv lo hi (s\<lparr>gl_periph := j\<rparr>) = est_inv lo hi s" "est_inv lo hi (s\<lparr>gl_tx_cnt := i\<rparr>) = est_inv lo hi s"
  "est_inv lo hi (s\<lparr>gl_data := f\<rparr>) = est_inv lo hi s" "est_inv lo hi (s\<lparr>gl_t_tx_stop := h\<rparr>) = est_inv lo hi s"
  by (simp_all add: est_inv_def)

lemma est_inv_packet [simp]:
  "est_inv lo hi (set_byte s k v) = est_inv lo hi s" "est_inv lo hi (set_slot_field s v) = est_inv lo hi s"
  "est_inv lo hi (data_to_packet s) = est_inv lo hi s" "est_inv lo hi (read_rest q s) = est_inv lo hi s"
  by (simp_all add: set_byte_def set_slot_field_def data_to_packet_def read_rest_def)

lemma begin_rx_est: "est_inv lo hi (glossy_begin_rx q s) = est_inv lo hi s"
proof -
  have "gl_win_cnt (glossy_begin_rx q s) = gl_win_cnt s" "gl_T_slot_h_sum (glossy_begin_rx q s) = gl_T_slot_h_sum s"
    "gl_T_slot_h (glossy_begin_rx q s) = gl_T_slot_h s"
    using conjunct1 [OF begin_rx_keeps [of s q]] by (simp_all only: rx_keeps_def simp_thms)
  then show ?thesis
    by (rule est_inv_cong)
qed

lemma begin_tx_est: "est_inv lo hi (glossy_begin_tx q s) = est_inv lo hi s"
  by (rule est_inv_cong) (simp_all add: glossy_begin_tx_def Let_def packet_to_data_def glossy_compute_sync_reference_point_def)

lemma end_tx_est: "est_inv lo hi (glossy_end_tx q s) = est_inv lo hi s"
  by (rule est_inv_cong) (simp_all add: glossy_end_tx_def Let_def en_on_def en_off_def)

lemma timeout_est: "est_inv lo hi (initiator_timeout q s) = est_inv lo hi s"
  by (simp add: initiator_timeout_def Let_def)

lemma end_rx_est:
  assumes inv: "est_inv lo hi s" and hi: "hi < 65536" and st: "gl_status s = GLOSSY_STATUS_RECEIVING" "\<not> iq_sfd q"
    and ok: "packet_ok (read_rest q s)"
    and m: "measures q s \<Longrightarrow> lo \<le> unat (measurement q s) \<and> unat (measurement q s) \<le> hi"
  shows "est_inv lo hi (glossy_end_rx q s)"
proof -
  define s1 where "s1 = read_rest q s"
  have i1: "est_inv lo hi s1"
    using inv by (simp add: s1_def)
  have f1: "gl_rx_cnt s1 = gl_rx_cnt s" "gl_tx_slot_last s1 = gl_tx_slot_last s" "gl_t_rx_stop s1 = gl_t_rx_stop s"
    "gl_sync s1 = gl_sync s" "gl_packet_len s1 = gl_packet_len s"
    by (simp_all add: s1_def read_rest_def)
  show ?thesis
  proof (cases "crc_ok s1")
    case False
    then have "glossy_end_rx q s = (radio_abort_tx (iq_now q 3) s1)\<lparr>gl_status := GLOSSY_STATUS_WAITING\<rparr>"
      unfolding glossy_end_rx_def Let_def s1_def [symmetric] by (simp only: if_False)
    with i1 show ?thesis
      by simp
  next
    case True
    define s2 where "s2 = (if gl_sync s1 \<noteq> 0 then set_slot_field s1 (slot_field s1 + 1) else s1)"
    define s3 where "s3 = (if gl_tx_cnt s2 = gl_tx_max s2 then (radio_off (iq_now q 2) s2)\<lparr>gl_status := GLOSSY_STATUS_OFF\<rparr>
                      else (radio_write_tx s2)\<lparr>gl_status := GLOSSY_STATUS_RECEIVED\<rparr>)"
    define s5 where "s5 = (if gl_sync s3 \<noteq> 0 \<and> gl_rx_cnt s3 = 0
                        then s3\<lparr>gl_time_to_first_rx := gl_t_first_rx s3 - gl_time_to_first_rx s3\<rparr> else s3)"
    define s6 where "s6 = s5\<lparr>gl_rx_cnt := gl_rx_cnt s5 + 1\<rparr>"
    have i6: "est_inv lo hi s6"
      using i1 by (simp add: s6_def s5_def s3_def s2_def)
    have f2: "gl_rx_cnt s2 = gl_rx_cnt s" "gl_tx_slot_last s2 = gl_tx_slot_last s" "gl_t_rx_stop s2 = gl_t_rx_stop s"
      "gl_sync s2 = gl_sync s" "gl_packet_len s2 = gl_packet_len s"
      by (simp_all add: s2_def set_slot_field_def f1)
    have f6: "gl_rx_cnt s6 = gl_rx_cnt s + 1" "gl_tx_slot_last s6 = gl_tx_slot_last s" "gl_t_rx_stop s6 = gl_t_rx_stop s"
      "gl_sync s6 = gl_sync s" "slot_field s6 = slot_field s2"
      by (simp_all add: s6_def s5_def s3_def f2 slot_field_def)
    have sl: "slot_field s2 = slot_field s1 + 1" if "gl_sync s \<noteq> 0"
      using ok that by (simp add: s2_def f1 set_slot_field_def slot_field_def packet_ok_def s1_def [symmetric])
    have i7: "est_inv lo hi (if gl_sync s6 \<noteq> 0 \<and> slot_field s6 < 200 then glossy_estimate_slot_lengths (iq_tbccr1 q) s6 else s6)"
    proof (cases "gl_sync s6 \<noteq> 0 \<and> slot_field s6 < 200")
      case c: True
      have sy: "gl_sync s \<noteq> 0" "slot_field s1 + 1 < 200"
        using c sl by (simp_all add: f6)
      have "est_inv lo hi (glossy_estimate_slot_lengths (iq_tbccr1 q) s6)"
      proof (rule estimate_est_inv [OF i6 hi])
        assume g: "gl_rx_cnt s6 > 1" "unat (slot_field s6) = unat (gl_tx_slot_last s6) + 2"
        have "measures q s"
          using st True sy g sl [OF sy(1)] by (simp add: measures_def f6 s1_def)
        from m [OF this] show "lo \<le> unat ((iq_tbccr1 q - gl_t_rx_stop s6) div 2) \<and> unat ((iq_tbccr1 q - gl_t_rx_stop s6) div 2) \<le> hi"
          by (simp add: measurement_def f6)
      qed
      with c show ?thesis
        by simp
    next
      case False
      with i6 show ?thesis
        by (simp only: if_False)
    qed
    define s7 where "s7 = (if gl_sync s6 \<noteq> 0 \<and> slot_field s6 < 200 then glossy_estimate_slot_lengths (iq_tbccr1 q) s6 else s6)
        \<lparr>gl_t_rx_stop := iq_tbccr1 q\<rparr>"
    have "glossy_end_rx q s = (if gl_initiator s7 \<noteq> 0 then s7\<lparr>gl_tbcctl4 := False\<rparr> else s7)"
      unfolding glossy_end_rx_def Let_def s1_def [symmetric] s2_def [symmetric] s3_def [symmetric] s5_def [symmetric] s6_def [symmetric]
        s7_def [symmetric] by (rule if_P [OF True])
    moreover have "est_inv lo hi s7"
      unfolding s7_def est_inv_fields by (rule i7)
    ultimately show ?thesis
      by (cases "gl_initiator s7 = 0") simp_all
  qed
qed

fun sample_ok :: "rtimer_clock_t \<Rightarrow> rtimer_clock_t \<Rightarrow> glossy \<Rightarrow> gl_event \<Rightarrow> bool" where
  "sample_ok lo hi s (Gl_Irq q) \<longleftrightarrow> (measures q s \<longrightarrow> lo \<le> measurement q s \<and> measurement q s \<le> hi)"
| "sample_ok lo hi s ev \<longleftrightarrow> gl_event_ok s ev"

lemma measures_start_tx:
  "measures q (radio_start_tx now (s\<lparr>gl_T_irq := t\<rparr>)) = measures q s" "measurement q (radio_start_tx now (s\<lparr>gl_T_irq := t\<rparr>)) = measurement q s"
  by (simp_all add: measures_def measurement_def read_rest_def crc_ok_def slot_field_def)

lemma interrupt_est:
  assumes inv: "gl_inv s" "est_inv (unat lo) (unat hi) s" and ok: "sample_ok lo hi s (Gl_Irq q)"
  shows "est_inv (unat lo) (unat hi) (snd (timerb1_interrupt q s))"
proof -
  define s1 where "s1 = s\<lparr>gl_T_irq := push_bit 1 ((iq_tbr q - iq_tbccr1 q) - 21)\<rparr>"
  have e1: "est_inv (unat lo) (unat hi) s1"
    using inv by (simp add: s1_def)
  have er: "est_inv (unat lo) (unat hi) (glossy_end_rx q (radio_start_tx (iq_now q 4) s1))"
    if "gl_status s1 = GLOSSY_STATUS_RECEIVING" "\<not> iq_sfd q"
  proof (rule end_rx_est)
    let ?t = "radio_start_tx (iq_now q 4) s1"
    show "est_inv (unat lo) (unat hi) ?t" "unat hi < 65536" "gl_status ?t = GLOSSY_STATUS_RECEIVING" "\<not> iq_sfd q"
      using e1 that by simp_all
    have "packet_ok s" "unat (gl_bytes_read s) = rx_prefix s"
      using inv(1) that(1) by (simp_all add: gl_inv_def s1_def)
    then have "packet_ok ?t" "unat (gl_bytes_read ?t) = rx_prefix ?t"
      by (simp_all add: s1_def packet_ok_def rx_prefix_def)
    then show "packet_ok (read_rest q ?t)"
      by (rule read_rest_ok)
    show "unat lo \<le> unat (measurement q ?t) \<and> unat (measurement q ?t) \<le> unat hi" if "measures q ?t"
      using that ok by (simp only: s1_def measures_start_tx sample_ok.simps word_le_nat_alt simp_thms)
  qed
  show ?thesis
    unfolding timerb1_interrupt_def Let_def s1_def [symmetric]
    using er e1 by (auto simp: begin_rx_est begin_tx_est end_tx_est timeout_est simp del: radio_start_tx_eq split: tb_source.split)
qed

lemma setup_est:
  "gl_win_cnt (glossy_setup mem data data_len initiator sync tx_max on s) = gl_win_cnt s"
  "gl_T_slot_h_sum (glossy_setup mem data data_len initiator sync tx_max on s) = gl_T_slot_h_sum s"
  "gl_T_slot_h (glossy_setup mem data data_len initiator sync tx_max on s) = gl_T_slot_h s"
  by (simp_all add: glossy_setup_def Let_def set_slot_field_def set_byte_def data_to_packet_def)

lemma start_est: "est_inv lo hi (glossy_start mem now tbr data data_len initiator sync tx_max on s) = est_inv lo hi s"
  by (rule est_inv_cong) (simp_all add: glossy_start_def Let_def setup_est)

lemma gl_step_est:
  assumes inv: "gl_inv s" "est_inv (unat lo) (unat hi) s" and ok: "sample_ok lo hi s ev"
  shows "est_inv (unat lo) (unat hi) (gl_step s ev)"
proof (cases ev)
  case (Gl_Irq q)
  then show ?thesis
    using interrupt_est [OF inv] ok by simp
next
  case Gl_Rx_Timeout
  then show ?thesis
    using inv by simp
next
  case Gl_Disable
  have "est_inv (unat lo) (unat hi) (glossy_disable_other_interrupts s) = est_inv (unat lo) (unat hi) s"
    by (rule est_inv_cong) (simp_all add: glossy_disable_other_interrupts_def Let_def)
  with Gl_Disable inv show ?thesis
    by simp
qed (use inv in \<open>simp_all add: start_est glossy_stop_def glossy_enable_other_interrupts_def\<close>)

lemma sample_event_ok: "sample_ok lo hi s ev \<Longrightarrow> gl_event_ok s ev"
  by (cases ev) simp_all

interpretation slw: machine gl_step "sample_ok lo hi" "\<lambda>s. gl_inv s \<and> est_inv (unat lo) (unat hi) s" for lo hi :: rtimer_clock_t
  by unfold_locales (use gl_step_inv gl_step_est sample_event_ok in blast)

text \<open>The slot length that a node estimates is never outside the range of what it has measured: if every measurement lies between
  \<open>lo\<close> and \<open>hi\<close>, so does \<open>T_slot_h\<close> once it is not zero, through all the halving of the sliding window of 64
  measurements; in particular it is exact when the measurements agree.\<close>

theorem slot_length_window:
  assumes "gl_inv s" and "gl_T_slot_h s = 0" and "gl_T_slot_h_sum s = 0" and "gl_win_cnt s = 0"
    and "run_ok gl_step (sample_ok lo hi) s es"
  shows "get_T_slot_h (foldl gl_step s es) = 0 \<or>
    lo \<le> get_T_slot_h (foldl gl_step s es) \<and> get_T_slot_h (foldl gl_step s es) \<le> hi"
proof -
  have "gl_inv s \<and> est_inv (unat lo) (unat hi) s"
    using assms(1-4) by (simp add: est_inv_def)
  from slw.inv_run [OF this assms(5)] show ?thesis
    by (simp add: est_inv_def get_T_slot_h_def word_le_nat_alt split: if_splits)
qed

text \<open>A node that has transmitted in slot 1 receives the packet again in slot 2.\<close>

definition gl_again :: glossy where
  "gl_again = gl_receiver\<lparr>gl_rx_cnt := 1, gl_tx_slot_last := 1, gl_t_rx_stop := 2400, gl_t_tx_start := 2900, gl_t_tx_stop := 4300\<rparr>"

definition cfg_packet2 :: "u8 list" where
  "cfg_packet2 = [10, 0xFE, 1, 2, 3, 4, 5, 6, 2, 0x29, 0x80]"

definition irq_again :: "gl_event list" where
  "irq_again = [Gl_Irq (irq_begin\<lparr>iq_bytes := cfg_packet2\<rparr>),
     Gl_Irq (irq_end\<lparr>iq_tbr := 10423, iq_tbccr1 := 10400, iq_rest := (\<lambda>i. cfg_packet2 ! (3 + i))\<rparr>)]"

theorem slot_length_window_witness:
  "get_T_slot_h (foldl gl_step gl_again irq_again) = 4000"
proof -
  have i: "gl_inv gl_again"
    using gl_receiver(1) by (simp add: gl_again_def)
  have z: "gl_T_slot_h gl_again = 0" "gl_T_slot_h_sum gl_again = 0" "gl_win_cnt gl_again = 0"
    by code_simp+
  have "\<not> measures (irq_begin\<lparr>iq_bytes := cfg_packet2\<rparr>) gl_again"
    by (simp add: measures_def irq_begin_def)
  moreover have "measurement (irq_end\<lparr>iq_tbr := 10423, iq_tbccr1 := 10400, iq_rest := (\<lambda>i. cfg_packet2 ! (3 + i))\<rparr>)
      (gl_step gl_again (Gl_Irq (irq_begin\<lparr>iq_bytes := cfg_packet2\<rparr>))) = 4000"
    by code_simp
  ultimately have "run_ok gl_step (sample_ok 4000 4000) gl_again irq_again"
    by (simp only: irq_again_def run_ok.simps sample_ok.simps) simp
  from slot_length_window [OF i z this]
  have "get_T_slot_h (foldl gl_step gl_again irq_again) = 0 \<or> get_T_slot_h (foldl gl_step gl_again irq_again) = 4000"
    by auto
  moreover have "get_T_slot_h (foldl gl_step gl_again irq_again) \<noteq> 0"
    by code_simp
  ultimately show ?thesis
    by blast
qed

section \<open>Interrupts, energy and repetitions\<close>

text \<open>What only \<open>glossy_disable_other_interrupts\<close> changes.\<close>

definition kept :: "glossy \<Rightarrow> u8 \<times> u8 \<times> u8 \<times> u8 \<times> bool \<times> bool \<times> bool \<times> bool" where
  "kept s = (gl_ie1 s, gl_ie2 s, gl_p1ie s, gl_p2ie s, pe_caie (gl_periph s), pe_dma (gl_periph s))"

lemma kept_fields [simp]:
  "kept (s\<lparr>gl_status := a\<rparr>) = kept s" "kept (s\<lparr>gl_radio := b\<rparr>) = kept s"
  "kept (s\<lparr>gl_energest := c\<rparr>) = kept s" "kept (s\<lparr>gl_tacctl2 := d\<rparr>) = kept s"
  "kept (s\<lparr>gl_packet := f\<rparr>) = kept s" "kept (s\<lparr>gl_T_irq := h\<rparr>) = kept s"
  "kept (s\<lparr>gl_tbccr4 := h\<rparr>) = kept s" "kept (s\<lparr>gl_tbcctl4 := d\<rparr>) = kept s"
  "kept (s\<lparr>gl_time_to_first_rx := h\<rparr>) = kept s" "kept (s\<lparr>gl_t_rx_stop := h\<rparr>) = kept s"
  "kept (s\<lparr>gl_rx_cnt := i\<rparr>) = kept s" "kept (s\<lparr>gl_bytes_read := i\<rparr>) = kept s"
  "kept (s\<lparr>gl_periph := (gl_periph s)\<lparr>pe_tbcctl2 := d\<rparr>\<rparr>) = kept s" "kept (s\<lparr>gl_tx_cnt := i\<rparr>) = kept s"
  "kept (set_byte s k v) = kept s" "kept (set_slot_field s v) = kept s" "kept (data_to_packet s) = kept s" "kept (read_rest q s) = kept s"
  by (simp_all add: kept_def set_byte_def set_slot_field_def data_to_packet_def read_rest_def)

lemma kept_begin_rx: "kept (glossy_begin_rx q s) = kept s"
proof -
  have "gl_ie1 (glossy_begin_rx q s) = gl_ie1 s" "gl_ie2 (glossy_begin_rx q s) = gl_ie2 s" "gl_p1ie (glossy_begin_rx q s) = gl_p1ie s"
    "gl_p2ie (glossy_begin_rx q s) = gl_p2ie s" "gl_periph (glossy_begin_rx q s) = gl_periph s"
    using conjunct1 [OF begin_rx_keeps [of s q]] by (simp_all only: rx_keeps_def simp_thms)
  then show ?thesis
    by (simp only: kept_def)
qed

lemma kept_estimate: "kept (glossy_estimate_slot_lengths t s) = kept s"
  using estimate_form [of t s] by (elim exE) (simp add: kept_def)

lemma kept_end_rx: "kept (glossy_end_rx q s) = kept s"
proof -
  define s1 where "s1 = read_rest q s"
  define s2 where "s2 = (if gl_sync s1 \<noteq> 0 then set_slot_field s1 (slot_field s1 + 1) else s1)"
  define s3 where "s3 = (if gl_tx_cnt s2 = gl_tx_max s2 then (radio_off (iq_now q 2) s2)\<lparr>gl_status := GLOSSY_STATUS_OFF\<rparr>
                    else (radio_write_tx s2)\<lparr>gl_status := GLOSSY_STATUS_RECEIVED\<rparr>)"
  define s4 where "s4 = (if gl_sync s3 \<noteq> 0 \<and> gl_rx_cnt s3 = 0
                      then s3\<lparr>gl_time_to_first_rx := gl_t_first_rx s3 - gl_time_to_first_rx s3\<rparr> else s3)\<lparr>gl_rx_cnt := gl_rx_cnt s3 + 1\<rparr>"
  have rx4: "gl_rx_cnt (if gl_sync s3 \<noteq> 0 \<and> gl_rx_cnt s3 = 0
                      then s3\<lparr>gl_time_to_first_rx := gl_t_first_rx s3 - gl_time_to_first_rx s3\<rparr> else s3) = gl_rx_cnt s3"
    by simp
  define s6 where "s6 = (if gl_sync s4 \<noteq> 0 \<and> slot_field s4 < 200 then glossy_estimate_slot_lengths (iq_tbccr1 q) s4 else s4)
      \<lparr>gl_t_rx_stop := iq_tbccr1 q\<rparr>"
  have "kept s6 = kept s"
    by (simp add: s6_def s4_def s3_def s2_def s1_def kept_estimate)
  moreover have "glossy_end_rx q s = (if crc_ok s1 then if gl_initiator s6 \<noteq> 0 then s6\<lparr>gl_tbcctl4 := False\<rparr> else s6
      else (radio_abort_tx (iq_now q 3) s1)\<lparr>gl_status := GLOSSY_STATUS_WAITING\<rparr>)"
    unfolding glossy_end_rx_def Let_def s1_def [symmetric] s2_def [symmetric] s3_def [symmetric] rx4 s4_def [symmetric] s6_def [symmetric] ..
  ultimately show ?thesis
    by (simp add: s1_def split: if_split)
qed

lemma kept_interrupt: "kept (snd (timerb1_interrupt q s)) = kept s"
proof -
  define s1 where "s1 = s\<lparr>gl_T_irq := push_bit 1 ((iq_tbr q - iq_tbccr1 q) - 21)\<rparr>"
  have k1: "kept s1 = kept s"
    by (simp add: s1_def)
  have e: "kept (glossy_begin_tx q s1) = kept s1" "kept (glossy_end_tx q s1) = kept s1" "kept (initiator_timeout q s1) = kept s1"
    "kept (glossy_end_rx q (radio_start_tx (iq_now q 4) s1)) = kept s1"
    by (simp_all add: kept_end_rx) (simp_all add: kept_def glossy_begin_tx_def Let_def packet_to_data_def
        glossy_compute_sync_reference_point_def glossy_end_tx_def en_on_def en_off_def initiator_timeout_def set_byte_def set_slot_field_def
        data_to_packet_def)
  show ?thesis
    unfolding timerb1_interrupt_def Let_def s1_def [symmetric] k1 [symmetric]
    by (simp add: e kept_begin_rx del: radio_start_tx_eq split: tb_source.split)
qed

lemma kept_run: "list_all (\<lambda>ev. ev \<noteq> Gl_Disable \<and> ev \<noteq> Gl_Enable) es \<Longrightarrow> kept (foldl gl_step t es) = kept t"
proof (induction es arbitrary: t)
  case (Cons ev es)
  have "kept (glossy_setup mem data data_len initiator sync tx_max on s) = kept s" for mem data data_len initiator sync tx_max on s
    by (simp add: kept_def glossy_setup_def Let_def set_slot_field_def set_byte_def data_to_packet_def)
  then have "kept (gl_step t ev) = kept t"
    using Cons.prems by (cases ev) (simp_all add: kept_interrupt glossy_start_def Let_def glossy_stop_def)
  with Cons show ?case
    by simp
qed simp

text \<open>After a Glossy phase the interrupts are enabled as they were before it (the module interrupts, both ports, the event
  timer, the radio's packet interrupt) and Timer B runs on the 32768 Hz clock again, whatever happened in between; but the
  interrupts of the comparator and of the DMA channels stay off, whether or not they were enabled before.\<close>

theorem interrupts_restored:
  assumes "list_all (\<lambda>ev. ev \<noteq> Gl_Disable \<and> ev \<noteq> Gl_Enable) es"
    and "s1 = gl_periph (glossy_enable_other_interrupts (foldl gl_step (glossy_disable_other_interrupts s) es))"
  shows "(pe_ie1 s1, pe_ie2 s1, pe_p1ie s1, pe_p2ie s1) =
      (pe_ie1 (gl_periph s), pe_ie2 (gl_periph s), pe_p1ie (gl_periph s), pe_p2ie (gl_periph s)) \<and>
    pe_taccie1 s1 \<and> pe_fifop s1 \<and> \<not> pe_sfd s1 \<and> \<not> pe_tb_dco s1 \<and> pe_watchdog s1 \<and>
    \<not> pe_caie s1 \<and> pe_dma s1 = (False, False, False)"
  using kept_run [OF assms(1), of "glossy_disable_other_interrupts s"] unfolding assms(2)
  by (simp add: kept_def glossy_disable_other_interrupts_def glossy_enable_other_interrupts_def Let_def)

theorem interrupts_restored_witness:
  "pe_p2ie (gl_periph (glossy_enable_other_interrupts (foldl gl_step (glossy_disable_other_interrupts gl_boot)
     [Gl_Start (\<lambda>_. 0) (\<lambda>_. 30) 900 [0, 0, 0, 0, 0, 0] 6 0 1 3, Gl_Irq irq_begin, Gl_Irq irq_end, Gl_Stop 300]))) = 4"
proof -
  have "list_all (\<lambda>ev. ev \<noteq> Gl_Disable \<and> ev \<noteq> Gl_Enable)
     [Gl_Start (\<lambda>_. 0) (\<lambda>_. 30) 900 [0, 0, 0, 0, 0, 0] 6 0 1 3, Gl_Irq irq_begin, Gl_Irq irq_end, Gl_Stop 300]"
    by simp
  from interrupts_restored [OF this refl, of gl_boot] have "pe_p2ie (gl_periph (glossy_enable_other_interrupts (foldl gl_step
     (glossy_disable_other_interrupts gl_boot)
     [Gl_Start (\<lambda>_. 0) (\<lambda>_. 30) 900 [0, 0, 0, 0, 0, 0] 6 0 1 3, Gl_Irq irq_begin, Gl_Irq irq_end, Gl_Stop 300]))) = pe_p2ie (gl_periph gl_boot)"
    by (simp only: prod.inject simp_thms)
  then show ?thesis
    by (simp only:) (simp add: gl_boot_def)
qed

lemma take_frame: "length xs = n \<Longrightarrow> take (n + 3) ([a, b] @ xs @ c # ys) = [a, b] @ xs @ [c]"
  by (simp add: numeral_3_eq_3)

text \<open>When the initiator of a synchronising flood has heard nothing before its timeout, it sends its packet again, whatever an aborted
  reception left in the packet buffer: the length, the header and the application's data are all written anew, the transmission
  counter starts again, and the slot number is 200, by which the receivers know that it does not give the reference time.\<close>

theorem initiator_repeats:
  assumes "gl_inv s" and "gl_status s = GLOSSY_STATUS_WAITING" and "gl_sync s \<noteq> 0" and "gl_rx_cnt s = 0" and "rd_txfifo (gl_radio s) = []"
    and "\<not> iq_sfd q" and "iq_tbiv q = TBIV_TBCCR4" and "s' = snd (timerb1_interrupt q s)"
  shows "rd_txfifo (gl_radio s') = [gl_packet_len s, GLOSSY_HEADER] @ take (unat (gl_data_len s)) (gl_data s) @ [200] \<and>
    hd (rd_strobes (gl_radio s')) = STXON \<and> gl_status s' = GLOSSY_STATUS_RECEIVED \<and> gl_tx_cnt s' = 0 \<and>
    gl_tbccr4 s' = iq_tbr4 q + GLOSSY_INITIATOR_TIMEOUT"
proof -
  let ?d = "unat (gl_data_len s)"
  have ok: "length (gl_packet s) = ?d + 5" "unat (gl_packet_len s) = ?d + 4" "?d \<le> length (gl_data s)"
    using assms(1-3) by (simp_all add: gl_inv_def packet_ok_def)
  define m where "m = (gl_packet s)[0 := gl_packet_len s, 1 := GLOSSY_HEADER, ?d + 2 := 200]"
  have lm: "length m = ?d + 5"
    by (simp add: m_def ok)
  have m2: "take 2 m = [gl_packet_len s, GLOSSY_HEADER]" "m ! (?d + 2) = 200"
  proof -
    obtain a b l where g: "gl_packet s = a # b # l"
      using ok(1) by (cases "gl_packet s"; cases "tl (gl_packet s)") simp_all
    show "take 2 m = [gl_packet_len s, GLOSSY_HEADER]"
      by (simp add: m_def g)
    show "m ! (?d + 2) = 200"
      by (simp add: m_def ok)
  qed
  have dr: "drop (?d + 2) m = 200 # drop (?d + 3) m"
    using Cons_nth_drop_Suc [of "?d + 2" m] lm m2(2) by (simp add: numeral_3_eq_3)
  have p: "take (?d + 3) (mem_put m 2 (take ?d (gl_data s))) = [gl_packet_len s, GLOSSY_HEADER] @ take ?d (gl_data s) @ [200]"
  proof -
    have l: "length (take ?d (gl_data s)) = ?d"
      using ok(3) by simp
    from take_frame [OF l] show ?thesis
      by (simp only: l mem_put_def m2(1) add.commute [of 2] dr)
  qed
  define s1 where "s1 = s\<lparr>gl_T_irq := push_bit 1 ((iq_tbr q - iq_tbccr1 q) - 21)\<rparr>"
  have "snd (timerb1_interrupt q s) = initiator_timeout q s1"
    unfolding timerb1_interrupt_def Let_def s1_def [symmetric] using assms(2,6,7) by (simp add: s1_def)
  then show ?thesis
    using assms(3-5) p [unfolded add.commute [of ?d 3]] ok(2)
    by (simp add: assms(8) initiator_timeout_def s1_def Let_def data_to_packet_def set_slot_field_def set_byte_def m_def)
qed

definition gl_silent :: glossy where
  "gl_silent = gl_receiver\<lparr>gl_initiator := 1, gl_tx_cnt := 1, gl_data := [1, 2, 3, 4, 5, 6], gl_packet := replicate 11 77\<rparr>"

theorem initiator_repeats_witness:
  "rd_txfifo (gl_radio (snd (timerb1_interrupt (irq_begin\<lparr>iq_sfd := False, iq_tbiv := TBIV_TBCCR4\<rparr>) gl_silent))) =
     [10, 0xFE, 1, 2, 3, 4, 5, 6, 200]"
proof -
  have r: "packet_ok gl_receiver" "txs (gl_energest gl_receiver) = (\<not> rxs (gl_energest gl_receiver))"
    using gl_receiver(1,2) by (simp_all add: gl_inv_def)
  have "gl_inv gl_silent"
    using r gl_receiver by (simp add: gl_silent_def gl_inv_def packet_ok_def count_ok_def)
  from initiator_repeats [OF this _ _ _ _ _ _ refl, of "irq_begin\<lparr>iq_sfd := False, iq_tbiv := TBIV_TBCCR4\<rparr>"] show ?thesis
    using gl_receiver by (simp add: gl_silent_def GLOSSY_HEADER_def)
qed

text \<open>The energy accounting of an initiator is wrong: starting a flood accounts a listening phase that never was. The radio is off,
  but \<open>radio_start_tx\<close> ends a listening phase without asking whether there is one, and the whole time since the last one began
  (modulo 2 s) is added to the time spent listening.\<close>

theorem initiator_listen_counted:
  assumes "gl_inv s" and "gl_status s = GLOSSY_STATUS_OFF" and "initiator \<noteq> 0"
  shows "\<not> en_mode (gl_energest s) ENERGEST_TYPE_LISTEN \<and>
    en_total (gl_energest (glossy_start mem now tbr data data_len initiator sync tx_max True s)) ENERGEST_TYPE_LISTEN =
      en_total (gl_energest s) ENERGEST_TYPE_LISTEN + ucast ((now 0 - en_time (gl_energest s) ENERGEST_TYPE_LISTEN) div ENERGEST_DIVIDER)"
  using assms
  by (simp add: gl_inv_def glossy_start_def Let_def setup_fields en_to_tx_def ENERGEST_ON_def ENERGEST_OFF_def account_def)

theorem initiator_listen_counted_witness:
  "en_total (gl_energest (glossy_start (\<lambda>_. 0) (\<lambda>_. 40000) 900 [0, 0, 0, 0, 0, 0] 6 1 1 3 True gl_boot)) ENERGEST_TYPE_LISTEN = 10000"
proof -
  have e: "en_total (gl_energest gl_boot) ENERGEST_TYPE_LISTEN = 0" "en_time (gl_energest gl_boot) ENERGEST_TYPE_LISTEN = 0"
    by (simp_all add: gl_boot_def en_boot_def energest_glossy_init_def)
  show ?thesis
    using initiator_listen_counted [OF gl_boot_inv, of 1 "\<lambda>_. 0" "\<lambda>_. 40000" 900 "[0, 0, 0, 0, 0, 0]" 6 1 3]
    by (simp add: e ENERGEST_DIVIDER_def)
qed

end
