(* ===== verification/Glossy_Sched.thy ===== *)
theory Glossy_Sched
  imports Glossy_Props Rimeaddr Glossy_Conf
begin

text \<open>
  The Glossy phases of a node, \<open>apps/adaptive-mac/glossy_interface.h\<close>: once a minute the MAC protocol stops, the sink floods
  the configuration, then the nodes flood their reports one after the other, and the MAC protocol goes on. The protothread
  \<open>glossy_scheduler\<close> is the callback of one real-time timer; its local continuation is the field \<open>gs_pc\<close>. The
  LEDs and the printing of the reports are output only; what is printed is \<open>report_line\<close>.
\<close>

section \<open>Data\<close>

record config =
  cf_t_l :: u16
  cf_t_s :: u16
  cf_n :: u8

record glossy_config_struct = config +
  gc_seq_no :: u8

record glossy_report_struct =
  gr_pkt_rate :: u16
  gr_prr :: u16
  gr_node_id :: u8
  gr_parent_id :: u8

record report_struct =
  rp_report :: glossy_report_struct
  rp_received :: u8

text \<open>The bytes of the structures, as Glossy sends them (little endian).\<close>

definition config_bytes :: "glossy_config_struct \<Rightarrow> u8 list" where
  "config_bytes c = le16 (cf_t_l c) @ le16 (cf_t_s c) @ [cf_n c, gc_seq_no c]"

definition bytes_config :: "u8 list \<Rightarrow> glossy_config_struct" where
  "bytes_config b = \<lparr>cf_t_l = of_le16 (b ! 0) (b ! 1), cf_t_s = of_le16 (b ! 2) (b ! 3), cf_n = b ! 4, gc_seq_no = b ! 5\<rparr>"

definition report_bytes :: "glossy_report_struct \<Rightarrow> u8 list" where
  "report_bytes r = le16 (gr_pkt_rate r) @ le16 (gr_prr r) @ [gr_node_id r, gr_parent_id r]"

definition bytes_report :: "u8 list \<Rightarrow> glossy_report_struct" where
  "bytes_report b = \<lparr>gr_pkt_rate = of_le16 (b ! 0) (b ! 1), gr_prr = of_le16 (b ! 2) (b ! 3), gr_node_id = b ! 4, gr_parent_id = b ! 5\<rparr>"

definition GLOSSY_CONFIG_LEN :: u8 where "GLOSSY_CONFIG_LEN = 6"
definition GLOSSY_REPORT_LEN :: u8 where "GLOSSY_REPORT_LEN = 6"

text \<open>The order in which the nodes report, in the two deployments (\<open>LOCATION\<close>).\<close>

definition schedule_ethz :: "u8 list" where
  "schedule_ethz = [1, 2, 3, 4, 5, 6, 7, 8, 9, 10, 11, 12, 13, 14, 15, 16, 17, 18, 19, 20, 21, 22, 23, 24, 25, 26, 27, 28, 29, 30,
     31, 32, 33, 34, 101, 102, 103, 104, 105, 106, 107, 108, 109]"

definition schedule_sics :: "u8 list" where
  "schedule_sics = [1, 5, 8, 13, 2, 6, 9, 14, 3, 7, 10, 15, 4, 20, 11, 16, 22, 21, 12, 17, 23, 19, 18]"

section \<open>State\<close>

datatype sched_pc =
    Pc_Begin | Sink_Config | Sink_Report_Start | Sink_Report_Stop | Sink_Period
  | Node_Config | Node_Report_Start | Node_Report_Stop | Node_Period

datatype mac_op = Mac_Off | Mac_On

datatype process_name = Adaptation_Process | Glossy_Print_Report_Process | Glossy_Print_Process | Glossy_Process

text \<open>
  Beside the variables of the file: the state of Glossy, the real-time timer and the MAC protocol's energy counters, the calls of
  \<open>rime_mac\<close> and the processes polled or started (both the latest first), the node's schedule and its timer structure \<open>rt\<close>.
\<close>

record sched =
  gs_pc :: sched_pc
  gs_gl :: glossy
  gs_rt :: rtimer_state
  gs_en :: energest
  gs_config :: glossy_config_struct
  gs_report_data :: glossy_report_struct
  gs_new_cfg :: config
  gs_current_cfg :: config
  gs_data_rate :: u16
  gs_period_skew :: int
  gs_parent_id :: u8
  gs_report :: "report_struct list"
  gs_config_seq_no :: u8
  gs_t_ref_l_old :: rtimer_clock_t
  gs_skew_estimated :: u8
  gs_config_received :: u8
  gs_sync_missed :: u8
  gs_report_idx :: u8
  gs_t_start :: rtimer_clock_t
  gs_mac :: "mac_op list"
  gs_polled :: "process_name list"
  gs_schedule :: "u8 list"
  gs_timer :: ptr

text \<open>
  What one call of the scheduler reads: the node's address, what \<open>malloc\<close> finds, \<open>RTIMER_NOW()\<close> by call site,
  \<open>RTIMER_NOW_DCO()\<close>, and the MAC protocol's packet reception rate.
\<close>

record sched_env =
  se_me :: rimeaddr
  se_mem :: "nat \<Rightarrow> u8"
  se_now :: "nat \<Rightarrow> rtimer_clock_t"
  se_tbr :: rtimer_clock_t
  se_prr :: u16

definition IS_SINK :: "sched_env \<Rightarrow> bool" where
  "IS_SINK e \<longleftrightarrow> u8_0 (se_me e) = SINK_ID \<and> u8_1 (se_me e) = 0"

definition GLOSSY_IS_BOOTSTRAPPING :: "sched \<Rightarrow> bool" where
  "GLOSSY_IS_BOOTSTRAPPING s \<longleftrightarrow> gs_skew_estimated s < GLOSSY_BOOTSTRAP_PERIODS"

definition GLOSSY_IS_SYNCED :: "sched \<Rightarrow> bool" where
  "GLOSSY_IS_SYNCED s \<longleftrightarrow> is_t_ref_l_updated (gs_gl s) \<noteq> 0"

definition GLOSSY_REFERENCE_TIME :: "sched \<Rightarrow> rtimer_clock_t" where
  "GLOSSY_REFERENCE_TIME s = get_t_ref_l (gs_gl s)"

section \<open>Steps\<close>

definition timer_set_at :: "sched \<Rightarrow> rtimer_clock_t \<Rightarrow> sched" where
  "timer_set_at s time = s\<lparr>gs_rt := snd (rtimer_set (gs_rt s) (gs_timer s) time 0 None)\<rparr>"

definition timer_set_long :: "sched \<Rightarrow> rtimer_clock_t \<Rightarrow> u32 \<Rightarrow> sched" where
  "timer_set_long s ref_time off = s\<lparr>gs_rt := snd (rtimer_set_long (gs_rt s) (gs_timer s) ref_time off 0 None)\<rparr>"

definition timer_time :: "sched \<Rightarrow> rtimer_clock_t" where
  "timer_time s = rt_time (rs_mem (gs_rt s) (gs_timer s))"

definition off_if_on :: "rtimer_clock_t \<Rightarrow> energest \<Rightarrow> energest_type \<Rightarrow> energest" where
  "off_if_on now e ty = (if en_mode e ty then ENERGEST_OFF now e ty else e)"

definition stop_mac_energest :: "sched_env \<Rightarrow> sched \<Rightarrow> sched" where
  "stop_mac_energest e s =
     s\<lparr>gs_en := foldl (off_if_on (se_now e 2)) (gs_en s)
         [ENERGEST_TYPE_LISTEN, ENERGEST_TYPE_TRANSMIT, ENERGEST_TYPE_CPU, ENERGEST_TYPE_LPM],
       gs_gl := (gs_gl s)\<lparr>gl_energest := ENERGEST_ON (se_now e 3) (gl_energest (gs_gl s)) ENERGEST_TYPE_CPU\<rparr>\<rparr>"

definition start_mac_energest :: "sched_env \<Rightarrow> sched \<Rightarrow> sched" where
  "start_mac_energest e s =
     s\<lparr>gs_gl := (gs_gl s)\<lparr>gl_energest := ENERGEST_OFF (se_now e 4) (gl_energest (gs_gl s)) ENERGEST_TYPE_CPU\<rparr>,
       gs_en := ENERGEST_ON (se_now e 5) (gs_en s) ENERGEST_TYPE_CPU\<rparr>"

text \<open>A 16-bit difference, read as an \<open>int\<close>.\<close>

definition estimate_period_skew :: "sched \<Rightarrow> sched" where
  "estimate_period_skew s =
     (if GLOSSY_IS_SYNCED s then
        (let s1 = s\<lparr>gs_period_skew := sint (get_t_ref_l (gs_gl s) - (gs_t_ref_l_old s + ucast GLOSSY_PERIOD)),
                    gs_t_ref_l_old := get_t_ref_l (gs_gl s)\<rparr>
         in if GLOSSY_IS_BOOTSTRAPPING s1 then s1\<lparr>gs_skew_estimated := gs_skew_estimated s1 + 1\<rparr> else s1)
      else s)"

definition apply_config :: "sched \<Rightarrow> sched" where
  "apply_config s =
     (if gc_seq_no (gs_config s) \<noteq> gs_config_seq_no s then
        s\<lparr>gs_config_seq_no := gc_seq_no (gs_config s),
          gs_new_cfg := \<lparr>cf_t_l = cf_t_l (gs_config s), cf_t_s = cf_t_s (gs_config s), cf_n = cf_n (gs_config s)\<rparr>,
          gs_polled := Adaptation_Process # gs_polled s\<rparr>
      else s)"

text \<open>The end of \<open>glossy_stop\<close> for the scheduler: the data Glossy has received is in the application's structure.\<close>

definition stop_config :: "sched_env \<Rightarrow> sched \<Rightarrow> sched" where
  "stop_config e s =
     (case glossy_stop (se_now e 6) (gs_gl s) of
        (n, g) \<Rightarrow> s\<lparr>gs_gl := g, gs_config_received := n, gs_config := bytes_config (gl_data (gs_gl s))\<rparr>)"

definition mac_off :: "sched \<Rightarrow> sched" where
  "mac_off s = s\<lparr>gs_mac := Mac_Off # gs_mac s\<rparr>"

definition mac_on :: "sched \<Rightarrow> sched" where
  "mac_on s = s\<lparr>gs_mac := Mac_On # gs_mac s\<rparr>"

text \<open>The start of a Glossy phase: the configuration flood.\<close>

definition phase_start :: "sched_env \<Rightarrow> u8 \<Rightarrow> sched \<Rightarrow> sched" where
  "phase_start e initiator s =
     (let s1 = stop_mac_energest e (mac_off s)
      in s1\<lparr>gs_gl := glossy_start (se_mem e) (se_now e) (se_tbr e) (config_bytes (gs_config s1)) GLOSSY_CONFIG_LEN initiator 1
              GLOSSY_N True (glossy_disable_other_interrupts (gs_gl s1))\<rparr>)"

definition phase_end :: "sched_env \<Rightarrow> sched \<Rightarrow> sched" where
  "phase_end e s = mac_on (start_mac_energest e (s\<lparr>gs_gl := glossy_enable_other_interrupts (gs_gl s)\<rparr>))"

text \<open>\<open>GLOSSY_REFERENCE_TIME + (report_idx + 1) * (GLOSSY_DURATION + GLOSSY_GAP)\<close>\<close>

definition report_time :: "sched \<Rightarrow> rtimer_clock_t" where
  "report_time s = GLOSSY_REFERENCE_TIME s + (ucast (gs_report_idx s) + 1) * (GLOSSY_DURATION + GLOSSY_GAP)"

definition sink_begin :: "sched_env \<Rightarrow> sched \<Rightarrow> sched" where
  "sink_begin e s =
     (let s1 = phase_start e 1 s;
          s2 = s1\<lparr>gs_t_start := timer_time s1\<rparr>
      in (timer_set_at s2 (gs_t_start s2 + GLOSSY_DURATION))\<lparr>gs_pc := Sink_Config\<rparr>)"

definition sink_end :: "sched_env \<Rightarrow> sched \<Rightarrow> sched" where
  "sink_end e s =
     (let s1 = apply_config (estimate_period_skew (timer_set_long s (gs_t_start s) GLOSSY_PERIOD))
      in (phase_end e (s1\<lparr>gs_polled := Glossy_Print_Report_Process # gs_polled s1\<rparr>))\<lparr>gs_pc := Sink_Period\<rparr>)"

text \<open>The head of the reporting loop.\<close>

definition sink_report :: "sched_env \<Rightarrow> sched \<Rightarrow> sched" where
  "sink_report e s =
     (if unat (gs_report_idx s) < length (gs_schedule s) then (timer_set_at s (report_time s))\<lparr>gs_pc := Sink_Report_Start\<rparr>
      else sink_end e s)"

definition sink_config :: "sched_env \<Rightarrow> sched \<Rightarrow> sched" where
  "sink_config e s =
     (let s1 = stop_config e s
      in if \<not> GLOSSY_IS_BOOTSTRAPPING s1 then
           (let s2 = (if \<not> GLOSSY_IS_SYNCED s1
                      then s1\<lparr>gs_gl := set_t_ref_l_updated 1 (set_t_ref_l (GLOSSY_REFERENCE_TIME s1 + ucast GLOSSY_PERIOD) (gs_gl s1))\<rparr>
                      else s1)
            in sink_report e (s2\<lparr>gs_report_idx := 0\<rparr>))
         else sink_end e s1)"

definition sink_report_start :: "sched_env \<Rightarrow> sched \<Rightarrow> sched" where
  "sink_report_start e s =
     (let s1 = s\<lparr>gs_gl := glossy_start (se_mem e) (se_now e) (se_tbr e) (report_bytes (rp_report (gs_report s ! unat (gs_report_idx s))))
                  GLOSSY_REPORT_LEN 0 0 GLOSSY_N True (gs_gl s)\<rparr>
      in (timer_set_at s1 (report_time s1 + GLOSSY_DURATION))\<lparr>gs_pc := Sink_Report_Stop\<rparr>)"

definition sink_report_stop :: "sched_env \<Rightarrow> sched \<Rightarrow> sched" where
  "sink_report_stop e s =
     (case glossy_stop (se_now e 6) (gs_gl s) of
        (n, g) \<Rightarrow>
          sink_report e (s\<lparr>gs_gl := g,
            gs_report := (gs_report s)[unat (gs_report_idx s) := \<lparr>rp_report = bytes_report (gl_data (gs_gl s)), rp_received = n\<rparr>],
            gs_report_idx := gs_report_idx s + 1\<rparr>))"

definition node_begin :: "sched_env \<Rightarrow> sched \<Rightarrow> sched" where
  "node_begin e s =
     (let s1 = phase_start e 0 s
      in (if GLOSSY_IS_BOOTSTRAPPING s1 then timer_set_at s1 (timer_time s1 + GLOSSY_INIT_DURATION)
          else timer_set_at s1 (timer_time s1 + GLOSSY_GUARD_TIME * (1 + ucast (gs_sync_missed s1)) + GLOSSY_DURATION))
           \<lparr>gs_pc := Node_Config\<rparr>)"

text \<open>When the node is woken for the next phase.\<close>

definition node_next :: "sched \<Rightarrow> sched" where
  "node_next s =
     (if GLOSSY_IS_BOOTSTRAPPING s then
        (if gs_skew_estimated s = 0 then timer_set_at s (timer_time s + GLOSSY_INIT_PERIOD - GLOSSY_INIT_DURATION)
         else timer_set_long s (GLOSSY_REFERENCE_TIME s) (GLOSSY_PERIOD - ucast GLOSSY_INIT_GUARD_TIME))
      else timer_set_long s (GLOSSY_REFERENCE_TIME s)
             (GLOSSY_PERIOD + word_of_int (gs_period_skew s) - ucast (GLOSSY_GUARD_TIME * (1 + ucast (gs_sync_missed s)))))"

definition node_end :: "sched_env \<Rightarrow> sched \<Rightarrow> sched" where
  "node_end e s = (phase_end e (apply_config (node_next (estimate_period_skew s))))\<lparr>gs_pc := Node_Period\<rparr>"

definition node_report :: "sched_env \<Rightarrow> sched \<Rightarrow> sched" where
  "node_report e s =
     (if unat (gs_report_idx s) < length (gs_schedule s) then (timer_set_at s (report_time s))\<lparr>gs_pc := Node_Report_Start\<rparr>
      else node_end e s)"

definition node_config :: "sched_env \<Rightarrow> sched \<Rightarrow> sched" where
  "node_config e s =
     (let s1 = stop_config e s
      in if GLOSSY_IS_BOOTSTRAPPING s1 then
           node_end e (if \<not> GLOSSY_IS_SYNCED s1 then s1\<lparr>gs_skew_estimated := 0\<rparr> else s1)
         else
           (let s2 = (if \<not> GLOSSY_IS_SYNCED s1
                      then s1\<lparr>gs_gl := set_t_ref_l_updated 1
                               (set_t_ref_l (GLOSSY_REFERENCE_TIME s1 + ucast GLOSSY_PERIOD + word_of_int (gs_period_skew s1)) (gs_gl s1)),
                             gs_sync_missed := gs_sync_missed s1 + 1\<rparr>
                      else s1\<lparr>gs_sync_missed := 0\<rparr>)
            in node_report e (s2\<lparr>gs_report_idx := 0\<rparr>)))"

definition node_report_start :: "sched_env \<Rightarrow> sched \<Rightarrow> sched" where
  "node_report_start e s =
     (let own = (u8_0 (se_me e) = gs_schedule s ! unat (gs_report_idx s));
          s1 = (if own then s\<lparr>gs_report_data := \<lparr>gr_pkt_rate = gs_data_rate s, gr_prr = se_prr e, gr_node_id = u8_0 (se_me e),
                                 gr_parent_id = gs_parent_id s\<rparr>\<rparr> else s);
          s2 = s1\<lparr>gs_gl := glossy_start (se_mem e) (se_now e) (se_tbr e) (report_bytes (gs_report_data s1)) GLOSSY_REPORT_LEN
                     (if own then 1 else 0) 0 GLOSSY_N True (gs_gl s1)\<rparr>
      in (timer_set_at s2 (report_time s2 + GLOSSY_DURATION))\<lparr>gs_pc := Node_Report_Stop\<rparr>)"

definition node_report_stop :: "sched_env \<Rightarrow> sched \<Rightarrow> sched" where
  "node_report_stop e s =
     (case glossy_stop (se_now e 6) (gs_gl s) of
        (_, g) \<Rightarrow> node_report e (s\<lparr>gs_gl := g, gs_report_data := bytes_report (gl_data (gs_gl s)), gs_report_idx := gs_report_idx s + 1\<rparr>))"

definition glossy_scheduler :: "sched_env \<Rightarrow> sched \<Rightarrow> sched" where
  "glossy_scheduler e s =
     (case gs_pc s of
        Pc_Begin \<Rightarrow> if IS_SINK e then sink_begin e s else node_begin e s
      | Sink_Config \<Rightarrow> sink_config e s
      | Sink_Report_Start \<Rightarrow> sink_report_start e s
      | Sink_Report_Stop \<Rightarrow> sink_report_stop e s
      | Sink_Period \<Rightarrow> sink_begin e s
      | Node_Config \<Rightarrow> node_config e s
      | Node_Report_Start \<Rightarrow> node_report_start e s
      | Node_Report_Stop \<Rightarrow> node_report_stop e s
      | Node_Period \<Rightarrow> node_begin e s)"

definition glossy_init :: "sched_env \<Rightarrow> sched \<Rightarrow> sched" where
  "glossy_init e s =
     (let s1 = s\<lparr>gs_skew_estimated := 0,
                 gs_config := \<lparr>cf_t_l = cf_t_l (gs_current_cfg s), cf_t_s = cf_t_s (gs_current_cfg s), cf_n = cf_n (gs_current_cfg s),
                   gc_seq_no = 0\<rparr>,
                 gs_polled := [Glossy_Process, if IS_SINK e then Glossy_Print_Report_Process else Glossy_Print_Process] @ gs_polled s\<rparr>
      in timer_set_at s1 (se_now e 0 + 32768))"

section \<open>What is printed\<close>

definition to_print :: "u16 \<Rightarrow> u32" where
  "to_print t =
     (let v = ucast t * 1000 * 10 div 32768
      in if v mod 10 > 4 then v div 10 + 1 else v div 10)"

datatype printed =
    Report u8 u8 u16 u16 u16 u16 u8
  | Not_Received u8

definition report_line :: "sched \<Rightarrow> nat \<Rightarrow> printed option" where
  "report_line s i =
     (let r = gs_report s ! i
      in if gr_parent_id (rp_report r) \<noteq> 0 \<and> gr_node_id (rp_report r) = gs_schedule s ! i
         then Some (if rp_received r \<noteq> 0
                    then Report (gr_node_id (rp_report r)) (gr_parent_id (rp_report r)) (gr_pkt_rate (rp_report r)) (gr_prr (rp_report r))
                           (ucast (to_print (cf_t_l (gs_current_cfg s)))) (ucast (to_print (cf_t_s (gs_current_cfg s))))
                           (cf_n (gs_current_cfg s))
                    else Not_Received (gr_node_id (rp_report r)))
         else None)"

end
