(* ===== verification/Glossy_Rounds.thy ===== *)
theory Glossy_Rounds
  imports Glossy_Sched
begin

text \<open>
  The reporting rounds of a Glossy phase: the callback of the timer is called again and again, with any interrupts of
  Glossy in between. The rounds start and stop at fixed distances from the reference time, and in every round one node
  initiates.
\<close>

section \<open>What Glossy leaves alone while it does not synchronise\<close>

definition round_view :: "glossy \<Rightarrow> u8 \<times> u8 \<times> rtimer_clock_t \<times> u8" where
  "round_view s = (gl_sync s, gl_initiator s, gl_t_ref_l s, gl_t_ref_l_updated s)"

lemma round_view_fields [simp]:
  "round_view (s\<lparr>gl_status := a\<rparr>) = round_view s" "round_view (s\<lparr>gl_radio := b\<rparr>) = round_view s"
  "round_view (s\<lparr>gl_energest := c\<rparr>) = round_view s" "round_view (s\<lparr>gl_tacctl2 := d\<rparr>) = round_view s"
  "round_view (s\<lparr>gl_packet := f\<rparr>) = round_view s" "round_view (s\<lparr>gl_T_irq := h\<rparr>) = round_view s"
  "round_view (s\<lparr>gl_tbccr4 := h\<rparr>) = round_view s" "round_view (s\<lparr>gl_tbcctl4 := d\<rparr>) = round_view s"
  "round_view (s\<lparr>gl_t_rx_stop := h\<rparr>) = round_view s" "round_view (s\<lparr>gl_periph := p\<rparr>) = round_view s"
  "round_view (s\<lparr>gl_rx_cnt := i\<rparr>) = round_view s" "round_view (s\<lparr>gl_bytes_read := i\<rparr>) = round_view s"
  "round_view (s\<lparr>gl_tx_cnt := i\<rparr>) = round_view s"
  "round_view (set_byte s k v) = round_view s" "round_view (data_to_packet s) = round_view s" "round_view (read_rest q s) = round_view s"
  by (simp_all add: round_view_def set_byte_def data_to_packet_def read_rest_def)

lemma round_view_begin_rx: "round_view (glossy_begin_rx q s) = round_view s"
proof -
  have "gl_sync (glossy_begin_rx q s) = gl_sync s" "gl_initiator (glossy_begin_rx q s) = gl_initiator s"
    "gl_t_ref_l (glossy_begin_rx q s) = gl_t_ref_l s" "gl_t_ref_l_updated (glossy_begin_rx q s) = gl_t_ref_l_updated s"
    using conjunct1 [OF begin_rx_keeps [of s q]] by (simp_all only: rx_keeps_def simp_thms)
  then show ?thesis
    by (simp only: round_view_def)
qed

lemma round_view_end_rx:
  assumes "gl_sync s = 0"
  shows "round_view (glossy_end_rx q s) = round_view s"
proof -
  define s1 where "s1 = read_rest q s"
  define s3 where "s3 = (if gl_tx_cnt s1 = gl_tx_max s1 then (radio_off (iq_now q 2) s1)\<lparr>gl_status := GLOSSY_STATUS_OFF\<rparr>
                    else (radio_write_tx s1)\<lparr>gl_status := GLOSSY_STATUS_RECEIVED\<rparr>)"
  have z: "gl_sync s1 = 0" "gl_sync s3 = 0" "gl_sync (s3\<lparr>gl_rx_cnt := c\<rparr>) = 0" for c
    using assms by (simp_all add: s3_def s1_def read_rest_def)
  have "round_view (s3\<lparr>gl_rx_cnt := gl_rx_cnt s3 + 1, gl_t_rx_stop := iq_tbccr1 q\<rparr>) = round_view s"
    by (simp add: s3_def s1_def)
  moreover have "glossy_end_rx q s = (let s6 = s3\<lparr>gl_rx_cnt := gl_rx_cnt s3 + 1, gl_t_rx_stop := iq_tbccr1 q\<rparr>
      in if crc_ok s1 then if gl_initiator s6 \<noteq> 0 then s6\<lparr>gl_tbcctl4 := False\<rparr> else s6
         else (radio_abort_tx (iq_now q 3) s1)\<lparr>gl_status := GLOSSY_STATUS_WAITING\<rparr>)"
    unfolding glossy_end_rx_def Let_def s1_def [symmetric] by (simp only: z if_False simp_thms s3_def [symmetric])
  ultimately show ?thesis
    by (simp add: s1_def Let_def split: if_split)
qed

lemma round_view_interrupt:
  assumes "gl_sync s = 0 \<or> gl_status s = GLOSSY_STATUS_OFF"
  shows "round_view (snd (timerb1_interrupt q s)) = round_view s"
proof -
  define s1 where "s1 = s\<lparr>gl_T_irq := push_bit 1 ((iq_tbr q - iq_tbccr1 q) - 21)\<rparr>"
  have k1: "round_view s1 = round_view s" and z1: "gl_sync s1 = gl_sync s" "gl_status s1 = gl_status s"
    by (simp_all add: s1_def)
  show ?thesis
  proof (cases "gl_status s = GLOSSY_STATUS_OFF")
    case True
    then show ?thesis
      unfolding timerb1_interrupt_def Let_def s1_def [symmetric] k1 [symmetric] by (simp add: z1 split: tb_source.split)
  next
    case False
    then have z: "gl_sync s1 = 0"
      using assms z1 by simp
    have "gl_sync (radio_start_tx (iq_now q 4) s1) = 0"
      using z by simp
    note er = round_view_end_rx [OF this, of q]
    have e: "round_view (glossy_begin_tx q s1) = round_view s1" "round_view (glossy_end_tx q s1) = round_view s1"
      "round_view (initiator_timeout q s1) = round_view s1"
      by (simp_all add: z round_view_def glossy_begin_tx_def Let_def packet_to_data_def
        glossy_end_tx_def en_on_def en_off_def initiator_timeout_def set_byte_def data_to_packet_def)
    have er': "round_view (glossy_end_rx q (radio_start_tx (iq_now q 4) s1)) = round_view s1"
      unfolding er by simp
    show ?thesis
      unfolding timerb1_interrupt_def Let_def s1_def [symmetric] k1 [symmetric]
      by (simp add: e er' round_view_begin_rx del: radio_start_tx_eq split: tb_source.split)
  qed
qed

lemma off_interrupt:
  assumes "gl_status s = GLOSSY_STATUS_OFF"
  shows "gl_status (snd (timerb1_interrupt q s)) = GLOSSY_STATUS_OFF"
  using assms by (simp add: timerb1_interrupt_def Let_def split: tb_source.split)

text \<open>What happens in the air between two calls of the scheduler.\<close>

definition in_the_air :: "gl_event list \<Rightarrow> bool" where
  "in_the_air evs \<longleftrightarrow> list_all (\<lambda>ev. ev = Gl_Rx_Timeout \<or> (\<exists>q. ev = Gl_Irq q)) evs"

lemma round_view_air:
  "in_the_air evs \<Longrightarrow> gl_sync s = 0 \<or> gl_status s = GLOSSY_STATUS_OFF \<Longrightarrow>
   round_view (foldl gl_step s evs) = round_view s \<and>
   (gl_status s = GLOSSY_STATUS_OFF \<longrightarrow> gl_status (foldl gl_step s evs) = GLOSSY_STATUS_OFF)"
proof (induction evs arbitrary: s)
  case (Cons ev evs)
  have st: "round_view (gl_step s ev) = round_view s"
    "gl_status s = GLOSSY_STATUS_OFF \<Longrightarrow> gl_status (gl_step s ev) = GLOSSY_STATUS_OFF"
    using Cons.prems round_view_interrupt off_interrupt by (auto simp: in_the_air_def)
  then have "gl_sync (gl_step s ev) = 0 \<or> gl_status (gl_step s ev) = GLOSSY_STATUS_OFF"
    using Cons.prems(2) by (auto simp: round_view_def)
  with Cons.IH [OF _ this] Cons.prems(1) st show ?case
    by (auto simp: in_the_air_def)
qed simp


section \<open>One call of the scheduler\<close>

definition wake :: "gl_event list \<Rightarrow> sched_env \<Rightarrow> sched \<Rightarrow> sched" where
  "wake evs e s = glossy_scheduler e (s\<lparr>gs_gl := foldl gl_step (gs_gl s) evs, gs_rt := called (gs_timer s) (gs_rt s)\<rparr>)"

text \<open>The sink's and the other nodes' states of the protothread in the reporting phase.\<close>

definition pc_start :: "bool \<Rightarrow> sched_pc" where "pc_start sink = (if sink then Sink_Report_Start else Node_Report_Start)"
definition pc_stop :: "bool \<Rightarrow> sched_pc" where "pc_stop sink = (if sink then Sink_Report_Stop else Node_Report_Stop)"
definition pc_end :: "bool \<Rightarrow> sched_pc" where "pc_end sink = (if sink then Sink_Period else Node_Period)"

text \<open>The timer's task is pending and due at a counter value.\<close>

definition due_at :: "rtimer_clock_t \<Rightarrow> sched \<Rightarrow> bool" where
  "due_at t s \<longleftrightarrow> rs_next (gs_rt s) = Some (gs_timer s) \<and> rs_taccr0 (gs_rt s) = t \<and> timer_time s = t \<and>
     rt_overflows (rs_mem (gs_rt s) (gs_timer s)) = 0"

lemma timer_set_due: "rs_next (gs_rt s) = None \<Longrightarrow> due_at t (timer_set_at s t)"
  by (simp add: due_at_def timer_set_at_def rtimer_set_def rtimer_arch_schedule_def timer_time_def)

lemma called_free [simp]: "rs_next (called t s) = None"
  by (simp add: called_def)

text \<open>Between two rounds: Glossy is off, round \<open>k\<close> is next.\<close>

type_synonym frame_t = "int \<times> rtimer_clock_t \<times> u8 \<times> u8 \<times> u8 \<times> ptr \<times> bool"

definition frame :: "sched \<Rightarrow> frame_t" where
  "frame s = (gs_period_skew s, gs_t_ref_l_old s, gs_sync_missed s, gs_skew_estimated s, gl_t_ref_l_updated (gs_gl s), gs_timer s,
     rs_ccie (gs_rt s))"

text \<open>All rounds are over, before the phase is ended.\<close>

definition rounds_over :: "rtimer_clock_t \<Rightarrow> frame_t \<Rightarrow> nat \<Rightarrow> sched \<Rightarrow> bool" where
  "rounds_over r f k s \<longleftrightarrow> get_t_ref_l (gs_gl s) = r \<and> frame s = f \<and> rs_next (gs_rt s) = None \<and>
     (0 < k \<longrightarrow> rs_tar (gs_rt s) = r + of_nat k * 381 + 218)"

definition ended :: "bool \<Rightarrow> sched_env \<Rightarrow> sched \<Rightarrow> sched" where
  "ended sink e s = (if sink then sink_end e s else node_end e s)"

definition between :: "bool \<Rightarrow> u8 list \<Rightarrow> rtimer_clock_t \<Rightarrow> frame_t \<Rightarrow> nat \<Rightarrow> sched \<Rightarrow> bool" where
  "between sink sch r f k s \<longleftrightarrow> gs_schedule s = sch \<and> get_t_ref_l (gs_gl s) = r \<and> gl_status (gs_gl s) = GLOSSY_STATUS_OFF \<and>
     unat (gs_report_idx s) = k \<and>
     (if k < length sch then gs_pc s = pc_start sink \<and> due_at (r + of_nat (k + 1) * 381) s \<and> frame s = f
      else gs_pc s = pc_end sink \<and> (\<exists>e t. s = ended sink e t \<and> rounds_over r f k t))"

text \<open>During round \<open>k\<close>.\<close>

definition during :: "bool \<Rightarrow> u8 list \<Rightarrow> rtimer_clock_t \<Rightarrow> frame_t \<Rightarrow> nat \<Rightarrow> bool \<Rightarrow> sched \<Rightarrow> bool" where
  "during sink sch r f k own s \<longleftrightarrow> gs_schedule s = sch \<and> frame s = f \<and> get_t_ref_l (gs_gl s) = r \<and> gl_sync (gs_gl s) = 0 \<and>
     unat (gs_report_idx s) = k \<and> gs_pc s = pc_stop sink \<and> (gl_initiator (gs_gl s) \<noteq> 0 \<longleftrightarrow> own) \<and>
     due_at (r + of_nat (k + 1) * 381 + 218) s"

lemma start_view:
  "round_view (glossy_start mem now tbr data data_len initiator 0 tx_max on s) =
     (0, initiator, gl_t_ref_l s, gl_t_ref_l_updated s)"
proof -
  have v: "round_view (glossy_setup mem data data_len i 0 tx_max on s) = (0, i, gl_t_ref_l s, gl_t_ref_l_updated s)" for i on
    by (simp add: round_view_def glossy_setup_def Let_def set_byte_def data_to_packet_def)
  show ?thesis
    by (simp add: glossy_start_def Let_def v)
qed

lemma start_updated: "gl_t_ref_l_updated (glossy_start mem now tbr data data_len initiator 0 tx_max on s) = gl_t_ref_l_updated s"
  using start_view [of mem now tbr data data_len initiator tx_max on s] by (simp add: round_view_def)

lemma stop_view:
  "round_view (snd (glossy_stop now s)) = round_view s" "gl_status (snd (glossy_stop now s)) = GLOSSY_STATUS_OFF"
  by (simp_all add: glossy_stop_def Let_def)

lemma unat_ucast_8_16: "unat (ucast (x :: u8) :: u16) = unat x"
  by (simp add: unsigned_ucast_eq take_bit_nat_eq_self less_trans [OF unat8_less])

lemma report_time_idx:
  "unat (gs_report_idx s) = k \<Longrightarrow> report_time s = get_t_ref_l (gs_gl s) + of_nat (k + 1) * 381"
proof -
  assume k: "unat (gs_report_idx s) = k"
  have "(ucast (gs_report_idx s) :: u16) = of_nat k"
    using k by auto
  moreover have "GLOSSY_DURATION + GLOSSY_GAP = 381"
    by code_simp
  ultimately show ?thesis
    by (simp add: report_time_def GLOSSY_REFERENCE_TIME_def add.commute)
qed

text \<open>What the end of a phase leaves alone.\<close>

lemma phase_end_keeps [simp]:
  "gs_schedule (phase_end e s) = gs_schedule s" "gl_t_ref_l (gs_gl (phase_end e s)) = gl_t_ref_l (gs_gl s)"
  "gl_status (gs_gl (phase_end e s)) = gl_status (gs_gl s)" "gs_report_idx (phase_end e s) = gs_report_idx s"
  by (simp_all add: phase_end_def mac_on_def start_mac_energest_def glossy_enable_other_interrupts_def)

lemma sched_keeps [simp]:
  "gs_gl (timer_set_at s t) = gs_gl s" "gs_gl (timer_set_long s t off) = gs_gl s" "gs_gl (estimate_period_skew s) = gs_gl s"
  "gs_gl (apply_config s) = gs_gl s" "gs_gl (node_next s) = gs_gl s"
  "gs_schedule (timer_set_at s t) = gs_schedule s" "gs_schedule (timer_set_long s t off) = gs_schedule s"
  "gs_schedule (estimate_period_skew s) = gs_schedule s" "gs_schedule (apply_config s) = gs_schedule s" "gs_schedule (node_next s) = gs_schedule s"
  "gs_report_idx (timer_set_at s t) = gs_report_idx s" "gs_report_idx (timer_set_long s t off) = gs_report_idx s"
  "gs_report_idx (estimate_period_skew s) = gs_report_idx s" "gs_report_idx (apply_config s) = gs_report_idx s"
  "gs_report_idx (node_next s) = gs_report_idx s"
  by (simp_all add: timer_set_at_def timer_set_long_def estimate_period_skew_def Let_def apply_config_def node_next_def)

lemma end_keeps:
  "gs_schedule (node_end e s) = gs_schedule s" "gs_schedule (sink_end e s) = gs_schedule s"
  "gl_t_ref_l (gs_gl (node_end e s)) = gl_t_ref_l (gs_gl s)" "gl_t_ref_l (gs_gl (sink_end e s)) = gl_t_ref_l (gs_gl s)"
  "gl_status (gs_gl (node_end e s)) = gl_status (gs_gl s)" "gl_status (gs_gl (sink_end e s)) = gl_status (gs_gl s)"
  "gs_report_idx (node_end e s) = gs_report_idx s" "gs_report_idx (sink_end e s) = gs_report_idx s"
  "gs_pc (node_end e s) = Node_Period" "gs_pc (sink_end e s) = Sink_Period"
  by (simp_all add: node_end_def sink_end_def Let_def)

lemma frame_timer: "frame ((timer_set_at s t)\<lparr>gs_pc := p\<rparr>) = frame s"
  by (simp add: frame_def timer_set_at_def rtimer_set_def rtimer_arch_schedule_def Let_def)

lemma head_between:
  assumes "rs_next (gs_rt s) = None" and "gl_status (gs_gl s) = GLOSSY_STATUS_OFF" and "unat (gs_report_idx s) = k"
    and "0 < k \<longrightarrow> rs_tar (gs_rt s) = get_t_ref_l (gs_gl s) + of_nat k * 381 + 218"
  shows "between sink (gs_schedule s) (get_t_ref_l (gs_gl s)) (frame s) k (if sink then sink_report e s else node_report e s)"
proof (cases "k < length (gs_schedule s)")
  case True
  have "due_at (get_t_ref_l (gs_gl s) + of_nat (k + 1) * 381) (timer_set_at s (report_time s))"
    unfolding report_time_idx [OF assms(3)] by (rule timer_set_due [OF assms(1)])
  then have d: "due_at (get_t_ref_l (gs_gl s) + of_nat (k + 1) * 381) ((timer_set_at s (report_time s))\<lparr>gs_pc := p\<rparr>)" for p
    by (simp add: due_at_def timer_time_def)
  with True assms frame_timer [where s = s] show ?thesis
    by (simp add: between_def node_report_def sink_report_def pc_start_def)
next
  case False
  then have e: "(if sink then sink_report e s else node_report e s) = ended sink e s"
    using assms(3) by (simp add: ended_def node_report_def sink_report_def)
  have "rounds_over (get_t_ref_l (gs_gl s)) (frame s) k s"
    using assms by (simp add: rounds_over_def)
  then show ?thesis
    unfolding e between_def using False assms by (auto simp: ended_def end_keeps get_t_ref_l_def pc_end_def)
qed

lemma frame_air:
  assumes "round_view (foldl gl_step (gs_gl s) evs) = round_view (gs_gl s)"
  shows "frame (s\<lparr>gs_gl := foldl gl_step (gs_gl s) evs, gs_rt := called (gs_timer s) (gs_rt s)\<rparr>) = frame s"
  using assms by (simp add: frame_def round_view_def called_def)

lemma between_during:
  assumes b: "between sink sch r f k s" and k: "k < length sch" and air: "in_the_air evs"
  shows "during sink sch r f k (\<not> sink \<and> u8_0 (se_me e) = sch ! k) (wake evs e s)"
proof -
  define s0 where "s0 = s\<lparr>gs_gl := foldl gl_step (gs_gl s) evs, gs_rt := called (gs_timer s) (gs_rt s)\<rparr>"
  have "round_view (foldl gl_step (gs_gl s) evs) = round_view (gs_gl s)"
    using round_view_air [OF air] b by (simp add: between_def)
  then have s0: "gs_schedule s0 = sch" "gl_t_ref_l (gs_gl s0) = r" "unat (gs_report_idx s0) = k" "rs_next (gs_rt s0) = None"
    "gs_pc s0 = pc_start sink" "frame s0 = f"
    using b k frame_air [of s evs] by (simp_all add: s0_def between_def round_view_def get_t_ref_l_def)
  have fin: "during sink sch r f k own ((timer_set_at s2 (report_time s2 + GLOSSY_DURATION))\<lparr>gs_pc := pc_stop sink\<rparr>)"
    if "round_view (gs_gl s2) = (0, i, gl_t_ref_l (gs_gl s0), u)" "i \<noteq> 0 \<longleftrightarrow> own" "gs_schedule s2 = gs_schedule s0"
      "gs_report_idx s2 = gs_report_idx s0" "gs_rt s2 = gs_rt s0" "frame s2 = frame s0" for s2 own i u
  proof -
    have v: "gl_sync (gs_gl s2) = 0" "gl_initiator (gs_gl s2) = i" "get_t_ref_l (gs_gl s2) = r"
      using that(1) s0 by (simp_all add: round_view_def get_t_ref_l_def)
    have "unat (gs_report_idx s2) = k"
      using that(4) s0 by simp
    note rt = report_time_idx [OF this]
    have "report_time s2 + GLOSSY_DURATION = r + of_nat (k + 1) * 381 + 218"
      unfolding rt v by (simp add: GLOSSY_DURATION_def)
    moreover have "due_at t (timer_set_at s2 t)" for t
      by (rule timer_set_due) (simp add: that(5) s0)
    ultimately show ?thesis
      using that v s0 frame_timer [where s = s2] by (simp add: during_def due_at_def timer_time_def)
  qed
  obtain s2 i u where w: "wake evs e s = (timer_set_at s2 (report_time s2 + GLOSSY_DURATION))\<lparr>gs_pc := pc_stop sink\<rparr>"
    and v: "round_view (gs_gl s2) = (0, i, gl_t_ref_l (gs_gl s0), u)" "i \<noteq> 0 \<longleftrightarrow> \<not> sink \<and> u8_0 (se_me e) = sch ! k"
      "gs_schedule s2 = gs_schedule s0" "gs_report_idx s2 = gs_report_idx s0" "gs_rt s2 = gs_rt s0" "frame s2 = frame s0"
  proof (cases sink)
    case True
    define s2 where "s2 = s0\<lparr>gs_gl := glossy_start (se_mem e) (se_now e) (se_tbr e) (report_bytes (rp_report (gs_report s0 ! unat (gs_report_idx s0))))
                  GLOSSY_REPORT_LEN 0 0 GLOSSY_N True (gs_gl s0)\<rparr>"
    have "wake evs e s = sink_report_start e s0"
      using s0 True by (simp add: wake_def s0_def [symmetric] glossy_scheduler_def pc_start_def)
    then have "wake evs e s = (timer_set_at s2 (report_time s2 + GLOSSY_DURATION))\<lparr>gs_pc := pc_stop sink\<rparr>"
      unfolding sink_report_start_def Let_def s2_def [symmetric] pc_stop_def if_P [OF True] .
    then show ?thesis
      by (rule that) (simp_all add: s2_def start_view True frame_def start_updated)
  next
    case False
    define s1 where "s1 = (if u8_0 (se_me e) = gs_schedule s0 ! unat (gs_report_idx s0)
      then s0\<lparr>gs_report_data := \<lparr>gr_pkt_rate = gs_data_rate s0, gr_prr = se_prr e, gr_node_id = u8_0 (se_me e), gr_parent_id = gs_parent_id s0\<rparr>\<rparr>
      else s0)"
    define s2 where "s2 = s1\<lparr>gs_gl := glossy_start (se_mem e) (se_now e) (se_tbr e) (report_bytes (gs_report_data s1)) GLOSSY_REPORT_LEN
                     (if u8_0 (se_me e) = gs_schedule s0 ! unat (gs_report_idx s0) then 1 else 0) 0 GLOSSY_N True (gs_gl s1)\<rparr>"
    have "wake evs e s = node_report_start e s0"
      using s0 False by (simp add: wake_def s0_def [symmetric] glossy_scheduler_def pc_start_def)
    then have "wake evs e s = (timer_set_at s2 (report_time s2 + GLOSSY_DURATION))\<lparr>gs_pc := pc_stop sink\<rparr>"
      unfolding node_report_start_def Let_def s1_def [symmetric] s2_def [symmetric] pc_stop_def if_not_P [OF False] .
    then show ?thesis
      by (rule that [where i = "if u8_0 (se_me e) = gs_schedule s0 ! unat (gs_report_idx s0) then 1 else 0"])
        (simp_all add: s2_def s1_def start_view False s0 frame_def start_updated)
  qed
  show ?thesis
    unfolding w by (rule fin [OF v])
qed

lemma during_between:
  assumes d: "during sink sch r f k own s" and k: "k < length sch" "length sch < 256" and air: "in_the_air evs"
  shows "between sink sch r f (Suc k) (wake evs e s)"
proof -
  define s0 where "s0 = s\<lparr>gs_gl := foldl gl_step (gs_gl s) evs, gs_rt := called (gs_timer s) (gs_rt s)\<rparr>"
  have "round_view (foldl gl_step (gs_gl s) evs) = round_view (gs_gl s)"
    using round_view_air [OF air] d by (simp add: during_def)
  then have s0: "gs_schedule s0 = sch" "get_t_ref_l (gs_gl s0) = r" "unat (gs_report_idx s0) = k" "rs_next (gs_rt s0) = None"
    "gs_pc s0 = pc_stop sink" "frame s0 = f"
    using d k frame_air [of s evs] by (simp_all add: s0_def during_def round_view_def get_t_ref_l_def)
  have tar: "rs_tar (gs_rt s0) = r + of_nat (Suc k) * 381 + 218"
    using d by (simp add: s0_def called_def during_def due_at_def)
  have idx: "unat (gs_report_idx s0 + 1) = Suc k"
    using s0(3) k by (simp add: unat_word_ariths)
  define g where "g = snd (glossy_stop (se_now e 6) (gs_gl s0))"
  have g: "gl_status g = GLOSSY_STATUS_OFF" "get_t_ref_l g = r" "gl_t_ref_l_updated g = gl_t_ref_l_updated (gs_gl s0)"
    using stop_view [of "se_now e 6" "gs_gl s0"] s0 by (simp_all add: g_def round_view_def get_t_ref_l_def)
  show ?thesis
  proof (cases sink)
    case True
    define s2 where "s2 = s0\<lparr>gs_gl := g,
            gs_report := (gs_report s0)[unat (gs_report_idx s0) := \<lparr>rp_report = bytes_report (gl_data (gs_gl s0)),
              rp_received = fst (glossy_stop (se_now e 6) (gs_gl s0))\<rparr>],
            gs_report_idx := gs_report_idx s0 + 1\<rparr>"
    have "wake evs e s = sink_report e s2"
      using s0 True by (simp add: wake_def s0_def [symmetric] glossy_scheduler_def pc_stop_def sink_report_stop_def s2_def g_def split: prod.split)
    moreover have "rs_next (gs_rt s2) = None" "gl_status (gs_gl s2) = GLOSSY_STATUS_OFF" "unat (gs_report_idx s2) = Suc k"
      "gs_schedule s2 = sch" "get_t_ref_l (gs_gl s2) = r" "frame s2 = f" "rs_tar (gs_rt s2) = r + of_nat (Suc k) * 381 + 218"
      using s0 g idx tar by (simp_all add: s2_def frame_def)
    ultimately show ?thesis
      using head_between [of s2 "Suc k" sink e] True by simp
  next
    case False
    define s2 where "s2 = s0\<lparr>gs_gl := g, gs_report_data := bytes_report (gl_data (gs_gl s0)), gs_report_idx := gs_report_idx s0 + 1\<rparr>"
    have "wake evs e s = node_report e s2"
      using s0 False by (simp add: wake_def s0_def [symmetric] glossy_scheduler_def pc_stop_def node_report_stop_def s2_def g_def split: prod.split)
    moreover have "rs_next (gs_rt s2) = None" "gl_status (gs_gl s2) = GLOSSY_STATUS_OFF" "unat (gs_report_idx s2) = Suc k"
      "gs_schedule s2 = sch" "get_t_ref_l (gs_gl s2) = r" "frame s2 = f" "rs_tar (gs_rt s2) = r + of_nat (Suc k) * 381 + 218"
      using s0 g idx tar by (simp_all add: s2_def frame_def)
    ultimately show ?thesis
      using head_between [of s2 "Suc k" sink e] False by simp
  qed
qed

section \<open>The reporting phase\<close>

text \<open>The state after the calls of the scheduler, with what happens in the air before each of them.\<close>

definition wakes :: "(gl_event list \<times> sched_env) list \<Rightarrow> sched \<Rightarrow> sched" where
  "wakes ws s = foldl (\<lambda>s (evs, e). wake evs e s) s ws"

definition wakes_ok :: "rimeaddr \<Rightarrow> (gl_event list \<times> sched_env) list \<Rightarrow> bool" where
  "wakes_ok me ws \<longleftrightarrow> (\<forall>(evs, e) \<in> set ws. in_the_air evs \<and> se_me e = me)"

lemma wakes_take_Suc: "j < length ws \<Longrightarrow> wakes (take (Suc j) ws) s = wake (fst (ws ! j)) (snd (ws ! j)) (wakes (take j ws) s)"
  by (simp add: wakes_def take_Suc_conv_app_nth case_prod_beta)

lemma wakes_ok_nth: "wakes_ok me ws \<Longrightarrow> j < length ws \<Longrightarrow> in_the_air (fst (ws ! j)) \<and> se_me (snd (ws ! j)) = me"
  using nth_mem [of j ws] by (auto simp: wakes_ok_def case_prod_beta)

lemma rounds:
  assumes b: "between sink sch r f 0 s" and ok: "wakes_ok me ws" and n: "length sch < 256" and l: "length ws = 2 * length sch"
  shows "k \<le> length sch \<Longrightarrow> between sink sch r f k (wakes (take (2 * k) ws) s) \<and>
    (k < length sch \<longrightarrow> during sink sch r f k (\<not> sink \<and> u8_0 me = sch ! k) (wakes (take (2 * k + 1) ws) s))"
proof (induction k)
  case 0
  show ?case
    using b wakes_take_Suc [of 0 ws s] wakes_ok_nth [OF ok, of 0] between_during [OF b, of "fst (ws ! 0)" "snd (ws ! 0)"] l
    by (auto simp: wakes_def)
next
  case (Suc k)
  then have k: "k < length sch" and d: "during sink sch r f k (\<not> sink \<and> u8_0 me = sch ! k) (wakes (take (2 * k + 1) ws) s)"
    by auto
  have j1: "2 * k + 1 < length ws"
    using k l by simp
  have b1: "between sink sch r f (Suc k) (wakes (take (2 * Suc k) ws) s)"
    using during_between [OF d k n] wakes_ok_nth [OF ok j1] wakes_take_Suc [OF j1, of s] by simp
  have "during sink sch r f (Suc k) (\<not> sink \<and> u8_0 me = sch ! Suc k) (wakes (take (2 * Suc k + 1) ws) s)" if "Suc k < length sch"
  proof -
    have j2: "2 * Suc k < length ws"
      using that l by simp
    show ?thesis
      using between_during [OF b1 that] wakes_ok_nth [OF ok j2] wakes_take_Suc [OF j2, of s] by (metis Suc_eq_plus1)
  qed
  with b1 show ?case
    by simp
qed

text \<open>
  When the configuration flood is over, a node or sink that has bootstrapped goes on to the first round, with a
  reference time in any case: one that it has heard or one that it extrapolates.
\<close>

definition synced_or_missed :: "bool \<Rightarrow> sched \<Rightarrow> sched" where
  "synced_or_missed sink s =
     (if sink then
        (if \<not> GLOSSY_IS_SYNCED s then s\<lparr>gs_gl := set_t_ref_l_updated 1 (set_t_ref_l (GLOSSY_REFERENCE_TIME s + ucast GLOSSY_PERIOD) (gs_gl s))\<rparr>
         else s)
      else if \<not> GLOSSY_IS_SYNCED s
      then s\<lparr>gs_gl := set_t_ref_l_updated 1
               (set_t_ref_l (GLOSSY_REFERENCE_TIME s + ucast GLOSSY_PERIOD + word_of_int (gs_period_skew s)) (gs_gl s)),
             gs_sync_missed := gs_sync_missed s + 1\<rparr>
      else s\<lparr>gs_sync_missed := 0\<rparr>)"

definition configured :: "bool \<Rightarrow> sched_env \<Rightarrow> sched \<Rightarrow> sched" where
  "configured sink e s = (synced_or_missed sink (stop_config e s))\<lparr>gs_report_idx := 0\<rparr>"

lemma config_between:
  assumes "\<not> GLOSSY_IS_BOOTSTRAPPING s" and "rs_next (gs_rt s) = None"
  shows "between sink (gs_schedule s) (get_t_ref_l (gs_gl (configured sink e s))) (frame (configured sink e s)) 0
    (if sink then sink_config e s else node_config e s)"
proof -
  have boot: "\<not> GLOSSY_IS_BOOTSTRAPPING (stop_config e s)"
    using assms by (simp add: stop_config_def GLOSSY_IS_BOOTSTRAPPING_def split: prod.split)
  then have c: "(if sink then sink_config e s else node_config e s) =
      (if sink then sink_report e (configured sink e s) else node_report e (configured sink e s))"
    by (simp add: sink_config_def node_config_def Let_def configured_def synced_or_missed_def)
  have "gl_status (gs_gl (stop_config e s)) = GLOSSY_STATUS_OFF" "gs_rt (stop_config e s) = gs_rt s" "gs_schedule (stop_config e s) = gs_schedule s"
    using stop_view(2) [of "se_now e 6" "gs_gl s"] by (simp_all add: stop_config_def split: prod.split) (metis snd_conv)
  then have "rs_next (gs_rt (configured sink e s)) = None" "gl_status (gs_gl (configured sink e s)) = GLOSSY_STATUS_OFF"
    "unat (gs_report_idx (configured sink e s)) = 0" "gs_schedule (configured sink e s) = gs_schedule s"
    using assms(2) by (simp_all add: configured_def synced_or_missed_def set_t_ref_l_def set_t_ref_l_updated_def)
  with head_between [of "configured sink e s" 0 sink e] show ?thesis
    unfolding c by simp
qed

text \<open>A node (or the sink) in the configuration flood, past its bootstrap, and the calls of one reporting phase.\<close>

definition report_phase :: "bool \<Rightarrow> u8 list \<Rightarrow> rimeaddr \<Rightarrow> (gl_event list \<times> sched_env) list \<Rightarrow> sched \<Rightarrow> bool" where
  "report_phase sink sch me ws s \<longleftrightarrow>
     gs_pc s = (if sink then Sink_Config else Node_Config) \<and> \<not> GLOSSY_IS_BOOTSTRAPPING s \<and> gs_schedule s = sch \<and> length sch < 256 \<and>
     wakes_ok me ws \<and> length ws = 2 * length sch + 1"

lemma phase_rounds:
  assumes "report_phase sink sch me ws s" and "r = get_t_ref_l (gs_gl (wakes (take 1 ws) s))"
    and "f = frame (configured sink (snd (hd ws))
      (s\<lparr>gs_gl := foldl gl_step (gs_gl s) (fst (hd ws)), gs_rt := called (gs_timer s) (gs_rt s)\<rparr>))"
  shows "k \<le> length sch \<Longrightarrow> between sink sch r f k (wakes (take (2 * k + 1) ws) s)"
    "k < length sch \<Longrightarrow> during sink sch r f k (\<not> sink \<and> u8_0 me = sch ! k) (wakes (take (2 * k + 2) ws) s)"
proof -
  have h: "gs_pc s = (if sink then Sink_Config else Node_Config)" "\<not> GLOSSY_IS_BOOTSTRAPPING s" "gs_schedule s = sch" "length sch < 256"
    "wakes_ok me ws" "length ws = 2 * length sch + 1"
    using assms(1) by (simp_all add: report_phase_def)
  obtain w ws' where ws: "ws = w # ws'"
    using h(6) by (cases ws) simp_all
  define s1 where "s1 = wakes (take 1 ws) s"
  have s1: "s1 = wake (fst w) (snd w) s"
    by (simp add: s1_def ws wakes_def case_prod_beta)
  define s0 where "s0 = s\<lparr>gs_gl := foldl gl_step (gs_gl s) (fst w), gs_rt := called (gs_timer s) (gs_rt s)\<rparr>"
  have "\<not> GLOSSY_IS_BOOTSTRAPPING s0" "rs_next (gs_rt s0) = None" "gs_schedule s0 = sch"
    using h by (simp_all add: s0_def GLOSSY_IS_BOOTSTRAPPING_def)
  moreover have r: "r = get_t_ref_l (gs_gl s1)"
    unfolding assms(2) s1_def ..
  moreover have s1e: "s1 = (if sink then sink_config (snd w) s0 else node_config (snd w) s0)"
    using h(1) by (simp add: s1 wake_def glossy_scheduler_def s0_def)
  moreover have "f = frame (configured sink (snd w) s0)"
    by (simp add: assms(3) ws s0_def)
  ultimately have c: "between sink sch (get_t_ref_l (gs_gl (configured sink (snd w) s0))) f 0 s1"
    using config_between [of s0 sink "snd w"] by simp
  then have "r = get_t_ref_l (gs_gl (configured sink (snd w) s0))"
    unfolding r by (simp add: between_def)
  with c have b: "between sink sch r f 0 s1"
    by (simp only:)
  have t: "wakes (take (Suc j) ws) s = wakes (take j ws') s1" for j
    by (simp add: ws s1_def wakes_def)
  have "wakes_ok me ws'" "length ws' = 2 * length sch"
    using h(5,6) by (simp_all add: ws wakes_ok_def)
  from rounds [OF b this(1) h(4) this(2), of k]
  show "k \<le> length sch \<Longrightarrow> between sink sch r f k (wakes (take (2 * k + 1) ws) s)"
    "k < length sch \<Longrightarrow> during sink sch r f k (\<not> sink \<and> u8_0 me = sch ! k) (wakes (take (2 * k + 2) ws) s)"
    by (simp_all add: t)
qed

text \<open>C6: The reporting phase of a node that has bootstrapped: after the configuration flood there is one round for each node of the
  schedule; round \<open>k\<close> starts \<open>(k + 1) * 381\<close> ticks after the reference time and is stopped 218 ticks later; in it the node is the
  initiator if and only if the schedule names it (the sink never is), and it does not synchronise; whatever interrupts Glossy gets
  in the meantime, the reference time stays the same until all rounds are over and the MAC protocol takes over.\<close>

theorem reporting_phase:
  assumes "report_phase sink sch me ws s" and "k < length sch" and "r = GLOSSY_REFERENCE_TIME (wakes (take 1 ws) s)"
    and "a = wakes (take (2 * k + 1) ws) s" and "b = wakes (take (2 * k + 2) ws) s"
  shows "due_at (r + of_nat (k + 1) * 381) a \<and> get_glossy_status (gs_gl a) = GLOSSY_STATUS_OFF \<and>
    gs_pc a = (if sink then Sink_Report_Start else Node_Report_Start) \<and>
    due_at (r + of_nat (k + 1) * 381 + 218) b \<and> gl_sync (gs_gl b) = 0 \<and> (gl_initiator (gs_gl b) \<noteq> 0 \<longleftrightarrow> \<not> sink \<and> u8_0 me = sch ! k) \<and>
    gs_pc b = (if sink then Sink_Report_Stop else Node_Report_Stop) \<and>
    gs_pc (wakes ws s) = (if sink then Sink_Period else Node_Period) \<and> GLOSSY_REFERENCE_TIME (wakes ws s) = r"
proof -
  have r: "r = get_t_ref_l (gs_gl (wakes (take 1 ws) s))"
    by (simp add: assms(3) GLOSSY_REFERENCE_TIME_def)
  note p = phase_rounds [OF assms(1) r refl]
  obtain f where "between sink sch r f (length sch) (wakes ws s)"
    using p(1) [of "length sch"] assms(1) by (simp add: report_phase_def)
  with p(1) [of k] p(2) [OF assms(2)] assms(2) show ?thesis
    by (simp add: assms(4,5) between_def during_def get_glossy_status_def pc_start_def pc_stop_def pc_end_def GLOSSY_REFERENCE_TIME_def)
qed

text \<open>A node after its bootstrap, waiting for the configuration.\<close>

definition gs_node :: sched where
  "gs_node = \<lparr>gs_pc = Node_Config, gs_gl = set_t_ref_l 20000 gl_receiver, gs_rt = snd (rtimer_set rs_start 1 400 0 None), gs_en = en_boot,
     gs_config = \<lparr>cf_t_l = 197, cf_t_s = 3277, cf_n = 3, gc_seq_no = 0\<rparr>, gs_report_data = \<lparr>gr_pkt_rate = 0, gr_prr = 0, gr_node_id = 0, gr_parent_id = 0\<rparr>,
     gs_new_cfg = \<lparr>cf_t_l = 0, cf_t_s = 0, cf_n = 0\<rparr>, gs_current_cfg = \<lparr>cf_t_l = 197, cf_t_s = 3277, cf_n = 3\<rparr>, gs_data_rate = 30,
     gs_period_skew = -2, gs_parent_id = 4, gs_report = [], gs_config_seq_no = 0, gs_t_ref_l_old = 20002, gs_skew_estimated = 3,
     gs_config_received = 1, gs_sync_missed = 0, gs_report_idx = 0, gs_t_start = 0, gs_mac = [Mac_Off], gs_polled = [],
     gs_schedule = schedule_sics, gs_timer = 1\<rparr>"

definition env_node :: "u8 \<Rightarrow> sched_env" where
  "env_node me = \<lparr>se_me = (Rimeaddr me 0), se_mem = (\<lambda>_. 0), se_now = (\<lambda>_. 500), se_tbr = 600, se_prr = 9000\<rparr>"

lemma gs_node_phase: "report_phase False schedule_sics (Rimeaddr me 0) (replicate 47 ([Gl_Irq irq_end], env_node me)) gs_node"
  by (simp add: report_phase_def gs_node_def GLOSSY_IS_BOOTSTRAPPING_def GLOSSY_BOOTSTRAP_PERIODS_def wakes_ok_def env_node_def in_the_air_def)
    (simp add: schedule_sics_def)

theorem reporting_phase_witness:
  "gl_initiator (gs_gl (wakes (replicate 4 ([Gl_Irq irq_end], env_node 5)) gs_node)) \<noteq> 0 \<and>
   gs_pc (wakes (replicate 47 ([Gl_Irq irq_end], env_node 5)) gs_node) = Node_Period"
proof -
  have "1 < length schedule_sics" "schedule_sics ! 1 = 5"
    by (simp_all add: schedule_sics_def)
  from reporting_phase [OF gs_node_phase this(1) refl refl refl, of 5] this(2) show ?thesis
    by simp
qed

lemma schedules_distinct: "distinct schedule_ethz" "distinct schedule_sics"
  by (simp_all add: schedule_ethz_def schedule_sics_def)

text \<open>C7: No two reports collide, and none is forgotten: in both deployments a node of the schedule is the initiator of
  exactly one round, and two nodes with different addresses never initiate in the same round.\<close>

theorem one_initiator:
  assumes "sch = schedule_ethz \<or> sch = schedule_sics" and "report_phase False sch me ws s" and "report_phase False sch me' ws' s'"
    and "u8_0 me \<in> set sch" and "u8_0 me' \<noteq> u8_0 me"
    and "\<And>k. init k = (gl_initiator (gs_gl (wakes (take (2 * k + 2) ws) s)) \<noteq> 0)"
    and "\<And>k. init' k = (gl_initiator (gs_gl (wakes (take (2 * k + 2) ws') s')) \<noteq> 0)"
  shows "(\<exists>!k. k < length sch \<and> init k) \<and> \<not> (\<exists>k < length sch. init k \<and> init' k)"
proof -
  have i: "init k \<longleftrightarrow> u8_0 me = sch ! k" "init' k \<longleftrightarrow> u8_0 me' = sch ! k" if "k < length sch" for k
    using phase_rounds(2) [OF assms(2) refl refl that] phase_rounds(2) [OF assms(3) refl refl that] by (simp_all add: assms(6,7) during_def)
  have "distinct sch"
    using assms(1) schedules_distinct by auto
  then have "\<exists>!k. k < length sch \<and> sch ! k = u8_0 me"
    using distinct_Ex1 [OF _ assms(4)] by simp
  then have "\<exists>!k. k < length sch \<and> init k"
    using i(1) by metis
  moreover have "\<not> (\<exists>k < length sch. init k \<and> init' k)"
    using i assms(5) by metis
  ultimately show ?thesis
    by blast
qed

theorem one_initiator_witness:
  "\<exists>!k. k < length schedule_sics \<and> gl_initiator (gs_gl (wakes (take (2 * k + 2) (replicate 47 ([Gl_Irq irq_end], env_node 13))) gs_node)) \<noteq> 0"
proof -
  have "u8_0 (Rimeaddr 13 0) \<in> set schedule_sics" "u8_0 (Rimeaddr 5 0) \<noteq> u8_0 (Rimeaddr 13 0)"
    by (simp_all add: schedule_sics_def)
  from one_initiator [OF disjI2 [OF refl] gs_node_phase gs_node_phase this refl refl] show ?thesis
    by blast
qed

end
