(* ===== verification/Glossy_Sched_Props.thy ===== *)
theory Glossy_Sched_Props
  imports Glossy_Rounds
begin

text \<open>
  The properties of the Glossy phases: a flooded configuration arrives as the sink set it, the reporting rounds follow
  one another at the right times with one initiator each, the clock skew is estimated exactly and the node is
  woken in time for the next phase, and the bootstrap.
\<close>

section \<open>The structures as bytes\<close>

lemma config_roundtrip: "bytes_config (config_bytes c) = c"
  by (simp add: bytes_config_def config_bytes_def le16_def of_le16_bytes)

lemma report_roundtrip: "bytes_report (report_bytes r) = r"
  by (simp add: bytes_report_def report_bytes_def le16_def of_le16_bytes)

lemma bytes_config_take: "take 6 b = take 6 b' \<Longrightarrow> 6 \<le> length b \<Longrightarrow> 6 \<le> length b' \<Longrightarrow> bytes_config b = bytes_config b'"
proof -
  assume t: "take 6 b = take 6 b'" and l: "6 \<le> length b" "6 \<le> length b'"
  have "b ! i = b' ! i" if "i < 6" for i
    using t that by (metis nth_take)
  then show ?thesis
    by (simp add: bytes_config_def)
qed

section \<open>The configuration\<close>

lemma gs_simps [simp]:
  "gs_config (timer_set_at s t) = gs_config s" "gs_config (timer_set_long s t off) = gs_config s"
  "gs_config (estimate_period_skew s) = gs_config s" "gs_config (apply_config s) = gs_config s" "gs_config (phase_end e s) = gs_config s"
  "gs_config (node_next s) = gs_config s"
  "gs_config_seq_no (timer_set_at s t) = gs_config_seq_no s" "gs_config_seq_no (timer_set_long s t off) = gs_config_seq_no s"
  "gs_config_seq_no (estimate_period_skew s) = gs_config_seq_no s" "gs_config_seq_no (node_next s) = gs_config_seq_no s"
  "gs_new_cfg (phase_end e s) = gs_new_cfg s" "gs_polled (phase_end e s) = gs_polled s"
  by (simp_all add: timer_set_at_def timer_set_long_def estimate_period_skew_def Let_def apply_config_def phase_end_def mac_on_def
      start_mac_energest_def node_next_def)

lemma node_end_config:
  "gs_config (node_end e s) = gs_config s"
  "gc_seq_no (gs_config s) \<noteq> gs_config_seq_no s \<Longrightarrow>
   gs_new_cfg (node_end e s) = \<lparr>cf_t_l = cf_t_l (gs_config s), cf_t_s = cf_t_s (gs_config s), cf_n = cf_n (gs_config s)\<rparr> \<and>
   hd (gs_polled (node_end e s)) = Adaptation_Process"
  by (simp_all add: node_end_def) (simp add: apply_config_def)

lemma node_config_config:
  "gs_config (node_config e s) = bytes_config (gl_data (gs_gl s))"
  by (simp add: node_config_def stop_config_def Let_def node_report_def node_end_config split: prod.split)

text \<open>The configuration that the sink floods is the configuration that a node gets: when a node waiting in the
  configuration phase receives the packet without an error, relays it and Glossy is stopped, its configuration is the one
  whose bytes were sent; if its sequence number is new, a bootstrapping node hands it to the adaptation process at once.\<close>

theorem config_delivered:
  assumes "gs_pc s = Node_Config" and "gl_inv (gs_gl s)" and "gl_status (gs_gl s) = GLOSSY_STATUS_WAITING"
    and "gl_tx_cnt (gs_gl s) \<noteq> gl_tx_max (gs_gl s)" and "rd_txfifo (gl_radio (gs_gl s)) = []" and "gl_initiator (gs_gl s) = 0"
    and "gl_rx_cnt (gs_gl s) = 0" and "gl_data_len (gs_gl s) = GLOSSY_CONFIG_LEN"
    and "hears p q1 q2 (gs_gl s)" and "take 6 (drop 2 p) = config_bytes c" and "iq_sfd q3"
    and "g = snd (timerb1_interrupt q3 (receive q1 q2 (gs_gl s)))"
  shows "gs_config (glossy_scheduler e (s\<lparr>gs_gl := g\<rparr>)) = c \<and>
    (GLOSSY_IS_BOOTSTRAPPING s \<and> gc_seq_no c \<noteq> gs_config_seq_no s \<longrightarrow>
      gs_new_cfg (glossy_scheduler e (s\<lparr>gs_gl := g\<rparr>)) = \<lparr>cf_t_l = cf_t_l c, cf_t_s = cf_t_s c, cf_n = cf_n c\<rparr> \<and>
      hd (gs_polled (glossy_scheduler e (s\<lparr>gs_gl := g\<rparr>))) = Adaptation_Process)"
proof -
  have six: "unat (gl_data_len (gs_gl s)) = 6"
    using assms(8) by (simp add: GLOSSY_CONFIG_LEN_def)
  have "take 6 (gl_data g) = config_bytes c"
    using relay_received [OF assms(2-5,9,11,12)] assms(6,7,10) six by simp
  moreover have lc: "length (config_bytes c) = 6"
    by (simp add: config_bytes_def le16_def)
  ultimately have "bytes_config (gl_data g) = bytes_config (config_bytes c)"
    by (intro bytes_config_take) (simp_all, metis length_take min.absorb_iff2 min.commute)
  then have d: "bytes_config (gl_data g) = c"
    by (simp only: config_roundtrip)
  have sch: "glossy_scheduler e (s\<lparr>gs_gl := g\<rparr>) = node_config e (s\<lparr>gs_gl := g\<rparr>)"
    by (simp add: glossy_scheduler_def assms(1))
  have "gs_config (node_config e (s\<lparr>gs_gl := g\<rparr>)) = c"
    by (simp add: node_config_config d)
  moreover have "gs_new_cfg (node_config e (s\<lparr>gs_gl := g\<rparr>)) = \<lparr>cf_t_l = cf_t_l c, cf_t_s = cf_t_s c, cf_n = cf_n c\<rparr> \<and>
      hd (gs_polled (node_config e (s\<lparr>gs_gl := g\<rparr>))) = Adaptation_Process"
    if "GLOSSY_IS_BOOTSTRAPPING s" "gc_seq_no c \<noteq> gs_config_seq_no s"
  proof -
    define s1 where "s1 = stop_config e (s\<lparr>gs_gl := g\<rparr>)"
    define s2 where "s2 = (if \<not> GLOSSY_IS_SYNCED s1 then s1\<lparr>gs_skew_estimated := 0\<rparr> else s1)"
    have "GLOSSY_IS_BOOTSTRAPPING s1" "gs_config s2 = c" "gs_config_seq_no s2 = gs_config_seq_no s"
      using that d by (simp_all add: s2_def s1_def stop_config_def GLOSSY_IS_BOOTSTRAPPING_def split: prod.split)
    moreover from this have "node_config e (s\<lparr>gs_gl := g\<rparr>) = node_end e s2"
      unfolding node_config_def Let_def s1_def [symmetric] s2_def [symmetric] by (simp only: if_True)
    ultimately show ?thesis
      using node_end_config(2) [of s2 e] that by simp
  qed
  ultimately show ?thesis
    unfolding sch by blast
qed

text \<open>A node that is still bootstrapping, in the configuration flood.\<close>

definition gs_new :: sched where
  "gs_new = gs_node\<lparr>gs_gl := gl_receiver, gs_skew_estimated := 0\<rparr>"

theorem config_delivered_witness:
  "gs_new_cfg (glossy_scheduler (env_node 7) (gs_new\<lparr>gs_gl := snd (timerb1_interrupt irq_begin (receive irq_begin irq_end gl_receiver))\<rparr>)) =
     \<lparr>cf_t_l = 0x0201, cf_t_s = 0x0403, cf_n = 5\<rparr>"
proof -
  let ?c = "\<lparr>cf_t_l = 0x0201, cf_t_s = 0x0403, cf_n = 5, gc_seq_no = 6\<rparr>"
  have s: "gs_pc gs_new = Node_Config" "gs_gl gs_new = gl_receiver" "GLOSSY_IS_BOOTSTRAPPING gs_new" "gs_config_seq_no gs_new = 0"
    by (simp_all add: gs_new_def gs_node_def GLOSSY_IS_BOOTSTRAPPING_def GLOSSY_BOOTSTRAP_PERIODS_def)
  have "take 6 (drop 2 cfg_packet) = config_bytes ?c" "iq_sfd irq_begin" "gl_data_len gl_receiver = GLOSSY_CONFIG_LEN"
    by (simp_all add: cfg_packet_def config_bytes_def le16_def irq_begin_def gl_receiver GLOSSY_CONFIG_LEN_def)
  from config_delivered [of gs_new, unfolded s(2), OF s(1) _ _ _ _ _ _ this(3) gl_receiver_hears this(1,2) refl, of "env_node 7"]
    gl_receiver s(3,4) show ?thesis
    by simp
qed

section \<open>The clock skew and the next phase\<close>

lemma period_wraps: "(ucast GLOSSY_PERIOD :: u16) = 0" "unat GLOSSY_PERIOD = 1966080"
  by (simp_all add: GLOSSY_PERIOD_def)

lemma sint_small: "- 32768 \<le> d \<Longrightarrow> d < 32768 \<Longrightarrow> sint (word_of_int d :: u16) = d"
  by (simp add: signed_of_int signed_take_bit_int_eq_self)

lemma skew_estimated:
  assumes "GLOSSY_IS_SYNCED s" and "\<not> GLOSSY_IS_BOOTSTRAPPING s" and "get_t_ref_l (gs_gl s) = gs_t_ref_l_old s + word_of_int d"
    and "- 32768 \<le> d" and "d < 32768"
  shows "estimate_period_skew s = s\<lparr>gs_period_skew := d, gs_t_ref_l_old := get_t_ref_l (gs_gl s)\<rparr>"
  using assms by (simp add: estimate_period_skew_def Let_def period_wraps sint_small GLOSSY_IS_BOOTSTRAPPING_def)

text \<open>The guard time, in ticks.\<close>

definition guard_ticks :: "u8 \<Rightarrow> int" where
  "guard_ticks m = 17 * (1 + int (unat m))"

lemma guard_bounds: "17 \<le> guard_ticks m" "guard_ticks m \<le> 4352"
proof -
  have "uint m < 256"
    using unsigned_less [of m, where ?'a = int] by simp
  then show "17 \<le> guard_ticks m" "guard_ticks m \<le> 4352"
    by (simp_all add: guard_ticks_def)
qed

lemma guard_word: "uint (GLOSSY_GUARD_TIME * (1 + ucast m)) = guard_ticks m"
proof -
  have "GLOSSY_GUARD_TIME * (1 + ucast m) = word_of_int (guard_ticks m)"
    by (simp add: guard_ticks_def GLOSSY_GUARD_TIME_def)
  moreover have "uint (word_of_int (guard_ticks m) :: u16) = guard_ticks m"
    using guard_bounds [of m] by (simp add: unsigned_of_int take_bit_int_eq_self)
  ultimately show ?thesis
    by simp
qed

lemma uint_of_small: "0 \<le> x \<Longrightarrow> x < 4294967296 \<Longrightarrow> uint (word_of_int x :: u32) = x"
  by (simp add: unsigned_of_int take_bit_int_eq_self)

lemma next_offset:
  assumes "\<bar>d\<bar> \<le> 300" and "e = unat (now - r)" and "16 \<le> 1966080 + d - guard_ticks m - int e"
  shows "int (unat ((GLOSSY_PERIOD + word_of_int d - ucast (GLOSSY_GUARD_TIME * (1 + ucast m))) - ucast (now - r) :: u32)) =
    1966080 + d - guard_ticks m - int e"
proof -
  have "(ucast (GLOSSY_GUARD_TIME * (1 + ucast m) :: u16) :: u32) = word_of_int (guard_ticks m)"
    by (subst guard_word [symmetric]) simp
  moreover have "(ucast (now - r) :: u32) = word_of_int (int e)"
    by (simp add: assms(2))
  ultimately have eq: "(GLOSSY_PERIOD + word_of_int d - ucast (GLOSSY_GUARD_TIME * (1 + ucast m))) - ucast (now - r) =
      (word_of_int (1966080 + d - guard_ticks m - int e) :: u32)"
    by (simp add: GLOSSY_PERIOD_def)
  have "uint (word_of_int (1966080 + d - guard_ticks m - int e) :: u32) = 1966080 + d - guard_ticks m - int e"
    using assms(1,3) guard_bounds [of m] by (intro uint_of_small) linarith+
  then show ?thesis
    unfolding uint_nat [symmetric] eq .
qed

lemma ucast16_of_int: "(ucast (word_of_int x :: u32) :: u16) = word_of_int x"
  by (simp add: unsigned_of_int word_of_int_eq_iff min_def)

lemma called_tar: "rs_tar (called t s) = rs_taccr0 s"
  by (simp add: called_def)

lemma end_rest:
  "gs_rt (phase_end e s) = gs_rt s" "gs_period_skew (phase_end e s) = gs_period_skew s" "gs_t_ref_l_old (phase_end e s) = gs_t_ref_l_old s"
  "gs_sync_missed (phase_end e s) = gs_sync_missed s" "gs_timer (phase_end e s) = gs_timer s"
  "gs_rt (apply_config s) = gs_rt s" "gs_period_skew (apply_config s) = gs_period_skew s" "gs_t_ref_l_old (apply_config s) = gs_t_ref_l_old s"
  "gs_sync_missed (apply_config s) = gs_sync_missed s" "gs_timer (apply_config s) = gs_timer s"
  "gs_period_skew (timer_set_long s t off) = gs_period_skew s" "gs_t_ref_l_old (timer_set_long s t off) = gs_t_ref_l_old s"
  "gs_sync_missed (timer_set_long s t off) = gs_sync_missed s" "gs_timer (timer_set_long s t off) = gs_timer s"
  by (simp_all add: phase_end_def mac_on_def start_mac_energest_def apply_config_def timer_set_long_def)

lemma node_end_wakes:
  assumes sy: "GLOSSY_IS_SYNCED s" "\<not> GLOSSY_IS_BOOTSTRAPPING s" and rt: "rs_next (gs_rt s) = None" "rs_ccie (gs_rt s)"
    and ref: "r = GLOSSY_REFERENCE_TIME s" "r = gs_t_ref_l_old s + word_of_int d" "\<bar>d\<bar> \<le> 300"
    and e: "e = unat (rs_tar (gs_rt s) - r)" "599 \<le> e" "e \<le> 60000"
    and g: "g = guard_ticks (gs_sync_missed s)" and s': "s' = node_end env s"
  shows "gs_period_skew s' = d \<and> gs_t_ref_l_old s' = r \<and> gs_sync_missed s' = gs_sync_missed s \<and>
    due_in (gs_timer s) (nat (1966080 + d - g - int e)) (gs_rt s') \<and> rs_taccr0 (gs_rt s') = r + word_of_int (d - g)"
proof -
  have r: "get_t_ref_l (gs_gl s) = r"
    by (simp add: ref(1) GLOSSY_REFERENCE_TIME_def)
  define s1 where "s1 = s\<lparr>gs_period_skew := d, gs_t_ref_l_old := r\<rparr>"
  have "estimate_period_skew s = s1"
    using skew_estimated [of s d] sy ref r by (simp add: s1_def)
  moreover have s1: "\<not> GLOSSY_IS_BOOTSTRAPPING s1" "gs_rt s1 = gs_rt s" "GLOSSY_REFERENCE_TIME s1 = r" "gs_period_skew s1 = d"
    "gs_sync_missed s1 = gs_sync_missed s" "gs_timer s1 = gs_timer s"
    using sy(2) ref(1) by (simp_all add: s1_def GLOSSY_IS_BOOTSTRAPPING_def GLOSSY_REFERENCE_TIME_def)
  define off where "off = GLOSSY_PERIOD + word_of_int d - ucast (GLOSSY_GUARD_TIME * (1 + ucast (gs_sync_missed s)))"
  have "node_next s1 = timer_set_long s1 r off"
    using s1 by (simp add: node_next_def off_def)
  ultimately have s'_eq: "s' = (phase_end env (apply_config (timer_set_long s1 r off)))\<lparr>gs_pc := Node_Period\<rparr>"
    by (simp add: s' node_end_def)
  have gb: "17 \<le> g" "g \<le> 4352"
    unfolding g by (rule guard_bounds)+
  define D where "D = nat (1966080 + d - g - int e)"
  have ie: "599 \<le> int e" "int e \<le> 60000"
    using e(2,3) by simp_all
  then have "16 \<le> 1966080 + d - guard_ticks (gs_sync_missed s) - int e"
    using gb ref(3) unfolding g [symmetric] by linarith
  then have "int (unat (off - ucast (rs_tar (gs_rt s) - r))) = 1966080 + d - g - int e"
    unfolding off_def g by (rule next_offset [OF ref(3) e(1)])
  then have "nat (1966080 + d - g - int e) = nat (int (unat (off - ucast (rs_tar (gs_rt s) - r))))"
    by (simp only:)
  then have D: "D = unat (off - ucast (rs_tar (gs_rt s) - r))"
    unfolding D_def nat_int .
  have "65536 * 29 < 1966080 + d - g - int e" "1966080 + d - g - int e < 65536 * 30"
    using gb ref(3) ie by linarith+
  then have "D div 65536 = 29" "65536 * 29 \<noteq> D"
    unfolding D_def by linarith+
  then have "D mod 65536 \<noteq> 0"
    using div_mult_mod_eq [of D 65536] by linarith
  then have DD: "D = (if D mod 65536 = 0 then D + 65536 else D)"
    by simp
  have rts: "gs_rt s' = snd (rtimer_set_long (gs_rt s) (gs_timer s) r off 0 None)"
    by (simp add: s'_eq end_rest timer_set_long_def s1)
  have "due_in (gs_timer s) D (gs_rt s')"
    by (rule set_long_due [OF rt D DD rts])
  moreover have "rs_taccr0 (gs_rt s') = r + ucast off"
    using rt by (simp add: rts rtimer_set_long_def rtimer_arch_schedule_def Let_def)
  moreover have "(ucast off :: u16) = word_of_int (d - g)"
  proof -
    have "(ucast off :: u16) = word_of_int d - ucast (ucast (GLOSSY_GUARD_TIME * (1 + ucast (gs_sync_missed s))) :: u32)"
      unfolding off_def ucast16_minus ucast16_plus period_wraps ucast16_of_int by simp
    also have "\<dots> = word_of_int d - word_of_int g"
      unfolding ucast_16_32_16 g guard_word [symmetric] by simp
    finally show ?thesis
      by simp
  qed
  ultimately show ?thesis
    by (simp add: D_def s'_eq end_rest s1) (simp add: s1_def)
qed

text \<open>C5: The next phase of a node that has bootstrapped. After a phase in which it has heard the sink's flood \<open>d\<close> ticks more
  than a minute after the last one (in the clock of the node, which is off by at most 300 ticks a minute), it knows the skew \<open>d\<close> exactly;
  after a phase in which it has heard nothing it keeps the skew and extrapolates the reference time with it. In both cases the
  timer runs the scheduler again not earlier and not later than at \<open>17 * (1 + m)\<close> ticks before the next flood
  is expected, where \<open>m\<close> counts the missed floods since the last one heard, as an 8-bit number.\<close>

theorem node_phase:
  assumes ph: "report_phase False sch me ws s" and n: "1 \<le> length sch" "length sch \<le> 156" and cc: "rs_ccie (gs_rt s)"
    and g: "g = foldl gl_step (gs_gl s) (fst (hd ws))" and d: "\<bar>d\<bar> \<le> 300"
    and heard: "if is_t_ref_l_updated g \<noteq> 0 then get_t_ref_l g = gs_t_ref_l_old s + word_of_int d \<and> m = 0
      else get_t_ref_l g = gs_t_ref_l_old s \<and> gs_period_skew s = d \<and> m = gs_sync_missed s + 1"
    and r: "r = gs_t_ref_l_old s + word_of_int d" and s': "s' = wakes ws s"
    and w: "w = nat (1966080 + d - 17 * (1 + int (unat m)) - (381 * int (length sch) + 218))"
  shows "gs_period_skew s' = d \<and> gs_sync_missed s' = m \<and> gs_t_ref_l_old s' = r \<and> GLOSSY_REFERENCE_TIME s' = r \<and>
    (\<forall>j < w. rs_next ((tick run ^^ j) (gs_rt s')) = Some (gs_timer s)) \<and>
    (\<exists>f p rt. (tick run ^^ w) (gs_rt s') = rearm (run f (gs_timer s) p rt) \<and> rs_next rt = None \<and>
       rs_tar rt = r + word_of_int (d - 17 * (1 + int (unat m))))"
proof -
  define s0 where "s0 = s\<lparr>gs_gl := g, gs_rt := called (gs_timer s) (gs_rt s)\<rparr>"
  define e where "e = snd (hd ws)"
  define c where "c = configured False e s0"
  have w0: "wakes (take 1 ws) s = node_config e s0"
    using ph by (cases ws) (simp_all add: report_phase_def wakes_def wake_def glossy_scheduler_def s0_def e_def g case_prod_beta)
  have sc: "get_t_ref_l (gs_gl (stop_config e s0)) = get_t_ref_l g" "GLOSSY_IS_SYNCED (stop_config e s0) \<longleftrightarrow> is_t_ref_l_updated g \<noteq> 0"
    "gs_period_skew (stop_config e s0) = gs_period_skew s" "gs_t_ref_l_old (stop_config e s0) = gs_t_ref_l_old s"
    "gs_sync_missed (stop_config e s0) = gs_sync_missed s" "gs_skew_estimated (stop_config e s0) = gs_skew_estimated s"
    "gs_timer (stop_config e s0) = gs_timer s" "rs_ccie (gs_rt (stop_config e s0))"
    using stop_view(1) [of "se_now e 6" g] cc
    by (simp_all add: stop_config_def s0_def GLOSSY_IS_SYNCED_def is_t_ref_l_updated_def get_t_ref_l_def round_view_def called_def split: prod.split)
      (metis snd_conv)+
  have up: "gl_t_ref_l_updated (gs_gl (stop_config e s0)) = is_t_ref_l_updated g" "GLOSSY_REFERENCE_TIME (stop_config e s0) = get_t_ref_l g"
    using stop_view(1) [of "se_now e 6" g]
    by (simp_all add: stop_config_def s0_def is_t_ref_l_updated_def get_t_ref_l_def GLOSSY_REFERENCE_TIME_def round_view_def split: prod.split)
      (metis snd_conv)+
  have rf: "get_t_ref_l (g\<lparr>gl_t_ref_l := t, gl_t_ref_l_updated := u\<rparr>) = t" for g t u
    by (simp add: get_t_ref_l_def)
  have cf: "get_t_ref_l (gs_gl c) = r" "gl_t_ref_l_updated (gs_gl c) \<noteq> 0"
    "frame c = (gs_period_skew s, gs_t_ref_l_old s, m, gs_skew_estimated s, gl_t_ref_l_updated (gs_gl c), gs_timer s, True)"
    using heard unfolding r c_def configured_def synced_or_missed_def
    by (simp_all add: sc up frame_def period_wraps set_t_ref_l_def set_t_ref_l_updated_def rf split: if_splits)
  have "\<not> GLOSSY_IS_BOOTSTRAPPING s0" "rs_next (gs_rt s0) = None"
    using ph by (simp_all add: s0_def report_phase_def GLOSSY_IS_BOOTSTRAPPING_def)
  from config_between [OF this, of False e] cf(1) have ref0: "r = get_t_ref_l (gs_gl (wakes (take 1 ws) s))"
    unfolding w0 by (simp add: between_def c_def)
  have b: "between False sch r (frame c) (length sch) s'"
    using phase_rounds(1) [OF ph ref0 refl, of "length sch"] ph
    by (simp add: s' c_def e_def s0_def g report_phase_def)
  then obtain env t where t: "s' = node_end env t" "get_t_ref_l (gs_gl t) = r" "frame t = frame c" "rs_next (gs_rt t) = None"
    "rs_tar (gs_rt t) = r + of_nat (length sch) * 381 + 218"
    using n by (auto simp: between_def rounds_over_def ended_def)
  have ft: "gs_t_ref_l_old t = gs_t_ref_l_old s" "gs_sync_missed t = m" "gs_skew_estimated t = gs_skew_estimated s"
    "gl_t_ref_l_updated (gs_gl t) \<noteq> 0" "gs_timer t = gs_timer s" "rs_ccie (gs_rt t)"
    using t(3) cf(2,3) by (simp_all add: frame_def)
  have b: "GLOSSY_IS_SYNCED t" "\<not> GLOSSY_IS_BOOTSTRAPPING t"
    using ft ph by (simp_all add: GLOSSY_IS_SYNCED_def is_t_ref_l_updated_def GLOSSY_IS_BOOTSTRAPPING_def report_phase_def)
  have u: "unat (rs_tar (gs_rt t) - r) = 381 * length sch + 218"
  proof -
    have "rs_tar (gs_rt t) - r = of_nat (381 * length sch + 218)"
      unfolding t(5) by simp
    moreover have "unat (of_nat (381 * length sch + 218) :: u16) = 381 * length sch + 218"
      using n(2) by (subst unat16_of_nat) simp
    ultimately show ?thesis
      by (simp only:)
  qed
  have rt: "r = GLOSSY_REFERENCE_TIME t" "r = gs_t_ref_l_old t + word_of_int d"
    by (simp_all add: GLOSSY_REFERENCE_TIME_def t(2) ft r)
  have le: "599 \<le> 381 * length sch + 218" "381 * length sch + 218 \<le> 60000"
    using n by simp_all
  note nw = node_end_wakes [OF b t(4) ft(6) rt d u [symmetric] le refl t(1)]
  have gt: "guard_ticks (gs_sync_missed t) = 17 * (1 + int (unat m))"
    by (simp add: guard_ticks_def ft)
  have "int (381 * length sch + 218) = 381 * int (length sch) + 218"
    by simp
  then have due: "due_in (gs_timer s) w (gs_rt s')" and tar: "rs_taccr0 (gs_rt s') = r + word_of_int (d - 17 * (1 + int (unat m)))"
    using nw unfolding w gt ft(5) by (simp_all only: simp_thms)
  have "rs_next ((tick run ^^ j) (gs_rt s')) = Some (gs_timer s)" if "j < w" for j
    using ticks_due [OF due that, of run] by (simp add: due_in_def)
  moreover have "\<exists>f p rt. (tick run ^^ w) (gs_rt s') = rearm (run f (gs_timer s) p rt) \<and> rs_next rt = None \<and>
       rs_tar rt = r + word_of_int (d - 17 * (1 + int (unat m)))"
    using ticks_fire [OF due, of run] tar by (metis called_free called_tar)
  moreover have "GLOSSY_REFERENCE_TIME s' = r"
    by (simp add: t(1,2) GLOSSY_REFERENCE_TIME_def get_t_ref_l_def end_keeps) (simp add: t(2) [unfolded get_t_ref_l_def])
  ultimately show ?thesis
    using nw by (simp add: ft)
qed

definition gs_missed :: sched where
  "gs_missed = gs_node\<lparr>gs_t_ref_l_old := 20000\<rparr>"

theorem node_phase_witness:
  "gs_sync_missed (wakes (replicate 47 ([Gl_Irq irq_end], env_node 5)) gs_missed) = 1 \<and>
   rs_next ((tick (\<lambda>_ _ _ s. s) ^^ 1957062) (gs_rt (wakes (replicate 47 ([Gl_Irq irq_end], env_node 5)) gs_missed))) = Some 1"
proof -
  let ?g = "foldl gl_step (gs_gl gs_missed) (fst (hd (replicate 47 ([Gl_Irq irq_end], env_node 5))))"
  have ph: "report_phase False schedule_sics (Rimeaddr 5 0) (replicate 47 ([Gl_Irq irq_end], env_node 5)) gs_missed"
    using gs_node_phase [of 5] by (simp add: report_phase_def gs_missed_def GLOSSY_IS_BOOTSTRAPPING_def)
  have n: "1 \<le> length schedule_sics" "length schedule_sics \<le> 156" "length schedule_sics = 23"
    by (simp_all add: schedule_sics_def)
  have c: "rs_ccie (gs_rt gs_missed)" "gs_t_ref_l_old gs_missed = 20000" "gs_period_skew gs_missed = -2" "gs_sync_missed gs_missed = 0"
    "gs_timer gs_missed = 1"
    by (simp_all add: gs_missed_def gs_node_def rtimer_set_def rs_start_def rtimer_arch_schedule_def)
  have g: "is_t_ref_l_updated ?g = 0" "get_t_ref_l ?g = 20000"
    by code_simp+
  have h: "if is_t_ref_l_updated ?g \<noteq> 0 then get_t_ref_l ?g = gs_t_ref_l_old gs_missed + word_of_int (-2) \<and> 1 = (0 :: u8)
      else get_t_ref_l ?g = gs_t_ref_l_old gs_missed \<and> gs_period_skew gs_missed = -2 \<and> (1 :: u8) = gs_sync_missed gs_missed + 1"
    using g c by simp
  from node_phase [OF ph n(1,2) c(1) refl _ h refl refl refl, where run = "\<lambda>_ _ _ s. s"] show ?thesis
    by (simp add: c n(3))
qed

section \<open>The bootstrap\<close>

text \<open>The number of successive floods heard, by a node that is still bootstrapping.\<close>

lemma node_config_boot:
  assumes "GLOSSY_IS_BOOTSTRAPPING s" and "g = gs_gl s"
  shows "gs_skew_estimated (node_config e s) = (if is_t_ref_l_updated g \<noteq> 0 then gs_skew_estimated s + 1 else 0)"
proof -
  have n: "gs_skew_estimated (phase_end e t) = gs_skew_estimated t" "gs_skew_estimated (apply_config t) = gs_skew_estimated t"
    "gs_skew_estimated (node_next t) = gs_skew_estimated t" for t
    by (simp_all add: phase_end_def mac_on_def start_mac_energest_def apply_config_def node_next_def timer_set_at_def timer_set_long_def)
  have "GLOSSY_IS_SYNCED (stop_config e s) \<longleftrightarrow> is_t_ref_l_updated g \<noteq> 0" "gs_skew_estimated (stop_config e s) = gs_skew_estimated s"
    using stop_view(1) [of "se_now e 6" g]
    by (simp_all add: stop_config_def GLOSSY_IS_SYNCED_def is_t_ref_l_updated_def assms(2) round_view_def split: prod.split) (metis snd_conv)
  then show ?thesis
    using assms(1)
    by (simp add: node_config_def Let_def node_end_def n estimate_period_skew_def GLOSSY_IS_BOOTSTRAPPING_def GLOSSY_IS_SYNCED_def
        is_t_ref_l_updated_def)
qed

end
