(* ===== verification/Xmac.thy ===== *)
theory Xmac
  imports Packetbuf Energest
begin

text \<open>
  The X-MAC protocol, \<open>core/net/mac/xmac.c\<close>, as configured for the Glossy phases (\<open>WITH_DATA_ACK\<close>, \<open>GLOSSY\<close>; no
  announcements, no energy attributes). A receiver wakes up periodically; a sender strobes until the receiver answers with a
  strobe acknowledgment, sends the packet and waits for a data acknowledgment. Timer B's compare registers \<open>TBCCR3\<close> (power
  cycle) and \<open>TBCCR2\<close> (timeout) are part of the state; the LEDs and the watchdog are left out.
\<close>

section \<open>Packets\<close>

definition TYPE_STROBE :: u16 where "TYPE_STROBE = 0"
definition TYPE_DATA :: u16 where "TYPE_DATA = 1"
definition TYPE_STROBE_ACK :: u16 where "TYPE_STROBE_ACK = 3"
definition TYPE_DATA_ACK :: u16 where "TYPE_DATA_ACK = 4"

record xmac_hdr =
  xh_type :: u16
  xh_sender :: rimeaddr
  xh_receiver :: rimeaddr

definition XMAC_HDR_LEN :: nat where "XMAC_HDR_LEN = 6"

definition hdr_bytes :: "xmac_hdr \<Rightarrow> u8 list" where
  "hdr_bytes h = le16 (xh_type h) @ [u8_0 (xh_sender h), u8_1 (xh_sender h), u8_0 (xh_receiver h), u8_1 (xh_receiver h)]"

definition bytes_hdr :: "u8 list \<Rightarrow> xmac_hdr" where
  "bytes_hdr b = \<lparr>xh_type = of_le16 (b ! 0) (b ! 1), xh_sender = Rimeaddr (b ! 2) (b ! 3), xh_receiver = Rimeaddr (b ! 4) (b ! 5)\<rparr>"

definition packet_hdr :: "u16 \<Rightarrow> rimeaddr \<Rightarrow> rimeaddr \<Rightarrow> u8 list" where
  "packet_hdr ty sender receiver = hdr_bytes \<lparr>xh_type = ty, xh_sender = sender, xh_receiver = receiver\<rparr>"

section \<open>State\<close>

record xmac_config =
  xc_on_time :: rtimer_clock_t
  xc_off_time :: rtimer_clock_t
  xc_strobe_time :: rtimer_clock_t
  xc_strobe_wait_time :: rtimer_clock_t

text \<open>The calls of the radio driver, the latest first.\<close>

datatype radio_op = Op_On | Op_Off | Op_Send "u8 list"

text \<open>The protothread \<open>powercycle\<close> has not run yet, or yields in the off or in the on phase.\<close>

datatype xmac_pc = Pw_Begin | Pw_Off | Pw_On

record xmac =
  xm_config :: xmac_config
  xm_is_on :: bool
  xm_got_data_ack :: bool
  xm_waiting_for_packet :: bool
  xm_we_are_sending :: bool
  xm_radio_is_on :: bool
  xm_was_timeout :: bool
  xm_last_on :: rtimer_clock_t
  xm_handshakes_total :: u32
  xm_handshakes_succ :: u32
  xm_in_on_phase :: bool
  xm_pc :: xmac_pc
  xm_tbccr2 :: rtimer_clock_t
  xm_tbcctl2 :: bool
  xm_tbccr3 :: rtimer_clock_t
  xm_tbcctl3 :: bool
  xm_ops :: "radio_op list"
  xm_energest :: energest
  xm_receiver_callback :: "nat option"

text \<open>
  What a call reads from outside: the successive values of \<open>RTIMER_NOW()\<close>, what the successive calls of \<open>radio->read\<close>
  write to the buffer and whether they return its length (the checksum was right) or 0, Timer B, \<open>random_rand()\<close>, a foreign
  packet buffer, the bytes in the local variable \<open>ack\<close>, the clock readings of the energy accounting, and what the
  radio driver does to it while it sends.
\<close>

record air =
  ar_now :: "nat \<Rightarrow> rtimer_clock_t"
  ar_read :: "nat \<Rightarrow> u8 list \<times> bool"
  ar_tbr :: rtimer_clock_t
  ar_rnd :: u16
  ar_ext :: "ptr \<Rightarrow> u8"
  ar_ack :: "u8 list"
  ar_energest_now :: "nat \<Rightarrow> rtimer_clock_t"
  ar_sending :: "energest \<Rightarrow> energest"

text \<open>\<open>TIMEOUT_TIME\<close>, \<open>T_WAIT\<close> and \<open>HANDSHAKES_RESET_PERIOD\<close>.\<close>

definition TIMEOUT_TIME :: rtimer_clock_t where "TIMEOUT_TIME = 32768 div 166"
definition T_WAIT :: rtimer_clock_t where "T_WAIT = 32768 div 408"
definition HANDSHAKES_RESET_PERIOD :: u32 where "HANDSHAKES_RESET_PERIOD = 20"

section \<open>The radio and its power cycle\<close>

definition radio_op :: "radio_op \<Rightarrow> xmac \<Rightarrow> xmac" where
  "radio_op p s = s\<lparr>xm_ops := p # xm_ops s\<rparr>"

definition xmac_on :: "xmac \<Rightarrow> xmac" where
  "xmac_on s = (if xm_is_on s \<and> \<not> xm_radio_is_on s then radio_op Op_On (s\<lparr>xm_radio_is_on := True\<rparr>) else s)"

definition xmac_off :: "xmac \<Rightarrow> xmac" where
  "xmac_off s = (if xm_is_on s \<and> xm_radio_is_on s then radio_op Op_Off (s\<lparr>xm_radio_is_on := False\<rparr>) else s)"

definition xmac_timeout :: "xmac \<Rightarrow> xmac" where
  "xmac_timeout s =
     (let s1 = s\<lparr>xm_waiting_for_packet := False\<rparr>;
          s2 = (if \<not> xm_we_are_sending s1 then xmac_off s1 else s1)
      in s2\<lparr>xm_tbccr3 := xm_last_on s2 + xc_on_time (xm_config s2) + xc_off_time (xm_config s2), xm_tbcctl3 := True\<rparr>)"

text \<open>From the yield in the off phase to the next, and the head of the loop.\<close>

definition on_phase :: "xmac \<Rightarrow> xmac" where
  "on_phase s =
     (let s1 = s\<lparr>xm_last_on := xm_tbccr3 s, xm_was_timeout := False\<rparr>;
          s2 = (if \<not> xm_we_are_sending s1 then xmac_on (s1\<lparr>xm_in_on_phase := False\<rparr>) else s1);
          s3 = (if xm_is_on s2 then s2\<lparr>xm_tbccr3 := xm_tbccr3 s2 + xc_on_time (xm_config s2), xm_in_on_phase := False\<rparr> else s2)
      in s3\<lparr>xm_pc := Pw_On\<rparr>)"

definition off_phase :: "xmac \<Rightarrow> xmac" where
  "off_phase s =
     (if xc_off_time (xm_config s) > 0 \<and> \<not> xm_was_timeout s then
        (let s1 = (if \<not> xm_we_are_sending s then xmac_off (s\<lparr>xm_in_on_phase := True\<rparr>) else s);
             s2 = (if xm_is_on s1 then s1\<lparr>xm_tbccr3 := xm_tbccr3 s1 + xc_off_time (xm_config s1)\<rparr> else s1)
         in s2\<lparr>xm_pc := Pw_Off\<rparr>)
      else on_phase s)"

definition powercycle :: "xmac \<Rightarrow> xmac" where
  "powercycle s = (case xm_pc s of Pw_Off \<Rightarrow> on_phase s | _ \<Rightarrow> off_phase s)"

section \<open>Sending\<close>

text \<open>\<open>radio->read\<close> overwrites the first bytes of its buffer; the result is the new buffer and whether \<open>len > 0\<close>.\<close>

definition read_into :: "u8 list \<Rightarrow> u8 list \<times> bool \<Rightarrow> u8 list \<times> bool" where
  "read_into buf r = (mem_put buf 0 (fst r), snd r \<and> fst r \<noteq> [])"

definition is_strobe_ack :: "rimeaddr \<Rightarrow> u8 list \<Rightarrow> bool" where
  "is_strobe_ack me ack \<longleftrightarrow> xh_type (bytes_hdr ack) = TYPE_STROBE_ACK \<and> rimeaddr_cmp (xh_sender (bytes_hdr ack)) me \<and>
     rimeaddr_cmp (xh_receiver (bytes_hdr ack)) me"

text \<open>The type of the packet is not looked at.\<close>

definition is_data_ack :: "rimeaddr \<Rightarrow> u8 list \<Rightarrow> bool" where
  "is_data_ack me b \<longleftrightarrow> rimeaddr_cmp (xh_sender (bytes_hdr b)) me \<and> rimeaddr_cmp (xh_receiver (bytes_hdr b)) me"

text \<open>
  The loops run on the clock and the radio, from the \<open>n\<close>-th reading of the clock and the \<open>m\<close>-th read of the radio. The inner
  loop waits for a strobe acknowledgment between two strobes.
\<close>

partial_function (option) strobe_wait ::
  "air \<Rightarrow> rimeaddr \<Rightarrow> bool \<Rightarrow> rtimer_clock_t \<Rightarrow> u8 list \<Rightarrow> nat \<Rightarrow> nat \<Rightarrow> (bool \<times> u8 list \<times> nat \<times> nat) option" where
  "strobe_wait a me is_broadcast until ack n m =
     (if rtimer_clock_lt (ar_now a n) until then
        if is_broadcast then strobe_wait a me is_broadcast until ack (n + 1) m
        else if snd (read_into ack (ar_read a m)) \<and> is_strobe_ack me (fst (read_into ack (ar_read a m)))
        then Some (True, fst (read_into ack (ar_read a m)), n + 1, m + 1)
        else strobe_wait a me is_broadcast until (fst (read_into ack (ar_read a m))) (n + 1) (m + 1)
      else Some (False, ack, n + 1, m))"

partial_function (option) strobe_loop ::
  "air \<Rightarrow> rimeaddr \<Rightarrow> bool \<Rightarrow> u8 list \<Rightarrow> rtimer_clock_t \<Rightarrow> rtimer_clock_t \<Rightarrow> u8 list \<Rightarrow> nat \<Rightarrow> nat \<Rightarrow> radio_op list \<Rightarrow>
   (bool \<times> nat \<times> nat \<times> radio_op list) option" where
  "strobe_loop a me is_broadcast packet wait until ack n m ops =
     (if rtimer_clock_lt (ar_now a n) until then
        Option.bind (strobe_wait a me is_broadcast (ar_now a (n + 1) + wait) ack (n + 2) m)
          (\<lambda>(got, ack1, n1, m1).
             if got then Some (True, n1, m1, Op_Send packet # ops)
             else strobe_loop a me is_broadcast packet wait until ack1 n1 m1 (Op_Send packet # ops))
      else Some (False, n + 1, m, ops))"

text \<open>The wait for the acknowledgment of a packet: \<open>is_ack\<close> is the test of what has been read.\<close>

partial_function (option) data_ack_wait ::
  "air \<Rightarrow> (u8 list \<Rightarrow> bool) \<Rightarrow> rtimer_clock_t \<Rightarrow> u8 list \<Rightarrow> nat \<Rightarrow> nat \<Rightarrow> bool option" where
  "data_ack_wait a is_ack until b n m =
     (if rtimer_clock_lt (ar_now a n) until then
        if snd (read_into b (ar_read a m)) \<and> is_ack (fst (read_into b (ar_read a m))) then Some True
        else data_ack_wait a is_ack until (fst (read_into b (ar_read a m))) (n + 1) (m + 1)
      else Some False)"

definition halve_handshakes :: "xmac \<Rightarrow> xmac" where
  "halve_handshakes s =
     (if xm_handshakes_total s \<ge> HANDSHAKES_RESET_PERIOD
      then s\<lparr>xm_handshakes_total := drop_bit 1 (xm_handshakes_total s), xm_handshakes_succ := drop_bit 1 (xm_handshakes_succ s)\<rparr>
      else s)"

text \<open>The X-MAC header in front of the packet, and the bytes that are sent.\<close>

definition put_hdr :: "air \<Rightarrow> u8 list \<Rightarrow> packetbuf \<Rightarrow> packetbuf" where
  "put_hdr a h b =
     (let b1 = snd (packetbuf_hdralloc b (int XMAC_HDR_LEN));
          b2 = b1\<lparr>pb_mem := mem_put (pb_mem b1) (packetbuf_hdrptr b1) h\<rparr>
      in packetbuf_compact (ar_ext a) b2)"

definition pb_out :: "packetbuf \<Rightarrow> u8 list" where
  "pb_out b = mem_get (pb_mem b) (packetbuf_hdrptr b) (unat (packetbuf_totlen b))"

text \<open>\<open>EXCLUDE_TRICKLE_ENERGY\<close>: the time a broadcast takes is accounted as idle, but for one \<open>on_time\<close> of listening.\<close>

definition exclude_energy :: "air \<Rightarrow> rtimer_clock_t \<Rightarrow> energest \<Rightarrow> energest" where
  "exclude_energy a on_time e =
     (case energest_type_time (ar_energest_now a 0) e ENERGEST_TYPE_LISTEN of (listen, e1) \<Rightarrow>
      case energest_type_time (ar_energest_now a 1) e1 ENERGEST_TYPE_TRANSMIT of (transmit, e2) \<Rightarrow>
      case energest_type_time (ar_energest_now a 2) (ar_sending a e2) ENERGEST_TYPE_TRANSMIT of (transmit1, e3) \<Rightarrow>
      case energest_type_time (ar_energest_now a 3) e3 ENERGEST_TYPE_LISTEN of (listen1, e4) \<Rightarrow>
      case energest_type_time (ar_energest_now a 4) e4 ENERGEST_TYPE_LPM of (lpm, e5) \<Rightarrow>
        energest_type_set
          (energest_type_set
            (energest_type_set e5 ENERGEST_TYPE_LPM (lpm + (listen1 - listen) + (transmit1 - transmit) - ucast on_time))
            ENERGEST_TYPE_LISTEN (listen + ucast on_time))
          ENERGEST_TYPE_TRANSMIT transmit)"

text \<open>After the strobes: the packet and the wait for its acknowledgment.\<close>

definition send_data :: "air \<Rightarrow> rimeaddr \<Rightarrow> u8 list \<Rightarrow> u8 list \<Rightarrow> nat \<Rightarrow> nat \<Rightarrow> xmac \<Rightarrow> xmac option" where
  "send_data a me packet strobe n m s =
     (let s1 = (radio_op (Op_Send packet) s)\<lparr>xm_handshakes_total := xm_handshakes_total s + 1\<rparr>
      in map_option
           (\<lambda>got. (xmac_off (halve_handshakes
                     (if got then s1\<lparr>xm_got_data_ack := True, xm_handshakes_succ := xm_handshakes_succ s1 + 1\<rparr> else s1)))
                    \<lparr>xm_waiting_for_packet := False\<rparr>)
           (data_ack_wait a (is_data_ack me) (ar_now a n + T_WAIT) strobe (n + 1) m))"

definition count_strobes :: "bool \<Rightarrow> xmac \<Rightarrow> xmac" where
  "count_strobes got s =
     halve_handshakes (s\<lparr>xm_handshakes_total := xm_handshakes_total s + 1,
       xm_handshakes_succ := (if got then xm_handshakes_succ s + 1 else xm_handshakes_succ s)\<rparr>)"

definition send_packet :: "air \<Rightarrow> rimeaddr \<Rightarrow> packetbuf \<Rightarrow> xmac \<Rightarrow> (packetbuf \<times> xmac) option" where
  "send_packet a me b s =
     (if \<not> xm_is_on s then Some (b, s)
      else
        (let s1 = xmac_off (s\<lparr>xm_got_data_ack := False, xm_we_are_sending := True\<rparr>);
             receiver = packetbuf_addr b PACKETBUF_ADDR_RECEIVER;
             is_broadcast = rimeaddr_cmp receiver rimeaddr_null;
             b1 = put_hdr a (packet_hdr TYPE_DATA me receiver) b;
             strobe = packet_hdr TYPE_STROBE me receiver;
             s2 = (if \<not> is_broadcast then xmac_on s1 else s1)
         in Option.bind
              (strobe_loop a me is_broadcast (if is_broadcast then pb_out b1 else strobe) (xc_strobe_wait_time (xm_config s2))
                 (ar_now a 0 + xc_strobe_time (xm_config s2)) (ar_ack a) 1 0 (xm_ops s2))
              (\<lambda>(got, n, m, ops).
                 let s3 = s2\<lparr>xm_ops := ops\<rparr>;
                     s4 = (if \<not> is_broadcast then count_strobes got s3
                           else s3\<lparr>xm_energest := exclude_energy a (xc_on_time (xm_config s3)) (xm_energest s3)\<rparr>);
                     s5 = (if got \<and> (packetbuf_attr b1 PACKETBUF_ATTR_RELIABLE \<noteq> 0 \<or> packetbuf_attr b1 PACKETBUF_ATTR_ERELIABLE \<noteq> 0)
                           then xmac_off s4
                           else if got then xmac_on s4 else xmac_off s4)
                 in map_option (\<lambda>s6. (b1, s6\<lparr>xm_we_are_sending := False\<rparr>))
                      (if \<not> is_broadcast \<and> got then send_data a me (pb_out b1) strobe n m s5 else Some s5))))"

section \<open>Receiving\<close>

definition RIME_OK :: u16 where "RIME_OK = 0"

definition read_strobe :: "air \<Rightarrow> rimeaddr \<Rightarrow> xmac_hdr \<Rightarrow> xmac \<Rightarrow> xmac" where
  "read_strobe a me hdr s =
     (if rimeaddr_cmp (xh_receiver hdr) me then
        if rimeaddr_cmp (xh_sender hdr) me then s
        else if \<not> xm_was_timeout s then
          (let s1 = s\<lparr>xm_tbcctl3 := False, xm_tbccr2 := ar_tbr a + TIMEOUT_TIME, xm_tbcctl2 := True, xm_was_timeout := True,
                      xm_waiting_for_packet := True\<rparr>
           in radio_op (Op_Send (packet_hdr TYPE_STROBE_ACK (xh_sender hdr) (xh_sender hdr))) (xmac_on s1))
        else s
      else if rimeaddr_cmp (xh_receiver hdr) rimeaddr_null then xmac_on (s\<lparr>xm_waiting_for_packet := True\<rparr>)
      else s)"

definition read_data :: "rimeaddr \<Rightarrow> xmac_hdr \<Rightarrow> packetbuf \<Rightarrow> xmac \<Rightarrow> u16 \<times> packetbuf \<times> xmac" where
  "read_data me hdr b s =
     (if rimeaddr_cmp (xh_receiver hdr) me \<or> rimeaddr_cmp (xh_receiver hdr) rimeaddr_null then
        (let s1 = xmac_off s;
             b1 = (if \<not> rimeaddr_cmp (xh_receiver hdr) rimeaddr_null
                   then packetbuf_set_addr b PACKETBUF_ADDR_RECEIVER (xh_receiver hdr) else b);
             b2 = packetbuf_set_addr b1 PACKETBUF_ADDR_SENDER (xh_sender hdr);
             s2 = (if \<not> rimeaddr_cmp (xh_receiver hdr) rimeaddr_null
                   then radio_op (Op_Send (packet_hdr TYPE_DATA_ACK (xh_sender hdr) (xh_sender hdr))) s1 else s1)
         in (packetbuf_totlen b2, b2, s2\<lparr>xm_waiting_for_packet := False\<rparr>))
      else (0, b, s))"

text \<open>
  The packet buffer after a read of the radio, and the header of what was read, if something was. The header is where it was
  received, whether or not \<open>packetbuf_hdrreduce\<close> has cut it off; \<open>len\<close> is a \<open>uint8_t\<close>.
\<close>

definition frame_in :: "air \<Rightarrow> packetbuf \<Rightarrow> packetbuf \<times> xmac_hdr option" where
  "frame_in a b =
     (let b1 = packetbuf_clear b;
          r = ar_read a 0;
          b2 = b1\<lparr>pb_mem := mem_put (pb_mem b1) (packetbuf_dataptr b1) (fst r)\<rparr>;
          len = (if snd r then of_nat (length (fst r)) else 0) :: u8
      in if len > 0 then
           (let b3 = packetbuf_set_datalen b2 (ucast len);
                hdr = bytes_hdr (mem_get (pb_mem b3) (packetbuf_dataptr b3) XMAC_HDR_LEN)
            in (snd (packetbuf_hdrreduce b3 (int XMAC_HDR_LEN)), Some hdr))
         else (b2, None))"

definition read_packet :: "air \<Rightarrow> rimeaddr \<Rightarrow> packetbuf \<Rightarrow> xmac \<Rightarrow> u16 \<times> packetbuf \<times> xmac" where
  "read_packet a me b s =
     (case frame_in a b of
        (b1, None) \<Rightarrow> (0, b1, s)
      | (b1, Some hdr) \<Rightarrow>
          if xh_type hdr = TYPE_STROBE then (RIME_OK, b1, read_strobe a me hdr s)
          else if xh_type hdr = TYPE_DATA then read_data me hdr b1 s
          else (0, b1, s))"

section \<open>The driver\<close>

definition set_receive_function :: "nat option \<Rightarrow> xmac \<Rightarrow> xmac" where
  "set_receive_function recv s = s\<lparr>xm_receiver_callback := recv\<rparr>"

text \<open>The callback that an incoming packet is handed to, if one is set.\<close>

definition input_packet :: "xmac \<Rightarrow> nat option" where
  "input_packet s = xm_receiver_callback s"

definition xmac_init :: "air \<Rightarrow> xmac \<Rightarrow> xmac" where
  "xmac_init a s =
     s\<lparr>xm_radio_is_on := False, xm_waiting_for_packet := False, xm_pc := Pw_Begin,
       xm_tbccr3 := ar_tbr a + xc_off_time (xm_config s), xm_tbcctl3 := True, xm_is_on := True\<rparr>"

definition turn_on :: "air \<Rightarrow> xmac \<Rightarrow> xmac" where
  "turn_on a s =
     s\<lparr>xm_is_on := True,
       xm_tbccr3 := (if xm_in_on_phase s then ar_tbr a + ar_rnd a mod xc_off_time (xm_config s) else ar_tbr a + xc_on_time (xm_config s)),
       xm_tbcctl3 := True\<rparr>"

definition turn_off :: "bool \<Rightarrow> xmac \<Rightarrow> xmac" where
  "turn_off keep_radio_on s = radio_op (if keep_radio_on then Op_On else Op_Off) (s\<lparr>xm_is_on := False\<rparr>)"

definition get_xmac_config :: "xmac \<Rightarrow> xmac_config" where
  "get_xmac_config s = xm_config s"

definition set_xmac_config :: "air \<Rightarrow> xmac_config \<Rightarrow> xmac \<Rightarrow> xmac" where
  "set_xmac_config a config s = turn_on a ((turn_off False s)\<lparr>xm_config := config\<rparr>)"

definition xmac_got_data_ack :: "xmac \<Rightarrow> bool" where
  "xmac_got_data_ack s = xm_got_data_ack s"

definition xmac_get_prr :: "xmac \<Rightarrow> u16" where
  "xmac_get_prr s =
     (if xm_handshakes_succ s \<noteq> 0 \<and> xm_handshakes_total s \<noteq> 0
      then ucast (xm_handshakes_succ s * 1000 div xm_handshakes_total s) else 1)"

definition xmac_reset_prr :: "xmac \<Rightarrow> xmac" where
  "xmac_reset_prr s = s\<lparr>xm_handshakes_total := 0, xm_handshakes_succ := 0\<rparr>"

end
