(* ===== verification/Xmac_Props.thy ===== *)
theory Xmac_Props
  imports Xmac
begin

text \<open>
  The properties of X-MAC: a transmission ends and sends what it should, the handshake between two nodes, the
  period of the power cycle, and the reception rate that is reported.
\<close>

section \<open>The clock\<close>

text \<open>The successive readings of the clock advance, by at most \<open>g\<close> ticks at a time.\<close>

definition ticking :: "(nat \<Rightarrow> nat) \<Rightarrow> nat \<Rightarrow> air \<Rightarrow> bool" where
  "ticking T g a \<longleftrightarrow> (\<forall>k. ar_now a k = of_nat (T k) \<and> T k < T (Suc k) \<and> T (Suc k) \<le> T k + g)"

lemma lt_before:
  assumes "t < d" and "d \<le> t + 32768"
  shows "rtimer_clock_lt (of_nat t) (of_nat d)"
proof -
  have z: "(of_nat 65536 :: u16) = 0"
    by simp
  have "(of_nat (t + 65536 - d) :: u16) = of_nat (t + 65536) - of_nat d"
    using assms by (intro of_nat_diff) simp
  then have e: "(of_nat t - of_nat d :: u16) = of_nat (t + 65536 - d)"
    by (simp only: of_nat_add z add_0_right)
  have "32768 \<le> t + 65536 - d" "t + 65536 - d < 65536"
    using assms by simp_all
  then have "unat (of_nat (t + 65536 - d) :: u16) = t + 65536 - d"
    by (simp only: unat16_of_nat mod_less)
  with \<open>32768 \<le> t + 65536 - d\<close> show ?thesis
    by (simp only: rtimer_clock_lt_def sint16_neg_iff e)
qed

lemma lt_after:
  assumes "d \<le> t" and "t < d + 32768"
  shows "\<not> rtimer_clock_lt (of_nat t) (of_nat d)"
proof -
  have e: "(of_nat t - of_nat d :: u16) = of_nat (t - d)"
    using assms(1) by (rule of_nat_diff [symmetric])
  have "t - d < 32768"
    using assms by simp
  moreover have "unat (of_nat (t - d) :: u16) = t - d"
    using assms by (simp only: unat16_of_nat) simp
  ultimately show ?thesis
    unfolding rtimer_clock_lt_def sint16_neg_iff e by (simp only: not_le)
qed

lemma ticking_mono: "ticking T g a \<Longrightarrow> T k + j \<le> T (k + j)"
proof (induction j)
  case (Suc j)
  then have "T (k + j) < T (Suc (k + j))"
    by (simp add: ticking_def)
  with Suc show ?case
    by simp
qed simp

section \<open>The loops end\<close>

definition reads_ok :: "air \<Rightarrow> bool" where
  "reads_ok a \<longleftrightarrow> length (ar_ack a) = 6 \<and> (\<forall>j. fst (ar_read a j) = [] \<or> length (fst (ar_read a j)) = 6)"

lemma read_into_ok:
  assumes "reads_ok a" and "length buf = 6"
  shows "length (fst (read_into buf (ar_read a m))) = 6"
proof -
  have "fst (ar_read a m) = [] \<or> length (fst (ar_read a m)) = 6"
    using assms(1) by (simp add: reads_ok_def)
  then show ?thesis
    using assms(2) by (auto simp: read_into_def mem_put_def)
qed

text \<open>The \<open>j\<close>-th read of the radio is an acknowledgment.\<close>

definition ack_at :: "(u8 list \<Rightarrow> bool) \<Rightarrow> air \<Rightarrow> nat \<Rightarrow> bool" where
  "ack_at P a j \<longleftrightarrow> snd (ar_read a j) \<and> fst (ar_read a j) \<noteq> [] \<and> P (fst (ar_read a j))"

lemma read_ack:
  assumes "reads_ok a" and "length buf = 6"
  shows "snd (read_into buf (ar_read a m)) \<and> P (fst (read_into buf (ar_read a m))) \<longleftrightarrow> ack_at P a m"
proof -
  have "fst (ar_read a m) = [] \<or> length (fst (ar_read a m)) = 6"
    using assms(1) by (simp add: reads_ok_def)
  then show ?thesis
    using assms(2) by (auto simp: read_into_def mem_put_def ack_at_def)
qed

text \<open>
  What has been heard in the reads from the \<open>m\<close>-th to the one before the \<open>m1\<close>-th: the last one is the first acknowledgment, or there
  is none.
\<close>

definition heard :: "(u8 list \<Rightarrow> bool) \<Rightarrow> air \<Rightarrow> nat \<Rightarrow> nat \<Rightarrow> bool \<Rightarrow> bool" where
  "heard P a m m1 got \<longleftrightarrow>
     (if got then m < m1 \<and> ack_at P a (m1 - 1) \<and> (\<forall>j. m \<le> j \<and> j < m1 - 1 \<longrightarrow> \<not> ack_at P a j)
      else m \<le> m1 \<and> (\<forall>j. m \<le> j \<and> j < m1 \<longrightarrow> \<not> ack_at P a j))"

lemma heard_simps:
  "heard P a m m False" "ack_at P a m \<Longrightarrow> heard P a m (Suc m) True"
  "\<not> ack_at P a m \<Longrightarrow> heard P a (Suc m) m1 got \<Longrightarrow> heard P a m m1 got"
proof -
  show "heard P a m m False" "ack_at P a m \<Longrightarrow> heard P a m (Suc m) True"
    by (auto simp: heard_def)
  show "heard P a m m1 got" if "\<not> ack_at P a m" "heard P a (Suc m) m1 got"
    using that unfolding heard_def by (metis Suc_leD Suc_leI Suc_lessD le_neq_implies_less)
qed

lemma heard_append: "heard P a m m1 False \<Longrightarrow> heard P a m1 m2 got \<Longrightarrow> heard P a m m2 got"
  unfolding heard_def by (metis le_trans not_less order_le_less_trans)

lemma heard_le: "heard P a m m1 got \<Longrightarrow> m \<le> m1"
  by (auto simp: heard_def split: if_splits)

text \<open>
  The wait between two strobes: it ends, early with an acknowledgment and only then, otherwise at the time \<open>d\<close>. For a single receiver it
  reads the clock and then the radio in every round, and the clock once more at the end.
\<close>

definition wait_spec ::
  "air \<Rightarrow> rimeaddr \<Rightarrow> bool \<Rightarrow> (nat \<Rightarrow> nat) \<Rightarrow> nat \<Rightarrow> nat \<Rightarrow> nat \<Rightarrow> nat \<Rightarrow> bool \<times> u8 list \<times> nat \<times> nat \<Rightarrow> bool" where
  "wait_spec a me bc T g d n m = (\<lambda>(got, ack1, n1, m1). length ack1 = 6 \<and> n < n1 \<and>
     T n1 \<le> (if T n < d then d + 2 * g else T n + g) \<and> (\<not> got \<longrightarrow> d \<le> T (n1 - 1)) \<and>
     (if bc then \<not> got \<and> m1 = m
      else heard (is_strobe_ack me) a m m1 got \<and> n1 + m = n + m1 + (if got then 0 else 1)))"

lemma strobe_wait_ends:
  assumes tk: "ticking T g a" and g: "g \<le> 4096" and ok: "reads_ok a"
  shows "length ack = 6 \<Longrightarrow> d \<le> T n + 16384 \<Longrightarrow> T n < d + 16384 \<Longrightarrow>
    \<exists>r. strobe_wait a me bc (of_nat d) ack n m = Some r \<and> wait_spec a me bc T g d n m r"
proof (induction "d - T n" arbitrary: n m ack rule: less_induct)
  case less
  have now: "ar_now a n = of_nat (T n)" "T n < T (Suc n)" "T (Suc n) \<le> T n + g"
    using tk by (simp_all add: ticking_def)
  show ?case
  proof (cases "T n < d")
    case True
    then have lt: "rtimer_clock_lt (ar_now a n) (of_nat d)"
      unfolding now(1) using less.prems by (intro lt_before) simp_all
    define r where "r = read_into ack (ar_read a m)"
    have r: "length (fst r) = 6" "snd r \<and> is_strobe_ack me (fst r) \<longleftrightarrow> ack_at (is_strobe_ack me) a m"
      using read_into_ok [OF ok less.prems(1), of m] read_ack [OF ok less.prems(1)] by (simp_all add: r_def)
    have un: "strobe_wait a me bc (of_nat d) ack n m =
        (if bc then strobe_wait a me bc (of_nat d) ack (Suc n) m
         else if ack_at (is_strobe_ack me) a m then Some (True, fst r, Suc n, Suc m)
         else strobe_wait a me bc (of_nat d) (fst r) (Suc n) (Suc m))"
      by (subst strobe_wait.simps) (simp only: lt if_True r(2) [symmetric], simp only: r_def Suc_eq_plus1)
    have small: "d - T (Suc n) < d - T n" "d \<le> T (Suc n) + 16384" "T (Suc n) < d + 16384"
      using True now less.prems g by simp_all
    have tb: "(if T (Suc n) < d then d + 2 * g else T (Suc n) + g) \<le> d + 2 * g"
      using True now by simp
    consider "bc" | "\<not> bc" "ack_at (is_strobe_ack me) a m" | "\<not> bc" "\<not> ack_at (is_strobe_ack me) a m"
      by blast
    then show ?thesis
    proof cases
      case 1
      from less.hyps [OF small(1) less.prems(1) small(2,3), of m] obtain q where
        q: "strobe_wait a me bc (of_nat d) ack (Suc n) m = Some q" "wait_spec a me bc T g d (Suc n) m q"
        by blast
      have "wait_spec a me bc T g d n m q"
        using q(2) 1 True tb by (auto simp: wait_spec_def split: prod.splits)
      then show ?thesis
        unfolding un using q(1) 1 by simp
    next
      case 2
      have "wait_spec a me bc T g d n m (True, fst r, Suc n, Suc m)"
        using 2 r(1) True now heard_simps(2) [OF 2(2)] by (simp add: wait_spec_def)
      then show ?thesis
        unfolding un using 2 by simp
    next
      case 3
      from less.hyps [OF small(1) r(1) small(2,3), of "Suc m"] obtain q where
        q: "strobe_wait a me bc (of_nat d) (fst r) (Suc n) (Suc m) = Some q" "wait_spec a me bc T g d (Suc n) (Suc m) q"
        by blast
      have "wait_spec a me bc T g d n m q"
        using q(2) 3 True tb heard_simps(3) [OF 3(2)] by (auto simp: wait_spec_def split: prod.splits)
      then show ?thesis
        unfolding un using q(1) 3 by simp
    qed
  next
    case False
    then have "\<not> rtimer_clock_lt (ar_now a n) (of_nat d)"
      unfolding now(1) using less.prems by (intro lt_after) simp_all
    then have "strobe_wait a me bc (of_nat d) ack n m = Some (False, ack, Suc n, m)"
      by (subst strobe_wait.simps) simp
    moreover have "wait_spec a me bc T g d n m (False, ack, Suc n, m)"
      using less.prems(1) now False heard_simps(1) by (simp add: wait_spec_def)
    ultimately show ?thesis
      by blast
  qed
qed

text \<open>
  The strobes: \<open>k\<close> of them, until one is acknowledged, otherwise until the time \<open>d\<close>. Their number is known: two strobes are at least
  \<open>w\<close> and at most \<open>w + 4 g\<close> ticks apart. For a single receiver a round reads the clock three times beside the reads of the radio.
\<close>

definition strobes_spec ::
  "air \<Rightarrow> rimeaddr \<Rightarrow> bool \<Rightarrow> u8 list \<Rightarrow> (nat \<Rightarrow> nat) \<Rightarrow> nat \<Rightarrow> nat \<Rightarrow> nat \<Rightarrow> nat \<Rightarrow> nat \<Rightarrow> radio_op list \<Rightarrow>
   bool \<times> nat \<times> nat \<times> radio_op list \<Rightarrow> bool" where
  "strobes_spec a me bc packet T g w d n m ops = (\<lambda>(got, n1, m1, ops1). n < n1 \<and>
     (\<exists>k. ops1 = replicate k (Op_Send packet) @ ops \<and> (T n < d \<longrightarrow> 0 < k) \<and> (0 < k \<longrightarrow> (k - 1) * w < d - T n) \<and>
       (\<not> got \<longrightarrow> d \<le> T (n1 - 1) \<and> d \<le> T n + k * (w + 4 * g)) \<and>
       (if bc then \<not> got
        else heard (is_strobe_ack me) a m m1 got \<and> (if got then 0 < k \<and> Suc n1 + m = n + 3 * k + m1 else n1 + m = Suc n + 3 * k + m1))))"

lemma strobe_loop_ends:
  assumes tk: "ticking T g a" and g: "g \<le> 4096" and ok: "reads_ok a" and w: "unat wait \<le> 16384"
  shows "length ack = 6 \<Longrightarrow> d \<le> T n + 32767 \<Longrightarrow> T n < d + 32768 \<Longrightarrow>
    \<exists>r. strobe_loop a me bc packet wait (of_nat d) ack n m ops = Some r \<and> strobes_spec a me bc packet T g (unat wait) d n m ops r"
proof (induction "d - T n" arbitrary: n m ack ops rule: less_induct)
  case less
  have now: "ar_now a k = of_nat (T k)" "T k < T (Suc k)" "T (Suc k) \<le> T k + g" for k
    using tk by (simp_all add: ticking_def)
  show ?case
  proof (cases "T n < d")
    case True
    then have lt: "rtimer_clock_lt (ar_now a n) (of_nat d)"
      unfolding now(1) using less.prems by (intro lt_before) simp_all
    define d1 where "d1 = T (Suc n) + unat wait"
    have "(of_nat d1 :: u16) = ar_now a (n + 1) + wait"
      by (simp add: d1_def now(1))
    moreover have "d1 \<le> T (n + 2) + 16384" "T (n + 2) < d1 + 16384"
      using now(2,3) [of "Suc n"] w g by (simp_all add: d1_def)
    note strobe_wait_ends [OF tk g ok less.prems(1) this, of me bc m]
    ultimately obtain got ack1 n1 m1 where q: "strobe_wait a me bc (ar_now a (n + 1) + wait) ack (n + 2) m = Some (got, ack1, n1, m1)"
      and sp: "wait_spec a me bc T g d1 (n + 2) m (got, ack1, n1, m1)"
      by (metis prod_cases4)
    have sp': "length ack1 = 6" "n + 2 < n1" "\<not> got \<Longrightarrow> d1 \<le> T (n1 - 1)"
      "if bc then \<not> got \<and> m1 = m else heard (is_strobe_ack me) a m m1 got \<and> n1 + m = n + 2 + m1 + (if got then 0 else 1)"
      using sp by (simp_all add: wait_spec_def)
    have un: "strobe_loop a me bc packet wait (of_nat d) ack n m ops =
        (if got then Some (True, n1, m1, Op_Send packet # ops)
         else strobe_loop a me bc packet wait (of_nat d) ack1 n1 m1 (Op_Send packet # ops))"
      by (subst strobe_loop.simps) (simp only: lt q if_True Option.bind.bind_lunit prod.case)
    show ?thesis
    proof (cases got)
      case True
      then have "strobes_spec a me bc packet T g (unat wait) d n m ops (True, n1, m1, Op_Send packet # ops)"
        using sp' \<open>T n < d\<close> by (auto simp: strobes_spec_def intro!: exI [of _ 1])
      then show ?thesis
        unfolding un using True by simp
    next
      case False
      have "T (n1 - 1) < T n1"
        using now(2) [of "n1 - 1"] sp'(2) by simp
      then have late: "T n + unat wait < T n1"
        using sp'(3) [OF False] now(2) [of n] by (simp add: d1_def)
      moreover have step: "T n1 \<le> T n + (unat wait + 4 * g)"
        using sp now(2,3) [of n] now(2,3) [of "Suc n"] by (simp add: wait_spec_def d1_def split: if_splits)
      ultimately have small: "d - T n1 < d - T n" "d \<le> T n1 + 32767" "T n1 < d + 32768"
        using \<open>T n < d\<close> less.prems w g by simp_all
      from less.hyps [OF small(1) sp'(1) small(2,3), of m1 "Op_Send packet # ops"] obtain got2 n2 m2 ops2 where
        q2: "strobe_loop a me bc packet wait (of_nat d) ack1 n1 m1 (Op_Send packet # ops) = Some (got2, n2, m2, ops2)"
          "strobes_spec a me bc packet T g (unat wait) d n1 m1 (Op_Send packet # ops) (got2, n2, m2, ops2)"
        by (metis prod_cases4)
      then obtain k where k: "ops2 = replicate k (Op_Send packet) @ Op_Send packet # ops" "n1 < n2"
          "0 < k \<longrightarrow> (k - 1) * unat wait < d - T n1" "\<not> got2 \<longrightarrow> d \<le> T (n2 - 1) \<and> d \<le> T n1 + k * (unat wait + 4 * g)"
          "if bc then \<not> got2 else heard (is_strobe_ack me) a m1 m2 got2 \<and>
             (if got2 then 0 < k \<and> Suc n2 + m1 = n1 + 3 * k + m2 else n2 + m1 = Suc n1 + 3 * k + m2)"
        by (auto simp: strobes_spec_def)
      have "ops2 = replicate (Suc k) (Op_Send packet) @ ops"
        by (simp add: k(1) replicate_app_Cons_same)
      moreover have "(Suc k - 1) * unat wait < d - T n"
      proof (cases k)
        case (Suc i)
        then show ?thesis
          using k(3) late by simp
      qed (use \<open>T n < d\<close> in simp)
      moreover have "\<not> got2 \<longrightarrow> d \<le> T (n2 - 1) \<and> d \<le> T n + Suc k * (unat wait + 4 * g)"
        using k(4) step by auto
      moreover have "if bc then \<not> got2 else heard (is_strobe_ack me) a m m2 got2 \<and>
          (if got2 then 0 < Suc k \<and> Suc n2 + m = n + 3 * Suc k + m2 else n2 + m = Suc n + 3 * Suc k + m2)"
        using k(5) sp'(4) False heard_append [of "is_strobe_ack me" a m m1 m2 got2] by (simp split: if_splits)
      ultimately have "strobes_spec a me bc packet T g (unat wait) d n m ops (got2, n2, m2, ops2)"
        using k(2) sp'(2) unfolding strobes_spec_def prod.case by (intro conjI exI [of _ "Suc k"]) simp_all
      then show ?thesis
        unfolding un using False q2(1) by simp
    qed
  next
    case False
    then have "\<not> rtimer_clock_lt (ar_now a n) (of_nat d)"
      unfolding now(1) using less.prems by (intro lt_after) simp_all
    then have "strobe_loop a me bc packet wait (of_nat d) ack n m ops = Some (False, Suc n, m, ops)"
      by (subst strobe_loop.simps) simp
    moreover have "strobes_spec a me bc packet T g (unat wait) d n m ops (False, Suc n, m, ops)"
      using False heard_simps(1) by (auto simp: strobes_spec_def intro!: exI [of _ 0])
    ultimately show ?thesis
      by blast
  qed
qed

text \<open>The wait for the acknowledgment of a packet: one is heard if it is read before the time \<open>d\<close>.\<close>

definition acked_by :: "(u8 list \<Rightarrow> bool) \<Rightarrow> air \<Rightarrow> (nat \<Rightarrow> nat) \<Rightarrow> nat \<Rightarrow> nat \<Rightarrow> nat \<Rightarrow> bool" where
  "acked_by P a T d n m \<longleftrightarrow> (\<exists>i. T (n + i) < d \<and> ack_at P a (m + i))"

lemma acked_by_step:
  assumes "ticking T g a"
  shows "acked_by P a T d n m \<longleftrightarrow> T n < d \<and> (ack_at P a m \<or> acked_by P a T d (Suc n) (Suc m))"
proof
  assume "acked_by P a T d n m"
  then obtain i where i: "T (n + i) < d" "ack_at P a (m + i)"
    by (auto simp: acked_by_def)
  have "T n + i \<le> T (n + i)"
    by (rule ticking_mono [OF assms])
  then have "T n < d"
    using i(1) by simp
  then show "T n < d \<and> (ack_at P a m \<or> acked_by P a T d (Suc n) (Suc m))"
    using i by (cases i) (auto simp: acked_by_def)
next
  assume "T n < d \<and> (ack_at P a m \<or> acked_by P a T d (Suc n) (Suc m))"
  then show "acked_by P a T d n m"
    unfolding acked_by_def by (metis add_0_right add_Suc add_Suc_right)
qed

lemma data_ack_wait_ends:
  assumes tk: "ticking T g a" and g: "g \<le> 4096" and ok: "reads_ok a"
  shows "length b = 6 \<Longrightarrow> d \<le> T n + 16384 \<Longrightarrow> T n < d + 16384 \<Longrightarrow>
    data_ack_wait a P (of_nat d) b n m = Some (acked_by P a T d n m)"
proof (induction "d - T n" arbitrary: n m b rule: less_induct)
  case less
  have now: "ar_now a n = of_nat (T n)" "T n < T (Suc n)" "T (Suc n) \<le> T n + g"
    using tk by (simp_all add: ticking_def)
  show ?case
  proof (cases "T n < d")
    case True
    then have lt: "rtimer_clock_lt (ar_now a n) (of_nat d)"
      unfolding now(1) using less.prems by (intro lt_before) simp_all
    define r where "r = read_into b (ar_read a m)"
    have r: "length (fst r) = 6" "snd r \<and> P (fst r) \<longleftrightarrow> ack_at P a m"
      using read_into_ok [OF ok less.prems(1), of m] read_ack [OF ok less.prems(1)] by (simp_all add: r_def)
    have un: "data_ack_wait a P (of_nat d) b n m =
        (if ack_at P a m then Some True else data_ack_wait a P (of_nat d) (fst r) (Suc n) (Suc m))"
      by (subst data_ack_wait.simps) (simp only: lt if_True r(2) [symmetric], simp only: r_def Suc_eq_plus1)
    have "d - T (Suc n) < d - T n" "d \<le> T (Suc n) + 16384" "T (Suc n) < d + 16384"
      using True now less.prems g by simp_all
    from less.hyps [OF this(1) r(1) this(2,3), of "Suc m"] show ?thesis
      unfolding un acked_by_step [OF tk, of P d n m] using True by simp
  next
    case False
    then have "\<not> rtimer_clock_lt (ar_now a n) (of_nat d)"
      unfolding now(1) using less.prems by (intro lt_after) simp_all
    then have "data_ack_wait a P (of_nat d) b n m = Some False"
      by (subst data_ack_wait.simps) simp
    then show ?thesis
      unfolding acked_by_step [OF tk, of P d n m] using False by simp
  qed
qed

section \<open>A transmission\<close>

text \<open>The packets that the radio has sent, in order.\<close>

definition sent :: "xmac \<Rightarrow> u8 list list" where
  "sent s = rev (List.map_filter (\<lambda>p. case p of Op_Send b \<Rightarrow> Some b | _ \<Rightarrow> None) (xm_ops s))"

lemma sent_ops:
  "xm_ops s = Op_On # l \<Longrightarrow> sent s = sent (s\<lparr>xm_ops := l\<rparr>)" "xm_ops s = Op_Off # l \<Longrightarrow> sent s = sent (s\<lparr>xm_ops := l\<rparr>)"
  "xm_ops s = Op_Send b # l \<Longrightarrow> sent s = sent (s\<lparr>xm_ops := l\<rparr>) @ [b]"
  "xm_ops s = replicate k (Op_Send b) @ l \<Longrightarrow> sent s = sent (s\<lparr>xm_ops := l\<rparr>) @ replicate k b"
proof -
  show "xm_ops s = Op_On # l \<Longrightarrow> sent s = sent (s\<lparr>xm_ops := l\<rparr>)" "xm_ops s = Op_Off # l \<Longrightarrow> sent s = sent (s\<lparr>xm_ops := l\<rparr>)"
    "xm_ops s = Op_Send b # l \<Longrightarrow> sent s = sent (s\<lparr>xm_ops := l\<rparr>) @ [b]"
    by (simp_all add: sent_def)
  have "rev (List.map_filter (\<lambda>p. case p of Op_Send b \<Rightarrow> Some b | _ \<Rightarrow> None) (replicate k (Op_Send b) @ l)) =
      rev (List.map_filter (\<lambda>p. case p of Op_Send b \<Rightarrow> Some b | _ \<Rightarrow> None) l) @ replicate k b"
    by (induction k) (simp_all add: replicate_append_same)
  then show "xm_ops s = replicate k (Op_Send b) @ l \<Longrightarrow> sent s = sent (s\<lparr>xm_ops := l\<rparr>) @ replicate k b"
    by (simp add: sent_def)
qed

lemma sent_cong: "xm_ops s = xm_ops t \<Longrightarrow> sent s = sent t"
  by (simp add: sent_def)

lemma on_off_simps [simp]:
  "sent (xmac_on s) = sent s" "sent (xmac_off s) = sent s" "sent (radio_op (Op_Send b) s) = sent s @ [b]"
  "sent (halve_handshakes s) = sent s" "sent (count_strobes got s) = sent s"
  "xm_is_on (xmac_on s) = xm_is_on s" "xm_is_on (xmac_off s) = xm_is_on s" "xm_is_on (radio_op p s) = xm_is_on s"
  "xm_is_on (halve_handshakes s) = xm_is_on s" "xm_is_on (count_strobes got s) = xm_is_on s"
  "xm_config (xmac_on s) = xm_config s" "xm_config (xmac_off s) = xm_config s"
  "xm_got_data_ack (xmac_on s) = xm_got_data_ack s" "xm_got_data_ack (xmac_off s) = xm_got_data_ack s"
  "xm_got_data_ack (halve_handshakes s) = xm_got_data_ack s" "xm_got_data_ack (count_strobes got s) = xm_got_data_ack s"
  "xm_got_data_ack (radio_op p s) = xm_got_data_ack s"
  "xm_is_on s \<Longrightarrow> \<not> xm_radio_is_on (xmac_off s)" "xm_radio_is_on (radio_op p s) = xm_radio_is_on s"
  by (simp_all add: xmac_on_def xmac_off_def radio_op_def halve_handshakes_def count_strobes_def sent_def)

lemma sent_fields [simp]:
  "sent (s\<lparr>xm_we_are_sending := x\<rparr>) = sent s" "sent (s\<lparr>xm_got_data_ack := x\<rparr>) = sent s" "sent (s\<lparr>xm_waiting_for_packet := x\<rparr>) = sent s"
  "sent (s\<lparr>xm_handshakes_total := y\<rparr>) = sent s" "sent (s\<lparr>xm_handshakes_succ := y\<rparr>) = sent s" "sent (s\<lparr>xm_energest := z\<rparr>) = sent s"
  by (simp_all add: sent_def)

lemma send_data_ends:
  assumes "ticking T g a" and "g \<le> 4096" and "reads_ok a" and "length strobe = 6" and "xm_is_on s" and "\<not> xm_got_data_ack s"
  shows "\<exists>s1. send_data a me packet strobe n m s = Some s1 \<and> sent s1 = sent s @ [packet] \<and> \<not> xm_radio_is_on s1 \<and>
    xm_got_data_ack s1 = acked_by (is_data_ack me) a T (T n + 80) (n + 1) m"
proof -
  have u: "ar_now a n + T_WAIT = of_nat (T n + 80)"
    using assms(1) by (simp add: ticking_def T_WAIT_def)
  have "T n < T (Suc n)" "T (Suc n) \<le> T n + g"
    using assms(1) by (simp_all add: ticking_def)
  then have "T n + 80 \<le> T (n + 1) + 16384" "T (n + 1) < T n + 80 + 16384"
    using assms(2) by simp_all
  note w = data_ack_wait_ends [OF assms(1-4) this, of "is_data_ack me" m]
  show ?thesis
    unfolding send_data_def Let_def u w option.map ex_simps(1) [symmetric]
    by (cases "acked_by (is_data_ack me) a T (T n + 80) (n + 1) m") (use assms(5,6) in simp_all)
qed

lemma hdr_len: "length (packet_hdr ty x y) = 6"
  by (simp add: packet_hdr_def hdr_bytes_def le16_def)

text \<open>
  How a transmission to one receiver went: \<open>k\<close> strobes were sent, and the radio was read \<open>m\<close> times without a strobe acknowledgment. Then,
  if \<open>acked\<close>, the next read gave one, and \<open>got\<close> says whether one of the reads after the packet, within \<open>T_WAIT\<close> = 80 ticks,
  gave a data acknowledgment; otherwise the time \<open>d\<close> has come. Every strobe costs three readings of the clock and every read one, so that
  the next reading is known.
\<close>

definition unicast_outcome :: "air \<Rightarrow> rimeaddr \<Rightarrow> (nat \<Rightarrow> nat) \<Rightarrow> nat \<Rightarrow> nat \<Rightarrow> nat \<Rightarrow> bool \<Rightarrow> bool \<Rightarrow> bool" where
  "unicast_outcome a me T d k m acked got \<longleftrightarrow> (\<forall>j<m. \<not> ack_at (is_strobe_ack me) a j) \<and>
     (if acked
      then ack_at (is_strobe_ack me) a m \<and> got = acked_by (is_data_ack me) a T (T (3 * k + m + 1) + 80) (3 * k + m + 2) (m + 1)
      else d \<le> T (3 * k + m + 1) \<and> \<not> got)"

lemma send_packet_ends:
  assumes "ticking T g a" and "g \<le> 4096" and "reads_ok a" and "xm_is_on s"
    and "w = unat (xc_strobe_wait_time (xm_config s))" and "w \<le> 16384"
    and "D = unat (xc_strobe_time (xm_config s))" and "g < D" and "D < 32768"
    and "r = packetbuf_addr b PACKETBUF_ADDR_RECEIVER" and "b1 = put_hdr a (packet_hdr TYPE_DATA me r) b"
  shows "\<exists>s1 k. send_packet a me b s = Some (b1, s1) \<and> \<not> xm_we_are_sending s1 \<and> \<not> xm_radio_is_on s1 \<and>
    0 < k \<and> (k - 1) * w < D \<and>
    (if r = rimeaddr_null
     then sent s1 = sent s @ replicate k (pb_out b1) \<and> D \<le> g + k * (w + 4 * g) \<and> \<not> xmac_got_data_ack s1
     else \<exists>m acked. sent s1 = sent s @ replicate k (packet_hdr TYPE_STROBE me r) @ (if acked then [pb_out b1] else []) \<and>
       (\<not> acked \<longrightarrow> D \<le> g + k * (w + 4 * g)) \<and> unicast_outcome a me T (T 0 + D) k m acked (xmac_got_data_ack s1))"
proof -
  define bc where "bc = rimeaddr_cmp r rimeaddr_null"
  define s1 where "s1 = xmac_off (s\<lparr>xm_got_data_ack := False, xm_we_are_sending := True\<rparr>)"
  define s2 where "s2 = (if \<not> bc then xmac_on s1 else s1)"
  define packet where "packet = (if bc then pb_out b1 else packet_hdr TYPE_STROBE me r)"
  have bcn: "bc \<longleftrightarrow> r = rimeaddr_null"
    by (simp add: bc_def rimeaddr_cmp_eq)
  have s2: "xm_config s2 = xm_config s" "xm_is_on s2" "\<not> xm_got_data_ack s2" "sent s2 = sent s"
    using assms(4) by (simp_all add: s2_def s1_def)
  define d where "d = T 0 + D"
  have now: "ar_now a 0 = of_nat (T 0)" "T 0 < T 1" "T 1 \<le> T 0 + g"
    using assms(1) by (simp_all add: ticking_def)
  have dl: "ar_now a 0 + xc_strobe_time (xm_config s2) = of_nat d"
    by (simp add: d_def now(1) s2 assms(7))
  have "T 1 < d" "d \<le> T 1 + 32767" "T 1 < d + 32768"
    using now assms(8,9) by (simp_all add: d_def)
  moreover have "length (ar_ack a) = 6"
    using assms(3) by (simp add: reads_ok_def)
  moreover have "unat (xc_strobe_wait_time (xm_config s2)) = w"
    by (simp add: s2 assms(5))
  ultimately obtain got n m1 ops where
    q: "strobe_loop a me bc packet (xc_strobe_wait_time (xm_config s2)) (of_nat d) (ar_ack a) 1 0 (xm_ops s2) = Some (got, n, m1, ops)"
      "strobes_spec a me bc packet T g w d 1 0 (xm_ops s2) (got, n, m1, ops)"
    using strobe_loop_ends [OF assms(1-3), of "xc_strobe_wait_time (xm_config s2)" "ar_ack a" d 1 me bc packet 0 "xm_ops s2"] assms(6)
    by (metis prod_cases4)
  then obtain k where k: "ops = replicate k (Op_Send packet) @ xm_ops s2" "0 < k" "(k - 1) * w < d - T 1"
      "\<not> got \<longrightarrow> d \<le> T (n - 1) \<and> d \<le> T 1 + k * (w + 4 * g)"
    and u0: "if bc then \<not> got
        else heard (is_strobe_ack me) a 0 m1 got \<and> (if got then 0 < k \<and> Suc n + 0 = 1 + 3 * k + m1 else n + 0 = Suc 1 + 3 * k + m1)"
    using \<open>T 1 < d\<close> unfolding strobes_spec_def prod.case by blast
  have u: "if bc then \<not> got else heard (is_strobe_ack me) a 0 m1 got \<and> (if got then n = 3 * k + m1 else n = 2 + 3 * k + m1)"
    using u0 by (simp split: if_splits)
  have count: "(k - 1) * w < D" "\<not> got \<longrightarrow> D \<le> g + k * (w + 4 * g)"
    using k(3,4) now by (auto simp: d_def)
  define s3 where "s3 = s2\<lparr>xm_ops := ops\<rparr>"
  define s4 where "s4 = (if \<not> bc then count_strobes got s3
                           else s3\<lparr>xm_energest := exclude_energy a (xc_on_time (xm_config s3)) (xm_energest s3)\<rparr>)"
  define s5 where "s5 = (if got \<and> (packetbuf_attr b1 PACKETBUF_ATTR_RELIABLE \<noteq> 0 \<or> packetbuf_attr b1 PACKETBUF_ATTR_ERELIABLE \<noteq> 0)
                           then xmac_off s4 else if got then xmac_on s4 else xmac_off s4)"
  have s3: "sent s3 = sent s @ replicate k packet" "xm_is_on s3" "\<not> xm_got_data_ack s3"
    using sent_ops(4) [of s3 k packet "xm_ops s2"] k(1) s2 sent_cong [of "s3\<lparr>xm_ops := xm_ops s2\<rparr>" s2] by (simp_all add: s3_def)
  then have s5: "sent s5 = sent s @ replicate k packet" "xm_is_on s5" "\<not> xm_got_data_ack s5" "\<not> got \<Longrightarrow> \<not> xm_radio_is_on s5"
    by (simp_all add: s5_def s4_def)
  have un: "send_packet a me b s = map_option (\<lambda>s6. (b1, s6\<lparr>xm_we_are_sending := False\<rparr>))
      (if \<not> bc \<and> got then send_data a me (pb_out b1) (packet_hdr TYPE_STROBE me r) n m1 s5 else Some s5)"
    unfolding send_packet_def Let_def assms(10) [symmetric] assms(11) [symmetric] bc_def [symmetric] s1_def [symmetric] s2_def [symmetric]
      packet_def [symmetric] dl q(1)
    using assms(4) by (simp add: s3_def s4_def s5_def)
  show ?thesis
  proof (cases "\<not> bc \<and> got")
    case True
    from send_data_ends [OF assms(1-3) hdr_len s5(2,3), of me "pb_out b1" TYPE_STROBE me r n m1] obtain s6 where
      s6: "send_data a me (pb_out b1) (packet_hdr TYPE_STROBE me r) n m1 s5 = Some s6" "sent s6 = sent s5 @ [pb_out b1]"
        "\<not> xm_radio_is_on s6" "xm_got_data_ack s6 = acked_by (is_data_ack me) a T (T n + 80) (n + 1) m1"
      by blast
    obtain m where m: "m1 = Suc m" "n = 3 * k + m + 1" "ack_at (is_strobe_ack me) a m" "\<forall>j<m. \<not> ack_at (is_strobe_ack me) a j"
      using u True by (cases m1) (auto simp: heard_def)
    have "unicast_outcome a me T (T 0 + D) k m True (xm_got_data_ack s6)"
      using m s6(4) by (simp add: unicast_outcome_def)
    then show ?thesis
      using True k(2) count s5(1) bcn s6
      by (intro exI [of _ "s6\<lparr>xm_we_are_sending := False\<rparr>"] exI [of _ k])
        (auto simp: un packet_def xmac_got_data_ack_def intro!: exI [of _ m] exI [of _ True])
  next
    case False
    then have "\<not> got"
      using u by (cases bc) simp_all
    moreover have "unicast_outcome a me T (T 0 + D) k m1 False False" if "\<not> bc"
      using that u k(4) \<open>\<not> got\<close> by (auto simp: unicast_outcome_def heard_def d_def)
    ultimately show ?thesis
      using k(2) count s5 bcn
      by (intro exI [of _ "s5\<lparr>xm_we_are_sending := False\<rparr>"] exI [of _ k])
        (auto simp: un packet_def xmac_got_data_ack_def intro!: exI [of _ m1] exI [of _ False])
  qed
qed

text \<open>C24: A transmission ends, whatever the radio hears; afterwards the radio is off and the power cycle has it again. A broadcast is
  repeated until the strobe time \<open>D\<close> is over, and never acknowledged. For a single receiver the strobe, which names it, is repeated
  until the first strobe acknowledgment for this node is read, or until the strobe time is over if none of the reads gives one; in the first
  case, and only then, the packet itself is sent, once, with the X-MAC header in front, and a data acknowledgment is reported exactly if
  a packet that passes for one (its type is not looked at) is read after the packet and within \<open>T_WAIT\<close>. The number \<open>k\<close> of
  repetitions is that of the strobe time: two are at least the wait time \<open>w\<close> apart and at most four readings of the clock more.\<close>

theorem xmac_send:
  assumes "ticking T g a" and "g \<le> 4096" and "reads_ok a" and "xm_is_on s"
    and "w = unat (xc_strobe_wait_time (xm_config s))" and "w \<le> 16384"
    and "D = unat (xc_strobe_time (xm_config s))" and "g < D" and "D < 32768"
    and "r = packetbuf_addr b PACKETBUF_ADDR_RECEIVER" and "b1 = put_hdr a (packet_hdr TYPE_DATA me r) b"
  shows "\<exists>s1 k. send_packet a me b s = Some (b1, s1) \<and> \<not> xm_we_are_sending s1 \<and> \<not> xm_radio_is_on s1 \<and>
    0 < k \<and> (k - 1) * w < D \<and>
    (if r = rimeaddr_null
     then sent s1 = sent s @ replicate k (pb_out b1) \<and> D \<le> g + k * (w + 4 * g) \<and> \<not> xmac_got_data_ack s1
     else \<exists>m acked. sent s1 = sent s @ replicate k (packet_hdr TYPE_STROBE me r) @ (if acked then [pb_out b1] else []) \<and>
       (\<not> acked \<longrightarrow> D \<le> g + k * (w + 4 * g)) \<and> unicast_outcome a me T (T 0 + D) k m acked (xmac_got_data_ack s1))"
  by (rule send_packet_ends [OF assms])

text \<open>Two nodes with the configuration that the code starts with; the acknowledgments come in the fourth read.\<close>

definition xmac_ex :: xmac where
  "xmac_ex = \<lparr>xm_config = \<lparr>xc_on_time = 184, xc_off_time = 16384, xc_strobe_time = 16752, xc_strobe_wait_time = 136\<rparr>,
     xm_is_on = True, xm_got_data_ack = False, xm_waiting_for_packet = False, xm_we_are_sending = False, xm_radio_is_on = True,
     xm_was_timeout = False, xm_last_on = 0, xm_handshakes_total = 0, xm_handshakes_succ = 0, xm_in_on_phase = False, xm_pc = Pw_On,
     xm_tbccr2 = 0, xm_tbcctl2 = False, xm_tbccr3 = 184, xm_tbcctl3 = True, xm_ops = [Op_On],
     xm_energest = \<lparr>en_total = (\<lambda>_. 0), en_time = (\<lambda>_. 0), en_mode = (\<lambda>_. False)\<rparr>, xm_receiver_callback = Some 1\<rparr>"

definition me_ex :: rimeaddr where "me_ex = Rimeaddr 7 0"
definition peer_ex :: rimeaddr where "peer_ex = Rimeaddr 9 0"

definition air_ex :: air where
  "air_ex = \<lparr>ar_now = (\<lambda>k. of_nat (50 * k)),
     ar_read = (\<lambda>k. if k < 3 then ([], False) else (packet_hdr TYPE_STROBE_ACK me_ex me_ex, True)), ar_tbr = 100, ar_rnd = 0,
     ar_ext = (\<lambda>_. 0), ar_ack = replicate 6 0, ar_energest_now = (\<lambda>k. of_nat (50 * k)), ar_sending = (\<lambda>e. e)\<rparr>"

definition pb_send_ex :: packetbuf where
  "pb_send_ex = packetbuf_set_addr (pb_example\<lparr>pb_hdrptr := 60\<rparr>) PACKETBUF_ADDR_RECEIVER peer_ex"

lemma air_ex_ok: "ticking (\<lambda>k. 50 * k) 50 air_ex" "reads_ok air_ex"
  by (simp_all add: ticking_def air_ex_def reads_ok_def hdr_len)

text \<open>The acknowledgment comes in the fourth read; read again after the packet, it passes for a data acknowledgment.\<close>

theorem xmac_send_witness:
  "\<exists>s1 k m acked. send_packet air_ex me_ex pb_send_ex xmac_ex = Some (put_hdr air_ex (packet_hdr TYPE_DATA me_ex peer_ex) pb_send_ex, s1) \<and>
     \<not> xm_we_are_sending s1 \<and> \<not> xm_radio_is_on s1 \<and> 0 < k \<and> (k - 1) * 136 < 16752 \<and>
     sent s1 = replicate k (packet_hdr TYPE_STROBE me_ex peer_ex) @
       (if acked then [pb_out (put_hdr air_ex (packet_hdr TYPE_DATA me_ex peer_ex) pb_send_ex)] else []) \<and>
     unicast_outcome air_ex me_ex (\<lambda>k. 50 * k) 16752 k m acked (xmac_got_data_ack s1)"
proof -
  have r: "packetbuf_addr pb_send_ex PACKETBUF_ADDR_RECEIVER = peer_ex" "peer_ex \<noteq> rimeaddr_null"
    by (simp_all add: pb_send_ex_def packetbuf_addr_def packetbuf_set_addr_def peer_ex_def rimeaddr_null_def)
  have s: "sent xmac_ex = []" "xm_is_on xmac_ex" "136 = unat (xc_strobe_wait_time (xm_config xmac_ex))"
    "16752 = unat (xc_strobe_time (xm_config xmac_ex))"
    by (simp_all add: xmac_ex_def sent_def)
  define b1 where "b1 = put_hdr air_ex (packet_hdr TYPE_DATA me_ex peer_ex) pb_send_ex"
  have g: "(50::nat) \<le> 4096" "(136::nat) \<le> 16384" "(50::nat) < 16752" "(16752::nat) < 32768" "50 * 0 + 16752 = (16752::nat)"
    by simp_all
  from xmac_send [OF air_ex_ok(1) g(1) air_ex_ok(2) s(2,3) g(2) s(4) g(3,4) r(1) [symmetric] b1_def] show ?thesis
    unfolding if_not_P [OF r(2)] s(1) append_Nil g(5) b1_def by blast
qed

section \<open>The handshake\<close>

lemma bytes_packet_hdr: "bytes_hdr (packet_hdr ty x y @ rest) = \<lparr>xh_type = ty, xh_sender = x, xh_receiver = y\<rparr>"
  by (simp add: bytes_hdr_def packet_hdr_def hdr_bytes_def le16_def of_le16_bytes)

lemmas bytes_packet_hdr' = bytes_packet_hdr [where rest = "[]", simplified]

text \<open>The frame that is sent: the header, then the packet with the headers of the layers above.\<close>

lemma put_hdr_out:
  assumes inv: "pb_inv b" and nr: "\<not> packetbuf_is_reference b" and h: "length h = 6" "6 < unat (pb_hdrptr b)"
  shows "pb_out (put_hdr a h b) = h @ pb_hdr b @ pb_data b"
    and "unat (packetbuf_totlen (put_hdr a h b)) = length (h @ pb_hdr b @ pb_data b)"
proof -
  define b1 where "b1 = snd (packetbuf_hdralloc b 6)"
  define b2 where "b2 = b1\<lparr>pb_mem := mem_put (pb_mem b1) (packetbuf_hdrptr b1) h\<rparr>"
  define p where "p = unat (pb_hdrptr b)"
  have p: "p \<le> 64" "uint (pb_hdrptr b) = int p" "length (pb_mem b) = 194"
    using inv by (simp_all add: pb_inv_def pb_sizes p_def)
  have p6: "6 < p"
    using h(2) by (simp only: p_def)
  then have lt: "6 < uint (pb_hdrptr b)"
    by (simp only: p(2))
  note al = hdralloc_ok [OF inv _ lt]
  have "int (unat (pb_hdrptr b1)) = int p - 6"
    using al(2) by (simp add: b1_def p(2))
  then have p1: "unat (pb_hdrptr b1) = p - 6"
    using p6 by linarith
  have b1: "pb_mem b1 = pb_mem b" "pb_buflen b1 = pb_buflen b" "pb_bufptr b1 = pb_bufptr b" "pb_ref b1 = pb_ref b" "pb_inv b1"
    using al(3) by (simp_all add: b1_def packetbuf_hdralloc_def)
  have m2: "pb_mem b2 = mem_put (pb_mem b) (p - 6) h" "length (pb_mem b2) = 194"
    using h(1) p6 p by (simp_all add: b2_def b1 packetbuf_hdrptr_def p1)
  have i2: "pb_inv b2" "\<not> packetbuf_is_reference b2"
    using b1(5) m2(2) nr b1(4) by (simp_all add: pb_inv_def b2_def packetbuf_is_reference_def)
  have d2: "pb_data b2 = pb_data b"
    using m2(1) h(1) p6 p(1,3) by (simp add: pb_data_def packetbuf_dataptr_def b2_def b1 pb_sizes mem_get_put_after)
  have "mem_get (pb_mem b2) (p - 6) (6 + (64 - p)) = h @ mem_get (pb_mem b) p (64 - p)"
    unfolding mem_get_split using mem_get_put_same [of "p - 6" h "pb_mem b"] h(1) p6 p(1,3) by (simp add: m2(1) mem_get_put_after)
  moreover have "64 - (p - 6) = 6 + (64 - p)"
    using p6 p(1) by simp
  ultimately have h2: "pb_hdr b2 = h @ pb_hdr b"
    by (simp add: pb_hdr_def packetbuf_copyto_hdr_def b2_def b1 p1 pb_sizes p_def [symmetric])
  define b3 where "b3 = packetbuf_compact (ar_ext a) b2"
  have c: "pb_data b3 = pb_data b" "pb_bufptr b3 = 0" "pb_hdr b3 = h @ pb_hdr b" "pb_inv b3"
    using packetbuf_compact_data [OF i2, of "ar_ext a"] by (simp_all add: b3_def d2 h2)
  have f3: "pb_hdrptr b3 = pb_hdrptr b1" "pb_buflen b3 = pb_buflen b"
    using i2(2) by (simp_all add: b3_def packetbuf_compact_def b2_def b1)
  have bl: "unat (pb_buflen b) \<le> 128"
    using inv nr by (auto simp: pb_inv_def packetbuf_is_reference_def pb_sizes)
  have "unat (packetbuf_hdrlen b3) = 64 - (p - 6)"
  proof -
    have "pb_hdrptr b3 \<le> 64"
      using p1 p(1) by (simp add: f3 word_le_nat_alt)
    then show ?thesis
      by (simp add: packetbuf_hdrlen_def pb_sizes unat_sub f3 p1)
  qed
  moreover have "unat (ucast x + y :: u16) = unat x + unat y" if "unat y \<le> 128" for x :: u8 and y :: u16
  proof -
    have x: "unat (ucast x :: u16) = unat x" "unat x < 256"
      by (simp_all add: unsigned_ucast_eq take_bit_nat_eq_self less_trans [OF unat8_less])
    then have "unat (ucast x :: u16) + unat y < 65536"
      using that by linarith
    then show ?thesis
      using x(1) by (simp only: unat16_add_less)
  qed
  ultimately have tl: "unat (packetbuf_totlen b3) = (64 - (p - 6)) + unat (pb_buflen b3)"
    using bl by (simp add: packetbuf_totlen_def packetbuf_datalen_def f3)
  have "p - 6 + (64 - (p - 6)) = 64"
    using p(1) by simp
  then have "pb_out b3 = mem_get (pb_mem b3) (p - 6) (64 - (p - 6)) @ mem_get (pb_mem b3) 64 (unat (pb_buflen b3))"
    unfolding pb_out_def packetbuf_hdrptr_def tl unfolding f3(1) p1 mem_get_split by (simp only:)
  also have "\<dots> = pb_hdr b3 @ pb_data b3"
    using c(2) by (simp add: pb_hdr_def packetbuf_copyto_hdr_def pb_data_def packetbuf_dataptr_def f3 p1 pb_sizes)
  finally have out: "pb_out b3 = h @ pb_hdr b @ pb_data b"
    using c by simp
  have b3: "put_hdr a h b = b3"
    by (simp add: put_hdr_def Let_def XMAC_HDR_LEN_def b1_def [symmetric] b2_def [symmetric] b3_def [symmetric])
  show "pb_out (put_hdr a h b) = h @ pb_hdr b @ pb_data b"
    using out b3 by simp
  have "unat (packetbuf_totlen b3) \<le> length (pb_mem b3) - packetbuf_hdrptr b3"
    using c(4) bl tl p(1) p6 by (simp add: pb_inv_def packetbuf_hdrptr_def f3 p1)
  then have "length (pb_out b3) = unat (packetbuf_totlen b3)"
    by (simp add: pb_out_def packetbuf_hdrptr_def mem_get_def)
  then show "unat (packetbuf_totlen (put_hdr a h b)) = length (h @ pb_hdr b @ pb_data b)"
    using out b3 by simp
qed

lemma frame_in_bytes:
  assumes inv: "pb_inv rb" and r: "ar_read a 0 = (packet_hdr ty x y @ rest, True)" and l: "length rest \<le> 122"
  obtains b4 where "pb_data b4 = rest" "packetbuf_totlen b4 = of_nat (length rest)"
    "frame_in a rb = (b4, Some \<lparr>xh_type = ty, xh_sender = x, xh_receiver = y\<rparr>)"
proof -
  define fr where "fr = packet_hdr ty x y @ rest"
  define b1 where "b1 = packetbuf_clear rb"
  define b2 where "b2 = b1\<lparr>pb_mem := mem_put (pb_mem b1) 64 fr\<rparr>"
  define b3 where "b3 = packetbuf_set_datalen b2 (of_nat (length fr))"
  have lf: "length fr = 6 + length rest"
    by (simp add: fr_def hdr_len)
  have m1: "length (pb_mem b1) = 194" "pb_hdrptr b1 = 64" "pb_bufptr b1 = 0"
    using inv by (simp_all add: b1_def pb_inv_def)
  have len: "unat (of_nat (length fr) :: u8) = length fr" "(of_nat (length fr) :: u8) > 0"
  proof -
    show u: "unat (of_nat (length fr) :: u8) = length fr"
      using l unfolding lf unat8_of_nat by simp
    then have "unat (of_nat (length fr) :: u8) \<noteq> 0"
      using lf by simp
    then show "(of_nat (length fr) :: u8) > 0"
      by (metis unat_0 word_gt_0)
  qed
  have u16: "(ucast (of_nat (length fr) :: u8) :: u16) = of_nat (length fr)"
  proof -
    have "(ucast w :: u16) = of_nat (unat w)" for w :: u8
      by simp
    from this [of "of_nat (length fr)"] show ?thesis
      unfolding len(1) .
  qed
  have m3: "mem_get (pb_mem b3) 64 (length fr) = fr"
  proof -
    have "mem_get (mem_put (pb_mem b1) 64 fr) 64 (length fr) = fr"
      by (rule mem_get_put_same) (use m1 lf l in simp)
    moreover have "pb_mem b3 = mem_put (pb_mem b1) 64 fr"
      by (simp add: b3_def packetbuf_set_datalen_def b2_def)
    ultimately show ?thesis
      by (simp only:)
  qed
  have "mem_get (pb_mem b3) 64 (6 + length rest) = mem_get (pb_mem b3) 64 6 @ mem_get (pb_mem b3) 70 (length rest)"
    by (simp add: mem_get_split)
  then have "mem_get (pb_mem b3) 64 6 @ mem_get (pb_mem b3) 70 (length rest) = packet_hdr ty x y @ rest"
    using m3 lf by (simp add: fr_def)
  moreover have "length (mem_get (pb_mem b3) 64 6) = 6"
    using m1 lf l by (simp add: b3_def packetbuf_set_datalen_def b2_def)
  ultimately have parts: "mem_get (pb_mem b3) 64 6 = packet_hdr ty x y" "mem_get (pb_mem b3) 70 (length rest) = rest"
    using hdr_len [of ty x y] by (simp_all add: append_eq_append_conv)
  have bl: "pb_buflen b3 = of_nat (6 + length rest)"
    by (simp add: b3_def packetbuf_set_datalen_def lf)
  have "\<not> pb_buflen b3 < 6"
    using l by (simp only: bl word_less_nat_alt unat16_of_nat) simp
  then have b4: "snd (packetbuf_hdrreduce b3 6) = b3\<lparr>pb_bufptr := 6, pb_buflen := of_nat (length rest)\<rparr>"
    using bl by (simp add: packetbuf_hdrreduce_def) (simp add: b3_def packetbuf_set_datalen_def b2_def m1)
  show ?thesis
  proof (rule that [of "snd (packetbuf_hdrreduce b3 6)"])
    show "pb_data (snd (packetbuf_hdrreduce b3 6)) = rest"
      using parts(2) l by (simp add: b4 pb_data_def packetbuf_dataptr_def pb_sizes)
    show "packetbuf_totlen (snd (packetbuf_hdrreduce b3 6)) = of_nat (length rest)"
      unfolding b4 packetbuf_totlen_def packetbuf_hdrlen_def packetbuf_datalen_def
      by (simp add: b3_def packetbuf_set_datalen_def b2_def m1 pb_sizes)
    have dp: "packetbuf_dataptr b1 = 64" "packetbuf_dataptr b3 = 64"
      using m1 by (simp_all add: packetbuf_dataptr_def pb_sizes b3_def packetbuf_set_datalen_def b2_def)
    have un: "frame_in a rb = (let hdr = bytes_hdr (mem_get (pb_mem b3) 64 6) in (snd (packetbuf_hdrreduce b3 6), Some hdr))"
      unfolding frame_in_def b1_def [symmetric] r fr_def [symmetric] Let_def fst_conv snd_conv if_True dp(1) b2_def [symmetric] u16 b3_def [symmetric]
        dp(2) XMAC_HDR_LEN_def if_P [OF len(2)] by simp
    show "frame_in a rb = (snd (packetbuf_hdrreduce b3 6), Some \<lparr>xh_type = ty, xh_sender = x, xh_receiver = y\<rparr>)"
      unfolding un Let_def parts(1) bytes_packet_hdr' by simp
  qed
qed

lemma read_frame:
  assumes inv: "pb_inv rb" and r: "ar_read a 0 = (packet_hdr ty x y @ rest, True)" and l: "length rest \<le> 122"
  obtains b4 where "pb_data b4 = rest" "packetbuf_totlen b4 = of_nat (length rest)"
    "read_packet a me rb s = (if ty = TYPE_STROBE then (RIME_OK, b4, read_strobe a me \<lparr>xh_type = ty, xh_sender = x, xh_receiver = y\<rparr> s)
       else if ty = TYPE_DATA then read_data me \<lparr>xh_type = ty, xh_sender = x, xh_receiver = y\<rparr> b4 s else (0, b4, s))"
proof -
  obtain b4 where "pb_data b4 = rest" "packetbuf_totlen b4 = of_nat (length rest)"
    "frame_in a rb = (b4, Some \<lparr>xh_type = ty, xh_sender = x, xh_receiver = y\<rparr>)"
    by (rule frame_in_bytes [OF assms])
  then show thesis
    by (intro that [of b4]) (simp_all add: read_packet_def)
qed

lemma acks: "is_strobe_ack x (packet_hdr TYPE_STROBE_ACK me me) \<longleftrightarrow> x = me" "is_data_ack x (packet_hdr ty me me) \<longleftrightarrow> x = me"
  by (auto simp: is_strobe_ack_def is_data_ack_def bytes_packet_hdr' rimeaddr_cmp_eq)

text \<open>C26: The handshake. A node \<open>r\<close> that is awake answers the strobe of a sender \<open>me\<close> with one packet that \<open>me\<close>, and no other
  node, takes for a strobe acknowledgment, and it keeps listening for 197 ticks. When it then gets the packet that \<open>me\<close>
  sends, the layers above get the data with the headers exactly as \<open>me\<close> had them in its packet buffer, and the sender's and the
  receiver's address; \<open>me\<close>, and no other node, takes the answer for a data acknowledgment. A third node answers neither, and
  gets nothing.\<close>

theorem xmac_handshake:
  assumes "me \<noteq> r" and "r \<noteq> rimeaddr_null" and "xm_is_on s" and "\<not> xm_was_timeout s" and "pb_inv rb" and "pb_inv rb'"
    and "pb_inv b" and "\<not> packetbuf_is_reference b" and "6 < unat (pb_hdrptr b)" and "length (pb_hdr b @ pb_data b) \<le> 122"
    and "ar_read a1 0 = (packet_hdr TYPE_STROBE me r, True)"
    and "ar_read a2 0 = (pb_out (put_hdr a (packet_hdr TYPE_DATA me r) b), True)"
    and "read_packet a1 r rb s = (n1, b1, s1)" and "read_packet a2 r rb' s1 = (n2, b2, s2)"
  shows "(\<exists>ack. sent s1 = sent s @ [ack] \<and> (\<forall>x. is_strobe_ack x ack \<longleftrightarrow> x = me)) \<and>
    xm_radio_is_on s1 \<and> xm_tbccr2 s1 = ar_tbr a1 + 197 \<and> xm_tbcctl2 s1 \<and>
    n2 = of_nat (length (pb_hdr b @ pb_data b)) \<and> pb_data b2 = pb_hdr b @ pb_data b \<and>
    packetbuf_addr b2 PACKETBUF_ADDR_SENDER = me \<and> packetbuf_addr b2 PACKETBUF_ADDR_RECEIVER = r \<and>
    (\<exists>ack. sent s2 = sent s1 @ [ack] \<and> (\<forall>x. is_data_ack x ack \<longleftrightarrow> x = me)) \<and> \<not> xm_radio_is_on s2 \<and>
    (\<forall>x t. x \<noteq> r \<longrightarrow> fst (read_packet a1 x rb t) = RIME_OK \<and> fst (read_packet a2 x rb t) = 0 \<and>
       sent (snd (snd (read_packet a1 x rb t))) = sent t \<and> sent (snd (snd (read_packet a2 x rb t))) = sent t)"
proof -
  have f2: "ar_read a2 0 = (packet_hdr TYPE_DATA me r @ pb_hdr b @ pb_data b, True)"
    using put_hdr_out [OF assms(7,8) hdr_len assms(9)] assms(12) by simp
  have f1: "ar_read a1 0 = (packet_hdr TYPE_STROBE me r @ [], True)"
    using assms(11) by simp
  have ty: "TYPE_DATA \<noteq> TYPE_STROBE"
    by (simp add: TYPE_DATA_def TYPE_STROBE_def)
  obtain c1 where "read_packet a1 r rb s = (RIME_OK, c1, read_strobe a1 r \<lparr>xh_type = TYPE_STROBE, xh_sender = me, xh_receiver = r\<rparr> s)"
    by (rule read_frame [OF assms(5) f1, of r s]) simp_all
  then have s1: "s1 = read_strobe a1 r \<lparr>xh_type = TYPE_STROBE, xh_sender = me, xh_receiver = r\<rparr> s"
    using assms(13) by simp
  have "sent s1 = sent s @ [packet_hdr TYPE_STROBE_ACK me me]" "xm_radio_is_on s1" "xm_is_on s1"
    "xm_tbccr2 s1 = ar_tbr a1 + 197" "xm_tbcctl2 s1"
    using assms(1,3,4) by (simp_all add: s1 read_strobe_def rimeaddr_cmp_eq Let_def)
      (simp_all add: xmac_on_def radio_op_def TIMEOUT_TIME_def sent_def)
  moreover obtain c2 where c2: "pb_data c2 = pb_hdr b @ pb_data b" "packetbuf_totlen c2 = of_nat (length (pb_hdr b @ pb_data b))"
    "read_packet a2 r rb' s1 = read_data r \<lparr>xh_type = TYPE_DATA, xh_sender = me, xh_receiver = r\<rparr> c2 s1"
    using ty by (rule_tac read_frame [OF assms(6) f2 assms(10), of r s1]) simp
  moreover have "packetbuf_totlen (packetbuf_set_addr x t y) = packetbuf_totlen x" for x t y
    by (simp add: packetbuf_totlen_def packetbuf_hdrlen_def packetbuf_datalen_def packetbuf_set_addr_def)
  then have "n2 = of_nat (length (pb_hdr b @ pb_data b)) \<and> pb_data b2 = pb_hdr b @ pb_data b \<and>
      packetbuf_addr b2 PACKETBUF_ADDR_SENDER = me \<and> packetbuf_addr b2 PACKETBUF_ADDR_RECEIVER = r \<and>
      sent s2 = sent s1 @ [packet_hdr TYPE_DATA_ACK me me] \<and> \<not> xm_radio_is_on s2"
    using assms(2,14) c2 \<open>xm_is_on s1\<close> by (auto simp: read_data_def rimeaddr_cmp_eq Let_def)
  moreover have "fst (read_packet a1 x rb t) = RIME_OK \<and> fst (read_packet a2 x rb t) = 0 \<and>
       sent (snd (snd (read_packet a1 x rb t))) = sent t \<and> sent (snd (snd (read_packet a2 x rb t))) = sent t" if x: "x \<noteq> r" for x t
  proof -
    obtain d1 where "read_packet a1 x rb t = (RIME_OK, d1, read_strobe a1 x \<lparr>xh_type = TYPE_STROBE, xh_sender = me, xh_receiver = r\<rparr> t)"
      by (rule read_frame [OF assms(5) f1, of x t]) simp_all
    moreover obtain d2 where "read_packet a2 x rb t = read_data x \<lparr>xh_type = TYPE_DATA, xh_sender = me, xh_receiver = r\<rparr> d2 t"
      using ty by (rule_tac read_frame [OF assms(5) f2 assms(10), of x t]) simp
    ultimately show ?thesis
      using x assms(2) by (simp add: read_strobe_def read_data_def rimeaddr_cmp_eq)
  qed
  ultimately show ?thesis
    using acks by blast
qed

text \<open>What the two reads of the radio deliver at the receiver: the strobe, then the packet.\<close>

theorem xmac_handshake_witness:
  "let a1 = air_ex\<lparr>ar_read := \<lambda>_. (packet_hdr TYPE_STROBE me_ex peer_ex, True)\<rparr>;
       a2 = air_ex\<lparr>ar_read := \<lambda>_. (pb_out (put_hdr air_ex (packet_hdr TYPE_DATA me_ex peer_ex) pb_send_ex), True)\<rparr>;
       (n1, b1, s1) = read_packet a1 peer_ex pb_send_ex xmac_ex; (n2, b2, s2) = read_packet a2 peer_ex pb_send_ex s1
   in n2 = 7 \<and> pb_data b2 = [0, 0, 0, 0, 3, 4, 5] \<and> packetbuf_addr b2 PACKETBUF_ADDR_SENDER = me_ex"
proof -
  define a1 where "a1 = air_ex\<lparr>ar_read := \<lambda>_. (packet_hdr TYPE_STROBE me_ex peer_ex, True)\<rparr>"
  define a2 where "a2 = air_ex\<lparr>ar_read := \<lambda>_. (pb_out (put_hdr air_ex (packet_hdr TYPE_DATA me_ex peer_ex) pb_send_ex), True)\<rparr>"
  obtain n1 b1 s1 n2 b2 s2 where r: "read_packet a1 peer_ex pb_send_ex xmac_ex = (n1, b1, s1)" "read_packet a2 peer_ex pb_send_ex s1 = (n2, b2, s2)"
    by (metis prod_cases3)
  have d: "pb_hdr pb_send_ex @ pb_data pb_send_ex = [0, 0, 0, 0, 3, 4, 5]"
    by code_simp
  have i: "pb_inv pb_send_ex" "\<not> packetbuf_is_reference pb_send_ex" "6 < unat (pb_hdrptr pb_send_ex)"
    by (simp_all add: pb_send_ex_def pb_example_def pb_inv_def packetbuf_set_addr_def packetbuf_is_reference_def pb_sizes)
  have n: "me_ex \<noteq> peer_ex" "peer_ex \<noteq> rimeaddr_null" "xm_is_on xmac_ex" "\<not> xm_was_timeout xmac_ex"
    by (simp_all add: me_ex_def peer_ex_def rimeaddr_null_def xmac_ex_def)
  have ar: "ar_read a1 0 = (packet_hdr TYPE_STROBE me_ex peer_ex, True)"
    "ar_read a2 0 = (pb_out (put_hdr air_ex (packet_hdr TYPE_DATA me_ex peer_ex) pb_send_ex), True)"
    by (simp_all add: a1_def a2_def)
  from xmac_handshake [OF n i(1,1) i _ ar r] show ?thesis
    using r unfolding d by (simp add: a1_def [symmetric] a2_def [symmetric] Let_def)
qed

end
