(* ===== verification/Xmac_Cycle.thy ===== *)
theory Xmac_Cycle
  imports Xmac_Props Relunicast
begin

text \<open>
  X-MAC over time: the power cycle keeps its period whatever is received, and the reception rate is computed from counters that
  stay consistent.
\<close>

lemma on_off_keep [simp]:
  "xm_pc (xmac_on s) = xm_pc s" "xm_last_on (xmac_on s) = xm_last_on s" "xm_tbccr3 (xmac_on s) = xm_tbccr3 s"
  "xm_tbcctl3 (xmac_on s) = xm_tbcctl3 s" "xm_was_timeout (xmac_on s) = xm_was_timeout s"
  "xm_we_are_sending (xmac_on s) = xm_we_are_sending s"
  "xm_pc (xmac_off s) = xm_pc s" "xm_last_on (xmac_off s) = xm_last_on s" "xm_tbccr3 (xmac_off s) = xm_tbccr3 s"
  "xm_tbcctl3 (xmac_off s) = xm_tbcctl3 s" "xm_was_timeout (xmac_off s) = xm_was_timeout s"
  "xm_we_are_sending (xmac_off s) = xm_we_are_sending s"
  "xm_pc (radio_op p s) = xm_pc s" "xm_last_on (radio_op p s) = xm_last_on s" "xm_tbccr3 (radio_op p s) = xm_tbccr3 s"
  "xm_tbcctl3 (radio_op p s) = xm_tbcctl3 s" "xm_was_timeout (radio_op p s) = xm_was_timeout s"
  "xm_we_are_sending (radio_op p s) = xm_we_are_sending s" "xm_config (radio_op p s) = xm_config s"
  "xm_is_on s \<Longrightarrow> xm_radio_is_on (xmac_on s)"
  by (simp_all add: xmac_on_def xmac_off_def radio_op_def)

section \<open>The period of the power cycle\<close>










lemma read_packet_cases:
  assumes "P s" and "\<And>h. P (read_strobe a me h s)" and "\<And>h b. P (snd (snd (read_data me h b s)))"
  shows "P (snd (snd (read_packet a me b s)))"
  using assms by (simp add: read_packet_def split: prod.split option.split)







section \<open>The reception rate\<close>

definition prr_inv :: "xmac \<Rightarrow> bool" where
  "prr_inv s \<longleftrightarrow> xm_handshakes_succ s \<le> xm_handshakes_total s \<and> xm_handshakes_total s < HANDSHAKES_RESET_PERIOD"

datatype xmac_event =
    Xe_Send air packetbuf | Xe_Read air packetbuf | Xe_Powercycle | Xe_Timeout | Xe_Init air | Xe_On air | Xe_Off bool | Xe_Config air xmac_config
  | Xe_Reset_Prr

fun xmac_step :: "rimeaddr \<Rightarrow> xmac \<Rightarrow> xmac_event \<Rightarrow> xmac" where
  "xmac_step me s (Xe_Send a b) = (case send_packet a me b s of Some (b1, s1) \<Rightarrow> s1 | None \<Rightarrow> s)"
| "xmac_step me s (Xe_Read a b) = snd (snd (read_packet a me b s))"
| "xmac_step me s Xe_Powercycle = powercycle s"
| "xmac_step me s Xe_Timeout = xmac_timeout s"
| "xmac_step me s (Xe_Init a) = xmac_init a s"
| "xmac_step me s (Xe_On a) = turn_on a s"
| "xmac_step me s (Xe_Off keep) = turn_off keep s"
| "xmac_step me s (Xe_Config a c) = set_xmac_config a c s"
| "xmac_step me s Xe_Reset_Prr = xmac_reset_prr s"

text \<open>Only the transmissions change the counters.\<close>

definition prr_of :: "xmac \<Rightarrow> u32 \<times> u32" where
  "prr_of s = (xm_handshakes_succ s, xm_handshakes_total s)"

lemma prr_of_inv: "prr_of s = prr_of t \<Longrightarrow> prr_inv s = prr_inv t"
  by (simp add: prr_of_def prr_inv_def)

lemma prr_of_on_off [simp]: "prr_of (xmac_on s) = prr_of s" "prr_of (xmac_off s) = prr_of s"
  by (simp_all add: prr_of_def xmac_on_def xmac_off_def radio_op_def)

lemma prr_of_upd [simp]:
  "prr_of (radio_op p s) = prr_of s" "prr_of (s\<lparr>xm_we_are_sending := x\<rparr>) = prr_of s" "prr_of (s\<lparr>xm_got_data_ack := x\<rparr>) = prr_of s"
  "prr_of (s\<lparr>xm_waiting_for_packet := x\<rparr>) = prr_of s" "prr_of (s\<lparr>xm_ops := l\<rparr>) = prr_of s" "prr_of (s\<lparr>xm_energest := e\<rparr>) = prr_of s"
  "prr_of (s\<lparr>xm_in_on_phase := x\<rparr>) = prr_of s" "prr_of (s\<lparr>xm_last_on := t\<rparr>) = prr_of s" "prr_of (s\<lparr>xm_was_timeout := x\<rparr>) = prr_of s"
  "prr_of (s\<lparr>xm_tbccr2 := t\<rparr>) = prr_of s" "prr_of (s\<lparr>xm_tbccr3 := t\<rparr>) = prr_of s" "prr_of (s\<lparr>xm_tbcctl2 := x\<rparr>) = prr_of s"
  "prr_of (s\<lparr>xm_tbcctl3 := x\<rparr>) = prr_of s" "prr_of (s\<lparr>xm_pc := q\<rparr>) = prr_of s" "prr_of (s\<lparr>xm_is_on := x\<rparr>) = prr_of s"
  "prr_of (s\<lparr>xm_radio_is_on := x\<rparr>) = prr_of s" "prr_of (s\<lparr>xm_config := c\<rparr>) = prr_of s"
  by (simp_all add: prr_of_def radio_op_def)

lemma prr_of_quiet [simp]:
  "prr_of (powercycle s) = prr_of s" "prr_of (xmac_timeout s) = prr_of s" "prr_of (xmac_init a s) = prr_of s"
  "prr_of (turn_on a s) = prr_of s" "prr_of (turn_off keep s) = prr_of s" "prr_of (set_xmac_config a c s) = prr_of s"
  by (simp_all add: powercycle_def off_phase_def on_phase_def xmac_timeout_def xmac_init_def turn_on_def turn_off_def
      set_xmac_config_def Let_def split: xmac_pc.splits)

lemma prr_of_read [simp]: "prr_of (snd (snd (read_packet a me b s))) = prr_of s"
  by (rule read_packet_cases [where P = "\<lambda>t. prr_of t = prr_of s"]) (simp_all add: read_strobe_def read_data_def Let_def)

text \<open>One more handshake.\<close>

lemma halve_prr:
  assumes "prr_inv s" and "xm_handshakes_total t = xm_handshakes_total s + 1"
    and "xm_handshakes_succ t = xm_handshakes_succ s \<or> xm_handshakes_succ t = xm_handshakes_succ s + 1"
  shows "prr_inv (halve_handshakes t)"
proof -
  have s: "unat (xm_handshakes_succ s) \<le> unat (xm_handshakes_total s)" "unat (xm_handshakes_total s) < 20"
    using assms(1) by (simp_all add: prr_inv_def HANDSHAKES_RESET_PERIOD_def word_le_nat_alt word_less_nat_alt)
  have inc: "unat w < 20 \<Longrightarrow> unat (w + 1) = unat w + 1" for w :: u32
    by (simp add: unat_word_ariths(1) unat32_less)
  have t: "unat (xm_handshakes_succ t) \<le> unat (xm_handshakes_total t)" "unat (xm_handshakes_total t) \<le> 20"
    using assms(2,3) s inc [of "xm_handshakes_succ s"] inc [of "xm_handshakes_total s"] by auto
  have "unat (drop_bit 1 w) = unat w div 2" for w :: u32
    unfolding unat_drop_bit_eq by (simp add: drop_bit_eq_div)
  with t show ?thesis
    by (auto simp: prr_inv_def halve_handshakes_def HANDSHAKES_RESET_PERIOD_def word_le_nat_alt word_less_nat_alt intro: div_le_mono)
qed

lemma send_data_prr:
  assumes "prr_inv s" and "send_data a me packet strobe n m s = Some t"
  shows "prr_inv t"
proof -
  from assms(2) obtain u where u: "prr_of t = prr_of (halve_handshakes u)" "xm_handshakes_total u = xm_handshakes_total s + 1"
    "xm_handshakes_succ u = xm_handshakes_succ s \<or> xm_handshakes_succ u = xm_handshakes_succ s + 1"
    by (auto simp: send_data_def Let_def radio_op_def split: if_splits)
  then show ?thesis
    using halve_prr [OF assms(1) u(2,3)] prr_of_inv by blast
qed

lemma pred_bind: "(\<And>v. pred_option P (f v)) \<Longrightarrow> pred_option P (Option.bind x f)"
  by (cases x) simp_all

lemma let_intro: "(\<And>y. y = x \<Longrightarrow> P (f y)) \<Longrightarrow> P (Let x f)"
  by (simp add: Let_def)

lemma count_strobes_prr: "prr_inv s \<Longrightarrow> prr_inv (count_strobes got s)"
  unfolding count_strobes_def by (rule halve_prr [of s]) auto

lemma send_packet_prr:
  assumes i: "prr_inv s"
  shows "pred_option (\<lambda>(b1, t). prr_inv t) (send_packet a me b s)"
proof -
  have last: "pred_option prr_inv (if q then send_data a me packet strobe n m s5 else Some s5)" if "prr_inv s5" for q packet strobe n m s5
    using that send_data_prr by (cases "send_data a me packet strobe n m s5") (auto split: if_splits)
  have fin: "(\<lambda>(b1, t). prr_inv t) \<circ> (\<lambda>s6. (b1, s6\<lparr>xm_we_are_sending := False\<rparr>)) = prr_inv" for b1
    by (rule ext) (simp add: prr_inv_def)
  show ?thesis
    unfolding send_packet_def
    apply (split if_split, intro conjI impI)
     apply (use i in simp)
    apply (rule let_intro [where P = "pred_option (\<lambda>(b1, t). prr_inv t)"])+
    apply (rule pred_bind)
    apply (split prod.split, intro allI impI)+
    apply (rule let_intro [where P = "pred_option (\<lambda>(b1, t). prr_inv t)"])+
    apply (simp (no_asm) only: option.pred_map fin)
    apply (rule last)
    subgoal premises p for s1 receiver is_broadcast b1 strobe s2 v got v1 n v2 m ops s3 s4 s5
    proof -
      have "prr_of s3 = prr_of s"
        by (simp add: p(2,7,11))
      with i have s3: "prr_inv s3"
        using prr_of_inv by blast
      have "prr_inv s4"
      proof (cases is_broadcast)
        case True
        then show ?thesis
          using s3 by (simp add: p(12) prr_inv_def)
      next
        case False
        then show ?thesis
          using count_strobes_prr [OF s3] by (simp add: p(12))
      qed
      moreover have "prr_of s5 = prr_of s4"
        unfolding p(13) by simp
      ultimately show ?thesis
        using prr_of_inv by blast
    qed
    done
qed

lemma xmac_step_quiet: "(\<forall>a b. e \<noteq> Xe_Send a b) \<Longrightarrow> e \<noteq> Xe_Reset_Prr \<Longrightarrow> prr_of (xmac_step me s e) = prr_of s"
  by (cases e) simp_all

lemma prr_inv_reset: "prr_inv (xmac_reset_prr s)"
  by (simp add: xmac_reset_prr_def prr_inv_def HANDSHAKES_RESET_PERIOD_def)

lemma xmac_step_prr:
  assumes "prr_inv s"
  shows "prr_inv (xmac_step me s e)"
proof -
  consider a b where "e = Xe_Send a b" | "e = Xe_Reset_Prr" | "(\<forall>a b. e \<noteq> Xe_Send a b) \<and> e \<noteq> Xe_Reset_Prr"
    by blast
  then show ?thesis
  proof cases
    case (1 a b)
    then show ?thesis
      using send_packet_prr [OF assms, of a me b] assms by (cases "send_packet a me b s") auto
  next
    case 3
    then show ?thesis
      using assms prr_of_inv xmac_step_quiet by blast
  qed (simp add: prr_inv_reset)
qed

interpretation xmm: machine "xmac_step me" "\<lambda>_ _. True" prr_inv for me
  by unfold_locales (rule xmac_step_prr)

lemma run_ok_trivial: "run_ok f (\<lambda>_ _. True) s es"
  by (induction es arbitrary: s) simp_all

lemma get_prr:
  assumes "prr_inv s"
  shows "uint (xmac_get_prr s) = (if xm_handshakes_succ s = 0 then 1 else uint (xm_handshakes_succ s) * 1000 div uint (xm_handshakes_total s))"
    "1 \<le> xmac_get_prr s" "xmac_get_prr s \<le> 1000"
proof -
  define n where "n = unat (xm_handshakes_succ s)"
  define m where "m = unat (xm_handshakes_total s)"
  have nm: "n \<le> m" "m < 20"
    using assms by (simp_all add: n_def m_def prr_inv_def HANDSHAKES_RESET_PERIOD_def word_le_nat_alt word_less_nat_alt)
  have u: "unat (xmac_get_prr s) = (if n = 0 then 1 else n * 1000 div m)"
  proof (cases "n = 0")
    case True
    then have "xm_handshakes_succ s = 0"
      by (simp add: n_def unat_eq_0)
    with True show ?thesis
      by (simp add: xmac_get_prr_def)
  next
    case False
    with nm have "xm_handshakes_succ s \<noteq> 0" "xm_handshakes_total s \<noteq> 0"
      by (auto simp: n_def m_def)
    moreover have "unat (xm_handshakes_succ s * 1000) = n * 1000"
      using nm unat32_mult_less [of "xm_handshakes_succ s" 1000] by (simp add: n_def)
    moreover have "n * 1000 div m \<le> 1000"
      using nm div_le_mono [of "n * 1000" "m * 1000" m] False by simp
    ultimately show ?thesis
      using False by (simp add: xmac_get_prr_def unat_ucast_32_16 unat_div_distrib m_def [symmetric])
  qed
  have "n \<noteq> 0 \<Longrightarrow> 1 \<le> n * 1000 div m" "n * 1000 div m \<le> 1000"
    using nm div_le_mono [of "n * 1000" "m * 1000" m] div_le_mono [of m "n * 1000" m] by (cases "m = 0"; simp)+
  then have "1 \<le> unat (xmac_get_prr s)" "unat (xmac_get_prr s) \<le> 1000"
    using u by simp_all
  then show "1 \<le> xmac_get_prr s" "xmac_get_prr s \<le> 1000"
    by (simp_all add: word_le_nat_alt)
  have "n = 0 \<longleftrightarrow> xm_handshakes_succ s = 0"
    by (simp add: n_def unat_eq_0)
  then show "uint (xmac_get_prr s) = (if xm_handshakes_succ s = 0 then 1 else uint (xm_handshakes_succ s) * 1000 div uint (xm_handshakes_total s))"
    using u unfolding uint_nat n_def m_def
    by (cases "xm_handshakes_succ s = 0") (simp_all only: of_nat_1 zdiv_int of_nat_mult of_nat_numeral simp_thms if_True if_False)
qed

text \<open>Whatever happens after the counters have been reset, the reception rate that \<open>xmac_get_prr\<close> reports is between 1 and 1000 (it is
  used as a divisor), it is 1 if no handshake is counted as successful and otherwise the share of the successful ones in
  thousandths, rounded down; fewer than 20 handshakes are counted, so an old one has little weight.\<close>

theorem xmac_prr:
  "let s = foldl (xmac_step me) (xmac_reset_prr s0) es
   in 1 \<le> xmac_get_prr s \<and> xmac_get_prr s \<le> 1000 \<and>
      uint (xmac_get_prr s) = (if xm_handshakes_succ s = 0 then 1 else uint (xm_handshakes_succ s) * 1000 div uint (xm_handshakes_total s)) \<and>
      xm_handshakes_succ s \<le> xm_handshakes_total s \<and> xm_handshakes_total s < 20"
proof -
  have "prr_inv (foldl (xmac_step me) (xmac_reset_prr s0) es)"
    by (rule xmm.inv_run [OF prr_inv_reset run_ok_trivial])
  then show ?thesis
    unfolding Let_def using get_prr by (simp add: prr_inv_def HANDSHAKES_RESET_PERIOD_def)
qed

section \<open>Reliable unicast over X-MAC\<close>

text \<open>The callback that sends the packet, with \<open>xmac_got_data_ack\<close> after it.\<close>

definition xmac_out :: "air \<Rightarrow> rimeaddr \<Rightarrow> xmac \<Rightarrow> packetbuf \<Rightarrow> packetbuf \<times> bool" where
  "xmac_out a me x b = (case send_packet a me b x of Some (b1, x1) \<Rightarrow> (b1, xmac_got_data_ack x1) | None \<Rightarrow> (b, False))"

definition over_xmac :: "u8 list \<Rightarrow> channel \<Rightarrow> air \<Rightarrow> xmac \<Rightarrow> env \<Rightarrow> env" where
  "over_xmac over ch a x e = e\<lparr>ev_out := chameleon_output over (ar_ext a) (xmac_out a (ev_me e) x) ch\<rparr>"

lemma send_outcome:
  "ru_rxmit c \<le> ru_max_rxmit c \<Longrightarrow>
   \<exists>b. pb_addrs b PACKETBUF_ADDR_RECEIVER = ru_receiver c \<and>
     (snd (xmac_out a (ev_me e) x b) \<longrightarrow> fst (send (over_xmac over ch a x e) s c) = Sent (ru_rxmit c) \<and>
        ru_is_tx (snd (snd (send (over_xmac over ch a x e) s c))) = 0) \<and>
     (\<not> snd (xmac_out a (ev_me e) x b) \<longrightarrow> fst (send (over_xmac over ch a x e) s c) = Rescheduled)"
proof -
  assume r: "ru_rxmit c \<le> ru_max_rxmit c"
  let ?e = "over_xmac over ch a x e"
  define c1 where "c1 = c\<lparr>ru_rxmit := ru_rxmit c + 1\<rparr>"
  define b where "b = packetbuf_compact (ar_ext a) (packetbuf_set_attr (pack_header over ch (packetbuf_set_addr
    (packetbuf_set_addr (tx_packet ?e s c1) PACKETBUF_ADDR_RECEIVER (ru_receiver c)) PACKETBUF_ADDR_SENDER (ev_me e))) PACKETBUF_ATTR_CHANNEL (ch_no ch))"
  have u: "unicast_send (ev_me ?e) (ev_out ?e) (tx_packet ?e s c1) (ru_receiver c1) = xmac_out a (ev_me e) x b"
    by (simp add: unicast_send_def broadcast_send_def abc_send_def over_xmac_def chameleon_output_def rime_output_def b_def c1_def)
  have "pb_addrs b PACKETBUF_ADDR_RECEIVER = ru_receiver c"
    by (simp add: b_def pack_header_def Let_def packetbuf_hdralloc_def packetbuf_set_addr_def packetbuf_set_attr_def packetbuf_compact_def)
  moreover obtain b' q where q: "xmac_out a (ev_me e) x b = (b', q)"
    by fastforce
  moreover have "send ?e s c = (case post_send ?e c1 q of (r, c2) \<Rightarrow> (r, s\<lparr>nt_pb := b'\<rparr>, c2))"
    unfolding send_def Let_def c1_def [symmetric] if_not_P [OF leD [OF r]] u q by simp
  ultimately show ?thesis
    by (intro exI [of _ b]) (auto simp: post_send_def Let_def c1_def split: prod.splits)
qed


text \<open>While X-MAC is off, as in a Glossy phase, a transmission ends at once with the packet unsent, but \<open>xmac_got_data_ack\<close> still has
  the result of the previous one: if that had been acknowledged, the connection is told that its packet has been sent, and moves on to the
  next packet.\<close>

theorem sent_while_off:
  assumes "\<not> xm_is_on x" and "xm_got_data_ack x" and "ru_rxmit c \<le> ru_max_rxmit c"
  shows "fst (send (over_xmac over ch a x e) s c) = Sent (ru_rxmit c) \<and> ru_is_tx (snd (snd (send (over_xmac over ch a x e) s c))) = 0 \<and>
    (\<forall>b. send_packet a me b x = Some (b, x))"
proof -
  have "snd (xmac_out a (ev_me e) x b)" for b
    using assms(1,2) by (simp add: xmac_out_def send_packet_def xmac_got_data_ack_def)
  then show ?thesis
    using send_outcome [OF assms(3), of a e x over ch s] assms(1) by (simp add: send_packet_def)
qed

definition channel_ex :: channel where
  "channel_ex = \<lparr>ch_no = 144, ch_attrlist = [], ch_hdrsize = 0\<rparr>"

theorem sent_while_off_witness:
  "fst (send (over_xmac [] channel_ex air_ex (xmac_ex\<lparr>xm_is_on := False, xm_got_data_ack := True\<rparr>) env_example) net_start ru_start) = Sent 0 \<and>
   send_packet air_ex me_ex pb_send_ex (xmac_ex\<lparr>xm_is_on := False, xm_got_data_ack := True\<rparr>) =
     Some (pb_send_ex, xmac_ex\<lparr>xm_is_on := False, xm_got_data_ack := True\<rparr>)"
proof -
  have "ru_rxmit ru_start \<le> ru_max_rxmit ru_start" "ru_rxmit ru_start = 0"
    by (simp_all add: ru_start_def)
  with sent_while_off [of "xmac_ex\<lparr>xm_is_on := False, xm_got_data_ack := True\<rparr>" ru_start] show ?thesis
    by simp
qed


end
