(* ===== verification/Cc2420.thy ===== *)
theory Cc2420
  imports Packetbuf Energest
begin

text \<open>
  The driver of the radio chip, \<open>core/dev/cc2420.c\<close>, which X-MAC and Low-Power Probing use, as the program is built: no checksum and
  no time stamps of its own, no automatic acknowledgments, \<open>GLOSSY\<close>. What the driver does to the chip is a list of commands;
  what it reads from the chip and its pins are the inputs. The statistics and the interrupt flags of the processor but for the
  enable bit of FIFOP are left out.
\<close>

section \<open>The chip\<close>

text \<open>Bits of the status byte, command strobes and registers of \<open>cc2420_const.h\<close>.\<close>

definition CC2420_XOSC16M_STABLE :: nat where "CC2420_XOSC16M_STABLE = 6"
definition CC2420_TX_ACTIVE :: nat where "CC2420_TX_ACTIVE = 3"
definition CC2420_RSSI_VALID :: nat where "CC2420_RSSI_VALID = 1"
definition CC2420_SXOSCON :: u8 where "CC2420_SXOSCON = 0x01"
definition CC2420_SRXON :: u8 where "CC2420_SRXON = 0x03"
definition CC2420_STXON :: u8 where "CC2420_STXON = 0x04"
definition CC2420_SRFOFF :: u8 where "CC2420_SRFOFF = 0x06"
definition CC2420_SFLUSHRX :: u8 where "CC2420_SFLUSHRX = 0x08"
definition CC2420_SFLUSHTX :: u8 where "CC2420_SFLUSHTX = 0x09"
definition CC2420_MDMCTRL0 :: u8 where "CC2420_MDMCTRL0 = 0x11"
definition CC2420_MDMCTRL1 :: u8 where "CC2420_MDMCTRL1 = 0x12"
definition CC2420_RSSI :: u8 where "CC2420_RSSI = 0x13"
definition CC2420_TXCTRL :: u8 where "CC2420_TXCTRL = 0x15"
definition CC2420_RXCTRL1 :: u8 where "CC2420_RXCTRL1 = 0x17"
definition CC2420_FSCTRL :: u8 where "CC2420_FSCTRL = 0x18"
definition CC2420_SECCTRL0 :: u8 where "CC2420_SECCTRL0 = 0x19"
definition CC2420_IOCFG0 :: u8 where "CC2420_IOCFG0 = 0x1C"
definition CC2420RAM_IEEEADDR :: nat where "CC2420RAM_IEEEADDR = 0x160"
definition CC2420RAM_PANID :: nat where "CC2420RAM_PANID = 0x168"
definition CC2420RAM_SHORTADDR :: nat where "CC2420RAM_SHORTADDR = 0x16A"

text \<open>The macros of the driver; \<open>CHECKSUM_LEN\<close> and \<open>TIMESTAMP_LEN\<close> are 0.\<close>

definition CC2420_MAX_PACKET_LEN :: u8 where "CC2420_MAX_PACKET_LEN = 127"
definition FOOTER_LEN :: nat where "FOOTER_LEN = 2"
definition AUX_LEN :: nat where "AUX_LEN = 0 + 0 + FOOTER_LEN"
definition FOOTER1_CRC_OK :: u8 where "FOOTER1_CRC_OK = 0x80"
definition FOOTER1_CORRELATION :: u8 where "FOOTER1_CORRELATION = 0x7f"
definition LOOP_20_SYMBOLS :: nat where "LOOP_20_SYMBOLS = 400"
definition AUTOACK :: u16 where "AUTOACK = push_bit 4 1"
definition ADR_DECODE :: u16 where "ADR_DECODE = push_bit 11 1"
definition RXFIFO_PROTECTION :: u16 where "RXFIFO_PROTECTION = push_bit 9 1"
definition CORR_THR :: "u16 \<Rightarrow> u16" where "CORR_THR n = push_bit 6 (n AND 0x1f)"
definition FIFOP_THR :: "u16 \<Rightarrow> u16" where "FIFOP_THR n = n AND 0x7f"
definition RXBPF_LOCUR :: u16 where "RXBPF_LOCUR = push_bit 13 1"

text \<open>What the driver tells the chip over SPI and the pins.\<close>

datatype chip_command = Strobe u8 | Setreg u8 u16 | Write_Fifo "u8 list" | Write_Ram nat "u8 list" | Vreg_Active | Reset_Active | Reset_Inactive

text \<open>
  What the driver reads: the successive status bytes, levels of the pins SFD, FIFOP and FIFO, bytes of the receive FIFO, values of
  \<open>RTIMER_NOW()\<close>, and the register of the signal strength. The other registers hold what was written to them.
\<close>

record chip =
  ch_status :: "nat \<Rightarrow> u8"
  ch_sfd :: "nat \<Rightarrow> bool"
  ch_fifop :: "nat \<Rightarrow> bool"
  ch_fifo :: "nat \<Rightarrow> bool"
  ch_rx :: "nat \<Rightarrow> u8"
  ch_now :: "nat \<Rightarrow> rtimer_clock_t"
  ch_rssi :: u16

section \<open>State\<close>

text \<open>\<open>cc_cmds\<close> are the commands, the latest first; the numbers \<open>cc_n_...\<close> count what has been read.\<close>

record cc2420 =
  cc_receiver_callback :: "nat option"
  cc_last_rssi :: u8
  cc_last_correlation :: u8
  cc_receive_on :: bool
  cc_pan_id :: u16
  cc_channel :: u16
  cc_rxptr :: u8
  cc_locked :: bool
  cc_lock_on :: bool
  cc_lock_off :: bool
  cc_arrival_time :: u32
  cc_polled :: bool
  cc_fifop_int :: bool
  cc_energest :: energest
  cc_regs :: "u8 \<Rightarrow> u16"
  cc_cmds :: "chip_command list"
  cc_n_status :: nat
  cc_n_sfd :: nat
  cc_n_fifop :: nat
  cc_n_fifo :: nat
  cc_n_rx :: nat
  cc_n_now :: nat

definition command :: "chip_command \<Rightarrow> cc2420 \<Rightarrow> cc2420" where
  "command c s = s\<lparr>cc_cmds := c # cc_cmds s\<rparr>"

section \<open>Access to the chip\<close>

definition getrxdata :: "chip \<Rightarrow> nat \<Rightarrow> cc2420 \<Rightarrow> u8 list \<times> cc2420" where
  "getrxdata h len s =
     (map (\<lambda>i. ch_rx h (cc_n_rx s + i)) [0..<len],
      s\<lparr>cc_n_rx := cc_n_rx s + len, cc_rxptr := (cc_rxptr s + of_nat len) AND 0x7f\<rparr>)"

definition getrxbyte :: "chip \<Rightarrow> cc2420 \<Rightarrow> u8 \<times> cc2420" where
  "getrxbyte h s = (ch_rx h (cc_n_rx s), s\<lparr>cc_n_rx := cc_n_rx s + 1, cc_rxptr := (cc_rxptr s + 1) AND 0x7f\<rparr>)"

definition cc_strobe :: "u8 \<Rightarrow> cc2420 \<Rightarrow> cc2420" where
  "cc_strobe regname s = command (Strobe regname) s"

definition flushrx :: "cc2420 \<Rightarrow> cc2420" where
  "flushrx s = (cc_strobe CC2420_SFLUSHRX (cc_strobe CC2420_SFLUSHRX (s\<lparr>cc_n_rx := cc_n_rx s + 1\<rparr>)))\<lparr>cc_rxptr := 0\<rparr>"

definition status :: "chip \<Rightarrow> cc2420 \<Rightarrow> u8 \<times> cc2420" where
  "status h s = (ch_status h (cc_n_status s), s\<lparr>cc_n_status := cc_n_status s + 1\<rparr>)"

text \<open>The busy waits, for a status byte with \<open>P\<close> and for SFD to fall; \<open>None\<close> if they do not end.\<close>

partial_function (option) wait_status :: "chip \<Rightarrow> (u8 \<Rightarrow> bool) \<Rightarrow> cc2420 \<Rightarrow> cc2420 option" where
  "wait_status h P s = (case status h s of (b, s1) \<Rightarrow> if P b then Some s1 else wait_status h P s1)"

partial_function (option) wait_sfd :: "chip \<Rightarrow> cc2420 \<Rightarrow> cc2420 option" where
  "wait_sfd h s =
     (let s1 = s\<lparr>cc_n_sfd := cc_n_sfd s + 1\<rparr> in if ch_sfd h (cc_n_sfd s) then wait_sfd h s1 else Some s1)"

definition wait_tx :: "chip \<Rightarrow> cc2420 \<Rightarrow> cc2420 option" where
  "wait_tx h s = wait_status h (\<lambda>b. \<not> bit b CC2420_TX_ACTIVE) s"

definition getreg :: "chip \<Rightarrow> u8 \<Rightarrow> cc2420 \<Rightarrow> u16" where
  "getreg h regname s = (if regname = CC2420_RSSI then ch_rssi h else cc_regs s regname)"

definition setreg :: "u8 \<Rightarrow> u16 \<Rightarrow> cc2420 \<Rightarrow> cc2420" where
  "setreg regname value s = (command (Setreg regname value) s)\<lparr>cc_regs := (cc_regs s)(regname := value)\<rparr>"

definition set_txpower :: "chip \<Rightarrow> u8 \<Rightarrow> cc2420 \<Rightarrow> cc2420" where
  "set_txpower h pwr s =
     setreg CC2420_TXCTRL ((getreg h CC2420_TXCTRL s AND 0xffe0) OR (ucast pwr AND 0x1f)) s"

definition cc2420_get_txpower :: "chip \<Rightarrow> cc2420 \<Rightarrow> u16" where
  "cc2420_get_txpower h s = getreg h CC2420_TXCTRL s AND 0x001f"

section \<open>The receiver and the lock\<close>

text \<open>\<open>ENERGEST_ON\<close> and \<open>ENERGEST_OFF\<close> read the clock.\<close>

definition energy_on :: "chip \<Rightarrow> energest_type \<Rightarrow> cc2420 \<Rightarrow> cc2420" where
  "energy_on h ty s = s\<lparr>cc_energest := ENERGEST_ON (ch_now h (cc_n_now s)) (cc_energest s) ty, cc_n_now := cc_n_now s + 1\<rparr>"

definition energy_off :: "chip \<Rightarrow> energest_type \<Rightarrow> cc2420 \<Rightarrow> cc2420" where
  "energy_off h ty s = s\<lparr>cc_energest := ENERGEST_OFF (ch_now h (cc_n_now s)) (cc_energest s) ty, cc_n_now := cc_n_now s + 1\<rparr>"

definition on :: "chip \<Rightarrow> cc2420 \<Rightarrow> cc2420" where
  "on h s = flushrx (cc_strobe CC2420_SRXON ((energy_on h ENERGEST_TYPE_LISTEN s)\<lparr>cc_receive_on := True, cc_fifop_int := True\<rparr>))"

definition off :: "chip \<Rightarrow> cc2420 \<Rightarrow> cc2420 option" where
  "off h s =
     map_option (\<lambda>s1. energy_off h ENERGEST_TYPE_LISTEN ((cc_strobe CC2420_SRFOFF s1)\<lparr>cc_fifop_int := False\<rparr>))
       (wait_tx h (s\<lparr>cc_receive_on := False\<rparr>))"

definition GET_LOCK :: "cc2420 \<Rightarrow> cc2420" where
  "GET_LOCK s = s\<lparr>cc_locked := True\<rparr>"

definition RELEASE_LOCK :: "chip \<Rightarrow> cc2420 \<Rightarrow> cc2420 option" where
  "RELEASE_LOCK h s =
     (let s1 = (if cc_lock_on s then (on h s)\<lparr>cc_lock_on := False\<rparr> else s)
      in map_option (\<lambda>s2. s2\<lparr>cc_locked := False\<rparr>)
           (if cc_lock_off s1 then map_option (\<lambda>s2. s2\<lparr>cc_lock_off := False\<rparr>) (off h s1) else Some s1))"

definition cc2420_off :: "chip \<Rightarrow> cc2420 \<Rightarrow> cc2420 option" where
  "cc2420_off h s =
     (if \<not> cc_receive_on s then Some s
      else if cc_locked s then Some (s\<lparr>cc_lock_off := True\<rparr>)
      else off h s)"

definition cc2420_on :: "chip \<Rightarrow> cc2420 \<Rightarrow> cc2420 option" where
  "cc2420_on h s =
     (if cc_receive_on s then Some s
      else if cc_locked s then Some (s\<lparr>cc_lock_on := True\<rparr>)
      else Some (on h s))"

text \<open>
  The calls of \<open>cc2420_on\<close> (\<open>True\<close>) and \<open>cc2420_off\<close> (\<open>False\<close>) that interrupts make one after the other. They come while the lock is held,
  when they only set \<open>lock_on\<close> and \<open>lock_off\<close>, which nothing else looks at before the lock is released: the operations below take them
  right after \<open>GET_LOCK\<close>.
\<close>

definition interrupted :: "chip \<Rightarrow> bool list \<Rightarrow> cc2420 \<Rightarrow> cc2420 option" where
  "interrupted h calls s = foldl (\<lambda>o1 c. Option.bind o1 (if c then cc2420_on h else cc2420_off h)) (Some s) calls"

definition cc2420_set_txpower :: "chip \<Rightarrow> bool list \<Rightarrow> u8 \<Rightarrow> cc2420 \<Rightarrow> cc2420 option" where
  "cc2420_set_txpower h calls pwr s =
     Option.bind (interrupted h calls (GET_LOCK s)) (\<lambda>s1. RELEASE_LOCK h (set_txpower h pwr s1))"

section \<open>Sending\<close>

text \<open>The loop that waits for SFD to rise; the result says whether it did.\<close>

fun sfd_rises :: "chip \<Rightarrow> nat \<Rightarrow> cc2420 \<Rightarrow> bool \<times> cc2420" where
  "sfd_rises h 0 s = (False, s)"
| "sfd_rises h (Suc i) s =
     (let s1 = s\<lparr>cc_n_sfd := cc_n_sfd s + 1\<rparr> in if ch_sfd h (cc_n_sfd s) then (True, s1) else sfd_rises h i s1)"

text \<open>The transmission has started: the time on the air is accounted, and the receiver is switched back on or the radio off.\<close>

definition transmit :: "chip \<Rightarrow> cc2420 \<Rightarrow> cc2420 option" where
  "transmit h s =
     (let s1 = (if cc_receive_on s then energy_off h ENERGEST_TYPE_LISTEN s else s);
          s2 = energy_on h ENERGEST_TYPE_TRANSMIT s1
      in Option.bind (wait_tx h s2)
           (\<lambda>s3. let s4 = energy_off h ENERGEST_TYPE_TRANSMIT s3
                 in if cc_receive_on s4 then Some (energy_on h ENERGEST_TYPE_LISTEN s4) else off h s4))"

text \<open>The results 0 and -3 are \<open>True\<close> and \<open>False\<close>; \<open>txpower\<close> is the value of the attribute, \<open>payload\<close> the bytes.\<close>

definition cc2420_send :: "chip \<Rightarrow> bool list \<Rightarrow> u16 \<Rightarrow> u8 list \<Rightarrow> cc2420 \<Rightarrow> (bool \<times> cc2420) option" where
  "cc2420_send h calls attr_txpower payload s =
     (let txpower = (if attr_txpower > 0 then cc2420_get_txpower h s else 0);
          restore = (\<lambda>s'. if attr_txpower > 0 then set_txpower h (ucast txpower) s' else s')
      in Option.bind (interrupted h calls (GET_LOCK s)) (\<lambda>s0.
         Option.bind (wait_tx h (if attr_txpower > 0 then set_txpower h (ucast (attr_txpower - 1)) s0 else s0)) (\<lambda>s1.
         let s2 = command (Write_Fifo payload)
                    (command (Write_Fifo [of_nat (length payload + AUX_LEN)]) (cc_strobe CC2420_SFLUSHTX s1))
         in Option.bind (wait_sfd h s2) (\<lambda>s3.
            case sfd_rises h LOOP_20_SYMBOLS (cc_strobe CC2420_STXON s3) of
              (False, s4) \<Rightarrow> map_option (Pair False) (RELEASE_LOCK h (restore s4))
            | (True, s4) \<Rightarrow>
                (case status h s4 of (b, s5) \<Rightarrow>
                   if \<not> bit b CC2420_TX_ACTIVE then map_option (Pair False) (RELEASE_LOCK h s5)
                   else Option.bind (transmit h s5) (\<lambda>s6. map_option (Pair True) (RELEASE_LOCK h (restore s6))))))))"

section \<open>Receiving\<close>

text \<open>The interrupt of FIFOP; \<open>time_from_glossy\<close> is \<open>TIME_FROM_GLOSSY\<close>.\<close>

definition cc2420_interrupt :: "u32 \<Rightarrow> cc2420 \<Rightarrow> cc2420" where
  "cc2420_interrupt time_from_glossy s = s\<lparr>cc_arrival_time := time_from_glossy, cc_polled := True\<rparr>"

text \<open>The process, when it is polled: the callback that it calls, if there is one.\<close>

definition cc2420_process :: "cc2420 \<Rightarrow> nat option \<times> cc2420" where
  "cc2420_process s =
     (let s1 = s\<lparr>cc_polled := False\<rparr>
      in (cc_receiver_callback s1, if cc_receiver_callback s1 = None then flushrx s1 else s1))"

definition fifop_is_1 :: "chip \<Rightarrow> cc2420 \<Rightarrow> bool \<times> cc2420" where
  "fifop_is_1 h s = (ch_fifop h (cc_n_fifop s), s\<lparr>cc_n_fifop := cc_n_fifop s + 1\<rparr>)"

definition fifo_is_1 :: "chip \<Rightarrow> cc2420 \<Rightarrow> bool \<times> cc2420" where
  "fifo_is_1 h s = (ch_fifo h (cc_n_fifo s), s\<lparr>cc_n_fifo := cc_n_fifo s + 1\<rparr>)"

text \<open>What is done with the FIFO after a frame: an overflow is cleared, another frame polls the process again.\<close>

definition after_frame :: "chip \<Rightarrow> cc2420 \<Rightarrow> cc2420" where
  "after_frame h s =
     (case fifop_is_1 h s of (p, s1) \<Rightarrow>
        if p then
          (case fifo_is_1 h s1 of (f, s2) \<Rightarrow>
             if \<not> f then flushrx s2
             else (case fifop_is_1 h s2 of (p2, s3) \<Rightarrow> if p2 then s3\<lparr>cc_polled := True\<rparr> else s3))
        else (case fifop_is_1 h s1 of (p2, s3) \<Rightarrow> if p2 then s3\<lparr>cc_polled := True\<rparr> else s3))"

text \<open>The signal strength is a \<open>signed char\<close>, which the attribute extends.\<close>

definition good_frame :: "u8 \<Rightarrow> u8 \<Rightarrow> packetbuf \<Rightarrow> cc2420 \<Rightarrow> packetbuf \<times> cc2420" where
  "good_frame footer0 footer1 b s =
     (let s1 = s\<lparr>cc_last_rssi := footer0, cc_last_correlation := footer1 AND FOOTER1_CORRELATION\<rparr>;
          b1 = packetbuf_set_attr b PACKETBUF_ATTR_RSSI (scast (cc_last_rssi s1))
      in (packetbuf_set_attr b1 PACKETBUF_ATTR_LINK_QUALITY (ucast (cc_last_correlation s1)), s1))"

text \<open>The result, the bytes that are written to the buffer of the caller, the packet buffer and the state.\<close>

definition cc2420_read :: "chip \<Rightarrow> bool list \<Rightarrow> nat \<Rightarrow> packetbuf \<Rightarrow> cc2420 \<Rightarrow> (nat \<times> u8 list \<times> packetbuf \<times> cc2420) option" where
  "cc2420_read h calls bufsize b s =
     (case fifop_is_1 h s of (p, s1) \<Rightarrow>
        if \<not> p then Some (0, [], b, s1)
        else Option.bind (interrupted h calls (GET_LOCK s1)) (\<lambda>s2.
          case getrxbyte h s2 of (len, s3) \<Rightarrow>
            if len > CC2420_MAX_PACKET_LEN \<or> unat len \<le> AUX_LEN \<or> unat len - AUX_LEN > bufsize
            then map_option (\<lambda>s4. (0, [], b, s4)) (RELEASE_LOCK h (flushrx s3))
            else
              (case getrxdata h (unat len - AUX_LEN) s3 of (buf, s4) \<Rightarrow>
               case getrxdata h FOOTER_LEN s4 of (footer, s5) \<Rightarrow>
               let ok = (footer ! 1 AND FOOTER1_CRC_OK \<noteq> 0)
               in case (if ok then good_frame (footer ! 0) (footer ! 1) b s5 else (b, s5)) of (b1, s6) \<Rightarrow>
                    map_option (\<lambda>s7. (if ok then unat len - AUX_LEN else AUX_LEN - AUX_LEN, buf, b1, s7))
                      (RELEASE_LOCK h (after_frame h s6)))))"

section \<open>Configuration\<close>

definition cc2420_set_receiver :: "nat option \<Rightarrow> cc2420 \<Rightarrow> cc2420" where
  "cc2420_set_receiver recv s = s\<lparr>cc_receiver_callback := recv\<rparr>"

definition cc2420_get_channel :: "cc2420 \<Rightarrow> u16" where
  "cc2420_get_channel s = cc_channel s"

definition cc2420_set_channel :: "chip \<Rightarrow> u16 \<Rightarrow> cc2420 \<Rightarrow> cc2420 option" where
  "cc2420_set_channel h c s =
     (let s1 = s\<lparr>cc_channel := c\<rparr>; f = 5 * (c - 11) + 357 + 0x4000
      in Option.bind (wait_status h (\<lambda>b. bit b CC2420_XOSC16M_STABLE) s1)
           (\<lambda>s2. map_option (\<lambda>s3. let s4 = setreg CC2420_FSCTRL f s3 in if cc_receive_on s4 then cc_strobe CC2420_SRXON s4 else s4)
                   (wait_tx h s2)))"

definition cc2420_set_pan_addr :: "chip \<Rightarrow> u16 \<Rightarrow> u16 \<Rightarrow> u8 list option \<Rightarrow> cc2420 \<Rightarrow> cc2420 option" where
  "cc2420_set_pan_addr h pan addr ieee_addr s =
     map_option
       (\<lambda>s1. let s2 = command (Write_Ram CC2420RAM_SHORTADDR (le16 addr))
                         (command (Write_Ram CC2420RAM_PANID (le16 pan)) (s1\<lparr>cc_pan_id := pan\<rparr>))
             in case ieee_addr of None \<Rightarrow> s2 | Some a \<Rightarrow> command (Write_Ram CC2420RAM_IEEEADDR (rev (take 8 a))) s2)
       (wait_status h (\<lambda>b. bit b CC2420_XOSC16M_STABLE) s)"

definition cc2420_rssi :: "chip \<Rightarrow> cc2420 \<Rightarrow> (int \<times> cc2420) option" where
  "cc2420_rssi h s =
     (let radio_was_off = \<not> cc_receive_on s
      in Option.bind (if radio_was_off then cc2420_on h s else Some s) (\<lambda>s1.
         Option.bind (wait_status h (\<lambda>b. bit b CC2420_RSSI_VALID) s1) (\<lambda>s2.
         map_option (Pair (sint (ucast (getreg h CC2420_RSSI s2) :: u8)))
           (if radio_was_off then cc2420_off h s2 else Some s2))))"

text \<open>The ports, the delays and the start of the process are left out.\<close>

definition cc2420_init :: "chip \<Rightarrow> cc2420 \<Rightarrow> cc2420 option" where
  "cc2420_init h s =
     (let s1 = command Reset_Inactive (command Reset_Active (command Vreg_Active (s\<lparr>cc_fifop_int := False\<rparr>)));
          s2 = cc_strobe CC2420_SXOSCON s1;
          s3 = setreg CC2420_MDMCTRL0 (getreg h CC2420_MDMCTRL0 s2 AND NOT (AUTOACK OR ADR_DECODE)) s2;
          s4 = setreg CC2420_MDMCTRL1 (CORR_THR 20) s3;
          s5 = setreg CC2420_RXCTRL1 (getreg h CC2420_RXCTRL1 s4 OR RXBPF_LOCUR) s4;
          s6 = setreg CC2420_IOCFG0 (FIFOP_THR 127) s5;
          s7 = setreg CC2420_SECCTRL0 (getreg h CC2420_SECCTRL0 s6 AND NOT RXFIFO_PROTECTION) s6
      in Option.bind (cc2420_set_pan_addr h 0xffff 0x0000 None s7) (cc2420_set_channel h 26))"

end
