(* ===== verification/Cc2420_Props.thy ===== *)
theory Cc2420_Props
  imports Cc2420
begin

text \<open>
  The properties of the radio driver: its operations end when the chip answers, what one node sends is what the other reads, the
  receiver is on exactly when the callers said so, and what the lock and the accounting of the energy do.
\<close>

section \<open>The waits end\<close>

text \<open>The chip is never busy for ever: transmissions end, SFD falls, and the status bits that are waited for come.\<close>

definition responsive :: "chip \<Rightarrow> bool" where
  "responsive h \<longleftrightarrow> (\<forall>n. \<exists>k\<ge>n. \<not> bit (ch_status h k) CC2420_TX_ACTIVE) \<and> (\<forall>n. \<exists>k\<ge>n. \<not> ch_sfd h k) \<and>
     (\<forall>n. \<exists>k\<ge>n. bit (ch_status h k) CC2420_XOSC16M_STABLE) \<and> (\<forall>n. \<exists>k\<ge>n. bit (ch_status h k) CC2420_RSSI_VALID)"

lemma wait_status_ends:
  "P (ch_status h k) \<Longrightarrow> cc_n_status s \<le> k \<Longrightarrow> \<exists>j. wait_status h P s = Some (s\<lparr>cc_n_status := j\<rparr>)"
proof (induction "k - cc_n_status s" arbitrary: s rule: less_induct)
  case less
  let ?s = "s\<lparr>cc_n_status := cc_n_status s + 1\<rparr>"
  have step: "wait_status h P s = (if P (ch_status h (cc_n_status s)) then Some ?s else wait_status h P ?s)"
    by (subst wait_status.simps) (simp add: status_def)
  show ?case
  proof (cases "P (ch_status h (cc_n_status s))")
    case True
    then show ?thesis
      unfolding step by (simp only: if_True) blast
  next
    case False
    with less.prems have "cc_n_status s < k"
      by (metis le_neq_implies_less)
    then have "\<exists>j. wait_status h P ?s = Some (?s\<lparr>cc_n_status := j\<rparr>)"
      using less.prems(1) by (intro less.hyps) simp_all
    then show ?thesis
      unfolding step using False by simp
  qed
qed

lemma wait_sfd_ends: "\<not> ch_sfd h k \<Longrightarrow> cc_n_sfd s \<le> k \<Longrightarrow> \<exists>j. wait_sfd h s = Some (s\<lparr>cc_n_sfd := j\<rparr>)"
proof (induction "k - cc_n_sfd s" arbitrary: s rule: less_induct)
  case less
  let ?s = "s\<lparr>cc_n_sfd := cc_n_sfd s + 1\<rparr>"
  have step: "wait_sfd h s = (if ch_sfd h (cc_n_sfd s) then wait_sfd h ?s else Some ?s)"
    by (subst wait_sfd.simps) (simp add: Let_def)
  show ?case
  proof (cases "ch_sfd h (cc_n_sfd s)")
    case False
    then show ?thesis
      unfolding step by (simp only: if_False) blast
  next
    case True
    with less.prems have "cc_n_sfd s < k"
      by (metis le_neq_implies_less)
    then have "\<exists>j. wait_sfd h ?s = Some (?s\<lparr>cc_n_sfd := j\<rparr>)"
      using less.prems(1) by (intro less.hyps) simp_all
    then show ?thesis
      unfolding step using True by simp
  qed
qed

lemma wait_tx_ends: "responsive h \<Longrightarrow> \<exists>j. wait_tx h s = Some (s\<lparr>cc_n_status := j\<rparr>)"
  unfolding wait_tx_def responsive_def using wait_status_ends by metis

lemma wait_bits_end:
  assumes "responsive h"
  shows "\<exists>j. wait_status h (\<lambda>b. bit b CC2420_XOSC16M_STABLE) s = Some (s\<lparr>cc_n_status := j\<rparr>)"
    "\<exists>j. wait_status h (\<lambda>b. bit b CC2420_RSSI_VALID) s = Some (s\<lparr>cc_n_status := j\<rparr>)"
  using assms wait_status_ends [of "\<lambda>b. bit b CC2420_XOSC16M_STABLE" h _ s] wait_status_ends [of "\<lambda>b. bit b CC2420_RSSI_VALID" h _ s]
  unfolding responsive_def by blast+

lemma sfd_rises_state: "\<exists>j. snd (sfd_rises h i s) = s\<lparr>cc_n_sfd := j\<rparr>"
proof (induction i arbitrary: s)
  case 0
  have "s = s\<lparr>cc_n_sfd := cc_n_sfd s\<rparr>"
    by simp
  then show ?case
    by (simp only: sfd_rises.simps snd_conv) blast
next
  case (Suc i)
  let ?s = "s\<lparr>cc_n_sfd := cc_n_sfd s + 1\<rparr>"
  from Suc [of ?s] obtain j where "snd (sfd_rises h i ?s) = s\<lparr>cc_n_sfd := j\<rparr>"
    by auto
  then show ?case
    by (cases "ch_sfd h (cc_n_sfd s)") (auto simp: Let_def)
qed

section \<open>The effect of the parts\<close>

text \<open>What an operation leaves behind, without the counters: the receiver, the lock and its flags, the registers, the commands.\<close>

definition idle :: "cc2420 \<Rightarrow> bool" where
  "idle s \<longleftrightarrow> \<not> cc_locked s \<and> \<not> cc_lock_on s \<and> \<not> cc_lock_off s"

text \<open>The transmit FIFO after the commands: what has been written since it was flushed.\<close>

fun tx_fifo :: "chip_command list \<Rightarrow> u8 list" where
  "tx_fifo [] = []"
| "tx_fifo (Write_Fifo bs # cs) = tx_fifo cs @ bs"
| "tx_fifo (Strobe c # cs) = (if c = CC2420_SFLUSHTX then [] else tx_fifo cs)"
| "tx_fifo (_ # cs) = tx_fifo cs"

text \<open>The frames whose transmission was started, in order.\<close>

fun tx_frames :: "chip_command list \<Rightarrow> u8 list list" where
  "tx_frames [] = []"
| "tx_frames (Strobe c # cs) = (if c = CC2420_STXON then tx_frames cs @ [tx_fifo cs] else tx_frames cs)"
| "tx_frames (_ # cs) = tx_frames cs"

lemmas cc_strobes = CC2420_SXOSCON_def CC2420_SRXON_def CC2420_STXON_def CC2420_SRFOFF_def CC2420_SFLUSHRX_def CC2420_SFLUSHTX_def

lemmas parts = on_def flushrx_def cc_strobe_def command_def energy_on_def energy_off_def GET_LOCK_def setreg_def set_txpower_def

lemma on_simps [simp]:
  "cc_receive_on (on h s)" "cc_locked (on h s) = cc_locked s" "cc_lock_on (on h s) = cc_lock_on s" "cc_lock_off (on h s) = cc_lock_off s"
  "cc_regs (on h s) = cc_regs s" "tx_fifo (cc_cmds (on h s)) = tx_fifo (cc_cmds s)" "tx_frames (cc_cmds (on h s)) = tx_frames (cc_cmds s)"
  "cc_fifop_int (on h s)" "en_mode (cc_energest (on h s)) = (en_mode (cc_energest s))(ENERGEST_TYPE_LISTEN := True)"
  "cc_polled (on h s) = cc_polled s"
  by (simp_all add: parts cc_strobes ENERGEST_ON_def)

lemma off_ends:
  assumes "responsive h"
  obtains t where "off h s = Some t" "\<not> cc_receive_on t" "cc_locked t = cc_locked s" "cc_lock_on t = cc_lock_on s" "cc_lock_off t = cc_lock_off s"
    "cc_regs t = cc_regs s" "tx_fifo (cc_cmds t) = tx_fifo (cc_cmds s)" "tx_frames (cc_cmds t) = tx_frames (cc_cmds s)" "\<not> cc_fifop_int t"
    "cc_energest t = ENERGEST_OFF (ch_now h (cc_n_now s)) (cc_energest s) ENERGEST_TYPE_LISTEN" "cc_n_now t = cc_n_now s + 1"
    "cc_polled t = cc_polled s"
proof -
  obtain j where "wait_tx h (s\<lparr>cc_receive_on := False\<rparr>) = Some (s\<lparr>cc_receive_on := False, cc_n_status := j\<rparr>)"
    using wait_tx_ends [OF assms] by metis
  then show thesis
    by (intro that [of "energy_off h ENERGEST_TYPE_LISTEN
        ((cc_strobe CC2420_SRFOFF (s\<lparr>cc_receive_on := False, cc_n_status := j\<rparr>))\<lparr>cc_fifop_int := False\<rparr>)"])
      (simp_all add: off_def parts cc_strobes)
qed

text \<open>The calls of interrupts while the lock is held: only the flags change.\<close>

lemma interrupted_locked:
  assumes "cc_locked s"
  shows "interrupted h calls s = Some (s\<lparr>cc_lock_on := cc_lock_on s \<or> \<not> cc_receive_on s \<and> True \<in> set calls,
                                        cc_lock_off := cc_lock_off s \<or> cc_receive_on s \<and> False \<in> set calls\<rparr>)"
  using assms
proof (induction calls arbitrary: s)
  case Nil
  then show ?case
    by (simp add: interrupted_def)
next
  case (Cons c calls)
  define s1 where "s1 = (if c then if cc_receive_on s then s else s\<lparr>cc_lock_on := True\<rparr>
                         else if cc_receive_on s then s\<lparr>cc_lock_off := True\<rparr> else s)"
  have "interrupted h (c # calls) s = interrupted h calls s1"
    using Cons.prems by (simp add: interrupted_def s1_def cc2420_on_def cc2420_off_def)
  moreover have "cc_locked s1" "cc_receive_on s1 = cc_receive_on s"
    using Cons.prems by (simp_all add: s1_def)
  ultimately show ?case
    using Cons.IH [of s1] by (cases c; cases "cc_receive_on s") (simp_all add: s1_def)
qed

text \<open>Releasing the lock: what was asked for meanwhile is done.\<close>

lemma release_ends:
  assumes "responsive h"
  obtains t where "RELEASE_LOCK h s = Some t" "idle t" "cc_receive_on t \<longleftrightarrow> (cc_lock_on s \<or> cc_receive_on s) \<and> \<not> cc_lock_off s"
    "cc_regs t = cc_regs s" "tx_fifo (cc_cmds t) = tx_fifo (cc_cmds s)" "tx_frames (cc_cmds t) = tx_frames (cc_cmds s)"
    "en_mode (cc_energest t) = (if cc_lock_off s then (en_mode (cc_energest s))(ENERGEST_TYPE_LISTEN := False)
       else if cc_lock_on s then (en_mode (cc_energest s))(ENERGEST_TYPE_LISTEN := True) else en_mode (cc_energest s))"
    "cc_fifop_int t \<longleftrightarrow> (cc_lock_on s \<or> cc_fifop_int s) \<and> \<not> cc_lock_off s"
    "\<not> cc_lock_on s \<Longrightarrow> \<not> cc_lock_off s \<Longrightarrow> t = s\<lparr>cc_locked := False\<rparr>"
proof -
  define s1 where "s1 = (if cc_lock_on s then (on h s)\<lparr>cc_lock_on := False\<rparr> else s)"
  obtain u where u: "off h s1 = Some u" "\<not> cc_receive_on u" "cc_lock_on u = cc_lock_on s1"
    "cc_regs u = cc_regs s1" "tx_fifo (cc_cmds u) = tx_fifo (cc_cmds s1)" "tx_frames (cc_cmds u) = tx_frames (cc_cmds s1)" "\<not> cc_fifop_int u"
    "cc_energest u = ENERGEST_OFF (ch_now h (cc_n_now s1)) (cc_energest s1) ENERGEST_TYPE_LISTEN"
    by (rule off_ends [OF assms, of s1])
  define t where "t = (if cc_lock_off s1 then u\<lparr>cc_lock_off := False\<rparr> else s1)\<lparr>cc_locked := False\<rparr>"
  have r: "RELEASE_LOCK h s = Some t"
    using u(1) unfolding RELEASE_LOCK_def s1_def [symmetric] Let_def t_def by simp
  have s1: "cc_lock_off s1 = cc_lock_off s" "\<not> cc_lock_on s1" "cc_regs s1 = cc_regs s" "tx_fifo (cc_cmds s1) = tx_fifo (cc_cmds s)"
    "tx_frames (cc_cmds s1) = tx_frames (cc_cmds s)" "cc_receive_on s1 \<longleftrightarrow> cc_lock_on s \<or> cc_receive_on s"
    "cc_fifop_int s1 \<longleftrightarrow> cc_lock_on s \<or> cc_fifop_int s"
    "en_mode (cc_energest s1) = (if cc_lock_on s then (en_mode (cc_energest s))(ENERGEST_TYPE_LISTEN := True) else en_mode (cc_energest s))"
    by (simp_all add: s1_def)
  show thesis
  proof (rule that [OF r])
    show "en_mode (cc_energest t) = (if cc_lock_off s then (en_mode (cc_energest s))(ENERGEST_TYPE_LISTEN := False)
       else if cc_lock_on s then (en_mode (cc_energest s))(ENERGEST_TYPE_LISTEN := True) else en_mode (cc_energest s))"
      using s1 u by (simp add: t_def ENERGEST_OFF_def)
    show "t = s\<lparr>cc_locked := False\<rparr>" if "\<not> cc_lock_on s" "\<not> cc_lock_off s"
      using that by (simp add: t_def s1_def)
  qed (use s1 u in \<open>auto simp: t_def idle_def\<close>)
qed

section \<open>Sending\<close>

definition listen_total :: "cc2420 \<Rightarrow> u32" where
  "listen_total s = en_total (cc_energest s) ENERGEST_TYPE_LISTEN"

definition transmit_total :: "cc2420 \<Rightarrow> u32" where
  "transmit_total s = en_total (cc_energest s) ENERGEST_TYPE_TRANSMIT"

text \<open>The time on the air, from the clock readings before and after it; with the receiver off, the chip is switched off afterwards.\<close>

lemma transmit_ends:
  assumes "responsive h"
  obtains t where "transmit h s = Some t" "cc_receive_on t = cc_receive_on s" "cc_locked t = cc_locked s" "cc_lock_on t = cc_lock_on s"
    "cc_lock_off t = cc_lock_off s" "cc_regs t = cc_regs s" "tx_fifo (cc_cmds t) = tx_fifo (cc_cmds s)" "tx_frames (cc_cmds t) = tx_frames (cc_cmds s)"
    "cc_fifop_int t \<longleftrightarrow> cc_receive_on s \<and> cc_fifop_int s"
    "en_mode (cc_energest t) = (en_mode (cc_energest s))(ENERGEST_TYPE_LISTEN := cc_receive_on s, ENERGEST_TYPE_TRANSMIT := False)"
    "listen_total t = listen_total s +
       ucast ((ch_now h (cc_n_now s + (if cc_receive_on s then 0 else 2)) - en_time (cc_energest s) ENERGEST_TYPE_LISTEN) div ENERGEST_DIVIDER)"
    "transmit_total t = transmit_total s +
       ucast ((ch_now h (cc_n_now s + (if cc_receive_on s then 2 else 1)) - ch_now h (cc_n_now s + (if cc_receive_on s then 1 else 0)))
              div ENERGEST_DIVIDER)"
proof -
  define s2 where "s2 = energy_on h ENERGEST_TYPE_TRANSMIT (if cc_receive_on s then energy_off h ENERGEST_TYPE_LISTEN s else s)"
  obtain j where j: "wait_tx h s2 = Some (s2\<lparr>cc_n_status := j\<rparr>)"
    using wait_tx_ends [OF assms] by blast
  define s4 where "s4 = energy_off h ENERGEST_TYPE_TRANSMIT (s2\<lparr>cc_n_status := j\<rparr>)"
  have tr: "transmit h s = (if cc_receive_on s4 then Some (energy_on h ENERGEST_TYPE_LISTEN s4) else off h s4)"
    by (simp add: transmit_def Let_def s2_def [symmetric] j s4_def)
  note parts' = s4_def s2_def energy_on_def energy_off_def ENERGEST_ON_def ENERGEST_OFF_def account_def listen_total_def transmit_total_def
  have s4: "cc_receive_on s4 = cc_receive_on s" "cc_locked s4 = cc_locked s" "cc_lock_on s4 = cc_lock_on s" "cc_lock_off s4 = cc_lock_off s"
    "cc_regs s4 = cc_regs s" "cc_cmds s4 = cc_cmds s" "cc_fifop_int s4 = cc_fifop_int s"
    by (simp_all add: parts')
  show thesis
  proof (cases "cc_receive_on s")
    case True
    then show ?thesis
      using s4 by (intro that [of "energy_on h ENERGEST_TYPE_LISTEN s4"]) (auto simp: tr parts' fun_upd_twist add.commute)
  next
    case False
    obtain t where t: "off h s4 = Some t" "\<not> cc_receive_on t" "cc_locked t = cc_locked s4" "cc_lock_on t = cc_lock_on s4"
      "cc_lock_off t = cc_lock_off s4" "cc_regs t = cc_regs s4" "tx_fifo (cc_cmds t) = tx_fifo (cc_cmds s4)"
      "tx_frames (cc_cmds t) = tx_frames (cc_cmds s4)" "\<not> cc_fifop_int t"
      "cc_energest t = ENERGEST_OFF (ch_now h (cc_n_now s4)) (cc_energest s4) ENERGEST_TYPE_LISTEN"
      by (rule off_ends [OF assms, of s4])
    have n: "cc_n_now s4 = cc_n_now s + 2"
      using False by (simp add: parts')
    show ?thesis
      by (rule that [of t]) (use False s4 t n in \<open>auto simp: tr parts' fun_upd_twist\<close>)
  qed
qed

text \<open>The start of the transmission: the frame is in the FIFO, the lock is held, and the requests of the interrupts are noted.\<close>

lemma send_starts:
  assumes r: "responsive h" and i: "idle s"
  obtains s4 rises where
    "cc2420_send h calls p payload s =
      (if \<not> rises then map_option (Pair False)
         (RELEASE_LOCK h (if p > 0 then set_txpower h (ucast (cc2420_get_txpower h s)) s4 else s4))
       else if \<not> bit (ch_status h (cc_n_status s4)) CC2420_TX_ACTIVE
         then map_option (Pair False) (RELEASE_LOCK h (s4\<lparr>cc_n_status := cc_n_status s4 + 1\<rparr>))
       else Option.bind (transmit h (s4\<lparr>cc_n_status := cc_n_status s4 + 1\<rparr>))
         (\<lambda>s6. map_option (Pair True) (RELEASE_LOCK h (if p > 0 then set_txpower h (ucast (cc2420_get_txpower h s)) s6 else s6))))"
    "cc_receive_on s4 = cc_receive_on s" "cc_lock_on s4 \<longleftrightarrow> \<not> cc_receive_on s \<and> True \<in> set calls"
    "cc_lock_off s4 \<longleftrightarrow> cc_receive_on s \<and> False \<in> set calls" "cc_energest s4 = cc_energest s" "cc_n_now s4 = cc_n_now s"
    "cc_fifop_int s4 = cc_fifop_int s"
    "cc_regs s4 = (if p > 0 then (cc_regs s)(CC2420_TXCTRL := (cc_regs s CC2420_TXCTRL AND 0xffe0) OR (ucast (ucast (p - 1) :: u8) AND 0x1f))
                   else cc_regs s)"
    "tx_fifo (cc_cmds s4) = of_nat (length payload + 2) # payload"
    "tx_frames (cc_cmds s4) = tx_frames (cc_cmds s) @ [of_nat (length payload + 2) # payload]"
proof -
  define s0 where "s0 = s\<lparr>cc_locked := True, cc_lock_on := \<not> cc_receive_on s \<and> True \<in> set calls,
                          cc_lock_off := cc_receive_on s \<and> False \<in> set calls\<rparr>"
  have "interrupted h calls (GET_LOCK s) = Some s0"
    using i by (subst interrupted_locked) (simp_all add: GET_LOCK_def s0_def idle_def)
  define s1 where "s1 = (if p > 0 then set_txpower h (ucast (p - 1)) s0 else s0)"
  obtain j where j: "wait_tx h s1 = Some (s1\<lparr>cc_n_status := j\<rparr>)"
    using wait_tx_ends [OF r] by blast
  define s2 where "s2 = command (Write_Fifo payload) (command (Write_Fifo [of_nat (length payload + AUX_LEN)])
                          (cc_strobe CC2420_SFLUSHTX (s1\<lparr>cc_n_status := j\<rparr>)))"
  obtain k where k: "wait_sfd h s2 = Some (s2\<lparr>cc_n_sfd := k\<rparr>)"
    using wait_sfd_ends r unfolding responsive_def by metis
  obtain rises s4 where s4: "sfd_rises h LOOP_20_SYMBOLS (cc_strobe CC2420_STXON (s2\<lparr>cc_n_sfd := k\<rparr>)) = (rises, s4)"
    by (metis surj_pair)
  obtain m where m: "s4 = (cc_strobe CC2420_STXON (s2\<lparr>cc_n_sfd := k\<rparr>))\<lparr>cc_n_sfd := m\<rparr>"
    using sfd_rises_state [of h LOOP_20_SYMBOLS "cc_strobe CC2420_STXON (s2\<lparr>cc_n_sfd := k\<rparr>)"] unfolding s4 by auto
  have get: "(if p > 0 then set_txpower h (ucast (if p > 0 then cc2420_get_txpower h s else 0)) x else x) =
      (if p > 0 then set_txpower h (ucast (cc2420_get_txpower h s)) x else x)" for x
    by simp
  show thesis
  proof (rule that [of rises s4])
    show "cc2420_send h calls p payload s =
      (if \<not> rises then map_option (Pair False)
         (RELEASE_LOCK h (if p > 0 then set_txpower h (ucast (cc2420_get_txpower h s)) s4 else s4))
       else if \<not> bit (ch_status h (cc_n_status s4)) CC2420_TX_ACTIVE
         then map_option (Pair False) (RELEASE_LOCK h (s4\<lparr>cc_n_status := cc_n_status s4 + 1\<rparr>))
       else Option.bind (transmit h (s4\<lparr>cc_n_status := cc_n_status s4 + 1\<rparr>))
         (\<lambda>s6. map_option (Pair True) (RELEASE_LOCK h (if p > 0 then set_txpower h (ucast (cc2420_get_txpower h s)) s6 else s6))))"
      unfolding cc2420_send_def Let_def get \<open>interrupted h calls (GET_LOCK s) = Some s0\<close> Option.bind.bind_lunit s1_def [symmetric] j s2_def [symmetric]
        k s4 prod.case
      by (cases rises) (simp_all add: status_def)
    show "cc_regs s4 = (if p > 0 then (cc_regs s)(CC2420_TXCTRL := (cc_regs s CC2420_TXCTRL AND 0xffe0) OR (ucast (ucast (p - 1) :: u8) AND 0x1f))
                   else cc_regs s)"
      by (simp add: m s2_def s1_def s0_def parts getreg_def CC2420_TXCTRL_def CC2420_RSSI_def)
    have c1: "tx_frames (cc_cmds s1) = tx_frames (cc_cmds s)"
      by (simp add: s1_def s0_def parts)
    then show "tx_fifo (cc_cmds s4) = of_nat (length payload + 2) # payload"
      "tx_frames (cc_cmds s4) = tx_frames (cc_cmds s) @ [of_nat (length payload + 2) # payload]"
      by (simp_all add: m s2_def parts cc_strobes AUX_LEN_def FOOTER_LEN_def)
  qed (simp_all add: m s2_def s1_def s0_def parts)
qed

lemma txctrl_restored:
  fixes x y :: u16
  shows "(((x AND 0xffe0) OR (y AND 0x1f)) AND 0xffe0) OR (ucast (ucast (x AND 0x1f) :: u8) AND 0x1f) = x"
proof -
  have m: "(0xffe0 :: u16) = NOT (mask 5)" "(0x1f :: u16) = mask 5"
    by (simp_all add: mask_eq_exp_minus_1)
  show ?thesis
    unfolding m by (rule bit_word_eqI) (auto simp: bit_simps simp del: mask_numeral)
qed

text \<open>What the driver keeps between two calls: the lock is free, the accounting and the interrupt follow the receiver.\<close>

definition cc_inv :: "cc2420 \<Rightarrow> bool" where
  "cc_inv s \<longleftrightarrow> idle s \<and> (en_mode (cc_energest s) ENERGEST_TYPE_LISTEN \<longleftrightarrow> cc_receive_on s) \<and>
     \<not> en_mode (cc_energest s) ENERGEST_TYPE_TRANSMIT \<and> (cc_fifop_int s \<longleftrightarrow> cc_receive_on s)"

text \<open>Whether the receiver is on after the calls that came while the lock was held.\<close>

definition deferred :: "bool \<Rightarrow> bool list \<Rightarrow> bool" where
  "deferred was_on calls \<longleftrightarrow> (if was_on then False \<notin> set calls else True \<in> set calls)"

lemma release_inv:
  assumes r: "responsive h" and l: "cc_lock_on s \<longleftrightarrow> \<not> cc_receive_on s \<and> True \<in> set calls" "cc_lock_off s \<longleftrightarrow> cc_receive_on s \<and> False \<in> set calls"
    and m: "en_mode (cc_energest s) ENERGEST_TYPE_LISTEN \<longleftrightarrow> cc_receive_on s" "\<not> en_mode (cc_energest s) ENERGEST_TYPE_TRANSMIT"
      "cc_fifop_int s \<longleftrightarrow> cc_receive_on s"
  obtains t where "RELEASE_LOCK h s = Some t" "cc_inv t" "cc_receive_on t = deferred (cc_receive_on s) calls" "cc_regs t = cc_regs s"
    "tx_fifo (cc_cmds t) = tx_fifo (cc_cmds s)" "tx_frames (cc_cmds t) = tx_frames (cc_cmds s)"
    "calls = [] \<Longrightarrow> t = s\<lparr>cc_locked := False\<rparr>"
proof (rule release_ends [OF r, of s], goal_cases)
  case (1 t)
  show ?case
    by (rule that [of t]) (use 1 l m in \<open>auto simp: cc_inv_def deferred_def\<close>)
qed

lemma send_ends:
  assumes r: "responsive h" and i: "cc_inv s"
  obtains ok t where "cc2420_send h calls p payload s = Some (ok, t)" "cc_inv t" "cc_receive_on t = deferred (cc_receive_on s) calls"
    "tx_frames (cc_cmds t) = tx_frames (cc_cmds s) @ [of_nat (length payload + 2) # payload]"
    "tx_fifo (cc_cmds t) = of_nat (length payload + 2) # payload" "ok \<or> p = 0 \<longrightarrow> cc_regs t = cc_regs s"
    "ok \<and> calls = [] \<longrightarrow> listen_total t = listen_total s +
       ucast ((ch_now h (cc_n_now s + (if cc_receive_on s then 0 else 2)) - en_time (cc_energest s) ENERGEST_TYPE_LISTEN) div ENERGEST_DIVIDER) \<and>
       transmit_total t = transmit_total s +
       ucast ((ch_now h (cc_n_now s + (if cc_receive_on s then 2 else 1)) - ch_now h (cc_n_now s + (if cc_receive_on s then 1 else 0)))
              div ENERGEST_DIVIDER)"
proof -
  have inv: "idle s" "en_mode (cc_energest s) ENERGEST_TYPE_LISTEN \<longleftrightarrow> cc_receive_on s" "\<not> en_mode (cc_energest s) ENERGEST_TYPE_TRANSMIT"
    "cc_fifop_int s \<longleftrightarrow> cc_receive_on s"
    using i by (simp_all add: cc_inv_def)
  define restore where "restore x = (if p > 0 then set_txpower h (ucast (cc2420_get_txpower h s)) x else x)" for x
  have keep: "cc_receive_on (restore x) = cc_receive_on x" "cc_lock_on (restore x) = cc_lock_on x" "cc_lock_off (restore x) = cc_lock_off x"
    "cc_energest (restore x) = cc_energest x" "cc_fifop_int (restore x) = cc_fifop_int x" "tx_fifo (cc_cmds (restore x)) = tx_fifo (cc_cmds x)"
    "tx_frames (cc_cmds (restore x)) = tx_frames (cc_cmds x)" for x
    by (simp_all add: restore_def parts)
  have same: "cc_regs (restore x) = cc_regs s"
    if "cc_regs x = (if p > 0 then (cc_regs s)(CC2420_TXCTRL := (cc_regs s CC2420_TXCTRL AND 0xffe0) OR (y AND 0x1f)) else cc_regs s)" for x y
    using that txctrl_restored [of "cc_regs s CC2420_TXCTRL" y]
    by (simp add: restore_def parts getreg_def CC2420_TXCTRL_def CC2420_RSSI_def cc2420_get_txpower_def fun_eq_iff)
  obtain s4 rises where s4: "cc2420_send h calls p payload s =
      (if \<not> rises then map_option (Pair False) (RELEASE_LOCK h (restore s4))
       else if \<not> bit (ch_status h (cc_n_status s4)) CC2420_TX_ACTIVE
         then map_option (Pair False) (RELEASE_LOCK h (s4\<lparr>cc_n_status := cc_n_status s4 + 1\<rparr>))
       else Option.bind (transmit h (s4\<lparr>cc_n_status := cc_n_status s4 + 1\<rparr>)) (\<lambda>s6. map_option (Pair True) (RELEASE_LOCK h (restore s6))))"
    "cc_receive_on s4 = cc_receive_on s" "cc_lock_on s4 \<longleftrightarrow> \<not> cc_receive_on s \<and> True \<in> set calls"
    "cc_lock_off s4 \<longleftrightarrow> cc_receive_on s \<and> False \<in> set calls" "cc_energest s4 = cc_energest s" "cc_n_now s4 = cc_n_now s"
    "cc_fifop_int s4 = cc_fifop_int s"
    "cc_regs s4 = (if p > 0 then (cc_regs s)(CC2420_TXCTRL := (cc_regs s CC2420_TXCTRL AND 0xffe0) OR (ucast (ucast (p - 1) :: u8) AND 0x1f))
                   else cc_regs s)"
    "tx_fifo (cc_cmds s4) = of_nat (length payload + 2) # payload"
    "tx_frames (cc_cmds s4) = tx_frames (cc_cmds s) @ [of_nat (length payload + 2) # payload]"
    by (rule send_starts [OF r inv(1), of calls p payload]) (unfold restore_def, blast)
  consider "\<not> rises" | "rises" "\<not> bit (ch_status h (cc_n_status s4)) CC2420_TX_ACTIVE" | "rises" "bit (ch_status h (cc_n_status s4)) CC2420_TX_ACTIVE"
    by blast
  then show thesis
  proof cases
    case 1
    obtain t where "RELEASE_LOCK h (restore s4) = Some t" "cc_inv t" "cc_receive_on t = deferred (cc_receive_on (restore s4)) calls"
      "cc_regs t = cc_regs (restore s4)" "tx_fifo (cc_cmds t) = tx_fifo (cc_cmds (restore s4))"
      "tx_frames (cc_cmds t) = tx_frames (cc_cmds (restore s4))"
      by (rule release_inv [OF r, of "restore s4" calls]) (use s4 inv in \<open>simp_all add: keep\<close>)
    then show ?thesis
      using 1 s4 same [of s4] by (intro that [of False t]) (simp_all add: keep)
  next
    case 2
    let ?s = "s4\<lparr>cc_n_status := cc_n_status s4 + 1\<rparr>"
    obtain t where "RELEASE_LOCK h ?s = Some t" "cc_inv t" "cc_receive_on t = deferred (cc_receive_on ?s) calls"
      "cc_regs t = cc_regs ?s" "tx_fifo (cc_cmds t) = tx_fifo (cc_cmds ?s)" "tx_frames (cc_cmds t) = tx_frames (cc_cmds ?s)"
      by (rule release_inv [OF r, of ?s calls]) (use s4 inv in simp_all)
    then show ?thesis
      using 2 s4 by (intro that [of False t]) simp_all
  next
    case 3
    let ?s = "s4\<lparr>cc_n_status := cc_n_status s4 + 1\<rparr>"
    obtain u where u: "transmit h ?s = Some u" "cc_receive_on u = cc_receive_on ?s" "cc_lock_on u = cc_lock_on ?s"
      "cc_lock_off u = cc_lock_off ?s" "cc_regs u = cc_regs ?s" "tx_fifo (cc_cmds u) = tx_fifo (cc_cmds ?s)" "tx_frames (cc_cmds u) = tx_frames (cc_cmds ?s)"
      "cc_fifop_int u \<longleftrightarrow> cc_receive_on ?s \<and> cc_fifop_int ?s"
      "en_mode (cc_energest u) = (en_mode (cc_energest ?s))(ENERGEST_TYPE_LISTEN := cc_receive_on ?s, ENERGEST_TYPE_TRANSMIT := False)"
      "listen_total u = listen_total ?s +
         ucast ((ch_now h (cc_n_now ?s + (if cc_receive_on ?s then 0 else 2)) - en_time (cc_energest ?s) ENERGEST_TYPE_LISTEN) div ENERGEST_DIVIDER)"
      "transmit_total u = transmit_total ?s +
         ucast ((ch_now h (cc_n_now ?s + (if cc_receive_on ?s then 2 else 1)) - ch_now h (cc_n_now ?s + (if cc_receive_on ?s then 1 else 0)))
                div ENERGEST_DIVIDER)"
      by (rule transmit_ends [OF r, of ?s]) blast
    obtain t where t: "RELEASE_LOCK h (restore u) = Some t" "cc_inv t" "cc_receive_on t = deferred (cc_receive_on (restore u)) calls"
      "cc_regs t = cc_regs (restore u)" "tx_fifo (cc_cmds t) = tx_fifo (cc_cmds (restore u))"
      "tx_frames (cc_cmds t) = tx_frames (cc_cmds (restore u))" "calls = [] \<Longrightarrow> t = restore u\<lparr>cc_locked := False\<rparr>"
      by (rule release_inv [OF r, of "restore u" calls]) (use s4 inv u in \<open>simp_all add: keep\<close>)
    have "cc2420_send h calls p payload s = Some (True, t)"
      using 3 s4(1) u(1) t(1) by simp
    moreover have "calls = [] \<Longrightarrow> cc_energest t = cc_energest u"
      using t(7) by (simp add: keep)
    then have "calls = [] \<longrightarrow> listen_total t = listen_total u \<and> transmit_total t = transmit_total u"
      by (simp add: listen_total_def transmit_total_def)
    moreover have "listen_total ?s = listen_total s" "transmit_total ?s = transmit_total s"
      by (simp_all add: listen_total_def transmit_total_def s4)
    ultimately show ?thesis
      using s4 t u same [of u] by (intro that [of True t]) (simp_all add: keep)
  qed
qed

section \<open>Receiving\<close>

text \<open>What reading a frame leaves alone.\<close>

definition same_radio :: "cc2420 \<Rightarrow> cc2420 \<Rightarrow> bool" where
  "same_radio s t \<longleftrightarrow> cc_receive_on t = cc_receive_on s \<and> cc_lock_on t = cc_lock_on s \<and> cc_lock_off t = cc_lock_off s \<and>
     cc_locked t = cc_locked s \<and> cc_energest t = cc_energest s \<and> cc_fifop_int t = cc_fifop_int s \<and> cc_regs t = cc_regs s \<and>
     tx_fifo (cc_cmds t) = tx_fifo (cc_cmds s) \<and> tx_frames (cc_cmds t) = tx_frames (cc_cmds s)"

lemma same_radio_trans: "same_radio s t \<Longrightarrow> same_radio t u \<Longrightarrow> same_radio s u"
  by (simp add: same_radio_def)

lemma same_radio_reads:
  "same_radio s (snd (fifop_is_1 h s))" "same_radio s (snd (fifo_is_1 h s))" "same_radio s (snd (getrxbyte h s))" "same_radio s (snd (getrxdata h k s))"
  "same_radio s (flushrx s)" "same_radio s (snd (good_frame f0 f1 b s))" "same_radio s (s\<lparr>cc_polled := x\<rparr>)"
  by (simp_all add: same_radio_def fifop_is_1_def fifo_is_1_def getrxbyte_def getrxdata_def good_frame_def Let_def parts cc_strobes)

lemma same_radio_after: "same_radio s (after_frame h s)"
  by (simp add: same_radio_def after_frame_def fifop_is_1_def fifo_is_1_def parts cc_strobes)

lemma release_same:
  assumes "responsive h" and "cc_inv s" and "interrupted h calls (GET_LOCK s) = Some s2" and "same_radio s2 x"
  obtains t where "RELEASE_LOCK h x = Some t" "cc_inv t" "cc_receive_on t = deferred (cc_receive_on s) calls" "cc_regs t = cc_regs s"
    "tx_fifo (cc_cmds t) = tx_fifo (cc_cmds s)" "tx_frames (cc_cmds t) = tx_frames (cc_cmds s)"
proof -
  have s2: "s2 = s\<lparr>cc_locked := True, cc_lock_on := \<not> cc_receive_on s \<and> True \<in> set calls, cc_lock_off := cc_receive_on s \<and> False \<in> set calls\<rparr>"
    using assms(2,3) by (subst (asm) interrupted_locked) (simp_all add: GET_LOCK_def cc_inv_def idle_def)
  obtain t where "RELEASE_LOCK h x = Some t" "cc_inv t" "cc_receive_on t = deferred (cc_receive_on x) calls" "cc_regs t = cc_regs x"
    "tx_fifo (cc_cmds t) = tx_fifo (cc_cmds x)" "tx_frames (cc_cmds t) = tx_frames (cc_cmds x)"
    by (rule release_inv [OF assms(1), of x calls]) (use assms(2,4) s2 in \<open>simp_all add: same_radio_def cc_inv_def\<close>)
  then show thesis
    using assms(4) s2 by (intro that [of t]) (simp_all add: same_radio_def)
qed

lemma read_ends:
  assumes r: "responsive h" and i: "cc_inv s"
  obtains n data b1 t where "cc2420_read h calls bufsize b s = Some (n, data, b1, t)" "cc_inv t"
    "cc_receive_on t = (if ch_fifop h (cc_n_fifop s) then deferred (cc_receive_on s) calls else cc_receive_on s)" "cc_regs t = cc_regs s"
    "tx_fifo (cc_cmds t) = tx_fifo (cc_cmds s)" "tx_frames (cc_cmds t) = tx_frames (cc_cmds s)"
proof -
  define s1 where "s1 = s\<lparr>cc_n_fifop := cc_n_fifop s + 1\<rparr>"
  have i1: "cc_inv s1"
    using i by (simp add: s1_def cc_inv_def idle_def)
  show thesis
  proof (cases "ch_fifop h (cc_n_fifop s)")
    case False
    then show ?thesis
      using i1 by (intro that [of 0 "[]" b s1]) (simp_all add: cc2420_read_def fifop_is_1_def s1_def)
  next
    case True
    have "cc_locked (GET_LOCK s1)"
      by (simp add: GET_LOCK_def)
    then obtain s2 where s2: "interrupted h calls (GET_LOCK s1) = Some s2"
      using interrupted_locked by blast
    note rel = release_same [OF r i1 s2]
    obtain len s3 where s3: "getrxbyte h s2 = (len, s3)" "same_radio s2 s3"
      using same_radio_reads(3) [of s2 h] by (metis surj_pair snd_conv)
    have un: "cc2420_read h calls bufsize b s =
        (if len > CC2420_MAX_PACKET_LEN \<or> unat len \<le> AUX_LEN \<or> unat len - AUX_LEN > bufsize
         then map_option (\<lambda>s4. (0, [], b, s4)) (RELEASE_LOCK h (flushrx s3))
         else (case getrxdata h (unat len - AUX_LEN) s3 of (buf, s4) \<Rightarrow>
               case getrxdata h FOOTER_LEN s4 of (footer, s5) \<Rightarrow>
               let ok = (footer ! 1 AND FOOTER1_CRC_OK \<noteq> 0)
               in case (if ok then good_frame (footer ! 0) (footer ! 1) b s5 else (b, s5)) of (b1, s6) \<Rightarrow>
                    map_option (\<lambda>s7. (if ok then unat len - AUX_LEN else AUX_LEN - AUX_LEN, buf, b1, s7)) (RELEASE_LOCK h (after_frame h s6))))"
      using True unfolding cc2420_read_def fifop_is_1_def s1_def [symmetric] by (simp add: s2 s3)
    show ?thesis
    proof (cases "len > CC2420_MAX_PACKET_LEN \<or> unat len \<le> AUX_LEN \<or> unat len - AUX_LEN > bufsize")
      case bad: True
      have "same_radio s2 (flushrx s3)"
        using s3(2) same_radio_reads(5) same_radio_trans by blast
      then obtain t where "RELEASE_LOCK h (flushrx s3) = Some t" "cc_inv t" "cc_receive_on t = deferred (cc_receive_on s1) calls"
        "cc_regs t = cc_regs s1" "tx_fifo (cc_cmds t) = tx_fifo (cc_cmds s1)" "tx_frames (cc_cmds t) = tx_frames (cc_cmds s1)"
        by (rule rel)
      note t = this
      show ?thesis
      proof (rule that)
        show "cc2420_read h calls bufsize b s = Some (0, [], b, t)"
          unfolding un if_P [OF bad] t(1) by simp
      qed (use True t(2-) in \<open>simp_all add: s1_def\<close>)
    next
      case good: False
      obtain buf s4 where s4: "getrxdata h (unat len - AUX_LEN) s3 = (buf, s4)" "same_radio s3 s4"
        using same_radio_reads(4) by (metis surj_pair snd_conv)
      obtain footer s5 where s5: "getrxdata h FOOTER_LEN s4 = (footer, s5)" "same_radio s4 s5"
        using same_radio_reads(4) by (metis surj_pair snd_conv)
      define ok where "ok = (footer ! 1 AND FOOTER1_CRC_OK \<noteq> 0)"
      obtain b1 s6 where s6: "(if ok then good_frame (footer ! 0) (footer ! 1) b s5 else (b, s5)) = (b1, s6)"
        by (metis surj_pair)
      have "same_radio s5 s6"
        using s6 same_radio_reads(6) [of s5 "footer ! 0" "footer ! 1" b] by (cases ok) (auto simp: same_radio_def)
      then have "same_radio s2 (after_frame h s6)"
        by (rule same_radio_trans [OF s3(2) same_radio_trans [OF s4(2) same_radio_trans [OF s5(2) same_radio_trans [OF _ same_radio_after]]]])
      then obtain t where "RELEASE_LOCK h (after_frame h s6) = Some t" "cc_inv t" "cc_receive_on t = deferred (cc_receive_on s1) calls"
        "cc_regs t = cc_regs s1" "tx_fifo (cc_cmds t) = tx_fifo (cc_cmds s1)" "tx_frames (cc_cmds t) = tx_frames (cc_cmds s1)"
        by (rule rel)
      note t = this
      have rd: "cc2420_read h calls bufsize b s =
          map_option (\<lambda>s7. (if ok then unat len - AUX_LEN else AUX_LEN - AUX_LEN, buf, b1, s7)) (RELEASE_LOCK h (after_frame h s6))"
        unfolding un if_not_P [OF good] s4(1) s5(1) prod.case Let_def ok_def [symmetric] s6 by (rule refl)
      show ?thesis
      proof (rule that)
        show "cc2420_read h calls bufsize b s = Some (if ok then unat len - AUX_LEN else AUX_LEN - AUX_LEN, buf, b1, t)"
          unfolding rd t(1) by simp
      qed (use True t(2-) in \<open>simp_all add: s1_def\<close>)
    qed
  qed
qed

text \<open>A frame in the receive FIFO: its length, the payload, the signal strength and the byte with the result of the checksum.\<close>

lemma read_frame_bytes:
  assumes r: "responsive h" and i: "cc_inv s" and f: "ch_fifop h (cc_n_fifop s)"
    and rx: "map (\<lambda>k. ch_rx h (cc_n_rx s + k)) [0..<length payload + 3] = of_nat (length payload + 2) # payload @ [rssi, corr]"
    and len: "payload \<noteq> []" "length payload \<le> 125" "length payload \<le> bufsize"
  obtains t where "cc2420_read h calls bufsize b s =
      Some (if bit corr 7 then length payload else 0, payload,
            if bit corr 7 then packetbuf_set_attr (packetbuf_set_attr b PACKETBUF_ATTR_RSSI (scast rssi)) PACKETBUF_ATTR_LINK_QUALITY (ucast (corr AND 0x7f))
            else b, t)"
proof -
  define n where "n = cc_n_rx s"
  define s2 where "s2 = s\<lparr>cc_n_fifop := cc_n_fifop s + 1, cc_locked := True, cc_lock_on := \<not> cc_receive_on s \<and> True \<in> set calls,
                          cc_lock_off := cc_receive_on s \<and> False \<in> set calls\<rparr>"
  have s2: "interrupted h calls (GET_LOCK (s\<lparr>cc_n_fifop := cc_n_fifop s + 1\<rparr>)) = Some s2"
    using i by (subst interrupted_locked) (simp_all add: GET_LOCK_def s2_def cc_inv_def idle_def)
  have nth: "ch_rx h (n + k) = (of_nat (length payload + 2) # payload @ [rssi, corr]) ! k" if "k < length payload + 3" for k
    unfolding n_def rx [symmetric] using that by (simp del: upt_Suc)
  have l0: "ch_rx h n = of_nat (length payload + 2)"
    using nth [of 0] by simp
  have lu: "unat (of_nat (length payload + 2) :: u8) = length payload + 2"
    using len(2) by (simp only: unat8_of_nat) simp
  have ok: "\<not> (of_nat (length payload + 2) > CC2420_MAX_PACKET_LEN \<or> unat (of_nat (length payload + 2) :: u8) \<le> AUX_LEN \<or>
      unat (of_nat (length payload + 2) :: u8) - AUX_LEN > bufsize)"
    using len unfolding word_less_nat_alt lu by (simp add: CC2420_MAX_PACKET_LEN_def AUX_LEN_def FOOTER_LEN_def)
  have pay: "map (\<lambda>k. ch_rx h (Suc n + k)) [0..<length payload] = payload"
    by (rule nth_equalityI) (use nth [of "Suc _"] in \<open>simp_all add: nth_append\<close>)
  have foot: "ch_rx h (Suc n + length payload) = rssi" "ch_rx h (Suc (Suc n + length payload)) = corr"
    using nth [of "Suc (length payload)"] nth [of "Suc (Suc (length payload))"] by (simp_all add: nth_append)
  have corr: "corr AND FOOTER1_CRC_OK \<noteq> 0 \<longleftrightarrow> bit corr 7"
  proof -
    have "FOOTER1_CRC_OK = 2 ^ 7"
      by (simp add: FOOTER1_CRC_OK_def)
    then show ?thesis
      unfolding \<open>FOOTER1_CRC_OK = 2 ^ 7\<close> and_exp_eq_0_iff_not_bit by simp
  qed
  define s3 where "s3 = snd (getrxbyte h s2)"
  define s4 where "s4 = snd (getrxdata h (length payload) s3)"
  define s5 where "s5 = snd (getrxdata h FOOTER_LEN s4)"
  have nrx: "cc_n_rx s2 = n" "cc_n_rx s3 = Suc n" "cc_n_rx s4 = Suc n + length payload"
    by (simp_all add: s2_def s3_def s4_def n_def getrxbyte_def getrxdata_def)
  have g3: "getrxbyte h s2 = (of_nat (length payload + 2), s3)"
    by (simp add: s3_def getrxbyte_def nrx l0)
  have "getrxdata h (length payload) s3 = (map (\<lambda>k. ch_rx h (Suc n + k)) [0..<length payload], s4)"
    by (simp add: s4_def getrxdata_def nrx)
  then have g4: "getrxdata h (length payload) s3 = (payload, s4)"
    by (simp only: pay)
  have g5: "getrxdata h FOOTER_LEN s4 = ([rssi, corr], s5)"
    using foot by (simp add: s5_def getrxdata_def nrx FOOTER_LEN_def numeral_2_eq_2)
  define s6 where "s6 = (if bit corr 7 then snd (good_frame rssi corr b s5) else s5)"
  have g6: "(if bit corr 7 then good_frame rssi corr b s5 else (b, s5)) =
      (if bit corr 7 then packetbuf_set_attr (packetbuf_set_attr b PACKETBUF_ATTR_RSSI (scast rssi)) PACKETBUF_ATTR_LINK_QUALITY (ucast (corr AND 0x7f))
       else b, s6)"
    by (simp add: s6_def good_frame_def Let_def FOOTER1_CORRELATION_def)
  have sub: "unat (of_nat (length payload + 2) :: u8) - AUX_LEN = length payload"
    unfolding lu by (simp add: AUX_LEN_def FOOTER_LEN_def)
  obtain t where "RELEASE_LOCK h (after_frame h s6) = Some t"
    by (rule release_ends [OF r])
  note t = this
  have nths: "[rssi, corr] ! 0 = rssi" "[rssi, corr] ! 1 = corr"
    by simp_all
  have fp: "fifop_is_1 h s = (True, s\<lparr>cc_n_fifop := cc_n_fifop s + 1\<rparr>)"
    using f by (simp add: fifop_is_1_def)
  show thesis
    by (rule that [of t])
      (simp only: cc2420_read_def fp prod.case not_True_eq_False if_False s2 Option.bind.bind_lunit g3 if_not_P [OF ok [unfolded sub]] sub g4 g5 Let_def nths
        corr g6 t option.map diff_self_eq_0)
qed

section \<open>Runs\<close>

text \<open>The calls of the driver one after the other.\<close>

datatype cc_event = Ce_On | Ce_Off | Ce_Send u16 "u8 list" | Ce_Read nat packetbuf | Ce_Txpower u8 | Ce_Channel u16 |
  Ce_Pan u16 u16 "u8 list option" | Ce_Rssi | Ce_Interrupt u32 | Ce_Process | Ce_Receiver "nat option"

fun cc_step :: "chip \<Rightarrow> cc2420 \<Rightarrow> cc_event \<Rightarrow> cc2420 option" where
  "cc_step h s Ce_On = cc2420_on h s"
| "cc_step h s Ce_Off = cc2420_off h s"
| "cc_step h s (Ce_Send p payload) = map_option snd (cc2420_send h [] p payload s)"
| "cc_step h s (Ce_Read bufsize b) = map_option (\<lambda>(_, _, _, t). t) (cc2420_read h [] bufsize b s)"
| "cc_step h s (Ce_Txpower pwr) = cc2420_set_txpower h [] pwr s"
| "cc_step h s (Ce_Channel c) = cc2420_set_channel h c s"
| "cc_step h s (Ce_Pan pan addr ieee) = cc2420_set_pan_addr h pan addr ieee s"
| "cc_step h s Ce_Rssi = map_option snd (cc2420_rssi h s)"
| "cc_step h s (Ce_Interrupt t) = Some (cc2420_interrupt t s)"
| "cc_step h s Ce_Process = Some (snd (cc2420_process s))"
| "cc_step h s (Ce_Receiver f) = Some (cc2420_set_receiver f s)"

fun cc_run :: "chip \<Rightarrow> cc_event list \<Rightarrow> cc2420 \<Rightarrow> cc2420 option" where
  "cc_run h [] s = Some s"
| "cc_run h (e # es) s = Option.bind (cc_step h s e) (cc_run h es)"

text \<open>The specification: whether the receiver is to be on, and the payloads that are to be sent.\<close>

fun wanted :: "bool \<Rightarrow> cc_event \<Rightarrow> bool" where
  "wanted w Ce_On = True"
| "wanted w Ce_Off = False"
| "wanted w _ = w"

fun payloads :: "cc_event \<Rightarrow> u8 list list" where
  "payloads (Ce_Send p payload) = [payload]"
| "payloads _ = []"

definition framed :: "u8 list \<Rightarrow> u8 list" where
  "framed payload = of_nat (length payload + 2) # payload"

definition implements :: "cc2420 \<Rightarrow> cc_event \<Rightarrow> cc2420 \<Rightarrow> bool" where
  "implements s e t \<longleftrightarrow> cc_inv t \<and> cc_receive_on t = wanted (cc_receive_on s) e \<and>
     tx_frames (cc_cmds t) = tx_frames (cc_cmds s) @ map framed (payloads e)"

lemma on_off_implements:
  assumes r: "responsive h" and i: "cc_inv s"
  shows "\<exists>t. cc2420_on h s = Some t \<and> implements s Ce_On t" "\<exists>t. cc2420_off h s = Some t \<and> implements s Ce_Off t"
proof -
  show "\<exists>t. cc2420_on h s = Some t \<and> implements s Ce_On t"
    using i by (cases "cc_receive_on s") (auto simp: cc2420_on_def implements_def cc_inv_def idle_def on_def parts cc_strobes ENERGEST_ON_def)
  show "\<exists>t. cc2420_off h s = Some t \<and> implements s Ce_Off t"
  proof (cases "cc_receive_on s")
    case True
    then have c: "cc2420_off h s = off h s"
      using i by (simp add: cc2420_off_def cc_inv_def idle_def)
    show ?thesis
      unfolding c by (rule off_ends [OF r, of s]) (use i in \<open>auto simp: implements_def cc_inv_def idle_def ENERGEST_OFF_def\<close>)
  qed (use i in \<open>auto simp: cc2420_off_def implements_def\<close>)
qed

text \<open>Operations that leave the radio alone but for their commands.\<close>

definition quiet :: "cc2420 \<Rightarrow> cc2420 \<Rightarrow> bool" where
  "quiet s t \<longleftrightarrow> cc_receive_on t = cc_receive_on s \<and> cc_lock_on t = cc_lock_on s \<and> cc_lock_off t = cc_lock_off s \<and>
     cc_locked t = cc_locked s \<and> cc_energest t = cc_energest s \<and> cc_fifop_int t = cc_fifop_int s \<and>
     tx_frames (cc_cmds t) = tx_frames (cc_cmds s)"

lemma quiet_implements: "quiet s t \<Longrightarrow> cc_inv s \<Longrightarrow> payloads e = [] \<Longrightarrow> (\<And>w. wanted w e = w) \<Longrightarrow> implements s e t"
  by (simp add: quiet_def implements_def cc_inv_def idle_def)

lemma quiet_inv: "quiet s t \<Longrightarrow> cc_inv s \<Longrightarrow> cc_inv t"
  by (simp add: quiet_def cc_inv_def idle_def)

lemma set_txpower_quiet:
  assumes "responsive h" and "cc_inv s"
  shows "\<exists>t. cc2420_set_txpower h [] pwr s = Some t \<and> quiet s t"
  using assms by (simp add: cc2420_set_txpower_def interrupted_def RELEASE_LOCK_def parts cc_inv_def idle_def quiet_def)

lemma set_channel_quiet:
  assumes "responsive h"
  shows "\<exists>t. cc2420_set_channel h c s = Some t \<and> quiet s t"
proof -
  obtain j where j: "wait_status h (\<lambda>b. bit b CC2420_XOSC16M_STABLE) (s\<lparr>cc_channel := c\<rparr>) = Some (s\<lparr>cc_channel := c, cc_n_status := j\<rparr>)"
    using wait_bits_end(1) [OF assms, of "s\<lparr>cc_channel := c\<rparr>"] by auto
  obtain k where k: "wait_tx h (s\<lparr>cc_channel := c, cc_n_status := j\<rparr>) = Some (s\<lparr>cc_channel := c, cc_n_status := k\<rparr>)"
    using wait_tx_ends [OF assms, of "s\<lparr>cc_channel := c, cc_n_status := j\<rparr>"] by auto
  show ?thesis
    by (simp add: cc2420_set_channel_def Let_def j k parts quiet_def cc_strobes)
qed

lemma set_pan_addr_quiet:
  assumes "responsive h"
  shows "\<exists>t. cc2420_set_pan_addr h pan addr ieee s = Some t \<and> quiet s t"
proof -
  obtain j where "wait_status h (\<lambda>b. bit b CC2420_XOSC16M_STABLE) s = Some (s\<lparr>cc_n_status := j\<rparr>)"
    using wait_bits_end(1) [OF assms] by blast
  then show ?thesis
    by (simp add: cc2420_set_pan_addr_def Let_def parts quiet_def split: option.split)
qed

lemma rssi_implements:
  assumes r: "responsive h" and i: "cc_inv s"
  shows "\<exists>x t. cc2420_rssi h s = Some (x, t) \<and> implements s Ce_Rssi t"
proof -
  note w = wait_bits_end(2) [OF r]
  show ?thesis
  proof (cases "cc_receive_on s")
    case True
    then show ?thesis
      using w [of s] i by (auto simp: cc2420_rssi_def Let_def implements_def cc_inv_def idle_def)
  next
    case False
    obtain t1 where t1: "cc2420_on h s = Some t1" "implements s Ce_On t1"
      using on_off_implements(1) [OF r i] by blast
    obtain j where j: "wait_status h (\<lambda>b. bit b CC2420_RSSI_VALID) t1 = Some (t1\<lparr>cc_n_status := j\<rparr>)"
      using w by blast
    have "cc_inv (t1\<lparr>cc_n_status := j\<rparr>)"
      using t1(2) by (simp add: implements_def cc_inv_def idle_def)
    then obtain t2 where t2: "cc2420_off h (t1\<lparr>cc_n_status := j\<rparr>) = Some t2" "implements (t1\<lparr>cc_n_status := j\<rparr>) Ce_Off t2"
      using on_off_implements(2) [OF r] by blast
    have "cc2420_rssi h s = Some (sint (ucast (getreg h CC2420_RSSI (t1\<lparr>cc_n_status := j\<rparr>)) :: u8), t2)"
      using False by (simp add: cc2420_rssi_def Let_def t1(1) j t2(1))
    then show ?thesis
      using False t1(2) t2(2) by (simp add: implements_def)
  qed
qed

lemma cc_step_ends:
  assumes r: "responsive h" and i: "cc_inv s"
  shows "\<exists>t. cc_step h s e = Some t \<and> implements s e t"
proof (cases e)
  case (Ce_Send p payload)
  show ?thesis
    by (rule send_ends [OF r i, of "[]" p payload]) (auto simp: Ce_Send implements_def deferred_def framed_def)
next
  case (Ce_Read bufsize b)
  show ?thesis
    by (rule read_ends [OF r i, of "[]" bufsize b]) (auto simp: Ce_Read implements_def deferred_def)
next
  case (Ce_Rssi)
  then show ?thesis
    using rssi_implements [OF r i] by fastforce
next
  case (Ce_Txpower pwr)
  then show ?thesis
    using set_txpower_quiet [OF r i, of pwr] quiet_implements [OF _ i, of _ e] by fastforce
next
  case (Ce_Channel c)
  then show ?thesis
    using set_channel_quiet [OF r, of c s] quiet_implements [OF _ i, of _ e] by fastforce
next
  case (Ce_Pan pan addr ieee)
  then show ?thesis
    using set_pan_addr_quiet [OF r, of pan addr ieee s] quiet_implements [OF _ i, of _ e] by fastforce
qed (use on_off_implements [OF r i] in
    \<open>auto simp: cc2420_interrupt_def cc2420_process_def cc2420_set_receiver_def quiet_def parts cc_strobes Let_def intro!: quiet_implements [OF _ i]\<close>)

lemma cc_run_ends:
  assumes r: "responsive h"
  shows "cc_inv s \<Longrightarrow> \<exists>t. cc_run h es s = Some t \<and> cc_inv t \<and> cc_receive_on t = foldl wanted (cc_receive_on s) es \<and>
    tx_frames (cc_cmds t) = tx_frames (cc_cmds s) @ map framed (concat (map payloads es))"
proof (induction es arbitrary: s)
  case (Cons e es)
  obtain u where u: "cc_step h s e = Some u" "cc_inv u" "cc_receive_on u = wanted (cc_receive_on s) e"
    "tx_frames (cc_cmds u) = tx_frames (cc_cmds s) @ map framed (payloads e)"
    using cc_step_ends [OF r Cons.prems, of e] unfolding implements_def by blast
  then show ?case
    using Cons.IH [OF u(2)] by simp
qed simp

text \<open>The start: the registers and the channel are set, the receiver is off.\<close>

lemma init_ends:
  assumes r: "responsive h" and s: "idle s" "\<not> cc_receive_on s" "\<not> en_mode (cc_energest s) ENERGEST_TYPE_LISTEN"
    "\<not> en_mode (cc_energest s) ENERGEST_TYPE_TRANSMIT"
  obtains t where "cc2420_init h s = Some t" "cc_inv t" "\<not> cc_receive_on t" "tx_frames (cc_cmds t) = tx_frames (cc_cmds s)"
proof -
  define s1 where "s1 = command Reset_Inactive (command Reset_Active (command Vreg_Active (s\<lparr>cc_fifop_int := False\<rparr>)))"
  define s2 where "s2 = cc_strobe CC2420_SXOSCON s1"
  define s3 where "s3 = setreg CC2420_MDMCTRL0 (getreg h CC2420_MDMCTRL0 s2 AND NOT (AUTOACK OR ADR_DECODE)) s2"
  define s4 where "s4 = setreg CC2420_MDMCTRL1 (CORR_THR 20) s3"
  define s5 where "s5 = setreg CC2420_RXCTRL1 (getreg h CC2420_RXCTRL1 s4 OR RXBPF_LOCUR) s4"
  define s6 where "s6 = setreg CC2420_IOCFG0 (FIFOP_THR 127) s5"
  define s7 where "s7 = setreg CC2420_SECCTRL0 (getreg h CC2420_SECCTRL0 s6 AND NOT RXFIFO_PROTECTION) s6"
  have "quiet (s\<lparr>cc_fifop_int := False\<rparr>) s7"
    unfolding s7_def s6_def s5_def s4_def s3_def s2_def s1_def by (simp add: quiet_def parts cc_strobes)
  moreover have "cc_inv (s\<lparr>cc_fifop_int := False\<rparr>)"
    using s by (simp add: cc_inv_def idle_def)
  ultimately have i7: "cc_inv s7" "\<not> cc_receive_on s7" "tx_frames (cc_cmds s7) = tx_frames (cc_cmds s)"
    using quiet_inv s(2) unfolding quiet_def by fastforce+
  obtain u where u: "cc2420_set_pan_addr h 0xffff 0x0000 None s7 = Some u" "quiet s7 u"
    using set_pan_addr_quiet [OF r] by blast
  obtain t where t: "cc2420_set_channel h 26 u = Some t" "quiet u t"
    using set_channel_quiet [OF r] by blast
  have "cc2420_init h s = Some t"
    unfolding cc2420_init_def Let_def s1_def [symmetric] s2_def [symmetric] s3_def [symmetric] s4_def [symmetric] s5_def [symmetric]
      s6_def [symmetric] s7_def [symmetric] by (simp add: u t)
  then show thesis
    using that [of t] quiet_inv [OF t(2) quiet_inv [OF u(2) i7(1)]] u(2) t(2) i7 by (simp add: quiet_def)
qed

end
