(* ===== verification/Radio_Props.thy ===== *)
theory Radio_Props
  imports Cc2420_Props Xmac_Props
begin

text \<open>
  X-MAC on its radio: the driver carries out the calls of X-MAC, and what one node's X-MAC sends is what another node's
  driver reads.
\<close>

section \<open>The calls of X-MAC\<close>





section \<open>From node to node\<close>









end
