(* ===== verification/Lpp_New.thy ===== *)
theory Lpp_New
  imports Xmac
begin

text \<open>
  The other MAC protocol of the program, Low-Power Probing, \<open>core/net/mac/lpp_new.c\<close>, as it is built with
  \<open>MAC_PROTOCOL == LPP_NEW\<close> and \<open>GLOSSY\<close>. A receiver wakes up periodically, sends a probe and listens; a sender keeps its packet in
  a buffer with the radio on until a probe of the receiver comes, sends the packet and waits for a data acknowledgment. Timer B's
  compare registers \<open>TBCCR3\<close> (duty cycle) and \<open>TBCCR2\<close> (send timeout) are part of the state; the LEDs are left out. The header
  \<open>struct lpp_new_hdr\<close> has the layout of \<open>struct xmac_hdr\<close>, and the inputs of a call are those of X-MAC (\<open>air\<close>).
\<close>

section \<open>State\<close>

definition TYPE_PROBE :: u16 where "TYPE_PROBE = 0"
definition TYPE_ACK :: u16 where "TYPE_ACK = 2"

text \<open>\<open>WAIT_FOR_DATA_ACK\<close>, \<open>LPP_NEW_MAX_RANDOM_OFF_TIME\<close>, and \<open>HANDSHAKES_RESET_PERIOD\<close> of this protocol.\<close>

definition WAIT_FOR_DATA_ACK :: rtimer_clock_t where "WAIT_FOR_DATA_ACK = 32768 div 240"
definition LPP_NEW_MAX_RANDOM_OFF_TIME :: rtimer_clock_t where "LPP_NEW_MAX_RANDOM_OFF_TIME = 32768 div 64"
definition LPP_HANDSHAKES_RESET_PERIOD :: u32 where "LPP_HANDSHAKES_RESET_PERIOD = 10"

record lpp_new_config =
  lc_on_time :: rtimer_clock_t
  lc_off_time :: rtimer_clock_t
  lc_tx_timeout :: rtimer_clock_t

record send_buffer =
  sb_packet :: "u8 list"
  sb_len :: u16
  sb_dest :: rimeaddr
  sb_valid :: bool
  sb_is_broadcast :: bool
  sb_timed_out :: bool
  sb_probe_received :: bool
  sb_got_data_ack :: bool
  sb_add_timestamp :: bool
  sb_t_start :: rtimer_clock_t

text \<open>The radio's calls, the latest first; a packet goes out with the value of the attribute \<open>PACKETBUF_ATTR_TIMESTAMP\<close>.\<close>

datatype lpp_op = Lp_On | Lp_Off | Lp_Send u16 "u8 list"

text \<open>The protothread \<open>dutycycle\<close> has not run yet, or yields in the on or in the off phase.\<close>

datatype lpp_pc = Dc_Begin | Dc_On | Dc_Off

text \<open>
  \<open>lp_posted\<close> are the arguments of the calls of \<open>post_send\<close>, the latest first; \<open>lp_probe_polled\<close> and \<open>lp_timeout_polled\<close> say that
  the two processes of the protocol have been polled.
\<close>

record lpp =
  lp_config :: lpp_new_config
  lp_is_on :: bool
  lp_dutycycle_on :: bool
  lp_handshakes_total :: u32
  lp_handshakes_succ :: u32
  lp_probes_total :: u32
  lp_probes_succ :: u32
  lp_pc :: lpp_pc
  lp_buffer :: send_buffer
  lp_now :: rtimer_clock_t
  lp_energest_listen :: u32
  lp_energest_transmit :: u32
  lp_energest :: energest
  lp_tbccr2 :: rtimer_clock_t
  lp_tbcctl2 :: bool
  lp_tbccr3 :: rtimer_clock_t
  lp_tbcctl3 :: bool
  lp_ops :: "lpp_op list"
  lp_posted :: "bool list"
  lp_probe_polled :: bool
  lp_timeout_polled :: bool
  lp_receiver_callback :: "nat option"

definition lp_op :: "lpp_op \<Rightarrow> lpp \<Rightarrow> lpp" where
  "lp_op p s = s\<lparr>lp_ops := p # lp_ops s\<rparr>"

abbreviation lp_buf :: "(send_buffer \<Rightarrow> send_buffer) \<Rightarrow> lpp \<Rightarrow> lpp" where
  "lp_buf f s \<equiv> s\<lparr>lp_buffer := f (lp_buffer s)\<rparr>"

definition lpp_radio_on :: "lpp \<Rightarrow> lpp" where "lpp_radio_on s = lp_op Lp_On s"
definition lpp_radio_off :: "lpp \<Rightarrow> lpp" where "lpp_radio_off s = lp_op Lp_Off s"

definition lpp_send :: "packetbuf \<Rightarrow> u8 list \<Rightarrow> lpp \<Rightarrow> lpp" where
  "lpp_send b p s = lp_op (Lp_Send (packetbuf_attr b PACKETBUF_ATTR_TIMESTAMP) p) s"

definition send_probe :: "rimeaddr \<Rightarrow> packetbuf \<Rightarrow> lpp \<Rightarrow> lpp" where
  "send_probe me b s = lpp_send b (packet_hdr TYPE_PROBE me me) s"

section \<open>The duty cycle\<close>

text \<open>\<open>time_to_glossy\<close> is \<open>TIME_TO_GLOSSY\<close>; the sum it is compared with is computed in 16 bits.\<close>

definition duty_on :: "air \<Rightarrow> lpp \<Rightarrow> lpp" where
  "duty_on a s =
     (let s1 = s\<lparr>lp_now := ar_tbr a, lp_tbccr3 := ar_tbr a + lc_on_time (lp_config s)\<rparr>;
          s2 = (if lp_is_on s1 then s1\<lparr>lp_probe_polled := True\<rparr> else s1)
      in s2\<lparr>lp_pc := Dc_On\<rparr>)"

definition duty_off :: "air \<Rightarrow> u32 \<Rightarrow> lpp \<Rightarrow> lpp" where
  "duty_off a time_to_glossy s =
     (let random_off_time = ar_rnd a mod (LPP_NEW_MAX_RANDOM_OFF_TIME + 1);
          s1 = s\<lparr>lp_now := ar_tbr a, lp_tbccr3 := ar_tbr a + lc_off_time (lp_config s) + random_off_time\<rparr>;
          s2 = (if lp_is_on s1
                then (let s' = s1\<lparr>lp_dutycycle_on := False\<rparr> in if \<not> sb_valid (lp_buffer s') then lpp_radio_off s' else s')
                else s1);
          s3 = (if time_to_glossy < ucast (2 * lc_off_time (lp_config s2) + random_off_time + lc_on_time (lp_config s2))
                then s2\<lparr>lp_tbcctl3 := False\<rparr> else s2)
      in s3\<lparr>lp_pc := Dc_Off\<rparr>)"

definition dutycycle :: "air \<Rightarrow> u32 \<Rightarrow> lpp \<Rightarrow> lpp" where
  "dutycycle a time_to_glossy s = (case lp_pc s of Dc_On \<Rightarrow> duty_off a time_to_glossy s | _ \<Rightarrow> duty_on a s)"

section \<open>Sending\<close>

text \<open>\<open>EXCLUDE_TRICKLE_ENERGY\<close>: the time since a broadcast was given to the protocol is accounted as idle.\<close>

definition lpp_exclude_energy :: "air \<Rightarrow> lpp \<Rightarrow> lpp" where
  "lpp_exclude_energy a s =
     (case energest_type_time (ar_energest_now a 0) (lp_energest s) ENERGEST_TYPE_TRANSMIT of (transmit, e1) \<Rightarrow>
      case energest_type_time (ar_energest_now a 1) e1 ENERGEST_TYPE_LISTEN of (listen, e2) \<Rightarrow>
      case energest_type_time (ar_energest_now a 2) e2 ENERGEST_TYPE_LPM of (lpm, e3) \<Rightarrow>
        s\<lparr>lp_energest :=
            energest_type_set
              (energest_type_set
                (energest_type_set e3 ENERGEST_TYPE_LPM
                  (lpm + (listen - lp_energest_listen s) + (transmit - lp_energest_transmit s)))
                ENERGEST_TYPE_LISTEN (lp_energest_listen s))
              ENERGEST_TYPE_TRANSMIT (lp_energest_transmit s)\<rparr>)"

definition lpp_halve :: "lpp \<Rightarrow> lpp" where
  "lpp_halve s =
     (if lp_handshakes_total s \<ge> LPP_HANDSHAKES_RESET_PERIOD
      then s\<lparr>lp_handshakes_total := drop_bit 1 (lp_handshakes_total s), lp_handshakes_succ := drop_bit 1 (lp_handshakes_succ s)\<rparr>
      else s)"

definition lpp_post_send :: "bool \<Rightarrow> lpp \<Rightarrow> lpp" where
  "lpp_post_send acknowledged s = s\<lparr>lp_posted := acknowledged # lp_posted s\<rparr>"

definition remove_packet_from_buffer :: "air \<Rightarrow> lpp \<Rightarrow> lpp" where
  "remove_packet_from_buffer a s =
     (let s1 = (lp_buf (sb_valid_update (\<lambda>_. False)) s)\<lparr>lp_tbcctl2 := False\<rparr>;
          s2 = (if \<not> lp_dutycycle_on s1 then lpp_radio_off s1 else s1)
      in if \<not> sb_is_broadcast (lp_buffer s2)
         then (let s3 = s2\<lparr>lp_probes_total := lp_probes_total s2 + 1\<rparr>;
                   s4 = (if lp_probes_total s3 = 2 then s3\<lparr>lp_probes_total := 0, lp_probes_succ := 0\<rparr> else s3);
                   s5 = lpp_halve s4
               in lpp_post_send (sb_got_data_ack (lp_buffer s5)) s5)
         else lpp_exclude_energy a s2)"

text \<open>The packet is prepared as in X-MAC and copied to the send buffer.\<close>

definition fill_buffer :: "packetbuf \<Rightarrow> air \<Rightarrow> send_buffer \<Rightarrow> send_buffer" where
  "fill_buffer b a sb =
     sb\<lparr>sb_len := packetbuf_totlen b, sb_dest := rimeaddr_copy (sb_dest sb) (packetbuf_addr b PACKETBUF_ADDR_RECEIVER),
        sb_packet := mem_put (sb_packet sb) 0 (pb_out b),
        sb_add_timestamp := packetbuf_attr b PACKETBUF_ATTR_TIMESTAMP \<noteq> 0,
        sb_timed_out := False, sb_got_data_ack := False, sb_valid := True, sb_probe_received := False, sb_t_start := ar_tbr a\<rparr>"

definition lpp_window :: "lpp_new_config \<Rightarrow> rtimer_clock_t" where
  "lpp_window c = 2 * lc_on_time c + lc_off_time c + LPP_NEW_MAX_RANDOM_OFF_TIME"

definition lpp_accept :: "air \<Rightarrow> rimeaddr \<Rightarrow> packetbuf \<Rightarrow> lpp \<Rightarrow> packetbuf \<times> lpp" where
  "lpp_accept a me b s =
     (let receiver = packetbuf_addr b PACKETBUF_ADDR_RECEIVER;
          s1 = (if rimeaddr_cmp receiver rimeaddr_null
                then (case energest_type_time (ar_energest_now a 3) (lp_energest s) ENERGEST_TYPE_LISTEN of (listen, e1) \<Rightarrow>
                      case energest_type_time (ar_energest_now a 4) e1 ENERGEST_TYPE_TRANSMIT of (transmit, e2) \<Rightarrow>
                        (lp_buf (sb_is_broadcast_update (\<lambda>_. True)) s)
                          \<lparr>lp_energest := e2, lp_energest_listen := listen, lp_energest_transmit := transmit\<rparr>)
                else lp_buf (sb_is_broadcast_update (\<lambda>_. False)) s);
          b1 = put_hdr a (packet_hdr TYPE_DATA me receiver) b;
          s2 = lp_buf (fill_buffer b1 a) s1;
          t = sb_t_start (lp_buffer s2);
          s3 = s2\<lparr>lp_tbccr2 := (if \<not> sb_is_broadcast (lp_buffer s2) then t + lc_tx_timeout (lp_config s2) else t + lpp_window (lp_config s2)),
                  lp_tbcctl2 := True\<rparr>
      in (packetbuf_clear b1, lpp_radio_on s3))"

definition lpp_send_packet :: "air \<Rightarrow> rimeaddr \<Rightarrow> packetbuf \<Rightarrow> lpp \<Rightarrow> bool \<times> packetbuf \<times> lpp" where
  "lpp_send_packet a me b s =
     (if \<not> lp_is_on s then (False, b, lpp_post_send False s)
      else
        (let is_broadcast = rimeaddr_cmp (packetbuf_addr b PACKETBUF_ADDR_RECEIVER) rimeaddr_null
         in if sb_valid (lp_buffer s) \<and> is_broadcast then (False, b, s)
            else
              (let s1 = (if sb_valid (lp_buffer s) \<and> sb_is_broadcast (lp_buffer s) \<and> \<not> is_broadcast
                         then remove_packet_from_buffer a s else s)
               in (True, lpp_accept a me b s1))))"

text \<open>The type of what comes is not looked at; \<open>dest\<close> is the receiver of the packet.\<close>

definition is_lpp_ack :: "rimeaddr \<Rightarrow> rimeaddr \<Rightarrow> u8 list \<Rightarrow> bool" where
  "is_lpp_ack me dest ack \<longleftrightarrow> rimeaddr_cmp (xh_sender (bytes_hdr ack)) dest \<and> rimeaddr_cmp (xh_receiver (bytes_hdr ack)) me"

definition buffered :: "lpp \<Rightarrow> u8 list" where
  "buffered s = take (unat (sb_len (lp_buffer s))) (sb_packet (lp_buffer s))"

text \<open>A probe has come: a broadcast is sent at once and stays in the buffer, a unicast is sent and its acknowledgment awaited.\<close>

definition send_data_packet :: "air \<Rightarrow> rimeaddr \<Rightarrow> packetbuf \<Rightarrow> lpp \<Rightarrow> (packetbuf \<times> lpp) option" where
  "send_data_packet a me b s =
     (if sb_is_broadcast (lp_buffer s)
      then (let b1 = packetbuf_set_attr b PACKETBUF_ATTR_TIMESTAMP (of_bool (sb_add_timestamp (lp_buffer s)));
                s1 = lpp_send b1 (buffered s) s
            in Some (packetbuf_set_attr b1 PACKETBUF_ATTR_TIMESTAMP 0, lp_buf (sb_probe_received_update (\<lambda>_. False)) s1))
      else
        (let s1 = (if rtimer_clock_lt (ar_now a 0) (sb_t_start (lp_buffer s) + lpp_window (lp_config s))
                   then s\<lparr>lp_probes_succ := lp_probes_succ s + 1\<rparr> else s);
             b1 = packetbuf_set_attr b PACKETBUF_ATTR_TIMESTAMP 0;
             s2 = lpp_send b1 (buffered s1) s1
         in map_option
              (\<lambda>got. let s3 = (if got then lp_buf (sb_got_data_ack_update (\<lambda>_. True)) s2 else s2);
                         s4 = s3\<lparr>lp_handshakes_total := lp_handshakes_total s3 + 1\<rparr>;
                         s5 = (if sb_got_data_ack (lp_buffer s4) then s4\<lparr>lp_handshakes_succ := lp_handshakes_succ s4 + 1\<rparr> else s4)
                     in (b1, remove_packet_from_buffer a s5))
              (if sb_got_data_ack (lp_buffer s2) then Some True
               else data_ack_wait a (is_lpp_ack me (sb_dest (lp_buffer s2))) (ar_now a 1 + WAIT_FOR_DATA_ACK) (ar_ack a) 2 1)))"

section \<open>Receiving\<close>

definition lpp_read_data :: "rimeaddr \<Rightarrow> xmac_hdr \<Rightarrow> packetbuf \<Rightarrow> lpp \<Rightarrow> u16 \<times> packetbuf \<times> lpp" where
  "lpp_read_data me hdr b s =
     (if rimeaddr_cmp (xh_receiver hdr) me \<or> rimeaddr_cmp (xh_receiver hdr) rimeaddr_null
      then (let b1 = packetbuf_set_addr b PACKETBUF_ADDR_SENDER (xh_sender hdr)
            in if \<not> rimeaddr_cmp (xh_receiver hdr) rimeaddr_null
               then (let b2 = packetbuf_set_addr b1 PACKETBUF_ADDR_RECEIVER (xh_receiver hdr)
                     in (packetbuf_totlen b2, b2, lpp_send b2 (packet_hdr TYPE_ACK (xh_receiver hdr) (xh_sender hdr)) s))
               else (packetbuf_totlen b1, b1, s))
      else (0, b, s))"

definition lpp_read_packet :: "air \<Rightarrow> rimeaddr \<Rightarrow> packetbuf \<Rightarrow> lpp \<Rightarrow> (u16 \<times> packetbuf \<times> lpp) option" where
  "lpp_read_packet a me b s =
     (case frame_in a b of
        (b1, None) \<Rightarrow> Some (0, b1, s)
      | (b1, Some hdr) \<Rightarrow>
          if xh_type hdr = TYPE_PROBE
          then if sb_valid (lp_buffer s) \<and> (sb_is_broadcast (lp_buffer s) \<or> rimeaddr_cmp (xh_sender hdr) (sb_dest (lp_buffer s)))
               then map_option (\<lambda>(b2, s2). (0, b2, s2)) (send_data_packet a me b1 (lp_buf (sb_probe_received_update (\<lambda>_. True)) s))
               else Some (0, b1, s)
          else if xh_type hdr = TYPE_DATA then Some (lpp_read_data me hdr b1 s)
          else Some (0, b1, s))"

section \<open>The driver\<close>

definition lpp_set_receive_function :: "nat option \<Rightarrow> lpp \<Rightarrow> lpp" where
  "lpp_set_receive_function recv s = s\<lparr>lp_receiver_callback := recv\<rparr>"

definition lpp_input_packet :: "lpp \<Rightarrow> nat option" where
  "lpp_input_packet s = lp_receiver_callback s"

text \<open>An \<open>off_time\<close> of 0 divides by zero in \<open>mac_on\<close>; here the offset is then the random number itself.\<close>

definition lpp_mac_on :: "air \<Rightarrow> lpp \<Rightarrow> lpp" where
  "lpp_mac_on a s = s\<lparr>lp_is_on := True, lp_tbccr3 := ar_tbr a + ar_rnd a mod lc_off_time (lp_config s), lp_tbcctl3 := True\<rparr>"

definition lpp_mac_off :: "air \<Rightarrow> bool \<Rightarrow> lpp \<Rightarrow> lpp" where
  "lpp_mac_off a keep_radio_on s =
     (let s1 = s\<lparr>lp_tbcctl2 := False, lp_tbcctl3 := False, lp_is_on := False\<rparr>;
          s2 = (if keep_radio_on then lpp_radio_on s1 else lpp_radio_off s1)
      in if sb_valid (lp_buffer s2) then remove_packet_from_buffer a s2 else s2)"

definition lpp_new_init :: "air \<Rightarrow> lpp \<Rightarrow> lpp" where
  "lpp_new_init a s =
     (lpp_radio_off (lp_buf (sb_valid_update (\<lambda>_. False)) (s\<lparr>lp_pc := Dc_Begin, lp_is_on := True\<rparr>)))
       \<lparr>lp_dutycycle_on := False, lp_tbccr3 := ar_tbr a + lc_off_time (lp_config s), lp_tbcctl3 := True\<rparr>"

definition get_lpp_new_config :: "lpp \<Rightarrow> lpp_new_config" where
  "get_lpp_new_config s = lp_config s"

text \<open>\<open>a\<close> are the inputs of \<open>mac_off\<close>, \<open>a'\<close> those of \<open>mac_on\<close>.\<close>

definition set_lpp_new_config :: "air \<Rightarrow> air \<Rightarrow> lpp_new_config \<Rightarrow> lpp \<Rightarrow> lpp" where
  "set_lpp_new_config a a' config s =
     lpp_mac_on a' ((lpp_mac_off a False s)\<lparr>lp_config := \<lparr>lc_on_time = lc_on_time config, lc_off_time = lc_off_time config,
                                                 lc_tx_timeout = lc_tx_timeout config\<rparr>\<rparr>)"

definition lpp_new_get_prr :: "lpp \<Rightarrow> u16" where
  "lpp_new_get_prr s = ucast ((lp_handshakes_succ s + 1) * 1000 div (lp_handshakes_total s + 1))"

definition lpp_new_reset_prr :: "lpp \<Rightarrow> lpp" where
  "lpp_new_reset_prr s = s\<lparr>lp_handshakes_total := 0, lp_handshakes_succ := 0\<rparr>"

section \<open>The interrupts of Timer B and the two processes\<close>

text \<open>The branches of \<open>timerb1_interrupt\<close> in \<open>core/dev/glossy.c\<close> for this protocol: the send timeout and the duty cycle.\<close>

definition lpp_timeout_interrupt :: "lpp \<Rightarrow> lpp" where
  "lpp_timeout_interrupt s = s\<lparr>lp_tbcctl2 := False, lp_timeout_polled := True\<rparr>"

definition send_timeout_process :: "air \<Rightarrow> lpp \<Rightarrow> lpp" where
  "send_timeout_process a s =
     (let s1 = s\<lparr>lp_timeout_polled := False\<rparr> in if sb_valid (lp_buffer s1) then remove_packet_from_buffer a s1 else s1)"

definition send_probe_process :: "rimeaddr \<Rightarrow> packetbuf \<Rightarrow> lpp \<Rightarrow> lpp" where
  "send_probe_process me b s =
     send_probe me b (lpp_radio_on (s\<lparr>lp_probe_polled := False, lp_dutycycle_on := True\<rparr>))"

end
