(* ===== verification/Lpp_Props.thy ===== *)
theory Lpp_Props
  imports Lpp_New Xmac_Props
begin

text \<open>
  The properties of Low-Power Probing: the handshake between two nodes, what becomes of every packet, and what a change of the
  configuration does to the duty cycle.
\<close>

section \<open>What the radio has done\<close>

text \<open>The packets that the radio has sent, in order, and whether it is on.\<close>

definition lpp_sent :: "lpp \<Rightarrow> u8 list list" where
  "lpp_sent s = rev (List.map_filter (\<lambda>p. case p of Lp_Send _ b \<Rightarrow> Some b | _ \<Rightarrow> None) (lp_ops s))"

fun listening :: "lpp_op list \<Rightarrow> bool" where
  "listening [] = False"
| "listening (Lp_On # ops) = True"
| "listening (Lp_Off # ops) = False"
| "listening (Lp_Send _ _ # ops) = listening ops"

lemma lpp_sent_ops [simp]:
  "lpp_sent (lp_op Lp_On s) = lpp_sent s" "lpp_sent (lp_op Lp_Off s) = lpp_sent s"
  "lpp_sent (lpp_radio_on s) = lpp_sent s" "lpp_sent (lpp_radio_off s) = lpp_sent s"
  "lpp_sent (lpp_send pb p s) = lpp_sent s @ [p]"
  by (simp_all add: lpp_sent_def lp_op_def lpp_radio_on_def lpp_radio_off_def lpp_send_def)

lemma lpp_sent_cong: "lp_ops s = lp_ops t \<Longrightarrow> lpp_sent s = lpp_sent t"
  by (simp add: lpp_sent_def)

lemma remove_packet_simps [simp]:
  "lpp_sent (remove_packet_from_buffer a s) = lpp_sent s" "\<not> sb_valid (lp_buffer (remove_packet_from_buffer a s))"
  "\<not> lp_tbcctl2 (remove_packet_from_buffer a s)" "lp_dutycycle_on (remove_packet_from_buffer a s) = lp_dutycycle_on s"
  "lp_is_on (remove_packet_from_buffer a s) = lp_is_on s" "lp_config (remove_packet_from_buffer a s) = lp_config s"
  "lp_posted (remove_packet_from_buffer a s) =
     (if sb_is_broadcast (lp_buffer s) then lp_posted s else sb_got_data_ack (lp_buffer s) # lp_posted s)"
  "listening (lp_ops (remove_packet_from_buffer a s)) \<longleftrightarrow> lp_dutycycle_on s \<and> listening (lp_ops s)"
  "lp_timeout_polled (remove_packet_from_buffer a s) = lp_timeout_polled s"
  "lp_pc (remove_packet_from_buffer a s) = lp_pc s"
  "sb_packet (lp_buffer (remove_packet_from_buffer a s)) = sb_packet (lp_buffer s)"
  by (simp_all add: remove_packet_from_buffer_def Let_def lpp_halve_def lpp_post_send_def lpp_exclude_energy_def lpp_radio_off_def
      lp_op_def lpp_sent_def split: prod.split)

section \<open>The handshake\<close>

text \<open>The packet in the buffer is the frame.\<close>

lemma lpp_send_packet_buffers:
  assumes "pb_inv b" and "\<not> packetbuf_is_reference b" and "6 < unat (pb_hdrptr b)"
    and "lp_is_on s" and "\<not> sb_valid (lp_buffer s)" and "packetbuf_addr b PACKETBUF_ADDR_RECEIVER = r" and "r \<noteq> rimeaddr_null"
  obtains s1 where "lpp_send_packet a me b s = (True, packetbuf_clear (put_hdr a (packet_hdr TYPE_DATA me r) b), s1)"
    "buffered s1 = packet_hdr TYPE_DATA me r @ pb_hdr b @ pb_data b" "lpp_sent s1 = lpp_sent s" "lp_posted s1 = lp_posted s"
    "sb_valid (lp_buffer s1)" "\<not> sb_is_broadcast (lp_buffer s1)" "sb_dest (lp_buffer s1) = r" "\<not> sb_got_data_ack (lp_buffer s1)"
    "lp_tbcctl2 s1" "lp_tbccr2 s1 = ar_tbr a + lc_tx_timeout (lp_config s)" "listening (lp_ops s1)"
    "lp_dutycycle_on s1 = lp_dutycycle_on s"
proof -
  define h where "h = packet_hdr TYPE_DATA me r"
  have h: "length h = 6"
    by (simp add: h_def hdr_len)
  note out = put_hdr_out [OF assms(1,2) h assms(3), of a]
  have r: "packetbuf_addr (put_hdr a h b) PACKETBUF_ADDR_RECEIVER = r"
    using assms(6) by (simp add: put_hdr_def Let_def packetbuf_compact_def packetbuf_hdralloc_def packetbuf_addr_def)
  have null: "\<not> rimeaddr_cmp r rimeaddr_null"
    using assms(7) by (simp add: rimeaddr_cmp_eq)
  have eq: "lpp_send_packet a me b s = (True, lpp_accept a me b s)"
    using assms(4,5) by (simp add: lpp_send_packet_def)
  define s1 where "s1 = snd (lpp_accept a me b s)"
  have acc: "lpp_accept a me b s = (packetbuf_clear (put_hdr a h b), s1)"
    by (simp add: s1_def lpp_accept_def Let_def assms(6) h_def)
  have buf: "lp_buffer s1 = fill_buffer (put_hdr a h b) a (lp_buffer s\<lparr>sb_is_broadcast := False\<rparr>)"
    using null by (simp add: s1_def lpp_accept_def Let_def assms(6) h_def [symmetric] lpp_radio_on_def lp_op_def)
  show ?thesis
  proof (rule that [of s1])
    have "buffered s1 = h @ pb_hdr b @ pb_data b"
      unfolding buffered_def buf by (simp add: fill_buffer_def mem_put_def out)
    then show "buffered s1 = packet_hdr TYPE_DATA me r @ pb_hdr b @ pb_data b"
      by (simp add: h_def)
    show "sb_dest (lp_buffer s1) = r" "sb_valid (lp_buffer s1)" "\<not> sb_is_broadcast (lp_buffer s1)" "\<not> sb_got_data_ack (lp_buffer s1)"
      by (simp_all add: buf fill_buffer_def r rimeaddr_copy_def)
    show "lpp_send_packet a me b s = (True, packetbuf_clear (put_hdr a (packet_hdr TYPE_DATA me r) b), s1)"
      by (simp add: eq acc h_def)
  qed (use null in \<open>simp_all add: s1_def lpp_accept_def Let_def assms(6) lpp_radio_on_def lp_op_def fill_buffer_def lpp_sent_def\<close>)
qed

text \<open>A probe of the receiver: the packet goes out, once, and what comes back within the time decides.\<close>

lemma lpp_probe_answered:
  assumes tk: "ticking T g a" and g: "g < 136" and ok: "reads_ok a" and inv: "pb_inv rb"
    and r: "ar_read a 0 = (packet_hdr TYPE_PROBE r r, True)"
    and v: "sb_valid (lp_buffer s)" "\<not> sb_is_broadcast (lp_buffer s)" "sb_dest (lp_buffer s) = r" "\<not> sb_got_data_ack (lp_buffer s)"
  obtains b1 s1 got where "lpp_read_packet a me rb s = Some (0, b1, s1)" "lpp_sent s1 = lpp_sent s @ [buffered s]"
    "lp_posted s1 = got # lp_posted s" "\<not> sb_valid (lp_buffer s1)" "\<not> lp_tbcctl2 s1"
    "listening (lp_ops s1) \<longleftrightarrow> lp_dutycycle_on s \<and> listening (lp_ops s)"
    "got \<longrightarrow> (\<exists>j. ack_at (is_lpp_ack me r) a j)" "ack_at (is_lpp_ack me r) a 1 \<longrightarrow> got"
proof -
  have now: "ar_now a k = of_nat (T k)" "T k < T (Suc k)" "T (Suc k) \<le> T k + g" for k
    using tk by (simp_all add: ticking_def)
  have u: "ar_now a 1 + WAIT_FOR_DATA_ACK = of_nat (T 1 + 136)"
    by (simp add: now(1) WAIT_FOR_DATA_ACK_def)
  have t2: "T 2 < T 1 + 136" "T 1 < T 2"
    using now(2,3) [of 1] g by (simp_all add: numeral_2_eq_2)
  have ack: "length (ar_ack a) = 6"
    using ok by (simp add: reads_ok_def)
  have "T 1 + 136 \<le> T 2 + 16384" "T 2 < T 1 + 136 + 16384"
    using t2 by simp_all
  note w = data_ack_wait_ends [OF tk _ ok ack this, of "is_lpp_ack me r" 1]
  define got where "got = acked_by (is_lpp_ack me r) a T (T 1 + 136) 2 1"
  have got: "data_ack_wait a (is_lpp_ack me r) (ar_now a 1 + WAIT_FOR_DATA_ACK) (ar_ack a) 2 1 = Some got"
    using w g unfolding u got_def by simp
  have heard: "got \<longrightarrow> (\<exists>j. ack_at (is_lpp_ack me r) a j)"
    by (auto simp: got_def acked_by_def)
  have first: "ack_at (is_lpp_ack me r) a 1 \<Longrightarrow> got"
    using t2(1) unfolding got_def acked_by_def by (intro exI [of _ 0]) simp
  obtain b4 where b4: "frame_in a rb = (b4, Some \<lparr>xh_type = TYPE_PROBE, xh_sender = r, xh_receiver = r\<rparr>)"
    by (rule frame_in_bytes [OF inv, of a TYPE_PROBE r r "[]"]) (simp_all add: r)
  define s0 where "s0 = s\<lparr>lp_buffer := lp_buffer s\<lparr>sb_probe_received := True\<rparr>\<rparr>"
  have "lpp_read_packet a me rb s = map_option (\<lambda>(b2, s2). (0, b2, s2)) (send_data_packet a me b4 s0)"
    using v by (simp add: lpp_read_packet_def b4 s0_def rimeaddr_cmp_eq)
  moreover obtain s1 b1 where "send_data_packet a me b4 s0 = Some (b1, s1)" "lpp_sent s1 = lpp_sent s0 @ [buffered s0]"
    "lp_posted s1 = got # lp_posted s0" "\<not> sb_valid (lp_buffer s1)" "\<not> lp_tbcctl2 s1"
    "listening (lp_ops s1) \<longleftrightarrow> lp_dutycycle_on s0 \<and> listening (lp_ops s0)"
  proof -
    define s2 where "s2 = (if rtimer_clock_lt (ar_now a 0) (sb_t_start (lp_buffer s0) + lpp_window (lp_config s0))
                   then s0\<lparr>lp_probes_succ := lp_probes_succ s0 + 1\<rparr> else s0)"
    define b5 where "b5 = packetbuf_set_attr b4 PACKETBUF_ATTR_TIMESTAMP 0"
    define s3 where "s3 = lpp_send b5 (buffered s2) s2"
    define s4 where "s4 = (if got then s3\<lparr>lp_buffer := lp_buffer s3\<lparr>sb_got_data_ack := True\<rparr>\<rparr> else s3)\<lparr>lp_handshakes_total := lp_handshakes_total s3 + 1\<rparr>"
    define s5 where "s5 = (if got then s4\<lparr>lp_handshakes_succ := lp_handshakes_succ s4 + 1\<rparr> else s4)"
    have s2: "lp_buffer s2 = lp_buffer s0" "lp_ops s2 = lp_ops s0" "lp_posted s2 = lp_posted s0" "lp_dutycycle_on s2 = lp_dutycycle_on s0"
      by (simp_all add: s2_def)
    have s3: "lp_buffer s3 = lp_buffer s0" "lp_ops s3 = Lp_Send (packetbuf_attr b5 PACKETBUF_ATTR_TIMESTAMP) (buffered s0) # lp_ops s0"
      "lp_posted s3 = lp_posted s0" "lp_dutycycle_on s3 = lp_dutycycle_on s0"
      by (simp_all add: s3_def lpp_send_def lp_op_def s2 buffered_def)
    have s5: "lp_ops s5 = lp_ops s3" "lp_posted s5 = lp_posted s0" "lp_dutycycle_on s5 = lp_dutycycle_on s0"
      "sb_got_data_ack (lp_buffer s5) = got" "\<not> sb_is_broadcast (lp_buffer s5)"
      using v by (simp_all add: s5_def s4_def s3 s0_def)
    have "send_data_packet a me b4 s0 = Some (b5, remove_packet_from_buffer a s5)"
      using v got s3(1) unfolding send_data_packet_def Let_def s2_def [symmetric] b5_def [symmetric] s3_def [symmetric]
      by (simp add: s0_def s5_def s4_def)
    moreover have "lpp_sent s5 = lpp_sent s0 @ [buffered s0]"
      by (simp add: lpp_sent_def s5 s3)
    ultimately show thesis
      using that [of b5 "remove_packet_from_buffer a s5"] by (simp add: s5 s3)
  qed
  ultimately show thesis
    using that [of b1 s1 got] heard first by (simp add: s0_def lpp_sent_def buffered_def)
qed

lemma lpp_acks: "is_lpp_ack x r (packet_hdr TYPE_ACK r me) \<longleftrightarrow> x = me"
  by (auto simp: is_lpp_ack_def bytes_packet_hdr' rimeaddr_cmp_eq)

lemma lpp_frame_delivered:
  assumes inv: "pb_inv rb" and r: "ar_read a 0 = (packet_hdr TYPE_DATA me r @ rest, True)" and l: "length rest \<le> 122" and "r \<noteq> rimeaddr_null"
  obtains b1 t1 where "lpp_read_packet a r rb t = Some (of_nat (length rest), b1, t1)" "pb_data b1 = rest"
    "packetbuf_addr b1 PACKETBUF_ADDR_SENDER = me" "packetbuf_addr b1 PACKETBUF_ADDR_RECEIVER = r"
    "lpp_sent t1 = lpp_sent t @ [packet_hdr TYPE_ACK r me]" "lp_posted t1 = lp_posted t"
    "\<forall>x u. x \<noteq> r \<longrightarrow> (\<exists>b2. lpp_read_packet a x rb u = Some (0, b2, u))"
proof -
  obtain b4 where b4: "pb_data b4 = rest" "packetbuf_totlen b4 = of_nat (length rest)"
    "frame_in a rb = (b4, Some \<lparr>xh_type = TYPE_DATA, xh_sender = me, xh_receiver = r\<rparr>)"
    by (rule frame_in_bytes [OF inv r l])
  have ty: "TYPE_DATA \<noteq> TYPE_PROBE"
    by (simp add: TYPE_DATA_def TYPE_PROBE_def)
  have tot: "packetbuf_totlen (packetbuf_set_addr x k y) = packetbuf_totlen x" for x k y
    by (simp add: packetbuf_totlen_def packetbuf_hdrlen_def packetbuf_datalen_def packetbuf_set_addr_def)
  have un: "lpp_read_packet a x rb u = Some (lpp_read_data x \<lparr>xh_type = TYPE_DATA, xh_sender = me, xh_receiver = r\<rparr> b4 u)" for x u
    using ty by (simp add: lpp_read_packet_def b4)
  show thesis
  proof (rule that)
    let ?b = "packetbuf_set_addr (packetbuf_set_addr b4 PACKETBUF_ADDR_SENDER me) PACKETBUF_ADDR_RECEIVER r"
    let ?t = "lpp_send ?b (packet_hdr TYPE_ACK r me) t"
    show "lpp_read_packet a r rb t = Some (of_nat (length rest), ?b, ?t)"
      using assms(4) by (simp add: un lpp_read_data_def rimeaddr_cmp_eq Let_def tot b4)
    show "\<forall>x u. x \<noteq> r \<longrightarrow> (\<exists>b2. lpp_read_packet a x rb u = Some (0, b2, u))"
      using assms(4) by (auto simp: un lpp_read_data_def rimeaddr_cmp_eq)
  qed (simp_all add: b4 lpp_send_def lp_op_def lpp_sent_def)
qed

text \<open>C29: The handshake of Low-Power Probing. A sender that is idle takes a packet for \<open>r\<close>, turns the radio on and starts its timeout.
  The probe that \<open>r\<close> sends in its on phase makes it send the packet, once, and wait: it always comes back, whatever it hears, with the
  result posted, once, the buffer free, the timeout stopped and the radio off unless its own on phase keeps it on. The packet is
  the frame that \<open>r\<close> reads: the layers above get the data with the headers exactly as the sender had them, and both addresses.
  The result is a success if the acknowledgment that \<open>r\<close> answers with is the next that is read, and only if something was
  read that is taken for one; no other node takes it for its own, and a third node that reads the packet does nothing.\<close>

theorem lpp_handshake:
  assumes "me \<noteq> r" and "r \<noteq> rimeaddr_null" and "lp_is_on s" and "\<not> sb_valid (lp_buffer s)" and "pb_inv b" and "\<not> packetbuf_is_reference b"
    and "6 < unat (pb_hdrptr b)" and "length (pb_hdr b @ pb_data b) \<le> 122" and "packetbuf_addr b PACKETBUF_ADDR_RECEIVER = r"
    and "lpp_send_packet a me b s = (accepted, b1, s1)" and "t1 = send_probe_process r pb t"
    and "ticking T g a1" and "g < 136" and "reads_ok a1" and "pb_inv rb" and "ar_read a1 0 = (last (lpp_sent t1), True)"
    and "pb_inv rb'" and "ar_read a2 0 = (pb_out (put_hdr a (packet_hdr TYPE_DATA me r) b), True)"
  shows "\<exists>b2 s2 b3 t2 got. accepted \<and> listening (lp_ops s1) \<and> lp_tbcctl2 s1 \<and> lp_tbccr2 s1 = ar_tbr a + lc_tx_timeout (lp_config s) \<and>
    lpp_sent s1 = lpp_sent s \<and> listening (lp_ops t1) \<and>
    lpp_read_packet a1 me rb s1 = Some (0, b2, s2) \<and>
    lpp_sent s2 = lpp_sent s1 @ [pb_out (put_hdr a (packet_hdr TYPE_DATA me r) b)] \<and> lp_posted s2 = got # lp_posted s \<and>
    \<not> sb_valid (lp_buffer s2) \<and> \<not> lp_tbcctl2 s2 \<and> listening (lp_ops s2) = lp_dutycycle_on s \<and>
    lpp_read_packet a2 r rb' t1 = Some (of_nat (length (pb_hdr b @ pb_data b)), b3, t2) \<and> pb_data b3 = pb_hdr b @ pb_data b \<and>
    packetbuf_addr b3 PACKETBUF_ADDR_SENDER = me \<and> packetbuf_addr b3 PACKETBUF_ADDR_RECEIVER = r \<and>
    lpp_sent t2 = lpp_sent t1 @ [packet_hdr TYPE_ACK r me] \<and> lp_posted t2 = lp_posted t \<and>
    (\<forall>x. is_lpp_ack x r (packet_hdr TYPE_ACK r me) \<longleftrightarrow> x = me) \<and>
    (ar_read a1 1 = (packet_hdr TYPE_ACK r me, True) \<longrightarrow> got) \<and> (got \<longrightarrow> (\<exists>j. ack_at (is_lpp_ack me r) a1 j)) \<and>
    (\<forall>x u. x \<noteq> r \<longrightarrow> (\<exists>b4. lpp_read_packet a2 x rb' u = Some (0, b4, u)))"
proof -
  have t1: "lpp_sent t1 = lpp_sent t @ [packet_hdr TYPE_PROBE r r]" "listening (lp_ops t1)" "lp_posted t1 = lp_posted t"
    unfolding assms(11) send_probe_process_def send_probe_def
    by (simp_all add: lpp_sent_def lpp_send_def lpp_radio_on_def lp_op_def)
  have probe: "ar_read a1 0 = (packet_hdr TYPE_PROBE r r, True)"
    using assms(16) t1(1) by simp
  note out = put_hdr_out(1) [OF assms(5,6) hdr_len assms(7), of a TYPE_DATA me r]
  obtain s1' where s1': "lpp_send_packet a me b s = (True, packetbuf_clear (put_hdr a (packet_hdr TYPE_DATA me r) b), s1')"
    "buffered s1' = packet_hdr TYPE_DATA me r @ pb_hdr b @ pb_data b" "lpp_sent s1' = lpp_sent s" "lp_posted s1' = lp_posted s"
    "sb_valid (lp_buffer s1')" "\<not> sb_is_broadcast (lp_buffer s1')" "sb_dest (lp_buffer s1') = r" "\<not> sb_got_data_ack (lp_buffer s1')"
    "lp_tbcctl2 s1'" "lp_tbccr2 s1' = ar_tbr a + lc_tx_timeout (lp_config s)" "listening (lp_ops s1')"
    "lp_dutycycle_on s1' = lp_dutycycle_on s"
    by (rule lpp_send_packet_buffers [OF assms(5-7,3,4,9,2), of a me])
  have s1: "accepted" "s1 = s1'"
    using s1'(1) assms(10) by simp_all
  obtain b2 s2 got where s2: "lpp_read_packet a1 me rb s1 = Some (0, b2, s2)" "lpp_sent s2 = lpp_sent s1 @ [buffered s1]"
    "lp_posted s2 = got # lp_posted s1" "\<not> sb_valid (lp_buffer s2)" "\<not> lp_tbcctl2 s2"
    "listening (lp_ops s2) \<longleftrightarrow> lp_dutycycle_on s1 \<and> listening (lp_ops s1)"
    "got \<longrightarrow> (\<exists>j. ack_at (is_lpp_ack me r) a1 j)" "ack_at (is_lpp_ack me r) a1 1 \<longrightarrow> got"
    by (rule lpp_probe_answered [OF assms(12-15) probe s1'(5-8), of me]) (use s1(2) in blast)
  have "ar_read a2 0 = (packet_hdr TYPE_DATA me r @ pb_hdr b @ pb_data b, True)"
    using assms(18) out by simp
  then obtain b3 t2 where t2: "lpp_read_packet a2 r rb' t1 = Some (of_nat (length (pb_hdr b @ pb_data b)), b3, t2)"
    "pb_data b3 = pb_hdr b @ pb_data b" "packetbuf_addr b3 PACKETBUF_ADDR_SENDER = me" "packetbuf_addr b3 PACKETBUF_ADDR_RECEIVER = r"
    "lpp_sent t2 = lpp_sent t1 @ [packet_hdr TYPE_ACK r me]" "lp_posted t2 = lp_posted t1"
    "\<forall>x u. x \<noteq> r \<longrightarrow> (\<exists>b2. lpp_read_packet a2 x rb' u = Some (0, b2, u))"
    by (rule lpp_frame_delivered [OF assms(17) _ assms(8,2), of a2 me t1]) auto
  have "ack_at (is_lpp_ack me r) a1 1" if "ar_read a1 1 = (packet_hdr TYPE_ACK r me, True)"
    using that hdr_len [of TYPE_ACK r me] by (auto simp: ack_at_def lpp_acks)
  then show ?thesis
    using s1 s1' s2 t1 t2 lpp_acks [of _ r me] out
    by (intro exI [of _ b2] exI [of _ s2] exI [of _ b3] exI [of _ t2] exI [of _ got]) simp
qed

text \<open>A node with the configuration that the code starts with, idle.\<close>

definition lpp_zero :: lpp where
  "lpp_zero = \<lparr>lp_config = \<lparr>lc_on_time = 256, lc_off_time = 16384, lc_tx_timeout = 16908\<rparr>, lp_is_on = False, lp_dutycycle_on = False,
     lp_handshakes_total = 0, lp_handshakes_succ = 0, lp_probes_total = 0, lp_probes_succ = 0, lp_pc = Dc_Begin,
     lp_buffer = \<lparr>sb_packet = replicate 128 0, sb_len = 0, sb_dest = rimeaddr_null, sb_valid = False, sb_is_broadcast = False,
       sb_timed_out = False, sb_probe_received = False, sb_got_data_ack = False, sb_add_timestamp = False, sb_t_start = 0\<rparr>,
     lp_now = 0, lp_energest_listen = 0, lp_energest_transmit = 0,
     lp_energest = \<lparr>en_total = (\<lambda>_. 0), en_time = (\<lambda>_. 0), en_mode = (\<lambda>_. False)\<rparr>,
     lp_tbccr2 = 0, lp_tbcctl2 = False, lp_tbccr3 = 0, lp_tbcctl3 = False, lp_ops = [], lp_posted = [],
     lp_probe_polled = False, lp_timeout_polled = False, lp_receiver_callback = None\<rparr>"

definition lpp_boot :: lpp where
  "lpp_boot = lpp_new_init air_ex lpp_zero"

lemma lpp_boot_simps: "lp_is_on lpp_boot" "\<not> sb_valid (lp_buffer lpp_boot)" "lpp_sent lpp_boot = []" "lp_posted lpp_boot = []"
  by (simp_all add: lpp_boot_def lpp_new_init_def lpp_zero_def lpp_sent_def lpp_radio_off_def lp_op_def)

theorem lpp_handshake_witness:
  "let (accepted, b1, s1) = lpp_send_packet air_ex me_ex pb_send_ex lpp_boot; t1 = send_probe_process peer_ex pb_example lpp_boot;
       a1 = air_ex\<lparr>ar_read := (\<lambda>k. (if k = 0 then packet_hdr TYPE_PROBE peer_ex peer_ex else packet_hdr TYPE_ACK peer_ex me_ex, True))\<rparr>;
       a2 = air_ex\<lparr>ar_read := (\<lambda>_. (pb_out (put_hdr air_ex (packet_hdr TYPE_DATA me_ex peer_ex) pb_send_ex), True))\<rparr>
   in \<exists>b2 s2 b3 t2. lpp_read_packet a1 me_ex pb_send_ex s1 = Some (0, b2, s2) \<and> lp_posted s2 = [True] \<and>
        lpp_read_packet a2 peer_ex pb_send_ex t1 = Some (7, b3, t2) \<and> pb_data b3 = [0, 0, 0, 0, 3, 4, 5]"
proof -
  define t1 where "t1 = send_probe_process peer_ex pb_example lpp_boot"
  define a1 where
    "a1 = air_ex\<lparr>ar_read := (\<lambda>k. (if k = (0::nat) then packet_hdr TYPE_PROBE peer_ex peer_ex else packet_hdr TYPE_ACK peer_ex me_ex, True))\<rparr>"
  define a2 where "a2 = air_ex\<lparr>ar_read := (\<lambda>_. (pb_out (put_hdr air_ex (packet_hdr TYPE_DATA me_ex peer_ex) pb_send_ex), True))\<rparr>"
  obtain accepted b1 s1 where snd: "lpp_send_packet air_ex me_ex pb_send_ex lpp_boot = (accepted, b1, s1)"
    by (metis prod_cases3)
  have d: "pb_hdr pb_send_ex @ pb_data pb_send_ex = [0, 0, 0, 0, 3, 4, 5]"
    by code_simp
  have i: "pb_inv pb_send_ex" "\<not> packetbuf_is_reference pb_send_ex" "6 < unat (pb_hdrptr pb_send_ex)"
    by (simp_all add: pb_send_ex_def pb_example_def pb_inv_def packetbuf_set_addr_def packetbuf_is_reference_def pb_sizes)
  have n: "me_ex \<noteq> peer_ex" "peer_ex \<noteq> rimeaddr_null"
    by (simp_all add: me_ex_def peer_ex_def rimeaddr_null_def)
  have r: "packetbuf_addr pb_send_ex PACKETBUF_ADDR_RECEIVER = peer_ex"
    by (simp add: pb_send_ex_def packetbuf_addr_def packetbuf_set_addr_def)
  have l: "length (pb_hdr pb_send_ex @ pb_data pb_send_ex) \<le> 122"
    unfolding d by simp
  have ar: "ticking (\<lambda>k. 50 * k) 50 a1" "reads_ok a1" "ar_read a2 0 = (pb_out (put_hdr air_ex (packet_hdr TYPE_DATA me_ex peer_ex) pb_send_ex), True)"
    using air_ex_ok by (simp_all add: a1_def a2_def ticking_def reads_ok_def hdr_len)
  have "lpp_sent t1 = lpp_sent lpp_boot @ [packet_hdr TYPE_PROBE peer_ex peer_ex]"
    unfolding t1_def send_probe_process_def send_probe_def by (simp add: lpp_sent_def lpp_send_def lpp_radio_on_def lp_op_def)
  then have p: "ar_read a1 0 = (last (lpp_sent t1), True)" "ar_read a1 1 = (packet_hdr TYPE_ACK peer_ex me_ex, True)"
    by (simp_all add: a1_def)
  have "(50::nat) < 136"
    by simp
  from lpp_handshake [OF n lpp_boot_simps(1,2) i l r snd t1_def ar(1) this ar(2) i(1) p(1) i(1) ar(3)]
  obtain b2 s2 b3 t2 got where "lpp_read_packet a1 me_ex pb_send_ex s1 = Some (0, b2, s2)" "lp_posted s2 = got # lp_posted lpp_boot"
    "lpp_read_packet a2 peer_ex pb_send_ex t1 = Some (of_nat (length (pb_hdr pb_send_ex @ pb_data pb_send_ex)), b3, t2)"
    "pb_data b3 = pb_hdr pb_send_ex @ pb_data pb_send_ex" "ar_read a1 1 = (packet_hdr TYPE_ACK peer_ex me_ex, True) \<longrightarrow> got"
    by blast
  then show ?thesis
    using p(2) snd unfolding a1_def [symmetric] a2_def [symmetric] t1_def [symmetric] by (simp add: Let_def d lpp_boot_simps)
qed

end
