(* ===== verification/Lpp_Runs.thy ===== *)
theory Lpp_Runs
  imports Lpp_Props
begin

text \<open>
  Low-Power Probing over whole runs: every request is answered once, a pending packet always has its timeout, and the reception rate
  is a rate; and what a change of the configuration in the on phase does.
\<close>

section \<open>Runs\<close>

datatype lpp_event = Le_Send air packetbuf | Le_Read air packetbuf | Le_Timeout_Interrupt | Le_Timeout air | Le_Probe packetbuf |
  Le_Duty air u32 | Le_On air | Le_Off air bool | Le_Config air air lpp_new_config | Le_Receive_Function "nat option" | Le_Reset

text \<open>A request is a packet for one receiver, or any packet while the protocol is off: its result is to be posted.\<close>

definition lpp_requests :: "packetbuf \<Rightarrow> lpp \<Rightarrow> nat" where
  "lpp_requests b s = (if lp_is_on s \<and> packetbuf_addr b PACKETBUF_ADDR_RECEIVER = rimeaddr_null then 0 else 1)"

fun lpp_do :: "rimeaddr \<Rightarrow> lpp \<Rightarrow> lpp_event \<Rightarrow> lpp" where
  "lpp_do me s (Le_Send a b) = snd (snd (lpp_send_packet a me b s))"
| "lpp_do me s (Le_Read a b) = (case lpp_read_packet a me b s of Some (_, _, s1) \<Rightarrow> s1 | None \<Rightarrow> s)"
| "lpp_do me s Le_Timeout_Interrupt = lpp_timeout_interrupt s"
| "lpp_do me s (Le_Timeout a) = send_timeout_process a s"
| "lpp_do me s (Le_Probe b) = send_probe_process me b s"
| "lpp_do me s (Le_Duty a ttg) = dutycycle a ttg s"
| "lpp_do me s (Le_On a) = lpp_mac_on a s"
| "lpp_do me s (Le_Off a keep) = lpp_mac_off a keep s"
| "lpp_do me s (Le_Config a a' c) = set_lpp_new_config a a' c s"
| "lpp_do me s (Le_Receive_Function f) = lpp_set_receive_function f s"
| "lpp_do me s Le_Reset = lpp_new_reset_prr s"

text \<open>The state with the number of requests so far.\<close>

fun lpp_step :: "rimeaddr \<Rightarrow> nat \<times> lpp \<Rightarrow> lpp_event \<Rightarrow> nat \<times> lpp" where
  "lpp_step me (n, s) e = (case e of Le_Send a b \<Rightarrow> n + lpp_requests b s | _ \<Rightarrow> n, lpp_do me s e)"

definition lpp_pending :: "lpp \<Rightarrow> bool" where
  "lpp_pending s \<longleftrightarrow> sb_valid (lp_buffer s) \<and> \<not> sb_is_broadcast (lp_buffer s)"

text \<open>
  The layer above, \<open>relunicast\<close>, sends the next packet for a receiver only after the result for the last one. A read that does
  not end is left out; that it ends when the clock advances is part of the handshake.
\<close>

fun lpp_ok :: "nat \<times> lpp \<Rightarrow> lpp_event \<Rightarrow> bool" where
  "lpp_ok (n, s) (Le_Send a b) \<longleftrightarrow> \<not> (lpp_pending s \<and> packetbuf_addr b PACKETBUF_ADDR_RECEIVER \<noteq> rimeaddr_null)"
| "lpp_ok (n, s) _ \<longleftrightarrow> True"

definition rate_inv :: "lpp \<Rightarrow> bool" where
  "rate_inv s \<longleftrightarrow> unat (lp_handshakes_succ s) \<le> unat (lp_handshakes_total s) \<and> unat (lp_handshakes_total s) < 10"

definition buffer_inv :: "lpp \<Rightarrow> bool" where
  "buffer_inv s \<longleftrightarrow> (sb_valid (lp_buffer s) \<longrightarrow> (lp_tbcctl2 s \<or> lp_timeout_polled s) \<and> \<not> sb_got_data_ack (lp_buffer s))"

fun lpp_inv :: "nat \<times> lpp \<Rightarrow> bool" where
  "lpp_inv (n, s) \<longleftrightarrow> length (lp_posted s) + of_bool (lpp_pending s) = n \<and> buffer_inv s \<and> rate_inv s"

section \<open>The invariant\<close>

text \<open>The counters after a handshake.\<close>

lemma handshake_counted:
  fixes h t :: u32
  assumes "unat h \<le> unat t" and "unat t < 10"
  shows "unat (if got then h + 1 else h) \<le> unat (t + 1) \<and> unat (t + 1) \<le> 10"
  using assms by (simp_all add: unat32_add_less)

lemma remove_rate:
  assumes "unat (lp_handshakes_succ s) \<le> unat (lp_handshakes_total s)" and "unat (lp_handshakes_total s) \<le> 10"
    and "sb_is_broadcast (lp_buffer s) \<longrightarrow> unat (lp_handshakes_total s) < 10"
  shows "rate_inv (remove_packet_from_buffer a s)"
proof -
  have half: "unat (drop_bit (Suc 0) w) = unat w div 2" for w :: u32
    by (simp add: drop_bit_eq_div unat_div)
  have ten: "(10 :: u32) \<le> w \<longleftrightarrow> 10 \<le> unat w" for w
    by (simp add: word_le_nat_alt)
  show ?thesis
    using assms by (auto simp: rate_inv_def remove_packet_from_buffer_def Let_def lpp_halve_def lpp_post_send_def lpp_exclude_energy_def
        lpp_radio_off_def lp_op_def half ten LPP_HANDSHAKES_RESET_PERIOD_def div_le_mono not_le split: prod.split)
qed

lemma rate_inv_cong:
  "lp_handshakes_succ t = lp_handshakes_succ s \<Longrightarrow> lp_handshakes_total t = lp_handshakes_total s \<Longrightarrow> rate_inv t \<longleftrightarrow> rate_inv s"
  by (simp add: rate_inv_def)

lemma remove_pending [simp]:
  "\<not> lpp_pending (remove_packet_from_buffer a s)" "buffer_inv (remove_packet_from_buffer a s)"
  by (simp_all add: lpp_pending_def buffer_inv_def)

lemma remove_inv:
  assumes "lpp_inv (n, s)" and "sb_valid (lp_buffer s)"
  shows "lpp_inv (n, remove_packet_from_buffer a s)"
proof -
  have "rate_inv (remove_packet_from_buffer a s)"
    by (rule remove_rate) (use assms(1) in \<open>simp_all add: rate_inv_def\<close>)
  then show ?thesis
    using assms by (auto simp: lpp_pending_def)
qed

text \<open>Everything that concerns neither the buffer nor the counters.\<close>

lemma lpp_inv_cong:
  assumes "lpp_inv (n, s)" and "lp_posted t = lp_posted s" and "sb_valid (lp_buffer t) = sb_valid (lp_buffer s)"
    and "sb_is_broadcast (lp_buffer t) = sb_is_broadcast (lp_buffer s)" and "sb_got_data_ack (lp_buffer t) = sb_got_data_ack (lp_buffer s)"
    and "lp_tbcctl2 t \<or> lp_timeout_polled t \<longleftrightarrow> lp_tbcctl2 s \<or> lp_timeout_polled s"
    and "lp_handshakes_succ t = lp_handshakes_succ s" and "lp_handshakes_total t = lp_handshakes_total s"
  shows "lpp_inv (n, t)"
  using assms by (simp add: lpp_pending_def buffer_inv_def rate_inv_def)

lemma accept_inv:
  assumes "lpp_inv (n, s)" and "\<not> lpp_pending s"
  shows "lpp_inv (n + of_bool (packetbuf_addr b PACKETBUF_ADDR_RECEIVER \<noteq> rimeaddr_null), snd (lpp_accept a me b s))"
  using assms by (auto simp: lpp_accept_def Let_def lpp_pending_def buffer_inv_def rate_inv_def rimeaddr_cmp_eq fill_buffer_def
      lpp_radio_on_def lp_op_def split: prod.split)

declare lpp_inv.simps [simp del]

lemmas inv_simps = lpp_inv.simps lpp_pending_def buffer_inv_def rate_inv_def

lemma send_inv:
  assumes "lpp_inv (n, s)" and "lpp_ok (n, s) (Le_Send a b)"
  shows "lpp_inv (lpp_step me (n, s) (Le_Send a b))"
proof -
  let ?r = "packetbuf_addr b PACKETBUF_ADDR_RECEIVER"
  consider "\<not> lp_is_on s" | "lp_is_on s" "sb_valid (lp_buffer s)" "?r = rimeaddr_null"
    | "lp_is_on s" "sb_valid (lp_buffer s)" "?r \<noteq> rimeaddr_null" "sb_is_broadcast (lp_buffer s)" | "lp_is_on s" "\<not> sb_valid (lp_buffer s)"
    using assms(2) by (auto simp: lpp_pending_def)
  then show ?thesis
  proof cases
    case 1
    then show ?thesis
      using assms(1) by (auto simp: lpp_send_packet_def lpp_requests_def lpp_post_send_def inv_simps)
  next
    case 2
    then show ?thesis
      using assms(1) by (simp add: lpp_send_packet_def lpp_requests_def rimeaddr_cmp_eq)
  next
    case 3
    have "lpp_inv (n + of_bool (?r \<noteq> rimeaddr_null), snd (lpp_accept a me b (remove_packet_from_buffer a s)))"
      by (rule accept_inv [OF remove_inv [OF assms(1) 3(2)]]) simp
    then show ?thesis
      using 3 by (simp add: lpp_send_packet_def lpp_requests_def rimeaddr_cmp_eq)
  next
    case 4
    have "lpp_inv (n + of_bool (?r \<noteq> rimeaddr_null), snd (lpp_accept a me b s))"
      by (rule accept_inv [OF assms(1)]) (simp add: 4 lpp_pending_def)
    then show ?thesis
      using 4 by (auto simp: lpp_send_packet_def lpp_requests_def rimeaddr_cmp_eq)
  qed
qed

lemma send_data_inv:
  assumes "lpp_inv (n, s)" and "sb_valid (lp_buffer s)" and "send_data_packet a me b s = Some (b1, s1)"
  shows "lpp_inv (n, s1)"
proof (cases "sb_is_broadcast (lp_buffer s)")
  case True
  then show ?thesis
    using assms(3) by (auto simp: send_data_packet_def Let_def lpp_send_def lp_op_def intro!: lpp_inv_cong [OF assms(1)])
next
  case False
  have g0: "\<not> sb_got_data_ack (lp_buffer s)"
    using assms(1,2) by (simp add: inv_simps)
  from assms(3) False g0 obtain got s5 where s5: "s1 = remove_packet_from_buffer a s5" "lp_posted s5 = lp_posted s"
    "lp_handshakes_total s5 = lp_handshakes_total s + 1"
    "lp_handshakes_succ s5 = (if got then lp_handshakes_succ s + 1 else lp_handshakes_succ s)" "\<not> sb_is_broadcast (lp_buffer s5)"
    by (auto simp: send_data_packet_def Let_def lpp_send_def lp_op_def split: if_splits)
  have "rate_inv s1"
    unfolding s5(1) using handshake_counted [of "lp_handshakes_succ s" "lp_handshakes_total s" got] assms(1) s5
    by (intro remove_rate) (simp_all add: inv_simps split: if_splits)
  then show ?thesis
    using assms(1,2) False s5 by (simp add: lpp_inv.simps lpp_pending_def)
qed

lemma read_inv:
  assumes "lpp_inv (n, s)"
  shows "lpp_inv (n, lpp_do me s (Le_Read a b))"
proof (cases "lpp_read_packet a me b s")
  case (Some x)
  obtain k b2 s1 where x: "x = (k, b2, s1)"
    by (cases x)
  obtain b1 h where f: "frame_in a b = (b1, h)"
    by (cases "frame_in a b")
  let ?s = "s\<lparr>lp_buffer := lp_buffer s\<lparr>sb_probe_received := True\<rparr>\<rparr>"
  have "s1 = s \<or> (\<exists>pb p. s1 = lpp_send pb p s) \<or> sb_valid (lp_buffer s) \<and> send_data_packet a me b1 ?s = Some (b2, s1)"
    using Some x f by (auto simp: lpp_read_packet_def lpp_read_data_def Let_def split: option.splits if_splits)
  moreover have "lpp_inv (n, ?s)"
    by (rule lpp_inv_cong [OF assms]) simp_all
  moreover have "lpp_inv (n, lpp_send pb p s)" for pb p
    by (rule lpp_inv_cong [OF assms]) (simp_all add: lpp_send_def lp_op_def)
  ultimately have "lpp_inv (n, s1)"
    using assms send_data_inv [of n ?s a me b1 b2 s1] by auto
  then show ?thesis
    by (simp add: Some x)
qed (use assms in simp)

lemma lpp_mac_off_inv:
  assumes "lpp_inv (n, s)"
  shows "lpp_inv (n, lpp_mac_off a keep s) \<and> \<not> sb_valid (lp_buffer (lpp_mac_off a keep s))"
proof -
  define s2 where "s2 = (if keep then lpp_radio_on else lpp_radio_off) (s\<lparr>lp_tbcctl2 := False, lp_tbcctl3 := False, lp_is_on := False\<rparr>)"
  have off: "lpp_mac_off a keep s = (if sb_valid (lp_buffer s2) then remove_packet_from_buffer a s2 else s2)"
    by (simp add: lpp_mac_off_def s2_def Let_def)
  have s2: "lp_posted s2 = lp_posted s" "lp_buffer s2 = lp_buffer s" "rate_inv s2 = rate_inv s"
    by (simp_all add: s2_def lpp_radio_on_def lpp_radio_off_def lp_op_def rate_inv_def)
  have "rate_inv (remove_packet_from_buffer a s2)"
    by (rule remove_rate) (use assms s2 in \<open>simp_all add: inv_simps\<close>)
  then show ?thesis
    using assms s2 by (auto simp: off lpp_inv.simps lpp_pending_def buffer_inv_def)
qed

lemma lpp_step_inv:
  assumes "lpp_inv s" and "lpp_ok s e"
  shows "lpp_inv (lpp_step me s e)"
proof (cases s)
  case (Pair n t)
  note inv = assms(1) [unfolded Pair] and quiet = lpp_inv_cong [OF assms(1) [unfolded Pair]]
  show ?thesis
  proof (cases e)
    case (Le_Send a b)
    then show ?thesis
      using send_inv [OF inv] assms(2) by (simp add: Pair)
  next
    case (Le_Read a b)
    then show ?thesis
      using read_inv [OF inv] by (simp add: Pair del: lpp_do.simps)
  next
    case (Le_Timeout a)
    have "lpp_inv (n, send_timeout_process a t)"
    proof (cases "sb_valid (lp_buffer t)")
      case True
      let ?t = "t\<lparr>lp_timeout_polled := False\<rparr>"
      have "rate_inv (remove_packet_from_buffer a ?t)"
        by (rule remove_rate) (use inv in \<open>simp_all add: inv_simps\<close>)
      then show ?thesis
        using inv True by (auto simp: send_timeout_process_def lpp_inv.simps lpp_pending_def)
    qed (use inv in \<open>simp add: send_timeout_process_def inv_simps\<close>)
    then show ?thesis
      by (simp add: Pair Le_Timeout)
  next
    case (Le_Off a keep)
    then show ?thesis
      using lpp_mac_off_inv [OF inv] by (simp add: Pair)
  next
    case (Le_Config a a' c)
    then show ?thesis
      using lpp_mac_off_inv [OF inv, of a False] by (auto simp: Pair set_lpp_new_config_def lpp_mac_on_def inv_simps)
  next
    case Le_Timeout_Interrupt
    then show ?thesis
      using inv by (simp add: Pair lpp_timeout_interrupt_def inv_simps)
  next
    case Le_Reset
    then show ?thesis
      using inv by (simp add: Pair lpp_new_reset_prr_def inv_simps)
  next
    case (Le_Duty a ttg)
    have "lpp_inv (n, dutycycle a ttg t)"
      by (rule quiet) (simp_all add: dutycycle_def duty_on_def duty_off_def Let_def lpp_radio_off_def lp_op_def split: lpp_pc.split)
    then show ?thesis
      by (simp add: Pair Le_Duty)
  next
    case (Le_Probe b)
    have "lpp_inv (n, send_probe_process me b t)"
      by (rule quiet) (simp_all add: send_probe_process_def send_probe_def lpp_send_def lpp_radio_on_def lp_op_def)
    then show ?thesis
      by (simp add: Pair Le_Probe)
  qed (use inv in \<open>simp_all add: Pair lpp_mac_on_def lpp_set_receive_function_def inv_simps\<close>)
qed

interpretation lpm: machine "lpp_step me" lpp_ok lpp_inv for me
  by unfold_locales (rule lpp_step_inv)


lemma rate_bounds:
  assumes "rate_inv s"
  shows "100 \<le> unat (lpp_new_get_prr s) \<and> unat (lpp_new_get_prr s) \<le> 1000"
proof -
  define h t where "h = unat (lp_handshakes_succ s)" and "t = unat (lp_handshakes_total s)"
  have ht: "h \<le> t" "t < 10"
    using assms by (simp_all add: rate_inv_def h_def t_def)
  have "unat (lp_handshakes_succ s + 1) = h + 1" "unat (lp_handshakes_total s + 1) = t + 1"
    using ht by (simp_all add: h_def t_def unat32_add_less)
  moreover from this have "unat ((lp_handshakes_succ s + 1) * 1000) = (h + 1) * 1000"
    using ht by (subst unat32_mult_less) simp_all
  ultimately have "unat (lpp_new_get_prr s) = (h + 1) * 1000 div (t + 1) mod 65536"
    unfolding lpp_new_get_prr_def unat_ucast_32_16 unat_div by (simp only:)
  moreover have "(t + 1) * 1000 div (t + 1) = 1000"
    by (rule nonzero_mult_div_cancel_left) simp
  moreover have "(h + 1) * 1000 div (t + 1) \<le> (t + 1) * 1000 div (t + 1)"
    by (rule div_le_mono) (use ht(1) in simp)
  ultimately have "(h + 1) * 1000 div (t + 1) \<le> 1000" "unat (lpp_new_get_prr s) = (h + 1) * 1000 div (t + 1) mod 65536"
    by (simp_all only:)
  moreover have "1000 div 10 \<le> (h + 1) * 1000 div (t + 1)"
    using ht(2) by (intro order_trans [OF div_le_mono2 [of "t + 1" 10 1000] div_le_mono]) simp_all
  ultimately show ?thesis
    by simp
qed

lemma lpp_init_inv: "lp_posted s = [] \<Longrightarrow> lp_handshakes_total s = 0 \<Longrightarrow> lp_handshakes_succ s = 0 \<Longrightarrow> lpp_inv (0, lpp_new_init a s)"
  by (simp add: lpp_new_init_def lpp_radio_off_def lp_op_def inv_simps)

lemma timeout_fails:
  assumes "sb_valid (lp_buffer s)"
  shows "lp_posted (send_timeout_process a (lpp_timeout_interrupt s)) =
      (if sb_is_broadcast (lp_buffer s) then lp_posted s else sb_got_data_ack (lp_buffer s) # lp_posted s)"
    "\<not> sb_valid (lp_buffer (send_timeout_process a (lpp_timeout_interrupt s)))"
    "listening (lp_ops (send_timeout_process a (lpp_timeout_interrupt s))) \<longleftrightarrow> lp_dutycycle_on s \<and> listening (lp_ops s)"
  using assms by (simp_all add: send_timeout_process_def lpp_timeout_interrupt_def)

section \<open>Properties\<close>

text \<open>C30: Every packet is answered for, once. From the start of the protocol, whatever is sent, read, and switched on or off and however
  the configuration changes, as long as the layer above has one packet for a receiver under way: the results posted and the packet still
  in the buffer add up to the requests, the packets for one receiver that the protocol took and those that came while it was off. A
  packet in the buffer has its timeout running or just run out, which removes it and, if it is for one receiver, posts a failure.
  The reception rate stays between 100 and 1000 per thousand.\<close>

theorem lpp_outcomes:
  assumes "lp_posted s0 = []" and "lp_handshakes_total s0 = 0" and "lp_handshakes_succ s0 = 0"
    and "run_ok (lpp_step me) lpp_ok (0, lpp_new_init a s0) es" and "foldl (lpp_step me) (0, lpp_new_init a s0) es = (n, s)"
  shows "length (lp_posted s) + of_bool (lpp_pending s) = n \<and>
    (sb_valid (lp_buffer s) \<longrightarrow> (lp_tbcctl2 s \<or> lp_timeout_polled s) \<and>
       \<not> sb_valid (lp_buffer (send_timeout_process a' (lpp_timeout_interrupt s))) \<and>
       lp_posted (send_timeout_process a' (lpp_timeout_interrupt s)) = replicate (of_bool (lpp_pending s)) False @ lp_posted s) \<and>
    100 \<le> unat (lpp_new_get_prr s) \<and> unat (lpp_new_get_prr s) \<le> 1000"
proof -
  have "lpp_inv (n, s)"
    using lpm.inv_run [OF lpp_init_inv [OF assms(1-3)] assms(4)] assms(5) by simp
  then have "length (lp_posted s) + of_bool (lpp_pending s) = n" "buffer_inv s" "rate_inv s"
    by (simp_all add: lpp_inv.simps)
  then show ?thesis
    using rate_bounds [of s] timeout_fails [of s a'] by (auto simp: buffer_inv_def lpp_pending_def)
qed

text \<open>Whether the protocol is on, and whether a packet is pending, after the calls of the layer above and a timeout.\<close>

lemma run_simps:
  "lp_is_on (lpp_do me s (Le_Send a b)) = lp_is_on s"
  "\<not> lpp_pending s \<Longrightarrow> lpp_pending (lpp_do me s (Le_Send a b)) \<longleftrightarrow> lp_is_on s \<and> packetbuf_addr b PACKETBUF_ADDR_RECEIVER \<noteq> rimeaddr_null"
  "lp_is_on (lpp_timeout_interrupt s) = lp_is_on s"
  "lp_is_on (send_timeout_process a s) = lp_is_on s" "\<not> lpp_pending (send_timeout_process a s)"
  "\<not> lp_is_on (lpp_mac_off a keep s)" "\<not> lpp_pending (lpp_mac_off a keep s)" "lp_is_on (lpp_mac_on a s)" "lpp_pending (lpp_mac_on a s) = lpp_pending s"
  "lp_is_on (lpp_new_init a s)" "\<not> lpp_pending (lpp_new_init a s)"
proof -
  have acc: "lp_is_on (snd (lpp_accept a me b t)) = lp_is_on t" "sb_valid (lp_buffer (snd (lpp_accept a me b t)))"
    "sb_is_broadcast (lp_buffer (snd (lpp_accept a me b t))) \<longleftrightarrow> packetbuf_addr b PACKETBUF_ADDR_RECEIVER = rimeaddr_null" for t
    by (auto simp: lpp_accept_def Let_def lpp_radio_on_def lp_op_def fill_buffer_def rimeaddr_cmp_eq split: prod.split)
  show "lp_is_on (lpp_do me s (Le_Send a b)) = lp_is_on s"
    by (simp add: lpp_send_packet_def Let_def acc lpp_post_send_def)
  show "lpp_pending (lpp_do me s (Le_Send a b)) \<longleftrightarrow> lp_is_on s \<and> packetbuf_addr b PACKETBUF_ADDR_RECEIVER \<noteq> rimeaddr_null"
    if "\<not> lpp_pending s"
    using that by (auto simp: lpp_send_packet_def Let_def lpp_pending_def acc lpp_post_send_def rimeaddr_cmp_eq)
qed (simp_all add: lpp_timeout_interrupt_def send_timeout_process_def lpp_pending_def lpp_mac_off_def lpp_mac_on_def lpp_new_init_def Let_def
    lpp_radio_on_def lpp_radio_off_def lp_op_def)

text \<open>A packet for a receiver that times out, one that is sent while the protocol is off, and a broadcast.\<close>

theorem lpp_outcomes_witness:
  "let es = [Le_Send air_ex pb_send_ex, Le_Timeout_Interrupt, Le_Timeout air_ex, Le_Off air_ex False, Le_Send air_ex pb_send_ex, Le_On air_ex,
      Le_Send air_ex pb_example, Le_Send air_ex pb_send_ex];
       (n, s) = foldl (lpp_step me_ex) (0, lpp_boot) es
   in n = 3 \<and> length (lp_posted s) + of_bool (lpp_pending s) = 3 \<and> 100 \<le> unat (lpp_new_get_prr s)"
proof -
  define es where "es = [Le_Send air_ex pb_send_ex, Le_Timeout_Interrupt, Le_Timeout air_ex, Le_Off air_ex False, Le_Send air_ex pb_send_ex,
      Le_On air_ex, Le_Send air_ex pb_example, Le_Send air_ex pb_send_ex]"
  obtain n s where f: "foldl (lpp_step me_ex) (0, lpp_new_init air_ex lpp_zero) es = (n, s)"
    by (metis surj_pair)
  have r: "packetbuf_addr pb_send_ex PACKETBUF_ADDR_RECEIVER = peer_ex" "packetbuf_addr pb_example PACKETBUF_ADDR_RECEIVER = rimeaddr_null"
    "peer_ex \<noteq> rimeaddr_null"
    by (simp_all add: pb_send_ex_def packetbuf_addr_def packetbuf_set_addr_def pb_example_def peer_ex_def rimeaddr_null_def)
  have "\<not> lpp_pending s \<Longrightarrow> \<not> lpp_pending (lpp_timeout_interrupt s)" for s
    by (simp add: lpp_pending_def lpp_timeout_interrupt_def)
  note sims = es_def run_simps r lpp_requests_def this
  have ok: "run_ok (lpp_step me_ex) lpp_ok (0, lpp_new_init air_ex lpp_zero) es"
    by (simp add: sims del: lpp_do.simps(1))
  have n: "n = 3"
    using f by (simp add: sims del: lpp_do.simps(1))
  from lpp_outcomes [OF _ _ _ ok f] have "length (lp_posted s) + of_bool (lpp_pending s) = n \<and> 100 \<le> unat (lpp_new_get_prr s)"
    by (simp add: lpp_zero_def)
  then show ?thesis
    using f n unfolding es_def [symmetric] lpp_boot_def by (simp add: Let_def)
qed

text \<open>C31: The duty cycle after a change of the configuration. Outside its on phase the duty cycle starts with a probe. In the on phase,
  \<open>set_lpp_new_config\<close> turns the radio off but leaves the protothread and \<open>dutycycle_on\<close> where they are: the next time the duty cycle
  runs it goes on with the off phase, so that no probe is sent before one more off time has passed; and if a packet is sent before that
  and times out, the radio stays on.\<close>

theorem lpp_reconfigured:
  assumes "s1 = set_lpp_new_config a a' c s" and "lp_pc s = Dc_On \<longrightarrow> lp_dutycycle_on s"
    and "lpp_send_packet x me b s1 = (taken, b1, s2)"
  shows "lp_config s1 = c \<and> lp_is_on s1 \<and> \<not> sb_valid (lp_buffer s1) \<and> \<not> listening (lp_ops s1) \<and> \<not> lp_tbcctl2 s1 \<and> lp_tbcctl3 s1 \<and>
    lp_probe_polled s1 = lp_probe_polled s \<and> taken \<and>
    (lp_pc s \<noteq> Dc_On \<longrightarrow> lp_probe_polled (dutycycle y ttg s1) \<and> lp_tbccr3 (dutycycle y ttg s1) = ar_tbr y + lc_on_time c) \<and>
    (lp_pc s = Dc_On \<longrightarrow> lp_probe_polled (dutycycle y ttg s1) = lp_probe_polled s \<and> lp_pc (dutycycle y ttg s1) = Dc_Off \<and>
       lp_tbccr3 (dutycycle y ttg s1) = ar_tbr y + lc_off_time c + ar_rnd y mod 513) \<and>
    (lp_pc s = Dc_On \<longrightarrow> listening (lp_ops (send_timeout_process z (lpp_timeout_interrupt s2)))) \<and>
    (\<not> lp_dutycycle_on s \<longrightarrow> \<not> listening (lp_ops (send_timeout_process z (lpp_timeout_interrupt s2))))"
proof -
  define s' where "s' = lpp_mac_off a False s"
  have off: "\<not> sb_valid (lp_buffer s')" "\<not> listening (lp_ops s')" "\<not> lp_tbcctl2 s'" "lp_dutycycle_on s' = lp_dutycycle_on s" "lp_pc s' = lp_pc s"
    by (auto simp: s'_def lpp_mac_off_def Let_def lpp_radio_off_def lp_op_def)
  have polled: "lp_probe_polled s' = lp_probe_polled s"
    by (simp add: s'_def lpp_mac_off_def Let_def lpp_radio_off_def lp_op_def remove_packet_from_buffer_def lpp_exclude_energy_def lpp_halve_def
        lpp_post_send_def split: prod.split)
  have "s1 = lpp_mac_on a' (s'\<lparr>lp_config := c\<rparr>)"
    by (cases c) (simp add: assms(1) set_lpp_new_config_def s'_def)
  then have s1: "lp_config s1 = c" "lp_is_on s1" "lp_buffer s1 = lp_buffer s'" "lp_ops s1 = lp_ops s'" "\<not> lp_tbcctl2 s1" "lp_tbcctl3 s1"
    "lp_dutycycle_on s1 = lp_dutycycle_on s" "lp_pc s1 = lp_pc s" "lp_probe_polled s1 = lp_probe_polled s"
    by (simp_all add: lpp_mac_on_def off polled)
  have "taken \<and> s2 = snd (lpp_accept x me b s1)"
    using assms(3) s1 off(1) by (simp add: lpp_send_packet_def)
  then have s2: "taken" "sb_valid (lp_buffer s2)" "listening (lp_ops s2)" "lp_dutycycle_on s2 = lp_dutycycle_on s"
    by (simp_all add: lpp_accept_def Let_def lpp_radio_on_def lp_op_def fill_buffer_def s1 split: prod.split)
  show ?thesis
    using s1 s2 off assms(2) timeout_fails(3) [OF s2(2), of z]
    by (auto simp: dutycycle_def duty_on_def duty_off_def Let_def lpp_radio_off_def lp_op_def LPP_NEW_MAX_RANDOM_OFF_TIME_def
        split: lpp_pc.split)
qed

text \<open>The on phase has begun, and the probe has been sent, when the configuration is changed.\<close>

theorem lpp_reconfigured_witness:
  "let s = send_probe_process peer_ex pb_example (dutycycle air_ex 100000 lpp_boot);
       s1 = set_lpp_new_config air_ex air_ex \<lparr>lc_on_time = 256, lc_off_time = 8192, lc_tx_timeout = 8716\<rparr> s;
       (taken, b1, s2) = lpp_send_packet air_ex me_ex pb_send_ex s1
   in taken \<and> \<not> listening (lp_ops s1) \<and> \<not> lp_probe_polled (dutycycle air_ex 100000 s1) \<and> lp_tbccr3 (dutycycle air_ex 100000 s1) = 8292 \<and>
      listening (lp_ops (send_timeout_process air_ex (lpp_timeout_interrupt s2)))"
proof -
  define s where "s = send_probe_process peer_ex pb_example (dutycycle air_ex 100000 lpp_boot)"
  define c where "c = \<lparr>lc_on_time = (256 :: u16), lc_off_time = 8192, lc_tx_timeout = 8716\<rparr>"
  define s1 where "s1 = set_lpp_new_config air_ex air_ex c s"
  obtain taken b1 s2 where p: "lpp_send_packet air_ex me_ex pb_send_ex s1 = (taken, b1, s2)"
    by (metis prod_cases3)
  have s: "lp_pc s = Dc_On" "lp_dutycycle_on s" "\<not> lp_probe_polled s"
    by (simp_all add: s_def send_probe_process_def send_probe_def lpp_send_def lpp_radio_on_def lp_op_def dutycycle_def lpp_boot_def
        lpp_new_init_def lpp_radio_off_def lpp_zero_def duty_on_def Let_def)
  have c: "lc_off_time c = 8192" "ar_tbr air_ex = 100" "ar_rnd air_ex = 0"
    by (simp_all add: c_def air_ex_def)
  show ?thesis
    using lpp_reconfigured [OF s1_def impI [OF s(2)] p, of air_ex 100000 air_ex] s p
    unfolding s_def [symmetric] c_def [symmetric] s1_def [symmetric] by (simp add: c Let_def s1_def [symmetric])
qed

end
