(* ===== verification/Serial.thy ===== *)
theory Serial
  imports Words
begin

text \<open>
  The line discipline of the serial port, \<open>core/dev/serial-line.c\<close>: the interrupt hands over one byte at a time, the process
  posts every complete line to all processes. There is one buffer of 80 bytes, so bytes that come while a line waits for the
  process are lost.
\<close>

section \<open>State and operations\<close>

definition BUFSIZE :: nat where "BUFSIZE = 80"
definition END :: u8 where "END = 0x0a"

definition IGNORE_CHAR :: "u8 \<Rightarrow> bool" where
  "IGNORE_CHAR c \<longleftrightarrow> c = 0x0d"

text \<open>\<open>sl_running\<close>: the process has run to its first yield. \<open>sl_posted\<close> holds the contents of \<open>appbuffer\<close> at each post.\<close>

record serial =
  sl_buffer :: "u8 list"
  sl_appbuffer :: "u8 list"
  sl_bufwptr :: u8
  sl_full :: bool
  sl_running :: bool
  sl_polled :: bool
  sl_posted :: "u8 list list"

definition serial_line_input_byte :: "u8 \<Rightarrow> serial \<Rightarrow> bool \<times> serial" where
  "serial_line_input_byte c s =
     (if \<not> sl_full s \<and> \<not> IGNORE_CHAR c then
        if c = END then
          (True, s\<lparr>sl_buffer := (sl_buffer s)[unat (sl_bufwptr s) := 0], sl_bufwptr := sl_bufwptr s + 1, sl_full := True, sl_polled := True\<rparr>)
        else if unat (sl_bufwptr s) < BUFSIZE - 1 then
          (False, s\<lparr>sl_buffer := (sl_buffer s)[unat (sl_bufwptr s) := c], sl_bufwptr := sl_bufwptr s + 1\<rparr>)
        else (False, s)
      else (False, s))"

text \<open>
  One run of the process: to the first yield, or from one to the next. The kernel has taken back the request to be polled.
\<close>

definition serial_line_process :: "serial \<Rightarrow> serial" where
  "serial_line_process s =
     (if \<not> sl_running s then s\<lparr>sl_bufwptr := 0, sl_full := False, sl_running := True, sl_polled := False\<rparr>
      else if sl_full s then
        (let app = take (unat (sl_bufwptr s)) (sl_buffer s) @ drop (unat (sl_bufwptr s)) (sl_appbuffer s)
         in s\<lparr>sl_appbuffer := app, sl_posted := sl_posted s @ [app], sl_bufwptr := 0, sl_full := False, sl_polled := False\<rparr>)
      else s\<lparr>sl_polled := False\<rparr>)"

text \<open>The static variables, and the process after \<open>serial_line_init\<close>.\<close>

definition serial_boot :: serial where
  "serial_boot = \<lparr>sl_buffer = replicate BUFSIZE 0, sl_appbuffer = replicate BUFSIZE 0, sl_bufwptr = 0, sl_full = False,
     sl_running = False, sl_polled = False, sl_posted = []\<rparr>"

definition serial_line_init :: "serial \<Rightarrow> serial" where
  "serial_line_init s = serial_line_process s"

section \<open>Lines\<close>

definition sl_inv :: "serial \<Rightarrow> bool" where
  "sl_inv s \<longleftrightarrow> length (sl_buffer s) = BUFSIZE \<and> length (sl_appbuffer s) = BUFSIZE \<and> sl_running s \<and>
     unat (sl_bufwptr s) < BUFSIZE + (if sl_full s then 1 else 0)"

definition typed :: "u8 list \<Rightarrow> serial \<Rightarrow> serial" where
  "typed cs s = fold (\<lambda>c t. snd (serial_line_input_byte c t)) cs s"

lemma sl_inv_init: "sl_inv (serial_line_init serial_boot)"
  by (simp add: sl_inv_def serial_line_init_def serial_boot_def serial_line_process_def BUFSIZE_def)

lemma bufwptr_Suc: "unat (w :: u8) < 255 \<Longrightarrow> unat (w + 1) = Suc (unat w)"
  by (simp add: unat_word_ariths)

text \<open>What the buffer holds: the bytes of the line so far, cut off after 79.\<close>

definition line_kept :: "u8 list \<Rightarrow> u8 list" where
  "line_kept cs = take (BUFSIZE - 1) (filter (\<lambda>c. \<not> IGNORE_CHAR c) cs)"

definition holds :: "u8 list \<Rightarrow> serial \<Rightarrow> bool" where
  "holds l s \<longleftrightarrow> sl_inv s \<and> \<not> sl_full s \<and> unat (sl_bufwptr s) = length l \<and> take (length l) (sl_buffer s) = l"

lemma take_list_update_next: "n < length xs \<Longrightarrow> take (Suc n) (xs[n := x]) = take n xs @ [x]"
  by (simp add: take_Suc_conv_app_nth)

lemma holds_byte:
  assumes "holds (line_kept cs) s" and "c \<noteq> END"
  shows "holds (line_kept (cs @ [c])) (snd (serial_line_input_byte c s))" "sl_posted (snd (serial_line_input_byte c s)) = sl_posted s"
    "sl_appbuffer (snd (serial_line_input_byte c s)) = sl_appbuffer s"
proof -
  have s: "length (sl_buffer s) = 80" "length (sl_appbuffer s) = 80" "sl_running s" "\<not> sl_full s" "unat (sl_bufwptr s) = length (line_kept cs)"
    "take (length (line_kept cs)) (sl_buffer s) = line_kept cs"
    using assms(1) by (simp_all add: holds_def sl_inv_def BUFSIZE_def)
  show "holds (line_kept (cs @ [c])) (snd (serial_line_input_byte c s))"
  proof (cases "IGNORE_CHAR c \<or> \<not> length (line_kept cs) < 79")
    case True
    then have "line_kept (cs @ [c]) = line_kept cs"
      by (auto simp: line_kept_def BUFSIZE_def)
    moreover have "serial_line_input_byte c s = (False, s)"
      using True assms(2) s(5) by (auto simp: serial_line_input_byte_def BUFSIZE_def)
    ultimately show ?thesis
      using assms(1) by simp
  next
    case False
    then have k: "line_kept (cs @ [c]) = line_kept cs @ [c]"
      by (auto simp: line_kept_def BUFSIZE_def)
    have "serial_line_input_byte c s =
        (False, s\<lparr>sl_buffer := (sl_buffer s)[length (line_kept cs) := c], sl_bufwptr := sl_bufwptr s + 1\<rparr>)"
      using False assms(2) s(4,5) by (simp add: serial_line_input_byte_def BUFSIZE_def)
    then show ?thesis
      using False s bufwptr_Suc [of "sl_bufwptr s"] take_list_update_next [of "length (line_kept cs)" "sl_buffer s" c]
      by (simp add: holds_def sl_inv_def k BUFSIZE_def)
  qed
qed (simp_all add: serial_line_input_byte_def)

lemma holds_typed:
  "holds (line_kept cs) s \<Longrightarrow> END \<notin> set l \<Longrightarrow>
   holds (line_kept (cs @ l)) (typed l s) \<and> sl_posted (typed l s) = sl_posted s \<and> sl_appbuffer (typed l s) = sl_appbuffer s"
proof (induction l arbitrary: cs s)
  case (Cons c l)
  then have "c \<noteq> END" "END \<notin> set l"
    by auto
  then show ?case
    using Cons.IH [OF holds_byte(1) [OF Cons.prems(1)], of c] holds_byte(2,3) [OF Cons.prems(1), of c] by (simp add: typed_def)
qed (simp add: typed_def)

lemma typed_full: "sl_full s \<Longrightarrow> typed cs s = s"
  by (induction cs) (simp_all add: typed_def serial_line_input_byte_def)

lemma line_kept_length: "length (line_kept cs) \<le> 79"
  by (simp add: line_kept_def BUFSIZE_def)

lemma c_string: "0 \<notin> set l \<Longrightarrow> takeWhile (\<lambda>c. c \<noteq> 0) (l @ (0::u8) # x) = l"
  by (induction l) auto

text \<open>The next state when a line has been read and the process has run.\<close>

lemma line_posted:
  assumes "holds [] s" and "END \<notin> set l"
  obtains x where "holds [] (serial_line_process (typed (l @ [END] @ late) s))"
    "sl_posted (serial_line_process (typed (l @ [END] @ late) s)) = sl_posted s @ [line_kept l @ 0 # x]"
    "length (line_kept l @ 0 # x) = 80"
proof -
  define s1 where "s1 = typed l s"
  have h: "holds (line_kept l) s1" "sl_posted s1 = sl_posted s" "sl_appbuffer s1 = sl_appbuffer s"
    using holds_typed [of "[]" s l] assms by (simp_all add: s1_def line_kept_def)
  define s2 where "s2 = snd (serial_line_input_byte END s1)"
  have s1: "length (sl_buffer s1) = 80" "length (sl_appbuffer s1) = 80" "sl_running s1" "\<not> sl_full s1" "unat (sl_bufwptr s1) = length (line_kept l)"
    "take (length (line_kept l)) (sl_buffer s1) = line_kept l"
    using h(1) by (simp_all add: holds_def sl_inv_def BUFSIZE_def)
  have s2: "s2 = s1\<lparr>sl_buffer := (sl_buffer s1)[length (line_kept l) := 0], sl_bufwptr := sl_bufwptr s1 + 1, sl_full := True, sl_polled := True\<rparr>"
    using s1(4,5) by (simp add: s2_def serial_line_input_byte_def IGNORE_CHAR_def END_def)
  have "typed (l @ [END] @ late) s = typed late s2"
    by (simp add: typed_def s1_def s2_def)
  also have "\<dots> = s2"
    by (rule typed_full) (simp add: s2)
  finally have t: "typed (l @ [END] @ late) s = s2" .
  have w: "unat (sl_bufwptr s1 + 1) = Suc (length (line_kept l))"
    using bufwptr_Suc [of "sl_bufwptr s1"] s1(5) line_kept_length [of l] by simp
  have b: "take (Suc (length (line_kept l))) ((sl_buffer s1)[length (line_kept l) := 0]) = line_kept l @ [0]"
    using take_list_update_next [of "length (line_kept l)" "sl_buffer s1" 0] s1 line_kept_length [of l] by simp
  define x where "x = drop (Suc (length (line_kept l))) (sl_appbuffer s1)"
  have p: "serial_line_process s2 = s2\<lparr>sl_appbuffer := line_kept l @ 0 # x, sl_posted := sl_posted s @ [line_kept l @ 0 # x],
      sl_bufwptr := 0, sl_full := False, sl_polled := False\<rparr>"
    using s1(3) h(2) by (simp add: serial_line_process_def s2 w b x_def Let_def)
  have len: "length (line_kept l @ 0 # x) = 80"
    using s1(2) line_kept_length [of l] by (simp add: x_def)
  show ?thesis
  proof (rule that [OF _ _ len])
    show "holds [] (serial_line_process (typed (l @ [END] @ late) s))"
      unfolding t p using s1 len by (simp add: holds_def sl_inv_def s2 BUFSIZE_def)
    show "sl_posted (serial_line_process (typed (l @ [END] @ late) s)) = sl_posted s @ [line_kept l @ 0 # x]"
      unfolding t p by simp
  qed
qed

text \<open>A line that is typed is the string that the process posts, without carriage returns and cut off after 79 characters, and the
  next line can be typed after that; what is typed between the end of the line and the run of the process is lost.\<close>

theorem serial_line:
  assumes "holds [] s" and "END \<notin> set l" and "0 \<notin> set l" and "s1 = serial_line_process (typed (l @ [END] @ late) s)"
  shows "holds [] s1 \<and> (\<exists>b. sl_posted s1 = sl_posted s @ [b] \<and> length b = BUFSIZE \<and>
    takeWhile (\<lambda>c. c \<noteq> 0) b = take (BUFSIZE - 1) (filter (\<lambda>c. \<not> IGNORE_CHAR c) l))"
proof -
  obtain x where "holds [] s1" "sl_posted s1 = sl_posted s @ [line_kept l @ 0 # x]" "length (line_kept l @ 0 # x) = 80"
    using line_posted [OF assms(1,2)] assms(4) by blast
  moreover have "0 \<notin> set (line_kept l)"
    using assms(3) set_take_subset [of 79 "filter (\<lambda>c. \<not> IGNORE_CHAR c) l"] by (auto simp: line_kept_def BUFSIZE_def)
  moreover have "line_kept l = take (BUFSIZE - 1) (filter (\<lambda>c. \<not> IGNORE_CHAR c) l)"
    by (simp add: line_kept_def)
  ultimately show ?thesis
    using c_string [of "line_kept l" x] by (intro conjI exI [of _ "line_kept l @ 0 # x"]) (simp_all add: BUFSIZE_def)
qed

theorem serial_line_witness:
  "takeWhile (\<lambda>c. c \<noteq> 0) (last (sl_posted (serial_line_process (typed ([49, 44, 13, 50] @ [END] @ [51, 52]) (serial_line_init serial_boot))))) =
     [49, 44, 50]"
proof -
  have "holds [] (serial_line_init serial_boot)"
    using sl_inv_init by (simp add: holds_def serial_line_init_def serial_boot_def serial_line_process_def)
  from serial_line [OF this _ _ refl, of "[49, 44, 13, 50]" "[51, 52]"] show ?thesis
    by (auto simp: END_def IGNORE_CHAR_def BUFSIZE_def)
qed

end
