(* ===== verification/Adaptive_Mac.thy ===== *)
theory Adaptive_Mac
  imports Serial Xmac_Cycle Relcollect Glossy_Sched
begin

text \<open>
  The application, \<open>apps/adaptive-mac/adaptive-mac.c\<close> and \<open>time.c\<close>, as configured for Glossy, X-MAC and queuing
  statistics: every node sends a packet every 30 seconds, the sink prints the packets it receives, a configuration that is
  typed at the sink is handed to Glossy and a configuration that Glossy delivers is applied to X-MAC.
\<close>

section \<open>Bytes and text\<close>

definition le32 :: "u32 \<Rightarrow> u8 list" where
  "le32 w = le16 (ucast w) @ le16 (ucast (drop_bit 16 w))"

definition of_le32 :: "u8 \<Rightarrow> u8 \<Rightarrow> u8 \<Rightarrow> u8 \<Rightarrow> u32" where
  "of_le32 a b c d = ucast (of_le16 a b) OR push_bit 16 (ucast (of_le16 c d))"

definition ascii :: "string \<Rightarrow> u8 list" where
  "ascii s = map of_char s"

text \<open>\<open>printf\<close>'s \<open>%u\<close> (\<open>%lu\<close>) and \<open>%d\<close>.\<close>

fun dec :: "nat \<Rightarrow> u8 list" where
  "dec n = (if n < 10 then [48 + of_nat n] else dec (n div 10) @ [48 + of_nat (n mod 10)])"

declare dec.simps [simp del]

definition dec_int :: "int \<Rightarrow> u8 list" where
  "dec_int i = (if i < 0 then 45 # dec (nat (- i)) else dec (nat i))"

text \<open>
  \<open>atoi\<close> on the characters of an array: blanks, a sign, digits. It stops at the first character that is not a digit, and runs
  off the array (\<open>None\<close>) if there is none. What C leaves undefined, a number that is no \<open>int\<close>, wraps around.
\<close>

definition is_digit :: "u8 \<Rightarrow> bool" where
  "is_digit c \<longleftrightarrow> 48 \<le> c \<and> c \<le> 57"

definition is_blank :: "u8 \<Rightarrow> bool" where
  "is_blank c \<longleftrightarrow> c = 32 \<or> 9 \<le> c \<and> c \<le> 13"

fun digits :: "u16 \<Rightarrow> u8 list \<Rightarrow> u16 option" where
  "digits acc [] = None"
| "digits acc (c # cs) = (if is_digit c then digits (acc * 10 + (ucast c - 48)) cs else Some acc)"

definition atoi :: "u8 list \<Rightarrow> u16 option" where
  "atoi cs =
     (case dropWhile is_blank cs of
        [] \<Rightarrow> None
      | c # r \<Rightarrow> if c = 45 then map_option uminus (digits 0 r) else if c = 43 then digits 0 r else digits 0 (c # r))"

section \<open>A configuration over the serial port\<close>

datatype uart_error = No_Comma | Buffer_Overrun | Unterminated

text \<open>
  The loop from \<open>s2\<close> to the next comma, and the number between, in \<open>char buf[10]\<close>: \<open>count\<close> is a \<open>uint8_t\<close> and
  \<open>strncpy\<close> writes \<open>count\<close> bytes. The list is the memory from \<open>s1\<close> on, as far as it is known. The errors are not the code's, which has
  no checks; they mark where it reads or writes outside of its objects.
\<close>

definition uart_field :: "u8 list \<Rightarrow> uart_error + (u16 \<times> u8 list)" where
  "uart_field m =
     (case dropWhile (\<lambda>c. c \<noteq> 44) m of
        [] \<Rightarrow> Inl No_Comma
      | _ # rest \<Rightarrow>
          (let count = length (takeWhile (\<lambda>c. c \<noteq> 44) m) mod 256;
               s = takeWhile (\<lambda>c. c \<noteq> 0) (take count m)
           in if count > 10 then Inl Buffer_Overrun
              else case atoi (s @ replicate (10 - length s) 0) of
                     None \<Rightarrow> Inl Unterminated
                   | Some v \<Rightarrow> Inr (v, rest)))"

text \<open>Milliseconds to tenths of a tick, and tenths of a tick to ticks, rounded.\<close>

definition tenths :: "u16 \<Rightarrow> u32" where
  "tenths v = 32768 * 10 * scast v div 1000"

definition ticks :: "u32 \<Rightarrow> u16" where
  "ticks w = (if w mod 10 > 4 then ucast (w div 10) + 1 else ucast (w div 10))"

definition parse_config :: "u8 list \<Rightarrow> uart_error + config" where
  "parse_config m =
     (case uart_field m of Inl e \<Rightarrow> Inl e | Inr (t_l, m1) \<Rightarrow>
      case uart_field m1 of Inl e \<Rightarrow> Inl e | Inr (t_s, m2) \<Rightarrow>
      case uart_field m2 of Inl e \<Rightarrow> Inl e | Inr (n, m3) \<Rightarrow>
        Inr \<lparr>cf_t_l = ticks (tenths t_l), cf_t_s = ticks (tenths t_s), cf_n = ucast n\<rparr>)"

text \<open>
  The process: it waits for a line, or, a configuration in hand, for Glossy to be off. A parse that fails has run over
  its data: the code does not check for it, C leaves undefined what the program does then, and the model describes it no further
  (\<open>Ds_Undefined\<close>). Any event ends a pause while Glossy is on (\<open>PROCESS_PAUSE\<close> yields and does not look at the event).
\<close>

datatype dissemination_pc = Ds_Begin | Ds_Resigned | Ds_Wait | Ds_Glossy | Ds_Undefined uart_error

definition GLOSSY_IS_ON :: "sched \<Rightarrow> bool" where
  "GLOSSY_IS_ON s \<longleftrightarrow> get_glossy_status (gs_gl s) \<noteq> GLOSSY_STATUS_OFF"

definition update_glossy :: "sched \<Rightarrow> sched" where
  "update_glossy s =
     s\<lparr>gs_config := \<lparr>cf_t_l = cf_t_l (gs_new_cfg s), cf_t_s = cf_t_s (gs_new_cfg s), cf_n = cf_n (gs_new_cfg s),
        gc_seq_no = gc_seq_no (gs_config s) + 1\<rparr>\<rparr>"

definition after_parse :: "sched \<Rightarrow> dissemination_pc \<times> sched" where
  "after_parse s = (if GLOSSY_IS_ON s then (Ds_Glossy, s) else (Ds_Wait, update_glossy s))"

definition dissemination_process :: "sched_env \<Rightarrow> u8 list option \<Rightarrow> dissemination_pc \<times> sched \<Rightarrow> dissemination_pc \<times> sched" where
  "dissemination_process e line x =
     (case x of (pc, s) \<Rightarrow>
        (case pc of
           Ds_Begin \<Rightarrow> (if \<not> IS_SINK e then Ds_Resigned else Ds_Wait, s)
         | Ds_Wait \<Rightarrow>
             (case line of
                None \<Rightarrow> (Ds_Wait, s)
              | Some m \<Rightarrow> (case parse_config m of Inl er \<Rightarrow> (Ds_Undefined er, s) | Inr c \<Rightarrow> after_parse (s\<lparr>gs_new_cfg := c\<rparr>)))
         | Ds_Glossy \<Rightarrow> after_parse s
         | _ \<Rightarrow> (pc, s)))"

section \<open>The time since the last Glossy phase\<close>

text \<open>
  \<open>contiki-conf.h\<close>: the time stamps of the packets, and the sink's \<open>glossy_arrival_time\<close>. Like \<open>rtimer_time_to_expire\<close> it needs a
  pending timer.
\<close>

definition TIME_FROM_GLOSSY :: "sched \<Rightarrow> u32 option" where
  "TIME_FROM_GLOSSY s =
     map_option (\<lambda>to_glossy. GLOSSY_PERIOD + word_of_int (gs_period_skew s) - to_glossy +
         ucast (ucast (ucast (GLOSSY_REFERENCE_TIME s) + GLOSSY_PERIOD + word_of_int (gs_period_skew s)) - rs_taccr0 (gs_rt s)))
       (rtimer_time_to_expire (gs_rt s))"

section \<open>Adaptation\<close>

definition xmac_config_of :: "config \<Rightarrow> xmac \<Rightarrow> xmac_config" where
  "xmac_config_of c x =
     \<lparr>xc_on_time = cf_t_l c, xc_off_time = cf_t_s c, xc_strobe_time = 2 * cf_t_l c + cf_t_s c,
      xc_strobe_wait_time = xc_strobe_wait_time (get_xmac_config x)\<rparr>"

text \<open>The process \<open>adaptation_process\<close>: its first run, and a run after it has been polled.\<close>

definition adaptation_begin :: "air \<Rightarrow> sched \<Rightarrow> xmac \<Rightarrow> xmac" where
  "adaptation_begin a s x = set_xmac_config a (xmac_config_of (gs_current_cfg s) x) x"

definition adaptation_process :: "air \<Rightarrow> sched \<times> xmac \<Rightarrow> sched \<times> xmac" where
  "adaptation_process a sx =
     (case sx of (s, x) \<Rightarrow> (s\<lparr>gs_current_cfg := gs_new_cfg s\<rparr>, set_xmac_config a (xmac_config_of (gs_new_cfg s) x) x))"

section \<open>The packets\<close>

record message =
  ms_seq_no :: u16
  ms_listen :: u32
  ms_transmit :: u32
  ms_lpm :: u32
  ms_cpu :: u32
  ms_rx_cnt :: u8
  ms_time_to_rx :: rtimer_clock_t
  ms_period_skew :: u16
  ms_glossy_listen :: u32
  ms_glossy_transmit :: u32
  ms_glossy_cpu :: u32

text \<open>\<open>sizeof (struct message)\<close>; one byte of padding follows \<open>rx_cnt\<close>.\<close>

definition MESSAGE_LEN :: nat where "MESSAGE_LEN = 36"

definition message_bytes :: "u8 \<Rightarrow> message \<Rightarrow> u8 list" where
  "message_bytes pad m =
     le16 (ms_seq_no m) @ le32 (ms_listen m) @ le32 (ms_transmit m) @ le32 (ms_lpm m) @ le32 (ms_cpu m) @ [ms_rx_cnt m, pad] @
     le16 (ms_time_to_rx m) @ le16 (ms_period_skew m) @
     le32 (ms_glossy_listen m) @ le32 (ms_glossy_transmit m) @ le32 (ms_glossy_cpu m)"

definition le16_at :: "u8 list \<Rightarrow> nat \<Rightarrow> u16" where
  "le16_at b i = of_le16 (b ! i) (b ! (i + 1))"

definition le32_at :: "u8 list \<Rightarrow> nat \<Rightarrow> u32" where
  "le32_at b i = of_le32 (b ! i) (b ! (i + 1)) (b ! (i + 2)) (b ! (i + 3))"

definition bytes_message :: "u8 list \<Rightarrow> message" where
  "bytes_message b =
     \<lparr>ms_seq_no = le16_at b 0, ms_listen = le32_at b 2, ms_transmit = le32_at b 6, ms_lpm = le32_at b 10, ms_cpu = le32_at b 14,
      ms_rx_cnt = b ! 18, ms_time_to_rx = le16_at b 20, ms_period_skew = le16_at b 22,
      ms_glossy_listen = le32_at b 24, ms_glossy_transmit = le32_at b 28, ms_glossy_cpu = le32_at b 32\<rparr>"

record print_message =
  pm_rx :: u8
  pm_seq_no :: u16
  pm_t_tx :: u32
  pm_t_rx :: u32
  pm_t_lpm :: u32
  pm_t_cpu :: u32
  pm_latency :: u32
  pm_queuing_delay :: u16
  pm_dropped :: u16
  pm_queue_size :: u8
  pm_rx_cnt :: u8
  pm_time_to_rx :: rtimer_clock_t
  pm_period_skew :: u16
  pm_t_glossy_rx :: u32
  pm_t_glossy_tx :: u32
  pm_t_glossy_cpu :: u32

text \<open>
  The sink's variables: the static \<open>msg\<close> of \<open>recv_relcollect\<close>, \<open>glossy_arrival_time\<close>, \<open>print_msg\<close>, and whether the
  print process is to be polled.
\<close>

record sink =
  sk_msg :: "u8 list"
  sk_arrival_time :: u32
  sk_print :: print_message
  sk_polled :: bool

text \<open>The packet's latency in milliseconds, and \<open>glossy_arrival_time\<close> afterwards.\<close>

definition latency :: "u32 \<Rightarrow> u32 \<Rightarrow> u32 \<times> u32" where
  "latency arrival time =
     (let arrival1 = (if arrival < time then arrival + GLOSSY_PERIOD else arrival)
      in ((arrival1 - time) * 1000 div 32768, arrival1))"

text \<open>
  \<open>packetbuf_copyto\<close> writes the packet over the first bytes of \<open>msg\<close>; bytes beyond the structure, of a longer packet, go to memory
  outside the model.
\<close>

definition recv_relcollect :: "(ptr \<Rightarrow> u8) \<Rightarrow> packetbuf \<Rightarrow> delivery \<Rightarrow> sink \<Rightarrow> sink" where
  "recv_relcollect ext b d s =
     (let bytes = take MESSAGE_LEN (mem_put (sk_msg s) 0 (fst (packetbuf_copyto ext b)));
          msg = bytes_message bytes;
          time = push_bit 16 (ucast (dl_time_high d)) OR ucast (dl_time_low d)
      in case latency (sk_arrival_time s) time of
           (lat, arrival) \<Rightarrow>
             \<lparr>sk_msg = bytes, sk_arrival_time = arrival,
              sk_print = \<lparr>pm_rx = u8_0 (dl_originator d), pm_seq_no = ms_seq_no msg, pm_t_tx = ms_transmit msg, pm_t_rx = ms_listen msg,
                pm_t_lpm = ms_lpm msg, pm_t_cpu = ms_cpu msg, pm_latency = lat, pm_queuing_delay = dl_delay d, pm_dropped = dl_dropped d,
                pm_queue_size = dl_queue_size d, pm_rx_cnt = ms_rx_cnt msg, pm_time_to_rx = ms_time_to_rx msg,
                pm_period_skew = ms_period_skew msg, pm_t_glossy_rx = ms_glossy_listen msg, pm_t_glossy_tx = ms_glossy_transmit msg,
                pm_t_glossy_cpu = ms_glossy_cpu msg\<rparr>,
              sk_polled = True\<rparr>)"

definition print_line :: "print_message \<Rightarrow> u8 list" where
  "print_line p =
     ascii ''A o='' @ dec (unat (pm_rx p)) @ ascii '' seq='' @ dec (unat (pm_seq_no p)) @ ascii '' qd='' @ dec (unat (pm_queuing_delay p)) @
     ascii '' dp='' @ dec (unat (pm_dropped p)) @ ascii '' qs='' @ dec (unat (pm_queue_size p)) @ ascii '' tx='' @ dec (unat (pm_t_tx p)) @
     ascii '' rx='' @ dec (unat (pm_t_rx p)) @ ascii '' lpm='' @ dec (unat (pm_t_lpm p)) @ ascii '' cpu='' @ dec (unat (pm_t_cpu p)) @
     ascii '' lat='' @ dec (unat (pm_latency p)) @ ascii '' rxc='' @ dec (unat (pm_rx_cnt p)) @ ascii '' t2rx='' @ dec (unat (pm_time_to_rx p)) @
     ascii '' psk='' @ dec_int (sint (pm_period_skew p)) @ ascii '' gtx='' @ dec (unat (pm_t_glossy_tx p)) @
     ascii '' grx='' @ dec (unat (pm_t_glossy_rx p)) @ ascii '' gcpu='' @ dec (unat (pm_t_glossy_cpu p)) @ [10]"

text \<open>The process waits to be polled; what it prints.\<close>

definition print_process :: "bool \<Rightarrow> sink \<Rightarrow> u8 list \<times> sink" where
  "print_process poll s = (if poll then (print_line (sk_print s), s\<lparr>sk_polled := False\<rparr>) else ([], s))"

section \<open>The sender\<close>

text \<open>The event timer \<open>et\<close>: the interval it was last set to, and whether it has expired since.\<close>

datatype app_pc = App_Begin | App_Sink_Wait | App_Sink | App_Delay1 | App_Delay2 | App_Send

record app =
  ap_pc :: app_pc
  ap_interval :: clock_time_t
  ap_expired :: bool
  ap_seq_no :: u16
  ap_node :: node
  ap_channels :: "channel list"
  ap_sched :: sched

definition DEFAULT_DATA_RATE :: u16 where "DEFAULT_DATA_RATE = 30"
definition CLOCK_SECOND :: u16 where "CLOCK_SECOND = 128"

text \<open>What a run of the process reads: beside the other layers' inputs, the channel of the connection and the clock readings of the energy accounting.\<close>

record app_env =
  ae_env :: env
  ae_sched :: sched_env
  ae_channel :: channel
  ae_energest_now :: "nat \<Rightarrow> rtimer_clock_t"
  ae_pad :: u8

definition app_timer :: "app \<Rightarrow> clock_time_t \<Rightarrow> app" where
  "app_timer s t = s\<lparr>ap_interval := t, ap_expired := False\<rparr>"

text \<open>The packet of one period; reading a running energy counter updates it.\<close>

definition make_message :: "app_env \<Rightarrow> u16 \<Rightarrow> sched \<Rightarrow> message \<times> sched" where
  "make_message e seq_no s =
     (case energest_type_time (ae_energest_now e 0) (gs_en s) ENERGEST_TYPE_LPM of (lpm, e1) \<Rightarrow>
      case energest_type_time (ae_energest_now e 1) e1 ENERGEST_TYPE_LISTEN of (listen, e2) \<Rightarrow>
      case energest_type_time (ae_energest_now e 2) e2 ENERGEST_TYPE_TRANSMIT of (transmit, e3) \<Rightarrow>
      case energest_type_time (ae_energest_now e 3) e3 ENERGEST_TYPE_CPU of (cpu, e4) \<Rightarrow>
      case energest_glossy_type_time (ae_energest_now e 4) (gl_energest (gs_gl s)) ENERGEST_TYPE_LISTEN of (g_listen, g1) \<Rightarrow>
      case energest_glossy_type_time (ae_energest_now e 5) g1 ENERGEST_TYPE_TRANSMIT of (g_transmit, g2) \<Rightarrow>
      case energest_glossy_type_time (ae_energest_now e 6) g2 ENERGEST_TYPE_CPU of (g_cpu, g3) \<Rightarrow>
        (\<lparr>ms_seq_no = seq_no, ms_listen = listen, ms_transmit = transmit, ms_lpm = lpm, ms_cpu = cpu, ms_rx_cnt = gs_config_received s,
          ms_time_to_rx = (if gs_config_received s \<noteq> 0 then get_time_to_first_rx (gs_gl s) else - 1),
          ms_period_skew = word_of_int (gs_period_skew s), ms_glossy_listen = g_listen, ms_glossy_transmit = g_transmit,
          ms_glossy_cpu = g_cpu\<rparr>,
         s\<lparr>gs_en := e4, gs_gl := (gs_gl s)\<lparr>gl_energest := g3\<rparr>\<rparr>))"

definition app_send :: "app_env \<Rightarrow> app \<Rightarrow> app" where
  "app_send e s =
     (let seq_no = ap_seq_no s + 1
      in case make_message e seq_no (ap_sched s) of
           (m, sched) \<Rightarrow>
             (let n = ap_node s;
                  b = snd (packetbuf_copyfrom (packetbuf_clear (nt_pb (rl_net n))) (message_bytes (ae_pad e) m) (of_nat MESSAGE_LEN));
                  n1 = n\<lparr>rl_net := (rl_net n)\<lparr>nt_pb := b\<rparr>\<rparr>
              in s\<lparr>ap_seq_no := seq_no, ap_sched := sched,
                   ap_node := snd (relcollect_send (ae_env e) n1 (int (unat (cf_n (gs_current_cfg sched)))))\<rparr>))"

text \<open>From one wait to the next; a wait that is not over changes nothing.\<close>

definition app_ready :: "app_env \<Rightarrow> app \<Rightarrow> app" where
  "app_ready e s =
     (let s1 = s\<lparr>ap_sched := glossy_init (ae_sched e) (ap_sched s)\<rparr>
      in if IS_SINK (ae_sched e) then s1\<lparr>ap_pc := App_Sink, ap_node := relcollect_set_sink (ae_env e) (ap_node s1) True\<rparr>
         else (app_timer (s1\<lparr>ap_seq_no := 0, ap_sched := (ap_sched s1)\<lparr>gs_data_rate := DEFAULT_DATA_RATE\<rparr>\<rparr>) (CLOCK_SECOND * 240))\<lparr>ap_pc := App_Delay1\<rparr>)"

definition reset_energest :: "app_env \<Rightarrow> app \<Rightarrow> app" where
  "reset_energest e s =
     s\<lparr>ap_sched := (ap_sched s)\<lparr>gs_en := ENERGEST_ON (ae_energest_now e 0) (energest_init (gs_en (ap_sched s))) ENERGEST_TYPE_CPU,
         gs_gl := (gs_gl (ap_sched s))\<lparr>gl_energest := energest_glossy_init (gl_energest (gs_gl (ap_sched s)))\<rparr>\<rparr>\<rparr>"

definition app_process :: "app_env \<Rightarrow> app \<Rightarrow> app" where
  "app_process e s =
     (case ap_pc s of
        App_Begin \<Rightarrow>
          (case relcollect_open None (ae_env e) (ap_channels s) (ae_channel e) (ap_node s) 128 of
             (cs, n) \<Rightarrow>
               (let s1 = s\<lparr>ap_channels := cs, ap_node := n\<rparr>
                in if IS_SINK (ae_sched e) then (app_timer s1 (CLOCK_SECOND * 2))\<lparr>ap_pc := App_Sink_Wait\<rparr> else app_ready e s1))
      | App_Sink_Wait \<Rightarrow> if ap_expired s then app_ready e s else s
      | App_Sink \<Rightarrow> s
      | App_Delay1 \<Rightarrow>
          if ap_expired s
          then (app_timer s (CLOCK_SECOND * 240 + ev_rnd (ae_env e) 0 mod (CLOCK_SECOND * gs_data_rate (ap_sched s))))\<lparr>ap_pc := App_Delay2\<rparr>
          else s
      | App_Delay2 \<Rightarrow>
          if ap_expired s then (app_timer (reset_energest e s) (CLOCK_SECOND * gs_data_rate (ap_sched s)))\<lparr>ap_pc := App_Send\<rparr> else s
      | App_Send \<Rightarrow>
          if ap_expired s then app_timer (app_send e s) (CLOCK_SECOND * gs_data_rate (ap_sched s)) else s)"

section \<open>Minutes and seconds\<close>

text \<open>The process of \<open>time.c\<close> counts the minutes; \<open>tp_start\<close> is the start time of its timer.\<close>

record time_state =
  tp_minutes :: u16
  tp_start :: clock_time_t

definition time_begin :: "clock_time_t \<Rightarrow> time_state" where
  "time_begin now = \<lparr>tp_minutes = 0, tp_start = now\<rparr>"

definition time_process :: "clock_time_t \<Rightarrow> bool \<Rightarrow> time_state \<Rightarrow> time_state" where
  "time_process now expired s = (if expired then \<lparr>tp_minutes = tp_minutes s + 1, tp_start = now\<rparr> else s)"

definition get_seconds :: "clock_time_t \<Rightarrow> time_state \<Rightarrow> u16" where
  "get_seconds now s = tp_minutes s * 60 + (now - tp_start s) div CLOCK_SECOND"

definition get_minutes :: "time_state \<Rightarrow> u16" where
  "get_minutes s = tp_minutes s"

end
