(* ===== verification/Adaptive_Props.thy ===== *)
theory Adaptive_Props
  imports Adaptive_Mac Glossy_Sched_Props Relcollect_Props
begin

text \<open>
  The properties of the application: what a typed configuration becomes, what it does to X-MAC, and what is printed of a packet.
\<close>

section \<open>Numbers\<close>

lemma nat_less_10: "n < 10 \<Longrightarrow> n = 0 \<or> n = 1 \<or> n = 2 \<or> n = 3 \<or> n = 4 \<or> n = 5 \<or> n = 6 \<or> n = 7 \<or> n = 8 \<or> n = (9::nat)"
  by auto

lemma digit_value: "n < 10 \<Longrightarrow> (ucast (48 + of_nat n :: u8) :: u16) - 48 = of_nat n"
  using nat_less_10 [of n] by auto

lemma digit_is: "n < 10 \<Longrightarrow> is_digit (48 + of_nat n)"
  using nat_less_10 [of n] by (auto simp: is_digit_def)

lemma dec_digits: "c \<in> set (dec n) \<Longrightarrow> is_digit c"
proof (induction n rule: dec.induct)
  case (1 n)
  then show ?case
    by (cases "n < 10") (auto simp: dec.simps [of n] digit_is)
qed

lemma dec_not_empty: "dec n \<noteq> []"
  by (simp add: dec.simps [of n])

lemma digits_dec: "digits acc (dec n @ r) = digits (acc * 10 ^ length (dec n) + of_nat n) r"
proof (induction n arbitrary: r rule: dec.induct)
  case (1 n)
  show ?case
  proof (cases "n < 10")
    case True
    then show ?thesis
      by (simp add: dec.simps [of n] digit_value digit_is del: of_nat_add)
  next
    case False
    define q where "q = n div 10"
    define m where "m = n mod 10"
    have m: "m < 10" and n: "n = q * 10 + m"
      by (simp_all add: m_def q_def)
    have "digits acc (dec n @ r) = digits acc (dec q @ (48 + of_nat m) # r)"
      using False by (simp add: dec.simps [of n] q_def m_def)
    also have "\<dots> = digits ((acc * 10 ^ length (dec q) + of_nat q) * 10 + of_nat m) r"
      using 1 [OF False] m by (simp add: q_def digit_is digit_value)
    also have "(acc * 10 ^ length (dec q) + of_nat q) * 10 + of_nat m = acc * 10 ^ length (dec n) + of_nat n"
    proof -
      have "length (dec n) = Suc (length (dec q))"
        using False by (simp add: dec.simps [of n] q_def)
      moreover have "(of_nat n :: u16) = of_nat q * 10 + of_nat m"
        unfolding n by simp
      ultimately show ?thesis
        by (simp only: power_Suc) (simp add: algebra_simps)
    qed
    finally show ?thesis .
  qed
qed

lemma length_dec: "n < 10 ^ k \<Longrightarrow> 0 < k \<Longrightarrow> length (dec n) \<le> k"
proof (induction n arbitrary: k rule: dec.induct)
  case (1 n)
  show ?case
  proof (cases "n < 10")
    case False
    then obtain j where k: "k = Suc j" "0 < j"
      using 1(2,3) by (cases k; cases "k - 1") auto
    moreover have "n div 10 < 10 ^ j"
      using 1(2) k by (simp add: less_mult_imp_div_less mult.commute)
    ultimately show ?thesis
      using 1(1) [OF False, of j] False by (simp add: dec.simps [of n])
  qed (use 1(3) in \<open>simp add: dec.simps [of n]\<close>)
qed

lemma digit_chars: "is_digit c \<Longrightarrow> \<not> is_blank c \<and> c \<noteq> 45 \<and> c \<noteq> 43 \<and> c \<noteq> 44 \<and> c \<noteq> 0 \<and> c \<noteq> END \<and> \<not> IGNORE_CHAR c"
  by (auto simp: is_digit_def is_blank_def END_def IGNORE_CHAR_def word_le_nat_alt)

lemma atoi_dec: "atoi (dec n @ 0 # r) = Some (of_nat n)"
proof -
  obtain c cs where d: "dec n = c # cs"
    using dec_not_empty by (cases "dec n") auto
  have c: "\<not> is_blank c" "c \<noteq> 45" "c \<noteq> 43"
    using dec_digits [of c n] digit_chars by (simp_all add: d)
  have "atoi (dec n @ 0 # r) = digits 0 (dec n @ 0 # r)"
    using c by (simp add: atoi_def d)
  also have "\<dots> = Some (of_nat n)"
    unfolding digits_dec by (simp add: is_digit_def)
  finally show ?thesis .
qed

section \<open>A typed configuration\<close>

lemma uart_field_dec:
  assumes "n < 10 ^ 9"
  shows "uart_field (dec n @ 44 # r) = Inr (of_nat n, r)"
proof -
  have l: "length (dec n) \<le> 9"
    using length_dec [OF assms] by simp
  have a: "\<And>c. c \<in> set (dec n) \<Longrightarrow> c \<noteq> 44 \<and> c \<noteq> 0"
    using dec_digits digit_chars by blast
  have t: "takeWhile (\<lambda>c. c \<noteq> 44) (dec n @ 44 # r) = dec n" "dropWhile (\<lambda>c. c \<noteq> 44) (dec n @ 44 # r) = 44 # r"
    "takeWhile (\<lambda>c. c \<noteq> 0) (dec n) = dec n"
    using a by (auto simp: takeWhile_append2 dropWhile_append2 takeWhile_eq_all_conv)
  obtain k where k: "10 - length (dec n) = Suc k"
    using l by (cases "10 - length (dec n)") auto
  show ?thesis
    using l unfolding uart_field_def t by (simp add: t k atoi_dec)
qed

lemma scast_small: "n < 32768 \<Longrightarrow> (scast (of_nat n :: u16) :: u32) = of_nat n"
  by (simp add: scast_eq signed_of_nat signed_take_bit_int_eq_self)

text \<open>Ticks, for a number of milliseconds: the nearest number.\<close>

definition nearest :: "nat \<Rightarrow> nat" where
  "nearest v = (65536 * v + 1000) div 2000"

lemma of_nat_div32: "a < 4294967296 \<Longrightarrow> b < 4294967296 \<Longrightarrow> (of_nat a div of_nat b :: u32) = of_nat (a div b)"
  by (simp add: word_arith_nat_div unat_of_nat)

lemma of_nat_mod32: "a < 4294967296 \<Longrightarrow> b < 4294967296 \<Longrightarrow> (of_nat a mod of_nat b :: u32) = of_nat (a mod b)"
  by (simp add: word_arith_nat_mod unat_of_nat)

lemma ticks_tenths:
  assumes "v < 2000"
  shows "ticks (tenths (of_nat v)) = of_nat (nearest v)"
proof -
  define x where "x = 327680 * v div 1000"
  have xb: "x < 655360"
    using assms by (simp add: x_def)
  have "tenths (of_nat v) = of_nat (327680 * v) div of_nat 1000"
    using assms by (simp add: tenths_def scast_small)
  also have "\<dots> = of_nat x"
    unfolding x_def by (rule of_nat_div32) (use assms in simp_all)
  finally have t: "tenths (of_nat v) = of_nat x" .
  define q where "q = x div 10"
  define m where "m = x mod 10"
  define r where "r = 327680 * v mod 1000"
  have d: "(of_nat x :: u32) div 10 = of_nat q" "(of_nat x :: u32) mod 10 = of_nat m"
    using of_nat_div32 [of x 10] of_nat_mod32 [of x 10] xb by (simp_all add: q_def m_def)
  have "m < 10" "r < 1000" and e: "327680 * v = 1000 * (10 * q + m) + r"
    using mult_div_mod_eq [of 1000 "327680 * v"] mult_div_mod_eq [of 10 x] by (simp_all add: q_def m_def r_def x_def)
  have "nearest v = (if m > 4 then q + 1 else q)"
  proof -
    have "2000 * (if m > 4 then q + 1 else q) \<le> 65536 * v + 1000" "65536 * v + 1000 < 2000 * Suc (if m > 4 then q + 1 else q)"
      using e \<open>m < 10\<close> \<open>r < 1000\<close> by (auto split: if_splits)
    then show ?thesis
      unfolding nearest_def by (metis div_nat_eqI mult.commute)
  qed
  moreover have "(of_nat m :: u32) > 4 \<longleftrightarrow> m > 4"
    using \<open>m < 10\<close> by (simp add: word_less_nat_alt unat_of_nat)
  moreover have "take_bit 32 q = q"
    using xb by (intro take_bit_nat_eq_self) (simp add: q_def)
  ultimately show ?thesis
    unfolding t ticks_def d by (simp add: unsigned_of_nat)
qed

lemma nearest_less: "v < 2000 \<Longrightarrow> nearest v < 65536"
  by (simp add: nearest_def)

lemma parse_config_dec:
  assumes "t_l < 2000" and "t_s < 2000" and "n < 256"
  shows "parse_config (dec t_l @ 44 # dec t_s @ 44 # dec n @ 44 # r) =
    Inr \<lparr>cf_t_l = of_nat (nearest t_l), cf_t_s = of_nat (nearest t_s), cf_n = of_nat n\<rparr>"
  using assms by (simp add: parse_config_def uart_field_dec ticks_tenths unsigned_of_nat take_bit_nat_eq_self)


text \<open>The line as it is typed.\<close>

definition config_line :: "nat \<Rightarrow> nat \<Rightarrow> nat \<Rightarrow> u8 list" where
  "config_line t_l t_s n = dec t_l @ 44 # dec t_s @ 44 # dec n @ [44]"

lemma config_line_chars:
  assumes "t_l < 2000" and "t_s < 2000" and "n < 256"
  shows "END \<notin> set (config_line t_l t_s n)" "line_kept (config_line t_l t_s n) = config_line t_l t_s n"
proof -
  have d: "is_digit c \<Longrightarrow> c \<noteq> END \<and> \<not> IGNORE_CHAR c" for c
    using digit_chars by blast
  then show "END \<notin> set (config_line t_l t_s n)"
    using dec_digits by (fastforce simp: config_line_def END_def)
  have "length (config_line t_l t_s n) \<le> 79"
    using length_dec [of t_l 4] length_dec [of t_s 4] length_dec [of n 3] assms by (simp add: config_line_def)
  moreover have "filter (\<lambda>c. \<not> IGNORE_CHAR c) (config_line t_l t_s n) = config_line t_l t_s n"
    using d dec_digits by (auto simp: filter_id_conv config_line_def IGNORE_CHAR_def)
  ultimately show "line_kept (config_line t_l t_s n) = config_line t_l t_s n"
    by (simp add: line_kept_def BUFSIZE_def)
qed

lemma typed_config:
  assumes "t_l < 2000" and "t_s < 2000" and "n < 256" and "holds [] s"
    and "s1 = serial_line_process (typed (config_line t_l t_s n @ [END]) s)" and "\<not> GLOSSY_IS_ON g"
    and "dissemination_process e (Some (last (sl_posted s1))) (Ds_Wait, g) = (pc, g1)"
  shows "pc = Ds_Wait" "gs_config g1 = \<lparr>cf_t_l = of_nat (nearest t_l), cf_t_s = of_nat (nearest t_s), cf_n = of_nat n,
      gc_seq_no = gc_seq_no (gs_config g) + 1\<rparr>"
proof -
  obtain x where "sl_posted s1 = sl_posted s @ [config_line t_l t_s n @ 0 # x]"
    using line_posted [OF assms(4) config_line_chars(1) [OF assms(1-3)], of "[]"] config_line_chars(2) [OF assms(1-3)] assms(5)
    by auto
  then have "parse_config (last (sl_posted s1)) = Inr \<lparr>cf_t_l = of_nat (nearest t_l), cf_t_s = of_nat (nearest t_s), cf_n = of_nat n\<rparr>"
    using parse_config_dec [OF assms(1-3), of "0 # x"] by (simp add: config_line_def)
  then show "pc = Ds_Wait" "gs_config g1 = \<lparr>cf_t_l = of_nat (nearest t_l), cf_t_s = of_nat (nearest t_s), cf_n = of_nat n,
      gc_seq_no = gc_seq_no (gs_config g) + 1\<rparr>"
    using assms(6,7) by (auto simp: dissemination_process_def after_parse_def update_glossy_def GLOSSY_IS_ON_def get_glossy_status_def)
qed

lemma nearest_tick: "v < 2000 \<Longrightarrow> \<bar>1000 * uint (of_nat (nearest v) :: u16) - 32768 * int v\<bar> \<le> 500"
proof -
  assume "v < 2000"
  then have "uint (of_nat (nearest v) :: u16) = int (nearest v)"
    using nearest_less [of v] by (simp add: unsigned_of_nat take_bit_nat_eq_self)
  then show ?thesis
    using mult_div_mod_eq [of 2000 "65536 * v + 1000"] mod_less_divisor [of 2000 "65536 * v + 1000"] by (simp add: nearest_def)
qed

text \<open>C14: A configuration that is typed at the sink while Glossy is off. For times of less than two seconds, in milliseconds, and a
  number of retransmissions below 256, the line \<open>t_l,t_s,n,\<close> is posted by the serial driver and parsed without an error; the
  configuration that the next Glossy phase floods has the times in ticks, rounded to the nearest, and a new sequence number.\<close>

theorem uart_config:
  assumes "t_l < 2000" and "t_s < 2000" and "n < 256" and "holds [] s"
    and "s1 = serial_line_process (typed (config_line t_l t_s n @ [END]) s)" and "\<not> GLOSSY_IS_ON g"
    and "dissemination_process e (Some (last (sl_posted s1))) (Ds_Wait, g) = (pc, g1)"
  shows "pc = Ds_Wait \<and> gc_seq_no (gs_config g1) = gc_seq_no (gs_config g) + 1 \<and>
    \<bar>1000 * uint (cf_t_l (gs_config g1)) - 32768 * int t_l\<bar> \<le> 500 \<and>
    \<bar>1000 * uint (cf_t_s (gs_config g1)) - 32768 * int t_s\<bar> \<le> 500 \<and> uint (cf_n (gs_config g1)) = int n"
  using typed_config [OF assms] nearest_tick assms(1-3) by (simp add: unsigned_of_nat take_bit_nat_eq_self)

definition gs_sink :: sched where
  "gs_sink = gs_node\<lparr>gs_pc := Sink_Period, gs_gl := gl_boot\<rparr>"

theorem uart_config_witness:
  "\<exists>g1. dissemination_process (env_node 200) (Some (last (sl_posted (serial_line_process (typed (config_line 10 100 3 @ [END])
       (serial_line_init serial_boot)))))) (Ds_Wait, gs_sink) = (Ds_Wait, g1) \<and>
     uint (cf_t_l (gs_config g1)) = 328 \<and> uint (cf_t_s (gs_config g1)) = 3277"
proof -
  let ?s = "serial_line_init serial_boot"
  have h: "holds [] ?s"
    using sl_inv_init by (simp add: holds_def serial_line_init_def serial_boot_def serial_line_process_def)
  have g: "\<not> GLOSSY_IS_ON gs_sink"
    by (simp add: GLOSSY_IS_ON_def get_glossy_status_def gs_sink_def gl_boot_inv)
  obtain pc g1 where d: "dissemination_process (env_node 200) (Some (last (sl_posted (serial_line_process (typed (config_line 10 100 3 @ [END]) ?s)))))
      (Ds_Wait, gs_sink) = (pc, g1)"
    by fastforce
  have "(10::nat) < 2000" "(100::nat) < 2000" "(3::nat) < 256"
    by simp_all
  from uart_config [OF this h refl g d] have "pc = Ds_Wait" "\<bar>1000 * uint (cf_t_l (gs_config g1)) - 327680\<bar> \<le> 500"
    "\<bar>1000 * uint (cf_t_s (gs_config g1)) - 3276800\<bar> \<le> 500"
    by simp_all
  then show ?thesis
    using d by auto
qed

section \<open>A configuration that comes at the wrong moment\<close>

text \<open>C15: A configuration can get lost. If a configuration is typed in the last reporting round of a Glossy phase in which the
  previous one was flooded, the process waits for the end of the round; but the end of the phase gives the sink the previous
  configuration in the same variable, and it is the previous configuration, with a new number, that is flooded next.\<close>

theorem config_lost:
  assumes "GLOSSY_IS_ON s" and "parse_config m = Inr c" and "dissemination_process e (Some m) (Ds_Wait, s) = (pc1, s1)"
    and "gs_pc s = Sink_Report_Stop" and "unat (gs_report_idx s) + 1 = length (gs_schedule s)" and "length (gs_schedule s) < 256"
    and "gc_seq_no (gs_config s) \<noteq> gs_config_seq_no s"
    and "dissemination_process e None (pc1, glossy_scheduler e1 s1) = (pc2, s2)"
  shows "pc1 = Ds_Glossy \<and> gs_new_cfg s1 = c \<and> pc2 = Ds_Wait \<and>
    gs_config s2 = (gs_config s)\<lparr>gc_seq_no := gc_seq_no (gs_config s) + 1\<rparr> \<and>
    gs_new_cfg s2 = \<lparr>cf_t_l = cf_t_l (gs_config s), cf_t_s = cf_t_s (gs_config s), cf_n = cf_n (gs_config s)\<rparr>"
proof -
  have s1: "pc1 = Ds_Glossy" "s1 = s\<lparr>gs_new_cfg := c\<rparr>"
    using assms(1-3) by (simp_all add: dissemination_process_def after_parse_def GLOSSY_IS_ON_def)
  define t where "t = glossy_scheduler e1 s1"
  have idx: "unat (gs_report_idx s + 1) = length (gs_schedule s)"
    using assms(5,6) by (simp add: unat_word_ariths)
  have t: "gs_config t = gs_config s" "\<not> GLOSSY_IS_ON t"
    "gs_new_cfg t = \<lparr>cf_t_l = cf_t_l (gs_config s), cf_t_s = cf_t_s (gs_config s), cf_n = cf_n (gs_config s)\<rparr>"
  proof -
    obtain n g where g: "glossy_stop (se_now e1 6) (gs_gl s) = (n, g)" "gl_status g = GLOSSY_STATUS_OFF"
      using stop_view(2) [of "se_now e1 6" "gs_gl s"] by (cases "glossy_stop (se_now e1 6) (gs_gl s)") auto
    define u where "u = s1\<lparr>gs_gl := g, gs_report := (gs_report s)[unat (gs_report_idx s) := \<lparr>rp_report = bytes_report (gl_data (gs_gl s)),
      rp_received = n\<rparr>], gs_report_idx := gs_report_idx s + 1\<rparr>"
    have "t = sink_end e1 u"
      using assms(4) g(1) idx by (simp add: t_def glossy_scheduler_def s1(2) sink_report_stop_def sink_report_def u_def)
    moreover have "gs_config u = gs_config s" "gs_config_seq_no u = gs_config_seq_no s" "gl_status (gs_gl u) = GLOSSY_STATUS_OFF"
      by (simp_all add: u_def s1(2) g(2))
    moreover have "gs_config (sink_end e1 u) = gs_config u \<and> gl_status (gs_gl (sink_end e1 u)) = gl_status (gs_gl u) \<and>
        (gc_seq_no (gs_config u) \<noteq> gs_config_seq_no u \<longrightarrow>
          gs_new_cfg (sink_end e1 u) = \<lparr>cf_t_l = cf_t_l (gs_config u), cf_t_s = cf_t_s (gs_config u), cf_n = cf_n (gs_config u)\<rparr>)"
      by (simp add: sink_end_def phase_end_def mac_on_def start_mac_energest_def apply_config_def estimate_period_skew_def timer_set_long_def
          Let_def glossy_enable_other_interrupts_def)
    ultimately show "gs_config t = gs_config s" "\<not> GLOSSY_IS_ON t"
      "gs_new_cfg t = \<lparr>cf_t_l = cf_t_l (gs_config s), cf_t_s = cf_t_s (gs_config s), cf_n = cf_n (gs_config s)\<rparr>"
      using assms(7) by (simp_all add: GLOSSY_IS_ON_def get_glossy_status_def)
  qed
  then have "after_parse t = (pc2, s2)"
    using assms(8) by (simp add: s1(1) t_def [symmetric] dissemination_process_def)
  then show ?thesis
    using t s1 by (auto simp: after_parse_def update_glossy_def)
qed

theorem config_lost_witness:
  "\<exists>s2. dissemination_process (env_node 200) None
       (Ds_Glossy, glossy_scheduler (env_node 200) (gs_sink\<lparr>gs_pc := Sink_Report_Stop, gs_gl := gl_receiver, gs_report_idx := 22,
          gs_config_seq_no := 9, gs_new_cfg := \<lparr>cf_t_l = 328, cf_t_s = 3277, cf_n = 3\<rparr>\<rparr>)) = (Ds_Wait, s2) \<and>
     gs_config s2 = \<lparr>cf_t_l = 197, cf_t_s = 3277, cf_n = 3, gc_seq_no = 1\<rparr>"
proof -
  let ?s = "gs_sink\<lparr>gs_pc := Sink_Report_Stop, gs_gl := gl_receiver, gs_report_idx := 22, gs_config_seq_no := 9\<rparr>"
  let ?c = "\<lparr>cf_t_l = 328, cf_t_s = 3277, cf_n = 3\<rparr>"
  have on: "GLOSSY_IS_ON ?s"
    using gl_receiver by (simp add: GLOSSY_IS_ON_def get_glossy_status_def)
  have p: "parse_config (config_line 10 100 3) = Inr ?c"
    using parse_config_dec [of 10 100 3 "[]"] by (simp add: config_line_def nearest_def)
  have d: "dissemination_process (env_node 200) (Some (config_line 10 100 3)) (Ds_Wait, ?s) = (Ds_Glossy, ?s\<lparr>gs_new_cfg := ?c\<rparr>)"
    using on by (simp add: dissemination_process_def after_parse_def p GLOSSY_IS_ON_def)
  have s: "gs_pc ?s = Sink_Report_Stop" "unat (gs_report_idx ?s) + 1 = length (gs_schedule ?s)" "length (gs_schedule ?s) < 256"
    "gc_seq_no (gs_config ?s) \<noteq> gs_config_seq_no ?s" "gs_config ?s = \<lparr>cf_t_l = 197, cf_t_s = 3277, cf_n = 3, gc_seq_no = 0\<rparr>"
    by (simp_all add: gs_sink_def gs_node_def schedule_sics_def)
  obtain pc2 s2 where e: "dissemination_process (env_node 200) None (Ds_Glossy, glossy_scheduler (env_node 200) (?s\<lparr>gs_new_cfg := ?c\<rparr>)) = (pc2, s2)"
    by fastforce
  show ?thesis
    using config_lost [OF on p d s(1-4) e] e by (simp add: s(5) [simplified])
qed

section \<open>The strobes of an adapted X-MAC\<close>



text \<open>C17: There is no check that the times fit the clock. If two on phases and one off phase take more than 2^15 ticks, a second, the end of
  the strobes looks as if it were over at once: no packet is ever sent, neither a strobe nor a broadcast.\<close>

theorem too_slow_to_send:
  assumes "adaptation_process a0 (s, x) = (s1, x1)" and "32768 + g < 2 * unat (cf_t_l (gs_new_cfg s)) + unat (cf_t_s (gs_new_cfg s))"
    and "2 * unat (cf_t_l (gs_new_cfg s)) + unat (cf_t_s (gs_new_cfg s)) < 65536" and "ticking T g a"
  shows "\<exists>b1 x2. send_packet a me b x1 = Some (b1, x2) \<and> sent x2 = sent x1 \<and> \<not> xmac_got_data_ack x2"
proof -
  have x1: "xm_is_on x1" "xm_config x1 = xmac_config_of (gs_new_cfg s) x"
    using assms(1) by (auto simp: adaptation_process_def set_xmac_config_def turn_on_def)
  define st where "st = 2 * unat (cf_t_l (gs_new_cfg s)) + unat (cf_t_s (gs_new_cfg s))"
  have cst: "xc_strobe_time (xm_config x1) = of_nat st"
    by (simp add: x1(2) xmac_config_of_def st_def)
  have T: "T 0 < T 1" "T 1 \<le> T 0 + g" "ar_now a 0 = of_nat (T 0)" "ar_now a (Suc 0) = of_nat (T 1)"
    using assms(4) by (simp_all add: ticking_def)
  have "\<not> rtimer_clock_lt (of_nat (T 1 + 65536)) (of_nat (T 0 + st))"
    using T assms(2,3) by (intro lt_after) (simp_all add: st_def)
  moreover have "(of_nat (T 1 + 65536) :: u16) = of_nat (T 1)"
  proof -
    have "(of_nat 65536 :: u16) = 0"
      by simp
    then show ?thesis
      by (simp only: of_nat_add add_0_right)
  qed
  ultimately have nlt: "\<not> rtimer_clock_lt (ar_now a (Suc 0)) (ar_now a 0 + of_nat st)"
    by (simp only: T(3,4) of_nat_add not_False_eq_True)
  then have lp: "strobe_loop a me bc p w (ar_now a 0 + of_nat st) k (Suc 0) 0 l = Some (False, 2, 0, l)" for bc p w k l
    by (subst strobe_loop.simps) simp
  define xs where "xs = xmac_off (x1\<lparr>xm_got_data_ack := False, xm_we_are_sending := True\<rparr>)"
  define r where "r = packetbuf_addr b PACKETBUF_ADDR_RECEIVER"
  define y where "y = (if \<not> rimeaddr_cmp r rimeaddr_null then xmac_on xs else xs)"
  have y: "sent y = sent x1" "\<not> xm_got_data_ack y" "xm_config y = xm_config x1"
    by (simp_all add: y_def xs_def)
  show ?thesis
    unfolding send_packet_def Let_def xs_def [symmetric] r_def [symmetric] y_def [symmetric]
    using x1(1) y by (simp add: cst lp xmac_got_data_ack_def)
qed

text \<open>An on phase of 20 milliseconds and an off phase of one second.\<close>

theorem too_slow_to_send_witness:
  "\<exists>b1 x2. send_packet air_ex me_ex pb_send_ex
       (snd (adaptation_process air_ex (gs_sink\<lparr>gs_new_cfg := \<lparr>cf_t_l = 655, cf_t_s = 32768, cf_n = 3\<rparr>\<rparr>, xmac_ex))) = Some (b1, x2) \<and> sent x2 = []"
proof -
  let ?s = "gs_sink\<lparr>gs_new_cfg := \<lparr>cf_t_l = 655, cf_t_s = 32768, cf_n = 3\<rparr>\<rparr>"
  obtain s1 x1 where a: "adaptation_process air_ex (?s, xmac_ex) = (s1, x1)"
    by fastforce
  have "sent x1 = []"
    using a by (auto simp: adaptation_process_def set_xmac_config_def turn_on_def turn_off_def sent_def radio_op_def xmac_ex_def)
  with too_slow_to_send [OF a _ _ air_ex_ok(1), of me_ex pb_send_ex] a show ?thesis
    by auto
qed

section \<open>Time stamps and the latency\<close>

lemma expire_due:
  assumes "due_in t d s" and "rs_tar s \<noteq> rs_taccr0 s"
  shows "rtimer_time_to_expire s = Some (of_nat d)"
proof -
  have "push_bit 16 (ucast w :: u32) = of_nat (unat w * 65536)" for w :: u16
    by (simp add: push_bit_eq_mult)
  then show ?thesis
    using assms by (simp add: rtimer_time_to_expire_def due_in_def dist_def)
qed

lemma ucast_of_int_32_16: "(ucast (word_of_int i :: u32) :: u16) = word_of_int i"
  by (simp add: unsigned_of_int) (transfer, simp)

lemma join32: "push_bit 16 (ucast (h :: u16)) OR ucast (l :: u16) = (of_nat (unat h * 65536 + unat l) :: u32)"
proof -
  have "push_bit 16 (ucast h :: u32) OR ucast l = push_bit 16 (ucast h) + ucast l"
    by (rule disjunctive_add [symmetric]) (auto simp: bit_simps dest: bit_imp_le_length)
  then show ?thesis
    by (simp add: push_bit_eq_mult)
qed

text \<open>C18: The time stamps are late. Between two Glossy phases, \<open>n\<close> ticks after its reference time, a synchronised node takes the time
  \<open>n + 2 * g\<close> for the time since the last flood, where \<open>g\<close> is its guard time: the macro adds the guard time, by which the timer expires
  before the next flood, instead of subtracting it.\<close>

theorem time_from_glossy:
  assumes "GLOSSY_IS_SYNCED s" and "\<not> GLOSSY_IS_BOOTSTRAPPING s" and "rs_next (gs_rt s) = None" and "rs_ccie (gs_rt s)"
    and "GLOSSY_REFERENCE_TIME s = gs_t_ref_l_old s + word_of_int d" and "\<bar>d\<bar> \<le> 300"
    and "e = unat (rs_tar (gs_rt s) - GLOSSY_REFERENCE_TIME s)" and "599 \<le> e" and "e \<le> 60000"
    and "g = guard_ticks (gs_sync_missed s)" and "s1 = node_end env s" and "int j < 1966080 + d - g - int e"
    and "s2 = s1\<lparr>gs_rt := (tick run ^^ j) (gs_rt s1)\<rparr>" and "rs_tar (gs_rt s2) \<noteq> rs_taccr0 (gs_rt s2)"
  shows "TIME_FROM_GLOSSY s2 = Some (word_of_int (int (e + j) + 2 * g))"
proof -
  define D where "D = nat (1966080 + d - g - int e)"
  note w = node_end_wakes [OF assms(1-4) refl assms(5-11)]
  have due: "due_in (gs_timer s) D (gs_rt s1)" "rs_taccr0 (gs_rt s1) = GLOSSY_REFERENCE_TIME s + word_of_int (d - g)" "gs_period_skew s1 = d"
    using w by (simp_all add: D_def)
  have j: "j < D"
    using assms(12) by (simp add: D_def)
  note dj = ticks_due [OF due(1) j, of run]
  have "rs_taccr0 (gs_rt s2) = rs_tar (called (gs_timer s) (gs_rt s2))"
    by (simp add: called_def)
  also have "\<dots> = rs_tar (called (gs_timer s) (gs_rt s1))"
    using dj by (simp add: assms(13))
  finally have c: "rs_taccr0 (gs_rt s2) = GLOSSY_REFERENCE_TIME s + word_of_int (d - g)"
    by (simp add: called_def due(2))
  have x: "rtimer_time_to_expire (gs_rt s2) = Some (of_nat (D - j))"
    using expire_due [of "gs_timer s" "D - j" "gs_rt s2"] dj assms(14) by (simp add: assms(13))
  have ref: "GLOSSY_REFERENCE_TIME s2 = GLOSSY_REFERENCE_TIME s" "gs_period_skew s2 = d"
    using due(3) by (simp_all add: assms(11,13) GLOSSY_REFERENCE_TIME_def get_t_ref_l_def end_keeps)
  have g: "17 \<le> g" "g \<le> 4352"
    using guard_bounds assms(10) by simp_all
  have low: "ucast (ucast (GLOSSY_REFERENCE_TIME s) + GLOSSY_PERIOD + word_of_int d :: u32) -
      (GLOSSY_REFERENCE_TIME s + word_of_int (d - g)) = (word_of_int g :: u16)"
    unfolding ucast16_plus ucast_16_32_16 ucast_of_int_32_16 period_wraps by simp
  have "ucast (word_of_int g :: u16) = (word_of_int g :: u32)"
    using g by (simp add: unsigned_of_int take_bit_int_eq_self)
  moreover have "(of_nat (D - j) :: u32) = word_of_int (1966080 + d - g - int e - int j)"
  proof -
    have "int (D - j) = 1966080 + d - g - int e - int j"
      using assms(12) by (simp add: D_def)
    then show ?thesis
      by (metis of_int_of_nat_eq)
  qed
  ultimately show ?thesis
    unfolding TIME_FROM_GLOSSY_def x ref c low by (simp add: GLOSSY_PERIOD_def algebra_simps)
qed

definition gs_timing :: sched where
  "gs_timing = gs_node\<lparr>gs_gl := set_t_ref_l_updated 1 (set_t_ref_l 20000 gl_receiver), gs_rt := rs_start\<lparr>rs_tar := 29000\<rparr>\<rparr>"

lemma node_end_tar: "rs_tar (gs_rt (node_end e s)) = rs_tar (gs_rt s)"
proof -
  have set: "rs_tar (gs_rt (timer_set_at s t)) = rs_tar (gs_rt s)" "rs_tar (gs_rt (timer_set_long s u v)) = rs_tar (gs_rt s)" for s t u v
    by (simp_all add: timer_set_at_def timer_set_long_def rtimer_set_def rtimer_set_long_def rtimer_arch_schedule_def Let_def split: option.split)
  have "gs_rt (estimate_period_skew s) = gs_rt s" "gs_rt (apply_config s) = gs_rt s" "gs_rt (phase_end e s) = gs_rt s" for s
    by (simp_all add: estimate_period_skew_def Let_def apply_config_def phase_end_def mac_on_def start_mac_energest_def)
  then show ?thesis
    by (simp add: node_end_def node_next_def set)
qed

theorem time_from_glossy_witness:
  "TIME_FROM_GLOSSY ((node_end (env_node 5) gs_timing)\<lparr>gs_rt := (tick (\<lambda>_ _ _ s. s) ^^ 3) (gs_rt (node_end (env_node 5) gs_timing))\<rparr>) =
     Some (9003 + 2 * 17)"
proof -
  have s: "GLOSSY_IS_SYNCED gs_timing" "\<not> GLOSSY_IS_BOOTSTRAPPING gs_timing" "rs_next (gs_rt gs_timing) = None" "rs_ccie (gs_rt gs_timing)"
    "GLOSSY_REFERENCE_TIME gs_timing = 20000" "gs_t_ref_l_old gs_timing = 20002" "rs_tar (gs_rt gs_timing) = 29000" "gs_sync_missed gs_timing = 0"
    by (simp_all add: gs_timing_def gs_node_def GLOSSY_IS_SYNCED_def is_t_ref_l_updated_def set_t_ref_l_updated_def set_t_ref_l_def
        GLOSSY_IS_BOOTSTRAPPING_def GLOSSY_BOOTSTRAP_PERIODS_def rs_start_def GLOSSY_REFERENCE_TIME_def get_t_ref_l_def)
  have e: "GLOSSY_REFERENCE_TIME gs_timing = gs_t_ref_l_old gs_timing + word_of_int (-2)" "\<bar>-2 :: int\<bar> \<le> 300"
    "(9000 :: nat) = unat (rs_tar (gs_rt gs_timing) - GLOSSY_REFERENCE_TIME gs_timing)" "(599 :: nat) \<le> 9000" "(9000 :: nat) \<le> 60000"
    "(17 :: int) = guard_ticks (gs_sync_missed gs_timing)" "int 3 < 1966080 + - 2 - 17 - int 9000"
    using s by (simp_all add: guard_ticks_def)
  define rt where "rt = gs_rt (node_end (env_node 5) gs_timing)"
  have due: "due_in (gs_timer gs_timing) 1957061 rt" "rs_taccr0 rt = 19981"
    using node_end_wakes [OF s(1-4) refl e(1-6) refl, of "env_node 5"] s(5) by (simp_all add: rt_def)
  have t3: "(3 :: nat) < 1957061"
    by simp
  note d3 = ticks_due [OF due(1) t3, of "\<lambda>_ _ _ s. s"]
  have "rs_tar rt = 29000"
    using s(7) by (simp add: rt_def node_end_tar)
  with d3 have n: "rs_tar ((tick (\<lambda>_ _ _ s. s) ^^ 3) rt) = 29003"
    by simp
  have "rs_taccr0 ((tick (\<lambda>_ _ _ s. s) ^^ 3) rt) = rs_tar (called (gs_timer gs_timing) ((tick (\<lambda>_ _ _ s. s) ^^ 3) rt))"
    by (simp add: called_def)
  also have "\<dots> = rs_tar (called (gs_timer gs_timing) rt)"
    using d3 by (simp only:)
  finally have "rs_taccr0 ((tick (\<lambda>_ _ _ s. s) ^^ 3) rt) = 19981"
    by (simp add: called_def due(2))
  with n have n: "rs_tar ((tick (\<lambda>_ _ _ s. s) ^^ 3) (gs_rt (node_end (env_node 5) gs_timing))) \<noteq>
      rs_taccr0 ((tick (\<lambda>_ _ _ s. s) ^^ 3) (gs_rt (node_end (env_node 5) gs_timing)))"
    by (simp add: rt_def)
  show ?thesis
    using time_from_glossy [OF s(1-4) e(1-6) refl e(7) refl, where run = "\<lambda>_ _ _ s. s" and env = "env_node 5"] n by simp
qed

text \<open>The latency that is printed. If the packet was stamped \<open>x\<close> ticks after a flood and arrives less than a minute later, whether or not there
  has been a Glossy phase in between, the sink computes its age in milliseconds, rounded down.\<close>

theorem latency_printed:
  assumes "x < 1966080" and "age < 1966080" and "sk_arrival_time s = of_nat ((x + age) mod 1966080)"
    and "dl_time_high d = of_nat (x div 65536)" and "dl_time_low d = of_nat (x mod 65536)"
  shows "unat (pm_latency (sk_print (recv_relcollect ext b d s))) = age * 1000 div 32768"
proof -
  define time where "time = (push_bit 16 (ucast (dl_time_high d)) OR ucast (dl_time_low d) :: u32)"
  have xd: "x div 65536 < 65536"
    using assms(1) by (simp add: div_less_iff_less_mult)
  have time: "time = of_nat x"
    unfolding time_def join32 assms(4,5) unat16_of_nat using xd by (simp add: mult.commute)
  have P: "GLOSSY_PERIOD = of_nat 1966080"
    by (simp add: GLOSSY_PERIOD_def)
  have u: "unat (of_nat n :: u32) = n" if "n < 3932160" for n
    using that by (simp add: unat_of_nat)
  define y where "y = (x + age) mod 1966080"
  define arrival1 where "arrival1 = (if sk_arrival_time s < time then sk_arrival_time s + GLOSSY_PERIOD else sk_arrival_time s)"
  have "arrival1 = of_nat (x + age)"
  proof (cases "x + age < 1966080")
    case True
    then have "sk_arrival_time s = of_nat (x + age)"
      using assms(3) by simp
    moreover have "\<not> (of_nat (x + age) :: u32) < of_nat x"
      using True u [of "x + age"] u [of x] by (simp only: word_less_nat_alt)
    ultimately show ?thesis
      by (simp add: arrival1_def time)
  next
    case False
    then have y: "(x + age) mod 1966080 = x + age - 1966080"
      using assms(1,2) by (simp add: mod_if)
    have "(of_nat (x + age - 1966080) :: u32) < of_nat x"
      using assms(1,2) False u [of "x + age - 1966080"] u [of x] by (simp only: word_less_nat_alt)
    moreover have "(of_nat (x + age - 1966080) + of_nat 1966080 :: u32) = of_nat (x + age)"
      using False unfolding of_nat_add [symmetric] by simp
    ultimately show ?thesis
      by (simp only: arrival1_def time assms(3) y P if_True)
  qed
  then have a: "arrival1 - time = of_nat age"
    by (simp add: time)
  have "fst (latency (sk_arrival_time s) time) = (arrival1 - time) * 1000 div 32768"
    by (simp only: latency_def Let_def arrival1_def fst_conv)
  then have "fst (latency (sk_arrival_time s) time) = of_nat age * 1000 div 32768"
    unfolding a .
  also have "\<dots> = of_nat (age * 1000 div 32768)"
    using of_nat_div32 [of "age * 1000" 32768] assms(2) by simp
  finally have "unat (fst (latency (sk_arrival_time s) time)) = age * 1000 div 32768"
    using assms(2) by (simp add: unat_of_nat)
  then show ?thesis
    by (simp add: recv_relcollect_def Let_def time_def [symmetric] split: prod.split) (metis fst_conv)
qed

definition print_boot :: print_message where
  "print_boot = \<lparr>pm_rx = 0, pm_seq_no = 0, pm_t_tx = 0, pm_t_rx = 0, pm_t_lpm = 0, pm_t_cpu = 0, pm_latency = 0, pm_queuing_delay = 0,
     pm_dropped = 0, pm_queue_size = 0, pm_rx_cnt = 0, pm_time_to_rx = 0, pm_period_skew = 0, pm_t_glossy_rx = 0, pm_t_glossy_tx = 0,
     pm_t_glossy_cpu = 0\<rparr>"

definition sink_ex :: sink where
  "sink_ex = \<lparr>sk_msg = replicate 36 0, sk_arrival_time = 33920, sk_print = print_boot, sk_polled = False\<rparr>"

definition delivery_ex :: delivery where
  "delivery_ex = \<lparr>dl_originator = Rimeaddr 9 0, dl_delay = 2, dl_dropped = 0, dl_queue_size = 1, dl_time_high = 29, dl_time_low = 0\<rparr>"

text \<open>Stamped 65536 ticks before the flood, received 33920 ticks after it: 3035 milliseconds.\<close>

theorem latency_printed_witness:
  "unat (pm_latency (sk_print (recv_relcollect (\<lambda>_. 0) pb_example delivery_ex sink_ex))) = 3035"
  using latency_printed [of 1900544 99456 sink_ex delivery_ex "\<lambda>_. 0" pb_example] by (simp add: sink_ex_def delivery_ex_def)

section \<open>What is printed of a packet\<close>

lemma length_le [simp]: "length (le16 w) = 2" "length (le32 v) = 4"
  by (simp_all add: le16_def le32_def)

lemma le16_at_skip:
  "le16_at (le16 w @ r) 0 = w" "length xs \<le> i \<Longrightarrow> le16_at (xs @ r) i = le16_at r (i - length xs)" "0 < i \<Longrightarrow> le16_at (x # r) i = le16_at r (i - 1)"
proof -
  show "le16_at (le16 w @ r) 0 = w"
    by (simp add: le16_at_def le16_def of_le16_bytes)
  have s: "length xs \<le> i \<Longrightarrow> le16_at (xs @ r) i = le16_at r (i - length xs)" for xs
    by (simp add: le16_at_def nth_append Suc_diff_le)
  then show "length xs \<le> i \<Longrightarrow> le16_at (xs @ r) i = le16_at r (i - length xs)" .
  show "0 < i \<Longrightarrow> le16_at (x # r) i = le16_at r (i - 1)"
    using s [of "[x]"] by simp
qed

lemma le32_at_0: "le32_at (a # b # c # d # r) 0 = of_le32 a b c d"
  by (simp add: le32_at_def numeral_2_eq_2 numeral_3_eq_3)

lemma le32_at_skip:
  "le32_at (le32 w @ r) 0 = w" "length xs \<le> i \<Longrightarrow> le32_at (xs @ r) i = le32_at r (i - length xs)" "0 < i \<Longrightarrow> le32_at (x # r) i = le32_at r (i - 1)"
proof -
  have "le32_at (le32 w @ r) 0 = ucast (ucast w :: u16) OR push_bit 16 (ucast (ucast (drop_bit 16 w) :: u16))"
    by (simp only: le32_def le16_def append.simps le32_at_0 of_le32_def of_le16_bytes)
  also have "\<dots> = of_nat (unat w)"
    unfolding or.commute [of "ucast (ucast w :: u16)"] join32 split32 [symmetric] ..
  finally show "le32_at (le32 w @ r) 0 = w"
    by simp
  have s: "length xs \<le> i \<Longrightarrow> le32_at (xs @ r) i = le32_at r (i - length xs)" for xs
    by (simp add: le32_at_def nth_append Suc_diff_le)
  then show "length xs \<le> i \<Longrightarrow> le32_at (xs @ r) i = le32_at r (i - length xs)" .
  show "0 < i \<Longrightarrow> le32_at (x # r) i = le32_at r (i - 1)"
    using s [of "[x]"] by simp
qed

lemma bytes_message: "bytes_message (message_bytes pad m) = m"
  using le32_at_skip(1) [of _ "[]"]
  by (cases m) (simp add: bytes_message_def message_bytes_def le16_at_skip le32_at_skip nth_append)

text \<open>A packet's payload is what is printed. If the packet buffer holds, without a header, the bytes that a node's \<open>make_message\<close> gave to
  \<open>relcollect_send\<close>, the sink's line has its sequence number and counters, and the originator and the statistics of the collection header.\<close>

theorem payload_printed:
  assumes "pb_inv b" and "\<not> packetbuf_is_reference b" and "pb_hdrptr b = 64" and "make_message e seq_no t = (m, t1)"
    and "pb_data b = message_bytes pad m" and "length (sk_msg s) = MESSAGE_LEN" and "p = sk_print (recv_relcollect ext b d s)"
  shows "pm_seq_no p = seq_no \<and> pm_rx p = u8_0 (dl_originator d) \<and> pm_queuing_delay p = dl_delay d \<and> pm_dropped p = dl_dropped d \<and>
    pm_queue_size p = dl_queue_size d \<and> (pm_t_tx p, pm_t_rx p, pm_t_lpm p, pm_t_cpu p) = (ms_transmit m, ms_listen m, ms_lpm m, ms_cpu m) \<and>
    (pm_t_glossy_tx p, pm_t_glossy_rx p, pm_t_glossy_cpu p) = (ms_glossy_transmit m, ms_glossy_listen m, ms_glossy_cpu m) \<and>
    pm_rx_cnt p = gs_config_received t \<and> sint (pm_period_skew p) = sint (word_of_int (gs_period_skew t) :: u16) \<and>
    pm_time_to_rx p = (if gs_config_received t \<noteq> 0 then get_time_to_first_rx (gs_gl t) else 65535)"
proof -
  have l: "length (pb_data b) = 36"
    using assms(5) by (simp add: message_bytes_def)
  have "fst (packetbuf_copyto ext b) = pb_data b"
    using assms(2,3) by (simp add: packetbuf_copyto_def packetbuf_copyto_hdr_def pb_bytes_def packetbuf_is_reference_def pb_data_def
        packetbuf_dataptr_def pb_sizes add.commute [of 64])
  then have "take MESSAGE_LEN (mem_put (sk_msg s) 0 (fst (packetbuf_copyto ext b))) = message_bytes pad m"
    using l assms(5,6) by (simp add: mem_put_def MESSAGE_LEN_def)
  then have bm: "bytes_message (take MESSAGE_LEN (mem_put (sk_msg s) 0 (fst (packetbuf_copyto ext b)))) = m"
    using bytes_message [of pad m] by simp
  have "ms_seq_no m = seq_no" "ms_rx_cnt m = gs_config_received t" "ms_period_skew m = word_of_int (gs_period_skew t)"
    "ms_time_to_rx m = (if gs_config_received t \<noteq> 0 then get_time_to_first_rx (gs_gl t) else 65535)"
    using assms(4) by (auto simp: make_message_def split: prod.splits)
  then show ?thesis
    unfolding assms(7) recv_relcollect_def Let_def bm by (simp split: prod.split)
qed

definition app_env_ex :: app_env where
  "app_env_ex = \<lparr>ae_env = env_example, ae_sched = env_node 9, ae_channel = channel_ex, ae_energest_now = (\<lambda>_. 0), ae_pad = 0\<rparr>"

theorem payload_printed_witness:
  "let b = snd (packetbuf_copyfrom pb_example (message_bytes 0 (fst (make_message app_env_ex 7 gs_node))) 36);
       p = sk_print (recv_relcollect (\<lambda>_. 0) b delivery_ex sink_ex)
   in pm_seq_no p = 7 \<and> pm_rx p = 9 \<and> pm_rx_cnt p = 1"
proof -
  obtain m t1 where mm: "make_message app_env_ex 7 gs_node = (m, t1)"
    by fastforce
  define b where "b = snd (packetbuf_copyfrom pb_example (message_bytes 0 m) 36)"
  have l: "length (message_bytes 0 m) = 36"
    by (simp add: message_bytes_def)
  have i: "pb_inv pb_example"
    by (simp add: pb_inv_def pb_example_def pb_sizes)
  have "pb_inv b \<and> \<not> packetbuf_is_reference b \<and> pb_hdrptr b = 64 \<and> pb_data b = message_bytes 0 m"
    using copyfrom_simps [OF i, of 36 "message_bytes 0 m"] l by (simp add: b_def) (simp add: packetbuf_copyfrom_def Let_def pb_sizes)
  then have "pm_seq_no (sk_print (recv_relcollect (\<lambda>_. 0) b delivery_ex sink_ex)) = 7 \<and>
      pm_rx (sk_print (recv_relcollect (\<lambda>_. 0) b delivery_ex sink_ex)) = 9 \<and>
      pm_rx_cnt (sk_print (recv_relcollect (\<lambda>_. 0) b delivery_ex sink_ex)) = 1"
    using payload_printed [of b app_env_ex 7 gs_node m t1 0 sink_ex _ "\<lambda>_. 0" delivery_ex] mm
    by (simp add: sink_ex_def delivery_ex_def MESSAGE_LEN_def gs_node_def)
  then show ?thesis
    unfolding Let_def mm fst_conv b_def .
qed

section \<open>The sender's schedule\<close>

text \<open>The states after each run of the process, its timer having expired before every one.\<close>

fun app_runs :: "app_env list \<Rightarrow> app \<Rightarrow> app list" where
  "app_runs [] s = []"
| "app_runs (e # es) s = (let s1 = app_process e (s\<lparr>ap_expired := True\<rparr>) in s1 # app_runs es s1)"

lemma make_message_rate: "make_message e n s = (m, t) \<Longrightarrow> gs_data_rate t = gs_data_rate s"
  by (auto simp: make_message_def split: prod.splits)

lemma app_send_fields:
  "ap_seq_no (app_send e s) = ap_seq_no s + 1" "ap_pc (app_send e s) = ap_pc s"
  "gs_data_rate (ap_sched (app_send e s)) = gs_data_rate (ap_sched s)"
  by (auto simp: app_send_def Let_def make_message_rate split: prod.splits)

lemma app_runs_send:
  "ap_pc s = App_Send \<Longrightarrow> gs_data_rate (ap_sched s) = 30 \<Longrightarrow> map ap_interval (app_runs es s) = replicate (length es) 3840 \<and>
     map ap_seq_no (app_runs es s) = map (\<lambda>i. ap_seq_no s + of_nat i) [1..<Suc (length es)] \<and>
     (\<forall>t\<in>set (app_runs es s). gs_data_rate (ap_sched t) = 30)"
proof (induction es arbitrary: s)
  case (Cons e es)
  define s1 where "s1 = app_process e (s\<lparr>ap_expired := True\<rparr>)"
  have s1: "ap_pc s1 = App_Send" "gs_data_rate (ap_sched s1) = 30" "ap_interval s1 = 3840" "ap_seq_no s1 = ap_seq_no s + 1"
    using Cons.prems by (simp_all add: s1_def app_process_def app_timer_def app_send_fields CLOCK_SECOND_def)
  have "map (\<lambda>i. ap_seq_no s + of_nat i) [1..<Suc (Suc (length es))] = (ap_seq_no s + 1) # map (\<lambda>i. ap_seq_no s1 + of_nat i) [1..<Suc (length es)]"
  proof -
    have "[1..<Suc (Suc (length es))] = 1 # map Suc [1..<Suc (length es)]"
      using upt_conv_Cons [of 1 "Suc (Suc (length es))"] by (simp add: map_Suc_upt del: upt_Suc)
    then show ?thesis
      by (simp add: s1(4) add.assoc del: upt_Suc)
  qed
  then show ?case
    using Cons.IH [OF s1(1,2)] s1 by (simp add: s1_def [symmetric] Let_def del: upt_Suc)
qed simp

text \<open>A node's packets. After it has started, a node that is not the sink waits four minutes, then four minutes and less than half a
  minute more, and from then on half a minute between two packets, whatever becomes of them: the timer of each wait is set to that time in ticks,
  128 to the second, with the arithmetic of 16 bits. The packets are numbered from 1 on, and all the time the data rate that the node's reports give
  is the one it sends at.\<close>

theorem app_paces:
  assumes "ap_pc s = App_Begin" and "\<not> IS_SINK (ae_sched e0)"
  shows "map ap_interval (app_runs (e0 # e1 # e2 # es) s) =
      [240 * 128, 240 * 128 + ev_rnd (ae_env e1) 0 mod (30 * 128)] @ replicate (Suc (length es)) (30 * 128) \<and>
    map ap_seq_no (app_runs (e0 # e1 # e2 # es) s) = [0, 0, 0] @ map of_nat [1..<Suc (length es)] \<and>
    (\<forall>t\<in>set (app_runs (e0 # e1 # e2 # es) s). gs_data_rate (ap_sched t) = 30)"
proof -
  define s1 where "s1 = app_process e0 (s\<lparr>ap_expired := True\<rparr>)"
  define s2 where "s2 = app_process e1 (s1\<lparr>ap_expired := True\<rparr>)"
  define s3 where "s3 = app_process e2 (s2\<lparr>ap_expired := True\<rparr>)"
  have ready: "ap_pc (app_ready e0 t) = App_Delay1" "ap_interval (app_ready e0 t) = 30720" "ap_seq_no (app_ready e0 t) = 0"
    "gs_data_rate (ap_sched (app_ready e0 t)) = 30" for t
    using assms(2) by (simp_all add: app_ready_def app_timer_def CLOCK_SECOND_def DEFAULT_DATA_RATE_def Let_def)
  obtain t where "s1 = app_ready e0 t"
    using assms unfolding s1_def app_process_def Let_def
    by (cases "relcollect_open None (ae_env e0) (ap_channels s) (ae_channel e0) (ap_node s) 128") simp
  then have s1: "ap_pc s1 = App_Delay1" "ap_interval s1 = 30720" "ap_seq_no s1 = 0" "gs_data_rate (ap_sched s1) = 30"
    using ready by simp_all
  have s2: "ap_pc s2 = App_Delay2" "ap_interval s2 = 30720 + ev_rnd (ae_env e1) 0 mod 3840" "ap_seq_no s2 = 0"
    "gs_data_rate (ap_sched s2) = 30"
    using s1 by (simp_all add: s2_def app_process_def app_timer_def CLOCK_SECOND_def)
  have s3: "ap_pc s3 = App_Send" "ap_interval s3 = 3840" "ap_seq_no s3 = 0" "gs_data_rate (ap_sched s3) = 30"
    using s2 by (simp_all add: s3_def app_process_def app_timer_def CLOCK_SECOND_def reset_energest_def)
  have "app_runs (e0 # e1 # e2 # es) s = s1 # s2 # s3 # app_runs es s3"
    by (simp add: s1_def s2_def s3_def Let_def)
  then show ?thesis
    using app_runs_send [OF s3(1,4), of es] s1 s2 s3 by (simp del: upt_Suc)
qed

definition app_ex :: app where
  "app_ex = \<lparr>ap_pc = App_Begin, ap_interval = 0, ap_expired = False, ap_seq_no = 0, ap_node = node_start 0, ap_channels = [],
     ap_sched = gs_node\<rparr>"

theorem app_paces_witness:
  "map ap_seq_no (app_runs (replicate 6 app_env_ex) app_ex) = [0, 0, 0, 1, 2, 3]"
proof -
  have "ap_pc app_ex = App_Begin" "\<not> IS_SINK (ae_sched app_env_ex)"
    by (simp_all add: app_ex_def app_env_ex_def IS_SINK_def env_node_def SINK_ID_def)
  note p = app_paces [OF this, of app_env_ex app_env_ex "replicate 3 app_env_ex"]
  have six: "replicate 6 app_env_ex = app_env_ex # app_env_ex # app_env_ex # replicate 3 app_env_ex"
    by (simp add: numeral_eq_Suc)
  show ?thesis
    unfolding six using conjunct1 [OF conjunct2 [OF p]] by (simp add: upt_conv_Cons del: upt_Suc app_runs.simps)
qed

end
