(* ===== verification/Adoption.thy ===== *)
theory Adoption
  imports Adaptive_Props
begin

text \<open>
  From the serial port of the sink to the radio of a node: what a reporting phase does to the configuration that was flooded before it.
\<close>

text \<open>In the reporting rounds the configuration is kept; at the end of the phase it is handed to the adaptation process.\<close>

definition reporting :: "glossy_config_struct \<Rightarrow> u8 \<Rightarrow> sched \<Rightarrow> bool" where
  "reporting c q s \<longleftrightarrow> gs_pc s \<in> {Node_Report_Start, Node_Report_Stop} \<and> gs_config s = c \<and> gs_config_seq_no s = q"

definition handed_over :: "glossy_config_struct \<Rightarrow> sched \<Rightarrow> bool" where
  "handed_over c s \<longleftrightarrow> gs_pc s = Node_Period \<and> gs_new_cfg s = \<lparr>cf_t_l = cf_t_l c, cf_t_s = cf_t_s c, cf_n = cf_n c\<rparr> \<and>
     hd (gs_polled s) = Adaptation_Process"

lemma node_report_reporting:
  assumes "gs_config s = c" and "gs_config_seq_no s = q" and "gc_seq_no c \<noteq> q"
  shows "reporting c q (node_report e s) \<or> handed_over c (node_report e s)"
proof (cases "unat (gs_report_idx s) < length (gs_schedule s)")
  case False
  then show ?thesis
    using node_end_config(2) [of s e] assms by (simp add: node_report_def handed_over_def end_keeps)
qed (use assms in \<open>simp add: node_report_def reporting_def\<close>)

lemma wake_reporting:
  assumes "reporting c q s" and "gc_seq_no c \<noteq> q"
  shows "reporting c q (wake evs e s) \<or> handed_over c (wake evs e s)"
proof -
  define s0 where "s0 = s\<lparr>gs_gl := foldl gl_step (gs_gl s) evs, gs_rt := called (gs_timer s) (gs_rt s)\<rparr>"
  have s0: "gs_pc s0 \<in> {Node_Report_Start, Node_Report_Stop}" "gs_config s0 = c" "gs_config_seq_no s0 = q"
    using assms(1) by (simp_all add: reporting_def s0_def)
  have "reporting c q (node_report_start e s0)"
    using s0(2,3) by (simp add: reporting_def node_report_start_def Let_def)
  moreover have "reporting c q (node_report_stop e s0) \<or> handed_over c (node_report_stop e s0)"
    unfolding node_report_stop_def by (cases "glossy_stop (se_now e 6) (gs_gl s0)") (simp add: node_report_reporting s0 assms(2))
  ultimately show ?thesis
    using s0(1) by (auto simp: wake_def s0_def [symmetric] glossy_scheduler_def)
qed

lemma wakes_reporting:
  assumes "reporting c q s" and "gc_seq_no c \<noteq> q" and "\<And>j. j < length ws \<Longrightarrow> gs_pc (wakes (take j ws) s) \<noteq> Node_Period"
  shows "reporting c q (wakes ws s) \<or> handed_over c (wakes ws s)"
  using assms(1,3)
proof (induction ws arbitrary: s)
  case (Cons w ws)
  have w: "wakes (w # l) s = wakes l (wake (fst w) (snd w) s)" for l
    by (simp add: wakes_def case_prod_beta)
  show ?case
  proof (cases "ws = []")
    case True
    then show ?thesis
      using wake_reporting [OF Cons.prems(1) assms(2), of "fst w" "snd w"] by (simp add: w) (simp add: wakes_def)
  next
    case False
    then have "gs_pc (wakes (take 1 (w # ws)) s) \<noteq> Node_Period"
      by (intro Cons.prems(2)) simp
    then have "gs_pc (wake (fst w) (snd w) s) \<noteq> Node_Period"
      by (simp add: w) (simp add: wakes_def)
    then have r: "reporting c q (wake (fst w) (snd w) s)"
      using wake_reporting [OF Cons.prems(1) assms(2), of "fst w" "snd w"] by (simp add: handed_over_def)
    have "gs_pc (wakes (take j ws) (wake (fst w) (snd w) s)) \<noteq> Node_Period" if "j < length ws" for j
      using Cons.prems(2) [of "Suc j"] that by (simp add: w)
    from Cons.IH [OF r this] show ?thesis
      by (simp add: w)
  qed
qed (simp add: wakes_def)

lemma phase_hands_over:
  assumes ph: "report_phase False sch me ws s" and "sch \<noteq> []" and "take 6 (gl_data (foldl gl_step (gs_gl s) (fst (hd ws)))) = config_bytes c"
    and "gc_seq_no c \<noteq> gs_config_seq_no s"
  shows "handed_over c (wakes ws s)"
proof -
  obtain w ws' where ws: "ws = w # ws'"
    using ph by (cases ws) (simp_all add: report_phase_def)
  define s0 where "s0 = s\<lparr>gs_gl := foldl gl_step (gs_gl s) (fst w), gs_rt := called (gs_timer s) (gs_rt s)\<rparr>"
  define s1 where "s1 = wake (fst w) (snd w) s"
  have one: "wakes (take 1 ws) s = s1" and w: "wakes (w # l) s = wakes l s1" for l
    by (simp_all add: s1_def ws wakes_def case_prod_beta)
  have s1: "s1 = node_config (snd w) s0"
    using ph by (simp add: s1_def wake_def s0_def glossy_scheduler_def report_phase_def)
  note pr = phase_rounds [OF ph refl refl]
  have pc: "gs_pc (wakes (take j ws) s) \<in> {Node_Report_Start, Node_Report_Stop}" if "0 < j" "j < length ws" for j
  proof (cases "even j")
    case True
    then have "j = 2 * (j div 2 - 1) + 2"
      using that(1) by (auto elim!: evenE)
    then obtain k where "j = 2 * k + 2"
      by blast
    then show ?thesis
      using pr(2) [of k] ph that by (simp add: report_phase_def during_def pc_stop_def)
  next
    case False
    then obtain k where "j = 2 * k + 1"
      by (rule oddE)
    then show ?thesis
      using pr(1) [of k] ph that by (simp add: report_phase_def between_def pc_start_def)
  qed
  have r1: "reporting c (gs_config_seq_no s) s1"
  proof -
    have l: "length (config_bytes c) = 6"
      by (simp add: config_bytes_def le16_def)
    define g where "g = foldl gl_step (gs_gl s) (fst w)"
    have "take 6 (gl_data g) = config_bytes c"
      using assms(3) by (simp add: g_def ws)
    with l have "bytes_config (gl_data g) = bytes_config (config_bytes c)"
      by (intro bytes_config_take) (simp_all, metis length_take min.absorb_iff2 min.commute)
    then have c: "bytes_config (gl_data g) = c"
      by (simp only: config_roundtrip)
    define u where "u = stop_config (snd w) s0"
    have u: "gs_config u = c" "gs_config_seq_no u = gs_config_seq_no s" "\<not> GLOSSY_IS_BOOTSTRAPPING u"
      using ph c by (simp_all add: u_def stop_config_def s0_def g_def [symmetric] GLOSSY_IS_BOOTSTRAPPING_def report_phase_def split: prod.split)
    obtain v where "s1 = node_report (snd w) v" "gs_config v = c" "gs_config_seq_no v = gs_config_seq_no s"
      using u unfolding s1 node_config_def Let_def u_def [symmetric] if_not_P [OF u(3)] by (cases "GLOSSY_IS_SYNCED u") auto
    then have "reporting c (gs_config_seq_no s) s1 \<or> handed_over c s1"
      using node_report_reporting [of v c "gs_config_seq_no s" "snd w"] assms(4) by simp
    moreover have "gs_pc s1 \<noteq> Node_Period"
      using pc [of 1] assms(2) ph unfolding one by (cases sch) (auto simp: report_phase_def)
    ultimately show ?thesis
      by (auto simp: handed_over_def)
  qed
  have "gs_pc (wakes (take j ws') s1) \<noteq> Node_Period" if "j < length ws'" for j
    using pc [of "Suc j"] that by (auto simp: ws w)
  from wakes_reporting [OF r1 assms(4) this] have "reporting c (gs_config_seq_no s) (wakes ws s) \<or> handed_over c (wakes ws s)"
    by (simp add: ws w)
  moreover have "gs_pc (wakes ws s) = Node_Period"
    using pr(1) [of "length sch"] ph by (simp add: report_phase_def between_def pc_end_def)
  ultimately show ?thesis
    by (auto simp: reporting_def)
qed

text \<open>C1: From the sink's serial port to a node's radio. If a line with times below two seconds is typed at the sink while Glossy is off, and the
  bytes of the sink's configuration reach a node in the next Glossy phase (C1, C2), then at the end of the phase, for any reporting rounds, the node's
  adaptation process is woken, and it runs X-MAC with the typed times, each rounded to the nearest tick, strobing for two on phases and one off phase, and
  the collection protocol with the typed number of retransmissions.\<close>

theorem configuration_adopted:
  assumes "t_l < 2000" and "t_s < 2000" and "n < 256" and "holds [] ser"
    and "ser1 = serial_line_process (typed (config_line t_l t_s n @ [END]) ser)" and "\<not> GLOSSY_IS_ON g"
    and "dissemination_process e (Some (last (sl_posted ser1))) (Ds_Wait, g) = (pc, g1)"
    and "report_phase False sch me ws s" and "sch \<noteq> []"
    and "take 6 (gl_data (foldl gl_step (gs_gl s) (fst (hd ws)))) = config_bytes (gs_config g1)"
    and "gc_seq_no (gs_config g) + 1 \<noteq> gs_config_seq_no s" and "adaptation_process a (wakes ws s, x) = (s1, x1)"
  shows "hd (gs_polled (wakes ws s)) = Adaptation_Process \<and> xm_is_on x1 \<and>
    \<bar>1000 * uint (xc_on_time (xm_config x1)) - 32768 * int t_l\<bar> \<le> 500 \<and>
    \<bar>1000 * uint (xc_off_time (xm_config x1)) - 32768 * int t_s\<bar> \<le> 500 \<and>
    xc_strobe_time (xm_config x1) = 2 * xc_on_time (xm_config x1) + xc_off_time (xm_config x1) \<and>
    unat (cf_n (gs_current_cfg s1)) = n"
proof -
  have g1: "gs_config g1 = \<lparr>cf_t_l = of_nat (nearest t_l), cf_t_s = of_nat (nearest t_s), cf_n = of_nat n, gc_seq_no = gc_seq_no (gs_config g) + 1\<rparr>"
    by (rule typed_config(2) [OF assms(1-7)])
  have "handed_over (gs_config g1) (wakes ws s)"
    by (rule phase_hands_over [OF assms(8-10)]) (use assms(11) g1 in simp)
  then have h: "hd (gs_polled (wakes ws s)) = Adaptation_Process"
    "gs_new_cfg (wakes ws s) = \<lparr>cf_t_l = of_nat (nearest t_l), cf_t_s = of_nat (nearest t_s), cf_n = of_nat n\<rparr>"
    by (simp_all add: handed_over_def g1)
  have "s1 = (wakes ws s)\<lparr>gs_current_cfg := gs_new_cfg (wakes ws s)\<rparr>" "xm_is_on x1" "xm_config x1 = xmac_config_of (gs_new_cfg (wakes ws s)) x"
    using assms(12) by (auto simp: adaptation_process_def set_xmac_config_def turn_on_def)
  then show ?thesis
    using h nearest_tick [OF assms(1)] nearest_tick [OF assms(2)] assms(3) by (simp add: xmac_config_of_def unat8_of_nat)
qed

text \<open>10 and 100 milliseconds, 3 retransmissions: 328 and 3277 ticks, in a packet that the node hears in the configuration flood.\<close>

definition typed_packet :: "u8 list" where
  "typed_packet = [10, 0xFE, 0x48, 1, 0xCD, 0x0C, 3, 1, 0, 0x31, 0x80]"

definition typed_begin :: irq where
  "typed_begin = irq_begin\<lparr>iq_bytes := typed_packet\<rparr>"

definition typed_end :: irq where
  "typed_end = irq_end\<lparr>iq_rest := (\<lambda>i. typed_packet ! (3 + i))\<rparr>"

definition adoption_phase :: "(gl_event list \<times> sched_env) list" where
  "adoption_phase = ([Gl_Irq typed_begin, Gl_Irq typed_end, Gl_Irq typed_begin], env_node 5) # replicate 46 ([], env_node 5)"

theorem configuration_adopted_witness:
  "\<exists>s1 x1. adaptation_process air_ex (wakes adoption_phase (gs_node\<lparr>gs_gl := gl_receiver\<rparr>), xmac_ex) = (s1, x1) \<and>
     uint (xc_on_time (xm_config x1)) = 328 \<and> uint (xc_off_time (xm_config x1)) = 3277 \<and> unat (cf_n (gs_current_cfg s1)) = 3"
proof -
  let ?n = "gs_node\<lparr>gs_gl := gl_receiver\<rparr>"
  let ?ser = "serial_line_init serial_boot"
  have h: "holds [] ?ser"
    using sl_inv_init by (simp add: holds_def serial_line_init_def serial_boot_def serial_line_process_def)
  have off: "\<not> GLOSSY_IS_ON gs_sink"
    by (simp add: GLOSSY_IS_ON_def get_glossy_status_def gs_sink_def gl_boot_inv)
  have b: "(10::nat) < 2000" "(100::nat) < 2000" "(3::nat) < 256"
    by simp_all
  obtain pc g1 where d: "dissemination_process (env_node 200) (Some (last (sl_posted (serial_line_process (typed (config_line 10 100 3 @ [END]) ?ser)))))
      (Ds_Wait, gs_sink) = (pc, g1)"
    by fastforce
  have "gc_seq_no (gs_config gs_sink) = 0" "gs_config_seq_no ?n = 0"
    by (simp_all add: gs_sink_def gs_node_def)
  then have g1: "gs_config g1 = \<lparr>cf_t_l = 328, cf_t_s = 3277, cf_n = 3, gc_seq_no = 1\<rparr>" and q: "gc_seq_no (gs_config gs_sink) + 1 \<noteq> gs_config_seq_no ?n"
    using typed_config(2) [OF b h refl off d] by (simp_all add: nearest_def)
  have ph: "report_phase False schedule_sics (Rimeaddr 5 0) adoption_phase ?n" "schedule_sics \<noteq> []"
    by (simp_all add: report_phase_def adoption_phase_def gs_node_def GLOSSY_IS_BOOTSTRAPPING_def GLOSSY_BOOTSTRAP_PERIODS_def wakes_ok_def
        env_node_def in_the_air_def) (simp_all add: schedule_sics_def)
  have hears: "hears typed_packet typed_begin typed_end gl_receiver" "iq_sfd typed_begin"
    using gl_receiver by (simp_all add: hears_def rx_prefix_def typed_begin_def typed_end_def irq_end_def irq_begin_def typed_packet_def
        GLOSSY_HEADER_def upt_rec)
  have "take 6 (gl_data (snd (timerb1_interrupt typed_begin (receive typed_begin typed_end gl_receiver)))) = take 6 (drop 2 typed_packet)"
    using relay_received [OF gl_receiver(1,2) _ gl_receiver(5) hears refl] gl_receiver by simp
  moreover have "take 6 (drop 2 typed_packet) = config_bytes (gs_config g1)"
    unfolding g1 by code_simp
  ultimately have "take 6 (gl_data (foldl gl_step (gs_gl ?n) (fst (hd adoption_phase)))) = config_bytes (gs_config g1)"
    by (simp add: adoption_phase_def receive_def)
  moreover obtain s1 x1 where a: "adaptation_process air_ex (wakes adoption_phase ?n, xmac_ex) = (s1, x1)"
    by fastforce
  ultimately have "\<bar>1000 * uint (xc_on_time (xm_config x1)) - 327680\<bar> \<le> 500" "\<bar>1000 * uint (xc_off_time (xm_config x1)) - 3276800\<bar> \<le> 500"
    "unat (cf_n (gs_current_cfg s1)) = 3"
    using configuration_adopted [OF b h refl off d ph _ q a] by simp_all
  then show ?thesis
    using a by auto
qed

end
