(* ===== verification/Process.thy ===== *)
theory Process
  imports Contiki_List
begin

text \<open>
  The process kernel, \<open>core/sys/process.c\<close>: the list of processes, the ring of eight events, the poll flags,
  and the delivery of events. The thread of a process is a program over the state of the node: any computation
  that does not call a process (posting events, setting timers, sending) is a state function, and the
  calls that run other processes before they return (\<open>process_post_synch\<close>, \<open>process_start\<close>, \<open>process_exit\<close>)
  are steps of their own. The functions that call each other through the threads
  (\<open>call_process\<close>, \<open>exit_process\<close> and the running thread) are one \<open>partial_function (option)\<close> over a datatype
  of calls, whose value \<open>None\<close> is a call that does not return; each function's body is a definition.
\<close>

section \<open>State\<close>

type_synonym process_event_t = u8
type_synonym process_data_t = "ptr option"

definition PROCESS_EVENT_NONE :: process_event_t where "PROCESS_EVENT_NONE = 0x80"
definition PROCESS_EVENT_INIT :: process_event_t where "PROCESS_EVENT_INIT = 0x81"
definition PROCESS_EVENT_POLL :: process_event_t where "PROCESS_EVENT_POLL = 0x82"
definition PROCESS_EVENT_EXIT :: process_event_t where "PROCESS_EVENT_EXIT = 0x83"
definition PROCESS_EVENT_CONTINUE :: process_event_t where "PROCESS_EVENT_CONTINUE = 0x85"
definition PROCESS_EVENT_EXITED :: process_event_t where "PROCESS_EVENT_EXITED = 0x87"
definition PROCESS_EVENT_TIMER :: process_event_t where "PROCESS_EVENT_TIMER = 0x88"
definition PROCESS_EVENT_MAX :: process_event_t where "PROCESS_EVENT_MAX = 0x8a"

lemmas process_events =
  PROCESS_EVENT_NONE_def PROCESS_EVENT_INIT_def PROCESS_EVENT_POLL_def PROCESS_EVENT_EXIT_def
  PROCESS_EVENT_CONTINUE_def PROCESS_EVENT_EXITED_def PROCESS_EVENT_TIMER_def PROCESS_EVENT_MAX_def

definition PROCESS_STATE_NONE :: u8 where "PROCESS_STATE_NONE = 0"
definition PROCESS_STATE_RUNNING :: u8 where "PROCESS_STATE_RUNNING = 1"
definition PROCESS_STATE_CALLED :: u8 where "PROCESS_STATE_CALLED = 2"

lemmas process_states = PROCESS_STATE_NONE_def PROCESS_STATE_RUNNING_def PROCESS_STATE_CALLED_def

text \<open>What a thread returns (\<open>core/sys/pt.h\<close>).\<close>

definition PT_WAITING :: u8 where "PT_WAITING = 0"
definition PT_YIELDED :: u8 where "PT_YIELDED = 1"
definition PT_EXITED :: u8 where "PT_EXITED = 2"
definition PT_ENDED :: u8 where "PT_ENDED = 3"

lemmas pt_results = PT_WAITING_def PT_YIELDED_def PT_EXITED_def PT_ENDED_def

definition PROCESS_CONF_NUMEVENTS :: u8 where "PROCESS_CONF_NUMEVENTS = 8"

definition PROCESS_ERR_OK :: u16 where "PROCESS_ERR_OK = 0"
definition PROCESS_ERR_FULL :: u16 where "PROCESS_ERR_FULL = 1"

text \<open>A queued event; the receiver \<open>None\<close> is \<open>PROCESS_BROADCAST\<close>, which is \<open>NULL\<close>.\<close>

record event_data =
  ed_ev :: process_event_t
  ed_data :: process_data_t
  ed_p :: "ptr option"

text \<open>
  The variables of the kernel and the fields of the process structures, which are maps from the address of
  the structure. The state of everything else on a node extends this record. \<open>k_lc\<close> is the resume point of the
  process's protothread.
\<close>

record kernel =
  k_list :: "ptr option"
  k_next :: "ptr \<Rightarrow> ptr option"
  k_lc :: "ptr \<Rightarrow> u16"
  k_state :: "ptr \<Rightarrow> u8"
  k_needspoll :: "ptr \<Rightarrow> bool"
  k_current :: "ptr option"
  k_lastevent :: process_event_t
  k_nevents :: u8
  k_fevent :: u8
  k_events :: "event_data list"
  k_poll_requested :: bool

section \<open>Events and polls\<close>

definition process_init :: "'m kernel_scheme \<Rightarrow> 'm kernel_scheme" where
  "process_init s =
     s\<lparr>k_lastevent := PROCESS_EVENT_MAX, k_nevents := 0, k_fevent := 0, k_current := None, k_list := None\<rparr>"

definition process_alloc_event :: "'m kernel_scheme \<Rightarrow> process_event_t \<times> 'm kernel_scheme" where
  "process_alloc_event s = (k_lastevent s, s\<lparr>k_lastevent := k_lastevent s + 1\<rparr>)"

definition process_post ::
  "ptr option \<Rightarrow> process_event_t \<Rightarrow> process_data_t \<Rightarrow> 'm kernel_scheme \<Rightarrow> u16 \<times> 'm kernel_scheme" where
  "process_post p ev dat s =
     (if k_nevents s = PROCESS_CONF_NUMEVENTS then (PROCESS_ERR_FULL, s)
      else let snum = (k_fevent s + k_nevents s) mod PROCESS_CONF_NUMEVENTS
           in (PROCESS_ERR_OK,
               s\<lparr>k_events := (k_events s)[unat snum := \<lparr>ed_ev = ev, ed_data = dat, ed_p = p\<rparr>],
                 k_nevents := k_nevents s + 1\<rparr>))"

definition process_poll :: "ptr option \<Rightarrow> 'm kernel_scheme \<Rightarrow> 'm kernel_scheme" where
  "process_poll po s =
     (case po of
        None \<Rightarrow> s
      | Some p \<Rightarrow>
          if k_state s p = PROCESS_STATE_RUNNING \<or> k_state s p = PROCESS_STATE_CALLED
          then s\<lparr>k_needspoll := (k_needspoll s)(p := True), k_poll_requested := True\<rparr>
          else s)"

definition process_is_running :: "ptr \<Rightarrow> 'm kernel_scheme \<Rightarrow> bool" where
  "process_is_running p s \<longleftrightarrow> k_state s p \<noteq> PROCESS_STATE_NONE"

definition process_nevents :: "'m kernel_scheme \<Rightarrow> u16" where
  "process_nevents s = ucast (k_nevents s) + of_bool (k_poll_requested s)"

section \<open>Threads and the calls that run them\<close>

text \<open>
  A thread between being called and returning: it returns a value of \<open>pt.h\<close>; or computes on the state (\<open>None\<close> is
  a computation that does not return) and goes on as a function of what it finds; or posts an event synchronously,
  starts a process or lets one exit, and goes on afterwards.
\<close>

datatype 's thread =
  Return u8
| Compute "'s \<Rightarrow> ('s \<times> 's thread) option"
| Post_Synch ptr process_event_t process_data_t "'s thread"
| Start ptr process_data_t "'s thread"
| Exit ptr "'s thread"

type_synonym 's threads = "ptr \<Rightarrow> (process_event_t \<Rightarrow> process_data_t \<Rightarrow> 's thread) option"

text \<open>The calls the kernel's functions make to each other: \<open>Notify p q\<close> is the loop of \<open>exit_process(p)\<close> from \<open>q\<close> on.\<close>

datatype 's kcall =
  Call ptr process_event_t process_data_t
| Exit_Process ptr "ptr option"
| Notify ptr "ptr option"
| Run "'s thread"

text \<open>The loop of \<open>process_start\<close> that looks for the process on the list.\<close>

partial_function (option) find_from :: "(ptr \<Rightarrow> ptr option) \<Rightarrow> ptr \<Rightarrow> ptr option \<Rightarrow> bool option" where
  "find_from nx p q = (if q = Some p then Some True
                       else case q of None \<Rightarrow> Some False | Some r \<Rightarrow> find_from nx p (nx r))"

definition process_link :: "ptr \<Rightarrow> 'm kernel_scheme \<Rightarrow> 'm kernel_scheme" where
  "process_link p s =
     s\<lparr>k_next := (k_next s)(p := k_list s), k_list := Some p,
       k_state := (k_state s)(p := PROCESS_STATE_RUNNING), k_lc := (k_lc s)(p := 0)\<rparr>"

text \<open>The end of \<open>exit_process\<close>: the process is taken off the list.\<close>

partial_function (option) unlink_from :: "(ptr \<Rightarrow> ptr option) \<Rightarrow> ptr \<Rightarrow> ptr option \<Rightarrow> (ptr \<Rightarrow> ptr option) option" where
  "unlink_from nx p q = (case q of
                           None \<Rightarrow> Some nx
                         | Some r \<Rightarrow> if nx r = Some p then Some (nx(r := nx p)) else unlink_from nx p (nx r))"

definition process_unlink :: "ptr \<Rightarrow> 'm kernel_scheme \<Rightarrow> 'm kernel_scheme option" where
  "process_unlink p s =
     (if k_list s = Some p then Some (s\<lparr>k_list := k_next s p\<rparr>)
      else map_option (\<lambda>nx. s\<lparr>k_next := nx\<rparr>) (unlink_from (k_next s) p (k_list s)))"

text \<open>The functions, with the calls they make as a parameter.\<close>

definition call_body ::
  "'m kernel_scheme threads \<Rightarrow> ('m kernel_scheme kcall \<times> 'm kernel_scheme \<Rightarrow> (u8 \<times> 'm kernel_scheme) option)
     \<Rightarrow> ptr \<Rightarrow> process_event_t \<Rightarrow> process_data_t \<Rightarrow> 'm kernel_scheme \<Rightarrow> (u8 \<times> 'm kernel_scheme) option" where
  "call_body thr rec p ev dat s =
     (if k_state s p AND PROCESS_STATE_RUNNING \<noteq> 0 \<and> thr p \<noteq> None
      then Option.bind
             (rec (Run (the (thr p) ev dat),
                   s\<lparr>k_current := Some p, k_state := (k_state s)(p := PROCESS_STATE_CALLED)\<rparr>))
             (\<lambda>r. if fst r = PT_EXITED \<or> fst r = PT_ENDED \<or> ev = PROCESS_EVENT_EXIT
                  then rec (Exit_Process p (Some p), snd r)
                  else Some (0, (snd r)\<lparr>k_state := (k_state (snd r))(p := PROCESS_STATE_RUNNING)\<rparr>))
      else Some (0, s))"

definition exit_body ::
  "'m kernel_scheme threads \<Rightarrow> ('m kernel_scheme kcall \<times> 'm kernel_scheme \<Rightarrow> (u8 \<times> 'm kernel_scheme) option)
     \<Rightarrow> ptr \<Rightarrow> ptr option \<Rightarrow> 'm kernel_scheme \<Rightarrow> (u8 \<times> 'm kernel_scheme) option" where
  "exit_body thr rec p from s =
     Option.bind
       (if process_is_running p s
        then Option.bind
               (rec (Notify p (k_list s), s\<lparr>k_state := (k_state s)(p := PROCESS_STATE_NONE)\<rparr>))
               (\<lambda>r. if thr p \<noteq> None \<and> Some p \<noteq> from
                    then rec (Run (the (thr p) PROCESS_EVENT_EXIT None), (snd r)\<lparr>k_current := Some p\<rparr>)
                    else Some r)
        else Some (0, s))
       (\<lambda>r. map_option (\<lambda>s'. (0, s'\<lparr>k_current := k_current s\<rparr>)) (process_unlink p (snd r)))"

definition notify_body ::
  "('m kernel_scheme kcall \<times> 'm kernel_scheme \<Rightarrow> (u8 \<times> 'm kernel_scheme) option)
     \<Rightarrow> ptr \<Rightarrow> ptr option \<Rightarrow> 'm kernel_scheme \<Rightarrow> (u8 \<times> 'm kernel_scheme) option" where
  "notify_body rec p qo s =
     (case qo of
        None \<Rightarrow> Some (0, s)
      | Some q \<Rightarrow>
          Option.bind (if p \<noteq> q then rec (Call q PROCESS_EVENT_EXITED (Some p), s) else Some (0, s))
            (\<lambda>r. rec (Notify p (k_next (snd r) q), snd r)))"

text \<open>\<open>process_post_synch\<close>, \<open>process_start\<close> and \<open>process_exit\<close>, called by a thread or from outside.\<close>

definition post_synch_body ::
  "('m kernel_scheme kcall \<times> 'm kernel_scheme \<Rightarrow> (u8 \<times> 'm kernel_scheme) option)
     \<Rightarrow> ptr \<Rightarrow> process_event_t \<Rightarrow> process_data_t \<Rightarrow> 'm kernel_scheme \<Rightarrow> 'm kernel_scheme option" where
  "post_synch_body rec p ev dat s =
     map_option (\<lambda>r. (snd r)\<lparr>k_current := k_current s\<rparr>) (rec (Call p ev dat, s))"

definition start_body ::
  "('m kernel_scheme kcall \<times> 'm kernel_scheme \<Rightarrow> (u8 \<times> 'm kernel_scheme) option)
     \<Rightarrow> ptr \<Rightarrow> process_data_t \<Rightarrow> 'm kernel_scheme \<Rightarrow> 'm kernel_scheme option" where
  "start_body rec p arg s =
     Option.bind (find_from (k_next s) p (k_list s))
       (\<lambda>found. if found then Some s
                else post_synch_body rec p PROCESS_EVENT_INIT arg (process_link p s))"

definition exit_call_body ::
  "('m kernel_scheme kcall \<times> 'm kernel_scheme \<Rightarrow> (u8 \<times> 'm kernel_scheme) option)
     \<Rightarrow> ptr \<Rightarrow> 'm kernel_scheme \<Rightarrow> 'm kernel_scheme option" where
  "exit_call_body rec p s = map_option snd (rec (Exit_Process p (k_current s), s))"

definition run_body ::
  "('m kernel_scheme kcall \<times> 'm kernel_scheme \<Rightarrow> (u8 \<times> 'm kernel_scheme) option)
     \<Rightarrow> 'm kernel_scheme thread \<Rightarrow> 'm kernel_scheme \<Rightarrow> (u8 \<times> 'm kernel_scheme) option" where
  "run_body rec t s =
     (case t of
        Return ret \<Rightarrow> Some (ret, s)
      | Compute f \<Rightarrow> Option.bind (f s) (\<lambda>r. rec (Run (snd r), fst r))
      | Post_Synch p ev dat t' \<Rightarrow> Option.bind (post_synch_body rec p ev dat s) (\<lambda>s'. rec (Run t', s'))
      | Start p arg t' \<Rightarrow> Option.bind (start_body rec p arg s) (\<lambda>s'. rec (Run t', s'))
      | Exit p t' \<Rightarrow> Option.bind (exit_call_body rec p s) (\<lambda>s'. rec (Run t', s')))"

definition kcall_body ::
  "'m kernel_scheme threads \<Rightarrow> ('m kernel_scheme kcall \<times> 'm kernel_scheme \<Rightarrow> (u8 \<times> 'm kernel_scheme) option)
     \<Rightarrow> 'm kernel_scheme kcall \<Rightarrow> 'm kernel_scheme \<Rightarrow> (u8 \<times> 'm kernel_scheme) option" where
  "kcall_body thr rec c s =
     (case c of
        Call p ev dat \<Rightarrow> call_body thr rec p ev dat s
      | Exit_Process p from \<Rightarrow> exit_body thr rec p from s
      | Notify p q \<Rightarrow> notify_body rec p q s
      | Run t \<Rightarrow> run_body rec t s)"

lemma map_option_mono [partial_function_mono]:
  "mono_option F \<Longrightarrow> mono_option (\<lambda>f. map_option g (F f))"
  unfolding map_conv_bind_option by (intro partial_function_mono)

lemma post_synch_body_mono [partial_function_mono]: "mono_option (\<lambda>f. post_synch_body f p ev dat s)"
  unfolding post_synch_body_def by (intro partial_function_mono)

lemma start_body_mono [partial_function_mono]: "mono_option (\<lambda>f. start_body f p arg s)"
  unfolding start_body_def by (intro partial_function_mono)

lemma exit_call_body_mono [partial_function_mono]: "mono_option (\<lambda>f. exit_call_body f p s)"
  unfolding exit_call_body_def by (intro partial_function_mono)

lemma call_body_mono [partial_function_mono]: "mono_option (\<lambda>f. call_body thr f p ev dat s)"
  unfolding call_body_def by (intro partial_function_mono)

lemma exit_body_mono [partial_function_mono]: "mono_option (\<lambda>f. exit_body thr f p from s)"
  unfolding exit_body_def by (intro partial_function_mono)

lemma notify_body_mono [partial_function_mono]: "mono_option (\<lambda>f. notify_body f p q s)"
  unfolding notify_body_def by (cases q; simp; intro partial_function_mono)

lemma run_body_mono [partial_function_mono]: "mono_option (\<lambda>f. run_body f t s)"
  unfolding run_body_def by (cases t; simp; intro partial_function_mono)

lemma kcall_body_mono [partial_function_mono]: "mono_option (\<lambda>f. kcall_body thr f c s)"
  unfolding kcall_body_def by (cases c; simp; intro partial_function_mono)

lemma kcall_body_curry_mono [partial_function_mono]:
  fixes thr :: "'m kernel_scheme threads" and thr' :: 't
  shows "mono_option (\<lambda>f. kcall_body thr (\<lambda>cs. f (thr', cs)) c s)"
proof (rule monotoneI)
  fix f g :: "'t \<times> 'm kernel_scheme kcall \<times> 'm kernel_scheme \<Rightarrow> (u8 \<times> 'm kernel_scheme) option"
  assume "option.le_fun f g"
  then have "option.le_fun (\<lambda>cs. f (thr', cs)) (\<lambda>cs. g (thr', cs))"
    by (simp add: fun_ord_def)
  then show "option_ord (kcall_body thr (\<lambda>cs. f (thr', cs)) c s) (kcall_body thr (\<lambda>cs. g (thr', cs)) c s)"
    by (rule monotoneD [OF kcall_body_mono])
qed

partial_function (option) kernel_call ::
  "'m kernel_scheme threads \<Rightarrow> 'm kernel_scheme kcall \<times> 'm kernel_scheme \<Rightarrow> (u8 \<times> 'm kernel_scheme) option" where
  "kernel_call thr cs = kcall_body thr (kernel_call thr) (fst cs) (snd cs)"

definition call_process ::
  "'m kernel_scheme threads \<Rightarrow> ptr \<Rightarrow> process_event_t \<Rightarrow> process_data_t \<Rightarrow> 'm kernel_scheme \<Rightarrow> 'm kernel_scheme option" where
  "call_process thr p ev dat s = map_option snd (kernel_call thr (Call p ev dat, s))"

definition process_post_synch ::
  "'m kernel_scheme threads \<Rightarrow> ptr \<Rightarrow> process_event_t \<Rightarrow> process_data_t \<Rightarrow> 'm kernel_scheme \<Rightarrow> 'm kernel_scheme option" where
  "process_post_synch thr = post_synch_body (kernel_call thr)"

definition process_start ::
  "'m kernel_scheme threads \<Rightarrow> ptr \<Rightarrow> process_data_t \<Rightarrow> 'm kernel_scheme \<Rightarrow> 'm kernel_scheme option" where
  "process_start thr = start_body (kernel_call thr)"

definition process_exit ::
  "'m kernel_scheme threads \<Rightarrow> ptr \<Rightarrow> 'm kernel_scheme \<Rightarrow> 'm kernel_scheme option" where
  "process_exit thr = exit_call_body (kernel_call thr)"

section \<open>The scheduler\<close>

definition poll_begin :: "ptr \<Rightarrow> 'm kernel_scheme \<Rightarrow> 'm kernel_scheme" where
  "poll_begin p s =
     s\<lparr>k_state := (k_state s)(p := PROCESS_STATE_RUNNING), k_needspoll := (k_needspoll s)(p := False)\<rparr>"

partial_function (option) do_poll_from ::
  "'m kernel_scheme threads \<Rightarrow> ptr option \<Rightarrow> 'm kernel_scheme \<Rightarrow> 'm kernel_scheme option" where
  "do_poll_from thr po s =
     (case po of
        None \<Rightarrow> Some s
      | Some p \<Rightarrow>
          Option.bind (if k_needspoll s p then call_process thr p PROCESS_EVENT_POLL None (poll_begin p s) else Some s)
            (\<lambda>s'. do_poll_from thr (k_next s' p) s'))"

definition do_poll :: "'m kernel_scheme threads \<Rightarrow> 'm kernel_scheme \<Rightarrow> 'm kernel_scheme option" where
  "do_poll thr s = do_poll_from thr (k_list s) (s\<lparr>k_poll_requested := False\<rparr>)"

text \<open>A broadcast event: \<open>do_event\<close>'s loop, which polls in between.\<close>

partial_function (option) broadcast_from ::
  "'m kernel_scheme threads \<Rightarrow> process_event_t \<Rightarrow> process_data_t \<Rightarrow> ptr option \<Rightarrow> 'm kernel_scheme \<Rightarrow> 'm kernel_scheme option" where
  "broadcast_from thr ev dat po s =
     (case po of
        None \<Rightarrow> Some s
      | Some p \<Rightarrow>
          Option.bind (if k_poll_requested s then do_poll thr s else Some s)
            (\<lambda>s1. Option.bind (call_process thr p ev dat s1)
              (\<lambda>s2. broadcast_from thr ev dat (k_next s2 p) s2)))"

definition do_event :: "'m kernel_scheme threads \<Rightarrow> 'm kernel_scheme \<Rightarrow> 'm kernel_scheme option" where
  "do_event thr s =
     (if k_nevents s > 0
      then let e = k_events s ! unat (k_fevent s);
               s1 = s\<lparr>k_fevent := (k_fevent s + 1) mod PROCESS_CONF_NUMEVENTS, k_nevents := k_nevents s - 1\<rparr>
           in (case ed_p e of
                 None \<Rightarrow> broadcast_from thr (ed_ev e) (ed_data e) (k_list s1) s1
               | Some p \<Rightarrow>
                   let s2 = (if ed_ev e = PROCESS_EVENT_INIT
                             then s1\<lparr>k_state := (k_state s1)(p := PROCESS_STATE_RUNNING)\<rparr> else s1)
                   in call_process thr p (ed_ev e) (ed_data e) s2)
      else Some s)"

definition process_run :: "'m kernel_scheme threads \<Rightarrow> 'm kernel_scheme \<Rightarrow> (u16 \<times> 'm kernel_scheme) option" where
  "process_run thr s =
     Option.bind (if k_poll_requested s then do_poll thr s else Some s)
       (\<lambda>s1. map_option (\<lambda>s2. (process_nevents s2, s2)) (do_event thr s1))"

end
