(* ===== verification/Process_Inv.thy ===== *)
theory Process_Inv
  imports Process
begin

text \<open>
  What the kernel keeps: the rules of the calls, the invariants of threads that respect a state's invariant,
  and the interface \<open>kernel_client\<close> through which the other components get their own invariants past the kernel.
\<close>

section \<open>The calls one by one\<close>

definition run_thread ::
  "'m kernel_scheme threads \<Rightarrow> 'm kernel_scheme thread \<Rightarrow> 'm kernel_scheme \<Rightarrow> (u8 \<times> 'm kernel_scheme) option" where
  "run_thread thr t s = kernel_call thr (Run t, s)"

lemma run_thread_simps [contiki_simps]:
  "run_thread thr (Return r) s = Some (r, s)"
  "run_thread thr (Compute f) s = Option.bind (f s) (\<lambda>r. run_thread thr (snd r) (fst r))"
  "run_thread thr (Post_Synch p ev dat t) s =
     Option.bind (process_post_synch thr p ev dat s) (run_thread thr t)"
  "run_thread thr (Start p arg t) s = Option.bind (process_start thr p arg s) (run_thread thr t)"
  "run_thread thr (Exit p t) s = Option.bind (process_exit thr p s) (run_thread thr t)"
  by (simp_all add: run_thread_def kernel_call.simps kcall_body_def run_body_def process_post_synch_def
      process_start_def process_exit_def fun_eq_iff cong: bind_option_cong)

lemma call_process_eq:
  "call_process thr p ev dat s =
     (if k_state s p AND PROCESS_STATE_RUNNING \<noteq> 0 \<and> thr p \<noteq> None
      then Option.bind
             (run_thread thr (the (thr p) ev dat)
                (s\<lparr>k_current := Some p, k_state := (k_state s)(p := PROCESS_STATE_CALLED)\<rparr>))
             (\<lambda>r. if fst r = PT_EXITED \<or> fst r = PT_ENDED \<or> ev = PROCESS_EVENT_EXIT
                  then map_option snd (kernel_call thr (Exit_Process p (Some p), snd r))
                  else Some ((snd r)\<lparr>k_state := (k_state (snd r))(p := PROCESS_STATE_RUNNING)\<rparr>))
      else Some s)"
  unfolding call_process_def run_thread_def
  by (subst kernel_call.simps)
     (simp add: kcall_body_def call_body_def map_option_bind o_def if_distrib cong: if_cong)

section \<open>Threads that keep an invariant\<close>

text \<open>
  \<open>keeps I ex t\<close>: every computation of the thread, which is made in the name of a process, keeps \<open>I\<close>, whatever happens
  in the calls in between; and unless
  \<open>ex\<close>, it does not exit, nor make another process exit, nor post the events of an exit.
\<close>

definition exit_event :: "process_event_t \<Rightarrow> bool" where
  "exit_event ev \<longleftrightarrow> ev = PROCESS_EVENT_EXIT \<or> ev = PROCESS_EVENT_EXITED"

inductive keeps :: "('m kernel_scheme \<Rightarrow> bool) \<Rightarrow> bool \<Rightarrow> 'm kernel_scheme thread \<Rightarrow> bool" for I ex where
  keeps_Return: "ex \<or> r \<noteq> PT_EXITED \<and> r \<noteq> PT_ENDED \<Longrightarrow> keeps I ex (Return r)"
| keeps_Compute: "(\<And>s s' t. I s \<Longrightarrow> k_current s \<noteq> None \<Longrightarrow> f s = Some (s', t) \<Longrightarrow>
                     I s' \<and> k_current s' \<noteq> None \<and> keeps I ex t) \<Longrightarrow> keeps I ex (Compute f)"
| keeps_Post_Synch: "ex \<or> \<not> exit_event ev \<Longrightarrow> keeps I ex t \<Longrightarrow> keeps I ex (Post_Synch p ev dat t)"
| keeps_Start: "keeps I ex t \<Longrightarrow> keeps I ex (Start p arg t)"
| keeps_Exit: "ex \<Longrightarrow> keeps I ex t \<Longrightarrow> keeps I ex (Exit p t)"

inductive_simps keeps_simps [contiki_simps]:
  "keeps I ex (Return r)" "keeps I ex (Compute f)" "keeps I ex (Post_Synch p ev dat t)"
  "keeps I ex (Start p arg t)" "keeps I ex (Exit p t)"

text \<open>
  The client of the kernel: its threads keep \<open>I\<close>, and so do the kernel's own writes to its variables: the current
  process, the process states, the list, and the event it takes from the queue.
\<close>

locale kernel_client =
  fixes thr :: "'m kernel_scheme threads"
    and I :: "'m kernel_scheme \<Rightarrow> bool"
    and ex :: bool
  assumes thread_keeps: "thr p = Some g \<Longrightarrow> ex \<or> \<not> exit_event ev \<Longrightarrow> keeps I ex (g ev dat)"
    and I_current: "I s \<Longrightarrow> I (s\<lparr>k_current := c\<rparr>)"
    and I_state: "I s \<Longrightarrow> x = PROCESS_STATE_RUNNING \<or> x = PROCESS_STATE_CALLED \<Longrightarrow> I (s\<lparr>k_state := (k_state s)(p := x)\<rparr>)"
    and I_none: "I s \<Longrightarrow> ex \<Longrightarrow> I (s\<lparr>k_state := (k_state s)(p := PROCESS_STATE_NONE)\<rparr>)"
    and I_link: "I s \<Longrightarrow> find_from (k_next s) p (k_list s) = Some False \<Longrightarrow> I (process_link p s)"
    and I_unlink: "I s \<Longrightarrow> ex \<Longrightarrow> process_unlink p s = Some s' \<Longrightarrow> I s'"
begin

definition allowed :: "'m kernel_scheme kcall \<Rightarrow> 'm kernel_scheme \<Rightarrow> bool" where
  "allowed c s = (case c of
     Call p ev dat \<Rightarrow> ex \<or> \<not> exit_event ev
   | Exit_Process p from \<Rightarrow> ex
   | Notify p q \<Rightarrow> ex
   | Run t \<Rightarrow> k_current s \<noteq> None \<and> keeps I ex t)"

definition call_kept :: "'m kernel_scheme kcall \<Rightarrow> 'm kernel_scheme \<Rightarrow> u8 \<times> 'm kernel_scheme \<Rightarrow> bool" where
  "call_kept c s r \<longleftrightarrow> I (snd r) \<and> (\<forall>t. c = Run t \<longrightarrow> ex \<or> fst r \<noteq> PT_EXITED \<and> fst r \<noteq> PT_ENDED)
     \<and> (\<forall>p fr. c = Exit_Process p fr \<longrightarrow> k_current (snd r) = k_current s)"

definition keeping :: "('m kernel_scheme kcall \<times> 'm kernel_scheme \<Rightarrow> (u8 \<times> 'm kernel_scheme) option) \<Rightarrow> bool" where
  "keeping rec \<longleftrightarrow> (\<forall>c s r. rec (c, s) = Some r \<longrightarrow> I s \<longrightarrow> allowed c s \<longrightarrow> call_kept c s r)"

lemma keepingD: "keeping rec \<Longrightarrow> rec (c, s) = Some r \<Longrightarrow> I s \<Longrightarrow> allowed c s \<Longrightarrow> call_kept c s r"
  unfolding keeping_def by blast

lemma keeping_I: "keeping rec \<Longrightarrow> rec (c, s) = Some r \<Longrightarrow> I s \<Longrightarrow> allowed c s \<Longrightarrow> I (snd r)"
  using keepingD call_kept_def by blast

lemma allowed_intros:
  "ex \<or> \<not> exit_event ev \<Longrightarrow> allowed (Call p ev dat) s"
  "ex \<Longrightarrow> allowed (Exit_Process p from) s"
  "ex \<Longrightarrow> allowed (Notify p q) s"
  "k_current s \<noteq> None \<Longrightarrow> keeps I ex t \<Longrightarrow> allowed (Run t) s"
  unfolding allowed_def by simp_all

lemma call_body_kept:
  assumes rec: "keeping rec" and ret: "call_body thr rec p ev dat s = Some r" and I: "I s"
    and ev: "ex \<or> \<not> exit_event ev"
  shows "I (snd r)"
proof (cases "k_state s p AND PROCESS_STATE_RUNNING \<noteq> 0 \<and> thr p \<noteq> None")
  case True
  then obtain g where g: "thr p = Some g" by auto
  let ?s1 = "s\<lparr>k_current := Some p, k_state := (k_state s)(p := PROCESS_STATE_CALLED)\<rparr>"
  have I1: "I ?s1"
    using I_state [OF I_current [OF I, of "Some p"], of PROCESS_STATE_CALLED p] by simp
  from ret True g obtain q where q: "rec (Run (g ev dat), ?s1) = Some q"
    and r: "(if fst q = PT_EXITED \<or> fst q = PT_ENDED \<or> ev = PROCESS_EVENT_EXIT
             then rec (Exit_Process p (Some p), snd q)
             else Some (0, (snd q)\<lparr>k_state := (k_state (snd q))(p := PROCESS_STATE_RUNNING)\<rparr>)) = Some r"
    by (auto simp: call_body_def bind_eq_Some_conv)
  have "call_kept (Run (g ev dat)) ?s1 q"
    using keepingD [OF rec q I1] thread_keeps [OF g ev] by (simp add: allowed_def)
  then have k: "I (snd q)" "ex \<or> fst q \<noteq> PT_EXITED \<and> fst q \<noteq> PT_ENDED"
    by (auto simp: call_kept_def)
  show ?thesis
  proof (cases "fst q = PT_EXITED \<or> fst q = PT_ENDED \<or> ev = PROCESS_EVENT_EXIT")
    case True
    with k ev have ex by (auto simp: exit_event_def)
    from True r have "rec (Exit_Process p (Some p), snd q) = Some r" by simp
    from keeping_I [OF rec this k(1) allowed_intros(2) [OF \<open>ex\<close>]] show ?thesis .
  next
    case False
    with r have "r = (0, (snd q)\<lparr>k_state := (k_state (snd q))(p := PROCESS_STATE_RUNNING)\<rparr>)"
      by auto
    with I_state [OF k(1)] show ?thesis by simp
  qed
next
  case False
  with ret I show ?thesis by (auto simp: call_body_def)
qed

lemma notify_body_kept:
  assumes rec: "keeping rec" and ret: "notify_body rec p q s = Some r" and I: "I s" and ex
  shows "I (snd r)"
proof (cases q)
  case (Some q')
  with ret obtain u where u: "(if p \<noteq> q' then rec (Call q' PROCESS_EVENT_EXITED (Some p), s) else Some (0, s)) = Some u"
    and r: "rec (Notify p (k_next (snd u) q'), snd u) = Some r"
    by (auto simp: notify_body_def bind_eq_Some_conv)
  have "I (snd u)"
    using u I keeping_I [OF rec _ I allowed_intros(1) [OF disjI1 [OF \<open>ex\<close>]]] by (auto split: if_splits)
  from keeping_I [OF rec r this allowed_intros(3) [OF \<open>ex\<close>]] show ?thesis .
qed (use ret I in \<open>auto simp: notify_body_def\<close>)

lemma exit_body_kept:
  assumes rec: "keeping rec" and ret: "exit_body thr rec p from s = Some r" and I: "I s" and ex
  shows "I (snd r) \<and> k_current (snd r) = k_current s"
proof -
  from ret obtain u s' where u: "(if process_is_running p s
        then Option.bind
               (rec (Notify p (k_list s), s\<lparr>k_state := (k_state s)(p := PROCESS_STATE_NONE)\<rparr>))
               (\<lambda>r. if thr p \<noteq> None \<and> Some p \<noteq> from
                    then rec (Run (the (thr p) PROCESS_EVENT_EXIT None), (snd r)\<lparr>k_current := Some p\<rparr>)
                    else Some r)
        else Some (0, s)) = Some u"
    and s': "process_unlink p (snd u) = Some s'" and r: "r = (0, s'\<lparr>k_current := k_current s\<rparr>)"
    by (auto simp: exit_body_def bind_eq_Some_conv)
  have "I (snd u)"
  proof (cases "process_is_running p s")
    case True
    with u obtain w where w: "rec (Notify p (k_list s), s\<lparr>k_state := (k_state s)(p := PROCESS_STATE_NONE)\<rparr>) = Some w"
      and u': "(if thr p \<noteq> None \<and> Some p \<noteq> from
                    then rec (Run (the (thr p) PROCESS_EVENT_EXIT None), (snd w)\<lparr>k_current := Some p\<rparr>)
                    else Some w) = Some u"
      by (auto simp: bind_eq_Some_conv)
    have Iw: "I (snd w)"
      by (rule keeping_I [OF rec w I_none [OF I \<open>ex\<close>] allowed_intros(3) [OF \<open>ex\<close>]])
    show ?thesis
    proof (cases "thr p \<noteq> None \<and> Some p \<noteq> from")
      case True
      then obtain g where g: "thr p = Some g" by auto
      from True u' g have "rec (Run (g PROCESS_EVENT_EXIT None), (snd w)\<lparr>k_current := Some p\<rparr>) = Some u"
        by simp
      from keeping_I [OF rec this I_current [OF Iw] allowed_intros(4) [OF _ thread_keeps [OF g disjI1 [OF \<open>ex\<close>]]]]
      show ?thesis by simp
    next
      case False
      with u' have "Some w = Some u" by (simp only: if_False)
      with Iw show ?thesis by simp
    qed
  next
    case False
    with u I show ?thesis by auto
  qed
  from I_unlink [OF this \<open>ex\<close> s'] r show ?thesis
    by (simp add: I_current)
qed

lemma post_synch_body_kept:
  assumes rec: "keeping rec" and ret: "post_synch_body rec p ev dat s = Some s'" and I: "I s"
    and ev: "ex \<or> \<not> exit_event ev"
  shows "I s'"
proof -
  from ret obtain r where r: "rec (Call p ev dat, s) = Some r" and s': "s' = (snd r)\<lparr>k_current := k_current s\<rparr>"
    by (auto simp: post_synch_body_def)
  have "I (snd r)"
    by (rule keeping_I [OF rec r I allowed_intros(1) [OF ev]])
  with s' show ?thesis by (simp add: I_current)
qed

lemma init_not_exit: "\<not> exit_event PROCESS_EVENT_INIT"
  by (simp add: exit_event_def process_events)

lemma start_body_kept:
  assumes rec: "keeping rec" and ret: "start_body rec p arg s = Some s'" and I: "I s"
  shows "I s'"
proof -
  from ret obtain found where f: "find_from (k_next s) p (k_list s) = Some found"
    and s': "(if found then Some s else post_synch_body rec p PROCESS_EVENT_INIT arg (process_link p s)) = Some s'"
    by (auto simp: start_body_def bind_eq_Some_conv)
  show ?thesis
  proof (cases found)
    case False
    with s' have "post_synch_body rec p PROCESS_EVENT_INIT arg (process_link p s) = Some s'" by simp
    from post_synch_body_kept [OF rec this I_link [OF I]] f False init_not_exit show ?thesis by auto
  qed (use s' I in auto)
qed

lemma exit_call_body_kept:
  assumes rec: "keeping rec" and ret: "exit_call_body rec p s = Some s'" and I: "I s" and ex
  shows "I s'"
  using keeping_I [OF rec _ I allowed_intros(2) [OF \<open>ex\<close>]] ret by (force simp: exit_call_body_def)

lemma post_synch_current: "post_synch_body rec p ev dat s = Some s' \<Longrightarrow> k_current s' = k_current s"
  by (auto simp: post_synch_body_def)

lemma start_current: "start_body rec p arg s = Some s' \<Longrightarrow> k_current s' = k_current s"
  by (auto simp: start_body_def bind_eq_Some_conv process_link_def dest: post_synch_current split: if_splits)

lemma exit_call_current:
  assumes "keeping rec" and "exit_call_body rec p s = Some s'" and "I s" and ex
  shows "k_current s' = k_current s"
proof -
  from assms(2) obtain r where r: "rec (Exit_Process p (k_current s), s) = Some r" "s' = snd r"
    by (auto simp: exit_call_body_def)
  from keepingD [OF assms(1) r(1) assms(3) allowed_intros(2) [OF assms(4)]] r(2) show ?thesis
    by (simp add: call_kept_def)
qed

lemma run_body_kept:
  assumes rec: "keeping rec" and ret: "run_body rec t s = Some r" and I: "I s" and t: "keeps I ex t"
    and cur: "k_current s \<noteq> None"
  shows "call_kept (Run t) s r"
proof -
  have step: "call_kept (Run t) s r" if "rec (Run t', s') = Some r" "I s'" "keeps I ex t'" "k_current s' \<noteq> None" for t' s'
    using keepingD [OF rec that(1,2)] that(3,4) by (simp add: allowed_def call_kept_def)
  show ?thesis
  proof (cases t)
    case (Return x)
    with ret I t show ?thesis
      by (auto simp: run_body_def call_kept_def keeps_simps)
  next
    case (Compute f)
    with ret obtain u where u: "f s = Some u" "rec (Run (snd u), fst u) = Some r"
      by (auto simp: run_body_def bind_eq_Some_conv)
    have "f s = Some (fst u, snd u)"
      using u(1) by simp
    then have "I (fst u) \<and> k_current (fst u) \<noteq> None \<and> keeps I ex (snd u)"
      using t [unfolded Compute keeps_simps(2)] I cur by blast
    with step [OF u(2)] show ?thesis by simp
  next
    case (Post_Synch p ev dat t')
    with ret obtain s' where s': "post_synch_body rec p ev dat s = Some s'" "rec (Run t', s') = Some r"
      by (auto simp: run_body_def bind_eq_Some_conv)
    have "ex \<or> \<not> exit_event ev" "keeps I ex t'"
      using t Post_Synch by (auto simp: keeps_simps)
    with step [OF s'(2)] post_synch_body_kept [OF rec s'(1) I] post_synch_current [OF s'(1)] cur show ?thesis by simp
  next
    case (Start p arg t')
    with ret obtain s' where s': "start_body rec p arg s = Some s'" "rec (Run t', s') = Some r"
      by (auto simp: run_body_def bind_eq_Some_conv)
    with step [OF s'(2)] start_body_kept [OF rec s'(1) I] start_current [OF s'(1)] cur t Start show ?thesis
      by (simp add: keeps_simps)
  next
    case (Exit p t')
    with ret obtain s' where s': "exit_call_body rec p s = Some s'" "rec (Run t', s') = Some r"
      by (auto simp: run_body_def bind_eq_Some_conv)
    have "ex" "keeps I ex t'"
      using t Exit keeps_simps(5) [of I ex] by blast+
    from step [OF s'(2) exit_call_body_kept [OF rec s'(1) I this(1)] this(2)] exit_call_current [OF rec s'(1) I this(1)] cur
    show ?thesis by simp
  qed
qed

lemma kcall_body_kept:
  assumes rec: "keeping rec" and ret: "kcall_body thr rec c s = Some r" and I: "I s" and c: "allowed c s"
  shows "call_kept c s r"
proof -
  have other: "call_kept c s r" if "I (snd r)" "\<And>t. c \<noteq> Run t" "\<And>p fr. c \<noteq> Exit_Process p fr"
    using that by (simp add: call_kept_def)
  show ?thesis
  proof (cases c)
    case (Call p ev dat)
    with ret c have "call_body thr rec p ev dat s = Some r" "ex \<or> \<not> exit_event ev"
      by (auto simp: kcall_body_def allowed_def)
    from call_body_kept [OF rec this(1) I this(2)] Call show ?thesis by (intro other) simp_all
  next
    case (Exit_Process p fr)
    with ret c have "exit_body thr rec p fr s = Some r" "ex"
      by (simp_all add: kcall_body_def allowed_def)
    from exit_body_kept [OF rec this(1) I this(2)] Exit_Process show ?thesis by (simp add: call_kept_def)
  next
    case (Notify p q)
    with ret c have "notify_body rec p q s = Some r" "ex"
      by (simp_all add: kcall_body_def allowed_def)
    from notify_body_kept [OF rec this(1) I this(2)] Notify show ?thesis by (intro other) simp_all
  next
    case (Run t)
    with ret c have "run_body rec t s = Some r" "keeps I ex t" "k_current s \<noteq> None"
      by (simp_all add: kcall_body_def allowed_def)
    from run_body_kept [OF rec this(1) I this(2,3)] Run show ?thesis by simp
  qed
qed

text \<open>The calls that return keep the invariant.\<close>

lemma kernel_call_kept: "keeping (kernel_call thr)"
proof -
  have "kernel_call thr cs = Some r \<longrightarrow> I (snd cs) \<longrightarrow> allowed (fst cs) (snd cs) \<longrightarrow> call_kept (fst cs) (snd cs) r" for cs r
  proof (rule impI)
    assume "kernel_call thr cs = Some r"
    then show "I (snd cs) \<longrightarrow> allowed (fst cs) (snd cs) \<longrightarrow> call_kept (fst cs) (snd cs) r"
    proof (rule kernel_call.raw_induct [of "\<lambda>thr' cs r. thr' = thr \<longrightarrow> I (snd cs) \<longrightarrow> allowed (fst cs) (snd cs) \<longrightarrow> call_kept (fst cs) (snd cs) r",
            THEN mp, rotated])
      show "thr = thr" ..
    next
      fix rec thr' cs r
      assume IH: "\<And>thr' cs r. rec thr' cs = Some r \<Longrightarrow>
          thr' = thr \<longrightarrow> I (snd cs) \<longrightarrow> allowed (fst cs) (snd cs) \<longrightarrow> call_kept (fst cs) (snd cs) r"
        and eq: "kcall_body thr' (rec thr') (fst cs) (snd cs) = Some r"
      have "keeping (rec thr)"
        using IH [of thr] by (auto simp: keeping_def)
      with eq show "thr' = thr \<longrightarrow> I (snd cs) \<longrightarrow> allowed (fst cs) (snd cs) \<longrightarrow> call_kept (fst cs) (snd cs) r"
        using kcall_body_kept by blast
    qed
  qed
  then show ?thesis
    unfolding keeping_def by (metis fst_conv snd_conv)
qed

lemma call_process_kept:
  "call_process thr p ev dat s = Some s' \<Longrightarrow> I s \<Longrightarrow> ex \<or> \<not> exit_event ev \<Longrightarrow> I s'"
  unfolding call_process_def using keeping_I [OF kernel_call_kept _ _ allowed_intros(1)] by force

lemma run_thread_kept:
  "run_thread thr t s = Some r \<Longrightarrow> I s \<Longrightarrow> k_current s \<noteq> None \<Longrightarrow> keeps I ex t \<Longrightarrow> I (snd r)"
  unfolding run_thread_def using keeping_I [OF kernel_call_kept _ _ allowed_intros(4)] by blast

lemma process_post_synch_kept:
  "process_post_synch thr p ev dat s = Some s' \<Longrightarrow> I s \<Longrightarrow> ex \<or> \<not> exit_event ev \<Longrightarrow> I s'"
  unfolding process_post_synch_def using post_synch_body_kept [OF kernel_call_kept] by blast

lemma process_start_kept: "process_start thr p arg s = Some s' \<Longrightarrow> I s \<Longrightarrow> I s'"
  unfolding process_start_def using start_body_kept [OF kernel_call_kept] by blast

lemma process_exit_kept: "process_exit thr p s = Some s' \<Longrightarrow> I s \<Longrightarrow> ex \<Longrightarrow> I s'"
  unfolding process_exit_def using exit_call_body_kept [OF kernel_call_kept] by blast

end

context kernel_client
begin

lemma do_poll_from_kept:
  assumes begin_ok: "\<And>s p. I s \<Longrightarrow> I (poll_begin p s)"
    and ret: "do_poll_from thr q s = Some s'" and I: "I s"
  shows "I s'"
proof -
  have "thr' = thr \<longrightarrow> I s \<longrightarrow> I s'" if "do_poll_from thr' q s = Some s'" for thr' q s s'
    using that
  proof (rule do_poll_from.raw_induct [of "\<lambda>thr' q s s'. thr' = thr \<longrightarrow> I s \<longrightarrow> I s'", rotated])
    fix f thr' q s s'
    assume IH: "\<And>thr' q s s'. f thr' q s = Some s' \<Longrightarrow> thr' = thr \<longrightarrow> I s \<longrightarrow> I s'"
      and eq: "(case q of None \<Rightarrow> Some s
                | Some p \<Rightarrow> Option.bind (if k_needspoll s p then call_process thr' p PROCESS_EVENT_POLL None (poll_begin p s)
                                       else Some s) (\<lambda>s'. f thr' (k_next s' p) s')) = Some s'"
    show "thr' = thr \<longrightarrow> I s \<longrightarrow> I s'"
    proof (intro impI)
      assume thr': "thr' = thr" and I: "I s"
      show "I s'"
      proof (cases q)
        case (Some p)
        with eq thr' obtain s1 where
          s1: "(if k_needspoll s p then call_process thr p PROCESS_EVENT_POLL None (poll_begin p s) else Some s) = Some s1"
          and r: "f thr (k_next s1 p) s1 = Some s'"
          by (auto simp: bind_eq_Some_conv)
        have "I s1"
        proof (cases "k_needspoll s p")
          case True
          with s1 have "call_process thr p PROCESS_EVENT_POLL None (poll_begin p s) = Some s1" by simp
          from call_process_kept [OF this begin_ok [OF I]] show ?thesis by (simp add: exit_event_def process_events)
        qed (use s1 I in simp)
        with IH [OF r] show ?thesis by simp
      qed (use eq I in simp)
    qed
  qed
  with ret I show ?thesis by blast
qed

end

text \<open>
  The scheduler's client: what it takes to get past a round of polls is stated as a law, since a client's invariant
  may depend on which polls are still to come.
\<close>

locale scheduler_client = kernel_client +
  assumes I_poll: "I s \<Longrightarrow> do_poll thr s = Some s' \<Longrightarrow> I s'"
    and I_take: "I s \<Longrightarrow> k_nevents s > 0 \<Longrightarrow>
          I (s\<lparr>k_fevent := (k_fevent s + 1) mod PROCESS_CONF_NUMEVENTS, k_nevents := k_nevents s - 1\<rparr>)"
    and I_event: "I s \<Longrightarrow> k_nevents s > 0 \<Longrightarrow> ex \<or> \<not> exit_event (ed_ev (k_events s ! unat (k_fevent s)))"
begin

lemma broadcast_from_kept:
  assumes "broadcast_from thr ev dat p s = Some s'" and "I s" and ev: "ex \<or> \<not> exit_event ev"
  shows "I s'"
proof -
  have "thr' = thr \<longrightarrow> ev' = ev \<longrightarrow> I s \<longrightarrow> I s'" if "broadcast_from thr' ev' dat p s = Some s'" for thr' ev' dat p s s'
    using that
  proof (rule broadcast_from.raw_induct [of "\<lambda>thr' ev' dat p s s'. thr' = thr \<longrightarrow> ev' = ev \<longrightarrow> I s \<longrightarrow> I s'", rotated])
    fix f thr' ev' dat p s s'
    assume IH: "\<And>thr' ev' dat p s s'. f thr' ev' dat p s = Some s' \<Longrightarrow> thr' = thr \<longrightarrow> ev' = ev \<longrightarrow> I s \<longrightarrow> I s'"
      and eq: "(case p of None \<Rightarrow> Some s
                | Some p \<Rightarrow> Option.bind (if k_poll_requested s then do_poll thr' s else Some s)
                    (\<lambda>s1. Option.bind (call_process thr' p ev' dat s1)
                      (\<lambda>s2. f thr' ev' dat (k_next s2 p) s2))) = Some s'"
    show "thr' = thr \<longrightarrow> ev' = ev \<longrightarrow> I s \<longrightarrow> I s'"
    proof (intro impI)
      assume thr': "thr' = thr" "ev' = ev" and I: "I s"
      show "I s'"
      proof (cases p)
        case (Some q)
        with eq thr' obtain s1 s2 where s1: "(if k_poll_requested s then do_poll thr s else Some s) = Some s1"
          and s2: "call_process thr q ev dat s1 = Some s2" and r: "f thr ev dat (k_next s2 q) s2 = Some s'"
          by (auto simp: bind_eq_Some_conv)
        have "I s1"
          using s1 I I_poll by (auto split: if_splits)
        from call_process_kept [OF s2 this ev] IH [OF r] show ?thesis by simp
      qed (use eq I in simp)
    qed
  qed
  with assms show ?thesis by blast
qed

lemma do_event_kept:
  assumes ret: "do_event thr s = Some s'" and I: "I s"
  shows "I s'"
proof (cases "k_nevents s > 0")
  case True
  let ?e = "k_events s ! unat (k_fevent s)"
  let ?s1 = "s\<lparr>k_fevent := (k_fevent s + 1) mod PROCESS_CONF_NUMEVENTS, k_nevents := k_nevents s - 1\<rparr>"
  have I1: "I ?s1" and ev: "ex \<or> \<not> exit_event (ed_ev ?e)"
    using I_take [OF I True] I_event [OF I True] by auto
  show ?thesis
  proof (cases "ed_p ?e")
    case None
    with ret True have "broadcast_from thr (ed_ev ?e) (ed_data ?e) (k_list ?s1) ?s1 = Some s'"
      by (simp add: do_event_def Let_def)
    from broadcast_from_kept [OF this I1 ev] show ?thesis .
  next
    case (Some p)
    let ?s2 = "if ed_ev ?e = PROCESS_EVENT_INIT
               then ?s1\<lparr>k_state := (k_state ?s1)(p := PROCESS_STATE_RUNNING)\<rparr> else ?s1"
    from ret True Some have c: "call_process thr p (ed_ev ?e) (ed_data ?e) ?s2 = Some s'"
      by (simp add: do_event_def Let_def)
    have "I ?s2"
      using I1 I_state [OF I1, of PROCESS_STATE_RUNNING p] by auto
    from call_process_kept [OF c this ev] show ?thesis .
  qed
qed (use ret I in \<open>simp add: do_event_def\<close>)

lemma process_run_kept:
  assumes "process_run thr s = Some (r, s')" and "I s"
  shows "I s'"
  using assms do_event_kept I_poll
  by (auto simp: process_run_def bind_eq_Some_conv split: if_splits)

end

section \<open>The ring of events\<close>

definition ring_ok :: "'m kernel_scheme \<Rightarrow> bool" where
  "ring_ok s \<longleftrightarrow> length (k_events s) = 8 \<and> unat (k_nevents s) \<le> 8 \<and> unat (k_fevent s) < 8"

text \<open>The events in the order in which they were posted.\<close>

definition queued :: "'m kernel_scheme \<Rightarrow> event_data list" where
  "queued s = map (\<lambda>i. k_events s ! ((unat (k_fevent s) + i) mod 8)) [0..<unat (k_nevents s)]"

lemma length_queued [simp]: "length (queued s) = unat (k_nevents s)"
  by (simp add: queued_def)

lemma mod8_add: "unat ((a + b) mod 8 :: u8) = (unat a + unat b) mod 8"
proof -
  have "unat ((a + b) mod 8) = unat (a + b) mod 8"
    by (simp add: unat_mod)
  also have "\<dots> = (unat a + unat b) mod 256 mod 8"
    by (simp add: unat_word_ariths)
  also have "\<dots> = (unat a + unat b) mod 8"
    by (rule mod_mod_cancel) simp
  finally show ?thesis .
qed

lemma mod8_inj: "(f + i) mod 8 = (f + n) mod 8 \<Longrightarrow> n < 8 \<Longrightarrow> i < n \<Longrightarrow> False" for f i n :: nat
proof -
  assume eq: "(f + i) mod 8 = (f + n) mod 8" and n: "n < 8" and i: "i < n"
  have "8 dvd (f + n) - (f + i)"
    using eq i by (subst (asm) eq_commute, subst (asm) mod_eq_dvd_iff_nat) simp_all
  then have "8 dvd n - i" by simp
  from dvd_imp_le [OF this] i n show False by simp
qed

lemma nevents_eq8: "k_nevents s = PROCESS_CONF_NUMEVENTS \<longleftrightarrow> unat (k_nevents s) = 8"
  by (simp add: PROCESS_CONF_NUMEVENTS_def word_unat_eq_iff)

lemma unat_nevents_Suc:
  "ring_ok s \<Longrightarrow> unat (k_nevents s) \<noteq> 8 \<Longrightarrow> unat (k_nevents s + 1) = Suc (unat (k_nevents s))"
  by (auto simp: ring_ok_def unat_word_ariths)

lemma process_post_full: "unat (k_nevents s) = 8 \<Longrightarrow> process_post p ev dat s = (PROCESS_ERR_FULL, s)"
  by (simp add: process_post_def nevents_eq8)

lemma process_post_ok:
  assumes ok: "ring_ok s" and room: "unat (k_nevents s) \<noteq> 8"
  shows "fst (process_post p ev dat s) = PROCESS_ERR_OK"
    and "ring_ok (snd (process_post p ev dat s))"
    and "queued (snd (process_post p ev dat s)) = queued s @ [\<lparr>ed_ev = ev, ed_data = dat, ed_p = p\<rparr>]"
    and "unat (k_nevents (snd (process_post p ev dat s))) = Suc (unat (k_nevents s))"
proof -
  let ?n = "unat (k_nevents s)" and ?f = "unat (k_fevent s)"
  let ?i = "(?f + ?n) mod 8"
  let ?e = "\<lparr>ed_ev = ev, ed_data = dat, ed_p = p\<rparr>"
  have post: "process_post p ev dat s =
      (PROCESS_ERR_OK, s\<lparr>k_events := (k_events s)[?i := ?e], k_nevents := k_nevents s + 1\<rparr>)"
    unfolding process_post_def Let_def PROCESS_CONF_NUMEVENTS_def mod8_add
    using room nevents_eq8 [of s] by (simp add: PROCESS_CONF_NUMEVENTS_def del: unat_numeral)
  have len: "length (k_events s) = 8" and n: "?n < 8" and f: "?f < 8"
    using ok room by (auto simp: ring_ok_def)
  show "fst (process_post p ev dat s) = PROCESS_ERR_OK"
    by (simp add: post)
  show n1: "unat (k_nevents (snd (process_post p ev dat s))) = Suc ?n"
    using unat_nevents_Suc [OF ok room] by (simp add: post)
  have nn: "unat (k_nevents s + 1) = Suc ?n"
    using unat_nevents_Suc [OF ok room] .
  show "ring_ok (snd (process_post p ev dat s))"
    using len n f nn by (simp add: post ring_ok_def)
  have diff: "(?f + i) mod 8 \<noteq> ?i" if "i < ?n" for i
    using mod8_inj [of ?f i ?n] that n by blast
  show "queued (snd (process_post p ev dat s)) = queued s @ [?e]"
    using len nn by (simp add: post queued_def) (metis atLeastLessThan_iff diff nth_list_update_neq)
qed

definition take_event :: "'m kernel_scheme \<Rightarrow> 'm kernel_scheme" where
  "take_event s = s\<lparr>k_fevent := (k_fevent s + 1) mod PROCESS_CONF_NUMEVENTS, k_nevents := k_nevents s - 1\<rparr>"

lemma take_event_ok:
  assumes ok: "ring_ok s" and n: "k_nevents s > 0"
  shows "ring_ok (take_event s)" and "queued s = k_events s ! unat (k_fevent s) # queued (take_event s)"
proof -
  have n0: "unat (k_nevents s) \<noteq> 0"
    using n by (simp add: word_gt_0 unat_eq_0)
  then have n1: "unat (k_nevents s - 1) = unat (k_nevents s) - 1"
    by (metis unat_minus_one unat_0)
  have f1: "unat ((k_fevent s + 1) mod PROCESS_CONF_NUMEVENTS) = (unat (k_fevent s) + 1) mod 8"
    using mod8_add [of "k_fevent s" 1] by (simp add: PROCESS_CONF_NUMEVENTS_def)
  have "unat (k_nevents s) - 1 \<le> 8"
    using ok unfolding ring_ok_def by linarith
  then show "ring_ok (take_event s)"
    using ok n1 f1 by (simp add: take_event_def ring_ok_def)
  obtain m where m: "unat (k_nevents s) = Suc m"
    using n0 by (cases "unat (k_nevents s)") auto
  have "unat (k_fevent s) < 8"
    using ok by (simp add: ring_ok_def)
  then show "queued s = k_events s ! unat (k_fevent s) # queued (take_event s)"
    using m n1 f1 by (simp add: queued_def take_event_def upt_conv_Cons map_Suc_upt [symmetric] mod_add_left_eq
        del: upt_Suc)
qed

lemma do_event_eq:
  "do_event thr s =
     (if k_nevents s > 0
      then let e = k_events s ! unat (k_fevent s); s1 = take_event s
           in (case ed_p e of
                 None \<Rightarrow> broadcast_from thr (ed_ev e) (ed_data e) (k_list s1) s1
               | Some p \<Rightarrow>
                   call_process thr p (ed_ev e) (ed_data e)
                     (if ed_ev e = PROCESS_EVENT_INIT
                      then s1\<lparr>k_state := (k_state s1)(p := PROCESS_STATE_RUNNING)\<rparr> else s1))
      else Some s)"
  unfolding do_event_def take_event_def Let_def by (rule refl)

section \<open>The list of processes\<close>

definition list_ok :: "'m kernel_scheme \<Rightarrow> bool" where
  "list_ok s \<longleftrightarrow> (\<exists>ps. chain (k_next s) (k_list s) ps)"

lemma find_from_chain: "chain nx q ps \<Longrightarrow> find_from nx p q = Some (p \<in> set ps)"
proof (induction ps arbitrary: q)
  case Nil
  then show ?case by (simp add: find_from.simps)
next
  case (Cons x ps)
  then show ?case by (subst find_from.simps) auto
qed

lemma unlink_from_chain:
  "chain nx (Some q) (q # ps) \<Longrightarrow> p \<noteq> q \<Longrightarrow>
   \<exists>nx'. unlink_from nx p (Some q) = Some nx' \<and> chain nx' (Some q) (q # remove1 p ps) \<and>
         (\<forall>y. y \<notin> set (q # ps) \<longrightarrow> nx' y = nx y)"
proof (induction ps arbitrary: q)
  case Nil
  then show ?case by (subst unlink_from.simps) (simp add: unlink_from.simps)
next
  case (Cons x ps)
  have d: "distinct (q # x # ps)"
    using Cons.prems by (intro chain_distinct)
  have nx: "nx q = Some x" "chain nx (nx x) ps"
    using Cons.prems by auto
  show ?case
  proof (cases "x = p")
    case True
    then have "unlink_from nx p (Some q) = Some (nx(q := nx p))"
      using nx by (subst unlink_from.simps) simp
    moreover have "chain (nx(q := nx p)) (nx p) ps"
      using nx d True by simp
    ultimately show ?thesis
      using True by simp
  next
    case False
    from Cons.IH [of x] Cons.prems nx False obtain nx' where
      r: "unlink_from nx p (Some x) = Some nx'" "chain nx' (Some x) (x # remove1 p ps)"
      "\<forall>y. y \<notin> set (x # ps) \<longrightarrow> nx' y = nx y"
      by auto
    have "unlink_from nx p (Some q) = unlink_from nx p (Some x)"
      using nx False by (subst unlink_from.simps) simp
    moreover have "nx' q = Some x"
      using r(3) d nx by simp
    ultimately show ?thesis
      using r False by auto
  qed
qed

lemma process_unlink_chain:
  assumes "chain (k_next s) (k_list s) ps"
  shows "\<exists>s'. process_unlink p s = Some s' \<and> chain (k_next s') (k_list s') (remove1 p ps)"
proof (cases ps)
  case Nil
  with assms show ?thesis
    by (auto simp: process_unlink_def unlink_from.simps)
next
  case (Cons q qs)
  with assms have head: "k_list s = Some q" and ch: "chain (k_next s) (Some q) (q # qs)" by auto
  show ?thesis
  proof (cases "q = p")
    case True
    with head ch Cons show ?thesis by (simp add: process_unlink_def)
  next
    case False
    then have "p \<noteq> q" by simp
    from unlink_from_chain [OF ch this] obtain nx' where
      "unlink_from (k_next s) p (Some q) = Some nx'" "chain nx' (Some q) (q # remove1 p qs)"
      by blast
    with head False Cons show ?thesis by (simp add: process_unlink_def)
  qed
qed

lemma list_ok_unlink: "list_ok s \<Longrightarrow> process_unlink p s = Some s' \<Longrightarrow> list_ok s'"
  unfolding list_ok_def using process_unlink_chain [of s _ p] by fastforce

lemma process_link_chain:
  "chain (k_next s) (k_list s) ps \<Longrightarrow> p \<notin> set ps \<Longrightarrow>
   chain (k_next (process_link p s)) (k_list (process_link p s)) (p # ps)"
  by (simp add: process_link_def)

lemma list_ok_link: "list_ok s \<Longrightarrow> find_from (k_next s) p (k_list s) = Some False \<Longrightarrow> list_ok (process_link p s)"
  unfolding list_ok_def using find_from_chain [of "k_next s" "k_list s"] process_link_chain by fastforce

section \<open>The invariant of the kernel\<close>

definition kernel_ok :: "'m kernel_scheme \<Rightarrow> bool" where
  "kernel_ok s \<longleftrightarrow> ring_ok s \<and> list_ok s"

lemma kernel_ok_fields [simp]:
  "kernel_ok (s\<lparr>k_current := c\<rparr>) = kernel_ok s"
  "kernel_ok (s\<lparr>k_state := st\<rparr>) = kernel_ok s"
  "kernel_ok (s\<lparr>k_lc := lc\<rparr>) = kernel_ok s"
  "kernel_ok (s\<lparr>k_needspoll := np\<rparr>) = kernel_ok s"
  "kernel_ok (s\<lparr>k_poll_requested := pr\<rparr>) = kernel_ok s"
  "kernel_ok (s\<lparr>k_lastevent := ev\<rparr>) = kernel_ok s"
  by (simp_all add: kernel_ok_def ring_ok_def list_ok_def)

lemma kernel_ok_poll_begin [simp]: "kernel_ok (poll_begin p s) = kernel_ok s"
  by (simp add: poll_begin_def)

lemma kernel_ok_post: "kernel_ok s \<Longrightarrow> kernel_ok (snd (process_post p ev dat s))"
  using process_post_ok(2) [of s p ev dat] process_post_full [of s p ev dat]
  by (cases "unat (k_nevents s) = 8") (auto simp: kernel_ok_def list_ok_def process_post_def Let_def)

lemma kernel_ok_poll: "kernel_ok s \<Longrightarrow> kernel_ok (process_poll p s)"
  by (simp add: process_poll_def split: option.split)

lemma kernel_ok_take: "kernel_ok s \<Longrightarrow> k_nevents s > 0 \<Longrightarrow> kernel_ok (take_event s)"
  using take_event_ok(1) [of s] by (simp add: kernel_ok_def list_ok_def take_event_def)

lemma kernel_ok_link: "kernel_ok s \<Longrightarrow> find_from (k_next s) p (k_list s) = Some False \<Longrightarrow> kernel_ok (process_link p s)"
  using list_ok_link [of s p] by (simp add: kernel_ok_def ring_ok_def process_link_def)

lemma kernel_ok_unlink: "kernel_ok s \<Longrightarrow> process_unlink p s = Some s' \<Longrightarrow> kernel_ok s'"
  using list_ok_unlink [of s p s']
  by (auto simp: kernel_ok_def ring_ok_def process_unlink_def split: if_splits)

lemma kernel_ok_init: "length (k_events s) = 8 \<Longrightarrow> kernel_ok (process_init s)"
  by (auto simp: kernel_ok_def ring_ok_def list_ok_def process_init_def intro: exI [of _ "[]"])

text \<open>Threads that leave the kernel's list and ring consistent: the whole kernel does, exits and restarts included.\<close>

lemma kernel_ok_client:
  fixes thr :: "'m kernel_scheme threads"
  assumes "\<And>p g ev dat. thr p = Some g \<Longrightarrow> keeps kernel_ok True (g ev dat)"
  shows "scheduler_client thr kernel_ok True"
proof -
  have client: "kernel_client thr kernel_ok True"
    by unfold_locales (use assms kernel_ok_link kernel_ok_unlink in auto)
  show ?thesis
  proof (intro scheduler_client.intro client scheduler_client_axioms.intro)
    fix s s' :: "'m kernel_scheme"
    assume "kernel_ok s" "do_poll thr s = Some s'"
    then show "kernel_ok s'"
      using kernel_client.do_poll_from_kept [OF client, of "k_list s" "s\<lparr>k_poll_requested := False\<rparr>" s']
      by (simp add: do_poll_def)
  qed (use kernel_ok_take in \<open>simp_all add: take_event_def\<close>)
qed

end
