(* ===== verification/Etimer.thy ===== *)
theory Etimer
  imports Process_Inv Energest
begin

text \<open>
  Time on a node: the timers of \<open>core/sys/timer.c\<close>, the clock of \<open>cpu/msp430/clock.c\<close> with its interrupt, and the
  event timers of \<open>core/sys/etimer.c\<close>: a list of timers, the process that posts an event to the owner of each
  that has expired, and the time of the next expiration, at which the clock interrupt polls that process.
\<close>

section \<open>Timers\<close>

record timer =
  t_start :: clock_time_t
  t_interval :: clock_time_t

text \<open>\<open>now\<close> is what \<open>clock_time()\<close> returns.\<close>

definition timer_set :: "clock_time_t \<Rightarrow> timer \<Rightarrow> clock_time_t \<Rightarrow> timer" where
  "timer_set now t interval = t\<lparr>t_interval := interval, t_start := now\<rparr>"

definition timer_reset :: "timer \<Rightarrow> timer" where
  "timer_reset t = t\<lparr>t_start := t_start t + t_interval t\<rparr>"

definition timer_restart :: "clock_time_t \<Rightarrow> timer \<Rightarrow> timer" where
  "timer_restart now t = t\<lparr>t_start := now\<rparr>"

definition timer_expired :: "clock_time_t \<Rightarrow> timer \<Rightarrow> bool" where
  "timer_expired now t \<longleftrightarrow> now - t_start t \<ge> t_interval t"

definition timer_remaining :: "clock_time_t \<Rightarrow> timer \<Rightarrow> clock_time_t" where
  "timer_remaining now t = t_start t + t_interval t - now"

section \<open>State\<close>

text \<open>
  The variables of the clock and of \<open>etimer.c\<close>, and the fields of the \<open>etimer\<close> structures, beside the kernel's.
\<close>

record timers = kernel +
  tm_count :: clock_time_t
  tm_seconds :: u32
  tm_taccr1 :: rtimer_clock_t
  tm_last_tar :: rtimer_clock_t
  tm_energest :: energest
  tm_list :: "ptr option"
  tm_next_expiration :: clock_time_t
  et_timer :: "ptr \<Rightarrow> timer"
  et_next :: "ptr \<Rightarrow> ptr option"
  et_p :: "ptr \<Rightarrow> ptr option"

definition clock_time :: "'m timers_scheme \<Rightarrow> clock_time_t" where
  "clock_time s = tm_count s"

text \<open>The process structure of the event timers; its address plays no role.\<close>

definition etimer_process :: ptr where "etimer_process = 1"

section \<open>Event timers\<close>

text \<open>The time to a timer's expiration; the loop of \<open>update_time\<close> looks for the least.\<close>

partial_function (option) min_from ::
  "(ptr \<Rightarrow> ptr option) \<Rightarrow> (ptr \<Rightarrow> clock_time_t) \<Rightarrow> ptr option \<Rightarrow> clock_time_t \<Rightarrow> clock_time_t option" where
  "min_from nx dist to tdist =
     (case to of
        None \<Rightarrow> Some tdist
      | Some t \<Rightarrow> min_from nx dist (nx t) (if dist t < tdist then dist t else tdist))"

definition update_time :: "'m timers_scheme \<Rightarrow> 'm timers_scheme option" where
  "update_time s =
     (case tm_list s of
        None \<Rightarrow> Some (s\<lparr>tm_next_expiration := 0\<rparr>)
      | Some t \<Rightarrow>
          let now = clock_time s;
              dist = (\<lambda>t. t_start (et_timer s t) + t_interval (et_timer s t) - now)
          in map_option (\<lambda>tdist. s\<lparr>tm_next_expiration := now + tdist\<rparr>)
               (min_from (et_next s) dist (et_next s t) (dist t)))"

definition etimer_request_poll :: "'m timers_scheme \<Rightarrow> 'm timers_scheme" where
  "etimer_request_poll s = process_poll (Some etimer_process) s"

text \<open>The loop of \<open>add_timer\<close> that looks for the timer on the list.\<close>

partial_function (option) listed_from :: "(ptr \<Rightarrow> ptr option) \<Rightarrow> ptr \<Rightarrow> ptr option \<Rightarrow> bool option" where
  "listed_from nx et to =
     (case to of None \<Rightarrow> Some False | Some t \<Rightarrow> if t = et then Some True else listed_from nx et (nx t))"

definition add_timer :: "ptr \<Rightarrow> 'm timers_scheme \<Rightarrow> 'm timers_scheme option" where
  "add_timer et s =
     (let s1 = etimer_request_poll s
      in Option.bind (if et_p s1 et \<noteq> None then listed_from (et_next s1) et (tm_list s1) else Some False)
           (\<lambda>listed.
              if listed then update_time s1
              else update_time (s1\<lparr>et_p := (et_p s1)(et := k_current s1), et_next := (et_next s1)(et := tm_list s1),
                                  tm_list := Some et\<rparr>)))"

definition etimer_set :: "ptr \<Rightarrow> clock_time_t \<Rightarrow> 'm timers_scheme \<Rightarrow> 'm timers_scheme option" where
  "etimer_set et interval s =
     add_timer et (s\<lparr>et_timer := (et_timer s)(et := timer_set (clock_time s) (et_timer s et) interval)\<rparr>)"

definition etimer_reset :: "ptr \<Rightarrow> 'm timers_scheme \<Rightarrow> 'm timers_scheme option" where
  "etimer_reset et s = add_timer et (s\<lparr>et_timer := (et_timer s)(et := timer_reset (et_timer s et))\<rparr>)"

definition etimer_restart :: "ptr \<Rightarrow> 'm timers_scheme \<Rightarrow> 'm timers_scheme option" where
  "etimer_restart et s =
     add_timer et (s\<lparr>et_timer := (et_timer s)(et := timer_restart (clock_time s) (et_timer s et))\<rparr>)"

definition etimer_adjust :: "ptr \<Rightarrow> u16 \<Rightarrow> 'm timers_scheme \<Rightarrow> 'm timers_scheme option" where
  "etimer_adjust et timediff s =
     update_time (s\<lparr>et_timer := (et_timer s)(et := (et_timer s et)\<lparr>t_start := t_start (et_timer s et) + timediff\<rparr>)\<rparr>)"

definition etimer_expired :: "ptr \<Rightarrow> 'm timers_scheme \<Rightarrow> bool" where
  "etimer_expired et s \<longleftrightarrow> et_p s et = None"

definition etimer_expiration_time :: "ptr \<Rightarrow> 'm timers_scheme \<Rightarrow> clock_time_t" where
  "etimer_expiration_time et s = t_start (et_timer s et) + t_interval (et_timer s et)"

definition etimer_start_time :: "ptr \<Rightarrow> 'm timers_scheme \<Rightarrow> clock_time_t" where
  "etimer_start_time et s = t_start (et_timer s et)"

definition etimer_pending :: "'m timers_scheme \<Rightarrow> bool" where
  "etimer_pending s \<longleftrightarrow> tm_list s \<noteq> None"

definition etimer_next_expiration_time :: "'m timers_scheme \<Rightarrow> clock_time_t" where
  "etimer_next_expiration_time s = (if etimer_pending s then tm_next_expiration s else 0)"

text \<open>The loop of \<open>etimer_stop\<close>: the timer before \<open>et\<close>, if there is one.\<close>

partial_function (option) before_from :: "(ptr \<Rightarrow> ptr option) \<Rightarrow> ptr \<Rightarrow> ptr option \<Rightarrow> ptr option option" where
  "before_from nx et to =
     (case to of None \<Rightarrow> Some None | Some t \<Rightarrow> if nx t = Some et then Some (Some t) else before_from nx et (nx t))"

definition etimer_stop :: "ptr \<Rightarrow> 'm timers_scheme \<Rightarrow> 'm timers_scheme option" where
  "etimer_stop et s =
     map_option (\<lambda>s'. s'\<lparr>et_next := (et_next s')(et := None), et_p := (et_p s')(et := None)\<rparr>)
       (if tm_list s = Some et then update_time (s\<lparr>tm_list := et_next s et\<rparr>)
        else Option.bind (before_from (et_next s) et (tm_list s))
               (\<lambda>b. case b of
                      None \<Rightarrow> Some s
                    | Some t \<Rightarrow> update_time (s\<lparr>et_next := (et_next s)(t := et_next s et)\<rparr>)))"

section \<open>The process of the event timers\<close>

text \<open>A process has exited: its timers are taken off the list, first at the head, then after the head.\<close>

partial_function (option) drop_head_owned ::
  "(ptr \<Rightarrow> ptr option) \<Rightarrow> (ptr \<Rightarrow> bool) \<Rightarrow> ptr option \<Rightarrow> ptr option option" where
  "drop_head_owned nx own to =
     (case to of None \<Rightarrow> Some None | Some t \<Rightarrow> if own t then drop_head_owned nx own (nx t) else Some (Some t))"

partial_function (option) drop_owned ::
  "(ptr \<Rightarrow> bool) \<Rightarrow> ptr \<Rightarrow> (ptr \<Rightarrow> ptr option) \<Rightarrow> (ptr \<Rightarrow> ptr option) option" where
  "drop_owned own t nx =
     (case nx t of
        None \<Rightarrow> Some nx
      | Some u \<Rightarrow> if own u then drop_owned own t (nx(t := nx u)) else drop_owned own u nx)"

definition owner_exited :: "process_data_t \<Rightarrow> 'm timers_scheme \<Rightarrow> 'm timers_scheme option" where
  "owner_exited p s =
     (let own = (\<lambda>t. et_p s t = p)
      in Option.bind (drop_head_owned (et_next s) own (tm_list s))
           (\<lambda>h. case h of
                  None \<Rightarrow> Some (s\<lparr>tm_list := None\<rparr>)
                | Some t \<Rightarrow> map_option (\<lambda>nx. s\<lparr>tm_list := h, et_next := nx\<rparr>) (drop_owned own t (et_next s))))"

text \<open>The timer \<open>t\<close> after \<open>u\<close> has been posted to its owner: it is marked and taken off the list.\<close>

definition etimer_posted :: "ptr option \<Rightarrow> ptr \<Rightarrow> 'm timers_scheme \<Rightarrow> 'm timers_scheme" where
  "etimer_posted u t s =
     (let s1 = s\<lparr>et_p := (et_p s)(t := None)\<rparr>;
          s2 = (case u of
                  Some u' \<Rightarrow> s1\<lparr>et_next := (et_next s1)(u' := et_next s1 t)\<rparr>
                | None \<Rightarrow> s1\<lparr>tm_list := et_next s1 t\<rparr>)
      in s2\<lparr>et_next := (et_next s2)(t := None)\<rparr>)"

text \<open>The loop from \<open>again\<close> on.\<close>

partial_function (option) etimer_scan ::
  "ptr option \<Rightarrow> ptr option \<Rightarrow> 'm timers_scheme \<Rightarrow> 'm timers_scheme option" where
  "etimer_scan u to s =
     (case to of
        None \<Rightarrow> Some s
      | Some t \<Rightarrow>
          if timer_expired (clock_time s) (et_timer s t)
          then let (r, s1) = process_post (et_p s t) PROCESS_EVENT_TIMER (Some t) s
               in if r = PROCESS_ERR_OK
                  then Option.bind (update_time (etimer_posted u t s1)) (\<lambda>s2. etimer_scan None (tm_list s2) s2)
                  else let s2 = etimer_request_poll s1 in etimer_scan (Some t) (et_next s2 t) s2
          else etimer_scan (Some t) (et_next s t) s)"

definition etimer_thread_step ::
  "process_event_t \<Rightarrow> process_data_t \<Rightarrow> 'm timers_scheme \<Rightarrow> 'm timers_scheme option" where
  "etimer_thread_step ev dat s =
     (if k_lc s etimer_process = 0
      then Some (s\<lparr>tm_list := None, k_lc := (k_lc s)(etimer_process := 1)\<rparr>)
      else if ev = PROCESS_EVENT_EXITED then owner_exited dat s
      else if ev \<noteq> PROCESS_EVENT_POLL then Some s
      else etimer_scan None (tm_list s) s)"

definition etimer_thread :: "process_event_t \<Rightarrow> process_data_t \<Rightarrow> 'm timers_scheme thread" where
  "etimer_thread ev dat = Compute (\<lambda>s. map_option (\<lambda>s'. (s', Return PT_YIELDED)) (etimer_thread_step ev dat s))"

section \<open>The clock\<close>

definition INTERVAL :: u16 where "INTERVAL = 256"
definition MAX_TICKS :: u16 where "MAX_TICKS = 0x7fff"
definition CLOCK_CONF_SECOND :: u16 where "CLOCK_CONF_SECOND = 128"

definition clock_init :: "'m timers_scheme \<Rightarrow> 'm timers_scheme" where
  "clock_init s = s\<lparr>tm_taccr1 := INTERVAL, tm_count := 0\<rparr>"

definition clock_set :: "clock_time_t \<Rightarrow> clock_time_t \<Rightarrow> 'm timers_scheme \<Rightarrow> 'm timers_scheme" where
  "clock_set clock fclock s = s\<lparr>tm_taccr1 := fclock + INTERVAL, tm_count := clock\<rparr>"

definition clock_fine_max :: u16 where "clock_fine_max = INTERVAL"

text \<open>\<open>tar\<close> is what the counter \<open>TAR\<close> reads.\<close>

definition clock_fine :: "rtimer_clock_t \<Rightarrow> 'm timers_scheme \<Rightarrow> u16" where
  "clock_fine tar s = tar - tm_last_tar s"

definition clock_seconds :: "'m timers_scheme \<Rightarrow> u32" where
  "clock_seconds s = tm_seconds s"

text \<open>One round of the loop of \<open>etimer_interrupt\<close>.\<close>

definition clock_tick :: "rtimer_clock_t \<Rightarrow> 'm timers_scheme \<Rightarrow> 'm timers_scheme" where
  "clock_tick tar s =
     (let s1 = s\<lparr>tm_taccr1 := tm_taccr1 s + INTERVAL, tm_count := tm_count s + 1\<rparr>
      in if tm_count s1 mod CLOCK_CONF_SECOND = 0
         then s1\<lparr>tm_seconds := tm_seconds s1 + 1, tm_energest := energest_flush (\<lambda>_. tar) (tm_energest s1)\<rparr>
         else s1)"

partial_function (option) clock_ticks :: "rtimer_clock_t \<Rightarrow> 'm timers_scheme \<Rightarrow> 'm timers_scheme option" where
  "clock_ticks tar s =
     (let s1 = clock_tick tar s in if tm_taccr1 s1 - tar > INTERVAL then clock_ticks tar s1 else Some s1)"

definition etimer_interrupt :: "rtimer_clock_t \<Rightarrow> 'm timers_scheme \<Rightarrow> 'm timers_scheme option" where
  "etimer_interrupt tar s = map_option (\<lambda>s1. s1\<lparr>tm_last_tar := tar\<rparr>) (clock_ticks tar s)"

text \<open>The clock's part of the interrupt of timer A1 (the other part is Glossy's \<open>radio_abort_rx\<close>).\<close>

definition timera1 :: "rtimer_clock_t \<Rightarrow> 'm timers_scheme \<Rightarrow> 'm timers_scheme option" where
  "timera1 tar s =
     (let s1 = s\<lparr>tm_energest := ENERGEST_ON tar (tm_energest s) ENERGEST_TYPE_IRQ\<rparr>
      in map_option
           (\<lambda>s2. let s3 = (if etimer_pending s2 \<and> etimer_next_expiration_time s2 - tm_count s2 - 1 > MAX_TICKS
                           then etimer_request_poll s2 else s2)
                 in s3\<lparr>tm_energest := ENERGEST_OFF tar (tm_energest s3) ENERGEST_TYPE_IRQ\<rparr>)
           (etimer_interrupt tar s1))"

end
