(* ===== verification/Etimer_Inv.thy ===== *)
theory Etimer_Inv
  imports Etimer
begin

text \<open>
  The event timers under the kernel: what the process of the event timers does with the list of timers when it is polled,
  and the invariant that no timer is lost, whatever the processes of the node do.
\<close>

section \<open>Timers and their distance\<close>

definition dist_of :: "'m timers_scheme \<Rightarrow> ptr \<Rightarrow> clock_time_t" where
  "dist_of s t = t_start (et_timer s t) + t_interval (et_timer s t) - tm_count s"

abbreviation expired :: "'m timers_scheme \<Rightarrow> ptr \<Rightarrow> bool" where
  "expired s t \<equiv> timer_expired (clock_time s) (et_timer s t)"

lemma dist_nonzero:
  assumes "\<not> expired s t" shows "dist_of s t \<noteq> 0"
proof
  assume "dist_of s t = 0"
  then have "t_start (et_timer s t) + t_interval (et_timer s t) = tm_count s"
    by (simp add: dist_of_def)
  then have "tm_count s - t_start (et_timer s t) = t_interval (et_timer s t)"
    by (metis add_diff_cancel_left')
  with assms show False
    by (simp add: timer_expired_def clock_time_def)
qed

lemma min_from_chain:
  "chain nx to ts \<Longrightarrow>
   \<exists>m. min_from nx dist to d = Some m \<and> m \<le> d \<and> (\<forall>t\<in>set ts. m \<le> dist t) \<and> (m = d \<or> (\<exists>t\<in>set ts. m = dist t))"
proof (induction ts arbitrary: to d)
  case Nil
  then show ?case by (simp add: min_from.simps)
next
  case (Cons x ts)
  let ?d = "if dist x < d then dist x else d"
  from Cons.prems have "chain nx (nx x) ts" and to: "to = Some x" by auto
  from Cons.IH [OF this(1), of ?d] obtain m where
    m: "min_from nx dist (nx x) ?d = Some m" "m \<le> ?d" "\<forall>t\<in>set ts. m \<le> dist t" "m = ?d \<or> (\<exists>t\<in>set ts. m = dist t)"
    by blast
  have "m \<le> d" "m \<le> dist x"
    using m(2) by (auto split: if_splits)
  with m to show ?case
    by (subst min_from.simps) auto
qed

text \<open>The next expiration that \<open>update_time\<close> computes.\<close>

definition next_least :: "'m timers_scheme \<Rightarrow> ptr list \<Rightarrow> clock_time_t \<Rightarrow> bool" where
  "next_least s ts n \<longleftrightarrow>
     (if ts = [] then n = 0
      else (\<forall>t\<in>set ts. n - tm_count s \<le> dist_of s t) \<and> (\<exists>t\<in>set ts. n - tm_count s = dist_of s t))"

lemma update_time_chain:
  assumes "chain (et_next s) (tm_list s) ts"
  shows "\<exists>n. update_time s = Some (s\<lparr>tm_next_expiration := n\<rparr>) \<and> next_least s ts n"
proof (cases ts)
  case Nil
  with assms show ?thesis
    by (auto simp: update_time_def next_least_def)
next
  case (Cons x xs)
  with assms have ch: "chain (et_next s) (et_next s x) xs" and hd: "tm_list s = Some x" by auto
  from min_from_chain [OF ch, of "dist_of s" "dist_of s x"] obtain m where
    m: "min_from (et_next s) (dist_of s) (et_next s x) (dist_of s x) = Some m"
    "m \<le> dist_of s x" "\<forall>t\<in>set xs. m \<le> dist_of s t" "m = dist_of s x \<or> (\<exists>t\<in>set xs. m = dist_of s t)"
    by blast
  have d: "dist_of s = (\<lambda>t. t_start (et_timer s t) + t_interval (et_timer s t) - clock_time s)"
    by (simp add: fun_eq_iff dist_of_def clock_time_def)
  have "update_time s = Some (s\<lparr>tm_next_expiration := tm_count s + m\<rparr>)"
    using hd m(1) by (simp add: update_time_def Let_def d clock_time_def)
  moreover have "next_least s ts (tm_count s + m)"
    using m Cons by (auto simp: next_least_def)
  ultimately show ?thesis by blast
qed

section \<open>One poll of the event timers\<close>

text \<open>What the scan changes.\<close>

definition scan_frame :: "'m timers_scheme \<Rightarrow> 'm timers_scheme \<Rightarrow> bool" where
  "scan_frame s s' \<longleftrightarrow>
     s' = s\<lparr>k_events := k_events s', k_nevents := k_nevents s', k_needspoll := k_needspoll s',
            k_poll_requested := k_poll_requested s', tm_list := tm_list s',
            tm_next_expiration := tm_next_expiration s', et_next := et_next s', et_p := et_p s'\<rparr>"

lemma scan_frame_refl [simp]: "scan_frame s s"
  by (simp add: scan_frame_def)

lemma scan_frame_trans: "scan_frame a b \<Longrightarrow> scan_frame b c \<Longrightarrow> scan_frame a c"
  unfolding scan_frame_def by (cases a; cases b; cases c) simp

lemma scan_frame_fields:
  assumes "scan_frame s s'"
  shows "k_list s' = k_list s" "k_next s' = k_next s" "k_lc s' = k_lc s" "k_state s' = k_state s"
    "k_current s' = k_current s" "k_lastevent s' = k_lastevent s" "k_fevent s' = k_fevent s"
    "tm_count s' = tm_count s" "et_timer s' = et_timer s"
  using assms unfolding scan_frame_def by (cases s; cases s'; simp)+

lemma scan_frame_more: "scan_frame s s' \<Longrightarrow> timers.more s' = timers.more s"
  unfolding scan_frame_def by (cases s; cases s'; simp)

text \<open>The event for an expired timer.\<close>

definition timer_event :: "'m timers_scheme \<Rightarrow> ptr \<Rightarrow> event_data" where
  "timer_event s t = \<lparr>ed_ev = PROCESS_EVENT_TIMER, ed_data = Some t, ed_p = et_p s t\<rparr>"


text \<open>One post: the first expired timer \<open>t\<close> of the list \<open>pre @ t # rest\<close> when the queue has room.\<close>

lemma etimer_posted_chain:
  assumes ch: "chain (et_next s) (tm_list s) (pre @ t # rest)"
    and u: "u = (if pre = [] then None else Some (last pre))"
  shows "chain (et_next (etimer_posted u t s)) (tm_list (etimer_posted u t s)) (pre @ rest)"
    and "scan_frame s (etimer_posted u t s)"
    and "et_p (etimer_posted u t s) = (et_p s)(t := None)"
    and "k_events (etimer_posted u t s) = k_events s" "k_nevents (etimer_posted u t s) = k_nevents s"
    and "k_needspoll (etimer_posted u t s) = k_needspoll s" "k_poll_requested (etimer_posted u t s) = k_poll_requested s"
proof -
  have d: "distinct (pre @ t # rest)"
    by (rule chain_distinct [OF ch])
  show "chain (et_next (etimer_posted u t s)) (tm_list (etimer_posted u t s)) (pre @ rest)"
  proof (cases pre rule: rev_cases)
    case Nil
    with ch d u show ?thesis
      by (simp add: etimer_posted_def)
  next
    case (snoc qs q)
    from ch snoc have sg: "seg (et_next s) (tm_list s) qs (Some q)" and c: "chain (et_next s) (et_next s t) rest"
      by (auto simp: chain_append)
    have "seg ((et_next s)(q := et_next s t, t := None)) (tm_list s) qs (Some q)"
      "chain ((et_next s)(q := et_next s t, t := None)) (et_next s t) rest"
      using sg c d snoc by auto
    moreover have "q \<noteq> t" using d snoc by auto
    ultimately show ?thesis
      using snoc u by (auto simp: etimer_posted_def chain_append Let_def)
  qed
qed (auto simp: etimer_posted_def scan_frame_def Let_def split: option.split)

text \<open>The timers of \<open>ts\<close> that are posted when there is room for \<open>n\<close> events.\<close>

definition posted_of :: "('t \<Rightarrow> bool) \<Rightarrow> nat \<Rightarrow> 't list \<Rightarrow> 't list" where
  "posted_of ex n ts = take n (filter ex ts)"

definition kept_of :: "('t \<Rightarrow> bool) \<Rightarrow> nat \<Rightarrow> 't list \<Rightarrow> 't list" where
  "kept_of ex n ts = filter (\<lambda>t. t \<notin> set (posted_of ex n ts)) ts"

lemma posted_kept_0 [simp]: "posted_of ex 0 ts = []" "kept_of ex 0 ts = ts"
  by (simp_all add: posted_of_def kept_of_def)

lemma posted_kept_none: "\<forall>t\<in>set ts. \<not> ex t \<Longrightarrow> posted_of ex n ts = [] \<and> kept_of ex n ts = ts"
  by (simp add: posted_of_def kept_of_def filter_empty_conv)

lemma posted_kept_step:
  assumes "distinct (pre @ t # rest)" and "\<forall>x\<in>set pre. \<not> ex x" and "ex t"
  shows "posted_of ex (Suc n) (pre @ t # rest) = t # posted_of ex n (pre @ rest)"
    and "kept_of ex (Suc n) (pre @ t # rest) = kept_of ex n (pre @ rest)"
proof -
  have pre: "filter ex pre = []"
    using assms(2) by (simp add: filter_empty_conv)
  show p: "posted_of ex (Suc n) (pre @ t # rest) = t # posted_of ex n (pre @ rest)"
    using pre assms(3) by (simp add: posted_of_def)
  have "filter (\<lambda>x. x \<noteq> t \<and> x \<notin> set (posted_of ex n (pre @ rest))) (pre @ rest) =
        filter (\<lambda>x. x \<notin> set (posted_of ex n (pre @ rest))) (pre @ rest)"
    using assms(1) by (intro filter_cong) auto
  then show "kept_of ex (Suc n) (pre @ t # rest) = kept_of ex n (pre @ rest)"
    by (simp add: kept_of_def p)
qed

lemma kept_of_subset: "set (kept_of ex n ts) \<subseteq> set ts"
  by (auto simp: kept_of_def)

lemma posted_of_subset: "set (posted_of ex n ts) \<subseteq> set ts"
  unfolding posted_of_def using set_take_subset by fastforce

text \<open>Walking over timers that have not expired changes nothing but the position.\<close>

lemma etimer_scan_skip:
  "chain (et_next s) to (pre @ rest) \<Longrightarrow> \<forall>x\<in>set pre. \<not> expired s x \<Longrightarrow>
   etimer_scan u to s =
     etimer_scan (if pre = [] then u else Some (last pre)) (case rest of [] \<Rightarrow> None | x # _ \<Rightarrow> Some x) s"
proof (induction pre arbitrary: u to)
  case Nil
  then show ?case by (cases rest) auto
next
  case (Cons x pre)
  then have "to = Some x" "chain (et_next s) (et_next s x) (pre @ rest)" "\<not> expired s x" by auto
  with Cons.IH [of "et_next s x" "Some x"] Cons.prems show ?case
    by (subst etimer_scan.simps) auto
qed

lemma request_poll_idem [simp]: "etimer_request_poll (etimer_request_poll s) = etimer_request_poll s"
  by (simp add: etimer_request_poll_def process_poll_def)

lemma request_poll_frame: "scan_frame s (etimer_request_poll s)"
  by (simp add: etimer_request_poll_def process_poll_def scan_frame_def)

lemma request_poll_fields [simp]:
  "et_next (etimer_request_poll s) = et_next s" "tm_list (etimer_request_poll s) = tm_list s"
  "et_p (etimer_request_poll s) = et_p s" "et_timer (etimer_request_poll s) = et_timer s"
  "tm_count (etimer_request_poll s) = tm_count s" "k_nevents (etimer_request_poll s) = k_nevents s"
  "k_events (etimer_request_poll s) = k_events s" "k_fevent (etimer_request_poll s) = k_fevent s"
  "tm_next_expiration (etimer_request_poll s) = tm_next_expiration s"
  "k_state (etimer_request_poll s) = k_state s" "k_list (etimer_request_poll s) = k_list s"
  "k_next (etimer_request_poll s) = k_next s" "k_lc (etimer_request_poll s) = k_lc s"
  "k_current (etimer_request_poll s) = k_current s"
  by (simp_all add: etimer_request_poll_def process_poll_def)

text \<open>With a full queue the whole list is walked, and the poll requested again if a timer has expired.\<close>

lemma etimer_scan_full:
  "chain (et_next s) to ts \<Longrightarrow> unat (k_nevents s) = 8 \<Longrightarrow>
   etimer_scan u to s = Some (if \<exists>t\<in>set ts. expired s t then etimer_request_poll s else s)"
proof (induction ts arbitrary: u to s)
  case Nil
  then show ?case by (simp add: etimer_scan.simps)
next
  case (Cons x ts)
  then have to: "to = Some x" and ch: "chain (et_next s) (et_next s x) ts" by auto
  show ?case
  proof (cases "expired s x")
    case True
    have "process_post (et_p s x) PROCESS_EVENT_TIMER (Some x) s = (PROCESS_ERR_FULL, s)"
      using Cons.prems(2) by (rule process_post_full)
    with to True have "etimer_scan u to s = etimer_scan (Some x) (et_next s x) (etimer_request_poll s)"
      by (subst etimer_scan.simps) (simp add: PROCESS_ERR_FULL_def PROCESS_ERR_OK_def)
    with Cons.IH [of "etimer_request_poll s" "et_next s x" "Some x"] ch Cons.prems True show ?thesis
      by (simp add: clock_time_def)
  next
    case False
    with to have "etimer_scan u to s = etimer_scan (Some x) (et_next s x) s"
      by (subst etimer_scan.simps) simp
    with Cons.IH [of s "et_next s x" "Some x"] ch Cons.prems False show ?thesis
      by simp
  qed
qed

text \<open>
  What a poll of the event timers does to the list \<open>ts\<close>: as many expired timers as the queue has room for are posted
  to their owners, in the order of the list, and leave it; the others stay, and if one of them has
  expired, the poll is requested again.
\<close>

definition room :: "'m kernel_scheme \<Rightarrow> nat" where
  "room s = 8 - unat (k_nevents s)"

definition poll_result :: "'m timers_scheme \<Rightarrow> ptr list \<Rightarrow> 'm timers_scheme \<Rightarrow> bool" where
  "poll_result s ts s' \<longleftrightarrow>
     (let posted = posted_of (expired s) (room s) ts; kept = kept_of (expired s) (room s) ts
      in scan_frame s s'
         \<and> ring_ok s' \<and> queued s' = queued s @ map (timer_event s) posted
         \<and> chain (et_next s') (tm_list s') kept
         \<and> et_p s' = (\<lambda>t. if t \<in> set posted then None else et_p s t)
         \<and> (if posted = [] then tm_next_expiration s' = tm_next_expiration s
            else next_least s kept (tm_next_expiration s'))
         \<and> (let sp = (if \<exists>t\<in>set kept. expired s t then etimer_request_poll s else s)
            in k_needspoll s' = k_needspoll sp \<and> k_poll_requested s' = k_poll_requested sp))"

lemma poll_result_none:
  "ring_ok s \<Longrightarrow> chain (et_next s) (tm_list s) ts \<Longrightarrow> \<forall>t\<in>set ts. \<not> expired s t \<Longrightarrow> poll_result s ts s"
  using posted_kept_none [of ts "expired s" "room s"] by (simp add: poll_result_def)

lemma poll_result_full:
  assumes "ring_ok s" and "chain (et_next s) (tm_list s) ts" and "unat (k_nevents s) = 8"
  shows "poll_result s ts (if \<exists>t\<in>set ts. expired s t then etimer_request_poll s else s)"
proof -
  have "room s = 0"
    using assms(3) by (simp add: room_def)
  moreover have "ring_ok (etimer_request_poll s)" "queued (etimer_request_poll s) = queued s"
    using assms(1) by (simp_all add: ring_ok_def queued_def)
  ultimately show ?thesis
    using assms(1,2) by (simp add: poll_result_def request_poll_frame)
qed

lemma post_frame: "scan_frame s (snd (process_post p ev dat s))"
  by (simp add: process_post_def scan_frame_def Let_def)

lemma post_fields [simp]:
  "et_next (snd (process_post p ev dat s)) = et_next s" "tm_list (snd (process_post p ev dat s)) = tm_list s"
  "et_p (snd (process_post p ev dat s)) = et_p s" "k_needspoll (snd (process_post p ev dat s)) = k_needspoll s"
  "k_poll_requested (snd (process_post p ev dat s)) = k_poll_requested s"
  "et_timer (snd (process_post p ev dat s)) = et_timer s" "tm_count (snd (process_post p ev dat s)) = tm_count s"
  "k_next (snd (process_post p ev dat s)) = k_next s" "k_list (snd (process_post p ev dat s)) = k_list s"
  "k_state (snd (process_post p ev dat s)) = k_state s" "k_lc (snd (process_post p ev dat s)) = k_lc s"
  "tm_next_expiration (snd (process_post p ev dat s)) = tm_next_expiration s"
  by (simp_all add: process_post_def Let_def)

lemma frame_next_frame: "scan_frame s s1 \<Longrightarrow> scan_frame s (s1\<lparr>tm_next_expiration := n\<rparr>)"
  unfolding scan_frame_def by (cases s; cases s1) simp

lemma next_least_frame: "scan_frame s s' \<Longrightarrow> next_least s' ts n = next_least s ts n"
  using scan_frame_fields(8,9) [of s s'] by (simp add: next_least_def dist_of_def)

text \<open>One round of the loop that posts.\<close>

lemma etimer_scan_post:
  assumes ok: "ring_ok s" and ch: "chain (et_next s) (tm_list s) (pre @ t # rest)"
    and pre: "\<forall>x\<in>set pre. \<not> expired s x" and t: "expired s t" and r: "room s = Suc n"
  obtains s2 where "etimer_scan None (tm_list s) s = etimer_scan None (tm_list s2) s2"
    and "scan_frame s s2" and "ring_ok s2" and "room s2 = n" and "queued s2 = queued s @ [timer_event s t]"
    and "chain (et_next s2) (tm_list s2) (pre @ rest)" and "et_p s2 = (et_p s)(t := None)"
    and "next_least s (pre @ rest) (tm_next_expiration s2)"
    and "k_needspoll s2 = k_needspoll s" and "k_poll_requested s2 = k_poll_requested s"
proof -
  have full: "unat (k_nevents s) \<noteq> 8"
    using r by (simp add: room_def)
  let ?u = "if pre = [] then None else Some (last pre)"
  define s1 where "s1 = snd (process_post (et_p s t) PROCESS_EVENT_TIMER (Some t) s)"
  note post = process_post_ok [OF ok full, of "et_p s t" PROCESS_EVENT_TIMER "Some t", folded s1_def]
  have ch1: "chain (et_next s1) (tm_list s1) (pre @ t # rest)"
    using ch by (simp add: s1_def)
  define s1' where "s1' = etimer_posted ?u t s1"
  note posted = etimer_posted_chain [OF ch1 refl, folded s1'_def]
  have fr: "scan_frame s s1'"
    by (rule scan_frame_trans [OF post_frame [of s "et_p s t" PROCESS_EVENT_TIMER "Some t", folded s1_def] posted(2)])
  from update_time_chain [OF posted(1)] obtain m where
    m: "update_time s1' = Some (s1'\<lparr>tm_next_expiration := m\<rparr>)" "next_least s1' (pre @ rest) m" by blast
  let ?s2 = "s1'\<lparr>tm_next_expiration := m\<rparr>"
  have "etimer_scan None (tm_list s) s = etimer_scan ?u (Some t) s"
    using etimer_scan_skip [OF ch pre, of None] by simp
  also have "\<dots> = etimer_scan None (tm_list ?s2) ?s2"
  proof -
    have "process_post (et_p s t) PROCESS_EVENT_TIMER (Some t) s = (PROCESS_ERR_OK, s1)"
      using post(1) by (simp add: s1_def prod_eq_iff)
    with t m(1) show ?thesis
      by (subst etimer_scan.simps) (simp add: s1'_def)
  qed
  finally have scan: "etimer_scan None (tm_list s) s = etimer_scan None (tm_list ?s2) ?s2" .
  have fe: "k_fevent s1' = k_fevent s1"
    using scan_frame_fields(7) [OF posted(2)] .
  have q: "queued ?s2 = queued s1"
    using posted(4,5) fe by (simp add: queued_def)
  show thesis
  proof (rule that [of ?s2])
    show "scan_frame s ?s2" by (rule frame_next_frame [OF fr])
    show "ring_ok ?s2"
      using post(2) posted(4,5) fe by (simp add: ring_ok_def)
    show "room ?s2 = n"
      using post(4) posted(5) r by (simp add: room_def)
    show "queued ?s2 = queued s @ [timer_event s t]"
      using q post(3) by (simp add: timer_event_def)
    show "et_p ?s2 = (et_p s)(t := None)"
      using posted(3) by (simp add: s1_def)
    show "next_least s (pre @ rest) (tm_next_expiration ?s2)"
      using m(2) next_least_frame [OF fr] by simp
  qed (use scan posted in \<open>simp_all add: s1_def\<close>)
qed

lemma frame_expired: "scan_frame s s' \<Longrightarrow> expired s' = expired s"
  using scan_frame_fields(8,9) [of s s'] by (simp add: fun_eq_iff clock_time_def)

lemma ring_ok_room: "ring_ok s \<Longrightarrow> room s = 0 \<Longrightarrow> unat (k_nevents s) = 8"
  by (simp add: ring_ok_def room_def)

lemma request_poll_cong:
  "k_needspoll a = k_needspoll b \<Longrightarrow> k_poll_requested a = k_poll_requested b \<Longrightarrow> k_state a = k_state b \<Longrightarrow>
   k_needspoll (etimer_request_poll a) = k_needspoll (etimer_request_poll b) \<and>
   k_poll_requested (etimer_request_poll a) = k_poll_requested (etimer_request_poll b)"
  by (simp add: etimer_request_poll_def process_poll_def)

lemma etimer_scan_chain:
  "ring_ok s \<Longrightarrow> chain (et_next s) (tm_list s) ts \<Longrightarrow>
   \<exists>s'. etimer_scan None (tm_list s) s = Some s' \<and> poll_result s ts s'"
proof (induction "length ts" arbitrary: s ts rule: less_induct)
  case less
  note ok = less.prems(1) and ch = less.prems(2)
  show ?case
  proof (cases "\<exists>t\<in>set ts. expired s t")
    case False
    have "etimer_scan None (tm_list s) s = Some s"
      using etimer_scan_skip [of s "tm_list s" ts "[]" None] ch False by (simp add: etimer_scan.simps)
    with poll_result_none [OF ok ch] False show ?thesis by blast
  next
    case True
    then obtain pre t rest where ts: "ts = pre @ t # rest" and t: "expired s t" and pre: "\<forall>x\<in>set pre. \<not> expired s x"
      by (rule split_list_first_propE)
    show ?thesis
    proof (cases "room s")
      case 0
      from ring_ok_room [OF ok 0] etimer_scan_full [OF ch] poll_result_full [OF ok ch] show ?thesis by blast
    next
      case (Suc n)
      from ch ts have "chain (et_next s) (tm_list s) (pre @ t # rest)" by simp
      from etimer_scan_post [OF ok this pre t Suc] obtain s2 where
        s2: "etimer_scan None (tm_list s) s = etimer_scan None (tm_list s2) s2" "scan_frame s s2" "ring_ok s2"
        "room s2 = n" "queued s2 = queued s @ [timer_event s t]" "chain (et_next s2) (tm_list s2) (pre @ rest)"
        "et_p s2 = (et_p s)(t := None)" "next_least s (pre @ rest) (tm_next_expiration s2)"
        "k_needspoll s2 = k_needspoll s" "k_poll_requested s2 = k_poll_requested s" by blast
      from less.hyps [OF _ s2(3,6)] ts obtain s' where
        s': "etimer_scan None (tm_list s2) s2 = Some s'" "poll_result s2 (pre @ rest) s'" by auto
      have d: "distinct (pre @ t # rest)"
        using chain_distinct [OF ch] ts by simp
      note ex = frame_expired [OF s2(2)]
      let ?posted = "posted_of (expired s) n (pre @ rest)" and ?kept = "kept_of (expired s) n (pre @ rest)"
      note ps = posted_kept_step [OF d pre t, of n, folded ts]
      have tn: "t \<notin> set ?posted"
        using d posted_of_subset [of "expired s" n "pre @ rest"] by auto
      have ev: "map (timer_event s2) ?posted = map (timer_event s) ?posted"
        using tn s2(7) by (auto simp: timer_event_def)
      have kept_all: "?posted = [] \<Longrightarrow> ?kept = pre @ rest"
        by (simp add: kept_of_def)
      have sp: "k_needspoll (etimer_request_poll s2) = k_needspoll (etimer_request_poll s)"
        "k_poll_requested (etimer_request_poll s2) = k_poll_requested (etimer_request_poll s)"
        using request_poll_cong [OF s2(9,10)] scan_frame_fields(4) [OF s2(2)] by auto
      have "poll_result s ts s'"
        unfolding poll_result_def Let_def ps Suc
      proof (intro conjI)
        note r = s'(2) [unfolded poll_result_def Let_def ex s2(4)]
        show "scan_frame s s'"
          using r scan_frame_trans [OF s2(2)] by blast
        show "ring_ok s'" "chain (et_next s') (tm_list s') ?kept"
          using r by blast+
        show "queued s' = queued s @ map (timer_event s) (t # ?posted)"
          using r ev s2(5) by simp
        show "et_p s' = (\<lambda>x. if x \<in> set (t # ?posted) then None else et_p s x)"
          using r s2(7) by (auto simp: fun_eq_iff)
        have "next_least s ?kept (tm_next_expiration s')"
          using r kept_all s2(8) next_least_frame [OF s2(2)] by (cases "?posted = []") auto
        then show "if t # ?posted = [] then tm_next_expiration s' = tm_next_expiration s
              else next_least s ?kept (tm_next_expiration s')" by simp
        have sp: "k_needspoll (if b then etimer_request_poll s2 else s2) = k_needspoll (if b then etimer_request_poll s else s)"
          "k_poll_requested (if b then etimer_request_poll s2 else s2) = k_poll_requested (if b then etimer_request_poll s else s)" for b
          using sp s2(9,10) by auto
        show "k_needspoll s' = k_needspoll (if \<exists>x\<in>set ?kept. expired s x then etimer_request_poll s else s)"
          "k_poll_requested s' = k_poll_requested (if \<exists>x\<in>set ?kept. expired s x then etimer_request_poll s else s)"
          using r unfolding sp by blast+
      qed
      with s2(1) s'(1) show ?thesis by metis
    qed
  qed
qed

end
