(* ===== verification/Etimer_Props.thy ===== *)
theory Etimer_Props
  imports Etimer_Inv
begin

text \<open>
  No event timer is lost: the invariant that the clock interrupt, the event timers' process and the operations on timers
  keep together, the interface for the processes of a node, and what follows for a timer that has been set.
\<close>

section \<open>The invariant\<close>

text \<open>The next expiration is that of the first timer to expire.\<close>

definition next_good :: "'m timers_scheme \<Rightarrow> ptr list \<Rightarrow> bool" where
  "next_good s ts \<longleftrightarrow> (ts \<noteq> [] \<longrightarrow> next_least s ts (tm_next_expiration s))"

definition none_expired :: "'m timers_scheme \<Rightarrow> ptr list \<Rightarrow> bool" where
  "none_expired s ts \<longleftrightarrow> (\<forall>t\<in>set ts. \<not> expired s t)"

definition timers_core :: "'m timers_scheme \<Rightarrow> ptr list \<Rightarrow> bool" where
  "timers_core s ts \<longleftrightarrow>
     ring_ok s \<and> (\<forall>e\<in>set (queued s). \<not> exit_event (ed_ev e))
     \<and> k_lc s etimer_process \<noteq> 0
     \<and> (k_state s etimer_process = PROCESS_STATE_RUNNING \<or> k_state s etimer_process = PROCESS_STATE_CALLED)
     \<and> chain (et_next s) (tm_list s) ts \<and> (\<forall>t\<in>set ts. et_p s t \<noteq> None)
     \<and> (none_expired s ts \<longrightarrow> next_good s ts)"

text \<open>
  \<open>suf\<close> are the processes that the current round of polls has still to visit: a poll of the event timers that is
  pending has been requested, or this round will come to it.
\<close>

definition timers_ok :: "ptr list \<Rightarrow> 'm timers_scheme \<Rightarrow> bool" where
  "timers_ok suf s \<longleftrightarrow>
     (\<exists>ts pre. timers_core s ts \<and> chain (k_next s) (k_list s) (pre @ suf) \<and> etimer_process \<in> set (pre @ suf)
        \<and> (k_needspoll s etimer_process \<or> none_expired s ts)
        \<and> (k_needspoll s etimer_process \<longrightarrow> k_poll_requested s \<or> etimer_process \<in> set suf))"

lemma timers_okI:
  "timers_core s ts \<Longrightarrow> chain (k_next s) (k_list s) (pre @ suf) \<Longrightarrow> etimer_process \<in> set (pre @ suf) \<Longrightarrow>
   k_needspoll s etimer_process \<or> none_expired s ts \<Longrightarrow>
   (k_needspoll s etimer_process \<longrightarrow> k_poll_requested s \<or> etimer_process \<in> set suf) \<Longrightarrow> timers_ok suf s"
  by (auto simp: timers_ok_def)

text \<open>What it says of a timer that has expired, and of one that has not.\<close>

lemma timers_ok_list:
  assumes "timers_ok suf s" and "chain (et_next s) (tm_list s) ts"
  shows "timers_core s ts" and "k_needspoll s etimer_process \<or> none_expired s ts"
proof -
  from assms(1) obtain ts' where "timers_core s ts'" "k_needspoll s etimer_process \<or> none_expired s ts'"
    by (auto simp: timers_ok_def)
  moreover from this assms(2) have "ts' = ts"
    using chain_unique unfolding timers_core_def by blast
  ultimately show "timers_core s ts" "k_needspoll s etimer_process \<or> none_expired s ts" by simp_all
qed

lemma timers_ok_expired:
  "timers_ok suf s \<Longrightarrow> chain (et_next s) (tm_list s) ts \<Longrightarrow> t \<in> set ts \<Longrightarrow> expired s t \<Longrightarrow> k_needspoll s etimer_process"
  using timers_ok_list(2) [of suf s ts] by (auto simp: none_expired_def)

lemma timers_ok_next:
  assumes "timers_ok suf s" and "chain (et_next s) (tm_list s) ts" and "\<not> k_needspoll s etimer_process" and "t \<in> set ts"
  shows "\<not> expired s t" and "tm_next_expiration s - tm_count s \<le> dist_of s t"
  using timers_ok_list [OF assms(1,2)] assms(3,4)
  by (auto simp: none_expired_def timers_core_def next_good_def next_least_def split: if_splits)

text \<open>Writes to the rest of the state.\<close>

lemma timers_core_cong:
  assumes "k_events s' = k_events s" "k_nevents s' = k_nevents s" "k_fevent s' = k_fevent s"
    "k_lc s' etimer_process = k_lc s etimer_process" "k_state s' etimer_process = k_state s etimer_process"
    "et_next s' = et_next s" "tm_list s' = tm_list s" "et_p s' = et_p s" "et_timer s' = et_timer s"
    "tm_count s' = tm_count s" "tm_next_expiration s' = tm_next_expiration s"
  shows "timers_core s' ts = timers_core s ts" and "none_expired s' ts = none_expired s ts"
  using assms unfolding timers_core_def ring_ok_def queued_def none_expired_def next_good_def next_least_def dist_of_def clock_time_def
  by simp_all

lemma timers_ok_cong:
  assumes "k_events s' = k_events s" "k_nevents s' = k_nevents s" "k_fevent s' = k_fevent s"
    "k_lc s' etimer_process = k_lc s etimer_process" "k_state s' etimer_process = k_state s etimer_process"
    "et_next s' = et_next s" "tm_list s' = tm_list s" "et_p s' = et_p s" "et_timer s' = et_timer s"
    "tm_count s' = tm_count s" "tm_next_expiration s' = tm_next_expiration s"
    "k_next s' = k_next s" "k_list s' = k_list s" "k_needspoll s' etimer_process = k_needspoll s etimer_process"
    "k_poll_requested s' = k_poll_requested s"
  shows "timers_ok suf s' = timers_ok suf s"
  unfolding timers_ok_def timers_core_cong [OF assms(1-11)] assms(12-15) ..

lemma timers_ok_current: "timers_ok suf s \<Longrightarrow> timers_ok suf (s\<lparr>k_current := c\<rparr>)"
  by (subst timers_ok_cong) simp_all

lemma timers_core_state:
  "timers_core s ts \<Longrightarrow> x = PROCESS_STATE_RUNNING \<or> x = PROCESS_STATE_CALLED \<Longrightarrow>
   timers_core (s\<lparr>k_state := (k_state s)(p := x)\<rparr>) ts"
  by (auto simp: timers_core_def ring_ok_def queued_def none_expired_def next_good_def next_least_def dist_of_def clock_time_def)

lemma timers_ok_state:
  "timers_ok suf s \<Longrightarrow> x = PROCESS_STATE_RUNNING \<or> x = PROCESS_STATE_CALLED \<Longrightarrow>
   timers_ok suf (s\<lparr>k_state := (k_state s)(p := x)\<rparr>)"
  unfolding timers_ok_def using timers_core_state [of s _ x p]
  by (auto simp: none_expired_def clock_time_def)

lemma timers_ok_link:
  assumes ok: "timers_ok suf s" and new: "find_from (k_next s) p (k_list s) = Some False"
  shows "timers_ok suf (process_link p s)"
proof -
  from ok obtain ts pre where core: "timers_core s ts" and ch: "chain (k_next s) (k_list s) (pre @ suf)"
    and e: "etimer_process \<in> set (pre @ suf)" and ex: "k_needspoll s etimer_process \<or> none_expired s ts"
    and np: "k_needspoll s etimer_process \<longrightarrow> k_poll_requested s \<or> etimer_process \<in> set suf"
    by (auto simp: timers_ok_def)
  have p: "p \<notin> set (pre @ suf)"
    using find_from_chain [OF ch, of p] new by simp
  then have pe: "p \<noteq> etimer_process"
    using e by auto
  have "chain (k_next (process_link p s)) (k_list (process_link p s)) ((p # pre) @ suf)"
    using process_link_chain [OF ch p] by simp
  moreover have "timers_core (process_link p s) ts = timers_core s ts" "none_expired (process_link p s) ts = none_expired s ts"
    by (rule timers_core_cong; use pe in \<open>simp add: process_link_def\<close>)+
  ultimately show ?thesis
    using core e ex np by (intro timers_okI [of _ ts "p # pre"]) (auto simp: process_link_def)
qed

lemma timers_ok_take:
  assumes ok: "timers_ok suf s" and n: "k_nevents s > 0"
  shows "timers_ok suf (take_event s)" and "\<not> exit_event (ed_ev (k_events s ! unat (k_fevent s)))"
proof -
  from ok obtain ts where core: "timers_core s ts" by (auto simp: timers_ok_def)
  then have r: "ring_ok s" and q: "\<forall>e\<in>set (queued s). \<not> exit_event (ed_ev e)"
    by (auto simp: timers_core_def)
  note d = take_event_ok [OF r n]
  show "\<not> exit_event (ed_ev (k_events s ! unat (k_fevent s)))"
    using q d(2) by simp
  have q': "\<forall>e\<in>set (queued (take_event s)). \<not> exit_event (ed_ev e)"
    using q d(2) by simp
  have c: "timers_core (take_event s) ts" if "timers_core s ts" for ts
    using that d(1) q' by (simp add: timers_core_def take_event_def none_expired_def next_good_def next_least_def dist_of_def clock_time_def)
  show "timers_ok suf (take_event s)"
    using ok c unfolding timers_ok_def by (auto simp: take_event_def none_expired_def clock_time_def)
qed

section \<open>A poll of the event timers\<close>

lemma next_least_good: "next_least s ts (tm_next_expiration s) \<Longrightarrow> next_good s ts"
  by (simp add: next_good_def)

lemma poll_keeps_core:
  assumes core: "timers_core s ts" and res: "poll_result s ts s'"
  shows "timers_core s' (kept_of (expired s) (room s) ts)"
    and "k_needspoll s' etimer_process \<or> none_expired s' (kept_of (expired s) (room s) ts)"
    and "k_needspoll s' etimer_process \<longrightarrow> k_needspoll s etimer_process \<or> k_poll_requested s'"
    and "k_next s' = k_next s" and "k_list s' = k_list s"
proof -
  let ?posted = "posted_of (expired s) (room s) ts" and ?kept = "kept_of (expired s) (room s) ts"
  note r = res [unfolded poll_result_def Let_def]
  have fr: "scan_frame s s'" using r by blast
  note fs = scan_frame_fields [OF fr] and ex = frame_expired [OF fr]
  have st: "k_state s etimer_process = PROCESS_STATE_RUNNING \<or> k_state s etimer_process = PROCESS_STATE_CALLED"
    using core by (simp add: timers_core_def)
  have p: "et_p s' t \<noteq> None" if "t \<in> set ?kept" for t
    using that core r kept_of_subset [of "expired s" "room s" ts] by (auto simp: timers_core_def kept_of_def)
  have q: "\<forall>e\<in>set (queued s'). \<not> exit_event (ed_ev e)"
    using core r by (auto simp: timers_core_def timer_event_def exit_event_def process_events)
  have good: "next_good s' ?kept" if "none_expired s' ?kept"
  proof (cases "?posted = []")
    case True
    then have k: "?kept = ts" and n: "tm_next_expiration s' = tm_next_expiration s"
      using r by (auto simp: kept_of_def)
    have "none_expired s ts"
      using that fun_cong [OF ex] k by (simp add: none_expired_def)
    with core k n next_least_frame [OF fr] show ?thesis
      by (simp add: timers_core_def next_good_def)
  next
    case False
    then have "next_least s' ?kept (tm_next_expiration s')"
      using r next_least_frame [OF fr] by simp
    then show ?thesis by (rule next_least_good)
  qed
  show "timers_core s' ?kept"
    using core r fs p q good by (simp add: timers_core_def)
  have polled: "k_needspoll (etimer_request_poll s) etimer_process" "k_poll_requested (etimer_request_poll s)"
    using st by (simp_all add: etimer_request_poll_def process_poll_def)
  show "k_needspoll s' etimer_process \<or> none_expired s' ?kept"
    using r polled fun_cong [OF ex] by (cases "\<exists>t\<in>set ?kept. expired s t") (auto simp: none_expired_def)
  show "k_needspoll s' etimer_process \<longrightarrow> k_needspoll s etimer_process \<or> k_poll_requested s'"
    using r polled by (cases "\<exists>t\<in>set ?kept. expired s t") auto
  show "k_next s' = k_next s" "k_list s' = k_list s"
    using fs by auto
qed

lemma thread_step_poll:
  assumes core: "timers_core s ts" and ev: "\<not> exit_event ev"
  shows "\<exists>s'. etimer_thread_step ev dat s = Some s' \<and>
           (if ev = PROCESS_EVENT_POLL then poll_result s ts s' else s' = s)"
  using core ev etimer_scan_chain [of s ts]
  by (auto simp: etimer_thread_step_def timers_core_def exit_event_def)

text \<open>The process of the event timers is called by a round of polls: the state in which its thread runs, and the call.\<close>

definition etimer_called :: "'m timers_scheme \<Rightarrow> 'm timers_scheme" where
  "etimer_called s = (poll_begin etimer_process s)\<lparr>k_current := Some etimer_process,
     k_state := (k_state s)(etimer_process := PROCESS_STATE_CALLED)\<rparr>"

lemma etimer_called_core: "timers_core s ts \<Longrightarrow> timers_core (etimer_called s) ts"
  unfolding timers_core_def ring_ok_def queued_def none_expired_def next_good_def next_least_def dist_of_def clock_time_def
  by (simp add: poll_begin_def etimer_called_def)

lemma etimer_call:
  assumes thr: "thr etimer_process = Some etimer_thread" and core: "timers_core s ts"
  obtains s' where "poll_result (etimer_called s) ts s'"
    and "call_process thr etimer_process PROCESS_EVENT_POLL None (poll_begin etimer_process s) =
         Some (s'\<lparr>k_state := (k_state s')(etimer_process := PROCESS_STATE_RUNNING)\<rparr>)"
proof -
  from thread_step_poll [OF etimer_called_core [OF core], of PROCESS_EVENT_POLL None] obtain s' where
    s': "etimer_thread_step PROCESS_EVENT_POLL None (etimer_called s) = Some s'" "poll_result (etimer_called s) ts s'"
    by (auto simp: exit_event_def process_events)
  have "run_thread thr (etimer_thread PROCESS_EVENT_POLL None) (etimer_called s) = Some (PT_YIELDED, s')"
    using s'(1) by (simp add: etimer_thread_def run_thread_simps)
  then have "call_process thr etimer_process PROCESS_EVENT_POLL None (poll_begin etimer_process s) =
         Some (s'\<lparr>k_state := (k_state s')(etimer_process := PROCESS_STATE_RUNNING)\<rparr>)"
    using thr by (subst call_process_eq)
      (simp add: poll_begin_def etimer_called_def process_states pt_results process_events)
  with s'(2) show thesis by (rule that)
qed

section \<open>The interface for the processes of a node\<close>

text \<open>
  The process of the event timers under the kernel: the other processes do not exit, and what their threads do on
  the state keeps the invariant, and an invariant \<open>J\<close> of their own on the part of the state that is theirs.
\<close>

locale timer_threads =
  fixes thr :: "'m timers_scheme threads" and J :: "'m timers_scheme \<Rightarrow> bool"
  assumes etimer: "thr etimer_process = Some etimer_thread"
    and J_own: "timers.more s' = timers.more s \<Longrightarrow> J s \<Longrightarrow> J s'"
    and others: "thr p = Some g \<Longrightarrow> p \<noteq> etimer_process \<Longrightarrow> \<not> exit_event ev \<Longrightarrow>
          keeps (\<lambda>s. timers_ok suf s \<and> J s) False (g ev dat)"
begin

lemma etimer_thread_step_kept:
  assumes ok: "timers_ok suf s" and ev: "\<not> exit_event ev" and r: "etimer_thread_step ev dat s = Some s'"
  shows "timers_ok suf s'" and "k_current s' = k_current s" and "timers.more s' = timers.more s"
proof -
  from ok obtain ts pre where core: "timers_core s ts" and ch: "chain (k_next s) (k_list s) (pre @ suf)"
    and e: "etimer_process \<in> set (pre @ suf)"
    and np: "k_needspoll s etimer_process \<longrightarrow> k_poll_requested s \<or> etimer_process \<in> set suf"
    by (auto simp: timers_ok_def)
  from thread_step_poll [OF core ev, of dat] r
  have res: "if ev = PROCESS_EVENT_POLL then poll_result s ts s' else s' = s" by auto
  show "timers_ok suf s'"
  proof (cases "ev = PROCESS_EVENT_POLL")
    case True
    with res have pr: "poll_result s ts s'" by simp
    note k = poll_keeps_core [OF core pr]
    have "k_poll_requested s \<Longrightarrow> k_poll_requested s'"
      using pr by (simp add: poll_result_def Let_def etimer_request_poll_def process_poll_def)
    with k ch e np show ?thesis
      by (intro timers_okI [OF k(1), of pre suf]) auto
  qed (use res ok in simp)
  show "k_current s' = k_current s" "timers.more s' = timers.more s"
    using res scan_frame_fields(5) [of s s'] scan_frame_more [of s s'] by (auto simp: poll_result_def Let_def split: if_splits)
qed

lemma etimer_thread_keeps: "\<not> exit_event ev \<Longrightarrow> keeps (\<lambda>s. timers_ok suf s \<and> J s) False (etimer_thread ev dat)"
  unfolding etimer_thread_def
proof (rule keeps_Compute)
  fix s s' :: "'m timers_scheme" and t :: "'m timers_scheme thread"
  assume ev: "\<not> exit_event ev" and ok: "timers_ok suf s \<and> J s" and cur: "k_current s \<noteq> None"
    and "map_option (\<lambda>s'. (s', Return PT_YIELDED)) (etimer_thread_step ev dat s) = Some (s', t)"
  then have r: "etimer_thread_step ev dat s = Some s'" and t: "t = Return PT_YIELDED" by auto
  note k = etimer_thread_step_kept [OF conjunct1 [OF ok] ev r]
  have "J s'"
    by (rule J_own [OF k(3) conjunct2 [OF ok]])
  with k(1,2) cur show "(timers_ok suf s' \<and> J s') \<and> k_current s' \<noteq> None \<and> keeps (\<lambda>s. timers_ok suf s \<and> J s) False t"
    by (simp add: t keeps_simps pt_results)
qed

lemma J_kernel:
  "J s \<Longrightarrow> J (s\<lparr>k_current := c\<rparr>)" "J s \<Longrightarrow> J (s\<lparr>k_state := st\<rparr>)" "J s \<Longrightarrow> J (process_link p s)"
  by (rule J_own [of _ s]; simp add: process_link_def)+

end

sublocale timer_threads \<subseteq> kernel_client thr "\<lambda>s. timers_ok suf s \<and> J s" False for suf
proof unfold_locales
  fix p g ev dat
  assume "thr p = Some g" "False \<or> \<not> exit_event ev"
  then show "keeps (\<lambda>s. timers_ok suf s \<and> J s) False (g ev dat)"
    using others [of p g ev suf dat] etimer etimer_thread_keeps [of ev suf dat] by (cases "p = etimer_process") auto
qed (auto simp: timers_ok_current timers_ok_state timers_ok_link J_kernel)

context timer_threads
begin

text \<open>After its call in a round of polls, all that has expired is seen to or will be.\<close>

lemma poll_etimer:
  assumes ok: "timers_ok (etimer_process # suf) s" and np: "k_needspoll s etimer_process"
    and call: "call_process thr etimer_process PROCESS_EVENT_POLL None (poll_begin etimer_process s) = Some s'"
  shows "timers_ok suf s'" and "k_next s' = k_next s" and "timers.more s' = timers.more s"
proof -
  from ok obtain ts pre where core: "timers_core s ts"
    and ch: "chain (k_next s) (k_list s) (pre @ etimer_process # suf)"
    by (auto simp: timers_ok_def)
  from etimer_call [of thr, OF etimer core] call obtain s3 where res: "poll_result (etimer_called s) ts s3"
    and s': "s' = s3\<lparr>k_state := (k_state s3)(etimer_process := PROCESS_STATE_RUNNING)\<rparr>" by auto
  note k = poll_keeps_core [OF etimer_called_core [OF core] res]
  have same: "k_next (etimer_called s) = k_next s" "k_list (etimer_called s) = k_list s"
    "\<not> k_needspoll (etimer_called s) etimer_process"
    by (simp_all add: etimer_called_def poll_begin_def)
  with k(3) have "k_needspoll s3 etimer_process \<longrightarrow> k_poll_requested s3" by simp
  then have "timers_ok suf s3"
    using k ch same by (intro timers_okI [OF k(1), of "pre @ [etimer_process]" suf]) auto
  then show "timers_ok suf s'"
    unfolding s' by (rule timers_ok_state) simp
  show "k_next s' = k_next s"
    using k(4) same by (simp add: s')
  have "scan_frame (etimer_called s) s3"
    using res by (simp add: poll_result_def Let_def)
  from scan_frame_more [OF this] show "timers.more s' = timers.more s"
    by (simp add: s' etimer_called_def poll_begin_def)
qed

lemma next_of_ok: "timers_ok (p # suf) s \<Longrightarrow> k_next s p = (case suf of [] \<Rightarrow> None | q # _ \<Rightarrow> Some q)"
  by (auto simp: timers_ok_def dest!: chain_suffix split: list.split)

lemma poll_begin_other: "timers_ok suf s \<Longrightarrow> p \<noteq> etimer_process \<Longrightarrow> timers_ok suf (poll_begin p s)"
  by (subst timers_ok_cong [of _ s]) (simp_all add: poll_begin_def)

text \<open>One process of a round of polls.\<close>

lemma poll_other:
  assumes "timers_ok (p # suf) s" and "J s" and "p \<noteq> etimer_process"
    and "call_process thr p PROCESS_EVENT_POLL None (poll_begin p s) = Some s'"
  shows "timers_ok (p # suf) s'" and "J s'"
  using call_process_kept [OF assms(4), of "p # suf"] poll_begin_other [OF assms(1,3)] J_own [of "poll_begin p s" s] assms(2)
  by (simp_all add: poll_begin_def exit_event_def process_events)

lemma poll_one:
  assumes ok: "timers_ok (p # suf) s" and J: "J s"
    and ret: "(if k_needspoll s p then call_process thr p PROCESS_EVENT_POLL None (poll_begin p s) else Some s) = Some s'"
  shows "timers_ok suf s'" and "J s'" and "k_next s' p = (case suf of [] \<Rightarrow> None | q # _ \<Rightarrow> Some q)"
proof -
  have pop: "timers_ok suf s'" if "timers_ok (p # suf) s'" "p = etimer_process \<longrightarrow> \<not> k_needspoll s' p" for s'
  proof -
    from that(1) obtain ts pre where "timers_core s' ts" "chain (k_next s') (k_list s') ((pre @ [p]) @ suf)"
      "etimer_process \<in> set ((pre @ [p]) @ suf)" "k_needspoll s' etimer_process \<or> none_expired s' ts"
      "k_needspoll s' etimer_process \<longrightarrow> k_poll_requested s' \<or> etimer_process \<in> set (p # suf)"
      by (auto simp: timers_ok_def)
    with that(2) show ?thesis
      by (intro timers_okI [of s' ts "pre @ [p]"]) auto
  qed
  have "timers_ok suf s' \<and> J s' \<and> k_next s' p = (case suf of [] \<Rightarrow> None | q # _ \<Rightarrow> Some q)"
  proof (cases "k_needspoll s p")
    case False
    with ret have "s' = s" by simp
    with ok J False pop [of s] next_of_ok [OF ok] show ?thesis by auto
  next
    case True
    with ret have call: "call_process thr p PROCESS_EVENT_POLL None (poll_begin p s) = Some s'" by simp
    show ?thesis
    proof (cases "p = etimer_process")
      case e: True
      from ok call True poll_etimer [of suf s s'] J_own [of s' s] J next_of_ok [OF ok] show ?thesis
        unfolding e by simp
    next
      case False
      note o = poll_other [OF ok J False call]
      from pop [OF o(1)] o False next_of_ok [OF o(1)] show ?thesis by simp
    qed
  qed
  then show "timers_ok suf s'" "J s'" "k_next s' p = (case suf of [] \<Rightarrow> None | q # _ \<Rightarrow> Some q)" by blast+
qed

lemma do_poll_from_ok:
  "timers_ok suf s \<Longrightarrow> J s \<Longrightarrow> do_poll_from thr (case suf of [] \<Rightarrow> None | q # _ \<Rightarrow> Some q) s = Some s' \<Longrightarrow>
   timers_ok [] s' \<and> J s'"
proof (induction suf arbitrary: s)
  case Nil
  then show ?case by (simp add: do_poll_from.simps)
next
  case (Cons p suf)
  from Cons.prems(3) obtain s1 where
    s1: "(if k_needspoll s p then call_process thr p PROCESS_EVENT_POLL None (poll_begin p s) else Some s) = Some s1"
    and r: "do_poll_from thr (k_next s1 p) s1 = Some s'"
    by (subst (asm) do_poll_from.simps) (auto simp: bind_eq_Some_conv)
  from poll_one [OF Cons.prems(1,2) s1] Cons.IH [of s1] r show ?case by simp
qed

lemma do_poll_ok:
  assumes ok: "timers_ok [] s \<and> J s" and ret: "do_poll thr s = Some s'"
  shows "timers_ok [] s' \<and> J s'"
proof -
  let ?s = "s\<lparr>k_poll_requested := False\<rparr>"
  from ok obtain ts ps where "timers_core s ts" and ch: "chain (k_next s) (k_list s) ps"
    and "etimer_process \<in> set ps" "k_needspoll s etimer_process \<or> none_expired s ts"
    by (auto simp: timers_ok_def)
  moreover have "timers_core ?s ts = timers_core s ts" "none_expired ?s ts = none_expired s ts"
    by (rule timers_core_cong; simp)+
  ultimately have "timers_ok ps ?s"
    by (intro timers_okI [of _ ts "[]"]) auto
  moreover have "k_list s = (case ps of [] \<Rightarrow> None | q # _ \<Rightarrow> Some q)"
    using ch by (cases ps) auto
  moreover have "J ?s"
    by (rule J_own [of _ s]) (use ok in simp_all)
  ultimately show ?thesis
    using do_poll_from_ok [of ps ?s s'] ret by (simp add: do_poll_def)
qed

end

sublocale timer_threads \<subseteq> timer_scheduler: scheduler_client thr "\<lambda>s. timers_ok [] s \<and> J s" False
proof unfold_locales
  show "timers_ok [] s \<and> J s \<Longrightarrow> do_poll thr s = Some s' \<Longrightarrow> timers_ok [] s' \<and> J s'" for s s'
    by (rule do_poll_ok)
next
  fix s
  assume ok: "timers_ok [] s \<and> J s" and "0 < k_nevents s"
  then have take_ok: "timers_ok [] (take_event s)" "\<not> exit_event (ed_ev (k_events s ! unat (k_fevent s)))"
    using timers_ok_take by blast+
  have "J (take_event s)"
    by (rule J_own [of _ s]) (use ok in \<open>simp_all add: take_event_def\<close>)
  with take_ok show "timers_ok [] (s\<lparr>k_fevent := (k_fevent s + 1) mod PROCESS_CONF_NUMEVENTS, k_nevents := k_nevents s - 1\<rparr>)
      \<and> J (s\<lparr>k_fevent := (k_fevent s + 1) mod PROCESS_CONF_NUMEVENTS, k_nevents := k_nevents s - 1\<rparr>)"
    and "False \<or> \<not> exit_event (ed_ev (k_events s ! unat (k_fevent s)))"
    by (simp_all add: take_event_def)
qed

section \<open>The operations on timers\<close>

lemma request_poll_ok: "timers_ok suf s \<Longrightarrow> timers_ok suf (etimer_request_poll s)"
proof -
  assume ok: "timers_ok suf s"
  then have st: "k_state s etimer_process = PROCESS_STATE_RUNNING \<or> k_state s etimer_process = PROCESS_STATE_CALLED"
    by (auto simp: timers_ok_def timers_core_def)
  have c: "timers_core (etimer_request_poll s) ts = timers_core s ts" for ts
    by (rule timers_core_cong) simp_all
  show ?thesis
    using ok st unfolding timers_ok_def c by (auto simp: etimer_request_poll_def process_poll_def)
qed

text \<open>Any change to a set of timers after which the poll is requested and the next expiration computed again.\<close>

lemma timers_ok_update:
  assumes ok: "timers_ok suf s" and same: "k_events s' = k_events s" "k_nevents s' = k_nevents s" "k_fevent s' = k_fevent s"
    "k_lc s' = k_lc s" "k_state s' = k_state s" "k_next s' = k_next s" "k_list s' = k_list s"
    and poll: "k_needspoll s' etimer_process \<or> none_expired s' ts" "k_needspoll s' etimer_process \<longrightarrow> k_poll_requested s' \<or> etimer_process \<in> set suf"
    and ch: "chain (et_next s') (tm_list s') ts" and p: "\<forall>t\<in>set ts. et_p s' t \<noteq> None"
  shows "\<exists>n. update_time s' = Some (s'\<lparr>tm_next_expiration := n\<rparr>) \<and> timers_ok suf (s'\<lparr>tm_next_expiration := n\<rparr>)"
proof -
  from update_time_chain [OF ch] obtain n where n: "update_time s' = Some (s'\<lparr>tm_next_expiration := n\<rparr>)" "next_least s' ts n"
    by blast
  let ?s = "s'\<lparr>tm_next_expiration := n\<rparr>"
  from ok obtain ts0 pre where core: "timers_core s ts0" and chp: "chain (k_next s) (k_list s) (pre @ suf)"
    and e: "etimer_process \<in> set (pre @ suf)" by (auto simp: timers_ok_def)
  have q: "queued ?s = queued s" "ring_ok ?s = ring_ok s"
    using same by (simp_all add: queued_def ring_ok_def)
  have "next_least ?s ts (tm_next_expiration ?s)"
    using n(2) next_least_frame [OF frame_next_frame [OF scan_frame_refl, of s' n]] by simp
  from next_least_good [OF this] have "timers_core ?s ts"
    using core q same ch p by (simp add: timers_core_def)
  moreover have "none_expired ?s ts = none_expired s' ts"
    by (simp add: none_expired_def clock_time_def)
  ultimately have "timers_ok suf ?s"
    using chp e same poll by (intro timers_okI [of _ ts pre]) simp_all
  with n(1) show ?thesis by blast
qed

lemma listed_from_chain: "chain nx to ts \<Longrightarrow> listed_from nx et to = Some (et \<in> set ts)"
proof (induction ts arbitrary: to)
  case Nil
  then show ?case by (simp add: listed_from.simps)
next
  case (Cons x ts)
  then show ?case by (subst listed_from.simps) auto
qed

text \<open>The state after \<open>add_timer\<close>, but for the next expiration.\<close>

definition timer_added :: "ptr \<Rightarrow> ptr list \<Rightarrow> 'm timers_scheme \<Rightarrow> 'm timers_scheme" where
  "timer_added et ts s =
     (let s1 = etimer_request_poll s
      in if et \<in> set ts then s1
         else s1\<lparr>et_p := (et_p s1)(et := k_current s1), et_next := (et_next s1)(et := tm_list s1), tm_list := Some et\<rparr>)"

lemma timer_added_fields:
  "k_current (timer_added et ts s) = k_current s" "tm_count (timer_added et ts s) = tm_count s"
  "et_timer (timer_added et ts s) = et_timer s" "k_state (timer_added et ts s) = k_state s"
  "k_lc (timer_added et ts s) = k_lc s" "k_events (timer_added et ts s) = k_events s"
  "k_nevents (timer_added et ts s) = k_nevents s" "k_fevent (timer_added et ts s) = k_fevent s"
  "k_next (timer_added et ts s) = k_next s" "k_list (timer_added et ts s) = k_list s"
  "tm_taccr1 (timer_added et ts s) = tm_taccr1 s"
  "p \<noteq> etimer_process \<Longrightarrow> k_needspoll (timer_added et ts s) p = k_needspoll s p"
  by (simp_all add: timer_added_def Let_def etimer_request_poll_def process_poll_def)

lemma timer_added_chain:
  "chain (et_next s) (tm_list s) ts \<Longrightarrow>
   chain (et_next (timer_added et ts s)) (tm_list (timer_added et ts s)) (if et \<in> set ts then ts else et # ts)"
  by (simp add: timer_added_def Let_def)

lemma add_timer_eq:
  assumes ok: "timers_ok suf s" and cur: "k_current s \<noteq> None" and ch: "chain (et_next s) (tm_list s) ts"
  obtains n where "add_timer et (s\<lparr>et_timer := tm\<rparr>) = Some ((timer_added et ts (s\<lparr>et_timer := tm\<rparr>))\<lparr>tm_next_expiration := n\<rparr>)"
    and "timers_ok suf ((timer_added et ts (s\<lparr>et_timer := tm\<rparr>))\<lparr>tm_next_expiration := n\<rparr>)"
proof -
  define s1 where "s1 = etimer_request_poll (s\<lparr>et_timer := tm\<rparr>)"
  define s2 where "s2 = timer_added et ts (s\<lparr>et_timer := tm\<rparr>)"
  from ok ch have core: "timers_core s ts"
    using chain_unique by (fastforce simp: timers_ok_def timers_core_def)
  then have p: "\<forall>t\<in>set ts. et_p s t \<noteq> None"
    and st: "k_state s etimer_process = PROCESS_STATE_RUNNING \<or> k_state s etimer_process = PROCESS_STATE_CALLED"
    by (auto simp: timers_core_def)
  have polled: "k_needspoll s2 etimer_process" "k_poll_requested s2"
    using st by (simp_all add: s2_def timer_added_def Let_def etimer_request_poll_def process_poll_def)
  have f: "k_events s2 = k_events s" "k_nevents s2 = k_nevents s" "k_fevent s2 = k_fevent s" "k_lc s2 = k_lc s"
    "k_state s2 = k_state s" "k_next s2 = k_next s" "k_list s2 = k_list s"
    by (simp_all add: s2_def timer_added_def Let_def)
  have ch2: "chain (et_next s2) (tm_list s2) (if et \<in> set ts then ts else et # ts)"
    unfolding s2_def by (rule timer_added_chain) (use ch in simp)
  have p2: "\<forall>t\<in>set (if et \<in> set ts then ts else et # ts). et_p s2 t \<noteq> None"
    using p cur by (auto simp: s2_def timer_added_def Let_def)
  have "add_timer et (s\<lparr>et_timer := tm\<rparr>) = update_time s2"
    using p listed_from_chain [OF ch, of et]
    by (auto simp: add_timer_def s2_def timer_added_def Let_def)
  with timers_ok_update [OF ok f _ _ ch2 p2] polled show thesis
    using that by (auto simp: s2_def)
qed

lemma add_timer_ok:
  assumes ok: "timers_ok suf s" and cur: "k_current s \<noteq> None"
  shows "\<exists>s'. add_timer et (s\<lparr>et_timer := tm\<rparr>) = Some s' \<and> timers_ok suf s' \<and> k_current s' = k_current s"
proof -
  from ok obtain ts where ch: "chain (et_next s) (tm_list s) ts"
    by (auto simp: timers_ok_def timers_core_def)
  obtain n where n: "add_timer et (s\<lparr>et_timer := tm\<rparr>) = Some ((timer_added et ts (s\<lparr>et_timer := tm\<rparr>))\<lparr>tm_next_expiration := n\<rparr>)"
    and okn: "timers_ok suf ((timer_added et ts (s\<lparr>et_timer := tm\<rparr>))\<lparr>tm_next_expiration := n\<rparr>)"
    by (rule add_timer_eq [OF ok cur ch])
  show ?thesis
    unfolding n by (intro exI conjI, rule refl, rule okn) (simp add: timer_added_fields)
qed

lemma etimer_set_ok:
  "timers_ok suf s \<Longrightarrow> k_current s \<noteq> None \<Longrightarrow>
   \<exists>s'. etimer_set et interval s = Some s' \<and> timers_ok suf s' \<and> k_current s' = k_current s"
  "timers_ok suf s \<Longrightarrow> k_current s \<noteq> None \<Longrightarrow>
   \<exists>s'. etimer_reset et s = Some s' \<and> timers_ok suf s' \<and> k_current s' = k_current s"
  "timers_ok suf s \<Longrightarrow> k_current s \<noteq> None \<Longrightarrow>
   \<exists>s'. etimer_restart et s = Some s' \<and> timers_ok suf s' \<and> k_current s' = k_current s"
  by (simp_all add: etimer_set_def etimer_reset_def etimer_restart_def add_timer_ok)

lemma before_from_chain:
  "chain nx to ts \<Longrightarrow> to \<noteq> Some et \<Longrightarrow>
   (et \<notin> set ts \<longrightarrow> before_from nx et to = Some None) \<and>
   (\<forall>as bs. ts = as @ et # bs \<longrightarrow> before_from nx et to = Some (Some (last as)))"
proof (induction ts arbitrary: to)
  case Nil
  then show ?case by (simp add: before_from.simps)
next
  case (Cons x ts)
  from Cons.prems have to: "to = Some x" and ch: "chain nx (nx x) ts" and x: "x \<noteq> et" by auto
  have d: "distinct (x # ts)"
    by (rule chain_distinct [OF Cons.prems(1)])
  show ?case
  proof (cases "nx x = Some et")
    case True
    with ch have hd: "ts \<noteq> [] \<and> hd ts = et" by (cases ts) auto
    have b: "before_from nx et to = Some (Some x)"
      using to True by (subst before_from.simps) simp
    have "last as = x" if "x # ts = as @ et # bs" for as bs
    proof -
      from that x obtain as' where as: "as = x # as'" "ts = as' @ et # bs" by (cases as) auto
      with hd d show ?thesis by (cases as') auto
    qed
    with b hd x show ?thesis by (cases ts) auto
  next
    case False
    have b: "before_from nx et to = before_from nx et (nx x)"
      using to False by (subst before_from.simps) simp
    note IH = Cons.IH [OF ch False]
    have "before_from nx et to = Some (Some (last as))" if "x # ts = as @ et # bs" for as bs
    proof -
      from that x obtain as' where as: "as = x # as'" "ts = as' @ et # bs" by (cases as) auto
      moreover have "as' \<noteq> []"
        using as False ch by auto
      ultimately show ?thesis
        using IH b by simp
    qed
    with IH b x show ?thesis by simp
  qed
qed

text \<open>The fields of a timer that is not on the list do not matter.\<close>

lemma timers_ok_unlisted:
  assumes ok: "timers_ok suf s" and ch: "chain (et_next s) (tm_list s) ts" and et: "et \<notin> set ts"
  shows "timers_ok suf (s\<lparr>et_next := (et_next s)(et := x), et_p := (et_p s)(et := y)\<rparr>)"
proof -
  let ?s = "s\<lparr>et_next := (et_next s)(et := x), et_p := (et_p s)(et := y)\<rparr>"
  from ok obtain ts' pre where core: "timers_core s ts'" and rest: "chain (k_next s) (k_list s) (pre @ suf)"
    "etimer_process \<in> set (pre @ suf)" "k_needspoll s etimer_process \<or> none_expired s ts'"
    "k_needspoll s etimer_process \<longrightarrow> k_poll_requested s \<or> etimer_process \<in> set suf"
    by (auto simp: timers_ok_def)
  have "ts' = ts"
    using core ch chain_unique by (auto simp: timers_core_def)
  then have "timers_core ?s ts"
    using core et by (auto simp: timers_core_def ring_ok_def queued_def none_expired_def next_good_def next_least_def dist_of_def clock_time_def)
  with rest \<open>ts' = ts\<close> show ?thesis
    by (intro timers_okI [of _ ts pre]) (simp_all add: none_expired_def clock_time_def)
qed

text \<open>Stopping a timer takes it off the list if it is there.\<close>

lemma etimer_stop_ok:
  assumes ok: "timers_ok suf s" and ch: "chain (et_next s) (tm_list s) ts"
  shows "\<exists>s'. etimer_stop et s = Some s' \<and> timers_ok suf s' \<and> k_current s' = k_current s \<and> et_p s' = (et_p s)(et := None)
           \<and> chain (et_next s') (tm_list s') (removeAll et ts)"
proof -
  from ok ch have core: "timers_core s ts" and np: "k_needspoll s etimer_process \<or> none_expired s ts"
    and pr: "k_needspoll s etimer_process \<longrightarrow> k_poll_requested s \<or> etimer_process \<in> set suf"
    using chain_unique by (fastforce simp: timers_ok_def timers_core_def)+
  have p: "\<forall>t\<in>set ts. et_p s t \<noteq> None"
    using core by (simp add: timers_core_def)
  have d: "distinct ts" by (rule chain_distinct [OF ch])
  let ?clear = "\<lambda>s. s\<lparr>et_next := (et_next s)(et := None), et_p := (et_p s)(et := None)\<rparr>"
  have fin: ?thesis if s2: "(if tm_list s = Some et then update_time (s\<lparr>tm_list := et_next s et\<rparr>)
        else Option.bind (before_from (et_next s) et (tm_list s))
               (\<lambda>b. case b of None \<Rightarrow> Some s | Some t \<Rightarrow> update_time (s\<lparr>et_next := (et_next s)(t := et_next s et)\<rparr>))) = Some s2"
    and ok2: "timers_ok suf s2" and ch2: "chain (et_next s2) (tm_list s2) (removeAll et ts)"
    and f: "k_current s2 = k_current s" "et_p s2 = et_p s" for s2
  proof -
    have "chain ((et_next s2)(et := None)) (tm_list s2) (removeAll et ts)"
      using ch2 by simp
    then show ?thesis
      using s2 timers_ok_unlisted [OF ok2 ch2, of et None None] f by (simp add: etimer_stop_def)
  qed
  have upd: ?thesis if s1: "(if tm_list s = Some et then update_time (s\<lparr>tm_list := et_next s et\<rparr>)
        else Option.bind (before_from (et_next s) et (tm_list s))
               (\<lambda>b. case b of None \<Rightarrow> Some s | Some t \<Rightarrow> update_time (s\<lparr>et_next := (et_next s)(t := et_next s et)\<rparr>))) = update_time s1"
    and ch1: "chain (et_next s1) (tm_list s1) (removeAll et ts)"
    and s1f: "\<exists>l nx. s1 = s\<lparr>tm_list := l, et_next := nx\<rparr>" for s1
  proof -
    have n1: "k_needspoll s1 etimer_process \<or> none_expired s1 (removeAll et ts)"
      using np s1f by (auto simp: none_expired_def clock_time_def)
    have p1: "\<forall>t\<in>set (removeAll et ts). et_p s1 t \<noteq> None"
      using p s1f by auto
    from timers_ok_update [OF ok _ _ _ _ _ _ _ n1 _ ch1 p1] s1f pr obtain n where
      n: "update_time s1 = Some (s1\<lparr>tm_next_expiration := n\<rparr>)" "timers_ok suf (s1\<lparr>tm_next_expiration := n\<rparr>)" by auto
    show ?thesis
      by (rule fin [OF trans [OF s1 n(1)] n(2)]) (use ch1 s1f in auto)
  qed
  show ?thesis
  proof (cases "tm_list s = Some et")
    case True
    with ch obtain bs where ts: "ts = et # bs" "chain (et_next s) (et_next s et) bs" by (cases ts) auto
    moreover have "removeAll et ts = bs"
      using d ts by simp
    ultimately show ?thesis
      using True by (intro upd [of "s\<lparr>tm_list := et_next s et\<rparr>"]) (auto intro!: exI [of _ "et_next s"])
  next
    case False
    show ?thesis
    proof (cases "et \<in> set ts")
      case True
      then obtain as bs where ts: "ts = as @ et # bs" by (meson split_list)
      have as: "as \<noteq> []"
        using False ch ts by auto
      then obtain cs c where c: "as = cs @ [c]" by (cases as rule: rev_cases) auto
      have b: "before_from (et_next s) et (tm_list s) = Some (Some c)"
        using conjunct2 [OF before_from_chain [OF ch False], THEN spec, of as] ts c by simp
      from ch ts c have sg: "seg (et_next s) (tm_list s) cs (Some c)" and cc: "chain (et_next s) (et_next s et) bs"
        by (auto simp: chain_append)
      have "chain ((et_next s)(c := et_next s et)) (tm_list s) (cs @ c # bs)"
        using sg cc d ts c by (auto simp: chain_append)
      moreover have "removeAll et ts = cs @ c # bs"
        using d ts c by simp
      ultimately show ?thesis
        using False b by (intro upd [of "s\<lparr>et_next := (et_next s)(c := et_next s et)\<rparr>"]) (auto intro!: exI [of _ "tm_list s"])
    next
      case nin: False
      then have "before_from (et_next s) et (tm_list s) = Some None"
        using before_from_chain [OF ch False] by simp
      with False ok ch nin show ?thesis
        by (intro fin [of s]) simp_all
    qed
  qed
qed

end
