(* ===== verification/Etimer_Clock.thy ===== *)
theory Etimer_Clock
  imports Etimer_Props
begin

text \<open>
  The clock interrupt and the event timers: the interrupt counts every interval that has passed and polls the process
  of the event timers as soon as one has expired. No timer is lost, and what happens when one goes off.
\<close>

section \<open>The clock\<close>

lemma post_ok:
  assumes ok: "timers_ok suf s" and ev: "\<not> exit_event ev"
  shows "timers_ok suf (snd (process_post p ev dat s))"
proof (cases "unat (k_nevents s) = 8")
  case True
  with ok show ?thesis by (simp add: process_post_full)
next
  case False
  let ?s = "snd (process_post p ev dat s)"
  from ok obtain ts pre where core: "timers_core s ts" and rest: "chain (k_next s) (k_list s) (pre @ suf)"
    "etimer_process \<in> set (pre @ suf)" "k_needspoll s etimer_process \<or> none_expired s ts"
    "k_needspoll s etimer_process \<longrightarrow> k_poll_requested s \<or> etimer_process \<in> set suf"
    by (auto simp: timers_ok_def)
  from core have "ring_ok s" by (simp add: timers_core_def)
  note q = process_post_ok [OF this False, of p ev dat]
  have "timers_core ?s ts"
    using core q ev by (auto simp: timers_core_def none_expired_def next_good_def next_least_def dist_of_def clock_time_def)
  with rest show ?thesis
    by (intro timers_okI [of _ ts pre]) (simp_all add: none_expired_def clock_time_def)
qed

lemma poll_requested_ok: "timers_ok suf s \<Longrightarrow> timers_ok suf (s\<lparr>k_poll_requested := True\<rparr>)"
proof -
  have c: "timers_core (s\<lparr>k_poll_requested := True\<rparr>) ts = timers_core s ts"
    "none_expired (s\<lparr>k_poll_requested := True\<rparr>) ts = none_expired s ts" for ts
    by (rule timers_core_cong; simp)+
  show "timers_ok suf s \<Longrightarrow> ?thesis"
    unfolding timers_ok_def c by auto
qed

lemma poll_any_ok:
  assumes ok: "timers_ok suf s"
  shows "timers_ok suf (process_poll p s)"
proof (cases p)
  case (Some q)
  show ?thesis
  proof (cases "q = etimer_process")
    case True
    with Some request_poll_ok [OF ok] show ?thesis by (simp add: etimer_request_poll_def)
  next
    case False
    have "timers_ok suf (s\<lparr>k_needspoll := (k_needspoll s)(q := True), k_poll_requested := True\<rparr>)
        = timers_ok suf (s\<lparr>k_poll_requested := True\<rparr>)"
      by (rule timers_ok_cong; use False in simp)
    with Some ok poll_requested_ok [OF ok] show ?thesis by (simp add: process_poll_def)
  qed
qed (use ok in \<open>simp add: process_poll_def\<close>)

text \<open>The interrupt is raised when the counter has reached the compare value; \<open>late\<close> is how far it is beyond it.\<close>

lemma clock_tick_fields:
  "tm_count (clock_tick tar s) = tm_count s + 1" "tm_taccr1 (clock_tick tar s) = tm_taccr1 s + INTERVAL"
  by (simp_all add: clock_tick_def Let_def)

definition clock_frame :: "'m timers_scheme \<Rightarrow> 'm timers_scheme \<Rightarrow> bool" where
  "clock_frame s s' \<longleftrightarrow>
     s' = s\<lparr>tm_count := tm_count s', tm_seconds := tm_seconds s', tm_taccr1 := tm_taccr1 s',
            tm_last_tar := tm_last_tar s', tm_energest := tm_energest s'\<rparr>"

lemma clock_frame_trans: "clock_frame a b \<Longrightarrow> clock_frame b c \<Longrightarrow> clock_frame a c"
  unfolding clock_frame_def by (cases a; cases b; cases c) simp

lemma clock_tick_frame: "clock_frame s (clock_tick tar s)"
  by (simp add: clock_tick_def clock_frame_def Let_def)

text \<open>The loop catches up: one tick for every interval that has begun.\<close>

definition ticks_of :: "nat \<Rightarrow> nat" where
  "ticks_of late = (if late = 0 then 1 else (late + 255) div 256)"

lemma ticks_of_step: "256 < late \<Longrightarrow> ticks_of late = Suc (ticks_of (late - 256))"
proof -
  assume "256 < late"
  then obtain l where l: "late = l + 256" "0 < l" by (metis add.commute less_imp_add_positive)
  have "(l + 256 + 255) div 256 = Suc ((l + 255) div 256)"
    by simp
  with l show ?thesis by (simp add: ticks_of_def)
qed

lemma ticks_of_one: "late \<le> 256 \<Longrightarrow> ticks_of late = 1"
  by (cases "late = 0") (auto simp: ticks_of_def intro: div_nat_eqI)

lemma late_minus: "256 < unat (w :: u16) \<Longrightarrow> unat (w - 256) = unat w - 256"
  by (subst unat16_sub) (simp_all add: word_le_nat_alt)

lemma behind: "256 - w > 256 \<longleftrightarrow> unat w > 256" for w :: u16
proof -
  have sub: "unat v \<le> 256 \<Longrightarrow> unat (256 - v) = 256 - unat v" for v :: u16
    by (subst unat16_sub) (simp_all add: word_le_nat_alt)
  have n: "unat (256 :: u16) = 256" by simp
  have "unat w > 256" if "unat (256 - w) > 256"
  proof (rule ccontr)
    assume "\<not> unat w > 256"
    with sub [of w] that show False by linarith
  qed
  moreover have "unat (256 - w) > 256" if "unat w > 256"
  proof (rule ccontr)
    assume "\<not> unat (256 - w) > 256"
    then have w: "unat (256 - (256 - w)) = 256 - unat (256 - w)"
      by (intro sub) simp
    have "256 - (256 - w) = w" by simp
    from w [unfolded this] that show False by linarith
  qed
  ultimately show ?thesis
    unfolding word_less_nat_alt n by blast
qed

lemma clock_ticks_spec:
  "unat (tar - tm_taccr1 s) = late \<Longrightarrow>
   \<exists>s'. clock_ticks tar s = Some s' \<and> clock_frame s s'
      \<and> tm_count s' = tm_count s + of_nat (ticks_of late)
      \<and> tm_taccr1 s' = tm_taccr1 s + of_nat (256 * ticks_of late)"
proof (induction late arbitrary: s rule: less_induct)
  case (less late)
  let ?s = "clock_tick tar s" and ?w = "tar - tm_taccr1 s"
  have d: "tm_taccr1 ?s - tar = 256 - ?w"
    by (simp add: clock_tick_fields INTERVAL_def)
  show ?case
  proof (cases "late \<le> 256")
    case True
    then have "\<not> tm_taccr1 ?s - tar > INTERVAL"
      using behind [of ?w] less.prems unfolding d INTERVAL_def by simp
    then have "clock_ticks tar s = Some ?s"
      by (subst clock_ticks.simps) (simp only: Let_def if_False)
    with True clock_tick_frame show ?thesis
      by (simp add: ticks_of_one clock_tick_fields INTERVAL_def)
  next
    case False
    then have "tm_taccr1 ?s - tar > INTERVAL"
      using behind [of ?w] less.prems unfolding d INTERVAL_def by simp
    then have "clock_ticks tar s = clock_ticks tar ?s"
      by (subst clock_ticks.simps) (simp only: Let_def if_True)
    moreover have "unat (tar - tm_taccr1 ?s) = late - 256"
    proof -
      have "tar - tm_taccr1 ?s = ?w - 256" by (simp add: clock_tick_fields INTERVAL_def)
      moreover have "unat (?w - 256) = unat ?w - 256"
        using False less.prems by (intro late_minus) simp
      ultimately show ?thesis
        unfolding less.prems by (simp only:)
    qed
    with less.IH [of "late - 256" ?s] False obtain s' where
      "clock_ticks tar ?s = Some s'" "clock_frame ?s s'" "tm_count s' = tm_count ?s + of_nat (ticks_of (late - 256))"
      "tm_taccr1 s' = tm_taccr1 ?s + of_nat (256 * ticks_of (late - 256))" by auto
    ultimately show ?thesis
      using clock_frame_trans [OF clock_tick_frame] False ticks_of_step [of late]
      by (simp add: clock_tick_fields INTERVAL_def algebra_simps)
  qed
qed

lemma clock_frame_fields:
  assumes "clock_frame s s'"
  shows "k_events s' = k_events s" "k_nevents s' = k_nevents s" "k_fevent s' = k_fevent s" "k_lc s' = k_lc s"
    "k_state s' = k_state s" "k_next s' = k_next s" "k_list s' = k_list s" "k_needspoll s' = k_needspoll s"
    "k_poll_requested s' = k_poll_requested s" "k_current s' = k_current s"
    "et_next s' = et_next s" "tm_list s' = tm_list s" "et_p s' = et_p s" "et_timer s' = et_timer s"
    "tm_next_expiration s' = tm_next_expiration s"
  using assms unfolding clock_frame_def by (cases s; cases s'; simp)+

lemma clock_frame_more: "clock_frame s s' \<Longrightarrow> timers.more s' = timers.more s"
  unfolding clock_frame_def by (cases s; cases s'; simp)

text \<open>The clock advances by \<open>n\<close> ticks and no timer is so late that its age wraps around.\<close>

definition in_time :: "nat \<Rightarrow> 'm timers_scheme \<Rightarrow> ptr list \<Rightarrow> bool" where
  "in_time n s ts \<longleftrightarrow> (\<forall>t\<in>set ts. unat (tm_count s - t_start (et_timer s t)) + n < 65536)"

lemma age_advance:
  assumes "unat (a - b :: u16) + n < 65536" shows "unat (a + of_nat n - b) = unat (a - b) + n"
proof -
  have "a + of_nat n - b = (a - b) + of_nat n" by simp
  moreover have "unat (a - b) + unat (of_nat n :: u16) < 65536"
    using assms by simp
  ultimately show ?thesis
    using unat16_add_less [of "a - b" "of_nat n"] assms by (simp only: unat16_of_nat) simp
qed

text \<open>A timer's distance is what is left of its interval.\<close>

lemma dist_left:
  assumes "\<not> expired s t"
  shows "unat (dist_of s t) = unat (t_interval (et_timer s t)) - unat (tm_count s - t_start (et_timer s t))"
    and "unat (tm_count s - t_start (et_timer s t)) < unat (t_interval (et_timer s t))"
proof -
  let ?i = "t_interval (et_timer s t)" and ?e = "tm_count s - t_start (et_timer s t)"
  from assms have lt: "?e < ?i"
    by (simp add: timer_expired_def clock_time_def)
  then show "unat ?e < unat ?i"
    by (simp only: word_less_nat_alt)
  have "dist_of s t = ?i - ?e"
    by (simp add: dist_of_def algebra_simps)
  moreover have "unat (?i - ?e) = unat ?i - unat ?e"
    using lt by (intro unat_sub) simp
  ultimately show "unat (dist_of s t) = unat ?i - unat ?e" by (simp only:)
qed

lemma far_behind:
  fixes x :: u16
  assumes "0 < unat x" and "unat x \<le> 32768"
  shows "0 - x > MAX_TICKS"
proof (rule ccontr)
  assume "\<not> 0 - x > MAX_TICKS"
  then have u: "unat (0 - x) \<le> 32767"
    by (simp add: MAX_TICKS_def word_le_nat_alt not_less)
  have "unat ((0 - x) + x) = unat (0 - x) + unat x"
    by (rule unat16_add_less) (use u assms in linarith)
  with assms show False by simp
qed

lemma clock_advance:
  assumes fr: "clock_frame s s'" and n: "tm_count s' = tm_count s + of_nat n" "n \<le> 256" and it: "in_time n s ts"
    and good: "none_expired s ts \<Longrightarrow> next_good s ts"
  shows "none_expired s' ts \<Longrightarrow> none_expired s ts \<and> next_good s' ts"
    and "none_expired s ts \<Longrightarrow> \<not> none_expired s' ts \<Longrightarrow> tm_next_expiration s' - tm_count s' - 1 > MAX_TICKS \<and> ts \<noteq> []"
proof -
  note f = clock_frame_fields [OF fr]
  let ?e = "\<lambda>t. unat (tm_count s - t_start (et_timer s t))" and ?i = "\<lambda>t. unat (t_interval (et_timer s t))"
  have e': "unat (tm_count s' - t_start (et_timer s' t)) = ?e t + n" if "t \<in> set ts" for t
    using it that age_advance [of "tm_count s" "t_start (et_timer s t)" n] n(1) f(14) by (simp add: in_time_def)
  have ex: "expired s t \<longleftrightarrow> ?i t \<le> ?e t" for t
    by (simp add: timer_expired_def clock_time_def word_le_nat_alt)
  have ex': "expired s' t \<longleftrightarrow> ?i t \<le> ?e t + n" if "t \<in> set ts" for t
    using e' [OF that] f(14) by (simp add: timer_expired_def clock_time_def word_le_nat_alt)
  have d: "unat (dist_of s t) = ?i t - ?e t \<and> ?e t < ?i t" if "\<not> expired s t" for t
    using dist_left [OF that] by simp
  have dist': "dist_of s' t = dist_of s t - of_nat n" for t
    using f(14) n(1) by (simp add: dist_of_def algebra_simps)
  have nxt: "tm_next_expiration s' - tm_count s' = (tm_next_expiration s - tm_count s) - of_nat n"
    using f(15) n(1) by (simp add: algebra_simps)
  have of_n: "unat (of_nat n :: u16) = n"
    using n(2) by simp
  have sub: "unat (a - of_nat n) = unat a - n" if "n \<le> unat a" for a :: u16
    using that of_n by (subst unat16_sub) (simp_all add: word_le_nat_alt)
  show "none_expired s ts \<and> next_good s' ts" if ne': "none_expired s' ts"
  proof
    show ne: "none_expired s ts"
      using ne' ex ex' by (fastforce simp: none_expired_def)
    show "next_good s' ts"
      unfolding next_good_def
    proof
      assume "ts \<noteq> []"
      with good [OF ne] obtain t0 where t0: "t0 \<in> set ts" "tm_next_expiration s - tm_count s = dist_of s t0"
        and least: "\<And>t. t \<in> set ts \<Longrightarrow> dist_of s t0 \<le> dist_of s t"
        by (auto simp: next_good_def next_least_def)
      have "n \<le> unat (dist_of s t)" if "t \<in> set ts" for t
        using ne ne' that d [of t] ex' [OF that] by (auto simp: none_expired_def)
      with least t0(1) have "dist_of s' t0 \<le> dist_of s' t" if "t \<in> set ts" for t
        using that unfolding dist' word_le_nat_alt by (simp add: sub diff_le_mono)
      then show "next_least s' ts (tm_next_expiration s')"
        using t0 \<open>ts \<noteq> []\<close> nxt dist' by (auto simp: next_least_def)
    qed
  qed
  show "tm_next_expiration s' - tm_count s' - 1 > MAX_TICKS \<and> ts \<noteq> []" if ne: "none_expired s ts" and "\<not> none_expired s' ts"
  proof -
    from that(2) obtain t where t: "t \<in> set ts" "expired s' t" by (auto simp: none_expired_def)
    then have tne: "ts \<noteq> []" by auto
    with good [OF ne] obtain t0 where t0: "t0 \<in> set ts" "tm_next_expiration s - tm_count s = dist_of s t0"
      and least: "dist_of s t0 \<le> dist_of s t"
      using t(1) by (auto simp: next_good_def next_least_def)
    have "unat (dist_of s t) \<le> n"
      using d [of t] ex' [OF t(1)] t ne by (auto simp: none_expired_def)
    then have up: "unat (dist_of s t0) \<le> n"
      using least by (simp add: word_le_nat_alt)
    have lo: "unat (dist_of s t0) > 0"
      using d [of t0] ne t0(1) by (simp add: none_expired_def)
    let ?x = "of_nat n + 1 - dist_of s t0 :: u16"
    have "unat (of_nat n + 1 :: u16) = n + 1"
      using unat16_add_less [of "of_nat n" 1] n(2) of_n by simp
    then have x: "unat ?x = n + 1 - unat (dist_of s t0)"
      using up by (subst unat16_sub) (simp_all add: word_le_nat_alt)
    have "tm_next_expiration s' - tm_count s' - 1 = 0 - ?x"
      using nxt t0(2) by simp
    moreover have "0 - ?x > MAX_TICKS"
      using x up lo n(2) by (intro far_behind) linarith+
    ultimately show ?thesis
      using tne by (simp only: simp_thms)
  qed
qed

lemma etimer_interrupt_spec:
  obtains s' where "etimer_interrupt tar s = Some s'" and "clock_frame s s'"
    and "tm_count s' = tm_count s + of_nat (ticks_of (unat (tar - tm_taccr1 s)))"
    and "tm_taccr1 s' = tm_taccr1 s + of_nat (256 * ticks_of (unat (tar - tm_taccr1 s)))"
proof -
  from clock_ticks_spec [OF refl, of tar s] obtain s1 where
    s1: "clock_ticks tar s = Some s1" "clock_frame s s1" "tm_count s1 = tm_count s + of_nat (ticks_of (unat (tar - tm_taccr1 s)))"
    "tm_taccr1 s1 = tm_taccr1 s + of_nat (256 * ticks_of (unat (tar - tm_taccr1 s)))"
    by blast
  have "clock_frame s1 (s1\<lparr>tm_last_tar := tar\<rparr>)"
    by (simp add: clock_frame_def)
  from clock_frame_trans [OF s1(2) this] s1 show thesis
    using that [of "s1\<lparr>tm_last_tar := tar\<rparr>"] by (simp add: etimer_interrupt_def)
qed

lemma ticks_of_le: "ticks_of (unat (w :: u16)) \<le> 256"
proof -
  have "(unat w + 255) div 256 \<le> (65535 + 255) div 256"
    using unat16_less [of w] by (intro div_le_mono) linarith
  then show ?thesis by (simp add: ticks_of_def)
qed

lemma core_advance:
  assumes core: "timers_core s ts" and fr: "clock_frame s s'" and n: "tm_count s' = tm_count s + of_nat n" "n \<le> 256"
    and it: "in_time n s ts"
  shows "timers_core s' ts"
proof -
  note f = clock_frame_fields [OF fr]
  have good: "none_expired s ts \<Longrightarrow> next_good s ts"
    using core by (simp add: timers_core_def)
  from clock_advance(1) [OF fr n it good] core f show ?thesis
    by (auto simp: timers_core_def ring_ok_def queued_def)
qed

lemma timera1_ok:
  assumes ok: "timers_ok suf s" and ch: "chain (et_next s) (tm_list s) ts"
    and it: "in_time (ticks_of (unat (tar - tm_taccr1 s))) s ts"
  obtains s' where "timera1 tar s = Some s'" and "timers_ok suf s'"
    and "tm_count s' = tm_count s + of_nat (ticks_of (unat (tar - tm_taccr1 s)))"
    and "et_next s' = et_next s" "tm_list s' = tm_list s" "et_p s' = et_p s" "et_timer s' = et_timer s"
    "k_events s' = k_events s" "k_nevents s' = k_nevents s" "k_fevent s' = k_fevent s" "k_state s' = k_state s"
    "k_next s' = k_next s" "k_list s' = k_list s" "\<And>p. p \<noteq> etimer_process \<Longrightarrow> k_needspoll s' p = k_needspoll s p"
    "k_current s' = k_current s" "k_lc s' = k_lc s" "timers.more s' = timers.more s"
    "tm_taccr1 s' = tm_taccr1 s + of_nat (256 * ticks_of (unat (tar - tm_taccr1 s)))"
proof -
  let ?n = "ticks_of (unat (tar - tm_taccr1 s))"
  let ?s1 = "s\<lparr>tm_energest := ENERGEST_ON tar (tm_energest s) ENERGEST_TYPE_IRQ\<rparr>"
  from ok ch obtain pre where core: "timers_core s ts" and k: "chain (k_next s) (k_list s) (pre @ suf)"
    "etimer_process \<in> set (pre @ suf)" and ne: "k_needspoll s etimer_process \<or> none_expired s ts"
    and np: "k_needspoll s etimer_process \<longrightarrow> k_poll_requested s \<or> etimer_process \<in> set suf"
    using chain_unique by (fastforce simp: timers_ok_def timers_core_def)
  obtain s2 where s2: "etimer_interrupt tar ?s1 = Some s2" "clock_frame ?s1 s2" "tm_count s2 = tm_count s + of_nat ?n"
    "tm_taccr1 s2 = tm_taccr1 s + of_nat (256 * ?n)"
    using etimer_interrupt_spec [of tar ?s1] by auto
  have "clock_frame s ?s1" by (simp add: clock_frame_def)
  then have fr: "clock_frame s s2"
    using s2(2) by (rule clock_frame_trans)
  note f = clock_frame_fields [OF fr]
  note core2 = core_advance [OF core fr s2(3) ticks_of_le it]
  define b where "b \<longleftrightarrow> etimer_pending s2 \<and> etimer_next_expiration_time s2 - tm_count s2 - 1 > MAX_TICKS"
  define s3 where "s3 = (if b then etimer_request_poll s2 else s2)"
  define s4 where "s4 = s3\<lparr>tm_energest := ENERGEST_OFF tar (tm_energest s3) ENERGEST_TYPE_IRQ\<rparr>"
  have ret: "timera1 tar s = Some s4"
    using s2(1) by (simp add: timera1_def Let_def b_def s3_def s4_def)
  have st: "k_state s2 etimer_process = PROCESS_STATE_RUNNING \<or> k_state s2 etimer_process = PROCESS_STATE_CALLED"
    using core2 by (simp add: timers_core_def)
  have "k_needspoll s3 etimer_process \<or> none_expired s2 ts"
  proof (cases "none_expired s2 ts \<or> k_needspoll s etimer_process")
    case True
    with f st show ?thesis by (auto simp: s3_def etimer_request_poll_def process_poll_def)
  next
    case False
    with ne have "none_expired s ts" "\<not> none_expired s2 ts" by auto
    have "none_expired s ts \<Longrightarrow> next_good s ts"
      using core by (simp add: timers_core_def)
    from clock_advance(2) [OF fr s2(3) ticks_of_le it this] \<open>none_expired s ts\<close> False
    have "tm_next_expiration s2 - tm_count s2 - 1 > MAX_TICKS" "ts \<noteq> []" by auto
    moreover have "tm_list s2 \<noteq> None"
      using ch f \<open>ts \<noteq> []\<close> by (cases ts) auto
    ultimately have b by (simp add: b_def etimer_pending_def etimer_next_expiration_time_def)
    with st show ?thesis by (auto simp: s3_def etimer_request_poll_def process_poll_def)
  qed
  moreover have "k_needspoll s3 etimer_process \<longrightarrow> k_poll_requested s3 \<or> etimer_process \<in> set suf"
    using np f by (auto simp: s3_def etimer_request_poll_def process_poll_def)
  moreover have "timers_core s4 ts = timers_core s2 ts" "none_expired s4 ts = none_expired s2 ts"
    by (rule timers_core_cong; simp add: s4_def s3_def)+
  ultimately have "timers_ok suf s4"
    using core2 k f by (intro timers_okI [of _ ts pre]) (auto simp: s4_def s3_def)
  then show thesis
    using ret s2(3,4) f clock_frame_more [OF fr] by (intro that [of s4]) (auto simp: s4_def s3_def etimer_request_poll_def process_poll_def)
qed

section \<open>No timer is lost\<close>

text \<open>
  What happens on a node: the clock interrupt with the counter at a value, a turn of the main loop, and other
  interrupts, which are functions on the state.
\<close>

datatype 's machine_event = Clock rtimer_clock_t | Main_Loop | Interrupt "'s \<Rightarrow> 's"

fun machine_step :: "'m timers_scheme threads \<Rightarrow> 'm timers_scheme machine_event \<Rightarrow> 'm timers_scheme \<Rightarrow> 'm timers_scheme option" where
  "machine_step thr (Clock tar) s = timera1 tar s"
| "machine_step thr Main_Loop s = map_option snd (process_run thr s)"
| "machine_step thr (Interrupt f) s = Some (f s)"

fun machine_run :: "'m timers_scheme threads \<Rightarrow> 'm timers_scheme machine_event list \<Rightarrow> 'm timers_scheme \<Rightarrow> 'm timers_scheme option" where
  "machine_run thr [] s = Some s"
| "machine_run thr (e # es) s = Option.bind (machine_step thr e s) (machine_run thr es)"

text \<open>No timer is left expired until the clock wraps around, and other interrupts keep the invariant.\<close>

fun event_ok :: "('m timers_scheme \<Rightarrow> bool) \<Rightarrow> 'm timers_scheme machine_event \<Rightarrow> 'm timers_scheme \<Rightarrow> bool" where
  "event_ok J (Clock tar) s \<longleftrightarrow> (\<forall>ts. chain (et_next s) (tm_list s) ts \<longrightarrow> in_time (ticks_of (unat (tar - tm_taccr1 s))) s ts)"
| "event_ok J Main_Loop s \<longleftrightarrow> True"
| "event_ok J (Interrupt f) s \<longleftrightarrow> (timers_ok [] s \<and> J s \<longrightarrow> timers_ok [] (f s) \<and> J (f s))"

fun events_ok ::
  "'m timers_scheme threads \<Rightarrow> ('m timers_scheme \<Rightarrow> bool) \<Rightarrow> 'm timers_scheme machine_event list \<Rightarrow> 'm timers_scheme \<Rightarrow> bool" where
  "events_ok thr J [] s \<longleftrightarrow> True"
| "events_ok thr J (e # es) s \<longleftrightarrow>
     event_ok J e s \<and> (case machine_step thr e s of None \<Rightarrow> True | Some s' \<Rightarrow> events_ok thr J es s')"

context timer_threads
begin

lemma machine_step_ok:
  assumes ok: "timers_ok [] s \<and> J s" and ev: "event_ok J e s" and ret: "machine_step thr e s = Some s'"
  shows "timers_ok [] s' \<and> J s'"
proof (cases e)
  case (Clock tar)
  from ok obtain ts where ch: "chain (et_next s) (tm_list s) ts"
    by (auto simp: timers_ok_def timers_core_def)
  with ev Clock have "in_time (ticks_of (unat (tar - tm_taccr1 s))) s ts" by simp
  from timera1_ok [OF conjunct1 [OF ok] ch this] obtain s1 where
    "timera1 tar s = Some s1" "timers_ok [] s1" "timers.more s1 = timers.more s" by blast
  with ret Clock J_own [of s1 s] ok show ?thesis by simp
next
  case Main_Loop
  with ret obtain r where "process_run thr s = Some (r, s')" by auto
  from timer_scheduler.process_run_kept [OF this ok] show ?thesis .
next
  case (Interrupt f)
  with ok ev ret show ?thesis by simp
qed

lemma machine_run_ok:
  "timers_ok [] s \<and> J s \<Longrightarrow> events_ok thr J es s \<Longrightarrow> machine_run thr es s = Some s' \<Longrightarrow> timers_ok [] s' \<and> J s'"
proof (induction es arbitrary: s)
  case (Cons e es)
  then obtain s1 where s1: "machine_step thr e s = Some s1" "machine_run thr es s1 = Some s'"
    by (auto simp: bind_eq_Some_conv)
  with Cons.prems(2) have "event_ok J e s" "events_ok thr J es s1" by auto
  from Cons.IH [OF machine_step_ok [OF Cons.prems(1) this(1) s1(1)] this(2) s1(2)] show ?case .
qed simp

end

section \<open>A timer goes off\<close>

lemma do_poll_none:
  "chain (k_next s) q ps \<Longrightarrow> \<forall>p\<in>set ps. \<not> k_needspoll s p \<Longrightarrow> do_poll_from thr q s = Some s"
proof (induction ps arbitrary: q)
  case Nil
  then show ?case by (simp add: do_poll_from.simps)
next
  case (Cons p ps)
  then show ?case by (subst do_poll_from.simps) auto
qed

lemma do_poll_only:
  assumes call: "call_process thr e PROCESS_EVENT_POLL None (poll_begin e s) = Some s'"
    and same: "k_next s' = k_next s" "\<And>p. p \<noteq> e \<Longrightarrow> k_needspoll s' p = k_needspoll s p" and e: "k_needspoll s e"
  shows "chain (k_next s) q ps \<Longrightarrow> e \<in> set ps \<Longrightarrow> \<forall>p\<in>set ps. p \<noteq> e \<longrightarrow> \<not> k_needspoll s p \<Longrightarrow> do_poll_from thr q s = Some s'"
proof (induction ps arbitrary: q)
  case (Cons p ps)
  from Cons.prems have q: "q = Some p" and ch: "chain (k_next s) (k_next s p) ps" by auto
  show ?case
  proof (cases "p = e")
    case True
    have "e \<notin> set ps"
      using chain_distinct [OF Cons.prems(1)] True by simp
    then have "\<forall>p\<in>set ps. \<not> k_needspoll s' p"
      using Cons.prems(3) same(2) by (metis list.set_intros(2))
    then have "do_poll_from thr (k_next s' e) s' = Some s'"
      using ch same(1) True by (intro do_poll_none) auto
    with q True e call show ?thesis
      by (subst do_poll_from.simps) simp
  next
    case False
    with Cons.prems q have "do_poll_from thr q s = do_poll_from thr (k_next s p) s"
      by (subst do_poll_from.simps) simp
    with Cons.IH [OF ch] Cons.prems False show ?thesis by simp
  qed
qed simp

text \<open>A round of polls in which only the event timers have been polled.\<close>

lemma do_poll_etimer:
  assumes thr: "thr etimer_process = Some etimer_thread" and ok: "timers_ok [] s" and ch: "chain (et_next s) (tm_list s) ts"
    and np: "k_needspoll s etimer_process" and others: "\<forall>p. p \<noteq> etimer_process \<longrightarrow> \<not> k_needspoll s p"
  obtains s' where "do_poll thr s = Some s'" and "ring_ok s'"
    and "queued s' = queued s @ map (timer_event s) (posted_of (expired s) (room s) ts)"
    and "et_p s' = (\<lambda>t. if t \<in> set (posted_of (expired s) (room s) ts) then None else et_p s t)"
    and "chain (et_next s') (tm_list s') (kept_of (expired s) (room s) ts)"
    and "\<And>p. p \<noteq> etimer_process \<Longrightarrow> k_state s' p = k_state s p"
    and "et_timer s' = et_timer s" "tm_count s' = tm_count s" "k_lc s' = k_lc s"
    and "\<forall>p. p \<noteq> etimer_process \<longrightarrow> \<not> k_needspoll s' p" and "timers.more s' = timers.more s"
proof -
  let ?s0 = "s\<lparr>k_poll_requested := False\<rparr>"
  from ok ch obtain ps where core: "timers_core s ts" and ps: "chain (k_next s) (k_list s) ps" "etimer_process \<in> set ps"
    using chain_unique by (fastforce simp: timers_ok_def timers_core_def)
  have core0: "timers_core ?s0 ts"
    using core timers_core_cong(1) [of ?s0 s ts] by simp
  from etimer_call [of thr, OF thr core0] obtain s3 where res: "poll_result (etimer_called ?s0) ts s3"
    and call: "call_process thr etimer_process PROCESS_EVENT_POLL None (poll_begin etimer_process ?s0) =
         Some (s3\<lparr>k_state := (k_state s3)(etimer_process := PROCESS_STATE_RUNNING)\<rparr>)" by blast
  let ?s' = "s3\<lparr>k_state := (k_state s3)(etimer_process := PROCESS_STATE_RUNNING)\<rparr>"
  let ?c = "etimer_called ?s0"
  have c: "expired ?c = expired s" "room ?c = room s" "queued ?c = queued s" "timer_event ?c = timer_event s" "et_p ?c = et_p s"
    by (simp_all add: etimer_called_def poll_begin_def clock_time_def room_def queued_def timer_event_def fun_eq_iff)
  note r = res [unfolded poll_result_def Let_def c]
  have fr: "scan_frame ?c s3" using r by blast
  note f = scan_frame_fields [OF fr]
  have npo: "k_needspoll s3 p = k_needspoll s p" if "p \<noteq> etimer_process" for p
    using r that by (auto simp: etimer_called_def poll_begin_def etimer_request_poll_def process_poll_def)
  have "do_poll_from thr (k_list s) ?s0 = Some ?s'"
  proof (rule do_poll_only [OF call _ _ _ _ ps(2)])
    show "chain (k_next ?s0) (k_list s) ps" using ps(1) by simp
    show "\<forall>p\<in>set ps. p \<noteq> etimer_process \<longrightarrow> \<not> k_needspoll ?s0 p" using others by simp
  qed (use f npo np in \<open>simp_all add: etimer_called_def poll_begin_def\<close>)
  then have "do_poll thr s = Some ?s'"
    by (simp add: do_poll_def)
  then show thesis
    by (rule that) (use r f npo others scan_frame_more [OF fr] in \<open>simp_all add: ring_ok_def queued_def etimer_called_def poll_begin_def\<close>)
qed

text \<open>A turn of the main loop after the polls: the first event of the queue goes to its receiver.\<close>

lemma run_first_event:
  assumes poll: "k_poll_requested s" "do_poll thr s = Some s1" and ring: "ring_ok s1"
    and q: "queued s1 = \<lparr>ed_ev = ev, ed_data = dat, ed_p = Some p\<rparr> # es" and ev: "ev \<noteq> PROCESS_EVENT_INIT"
  shows "process_run thr s = map_option (\<lambda>s3. (process_nevents s3, s3)) (call_process thr p ev dat (take_event s1))"
    and "ring_ok (take_event s1)" and "queued (take_event s1) = es"
proof -
  have "length (queued s1) = unat (k_nevents s1)" by simp
  with q have "unat (k_nevents s1) \<noteq> 0" by simp
  then have n: "k_nevents s1 > 0"
    by (metis unat_0 word_gt_0)
  note tk = take_event_ok [OF ring n]
  show "ring_ok (take_event s1)" "queued (take_event s1) = es"
    using tk q by simp_all
  have "k_events s1 ! unat (k_fevent s1) = \<lparr>ed_ev = ev, ed_data = dat, ed_p = Some p\<rparr>"
    using tk(2) q by simp
  then have "do_event thr s1 = call_process thr p ev dat (take_event s1)"
    using n ev by (simp add: do_event_eq Let_def)
  then show "process_run thr s = map_option (\<lambda>s3. (process_nevents s3, s3)) (call_process thr p ev dat (take_event s1))"
    using poll by (simp add: process_run_def)
qed

text \<open>What a run of the scheduler does when the queue was empty: the first of the posted timers' owners is called.\<close>

lemma run_first_timer:
  assumes thr: "thr etimer_process = Some etimer_thread" and ok: "timers_ok [] s" and ch: "chain (et_next s) (tm_list s) ts"
    and np: "k_needspoll s etimer_process" and others: "\<forall>p. p \<noteq> etimer_process \<longrightarrow> \<not> k_needspoll s p"
    and empty: "k_nevents s = 0"
    and ts: "ts = pre @ t # rest" "\<forall>x\<in>set pre. \<not> expired s x" "expired s t" and p: "et_p s t = Some p"
  obtains s2 where "process_run thr s =
      map_option (\<lambda>s3. (process_nevents s3, s3)) (call_process thr p PROCESS_EVENT_TIMER (Some t) s2)"
    and "ring_ok s2" and "queued s2 = map (timer_event s) (posted_of (expired s) 7 (pre @ rest))"
    and "et_p s2 t = None" and "chain (et_next s2) (tm_list s2) (kept_of (expired s) 7 (pre @ rest))"
    and "p \<noteq> etimer_process \<Longrightarrow> k_state s2 p = k_state s p" and "tm_count s2 = tm_count s" "et_timer s2 = et_timer s"
    "k_lc s2 = k_lc s" and "\<forall>q. q \<noteq> etimer_process \<longrightarrow> \<not> k_needspoll s2 q" and "timers.more s2 = timers.more s"
proof -
  from do_poll_etimer [of thr s ts, OF thr ok ch np others] obtain s1 where
    s1: "do_poll thr s = Some s1" "ring_ok s1" "queued s1 = queued s @ map (timer_event s) (posted_of (expired s) (room s) ts)"
    "et_p s1 = (\<lambda>t. if t \<in> set (posted_of (expired s) (room s) ts) then None else et_p s t)"
    "chain (et_next s1) (tm_list s1) (kept_of (expired s) (room s) ts)"
    "\<And>p. p \<noteq> etimer_process \<Longrightarrow> k_state s1 p = k_state s p"
    "et_timer s1 = et_timer s" "tm_count s1 = tm_count s" "k_lc s1 = k_lc s"
    "\<forall>p. p \<noteq> etimer_process \<longrightarrow> \<not> k_needspoll s1 p" "timers.more s1 = timers.more s" by blast
  have room: "room s = Suc 7" "queued s = []"
    using empty by (simp_all add: room_def queued_def)
  have d: "distinct (pre @ t # rest)"
    using chain_distinct [OF ch] ts(1) by simp
  note step = posted_kept_step [OF d ts(2,3), of 7]
  have q: "queued s1 = \<lparr>ed_ev = PROCESS_EVENT_TIMER, ed_data = Some t, ed_p = Some p\<rparr> #
      map (timer_event s) (posted_of (expired s) 7 (pre @ rest))"
    using s1(3) room step(1) ts(1) p by (simp add: timer_event_def)
  have pr: "k_poll_requested s"
    using ok np by (auto simp: timers_ok_def)
  have ev: "PROCESS_EVENT_TIMER \<noteq> PROCESS_EVENT_INIT"
    by (simp add: process_events)
  note run = run_first_event [OF pr s1(1,2) q ev]
  show thesis
    by (rule that [OF run(1)]) (use run(2,3) s1 room step ts(1) in \<open>simp_all add: take_event_def\<close>)
qed

text \<open>A sequence of clock interrupts, and the number of ticks they count.\<close>

fun clock_run :: "rtimer_clock_t list \<Rightarrow> 'm timers_scheme \<Rightarrow> 'm timers_scheme option" where
  "clock_run [] s = Some s"
| "clock_run (tar # tars) s = Option.bind (timera1 tar s) (clock_run tars)"

fun ticks_counted :: "rtimer_clock_t list \<Rightarrow> rtimer_clock_t \<Rightarrow> nat" where
  "ticks_counted [] ccr = 0"
| "ticks_counted (tar # tars) ccr =
     (let n = ticks_of (unat (tar - ccr)) in n + ticks_counted tars (ccr + of_nat (256 * n)))"

lemma in_time_less: "in_time n s ts \<Longrightarrow> m \<le> n \<Longrightarrow> in_time m s ts"
  unfolding in_time_def by fastforce

lemma in_time_advance:
  assumes "in_time (a + b) s ts" and "et_timer s' = et_timer s" and "tm_count s' = tm_count s + of_nat a"
  shows "in_time b s' ts"
  unfolding in_time_def
proof
  fix t assume "t \<in> set ts"
  with assms(1) have le: "unat (tm_count s - t_start (et_timer s t)) + (a + b) < 65536"
    by (simp add: in_time_def)
  then have "unat (tm_count s + of_nat a - t_start (et_timer s t)) = unat (tm_count s - t_start (et_timer s t)) + a"
    by (intro age_advance) linarith
  with le show "unat (tm_count s' - t_start (et_timer s' t)) + b < 65536"
    unfolding assms(2,3) by linarith
qed

lemma clock_run_ok:
  "timers_ok suf s \<Longrightarrow> chain (et_next s) (tm_list s) ts \<Longrightarrow> in_time (ticks_counted tars (tm_taccr1 s)) s ts \<Longrightarrow>
   \<exists>s'. clock_run tars s = Some s' \<and> timers_ok suf s' \<and> tm_count s' = tm_count s + of_nat (ticks_counted tars (tm_taccr1 s))
     \<and> et_next s' = et_next s \<and> tm_list s' = tm_list s \<and> et_p s' = et_p s \<and> et_timer s' = et_timer s
     \<and> k_nevents s' = k_nevents s \<and> k_state s' = k_state s \<and> k_lc s' = k_lc s \<and> k_current s' = k_current s
     \<and> (\<forall>p. p \<noteq> etimer_process \<longrightarrow> k_needspoll s' p = k_needspoll s p) \<and> timers.more s' = timers.more s"
proof (induction tars arbitrary: s)
  case (Cons tar tars)
  let ?n = "ticks_of (unat (tar - tm_taccr1 s))"
  have "in_time ?n s ts"
    using Cons.prems(3) by (rule in_time_less) (simp add: Let_def)
  from timera1_ok [OF Cons.prems(1,2) this] obtain s1 where
    s1: "timera1 tar s = Some s1" "timers_ok suf s1" "tm_count s1 = tm_count s + of_nat ?n"
    "et_next s1 = et_next s" "tm_list s1 = tm_list s" "et_p s1 = et_p s" "et_timer s1 = et_timer s"
    "k_nevents s1 = k_nevents s" "k_state s1 = k_state s" "k_lc s1 = k_lc s" "k_current s1 = k_current s"
    "\<And>p. p \<noteq> etimer_process \<Longrightarrow> k_needspoll s1 p = k_needspoll s p" "timers.more s1 = timers.more s"
    "tm_taccr1 s1 = tm_taccr1 s + of_nat (256 * ?n)"
    by blast
  let ?m = "ticks_counted tars (tm_taccr1 s1)"
  have n: "ticks_counted (tar # tars) (tm_taccr1 s) = ?n + ?m"
    by (simp add: Let_def s1(14))
  have "in_time ?m s1 ts"
    by (rule in_time_advance [of ?n _ s]) (use Cons.prems(3) n s1 in simp_all)
  with Cons.IH [OF s1(2)] Cons.prems(2) s1(4,5) obtain s' where
    "clock_run tars s1 = Some s'" "timers_ok suf s'" "tm_count s' = tm_count s1 + of_nat ?m"
    "et_next s' = et_next s1" "tm_list s' = tm_list s1" "et_p s' = et_p s1" "et_timer s' = et_timer s1"
    "k_nevents s' = k_nevents s1" "k_state s' = k_state s1" "k_lc s' = k_lc s1" "k_current s' = k_current s1"
    "\<forall>p. p \<noteq> etimer_process \<longrightarrow> k_needspoll s' p = k_needspoll s1 p" "timers.more s' = timers.more s1" by auto
  with s1 n show ?case
    by (intro exI [of _ s']) simp
qed simp

end
