(* ===== verification/Ctimer.thy ===== *)
theory Ctimer
  imports Etimer_Clock
begin

text \<open>
  The callback timers, \<open>core/net/rime/ctimer.c\<close>: a list of timers (\<open>core/lib/list.c\<close>), each with an event timer, and the
  process that calls a timer's function when its event arrives. What a callback does is a parameter.
\<close>

section \<open>State and operations\<close>

record ctimers = timers +
  ct_heap :: lheap
  ct_initialized :: bool
  ct_p :: "ptr \<Rightarrow> ptr option"
  ct_f :: "ptr \<Rightarrow> ptr option"
  ct_ptr :: "ptr \<Rightarrow> ptr option"

text \<open>
  The event timer of a \<open>struct ctimer\<close> comes after its \<open>next\<close> pointer of two bytes. A callback is a function of its address
  and its argument.
\<close>

definition ct_etimer :: "ptr \<Rightarrow> ptr" where "ct_etimer c = c + 2"

definition ctimer_process :: ptr where "ctimer_process = 2"

type_synonym 's callbacks = "ptr \<Rightarrow> ptr option \<Rightarrow> 's \<Rightarrow> 's option"

lemma ct_etimer_eq [simp]: "ct_etimer a = ct_etimer b \<longleftrightarrow> a = b"
  by (simp add: ct_etimer_def)

text \<open>\<open>PROCESS_CONTEXT_BEGIN(p)\<close> ... \<open>PROCESS_CONTEXT_END(p)\<close>.\<close>

definition in_context :: "ptr option \<Rightarrow> ('m kernel_scheme \<Rightarrow> 'm kernel_scheme option) \<Rightarrow> 'm kernel_scheme \<Rightarrow> 'm kernel_scheme option" where
  "in_context p f s = map_option (\<lambda>s'. s'\<lparr>k_current := k_current s\<rparr>) (f (s\<lparr>k_current := p\<rparr>))"

text \<open>\<open>list_remove(ctimer_list, c); list_add(ctimer_list, c);\<close>\<close>

definition ctimer_enlist :: "ptr \<Rightarrow> 'm ctimers_scheme \<Rightarrow> 'm ctimers_scheme option" where
  "ctimer_enlist c s =
     Option.bind (list_remove (ct_heap s) c)
       (\<lambda>h. map_option (\<lambda>h'. s\<lparr>ct_heap := h'\<rparr>) (list_add h c))"

definition ctimer_set ::
  "ptr \<Rightarrow> clock_time_t \<Rightarrow> ptr option \<Rightarrow> ptr option \<Rightarrow> 'm ctimers_scheme \<Rightarrow> 'm ctimers_scheme option" where
  "ctimer_set c t f p s =
     (let s1 = s\<lparr>ct_p := (ct_p s)(c := k_current s), ct_f := (ct_f s)(c := f), ct_ptr := (ct_ptr s)(c := p)\<rparr>
      in Option.bind
           (if ct_initialized s1 then in_context (Some ctimer_process) (etimer_set (ct_etimer c) t) s1
            else Some (s1\<lparr>et_timer := (et_timer s1)(ct_etimer c := (et_timer s1 (ct_etimer c))\<lparr>t_interval := t\<rparr>)\<rparr>))
           (ctimer_enlist c))"

definition ctimer_reset :: "ptr \<Rightarrow> 'm ctimers_scheme \<Rightarrow> 'm ctimers_scheme option" where
  "ctimer_reset c s =
     Option.bind (if ct_initialized s then in_context (Some ctimer_process) (etimer_reset (ct_etimer c)) s else Some s)
       (ctimer_enlist c)"

definition ctimer_stop :: "ptr \<Rightarrow> 'm ctimers_scheme \<Rightarrow> 'm ctimers_scheme option" where
  "ctimer_stop c s =
     Option.bind
       (if ct_initialized s then etimer_stop (ct_etimer c) s
        else Some (s\<lparr>et_next := (et_next s)(ct_etimer c := None), et_p := (et_p s)(ct_etimer c := None)\<rparr>))
       (\<lambda>s1. map_option (\<lambda>h. s1\<lparr>ct_heap := h\<rparr>) (list_remove (ct_heap s1) c))"

section \<open>The process of the callback timers\<close>

text \<open>The timers that were set before the process started get their event timers.\<close>

partial_function (option) ctimer_start_from :: "ptr option \<Rightarrow> 'm ctimers_scheme \<Rightarrow> 'm ctimers_scheme option" where
  "ctimer_start_from co s =
     (case co of
        None \<Rightarrow> Some s
      | Some c \<Rightarrow>
          Option.bind (etimer_set (ct_etimer c) (t_interval (et_timer s (ct_etimer c))) s)
            (\<lambda>s'. ctimer_start_from (lnext (ct_heap s') c) s'))"

text \<open>The body of the loop over the list, for the timer whose event has arrived.\<close>

definition ctimer_call :: "'m ctimers_scheme callbacks \<Rightarrow> ptr \<Rightarrow> 'm ctimers_scheme \<Rightarrow> 'm ctimers_scheme option" where
  "ctimer_call cb c s =
     Option.bind (list_remove (ct_heap s) c)
       (\<lambda>h. let s1 = s\<lparr>ct_heap := h\<rparr>
            in in_context (ct_p s1 c)
                 (\<lambda>s2. case ct_f s2 c of None \<Rightarrow> Some s2 | Some f \<Rightarrow> cb f (ct_ptr s2 c) s2) s1)"

partial_function (option) ctimer_from ::
  "'m ctimers_scheme callbacks \<Rightarrow> process_data_t \<Rightarrow> ptr option \<Rightarrow> 'm ctimers_scheme \<Rightarrow> 'm ctimers_scheme option" where
  "ctimer_from cb dat co s =
     (case co of
        None \<Rightarrow> Some s
      | Some c \<Rightarrow> if Some (ct_etimer c) = dat then ctimer_call cb c s else ctimer_from cb dat (lnext (ct_heap s) c) s)"

definition ctimer_thread_step ::
  "'m ctimers_scheme callbacks \<Rightarrow> process_event_t \<Rightarrow> process_data_t \<Rightarrow> 'm ctimers_scheme \<Rightarrow> 'm ctimers_scheme option" where
  "ctimer_thread_step cb ev dat s =
     (if k_lc s ctimer_process = 0
      then map_option (\<lambda>s'. s'\<lparr>ct_initialized := True, k_lc := (k_lc s')(ctimer_process := 1)\<rparr>)
             (ctimer_start_from (list_head (ct_heap s)) s)
      else if ev = PROCESS_EVENT_TIMER then ctimer_from cb dat (list_head (ct_heap s)) s
      else Some s)"

definition ctimer_thread ::
  "'m ctimers_scheme callbacks \<Rightarrow> process_event_t \<Rightarrow> process_data_t \<Rightarrow> 'm ctimers_scheme thread" where
  "ctimer_thread cb ev dat = Compute (\<lambda>s. map_option (\<lambda>s'. (s', Return PT_YIELDED)) (ctimer_thread_step cb ev dat s))"

definition ctimer_init :: "'m ctimers_scheme threads \<Rightarrow> 'm ctimers_scheme \<Rightarrow> 'm ctimers_scheme option" where
  "ctimer_init thr s = process_start thr ctimer_process None (s\<lparr>ct_initialized := False, ct_heap := list_init (ct_heap s)\<rparr>)"

section \<open>What the operations keep\<close>

lemma timers_ok_ct [simp]:
  "timers_ok suf (s\<lparr>ct_heap := h\<rparr>) = timers_ok suf s"
  "timers_ok suf (s\<lparr>ct_p := h1, ct_f := h2, ct_ptr := h3\<rparr>) = timers_ok suf s"
  "timers_ok suf (s\<lparr>ct_initialized := b\<rparr>) = timers_ok suf s"
  by (rule timers_ok_cong; simp)+

lemma ctimer_enlist_ok:
  assumes rep: "lrep (ct_heap s) cs"
  obtains h where "ctimer_enlist c s = Some (s\<lparr>ct_heap := h\<rparr>)" and "lrep h (remove1 c cs @ [c])"
proof -
  from list_remove_rep [OF rep, of c] obtain h1 where h1: "list_remove (ct_heap s) c = Some h1" "lrep h1 (remove1 c cs)"
    by blast
  have "c \<notin> set (remove1 c cs)"
    using lrep_distinct [OF rep] by simp
  from list_add_rep [OF h1(2) this] obtain h where "list_add h1 c = Some h" "lrep h (remove1 c cs @ [c])"
    by blast
  with h1(1) show thesis
    by (intro that [of h]) (simp_all add: ctimer_enlist_def)
qed

text \<open>The state after \<open>ctimer_set\<close>, but for the next expiration and the list of callback timers.\<close>

definition ctimer_armed ::
  "ptr \<Rightarrow> clock_time_t \<Rightarrow> ptr option \<Rightarrow> ptr option \<Rightarrow> ptr list \<Rightarrow> 'm ctimers_scheme \<Rightarrow> 'm ctimers_scheme" where
  "ctimer_armed c t f p ts s =
     (timer_added (ct_etimer c) ts
        (s\<lparr>ct_p := (ct_p s)(c := k_current s), ct_f := (ct_f s)(c := f), ct_ptr := (ct_ptr s)(c := p), k_current := Some ctimer_process,
          et_timer := (et_timer s)(ct_etimer c := timer_set (clock_time s) (et_timer s (ct_etimer c)) t)\<rparr>))\<lparr>k_current := k_current s\<rparr>"

lemma ctimer_set_ok:
  assumes ok: "timers_ok suf s" and init: "ct_initialized s" and ch: "chain (et_next s) (tm_list s) ts"
    and rep: "lrep (ct_heap s) cs"
  obtains n h where "ctimer_set c t f p s = Some ((ctimer_armed c t f p ts s)\<lparr>tm_next_expiration := n, ct_heap := h\<rparr>)"
    and "timers_ok suf ((ctimer_armed c t f p ts s)\<lparr>tm_next_expiration := n, ct_heap := h\<rparr>)"
    and "lrep h (remove1 c cs @ [c])"
proof -
  let ?s1 = "s\<lparr>ct_p := (ct_p s)(c := k_current s), ct_f := (ct_f s)(c := f), ct_ptr := (ct_ptr s)(c := p)\<rparr>"
  let ?s2 = "?s1\<lparr>k_current := Some ctimer_process\<rparr>"
  have ok2: "timers_ok suf ?s2"
    using timers_ok_current [of suf ?s1] ok by simp
  have ch2: "chain (et_next ?s2) (tm_list ?s2) ts"
    using ch by simp
  from add_timer_eq [OF ok2 _ ch2, of "ct_etimer c" "(et_timer ?s2)(ct_etimer c := timer_set (clock_time ?s2) (et_timer ?s2 (ct_etimer c)) t)"]
  obtain n where n: "etimer_set (ct_etimer c) t ?s2 = Some ((timer_added (ct_etimer c) ts (?s2\<lparr>et_timer := (et_timer ?s2)(ct_etimer c := timer_set (clock_time ?s2) (et_timer ?s2 (ct_etimer c)) t)\<rparr>))\<lparr>tm_next_expiration := n\<rparr>)"
    and okn: "timers_ok suf ((timer_added (ct_etimer c) ts (?s2\<lparr>et_timer := (et_timer ?s2)(ct_etimer c := timer_set (clock_time ?s2) (et_timer ?s2 (ct_etimer c)) t)\<rparr>))\<lparr>tm_next_expiration := n\<rparr>)"
    by (auto simp: etimer_set_def)
  let ?s3 = "(ctimer_armed c t f p ts s)\<lparr>tm_next_expiration := n\<rparr>"
  have s3: "in_context (Some ctimer_process) (etimer_set (ct_etimer c) t) ?s1 = Some ?s3"
    using n by (simp add: in_context_def ctimer_armed_def clock_time_def)
  have ok3: "timers_ok suf ?s3"
    using okn by (subst timers_ok_cong [of _ "(timer_added (ct_etimer c) ts (?s2\<lparr>et_timer := (et_timer ?s2)(ct_etimer c := timer_set (clock_time ?s2) (et_timer ?s2 (ct_etimer c)) t)\<rparr>))\<lparr>tm_next_expiration := n\<rparr>"])
      (simp_all add: ctimer_armed_def clock_time_def)
  have "lrep (ct_heap ?s3) cs"
    using rep by (simp add: ctimer_armed_def timer_added_def Let_def etimer_request_poll_def process_poll_def)
  from ctimer_enlist_ok [OF this, of c] obtain h where
    h: "ctimer_enlist c ?s3 = Some (?s3\<lparr>ct_heap := h\<rparr>)" "lrep h (remove1 c cs @ [c])" by blast
  have "ctimer_set c t f p s = Some (?s3\<lparr>ct_heap := h\<rparr>)"
    using s3 h(1) init by (simp add: ctimer_set_def)
  with h(2) ok3 show thesis
    by (intro that [of h n]) simp_all
qed

lemma ctimer_from_chain:
  "chain (lnext (ct_heap s)) co cs \<Longrightarrow>
   ctimer_from cb (Some (ct_etimer c)) co s = (if c \<in> set cs then ctimer_call cb c s else Some s)"
proof (induction cs arbitrary: co)
  case Nil
  then show ?case by (simp add: ctimer_from.simps)
next
  case (Cons x cs)
  then show ?case by (subst ctimer_from.simps) auto
qed

text \<open>The event of a callback timer reaches the process: its callback is called if the timer is still on the list.\<close>

lemma ctimer_event:
  assumes thr: "thr ctimer_process = Some (ctimer_thread cb)" and run: "k_state s ctimer_process = PROCESS_STATE_RUNNING"
    and lc: "k_lc s ctimer_process \<noteq> 0" and rep: "lrep (ct_heap s) cs"
    and f: "ct_f s c = Some f" "ct_ptr s c = p"
  shows "c \<in> set cs \<Longrightarrow> \<exists>h. lrep h (remove1 c cs) \<and>
      call_process thr ctimer_process PROCESS_EVENT_TIMER (Some (ct_etimer c)) s =
        map_option (\<lambda>s'. s'\<lparr>k_current := Some ctimer_process, k_state := (k_state s')(ctimer_process := PROCESS_STATE_RUNNING)\<rparr>)
          (cb f p (s\<lparr>k_state := (k_state s)(ctimer_process := PROCESS_STATE_CALLED), ct_heap := h, k_current := ct_p s c\<rparr>))"
    and "c \<notin> set cs \<Longrightarrow>
      call_process thr ctimer_process PROCESS_EVENT_TIMER (Some (ct_etimer c)) s = Some (s\<lparr>k_current := Some ctimer_process\<rparr>)"
proof -
  let ?s = "s\<lparr>k_current := Some ctimer_process, k_state := (k_state s)(ctimer_process := PROCESS_STATE_CALLED)\<rparr>"
  have st: "k_state s ctimer_process AND PROCESS_STATE_RUNNING \<noteq> 0"
    using run by (simp add: PROCESS_STATE_RUNNING_def)
  have call: "call_process thr ctimer_process PROCESS_EVENT_TIMER (Some (ct_etimer c)) s =
      map_option (\<lambda>s'. s'\<lparr>k_state := (k_state s')(ctimer_process := PROCESS_STATE_RUNNING)\<rparr>)
        (if c \<in> set cs then ctimer_call cb c ?s else Some ?s)"
  proof -
    have "ctimer_thread_step cb PROCESS_EVENT_TIMER (Some (ct_etimer c)) ?s = (if c \<in> set cs then ctimer_call cb c ?s else Some ?s)"
      using ctimer_from_chain [of ?s "lhead (ct_heap s)" cs cb c] rep lc
      by (simp add: ctimer_thread_step_def lrep_def list_head_def)
    then show ?thesis
      using thr st by (subst call_process_eq)
        (simp add: ctimer_thread_def run_thread_simps pt_results process_events map_option_case option.case_eq_if bind_eq_None_conv
          split: option.split Option.bind_split)
  qed
  show "\<exists>h. lrep h (remove1 c cs) \<and>
      call_process thr ctimer_process PROCESS_EVENT_TIMER (Some (ct_etimer c)) s =
        map_option (\<lambda>s'. s'\<lparr>k_current := Some ctimer_process, k_state := (k_state s')(ctimer_process := PROCESS_STATE_RUNNING)\<rparr>)
          (cb f p (s\<lparr>k_state := (k_state s)(ctimer_process := PROCESS_STATE_CALLED), ct_heap := h, k_current := ct_p s c\<rparr>))"
    if "c \<in> set cs"
  proof -
    from list_remove_rep [OF rep, of c] obtain h where h: "list_remove (ct_heap s) c = Some h" "lrep h (remove1 c cs)" by blast
    have "ctimer_call cb c ?s = map_option (\<lambda>s'. s'\<lparr>k_current := Some ctimer_process\<rparr>)
        (cb f p (s\<lparr>k_state := (k_state s)(ctimer_process := PROCESS_STATE_CALLED), ct_heap := h, k_current := ct_p s c\<rparr>))"
      using h(1) f by (simp add: ctimer_call_def in_context_def)
    with call that h(2) show ?thesis
      by (intro exI [of _ h]) (simp add: option.map_comp o_def)
  qed
  show "c \<notin> set cs \<Longrightarrow>
      call_process thr ctimer_process PROCESS_EVENT_TIMER (Some (ct_etimer c)) s = Some (s\<lparr>k_current := Some ctimer_process\<rparr>)"
    using call run by (simp add: fun_upd_idem)
qed

section \<open>What the timer is when it has been set\<close>

lemma ct_own:
  assumes "timers.more s' = timers.more s"
  shows "ct_heap s' = ct_heap s" "ct_initialized s' = ct_initialized s" "ct_p s' = ct_p s" "ct_f s' = ct_f s" "ct_ptr s' = ct_ptr s"
  using assms by (cases s; cases s'; simp)+

lemma ctimer_armed_fields:
  "k_nevents (ctimer_armed c t f p ts s) = k_nevents s" "k_state (ctimer_armed c t f p ts s) = k_state s"
  "k_lc (ctimer_armed c t f p ts s) = k_lc s" "k_current (ctimer_armed c t f p ts s) = k_current s"
  "tm_count (ctimer_armed c t f p ts s) = tm_count s" "tm_taccr1 (ctimer_armed c t f p ts s) = tm_taccr1 s"
  "q \<noteq> etimer_process \<Longrightarrow> k_needspoll (ctimer_armed c t f p ts s) q = k_needspoll s q"
  "et_timer (ctimer_armed c t f p ts s) = (et_timer s)(ct_etimer c := timer_set (tm_count s) (et_timer s (ct_etimer c)) t)"
  "ct_p (ctimer_armed c t f p ts s) = (ct_p s)(c := k_current s)" "ct_f (ctimer_armed c t f p ts s) = (ct_f s)(c := f)"
  "ct_ptr (ctimer_armed c t f p ts s) = (ct_ptr s)(c := p)"
  "k_events (ctimer_armed c t f p ts s) = k_events s" "k_fevent (ctimer_armed c t f p ts s) = k_fevent s"
  by (simp_all add: ctimer_armed_def timer_added_def Let_def etimer_request_poll_def process_poll_def clock_time_def)

lemma ctimer_armed_chain:
  assumes ch: "chain (et_next s) (tm_list s) ts" and new: "ct_etimer c \<notin> set ts"
  shows "chain (et_next (ctimer_armed c t f p ts s)) (tm_list (ctimer_armed c t f p ts s)) (ct_etimer c # ts)"
    and "et_p (ctimer_armed c t f p ts s) = (et_p s)(ct_etimer c := Some ctimer_process)"
  using ch new by (simp_all add: ctimer_armed_def timer_added_def Let_def etimer_request_poll_def process_poll_def)

end
