(* ===== verification/Node_Timers.thy ===== *)
theory Node_Timers
  imports Ctimer
begin

text \<open>
  A node whose processes are the event timers, the callback timers and application processes, over the kernel: its
  processes respect the invariant of the timers, every call returns, and the platform's start establishes the invariant.
\<close>

section \<open>The programs of a node\<close>

text \<open>
  What a callback or an application process does when it is called is a sequence of calls of the timers and of the kernel,
  chosen from the event and the state: it sets, resets, restarts and stops timers, polls processes, and posts events. Not among the calls
  are \<open>etimer_adjust\<close>, starting a process, synchronous posts, and the exit of a process, with the events of it, which no call can
  post: their type is that of the other events.
\<close>

typedef posted_event = "{ev :: process_event_t. \<not> exit_event ev}"
  morphisms event_of posted
proof
  show "PROCESS_EVENT_CONTINUE \<in> {ev. \<not> exit_event ev}"
    by (simp add: exit_event_def process_events)
qed

lemma event_of_no_exit [simp]: "\<not> exit_event (event_of ev)"
  using event_of [of ev] by simp

datatype callback_action =
    Set_Callback ptr clock_time_t "ptr option" "ptr option" | Reset_Callback ptr | Stop_Callback ptr
  | Post "ptr option" posted_event process_data_t | Poll "ptr option"

datatype action =
    Callback_Action callback_action | Set_Timer ptr clock_time_t | Reset_Timer ptr | Restart_Timer ptr | Stop_Timer ptr

fun do_callback_action :: "callback_action \<Rightarrow> 'm ctimers_scheme \<Rightarrow> 'm ctimers_scheme option" where
  "do_callback_action (Set_Callback c t f p) s = ctimer_set c t f p s"
| "do_callback_action (Reset_Callback c) s = ctimer_reset c s"
| "do_callback_action (Stop_Callback c) s = ctimer_stop c s"
| "do_callback_action (Post p ev dat) s = Some (snd (process_post p (event_of ev) dat s))"
| "do_callback_action (Poll p) s = Some (process_poll p s)"

fun do_action :: "action \<Rightarrow> 'm ctimers_scheme \<Rightarrow> 'm ctimers_scheme option" where
  "do_action (Callback_Action a) s = do_callback_action a s"
| "do_action (Set_Timer t i) s = etimer_set t i s"
| "do_action (Reset_Timer t) s = etimer_reset t s"
| "do_action (Restart_Timer t) s = etimer_restart t s"
| "do_action (Stop_Timer t) s = etimer_stop t s"

fun do_all :: "('a \<Rightarrow> 's \<Rightarrow> 's option) \<Rightarrow> 'a list \<Rightarrow> 's \<Rightarrow> 's option" where
  "do_all f [] s = Some s"
| "do_all f (a # as) s = Option.bind (f a s) (do_all f as)"

record 's programs =
  callback_program :: "ptr \<Rightarrow> ptr option \<Rightarrow> 's \<Rightarrow> callback_action list"
  process_program :: "ptr \<Rightarrow> (process_event_t \<Rightarrow> process_data_t \<Rightarrow> 's \<Rightarrow> action list) option"

definition node_callbacks :: "'m ctimers_scheme programs \<Rightarrow> 'm ctimers_scheme callbacks" where
  "node_callbacks pg f p s = do_all do_callback_action (callback_program pg f p s) s"

definition node_threads :: "'m ctimers_scheme programs \<Rightarrow> 'm ctimers_scheme threads" where
  "node_threads pg p =
     (if p = etimer_process then Some etimer_thread
      else if p = ctimer_process then Some (ctimer_thread (node_callbacks pg))
      else map_option (\<lambda>g ev dat. Compute (\<lambda>s. map_option (\<lambda>s'. (s', Return PT_YIELDED)) (do_all do_action (g ev dat s) s)))
             (process_program pg p))"

section \<open>What the calls keep\<close>

text \<open>The callback timers have started, and their list is one.\<close>

definition ctimers_ok :: "'m ctimers_scheme \<Rightarrow> bool" where
  "ctimers_ok s \<longleftrightarrow> ct_initialized s \<and> (\<exists>cs. lrep (ct_heap s) cs)"

lemma ctimers_ok_own: "timers.more s' = timers.more s \<Longrightarrow> ctimers_ok s \<Longrightarrow> ctimers_ok s'"
  using ct_own(1,2) [of s' s] by (simp add: ctimers_ok_def)

text \<open>The calls leave alone the list of processes, and the state that is not the timers'.\<close>

definition beside :: "'m timers_scheme \<Rightarrow> (ptr \<Rightarrow> ptr option) \<times> ptr option \<times> 'm" where
  "beside s = (k_next s, k_list s, timers.more s)"

lemma update_time_more: "update_time s = Some s' \<Longrightarrow> beside s' = beside s"
  by (auto simp: beside_def update_time_def Let_def split: option.splits)

lemma request_poll_more: "beside (etimer_request_poll s) = beside s"
  by (simp add: beside_def etimer_request_poll_def process_poll_def)

lemma add_timer_more: "add_timer et s = Some s' \<Longrightarrow> beside s' = beside s"
  using request_poll_more [of s]
  by (auto simp: add_timer_def Let_def bind_eq_Some_conv split: if_splits dest!: update_time_more) (simp_all add: beside_def)

lemma etimer_more:
  "etimer_set et i s = Some s' \<Longrightarrow> beside s' = beside s"
  "etimer_reset et s = Some s' \<Longrightarrow> beside s' = beside s"
  "etimer_restart et s = Some s' \<Longrightarrow> beside s' = beside s"
  "etimer_stop et s = Some s' \<Longrightarrow> beside s' = beside s"
  by (auto simp: etimer_set_def etimer_reset_def etimer_restart_def etimer_stop_def bind_eq_Some_conv
      split: if_splits option.splits dest!: add_timer_more update_time_more) (simp_all add: beside_def)

lemma beside_own: "beside s' = beside s \<Longrightarrow> ctimers_ok s \<Longrightarrow> ctimers_ok s' \<and> k_next s' = k_next s \<and> k_list s' = k_list s"
  using ctimers_ok_own [of s' s] by (simp add: beside_def)

definition call_ok :: "ptr list \<Rightarrow> 'm ctimers_scheme \<Rightarrow> 'm ctimers_scheme option \<Rightarrow> bool" where
  "call_ok suf s r \<longleftrightarrow>
     (\<exists>s'. r = Some s' \<and> timers_ok suf s' \<and> ctimers_ok s' \<and> k_current s' = k_current s
        \<and> k_next s' = k_next s \<and> k_list s' = k_list s)"

lemma enlist_call_ok:
  assumes "call_ok suf s r" shows "call_ok suf s (Option.bind r (ctimer_enlist c))"
proof -
  from assms obtain s1 cs where s1: "r = Some s1" "timers_ok suf s1" "lrep (ct_heap s1) cs" "ct_initialized s1"
      "k_current s1 = k_current s" "k_next s1 = k_next s" "k_list s1 = k_list s"
    by (auto simp: call_ok_def ctimers_ok_def)
  from ctimer_enlist_ok [OF s1(3), of c] obtain h where "ctimer_enlist c s1 = Some (s1\<lparr>ct_heap := h\<rparr>)" "lrep h (remove1 c cs @ [c])"
    by blast
  with s1 show ?thesis by (auto simp: call_ok_def ctimers_ok_def)
qed

lemma etimer_call_ok:
  assumes ok: "timers_ok suf s" "ctimers_ok s" and cur: "k_current s \<noteq> None"
  shows "call_ok suf s (etimer_set et i s)" "call_ok suf s (etimer_reset et s)" "call_ok suf s (etimer_restart et s)"
    and "call_ok suf s (etimer_stop et s)"
proof -
  note st = etimer_set_ok [OF ok(1) cur]
  note cm = etimer_more [THEN beside_own, OF _ ok(2)]
  show "call_ok suf s (etimer_set et i s)" "call_ok suf s (etimer_reset et s)" "call_ok suf s (etimer_restart et s)"
    unfolding call_ok_def using st cm by metis+
  from ok(1) obtain ts where "chain (et_next s) (tm_list s) ts"
    by (auto simp: timers_ok_def timers_core_def)
  from etimer_stop_ok [OF ok(1) this, of et] cm(4) show "call_ok suf s (etimer_stop et s)"
    unfolding call_ok_def by metis
qed

lemma ctimers_ok_upd [simp]:
  "ctimers_ok (s\<lparr>k_current := x\<rparr>) = ctimers_ok s"
  "ctimers_ok (s\<lparr>ct_p := h1, ct_f := h2, ct_ptr := h3\<rparr>) = ctimers_ok s"
  by (simp_all add: ctimers_ok_def)

lemma context_call_ok:
  assumes ok: "timers_ok suf s" "ctimers_ok s"
    and f: "\<And>s. timers_ok suf s \<Longrightarrow> ctimers_ok s \<Longrightarrow> k_current s = p \<Longrightarrow> call_ok suf s (f s)"
  shows "call_ok suf s (in_context p f s)"
proof -
  from f [of "s\<lparr>k_current := p\<rparr>"] ok timers_ok_current [OF ok(1)]
  obtain s' where "f (s\<lparr>k_current := p\<rparr>) = Some s'" "timers_ok suf s'" "ctimers_ok s'"
      "k_next s' = k_next s" "k_list s' = k_list s"
    by (auto simp: call_ok_def)
  then show ?thesis
    using timers_ok_current [of suf s' "k_current s"] by (simp add: call_ok_def in_context_def)
qed

lemma ctimer_call_ok:
  assumes ok: "timers_ok suf s" "ctimers_ok s"
  shows "call_ok suf s (ctimer_set c t f p s)" "call_ok suf s (ctimer_reset c s)" "call_ok suf s (ctimer_stop c s)"
proof -
  have init: "ct_initialized s" using ok(2) by (simp add: ctimers_ok_def)
  let ?s1 = "s\<lparr>ct_p := (ct_p s)(c := k_current s), ct_f := (ct_f s)(c := f), ct_ptr := (ct_ptr s)(c := p)\<rparr>"
  have "call_ok suf ?s1 (in_context (Some ctimer_process) (etimer_set (ct_etimer c) t) ?s1)"
    by (rule context_call_ok, simp add: ok, simp add: ok) (rule etimer_call_ok; simp)
  then show "call_ok suf s (ctimer_set c t f p s)"
    using enlist_call_ok [of suf ?s1] init by (simp add: ctimer_set_def call_ok_def)
  have "call_ok suf s (in_context (Some ctimer_process) (etimer_reset (ct_etimer c)) s)"
    by (rule context_call_ok [OF ok]) (rule etimer_call_ok; simp)
  then show "call_ok suf s (ctimer_reset c s)"
    using enlist_call_ok init by (simp add: ctimer_reset_def)
  from ok(1) obtain ts where "chain (et_next s) (tm_list s) ts"
    by (auto simp: timers_ok_def timers_core_def)
  from etimer_stop_ok [OF ok(1) this, of "ct_etimer c"] obtain s1 where
    s1: "etimer_stop (ct_etimer c) s = Some s1" "timers_ok suf s1" "k_current s1 = k_current s" by blast
  from ok(2) beside_own [OF etimer_more(4) [OF s1(1)]] obtain cs where cs: "ct_initialized s1" "lrep (ct_heap s1) cs"
      "k_next s1 = k_next s" "k_list s1 = k_list s"
    by (auto simp: ctimers_ok_def)
  from list_remove_rep [OF cs(2), of c] obtain h where "list_remove (ct_heap s1) c = Some h" "lrep h (remove1 c cs)" by blast
  with s1 cs init show "call_ok suf s (ctimer_stop c s)"
    by (auto simp: ctimer_stop_def call_ok_def ctimers_ok_def)
qed

lemma do_callback_action_ok:
  assumes ok: "timers_ok suf s" "ctimers_ok s" shows "call_ok suf s (do_callback_action a s)"
proof -
  have "call_ok suf s (Some (snd (process_post p ev dat s)))" if "\<not> exit_event ev" for p ev dat
  proof -
    have "beside (snd (process_post p ev dat s)) = beside s" "k_current (snd (process_post p ev dat s)) = k_current s"
      by (simp_all add: beside_def process_post_def Let_def)
    with ok post_ok [OF ok(1) that, of p dat] beside_own [OF this(1)] show ?thesis
      by (auto simp: call_ok_def)
  qed
  moreover have "call_ok suf s (Some (process_poll p s))" for p
  proof -
    have "beside (process_poll p s) = beside s" "k_current (process_poll p s) = k_current s"
      by (simp_all add: beside_def process_poll_def split: option.split)
    with ok poll_any_ok [OF ok(1)] beside_own [OF this(1)] show ?thesis
      by (auto simp: call_ok_def)
  qed
  ultimately show ?thesis
    using ctimer_call_ok [OF ok] by (cases a) simp_all
qed

lemma do_action_ok:
  "timers_ok suf s \<Longrightarrow> ctimers_ok s \<Longrightarrow> k_current s \<noteq> None \<Longrightarrow> call_ok suf s (do_action a s)"
  by (cases a) (simp_all add: do_callback_action_ok etimer_call_ok)

lemma do_all_ok:
  assumes "\<And>a s. timers_ok suf s \<Longrightarrow> ctimers_ok s \<Longrightarrow> k_current s = cur \<Longrightarrow> call_ok suf s (f a s)"
  shows "timers_ok suf s \<Longrightarrow> ctimers_ok s \<Longrightarrow> k_current s = cur \<Longrightarrow> call_ok suf s (do_all f as s)"
proof (induction as arbitrary: s)
  case (Cons a as)
  from assms [OF Cons.prems] obtain s1 where "f a s = Some s1" "timers_ok suf s1" "ctimers_ok s1" "k_current s1 = k_current s"
      "k_next s1 = k_next s" "k_list s1 = k_list s"
    by (auto simp: call_ok_def)
  with Cons.IH [of s1] Cons.prems show ?case
    by (simp add: call_ok_def)
qed (simp add: call_ok_def)

section \<open>The process of the callback timers\<close>

lemma ctimer_start_from_ok:
  "chain (lnext (ct_heap s)) co cs \<Longrightarrow> timers_ok suf s \<Longrightarrow> ctimers_ok s \<Longrightarrow> k_current s \<noteq> None \<Longrightarrow>
   call_ok suf s (ctimer_start_from co s)"
proof (induction cs arbitrary: co s)
  case Nil
  then show ?case by (simp add: ctimer_start_from.simps call_ok_def)
next
  case (Cons c cs)
  then have co: "co = Some c" "chain (lnext (ct_heap s)) (lnext (ct_heap s) c) cs" by auto
  from etimer_call_ok(1) [OF Cons.prems(2-4)] obtain s1 where
    s1: "etimer_set (ct_etimer c) (t_interval (et_timer s (ct_etimer c))) s = Some s1" "timers_ok suf s1" "ctimers_ok s1"
      "k_current s1 = k_current s" "k_next s1 = k_next s" "k_list s1 = k_list s"
    by (auto simp: call_ok_def)
  have "ct_heap s1 = ct_heap s"
    using etimer_more(1) [OF s1(1)] by (intro ct_own(1)) (simp add: beside_def)
  with Cons.IH [of s1 "lnext (ct_heap s) c"] s1 co Cons.prems(4) show ?case
    by (subst ctimer_start_from.simps) (simp add: call_ok_def)
qed

lemma ctimer_thread_step_ok:
  assumes ok: "timers_ok suf s" "ctimers_ok s" "k_current s \<noteq> None"
    and cb: "\<And>f p s. timers_ok suf s \<Longrightarrow> ctimers_ok s \<Longrightarrow> call_ok suf s (cb f p s)"
  shows "call_ok suf s (ctimer_thread_step cb ev dat s)"
proof -
  from ok(2) obtain cs where rep: "lrep (ct_heap s) cs" and init: "ct_initialized s"
    by (auto simp: ctimers_ok_def)
  then have ch: "chain (lnext (ct_heap s)) (list_head (ct_heap s)) cs"
    by (simp add: lrep_def list_head_def)
  have "call_ok suf s (map_option (\<lambda>s'. s'\<lparr>ct_initialized := True, k_lc := (k_lc s')(ctimer_process := 1)\<rparr>)
          (ctimer_start_from (list_head (ct_heap s)) s))"
  proof -
    from ctimer_start_from_ok [OF ch ok] obtain s1 where
      s1: "ctimer_start_from (list_head (ct_heap s)) s = Some s1" "timers_ok suf s1" "ctimers_ok s1" "k_current s1 = k_current s"
        "k_next s1 = k_next s" "k_list s1 = k_list s"
      by (auto simp: call_ok_def)
    have "timers_ok suf (s1\<lparr>ct_initialized := True, k_lc := (k_lc s1)(ctimer_process := 1)\<rparr>) = timers_ok suf s1"
      by (rule timers_ok_cong) (simp_all add: ctimer_process_def etimer_process_def)
    with s1 show ?thesis
      by (auto simp: call_ok_def ctimers_ok_def)
  qed
  moreover have "call_ok suf s (ctimer_call cb c s)" for c
  proof -
    from list_remove_rep [OF rep, of c] obtain h where h: "list_remove (ct_heap s) c = Some h" "lrep h (remove1 c cs)" by blast
    let ?s = "s\<lparr>ct_heap := h\<rparr>"
    have body: "call_ok suf s2 (case ct_f s2 c of None \<Rightarrow> Some s2 | Some f \<Rightarrow> cb f (ct_ptr s2 c) s2)"
      if "timers_ok suf s2" "ctimers_ok s2" for s2
      using cb [OF that] that by (cases "ct_f s2 c") (simp_all add: call_ok_def)
    have "timers_ok suf ?s" "ctimers_ok ?s"
      using ok h(2) init by (auto simp: ctimers_ok_def)
    then have "call_ok suf ?s (in_context (ct_p ?s c) (\<lambda>s2. case ct_f s2 c of None \<Rightarrow> Some s2 | Some f \<Rightarrow> cb f (ct_ptr s2 c) s2) ?s)"
      by (rule context_call_ok) (rule body)
    with h(1) show ?thesis
      by (simp add: ctimer_call_def Let_def call_ok_def)
  qed
  moreover have "call_ok suf s (Some s)"
    using ok by (simp add: call_ok_def)
  moreover have "call_ok suf s (ctimer_from cb dat (list_head (ct_heap s)) s)"
  proof (cases "\<exists>c. dat = Some (ct_etimer c)")
    case True
    then obtain c where "dat = Some (ct_etimer c)" ..
    with ctimer_from_chain [OF ch, of cb c] calculation show ?thesis by simp
  next
    case False
    have "chain (lnext (ct_heap s)) co cs \<Longrightarrow> ctimer_from cb dat co s = Some s" for co cs
    proof (induction cs arbitrary: co)
      case (Cons x cs)
      with False show ?case by (subst ctimer_from.simps) auto
    qed (simp add: ctimer_from.simps)
    with ch calculation show ?thesis by simp
  qed
  ultimately show ?thesis
    by (simp add: ctimer_thread_step_def)
qed

section \<open>The node\<close>

lemma compute_keeps:
  assumes "\<And>s. timers_ok suf s \<Longrightarrow> ctimers_ok s \<Longrightarrow> k_current s \<noteq> None \<Longrightarrow> call_ok suf s (f s)"
  shows "keeps (\<lambda>s. timers_ok suf s \<and> ctimers_ok s) False (Compute (\<lambda>s. map_option (\<lambda>s'. (s', Return PT_YIELDED)) (f s)))"
proof (rule keeps_Compute)
  fix s s' :: "'a ctimers_scheme" and t :: "'a ctimers_scheme thread"
  assume "timers_ok suf s \<and> ctimers_ok s" "k_current s \<noteq> None" "map_option (\<lambda>s'. (s', Return PT_YIELDED)) (f s) = Some (s', t)"
  with assms [of s] show "(timers_ok suf s' \<and> ctimers_ok s') \<and> k_current s' \<noteq> None \<and> keeps (\<lambda>s. timers_ok suf s \<and> ctimers_ok s) False t"
    by (auto simp: call_ok_def keeps_simps pt_results)
qed

lemma node_callbacks_ok: "timers_ok suf s \<Longrightarrow> ctimers_ok s \<Longrightarrow> call_ok suf s (node_callbacks pg f p s)"
  unfolding node_callbacks_def by (rule do_all_ok) (simp_all add: do_callback_action_ok)

interpretation nt: timer_threads "node_threads pg" ctimers_ok for pg :: "'m ctimers_scheme programs"
proof unfold_locales
  show "node_threads pg etimer_process = Some etimer_thread"
    by (simp add: node_threads_def)
  show "timers.more s' = timers.more s \<Longrightarrow> ctimers_ok s \<Longrightarrow> ctimers_ok s'" for s s' :: "'m ctimers_scheme"
    by (rule ctimers_ok_own)
  fix p ev suf dat and g :: "process_event_t \<Rightarrow> process_data_t \<Rightarrow> 'm ctimers_scheme thread"
  assume "node_threads pg p = Some g" "p \<noteq> etimer_process"
  then consider "g = ctimer_thread (node_callbacks pg)"
    | h where "g = (\<lambda>ev dat. Compute (\<lambda>s. map_option (\<lambda>s'. (s', Return PT_YIELDED)) (do_all do_action (h ev dat s) s)))"
    by (auto simp: node_threads_def split: if_splits)
  then show "keeps (\<lambda>s. timers_ok suf s \<and> ctimers_ok s) False (g ev dat)"
  proof cases
    case 1
    show ?thesis
      unfolding 1 ctimer_thread_def
      by (rule compute_keeps) (rule ctimer_thread_step_ok; simp add: node_callbacks_ok)
  next
    case 2
    show ?thesis
      unfolding 2 by (rule compute_keeps) (rule do_all_ok; simp add: do_action_ok)
  qed
qed

section \<open>Every call, and every turn of the main loop, returns\<close>

lemma node_thread_total:
  assumes ok: "timers_ok suf s" "ctimers_ok s" "k_current s \<noteq> None" and ev: "\<not> exit_event ev"
    and g: "node_threads pg p = Some g"
  shows "\<exists>s'. run_thread thr (g ev dat) s = Some (PT_YIELDED, s') \<and> k_next s' = k_next s \<and> k_list s' = k_list s"
proof (cases "p = etimer_process")
  case True
  from ok(1) obtain ts where "timers_core s ts" by (auto simp: timers_ok_def)
  from thread_step_poll [OF this ev, of dat] obtain s' where
    s': "etimer_thread_step ev dat s = Some s'" "if ev = PROCESS_EVENT_POLL then poll_result s ts s' else s' = s" by blast
  then have "k_next s' = k_next s \<and> k_list s' = k_list s"
    using scan_frame_fields [of s s'] by (auto simp: poll_result_def Let_def split: if_splits)
  moreover have "g = etimer_thread"
    using g True by (simp add: node_threads_def)
  ultimately show ?thesis
    using s'(1) by (simp add: etimer_thread_def run_thread_simps)
next
  case False
  have "\<exists>f. g ev dat = Compute (\<lambda>s. map_option (\<lambda>s'. (s', Return PT_YIELDED)) (f s)) \<and> call_ok suf s (f s)"
  proof (cases "p = ctimer_process")
    case True
    have "call_ok suf s (ctimer_thread_step (node_callbacks pg) ev dat s)"
      by (rule ctimer_thread_step_ok [OF ok]) (rule node_callbacks_ok)
    with True False g show ?thesis
      by (auto simp: node_threads_def ctimer_thread_def)
  next
    case app: False
    with False g obtain h where "g = (\<lambda>ev dat. Compute (\<lambda>s. map_option (\<lambda>s'. (s', Return PT_YIELDED)) (do_all do_action (h ev dat s) s)))"
      by (auto simp: node_threads_def)
    moreover have "call_ok suf s (do_all do_action (h ev dat s) s)" for h
      by (rule do_all_ok [OF do_action_ok, of suf "k_current s"]) (use ok in auto)
    ultimately show ?thesis
      by (intro exI [of _ "\<lambda>s. do_all do_action (h ev dat s) s"]) simp
  qed
  then show ?thesis
    by (auto simp: call_ok_def run_thread_simps)
qed

lemma node_call_total:
  assumes ok: "timers_ok suf s" "ctimers_ok s" and ev: "\<not> exit_event ev"
  shows "\<exists>s'. call_process (node_threads pg) p ev dat s = Some s' \<and> k_next s' = k_next s \<and> k_list s' = k_list s"
proof (cases "k_state s p AND PROCESS_STATE_RUNNING \<noteq> 0 \<and> node_threads pg p \<noteq> None")
  case True
  then obtain g where g: "node_threads pg p = Some g" by auto
  let ?s = "s\<lparr>k_current := Some p, k_state := (k_state s)(p := PROCESS_STATE_CALLED)\<rparr>"
  have "timers_ok suf ?s"
    using timers_ok_state [of suf "s\<lparr>k_current := Some p\<rparr>" PROCESS_STATE_CALLED p] timers_ok_current [OF ok(1)] by simp
  moreover have "ctimers_ok ?s"
    using ok(2) by (simp add: ctimers_ok_def)
  ultimately obtain s' where "run_thread (node_threads pg) (g ev dat) ?s = Some (PT_YIELDED, s')" "k_next s' = k_next s" "k_list s' = k_list s"
    using node_thread_total [of suf ?s, OF _ _ _ ev g] by auto
  with True g ev show ?thesis
    by (subst call_process_eq) (simp add: pt_results exit_event_def)
next
  case False
  then show ?thesis
    by (subst call_process_eq) auto
qed

lemma node_poll_total:
  "timers_ok suf s \<Longrightarrow> ctimers_ok s \<Longrightarrow>
   \<exists>s'. do_poll_from (node_threads pg) (case suf of [] \<Rightarrow> None | q # _ \<Rightarrow> Some q) s = Some s' \<and> k_next s' = k_next s \<and> k_list s' = k_list s"
proof (induction suf arbitrary: s)
  case Nil
  then show ?case by (simp add: do_poll_from.simps)
next
  case (Cons p suf)
  let ?r = "if k_needspoll s p then call_process (node_threads pg) p PROCESS_EVENT_POLL None (poll_begin p s) else Some s"
  have ev: "\<not> exit_event PROCESS_EVENT_POLL"
    by (simp add: exit_event_def process_events)
  have "\<exists>s1. ?r = Some s1 \<and> k_next s1 = k_next s \<and> k_list s1 = k_list s"
  proof (cases "p = etimer_process")
    case True
    from Cons.prems(1) obtain ts where core: "timers_core s ts" by (auto simp: timers_ok_def)
    have thr: "node_threads pg etimer_process = Some etimer_thread"
      by (simp add: node_threads_def)
    from etimer_call [of "node_threads pg", OF thr core] obtain s3 where
      s3: "poll_result (etimer_called s) ts s3" "call_process (node_threads pg) etimer_process PROCESS_EVENT_POLL None (poll_begin etimer_process s) =
         Some (s3\<lparr>k_state := (k_state s3)(etimer_process := PROCESS_STATE_RUNNING)\<rparr>)" by blast
    have "k_next s3 = k_next s" "k_list s3 = k_list s"
      using s3(1) scan_frame_fields [of "etimer_called s" s3] by (auto simp: poll_result_def Let_def etimer_called_def poll_begin_def)
    with s3(2) True show ?thesis by auto
  next
    case False
    have "timers_ok (p # suf) (poll_begin p s)" "ctimers_ok (poll_begin p s)"
      using Cons.prems nt.poll_begin_other False by (auto simp: poll_begin_def ctimers_ok_def)
    from node_call_total [OF this ev, of pg p None] show ?thesis
      by (auto simp: poll_begin_def)
  qed
  then obtain s1 where s1: "?r = Some s1" "k_next s1 = k_next s" "k_list s1 = k_list s" by blast
  note one = nt.poll_one [OF Cons.prems s1(1)]
  from Cons.IH [OF one(1,2)] obtain s' where
    "do_poll_from (node_threads pg) (case suf of [] \<Rightarrow> None | q # _ \<Rightarrow> Some q) s1 = Some s'" "k_next s' = k_next s1" "k_list s' = k_list s1"
    by blast
  with s1 one(3) show ?case
    by (subst do_poll_from.simps) simp
qed

lemma node_do_poll_total:
  assumes ok: "timers_ok [] s" "ctimers_ok s"
  shows "\<exists>s'. do_poll (node_threads pg) s = Some s' \<and> timers_ok [] s' \<and> ctimers_ok s' \<and> k_next s' = k_next s \<and> k_list s' = k_list s"
proof -
  let ?s = "s\<lparr>k_poll_requested := False\<rparr>"
  from ok obtain ts ps where "timers_core s ts" and ch: "chain (k_next s) (k_list s) ps"
    and "etimer_process \<in> set ps" "k_needspoll s etimer_process \<or> none_expired s ts"
    by (auto simp: timers_ok_def)
  moreover have "timers_core ?s ts = timers_core s ts" "none_expired ?s ts = none_expired s ts"
    by (rule timers_core_cong; simp)+
  ultimately have "timers_ok ps ?s"
    by (intro timers_okI [of _ ts "[]"]) auto
  moreover have "k_list s = (case ps of [] \<Rightarrow> None | q # _ \<Rightarrow> Some q)"
    using ch by (cases ps) auto
  moreover have "ctimers_ok ?s"
    using ok(2) by (simp add: ctimers_ok_def)
  ultimately obtain s' where "do_poll (node_threads pg) s = Some s'" "k_next s' = k_next s" "k_list s' = k_list s"
    using node_poll_total [of ps ?s pg] by (auto simp: do_poll_def)
  with nt.do_poll_ok [OF conjI [OF ok]] show ?thesis by blast
qed

lemma node_broadcast_total:
  assumes ev: "\<not> exit_event ev"
  shows "chain (k_next s) po ps \<Longrightarrow> timers_ok [] s \<Longrightarrow> ctimers_ok s \<Longrightarrow> \<exists>s'. broadcast_from (node_threads pg) ev dat po s = Some s'"
proof (induction ps arbitrary: po s)
  case Nil
  then show ?case by (simp add: broadcast_from.simps)
next
  case (Cons p ps)
  then have po: "po = Some p" and ch: "chain (k_next s) (k_next s p) ps" by auto
  obtain s1 where s1: "(if k_poll_requested s then do_poll (node_threads pg) s else Some s) = Some s1"
    "timers_ok [] s1" "ctimers_ok s1" "k_next s1 = k_next s"
    using node_do_poll_total [OF Cons.prems(2,3)] Cons.prems(2,3) by (cases "k_poll_requested s") auto
  from node_call_total [OF s1(2,3) ev, of pg p dat] obtain s2 where
    s2: "call_process (node_threads pg) p ev dat s1 = Some s2" "k_next s2 = k_next s1" by blast
  have "timers_ok [] s2 \<and> ctimers_ok s2"
    using nt.call_process_kept [OF s2(1), of "[]"] s1(2,3) ev by simp
  with Cons.IH [of s2 "k_next s2 p"] ch s1 s2 po show ?case
    by (subst broadcast_from.simps) simp
qed

lemma node_process_run_total:
  assumes ok: "timers_ok [] s" "ctimers_ok s"
  shows "\<exists>r s'. process_run (node_threads pg) s = Some (r, s') \<and> timers_ok [] s' \<and> ctimers_ok s'"
proof -
  obtain s1 where s1: "(if k_poll_requested s then do_poll (node_threads pg) s else Some s) = Some s1"
    "timers_ok [] s1" "ctimers_ok s1"
    using node_do_poll_total [OF ok] ok by (cases "k_poll_requested s") auto
  have "\<exists>s2. do_event (node_threads pg) s1 = Some s2"
  proof (cases "k_nevents s1 > 0")
    case True
    let ?e = "k_events s1 ! unat (k_fevent s1)" and ?t = "take_event s1"
    note tk = timers_ok_take [OF s1(2) True]
    have ct: "ctimers_ok ?t"
      using s1(3) by (simp add: take_event_def ctimers_ok_def)
    from tk(1) obtain ps where ch: "chain (k_next ?t) (k_list ?t) ps"
      by (auto simp: timers_ok_def)
    have "timers_ok [] (if ed_ev ?e = PROCESS_EVENT_INIT then ?t\<lparr>k_state := (k_state ?t)(p := PROCESS_STATE_RUNNING)\<rparr> else ?t)" for p
      using tk(1) timers_ok_state [OF tk(1), of PROCESS_STATE_RUNNING p] by simp
    moreover have "ctimers_ok (if ed_ev ?e = PROCESS_EVENT_INIT then ?t\<lparr>k_state := (k_state ?t)(p := PROCESS_STATE_RUNNING)\<rparr> else ?t)" for p
      using ct by (simp add: ctimers_ok_def)
    ultimately have "\<exists>s2. call_process (node_threads pg) p (ed_ev ?e) (ed_data ?e)
        (if ed_ev ?e = PROCESS_EVENT_INIT then ?t\<lparr>k_state := (k_state ?t)(p := PROCESS_STATE_RUNNING)\<rparr> else ?t) = Some s2" for p
      using node_call_total [OF _ _ tk(2)] by blast
    with node_broadcast_total [OF tk(2) ch tk(1) ct] True show ?thesis
      by (simp add: do_event_eq Let_def split: option.split)
  qed (simp add: do_event_eq)
  then obtain s2 where "process_run (node_threads pg) s = Some (process_nevents s2, s2)"
    using s1(1) by (auto simp: process_run_def)
  with nt.timer_scheduler.process_run_kept [OF this conjI [OF ok]] show ?thesis by blast
qed

lemma node_run_total:
  "timers_ok [] s \<Longrightarrow> ctimers_ok s \<Longrightarrow> events_ok (node_threads pg) ctimers_ok es s \<Longrightarrow>
   \<exists>s'. machine_run (node_threads pg) es s = Some s' \<and> timers_ok [] s' \<and> ctimers_ok s'"
proof (induction es arbitrary: s)
  case (Cons e es)
  have "\<exists>s1. machine_step (node_threads pg) e s = Some s1"
  proof (cases e)
    case (Clock tar)
    from Cons.prems(1) obtain ts where ch: "chain (et_next s) (tm_list s) ts"
      by (auto simp: timers_ok_def timers_core_def)
    with Cons.prems(3) Clock have "in_time (ticks_of (unat (tar - tm_taccr1 s))) s ts" by simp
    from timera1_ok [OF Cons.prems(1) ch this] Clock show ?thesis by auto
  next
    case Main_Loop
    with node_process_run_total [OF Cons.prems(1,2), of pg] show ?thesis by auto
  qed simp
  then obtain s1 where s1: "machine_step (node_threads pg) e s = Some s1" ..
  with Cons.prems(3) have ev: "event_ok ctimers_ok e s" "events_ok (node_threads pg) ctimers_ok es s1" by auto
  from nt.machine_step_ok [OF conjI [OF Cons.prems(1,2)] ev(1) s1] Cons.IH [of s1] ev(2) s1 show ?case by simp
qed simp

section \<open>The node starts\<close>

text \<open>The part of the platform's \<open>main\<close> that starts the kernel and the two kinds of timers.\<close>

definition node_boot :: "'m ctimers_scheme threads \<Rightarrow> 'm ctimers_scheme \<Rightarrow> 'm ctimers_scheme option" where
  "node_boot thr s = Option.bind (process_start thr etimer_process None (process_init s)) (ctimer_init thr)"

lemma process_start_eq:
  assumes "find_from (k_next s) p (k_list s) = Some False"
  shows "process_start thr p arg s =
     map_option (\<lambda>s'. s'\<lparr>k_current := k_current s\<rparr>) (call_process thr p PROCESS_EVENT_INIT arg (process_link p s))"
  using assms
  by (simp add: process_start_def start_body_def post_synch_body_def call_process_def option.map_comp o_def process_link_def)

definition node_booted :: "'m ctimers_scheme \<Rightarrow> 'm ctimers_scheme" where
  "node_booted s =
     (process_init s)\<lparr>k_list := Some ctimer_process,
       k_next := (k_next s)(etimer_process := None, ctimer_process := Some etimer_process),
       k_state := (k_state s)(etimer_process := PROCESS_STATE_RUNNING, ctimer_process := PROCESS_STATE_RUNNING),
       k_lc := (k_lc s)(etimer_process := 1, ctimer_process := 1),
       tm_list := None, ct_heap := list_init (ct_heap s), ct_initialized := True\<rparr>"

lemma start_timer_processes:
  assumes thr: "thr etimer_process = Some etimer_thread" "thr ctimer_process = Some (ctimer_thread cb)"
  shows "node_boot thr s = Some (node_booted s)"
proof -
  have ne: "ctimer_process \<noteq> etimer_process"
    by (simp add: ctimer_process_def etimer_process_def)
  let ?s1 = "(process_init s)\<lparr>k_list := Some etimer_process, k_next := (k_next s)(etimer_process := None),
    k_state := (k_state s)(etimer_process := PROCESS_STATE_RUNNING), k_lc := (k_lc s)(etimer_process := 1), tm_list := None\<rparr>"
  have f: "find_from (k_next s) etimer_process None = Some False" for s :: "'m ctimers_scheme"
    by (subst find_from.simps) simp
  have "process_start thr etimer_process None (process_init s) = Some ?s1"
    using f thr by (subst process_start_eq)
      (simp_all add: process_init_def process_link_def call_process_eq etimer_thread_def run_thread_simps etimer_thread_step_def
        process_states pt_results process_events)
  moreover have "find_from (k_next ?s1) ctimer_process (k_list ?s1) = Some False"
    using ne by (subst find_from.simps) (simp, subst find_from.simps, simp)
  then have "ctimer_init thr ?s1 = Some (node_booted s)"
    unfolding ctimer_init_def using thr ne
    by (subst process_start_eq)
      (simp_all add: process_init_def process_link_def call_process_eq ctimer_thread_def run_thread_simps ctimer_thread_step_def
        ctimer_start_from.simps list_init_def list_head_def node_booted_def
        process_states pt_results process_events fun_upd_twist)
  ultimately show ?thesis
    by (simp add: node_boot_def)
qed

lemma node_booted_ok:
  assumes mem: "length (k_events s) = 8" "\<not> k_needspoll s etimer_process"
  shows "timers_ok [] (node_booted s)" and "ctimers_ok (node_booted s)"
proof -
  let ?s = "node_booted s"
  have ne: "ctimer_process \<noteq> etimer_process"
    by (simp add: ctimer_process_def etimer_process_def)
  have "timers_core ?s []"
    using mem(1) by (simp add: timers_core_def node_booted_def process_init_def ring_ok_def queued_def next_good_def ne)
  then show "timers_ok [] ?s"
    using mem(2) ne by (intro timers_okI [of _ "[]" "[ctimer_process, etimer_process]"])
      (auto simp: node_booted_def process_init_def none_expired_def)
  show "ctimers_ok ?s"
    using list_init_rep by (auto simp: ctimers_ok_def node_booted_def)
qed

end
