(* ===== verification/Timer_Props.thy ===== *)
theory Timer_Props
  imports Node_Timers
begin

text \<open>
  The properties of the timers under the kernel: no timer is lost, a callback timer goes off when its time has come,
  and what goes wrong when one is set again while its event is under way.
\<close>

section \<open>A node to run\<close>

text \<open>The memory at reset; process 3 sets a callback timer whenever it is called.\<close>

definition zero_memory :: ctimers where
  "zero_memory =
     \<lparr>k_list = None, k_next = (\<lambda>_. None), k_lc = (\<lambda>_. 0), k_state = (\<lambda>_. PROCESS_STATE_NONE), k_needspoll = (\<lambda>_. False),
      k_current = None, k_lastevent = 0, k_nevents = 0, k_fevent = 0,
      k_events = replicate 8 \<lparr>ed_ev = 0, ed_data = None, ed_p = None\<rparr>, k_poll_requested = False,
      tm_count = 0, tm_seconds = 0, tm_taccr1 = INTERVAL, tm_last_tar = 0,
      tm_energest = \<lparr>en_total = (\<lambda>_. 0), en_time = (\<lambda>_. 0), en_mode = (\<lambda>_. False)\<rparr>,
      tm_list = None, tm_next_expiration = 0, et_timer = (\<lambda>_. \<lparr>t_start = 0, t_interval = 0\<rparr>),
      et_next = (\<lambda>_. None), et_p = (\<lambda>_. None),
      ct_heap = \<lparr>lhead = None, lnext = (\<lambda>_. None)\<rparr>, ct_initialized = False,
      ct_p = (\<lambda>_. None), ct_f = (\<lambda>_. None), ct_ptr = (\<lambda>_. None)\<rparr>"

definition node_program :: "ctimers programs" where
  "node_program =
     \<lparr>callback_program = (\<lambda>f p s. []),
      process_program = (\<lambda>p. if p = 3 then Some (\<lambda>ev dat s. [Callback_Action (Set_Callback 100 1 (Some 50) None)]) else None)\<rparr>"

text \<open>The node has started, and an event for process 3 is in the queue; and the event of a timer.\<close>

definition node_ready :: ctimers where
  "node_ready = (node_booted zero_memory)\<lparr>k_state := (k_state (node_booted zero_memory))(3 := PROCESS_STATE_RUNNING)\<rparr>"

definition node_woken :: ctimers where
  "node_woken = snd (process_post (Some 3) PROCESS_EVENT_CONTINUE None node_ready)"

definition timer_under_way :: ctimers where
  "timer_under_way = snd (process_post (Some ctimer_process) PROCESS_EVENT_TIMER (Some (ct_etimer 100)) node_ready)"

lemmas node_states = timer_under_way_def node_woken_def node_ready_def zero_memory_def node_booted_def process_init_def node_program_def

lemmas node_exec =
  process_run_def process_post_def PROCESS_CONF_NUMEVENTS_def Let_def do_event_def call_process_eq node_threads_def
  run_thread_simps etimer_process_def ctimer_process_def process_states process_events pt_results ctimer_set_def in_context_def
  etimer_set_def add_timer_def update_time_def min_from.simps clock_time_def timer_set_def etimer_request_poll_def process_poll_def
  ctimer_enlist_def list_remove_def list_add_def list_init_def ct_etimer_def list_tail_def list_copy_def
  Contiki_List.tail_from.simps

lemma node_ready_ok: "timers_ok [] node_ready" "ctimers_ok node_ready"
proof -
  have "length (k_events zero_memory) = 8" "\<not> k_needspoll zero_memory etimer_process"
    by (simp_all add: zero_memory_def)
  note ok = node_booted_ok [OF this]
  show "timers_ok [] node_ready" "ctimers_ok node_ready"
    using timers_ok_state [OF ok(1), of PROCESS_STATE_RUNNING 3] ok(2) by (simp_all add: node_ready_def ctimers_ok_def)
qed

lemma node_woken_ok: "timers_ok [] node_woken" "ctimers_ok node_woken"
  using post_ok [OF node_ready_ok(1), of PROCESS_EVENT_CONTINUE "Some 3" None] node_ready_ok(2)
  by (simp_all add: node_woken_def exit_event_def process_events process_post_def Let_def ctimers_ok_def)

lemma timer_under_way_ok: "timers_ok [] timer_under_way" "ctimers_ok timer_under_way"
  using post_ok [OF node_ready_ok(1), of PROCESS_EVENT_TIMER "Some ctimer_process" "Some (ct_etimer 100)"] node_ready_ok(2)
  by (simp_all add: timer_under_way_def exit_event_def process_events process_post_def Let_def ctimers_ok_def)

section \<open>The node starts\<close>

text \<open>C22: the start of the node establishes the invariant of the timers. From any memory with a ring of eight events and no
  poll pending, \<open>process_init\<close>, the start of the event timers' process and \<open>ctimer_init\<close> run to their end: both processes
  are running and on the list, there is no timer and no event, and the callback timers have started.\<close>
theorem timers_boot:
  assumes "length (k_events s) = 8" and "\<not> k_needspoll s etimer_process"
  shows "\<exists>s'. node_boot (node_threads pg) s = Some s' \<and> timers_ok [] s' \<and> ctimers_ok s'
     \<and> chain (k_next s') (k_list s') [ctimer_process, etimer_process]
     \<and> process_is_running etimer_process s' \<and> process_is_running ctimer_process s'
     \<and> tm_list s' = None \<and> queued s' = [] \<and> list_head (ct_heap s') = None"
proof -
  have thr: "node_threads pg etimer_process = Some etimer_thread"
    "node_threads pg ctimer_process = Some (ctimer_thread (node_callbacks pg))"
    by (simp_all add: node_threads_def etimer_process_def ctimer_process_def)
  from start_timer_processes [of "node_threads pg", OF thr] node_booted_ok [OF assms] show ?thesis
    by (auto simp: node_booted_def process_init_def queued_def process_is_running_def process_states list_init_def list_head_def
        etimer_process_def ctimer_process_def)
qed

lemma timers_boot_witness:
  "\<exists>s'. node_boot (node_threads node_program) zero_memory = Some s' \<and> timers_ok [] s' \<and> ctimers_ok s'"
  using timers_boot [of zero_memory node_program] by (simp add: zero_memory_def) blast

section \<open>No timer is lost\<close>

text \<open>C10: No event timer is lost on a node whose callbacks and application processes are programs over these calls: they set, reset, restart and stop
  event timers and callback timers, poll processes, and post events other than the two of an exit, in any number and order, chosen
  from the state. (They do not adjust timers, start processes, post synchronously or exit; \<open>etimer_adjust\<close> requests no poll, and the exit of
  a process takes its timers off the list and leaves the next expiration as it was.)
  From a state of the invariants \<open>timers_ok\<close> and \<open>ctimers_ok\<close>, which the start of the node establishes (\<open>timers_boot\<close>), every sequence of clock
  interrupts, turns of the main loop and other interrupts runs to its end, under two conditions on the sequence (\<open>events_ok\<close>): no timer on the
  list becomes 65536 ticks old before a turn of the main loop sees to it, so that its age does not wrap around, and the other interrupts keep the two
  invariants. In the state that is reached each timer on the list that
  has expired is going to be seen to: the process of the event timers has its poll pending, and the poll has been
  requested. While the poll is not pending, no timer on the list has expired, and the next expiration is
  the least time that is left of a timer on the list.\<close>
theorem no_timer_lost:
  assumes "timers_ok [] s" and "ctimers_ok s" and "events_ok (node_threads pg) ctimers_ok es s"
  shows "\<exists>s' ts. machine_run (node_threads pg) es s = Some s' \<and> chain (et_next s') (tm_list s') ts
    \<and> (\<forall>t\<in>set ts. timer_expired (tm_count s') (et_timer s' t) \<longrightarrow> k_needspoll s' etimer_process \<and> k_poll_requested s')
    \<and> (\<not> k_needspoll s' etimer_process \<longrightarrow> ts \<noteq> [] \<longrightarrow>
         (\<exists>t\<in>set ts. tm_next_expiration s' = etimer_expiration_time t s')
       \<and> (\<forall>t\<in>set ts. tm_next_expiration s' - tm_count s' \<le> etimer_expiration_time t s' - tm_count s'))"
proof -
  from node_run_total [OF assms] obtain s' where run: "machine_run (node_threads pg) es s = Some s'" and ok: "timers_ok [] s'"
    by blast
  from ok obtain ts where core: "timers_core s' ts" and np: "k_needspoll s' etimer_process \<or> none_expired s' ts"
    and pr: "k_needspoll s' etimer_process \<longrightarrow> k_poll_requested s'"
    by (auto simp: timers_ok_def)
  then have ch: "chain (et_next s') (tm_list s') ts" by (simp add: timers_core_def)
  have "next_good s' ts" if "\<not> k_needspoll s' etimer_process"
    using that core np by (simp add: timers_core_def)
  with run ch np pr show ?thesis
    by (intro exI [of _ s'] exI [of _ ts])
       (auto simp: none_expired_def clock_time_def next_good_def next_least_def dist_of_def etimer_expiration_time_def)
qed

lemma no_timer_lost_witness:
  "\<exists>s' ts. machine_run (node_threads node_program) [Main_Loop, Clock 256, Main_Loop] node_woken = Some s'
     \<and> chain (et_next s') (tm_list s') ts
     \<and> (\<forall>t\<in>set ts. timer_expired (tm_count s') (et_timer s' t) \<longrightarrow> k_needspoll s' etimer_process \<and> k_poll_requested s')"
proof -
  obtain s1 where s1: "process_run (node_threads node_program) node_woken = Some (1, s1)" "chain (et_next s1) (tm_list s1) [ct_etimer 100]"
    "tm_count s1 = 0" "et_timer s1 (ct_etimer 100) = \<lparr>t_start = 0, t_interval = 1\<rparr>" "tm_taccr1 s1 = 256"
    by (simp add: node_states node_exec process_nevents_def INTERVAL_def)
  have "in_time (ticks_of (unat (256 - tm_taccr1 s1))) s1 ts" if "chain (et_next s1) (tm_list s1) ts" for ts
  proof -
    have "ts = [ct_etimer 100]"
      using chain_unique [OF s1(2) that] by simp
    with s1 show ?thesis by (simp add: in_time_def ticks_of_def)
  qed
  with s1(1) have "events_ok (node_threads node_program) ctimers_ok [Main_Loop, Clock 256, Main_Loop] node_woken"
    by (auto split: option.split)
  from no_timer_lost [OF node_woken_ok this] show ?thesis by blast
qed

section \<open>A callback timer goes off\<close>

text \<open>C11: a callback timer whose time has come is called back. On a node whose event queue is empty, set a callback
  timer for \<open>t\<close> ticks and let the clock's interrupts count at least \<open>t\<close> ticks, with no other timer expired:
  the next turn of the main loop posts the timer's event, takes it from the queue and calls the callback with its argument, in the
  context of the process that set the timer, at the clock's new time, and with the timer off the list of callback timers.\<close>
theorem ctimer_fires:
  assumes thr: "thr etimer_process = Some etimer_thread" "thr ctimer_process = Some (ctimer_thread cb)"
    and ok: "timers_ok [] s" and ch: "chain (et_next s) (tm_list s) ts"
    and ct: "ct_initialized s" "lrep (ct_heap s) cs" "k_state s ctimer_process = PROCESS_STATE_RUNNING" "k_lc s ctimer_process \<noteq> 0"
    and idle: "k_nevents s = 0" "\<forall>q. q \<noteq> etimer_process \<longrightarrow> \<not> k_needspoll s q"
    and new: "ct_etimer c \<notin> set ts"
    and set: "ctimer_set c t (Some f) p s = Some s1" and clock: "clock_run tars s1 = Some s2"
    and time: "unat t \<le> ticks_counted tars (tm_taccr1 s)" "ticks_counted tars (tm_taccr1 s) < 65536"
      "in_time (ticks_counted tars (tm_taccr1 s)) s ts"
    and others: "\<forall>x\<in>set ts. \<not> expired s2 x"
  shows "\<exists>s3. process_run thr s2 =
        map_option (\<lambda>s4. let s5 = s4\<lparr>k_current := Some ctimer_process,
                                    k_state := (k_state s4)(ctimer_process := PROCESS_STATE_RUNNING)\<rparr>
                         in (process_nevents s5, s5)) (cb f p s3)
      \<and> k_current s3 = k_current s \<and> tm_count s3 = tm_count s + of_nat (ticks_counted tars (tm_taccr1 s))
      \<and> lrep (ct_heap s3) (remove1 c cs)"
proof -
  let ?n = "ticks_counted tars (tm_taccr1 s)" and ?e = "ct_etimer c"
  let ?a = "ctimer_armed c t (Some f) p ts s"
  obtain m h where "ctimer_set c t (Some f) p s = Some (?a\<lparr>tm_next_expiration := m, ct_heap := h\<rparr>)"
    and "timers_ok [] (?a\<lparr>tm_next_expiration := m, ct_heap := h\<rparr>)" and rep: "lrep h (remove1 c cs @ [c])"
    by (rule ctimer_set_ok [OF ok ct(1) ch ct(2)])
  with set have s1: "s1 = ?a\<lparr>tm_next_expiration := m, ct_heap := h\<rparr>" and ok1: "timers_ok [] s1" by simp_all
  note af = ctimer_armed_fields [where c = c and t = t and f = "Some f" and p = p and ts = ts and s = s]
  have ch1: "chain (et_next s1) (tm_list s1) (?e # ts)" and p1: "et_p s1 = (et_p s)(?e := Some ctimer_process)"
    using ctimer_armed_chain [OF ch new] by (simp_all add: s1)
  have it1: "in_time (ticks_counted tars (tm_taccr1 s1)) s1 (?e # ts)"
    using time new by (auto simp: in_time_def s1 af timer_set_def)
  from clock_run_ok [OF ok1 ch1 it1] clock obtain
    "timers_ok [] s2" "tm_count s2 = tm_count s1 + of_nat (ticks_counted tars (tm_taccr1 s1))"
    and eq: "et_next s2 = et_next s1" "tm_list s2 = tm_list s1" "et_p s2 = et_p s1" "et_timer s2 = et_timer s1"
    "k_nevents s2 = k_nevents s1" "k_state s2 = k_state s1" "k_lc s2 = k_lc s1" "k_current s2 = k_current s1"
    "\<forall>q. q \<noteq> etimer_process \<longrightarrow> k_needspoll s2 q = k_needspoll s1 q" "timers.more s2 = timers.more s1"
    by auto
  then have ok2: "timers_ok [] s2" and count: "tm_count s2 = tm_count s + of_nat ?n"
    by (simp_all add: s1 af)
  have ch2: "chain (et_next s2) (tm_list s2) ([] @ ?e # ts)"
    using ch1 eq by simp
  have due: "expired s2 ?e"
    using time(1,2) eq by (simp add: timer_expired_def clock_time_def count s1 af timer_set_def word_le_nat_alt)
  have np: "k_needspoll s2 etimer_process"
    by (rule timers_ok_expired [OF ok2 ch2 _ due]) simp
  have np2: "\<forall>q. q \<noteq> etimer_process \<longrightarrow> \<not> k_needspoll s2 q"
    using eq idle(2) by (simp add: s1 af)
  have e2: "k_nevents s2 = 0" "et_p s2 ?e = Some ctimer_process"
    using eq idle p1 by (simp_all add: s1 af)
  from run_first_timer [of thr s2 "[] @ ?e # ts" "[]" ?e ts ctimer_process, OF thr(1) ok2 ch2 np np2 e2(1) refl _ due e2(2)]
  obtain s3 where s3: "process_run thr s2 =
      map_option (\<lambda>s3. (process_nevents s3, s3)) (call_process thr ctimer_process PROCESS_EVENT_TIMER (Some ?e) s3)"
    "ctimer_process \<noteq> etimer_process \<Longrightarrow> k_state s3 ctimer_process = k_state s2 ctimer_process"
    "tm_count s3 = tm_count s2" "k_lc s3 = k_lc s2" "timers.more s3 = timers.more s2"
    by auto
  have ne: "ctimer_process \<noteq> etimer_process"
    by (simp add: ctimer_process_def etimer_process_def)
  note o = ct_own [OF trans [OF s3(5) eq(10)]]
  have r3: "k_state s3 ctimer_process = PROCESS_STATE_RUNNING" "k_lc s3 ctimer_process \<noteq> 0"
    "lrep (ct_heap s3) (remove1 c cs @ [c])" "ct_f s3 c = Some f" "ct_ptr s3 c = p" "ct_p s3 c = k_current s"
    using ct ne s3(2,4) eq rep o by (simp_all add: s1 af)
  from ctimer_event(1) [where thr = thr and cb = cb and cs = "remove1 c cs @ [c]" and s = s3 and c = c and f = f and p = p, OF thr(2) r3(1-5)] obtain h' where h': "lrep h' (remove1 c (remove1 c cs @ [c]))"
    and call: "call_process thr ctimer_process PROCESS_EVENT_TIMER (Some ?e) s3 =
        map_option (\<lambda>s'. s'\<lparr>k_current := Some ctimer_process, k_state := (k_state s')(ctimer_process := PROCESS_STATE_RUNNING)\<rparr>)
          (cb f p (s3\<lparr>k_state := (k_state s3)(ctimer_process := PROCESS_STATE_CALLED), ct_heap := h', k_current := ct_p s3 c\<rparr>))"
    by auto
  have "c \<notin> set (remove1 c cs)"
    using lrep_distinct [OF ct(2)] by simp
  then have "lrep h' (remove1 c cs)"
    using h' by (simp add: remove1_append)
  with s3(1,3) call r3(6) count show ?thesis
    by (intro exI [of _ "s3\<lparr>k_state := (k_state s3)(ctimer_process := PROCESS_STATE_CALLED), ct_heap := h', k_current := ct_p s3 c\<rparr>"])
       (simp add: option.map_comp o_def Let_def)
qed

lemma ctimer_fires_witness:
  "\<exists>s1 s2 s3. ctimer_set 100 1 (Some 50) None node_ready = Some s1 \<and> clock_run [256] s1 = Some s2
     \<and> process_run (node_threads node_program) s2 =
        map_option (\<lambda>s4. let s5 = s4\<lparr>k_current := Some ctimer_process,
                                    k_state := (k_state s4)(ctimer_process := PROCESS_STATE_RUNNING)\<rparr>
                         in (process_nevents s5, s5)) (node_callbacks node_program 50 None s3)
     \<and> tm_count s3 = 1 \<and> lrep (ct_heap s3) []"
proof -
  obtain s1 where s1: "ctimer_set 100 1 (Some 50) None node_ready = Some s1" "chain (et_next s1) (tm_list s1) [ct_etimer 100]"
    "tm_count s1 = 0" "et_timer s1 (ct_etimer 100) = \<lparr>t_start = 0, t_interval = 1\<rparr>" "tm_taccr1 s1 = 256"
    by (simp add: node_states node_exec INTERVAL_def)
  have "timers_ok [] s1"
    using ctimer_call_ok(1) [OF node_ready_ok, of 100 1 "Some 50" None] s1(1) by (simp add: call_ok_def)
  from clock_run_ok [OF this s1(2), of "[256]"] s1(3-5) obtain s2 where "clock_run [256] s1 = Some s2"
    by (auto simp: in_time_def ticks_of_def)
  note s = s1(1) this
  have thr: "node_threads node_program etimer_process = Some etimer_thread"
    "node_threads node_program ctimer_process = Some (ctimer_thread (node_callbacks node_program))"
    by (simp_all add: node_threads_def etimer_process_def ctimer_process_def)
  have ready: "chain (et_next node_ready) (tm_list node_ready) []" "ct_initialized node_ready" "lrep (ct_heap node_ready) []"
    "k_state node_ready ctimer_process = PROCESS_STATE_RUNNING" "k_lc node_ready ctimer_process \<noteq> 0"
    "k_nevents node_ready = 0" "\<forall>q. q \<noteq> etimer_process \<longrightarrow> \<not> k_needspoll node_ready q"
    "tm_taccr1 node_ready = 256" "tm_count node_ready = 0"
    by (simp_all add: node_states ctimer_process_def INTERVAL_def list_init_rep)
  have ticks: "ticks_counted [256] (tm_taccr1 node_ready) = 1"
    by (simp add: ready(8) ticks_of_def)
  from ctimer_fires [of "node_threads node_program" _ node_ready "[]" "[]" 100 1 50 None s1 "[256]" s2,
      OF thr node_ready_ok(1) ready(1-7) _ s]
  show ?thesis
    using s ready(9) unfolding ticks by (auto simp: in_time_def)
qed

section \<open>A callback timer set again while its event is under way\<close>

text \<open>
  The event of a timer that has gone off is still in the queue when the timer is set again: \<open>ctimer.c\<close> puts the timer back on
  its list, where the old event finds it.
\<close>

text \<open>C12: a callback timer can go off early. When the event of the timer is in the queue and the timer is set again, for
  any time but zero, the next turn of the main loop calls the new callback at once, without a tick of the clock, and the
  event timer is still on the list of event timers: when it goes off, the timer is no longer on the list of callback timers.\<close>
theorem ctimer_early:
  assumes thr: "thr etimer_process = Some etimer_thread" "thr ctimer_process = Some (ctimer_thread cb)"
    and ok: "timers_ok [] s" and ch: "chain (et_next s) (tm_list s) ts"
    and ct: "ct_initialized s" "lrep (ct_heap s) cs" "k_state s ctimer_process = PROCESS_STATE_RUNNING" "k_lc s ctimer_process \<noteq> 0"
    and pending: "queued s = [\<lparr>ed_ev = PROCESS_EVENT_TIMER, ed_data = Some (ct_etimer c), ed_p = Some ctimer_process\<rparr>]"
    and idle: "\<forall>q. q \<noteq> etimer_process \<longrightarrow> \<not> k_needspoll s q"
    and new: "ct_etimer c \<notin> set ts" and pos: "t \<noteq> 0" and others: "\<forall>x\<in>set ts. \<not> expired s x"
    and set: "ctimer_set c t (Some f) p s = Some s1"
  shows "\<exists>s3 ts3. process_run thr s1 =
        map_option (\<lambda>s4. let s5 = s4\<lparr>k_current := Some ctimer_process,
                                    k_state := (k_state s4)(ctimer_process := PROCESS_STATE_RUNNING)\<rparr>
                         in (process_nevents s5, s5)) (cb f p s3)
      \<and> tm_count s3 = tm_count s
      \<and> lrep (ct_heap s3) (remove1 c cs)
      \<and> chain (et_next s3) (tm_list s3) ts3 \<and> ct_etimer c \<in> set ts3"
proof -
  let ?e = "ct_etimer c" and ?a = "ctimer_armed c t (Some f) p ts s"
  obtain m h where "ctimer_set c t (Some f) p s = Some (?a\<lparr>tm_next_expiration := m, ct_heap := h\<rparr>)"
    and "timers_ok [] (?a\<lparr>tm_next_expiration := m, ct_heap := h\<rparr>)" and rep: "lrep h (remove1 c cs @ [c])"
    by (rule ctimer_set_ok [OF ok ct(1) ch ct(2)])
  with set have s1: "s1 = ?a\<lparr>tm_next_expiration := m, ct_heap := h\<rparr>" and ok1: "timers_ok [] s1" by simp_all
  note af = ctimer_armed_fields [where c = c and t = t and f = "Some f" and p = p and ts = ts and s = s]
  have ch1: "chain (et_next s1) (tm_list s1) (?e # ts)"
    using ctimer_armed_chain [OF ch new] by (simp add: s1)
  have none: "\<forall>x\<in>set (?e # ts). \<not> expired s1 x"
    using others new pos by (auto simp: s1 af timer_expired_def clock_time_def timer_set_def)
  have np: "k_needspoll s1 etimer_process" "k_poll_requested s1"
    using timers_ok_list(1) [OF ok ch]
    by (auto simp: s1 ctimer_armed_def timer_added_def Let_def etimer_request_poll_def process_poll_def timers_core_def)
  have np1: "\<forall>q. q \<noteq> etimer_process \<longrightarrow> \<not> k_needspoll s1 q"
    using idle by (simp add: s1 af)
  note pk = posted_kept_none [OF none, of "room s1"]
  from do_poll_etimer [of thr s1 "?e # ts", OF thr(1) ok1 ch1 np(1) np1]
  obtain s2 where s2: "do_poll thr s1 = Some s2" "ring_ok s2"
    "queued s2 = queued s1 @ map (timer_event s1) (posted_of (expired s1) (room s1) (?e # ts))"
    "et_p s2 = (\<lambda>x. if x \<in> set (posted_of (expired s1) (room s1) (?e # ts)) then None else et_p s1 x)"
    "chain (et_next s2) (tm_list s2) (kept_of (expired s1) (room s1) (?e # ts))"
    "\<And>q. q \<noteq> etimer_process \<Longrightarrow> k_state s2 q = k_state s1 q" "et_timer s2 = et_timer s1" "tm_count s2 = tm_count s1"
    "k_lc s2 = k_lc s1" "\<forall>q. q \<noteq> etimer_process \<longrightarrow> \<not> k_needspoll s2 q" "timers.more s2 = timers.more s1"
    by blast
  then have ch2: "chain (et_next s2) (tm_list s2) (?e # ts)" and same: "queued s2 = queued s1"
    using pk by simp_all
  have q2: "queued s2 = [\<lparr>ed_ev = PROCESS_EVENT_TIMER, ed_data = Some ?e, ed_p = Some ctimer_process\<rparr>]"
    using same pending by (simp add: queued_def s1 af)
  have ev: "PROCESS_EVENT_TIMER \<noteq> PROCESS_EVENT_INIT" and ne: "ctimer_process \<noteq> etimer_process"
    by (simp_all add: process_events ctimer_process_def etimer_process_def)
  note run = run_first_event [OF np(2) s2(1,2) q2 ev]
  let ?s = "take_event s2"
  note o = ct_own [OF s2(11)]
  have r: "k_state ?s ctimer_process = PROCESS_STATE_RUNNING" "k_lc ?s ctimer_process \<noteq> 0"
    "lrep (ct_heap ?s) (remove1 c cs @ [c])" "ct_f ?s c = Some f" "ct_ptr ?s c = p"
    using ct s2(6) [OF ne] s2(9) rep o by (simp_all add: take_event_def s1 af)
  from ctimer_event(1) [where thr = thr and cb = cb and cs = "remove1 c cs @ [c]" and s = ?s and c = c and f = f and p = p, OF thr(2) r(1-5)] obtain h' where h': "lrep h' (remove1 c (remove1 c cs @ [c]))"
    and call: "call_process thr ctimer_process PROCESS_EVENT_TIMER (Some ?e) ?s =
        map_option (\<lambda>s'. s'\<lparr>k_current := Some ctimer_process, k_state := (k_state s')(ctimer_process := PROCESS_STATE_RUNNING)\<rparr>)
          (cb f p (?s\<lparr>k_state := (k_state ?s)(ctimer_process := PROCESS_STATE_CALLED), ct_heap := h', k_current := ct_p ?s c\<rparr>))"
    by auto
  have "c \<notin> set (remove1 c cs)"
    using lrep_distinct [OF ct(2)] by simp
  then have "lrep h' (remove1 c cs)"
    using h' by (simp add: remove1_append)
  with run(1) call ch2 s2(8) show ?thesis
    by (intro exI [of _ "?s\<lparr>k_state := (k_state ?s)(ctimer_process := PROCESS_STATE_CALLED), ct_heap := h', k_current := ct_p ?s c\<rparr>"]
         exI [of _ "?e # ts"])
       (simp add: option.map_comp o_def Let_def take_event_def s1 af)
qed

lemma ctimer_early_witness:
  "\<exists>s1 s3. ctimer_set 100 1000 (Some 50) None timer_under_way = Some s1
     \<and> process_run (node_threads node_program) s1 =
        map_option (\<lambda>s4. let s5 = s4\<lparr>k_current := Some ctimer_process,
                                    k_state := (k_state s4)(ctimer_process := PROCESS_STATE_RUNNING)\<rparr>
                         in (process_nevents s5, s5)) (node_callbacks node_program 50 None s3)
     \<and> tm_count s3 = 0"
proof -
  obtain s1 where s: "ctimer_set 100 1000 (Some 50) None timer_under_way = Some s1"
    by (simp add: node_states node_exec)
  have thr: "node_threads node_program etimer_process = Some etimer_thread"
    "node_threads node_program ctimer_process = Some (ctimer_thread (node_callbacks node_program))"
    by (simp_all add: node_threads_def etimer_process_def ctimer_process_def)
  have st: "chain (et_next timer_under_way) (tm_list timer_under_way) []" "ct_initialized timer_under_way"
    "lrep (ct_heap timer_under_way) []"
    "k_state timer_under_way ctimer_process = PROCESS_STATE_RUNNING" "k_lc timer_under_way ctimer_process \<noteq> 0"
    "queued timer_under_way = [\<lparr>ed_ev = PROCESS_EVENT_TIMER, ed_data = Some (ct_etimer 100), ed_p = Some ctimer_process\<rparr>]"
    "\<forall>q. q \<noteq> etimer_process \<longrightarrow> \<not> k_needspoll timer_under_way q" "tm_count timer_under_way = 0"
    by (simp_all add: node_states ctimer_process_def INTERVAL_def list_init_rep process_post_def PROCESS_CONF_NUMEVENTS_def
        Let_def queued_def)
  from ctimer_early [of "node_threads node_program" _ timer_under_way "[]" "[]" 100 1000 50 None s1,
      OF thr timer_under_way_ok(1) st(1-7) _ _ _ s]
  show ?thesis
    using s st(8) by auto
qed

end
