(* ===== verification/Kernel_Props.thy ===== *)
theory Kernel_Props
  imports Timer_Props
begin

text \<open>
  The properties of the process kernel: its ring of events is a bounded queue, its list of processes stays a list through
  starts and exits, and what goes wrong when a process exits in its own name; and what one poll of the event timers does.
\<close>

section \<open>The ring of events is a queue\<close>

text \<open>The specification: a queue of at most eight events. A post that does not fit is refused.\<close>

datatype queue_op = Post_Event "ptr option" process_event_t process_data_t | Take_Event

datatype queue_result = Posted u16 | Taken "event_data option"

fun fifo_step :: "queue_op \<Rightarrow> event_data list \<Rightarrow> queue_result \<times> event_data list" where
  "fifo_step (Post_Event p ev dat) q =
     (if length q < 8 then (Posted PROCESS_ERR_OK, q @ [\<lparr>ed_ev = ev, ed_data = dat, ed_p = p\<rparr>]) else (Posted PROCESS_ERR_FULL, q))"
| "fifo_step Take_Event [] = (Taken None, [])"
| "fifo_step Take_Event (e # q) = (Taken (Some e), q)"

fun ring_step :: "queue_op \<Rightarrow> 'm kernel_scheme \<Rightarrow> queue_result \<times> 'm kernel_scheme" where
  "ring_step (Post_Event p ev dat) s = map_prod Posted id (process_post p ev dat s)"
| "ring_step Take_Event s =
     (if k_nevents s > 0 then (Taken (Some (k_events s ! unat (k_fevent s))), take_event s) else (Taken None, s))"

fun step_all :: "('o \<Rightarrow> 's \<Rightarrow> 'r \<times> 's) \<Rightarrow> 'o list \<Rightarrow> 's \<Rightarrow> 'r list \<times> 's" where
  "step_all f [] s = ([], s)"
| "step_all f (x # xs) s = (let (r, s1) = f x s; (rs, s2) = step_all f xs s1 in (r # rs, s2))"

lemma ring_step_refines:
  assumes ok: "ring_ok s"
  shows "ring_ok (snd (ring_step x s))" and "fifo_step x (queued s) = (fst (ring_step x s), queued (snd (ring_step x s)))"
proof -
  have "ring_ok (snd (ring_step x s)) \<and> fifo_step x (queued s) = (fst (ring_step x s), queued (snd (ring_step x s)))"
  proof (cases x)
    case (Post_Event p ev dat)
    show ?thesis
    proof (cases "unat (k_nevents s) = 8")
      case True
      with Post_Event ok process_post_full [OF True] show ?thesis by simp
    next
      case False
      then have "unat (k_nevents s) < 8"
        using ok by (simp add: ring_ok_def)
      with process_post_ok [OF ok False, of p ev dat] Post_Event show ?thesis by simp
    qed
  next
    case Take_Event
    show ?thesis
    proof (cases "k_nevents s > 0")
      case True
      with take_event_ok [OF ok True] Take_Event show ?thesis by simp
    next
      case False
      then have "k_nevents s = 0" by (simp add: word_gt_0)
      then have "queued s = []" by (simp add: queued_def)
      with False Take_Event ok show ?thesis by simp
    qed
  qed
  then show "ring_ok (snd (ring_step x s))" "fifo_step x (queued s) = (fst (ring_step x s), queued (snd (ring_step x s)))" by simp_all
qed

lemma step_all_refines:
  "ring_ok s \<Longrightarrow> ring_ok (snd (step_all ring_step xs s)) \<and>
     step_all fifo_step xs (queued s) = (fst (step_all ring_step xs s), queued (snd (step_all ring_step xs s)))"
proof (induction xs arbitrary: s)
  case (Cons x xs)
  obtain r s1 where r: "ring_step x s = (r, s1)" by (cases "ring_step x s")
  from ring_step_refines [OF Cons.prems, of x] r have "ring_ok s1" "fifo_step x (queued s) = (r, queued s1)" by simp_all
  with Cons.IH [of s1] r show ?case
    by (cases "step_all ring_step xs s1") (simp add: Let_def)
qed simp

lemma do_event_takes:
  assumes ok: "ring_ok s" and q: "queued s = e # es"
  shows "\<exists>s1. ring_step Take_Event s = (Taken (Some e), s1) \<and> queued s1 = es
     \<and> do_event thr s =
         (case ed_p e of
            None \<Rightarrow> broadcast_from thr (ed_ev e) (ed_data e) (k_list s) s1
          | Some p \<Rightarrow> call_process thr p (ed_ev e) (ed_data e)
              (if ed_ev e = PROCESS_EVENT_INIT then s1\<lparr>k_state := (k_state s1)(p := PROCESS_STATE_RUNNING)\<rparr> else s1))"
proof -
  have "length (queued s) \<noteq> 0"
    using q by simp
  then have n: "k_nevents s > 0"
    by (simp add: word_gt_0 unat_eq_0)
  from take_event_ok(2) [OF ok n] q have "k_events s ! unat (k_fevent s) = e" "queued (take_event s) = es" by simp_all
  moreover have "k_list (take_event s) = k_list s" by (simp add: take_event_def)
  ultimately show ?thesis
    using n by (simp add: do_event_eq Let_def cong: option.case_cong)
qed

text \<open>C19: the ring of eight events is a bounded queue in order. Whatever sequence of posts and takes, the results are
  those of a queue of at most eight events: a post is refused with \<open>PROCESS_ERR_FULL\<close> exactly when eight events wait, and
  otherwise goes to the end. The kernel hands the events out in that order: with an event waiting, \<open>do_event\<close> takes the
  oldest one off the queue and calls its receiver with it, which becomes a running process if the event is its first.\<close>
theorem event_queue:
  assumes "ring_ok s"
  shows "ring_ok (snd (step_all ring_step ops s))
    \<and> step_all fifo_step ops (queued s) = (fst (step_all ring_step ops s), queued (snd (step_all ring_step ops s)))
    \<and> (\<forall>e es. queued s = e # es \<longrightarrow>
         (\<exists>s1. ring_step Take_Event s = (Taken (Some e), s1) \<and> queued s1 = es
           \<and> do_event thr s =
               (case ed_p e of
                  None \<Rightarrow> broadcast_from thr (ed_ev e) (ed_data e) (k_list s) s1
                | Some p \<Rightarrow> call_process thr p (ed_ev e) (ed_data e)
                    (if ed_ev e = PROCESS_EVENT_INIT then s1\<lparr>k_state := (k_state s1)(p := PROCESS_STATE_RUNNING)\<rparr> else s1))))"
  using step_all_refines [OF assms, of ops] do_event_takes [OF assms, of _ _ thr] by auto

lemma event_queue_witness:
  "step_all fifo_step [Post_Event None 7 None, Take_Event] (queued node_woken) =
     (fst (step_all ring_step [Post_Event None 7 None, Take_Event] node_woken),
      queued (snd (step_all ring_step [Post_Event None 7 None, Take_Event] node_woken)))
   \<and> (\<exists>s1. do_event (node_threads node_program) node_woken = call_process (node_threads node_program) 3 PROCESS_EVENT_CONTINUE None s1
        \<and> queued s1 = [])"
proof -
  have ring: "ring_ok node_woken"
    using node_woken_ok by (auto simp: timers_ok_def timers_core_def)
  have q: "queued node_woken = [\<lparr>ed_ev = PROCESS_EVENT_CONTINUE, ed_data = None, ed_p = Some 3\<rparr>]"
    by (simp add: node_states process_post_def PROCESS_CONF_NUMEVENTS_def Let_def queued_def)
  note e = event_queue [OF ring, of "[Post_Event None 7 None, Take_Event]" "node_threads node_program"]
  from e [THEN conjunct2, THEN conjunct2] q
  have "\<exists>s1. do_event (node_threads node_program) node_woken = call_process (node_threads node_program) 3 PROCESS_EVENT_CONTINUE None s1
        \<and> queued s1 = []"
    by (auto simp: process_events)
  then show ?thesis
    using e [THEN conjunct2, THEN conjunct1] by blast
qed

section \<open>The kernel's data through starts and exits\<close>

text \<open>What uses the kernel from outside: the main loop, interrupts, and the calls of a program.\<close>

datatype kernel_use =
    Use_Run | Use_Post "ptr option" process_event_t process_data_t | Use_Poll "ptr option" | Use_Alloc
  | Use_Start ptr process_data_t | Use_Exit ptr | Use_Synch ptr process_event_t process_data_t

fun use_kernel :: "'m kernel_scheme threads \<Rightarrow> kernel_use \<Rightarrow> 'm kernel_scheme \<Rightarrow> 'm kernel_scheme option" where
  "use_kernel thr Use_Run s = map_option snd (process_run thr s)"
| "use_kernel thr (Use_Post p ev dat) s = Some (snd (process_post p ev dat s))"
| "use_kernel thr (Use_Poll p) s = Some (process_poll p s)"
| "use_kernel thr Use_Alloc s = Some (snd (process_alloc_event s))"
| "use_kernel thr (Use_Start p arg) s = process_start thr p arg s"
| "use_kernel thr (Use_Exit p) s = process_exit thr p s"
| "use_kernel thr (Use_Synch p ev dat) s = process_post_synch thr p ev dat s"

fun kernel_uses :: "'m kernel_scheme threads \<Rightarrow> kernel_use list \<Rightarrow> 'm kernel_scheme \<Rightarrow> 'm kernel_scheme option" where
  "kernel_uses thr [] s = Some s"
| "kernel_uses thr (u # us) s = Option.bind (use_kernel thr u s) (kernel_uses thr us)"

lemma use_kernel_ok:
  assumes thr: "\<And>p g ev dat. thr p = Some g \<Longrightarrow> keeps kernel_ok True (g ev dat)"
    and ok: "kernel_ok s" and ret: "use_kernel thr u s = Some s'"
  shows "kernel_ok s'"
proof -
  have sched: "scheduler_client thr kernel_ok True"
    by (rule kernel_ok_client) (rule thr)
  then have client: "kernel_client thr kernel_ok True"
    by (simp add: scheduler_client_def)
  note run = scheduler_client.process_run_kept [OF sched _ ok]
  show ?thesis
    using ret ok run kernel_ok_post kernel_ok_poll kernel_client.process_start_kept [OF client _ ok]
      kernel_client.process_exit_kept [OF client _ ok] kernel_client.process_post_synch_kept [OF client _ ok]
    by (cases u) (auto simp: process_alloc_event_def)
qed

lemma kernel_uses_ok:
  assumes thr: "\<And>p g ev dat. thr p = Some g \<Longrightarrow> keeps kernel_ok True (g ev dat)"
  shows "kernel_ok s \<Longrightarrow> kernel_uses thr us s = Some s' \<Longrightarrow> kernel_ok s'"
proof (induction us arbitrary: s)
  case (Cons u us)
  then obtain s1 where "use_kernel thr u s = Some s1" "kernel_uses thr us s1 = Some s'"
    by (auto simp: bind_eq_Some_conv)
  moreover from this(1) have "kernel_ok s1"
    using use_kernel_ok [of thr s u s1] thr Cons.prems(1) by blast
  ultimately show ?case
    using Cons.IH by blast
qed simp

text \<open>C20: the kernel's data stays consistent through everything its users do: posts, polls, event allocations, starts,
  exits and synchronous posts, nested in each other as the threads will have it. Whatever the threads of the processes do,
  as long as their own computations keep the ring and the list, after any sequence of calls the ring of events is a ring
  and the list of processes ends, with no process on it twice.\<close>
theorem kernel_invariant:
  assumes "\<And>p g ev dat. thr p = Some g \<Longrightarrow> keeps kernel_ok True (g ev dat)"
    and "length (k_events s) = 8" and "kernel_uses thr us (process_init s) = Some s'"
  shows "length (queued s') \<le> 8 \<and> ring_ok s' \<and> (\<exists>ps. chain (k_next s') (k_list s') ps \<and> distinct ps)"
  using kernel_uses_ok [of thr "process_init s" us s'] kernel_ok_init [OF assms(2)] assms(1,3) chain_distinct
  by (fastforce simp: kernel_ok_def list_ok_def ring_ok_def)

lemma kernel_invariant_witness:
  "\<exists>s'. kernel_uses (\<lambda>p. if p = 3 then Some (\<lambda>ev dat. Return PT_YIELDED) else None)
        [Use_Start 3 None, Use_Post (Some 3) 7 None, Use_Run] (process_init zero_memory) = Some s'
     \<and> ring_ok s' \<and> (\<exists>ps. chain (k_next s') (k_list s') ps \<and> distinct ps)"
proof -
  let ?thr = "\<lambda>p. if p = 3 then Some (\<lambda>ev dat. Return PT_YIELDED) else None :: (process_event_t \<Rightarrow> process_data_t \<Rightarrow> ctimers thread) option"
  have "find_from (k_next (process_init zero_memory)) 3 (k_list (process_init zero_memory)) = Some False"
    by (simp add: find_from_chain [of _ _ "[]"] process_init_def)
  then obtain s' where ret: "kernel_uses ?thr [Use_Start 3 None, Use_Post (Some 3) 7 None, Use_Run] (process_init zero_memory) = Some s'"
    by (simp add: process_start_eq) (simp add: node_exec process_link_def process_init_def zero_memory_def)
  have "keeps kernel_ok True (g ev dat)" if "?thr p = Some g" for p g ev dat
    using that by (auto simp: keeps_simps split: if_splits)
  moreover have "length (k_events zero_memory) = 8"
    by (simp add: zero_memory_def)
  ultimately show ?thesis
    using kernel_invariant [of ?thr zero_memory _ s', OF _ _ ret] ret by blast
qed

section \<open>A process that exits in its own name\<close>

text \<open>What the event timers' process does when it is told of an exit: the timers of the process come off the list.\<close>

lemma drop_head_owned_chain:
  "chain nx to ts \<Longrightarrow> drop_head_owned nx own to = Some (case dropWhile own ts of [] \<Rightarrow> None | t # us \<Rightarrow> Some t)"
proof (induction ts arbitrary: to)
  case (Cons t ts)
  then show ?case
    by (subst drop_head_owned.simps) auto
qed (simp add: drop_head_owned.simps)

lemma drop_owned_chain:
  "chain nx (Some t) (t # ts) \<Longrightarrow>
   \<exists>nx'. drop_owned own t nx = Some nx' \<and> chain nx' (Some t) (t # filter (\<lambda>u. \<not> own u) ts) \<and> (\<forall>x. x \<notin> set (t # ts) \<longrightarrow> nx' x = nx x)"
proof (induction "length ts" arbitrary: ts t nx rule: less_induct)
  case less
  show ?case
  proof (cases ts)
    case Nil
    with less.prems show ?thesis
      by (subst drop_owned.simps) auto
  next
    case (Cons u us)
    then have u: "nx t = Some u" "chain nx (Some u) (u # us)" "t \<notin> set (u # us)" "u \<notin> set us"
      using less.prems chain_distinct [OF less.prems] by auto
    show ?thesis
    proof (cases "own u")
      case True
      have "chain (nx(t := nx u)) (Some t) (t # us)"
        using u by auto
      from less.hyps [OF _ this] Cons u(1) True show ?thesis
        by (subst drop_owned.simps) auto
    next
      case False
      from less.hyps [OF _ u(2)] Cons obtain nx' where nx': "drop_owned own u nx = Some nx'"
        "chain nx' (Some u) (u # filter (\<lambda>u. \<not> own u) us)" "\<forall>x. x \<notin> set (u # us) \<longrightarrow> nx' x = nx x"
        by auto
      then have "chain nx' (Some t) (t # filter (\<lambda>u. \<not> own u) ts)"
        using u Cons False by auto
      with nx' u(1) Cons False show ?thesis
        by (subst drop_owned.simps) auto
    qed
  qed
qed

lemma owner_exited_chain:
  assumes "chain (et_next s) (tm_list s) ts"
  shows "\<exists>h nx. owner_exited q s = Some (s\<lparr>tm_list := h, et_next := nx\<rparr>) \<and> chain nx h (filter (\<lambda>t. et_p s t \<noteq> q) ts)"
proof (cases "dropWhile (\<lambda>t. et_p s t = q) ts")
  case Nil
  then have "filter (\<lambda>t. et_p s t \<noteq> q) ts = []"
    by (auto simp: dropWhile_eq_Nil_conv filter_empty_conv)
  moreover have "drop_head_owned (et_next s) (\<lambda>t. et_p s t = q) (tm_list s) = Some None"
    unfolding drop_head_owned_chain [OF assms] Nil by simp
  ultimately show ?thesis
    by (intro exI [of _ None] exI [of _ "et_next s"]) (simp add: owner_exited_def)
next
  case (Cons t us)
  have sp: "ts = takeWhile (\<lambda>t. et_p s t = q) ts @ t # us"
    using takeWhile_dropWhile_id [of "\<lambda>t. et_p s t = q" ts] Cons by simp
  have t: "et_p s t \<noteq> q"
    using hd_dropWhile [of "\<lambda>t. et_p s t = q" ts] Cons by simp
  have "filter (\<lambda>t. et_p s t \<noteq> q) (takeWhile (\<lambda>t. et_p s t = q) ts) = []"
    by (auto simp: filter_empty_conv dest: set_takeWhileD)
  then have f: "filter (\<lambda>t. et_p s t \<noteq> q) ts = t # filter (\<lambda>t. et_p s t \<noteq> q) us"
    using t by (subst sp) simp
  have "chain (et_next s) (Some t) (t # us)"
    using chain_suffix [of "et_next s" "tm_list s" _ t us] assms sp by (metis chain.simps(2))
  from drop_owned_chain [OF this, of "\<lambda>t. et_p s t = q"] drop_head_owned_chain [OF assms, of "\<lambda>t. et_p s t = q"] Cons show ?thesis
    unfolding f by (auto simp: owner_exited_def)
qed

text \<open>
  A node: the processes of the event timers and of the callback timers, both started, and others, which go on waiting
  when they are told that \<open>p\<close> has exited.
\<close>

definition exit_told :: "ptr \<Rightarrow> 'm ctimers_scheme threads \<Rightarrow> bool" where
  "exit_told p thr \<longleftrightarrow> thr etimer_process = Some etimer_thread \<and> (\<exists>cb. thr ctimer_process = Some (ctimer_thread cb)) \<and>
     (\<forall>q g. thr q = Some g \<longrightarrow> q \<noteq> p \<longrightarrow> q \<noteq> etimer_process \<longrightarrow> q \<noteq> ctimer_process \<longrightarrow>
        g PROCESS_EVENT_EXITED (Some p) = Return PT_YIELDED)"

definition told_frame :: "ptr \<Rightarrow> 'm ctimers_scheme \<Rightarrow> 'm ctimers_scheme \<Rightarrow> bool" where
  "told_frame p s s' \<longleftrightarrow> k_next s' = k_next s \<and> k_list s' = k_list s \<and> k_state s' p = k_state s p \<and> k_lc s' = k_lc s \<and> et_p s' = et_p s \<and>
     (k_state s etimer_process = PROCESS_STATE_RUNNING \<longrightarrow> k_state s' etimer_process = PROCESS_STATE_RUNNING)"

lemma told_frame_trans: "told_frame p s1 s2 \<Longrightarrow> told_frame p s2 s3 \<Longrightarrow> told_frame p s1 s3"
  by (simp add: told_frame_def)

lemma call_told:
  assumes told: "exit_told p thr" and q: "q \<noteq> p" and lc: "k_lc s etimer_process \<noteq> 0" "k_lc s ctimer_process \<noteq> 0"
    and run: "k_state s etimer_process = PROCESS_STATE_RUNNING" and ch: "chain (et_next s) (tm_list s) ts"
  shows "\<exists>s'. call_process thr q PROCESS_EVENT_EXITED (Some p) s = Some s' \<and> told_frame p s s' \<and>
    chain (et_next s') (tm_list s') (if q = etimer_process then filter (\<lambda>t. et_p s t \<noteq> Some p) ts else ts)"
proof (cases "k_state s q AND PROCESS_STATE_RUNNING \<noteq> 0 \<and> thr q \<noteq> None")
  case True
  then obtain g where g: "thr q = Some g" by auto
  define s0 where "s0 = s\<lparr>k_current := Some q, k_state := (k_state s)(q := PROCESS_STATE_CALLED)\<rparr>"
  have call: "call_process thr q PROCESS_EVENT_EXITED (Some p) s =
      Option.bind (run_thread thr (g PROCESS_EVENT_EXITED (Some p)) s0)
        (\<lambda>r. if fst r = PT_EXITED \<or> fst r = PT_ENDED then map_option snd (kernel_call thr (Exit_Process q (Some q), snd r))
             else Some ((snd r)\<lparr>k_state := (k_state (snd r))(q := PROCESS_STATE_RUNNING)\<rparr>))"
    using True g by (subst call_process_eq) (simp add: s0_def process_events)
  consider "q = etimer_process" | "q = ctimer_process" | "q \<noteq> etimer_process" "q \<noteq> ctimer_process" by blast
  then show ?thesis
  proof cases
    case 1
    from owner_exited_chain [of s0 ts "Some p"] ch obtain h nx where
      o: "owner_exited (Some p) s0 = Some (s0\<lparr>tm_list := h, et_next := nx\<rparr>)" "chain nx h (filter (\<lambda>t. et_p s t \<noteq> Some p) ts)"
      by (auto simp: s0_def)
    have "g = etimer_thread"
      using told g 1 by (simp add: exit_told_def)
    then show ?thesis
      unfolding call using o lc(1) q 1
      by (simp add: etimer_thread_def etimer_thread_step_def run_thread_simps pt_results told_frame_def) (simp add: s0_def)
  next
    case 2
    obtain cb where "g = ctimer_thread cb"
      using told g 2 by (auto simp: exit_told_def)
    then show ?thesis
      unfolding call using lc(2) q 2 ch
      by (simp add: ctimer_thread_def ctimer_thread_step_def run_thread_simps pt_results told_frame_def process_events s0_def
          etimer_process_def ctimer_process_def)
  next
    case 3
    then have "g PROCESS_EVENT_EXITED (Some p) = Return PT_YIELDED"
      using told g q by (simp add: exit_told_def)
    then show ?thesis
      unfolding call using q 3 ch by (simp add: run_thread_simps pt_results told_frame_def s0_def)
  qed
next
  case False
  moreover from this have "q \<noteq> etimer_process"
    using run told by (auto simp: exit_told_def PROCESS_STATE_RUNNING_def)
  ultimately show ?thesis
    using ch by (subst call_process_eq) (auto simp: told_frame_def)
qed

lemma notify_told:
  assumes told: "exit_told p thr"
  shows "chain (k_next s) qo qs \<Longrightarrow> k_lc s etimer_process \<noteq> 0 \<Longrightarrow> k_lc s ctimer_process \<noteq> 0 \<Longrightarrow>
    k_state s etimer_process = PROCESS_STATE_RUNNING \<Longrightarrow> p \<noteq> etimer_process \<Longrightarrow> chain (et_next s) (tm_list s) ts \<Longrightarrow>
    \<exists>r s'. kernel_call thr (Notify p qo, s) = Some (r, s') \<and> told_frame p s s' \<and>
      chain (et_next s') (tm_list s') (if etimer_process \<in> set qs then filter (\<lambda>t. et_p s t \<noteq> Some p) ts else ts)"
proof (induction qs arbitrary: qo s ts)
  case Nil
  then show ?case
    by (subst kernel_call.simps) (simp add: kcall_body_def notify_body_def told_frame_def)
next
  case (Cons q qs)
  then have qo: "qo = Some q" and ch: "chain (k_next s) (k_next s q) qs" by auto
  define ts1 where "ts1 = (if q = etimer_process then filter (\<lambda>t. et_p s t \<noteq> Some p) ts else ts)"
  obtain r s1 where s1: "(if p \<noteq> q then kernel_call thr (Call q PROCESS_EVENT_EXITED (Some p), s) else Some (0, s)) = Some (r, s1)"
    "told_frame p s s1" "chain (et_next s1) (tm_list s1) ts1"
  proof (cases "p = q")
    case False
    then show thesis
      using call_told [OF told not_sym, OF False Cons.prems(2-4,6)] that by (auto simp: call_process_def ts1_def)
  next
    case True
    then show thesis
      using that Cons.prems(5,6) by (simp add: told_frame_def ts1_def)
  qed
  have p1: "et_p s1 = et_p s"
    using s1(2) by (simp add: told_frame_def)
  have "chain (k_next s1) (k_next s1 q) qs" "k_lc s1 etimer_process \<noteq> 0" "k_lc s1 ctimer_process \<noteq> 0"
    "k_state s1 etimer_process = PROCESS_STATE_RUNNING"
    using s1(2) ch Cons.prems(2-4) by (simp_all add: told_frame_def)
  from Cons.IH [OF this Cons.prems(5) s1(3), unfolded p1] obtain r' s' where
    s': "kernel_call thr (Notify p (k_next s1 q), s1) = Some (r', s')" "told_frame p s1 s'"
      "chain (et_next s') (tm_list s') (if etimer_process \<in> set qs then filter (\<lambda>t. et_p s t \<noteq> Some p) ts1 else ts1)"
    by blast
  moreover have "(if etimer_process \<in> set qs then filter (\<lambda>t. et_p s t \<noteq> Some p) ts1 else ts1) =
      (if etimer_process \<in> set (q # qs) then filter (\<lambda>t. et_p s t \<noteq> Some p) ts else ts)"
    by (simp add: ts1_def)
  ultimately show ?case
    using qo s1 told_frame_trans [OF s1(2) s'(2)]
    by (subst kernel_call.simps) (simp add: kcall_body_def notify_body_def)
qed

text \<open>C21: A process that calls \<open>process_exit\<close> on itself and then yields is not gone. On a node on which the processes of the event timers and
  of the callback timers have been started, and any other process goes on waiting when it is told of the exit, the call returns:
  the process is off the list of processes, so that it is polled no more and no broadcast reaches it, and its event timers
  are off the list of timers; but the kernel has set its state back to running when its thread returned, and a
  running process is what an event that names it is delivered to.\<close>
theorem self_exit_survives:
  assumes "exit_told p thr" and "thr p = Some g" and "g ev dat = Exit p (Return PT_YIELDED)" and "ev \<noteq> PROCESS_EVENT_EXIT"
    and "chain (k_next s) (k_list s) ps" and "etimer_process \<in> set ps" and "chain (et_next s) (tm_list s) ts"
    and "k_state s p = PROCESS_STATE_RUNNING" and "k_state s etimer_process = PROCESS_STATE_RUNNING"
    and "k_lc s etimer_process \<noteq> 0" and "k_lc s ctimer_process \<noteq> 0"
  shows "\<exists>s'. call_process thr p ev dat s = Some s' \<and> chain (k_next s') (k_list s') (remove1 p ps)
     \<and> chain (et_next s') (tm_list s') (filter (\<lambda>t. et_p s t \<noteq> Some p) ts)
     \<and> process_is_running p s' \<and> k_state s' p = PROCESS_STATE_RUNNING"
proof -
  let ?c = "s\<lparr>k_current := Some p, k_state := (k_state s)(p := PROCESS_STATE_CALLED)\<rparr>"
  let ?n = "?c\<lparr>k_state := (k_state ?c)(p := PROCESS_STATE_NONE)\<rparr>"
  have p: "p \<noteq> etimer_process"
    using assms(1-3) by (auto simp: exit_told_def etimer_thread_def)
  obtain r s1 where s1: "kernel_call thr (Notify p (k_list s), ?n) = Some (r, s1)" "told_frame p ?n s1"
    "chain (et_next s1) (tm_list s1) (filter (\<lambda>t. et_p s t \<noteq> Some p) ts)"
    using notify_told [OF assms(1), of ?n "k_list s" ps ts] assms(5-11) p by auto
  have "chain (k_next s1) (k_list s1) ps"
    using assms(5) s1 by (simp add: told_frame_def)
  from process_unlink_chain [OF this, of p] obtain s2 where
    s2: "process_unlink p s1 = Some s2" "chain (k_next s2) (k_list s2) (remove1 p ps)" by blast
  have t: "et_next s2 = et_next s1" "tm_list s2 = tm_list s1"
    using s2(1) by (auto simp: process_unlink_def split: if_splits)
  have "process_exit thr p ?c = Some (s2\<lparr>k_current := Some p\<rparr>)"
    unfolding process_exit_def exit_call_body_def
    by (subst kernel_call.simps) (use s1(1) s2(1) in \<open>simp add: kcall_body_def exit_body_def process_is_running_def process_states\<close>)
  then have "run_thread thr (g ev dat) ?c = Some (PT_YIELDED, s2\<lparr>k_current := Some p\<rparr>)"
    by (simp add: assms(3) run_thread_simps)
  then have "call_process thr p ev dat s = Some (s2\<lparr>k_current := Some p, k_state := (k_state s2)(p := PROCESS_STATE_RUNNING)\<rparr>)"
    using assms(2,4,8) by (subst call_process_eq) (simp add: process_states pt_results)
  with s2(2) s1(3) t show ?thesis
    by (simp add: process_is_running_def process_states)
qed

text \<open>A node with two applications, 3, which waits, and 4, which exits and has a timer.\<close>

definition exit_threads :: "ctimers threads" where
  "exit_threads = (node_threads (node_program\<lparr>process_program := (\<lambda>_. None)\<rparr>))
     (3 := Some (\<lambda>ev dat. Return PT_YIELDED), 4 := Some (\<lambda>ev dat. Exit 4 (Return PT_YIELDED)))"

definition exit_state :: ctimers where
  "exit_state = (process_link 4 (process_link 3 node_ready))\<lparr>tm_list := Some 200, et_p := (\<lambda>_. None)(200 := Some 4)\<rparr>"

lemma self_exit_survives_witness:
  "\<exists>s'. call_process exit_threads 4 PROCESS_EVENT_CONTINUE None exit_state = Some s'
     \<and> chain (k_next s') (k_list s') [3, ctimer_process, etimer_process] \<and> tm_list s' = None \<and> process_is_running 4 s'"
proof -
  have thr: "exit_told 4 exit_threads" "exit_threads 4 = Some (\<lambda>ev dat. Exit 4 (Return PT_YIELDED))"
    by (auto simp: exit_told_def exit_threads_def node_threads_def etimer_process_def ctimer_process_def)
  have ev: "PROCESS_EVENT_CONTINUE \<noteq> PROCESS_EVENT_EXIT"
    by (simp add: process_events)
  have ps: "chain (k_next exit_state) (k_list exit_state) [4, 3, ctimer_process, etimer_process]"
    "etimer_process \<in> set [4, 3, ctimer_process, etimer_process]"
    "chain (et_next exit_state) (tm_list exit_state) [200]" "k_state exit_state 4 = PROCESS_STATE_RUNNING"
    "k_state exit_state etimer_process = PROCESS_STATE_RUNNING" "k_lc exit_state etimer_process \<noteq> 0" "k_lc exit_state ctimer_process \<noteq> 0"
    by (simp_all add: exit_state_def process_link_def node_states etimer_process_def ctimer_process_def process_states)
  from self_exit_survives [OF thr refl ev ps] show ?thesis
    by (auto simp: exit_state_def)
qed

section \<open>A poll of the event timers\<close>

text \<open>C13: one poll of the event timers posts an event to the owner of every timer that has expired, in the
  order of the list, as far as the queue of eight events has room. The timers that were posted are off
  the list and marked as expired, the others stay in their order, and if an expired timer is among them the process is polled again.\<close>
theorem etimer_poll:
  assumes "thr etimer_process = Some etimer_thread" and "timers_ok suf s" and "chain (et_next s) (tm_list s) ts"
  shows "\<exists>s'. call_process thr etimer_process PROCESS_EVENT_POLL None (poll_begin etimer_process s) = Some s'
    \<and> (let posted = take (8 - unat (k_nevents s)) (filter (\<lambda>t. timer_expired (tm_count s) (et_timer s t)) ts)
       in queued s' = queued s @ map (\<lambda>t. \<lparr>ed_ev = PROCESS_EVENT_TIMER, ed_data = Some t, ed_p = et_p s t\<rparr>) posted
        \<and> chain (et_next s') (tm_list s') (filter (\<lambda>t. t \<notin> set posted) ts)
        \<and> (\<forall>t. etimer_expired t s' \<longleftrightarrow> t \<in> set posted \<or> etimer_expired t s)
        \<and> (k_needspoll s' etimer_process \<longleftrightarrow> (\<exists>t\<in>set ts. t \<notin> set posted \<and> timer_expired (tm_count s) (et_timer s t))))"
proof -
  note core = timers_ok_list(1) [OF assms(2,3)]
  from etimer_call [of thr, OF assms(1) core] obtain s3 where res: "poll_result (etimer_called s) ts s3"
    and call: "call_process thr etimer_process PROCESS_EVENT_POLL None (poll_begin etimer_process s) =
         Some (s3\<lparr>k_state := (k_state s3)(etimer_process := PROCESS_STATE_RUNNING)\<rparr>)" by blast
  let ?c = "etimer_called s"
  have c: "expired ?c = expired s" "room ?c = room s" "queued ?c = queued s" "timer_event ?c = timer_event s" "et_p ?c = et_p s"
    by (simp_all add: etimer_called_def poll_begin_def clock_time_def room_def queued_def timer_event_def fun_eq_iff)
  note r = res [unfolded poll_result_def Let_def c]
  have "k_needspoll s3 etimer_process \<longleftrightarrow> (\<exists>t\<in>set (kept_of (expired s) (room s) ts). expired s t)"
    using r by (simp add: etimer_called_def poll_begin_def etimer_request_poll_def process_poll_def process_states)
  with r call show ?thesis
    by (auto simp: Let_def posted_of_def kept_of_def room_def clock_time_def timer_event_def etimer_expired_def queued_def ring_ok_def)
qed

lemma etimer_poll_witness:
  "\<exists>s s'. ctimer_set 100 0 (Some 50) None node_ready = Some s
     \<and> call_process (node_threads node_program) etimer_process PROCESS_EVENT_POLL None (poll_begin etimer_process s) = Some s'
     \<and> queued s' = [\<lparr>ed_ev = PROCESS_EVENT_TIMER, ed_data = Some (ct_etimer 100), ed_p = Some ctimer_process\<rparr>]"
proof -
  obtain s where s: "ctimer_set 100 0 (Some 50) None node_ready = Some s" "chain (et_next s) (tm_list s) [ct_etimer 100]"
    "timer_expired (tm_count s) (et_timer s (ct_etimer 100))" "et_p s (ct_etimer 100) = Some ctimer_process" "queued s = []"
    by (simp add: node_states node_exec timer_expired_def queued_def)
  have thr: "node_threads node_program etimer_process = Some etimer_thread"
    by (simp add: node_threads_def)
  have "timers_ok [] s"
    using ctimer_call_ok(1) [OF node_ready_ok, of 100 0 "Some 50" None] s(1) by (simp add: call_ok_def)
  moreover have "k_nevents s = 0"
    using s(5) by (simp add: queued_def word_gt_0 unat_eq_0)
  ultimately show ?thesis
    using etimer_poll [of "node_threads node_program" "[]" s "[ct_etimer 100]", OF thr _ s(2)] s by (auto simp: Let_def)
qed

end
